(* ===== verification/Prelude.thy ===== *)
theory Prelude
  imports Main "HOL-Library.Word"
begin

text \<open>
  Shared vocabulary of the development: machine-integer names, byte encodings, the error
  type, and the state-and-error monad in which the stateful code is written.

  A computation maps a state to \<open>None\<close> (it does not return) or to an outcome together
  with the state it leaves behind.  An outcome is a value, an error propagated by the
  question-mark operator (the state changes made before it stay), or a panic (a failed
  assertion, an out-of-range slice, a null or dangling pointer).  The profile modelled is
  debug assertions on, overflow checks off: \<open>+\<close> and \<open>-\<close> on \<open>u32\<close> wrap.
\<close>

unbundle bit_operations_syntax

type_synonym u8 = "8 word"
type_synonym u16 = "16 word"
type_synonym u32 = "32 word"
type_synonym bytes = "u8 list"
type_synonym pair = "u32 \<times> u32"

named_theorems byte_simps \<open>byte encodings\<close>
named_theorems run_simps \<open>running the monad's primitives\<close>
named_theorems keeps_intros \<open>frame rules of the combinators, independent of the relation\<close>

subsection \<open>Errors and outcomes\<close>

datatype error = Io | Corrupt | NoEntry | Exists | NotDir | IsDir | NotEmpty | Invalid
  | NoSpace | NoMemory | NoAttribute | NameTooLong | FileTooBig

datatype 'a outcome = Val 'a | Exc error | Panic

type_synonym ('s, 'a) m = "'s \<Rightarrow> ('a outcome \<times> 's) option"

definition ret :: "'a \<Rightarrow> ('s, 'a) m" where
  "ret x s = Some (Val x, s)"

definition throw :: "error \<Rightarrow> ('s, 'a) m" where
  "throw e s = Some (Exc e, s)"

definition panic :: "('s, 'a) m" where
  "panic s = Some (Panic, s)"

definition gets :: "('s \<Rightarrow> 'a) \<Rightarrow> ('s, 'a) m" where
  "gets f s = Some (Val (f s), s)"

definition modify :: "('s \<Rightarrow> 's) \<Rightarrow> ('s, unit) m" where
  "modify f s = Some (Val (), f s)"

definition bnd :: "('s, 'a) m \<Rightarrow> ('a \<Rightarrow> ('s, 'b) m) \<Rightarrow> ('s, 'b) m" where
  "bnd c k s = (case c s of
      None \<Rightarrow> None
    | Some (Val x, t) \<Rightarrow> k x t
    | Some (Exc e, t) \<Rightarrow> Some (Exc e, t)
    | Some (Panic, t) \<Rightarrow> Some (Panic, t))"

text \<open>\<open>attempt c\<close> is \<open>let r = c;\<close> without the question mark: the error is a value.\<close>

definition attempt :: "('s, 'a) m \<Rightarrow> ('s, error + 'a) m" where
  "attempt c s = (case c s of
      None \<Rightarrow> None
    | Some (Val x, t) \<Rightarrow> Some (Val (Inr x), t)
    | Some (Exc e, t) \<Rightarrow> Some (Val (Inl e), t)
    | Some (Panic, t) \<Rightarrow> Some (Panic, t))"

definition lift_res :: "error + 'a \<Rightarrow> ('s, 'a) m" where
  "lift_res r = (case r of Inl e \<Rightarrow> throw e | Inr x \<Rightarrow> ret x)"

text \<open>\<open>lfs_assert!\<close> and the run-time checks of the language.\<close>

definition check :: "bool \<Rightarrow> ('s, unit) m" where
  "check P = (if P then ret () else panic)"

text \<open>
  Every loop of the source is \<open>mloop body x\<close>: the body is run on the loop variables and
  either continues with new ones (\<open>Inl\<close>) or leaves the loop with a result (\<open>Inr\<close>).
  A loop that never leaves is \<open>None\<close>.
\<close>

partial_function (option) mloop_run ::
  "('x \<Rightarrow> ('s, 'x + 'r) m) \<times> 'x \<times> 's \<Rightarrow> ('r outcome \<times> 's) option" where
  "mloop_run a = (case a of (body, x, s) \<Rightarrow>
     Option.bind (body x s) (\<lambda>(r, t). case r of
        Val (Inl y) \<Rightarrow> mloop_run (body, y, t)
      | Val (Inr z) \<Rightarrow> Some (Val z, t)
      | Exc e \<Rightarrow> Some (Exc e, t)
      | Panic \<Rightarrow> Some (Panic, t)))"

definition mloop :: "('x \<Rightarrow> ('s, 'x + 'r) m) \<Rightarrow> 'x \<Rightarrow> ('s, 'r) m" where
  "mloop body x s = mloop_run (body, x, s)"

lemma mloop_unfold [code]:
  "mloop body x s = (case body x s of
      None \<Rightarrow> None
    | Some (Val (Inl y), t) \<Rightarrow> mloop body y t
    | Some (Val (Inr z), t) \<Rightarrow> Some (Val z, t)
    | Some (Exc e, t) \<Rightarrow> Some (Exc e, t)
    | Some (Panic, t) \<Rightarrow> Some (Panic, t))"
  by (auto simp: mloop_def mloop_run.simps [of "(body, x, s)"] split: option.splits outcome.splits
      sum.splits)

text \<open>Induction on a loop that returned: one unfolding, with the property for the rest.\<close>

lemma mloop_induct [consumes 1, case_names step]:
  assumes run: "mloop body x s = Some (r, t)"
    and step: "\<And>x s r t. (case body x s of
        Some (Val (Inl y), u) \<Rightarrow> P y u r t
      | Some (Val (Inr z), u) \<Rightarrow> r = Val z \<and> t = u
      | Some (Exc e, u) \<Rightarrow> r = Exc e \<and> t = u
      | Some (Panic, u) \<Rightarrow> r = Panic \<and> t = u
      | None \<Rightarrow> False) \<Longrightarrow> P x s r t"
  shows "P x s r t"
proof -
  let ?P = "\<lambda>a rt. fst a = body \<longrightarrow> P (fst (snd a)) (snd (snd a)) (fst rt) (snd rt)"
  from run have run': "mloop_run (body, x, s) = Some (r, t)" by (simp add: mloop_def)
  have "?P (body, x, s) (r, t)"
  proof (rule mloop_run.raw_induct [where P = ?P, OF _ run'], intro impI)
    fix f a rt
    assume IH: "\<And>a rt. f a = Some rt \<Longrightarrow> ?P a rt" and fb: "fst a = body"
      and eq: "(case a of (body, x, s) \<Rightarrow> Option.bind (body x s) (\<lambda>(r, t). case r of
          Val (Inl y) \<Rightarrow> f (body, y, t) | Val (Inr z) \<Rightarrow> Some (Val z, t)
        | Exc e \<Rightarrow> Some (Exc e, t) | Panic \<Rightarrow> Some (Panic, t))) = Some rt"
    obtain x s where a: "a = (body, x, s)" using fb by (cases a) auto
    show "P (fst (snd a)) (snd (snd a)) (fst rt) (snd rt)"
    proof (rule step, unfold a, simp only: fst_conv snd_conv)
      show "case body x s of
          Some (Val (Inl y), u) \<Rightarrow> P y u (fst rt) (snd rt)
        | Some (Val (Inr z), u) \<Rightarrow> fst rt = Val z \<and> snd rt = u
        | Some (Exc e, u) \<Rightarrow> fst rt = Exc e \<and> snd rt = u
        | Some (Panic, u) \<Rightarrow> fst rt = Panic \<and> snd rt = u
        | None \<Rightarrow> False"
        using eq by (auto simp: a split: outcome.splits sum.splits option.splits
            Option.bind_splits dest!: IH)
    qed
  qed
  then show ?thesis by simp
qed

text \<open>A \<open>for\<close> over the elements of a list, carrying an accumulator.\<close>

fun mfold :: "('x \<Rightarrow> 'c \<Rightarrow> ('s, 'c) m) \<Rightarrow> 'x list \<Rightarrow> 'c \<Rightarrow> ('s, 'c) m" where
  "mfold f [] c = ret c"
| "mfold f (x # xs) c = bnd (f x c) (mfold f xs)"

lemma ret_run [run_simps]: "ret x s = Some (Val x, s)"
  by (simp add: ret_def)

lemma throw_run [run_simps]: "throw e s = Some (Exc e, s)"
  by (simp add: throw_def)

lemma panic_run [run_simps]: "panic s = Some (Panic, s)"
  by (simp add: panic_def)

lemma gets_run [run_simps]: "gets f s = Some (Val (f s), s)"
  by (simp add: gets_def)

lemma modify_run [run_simps]: "modify f s = Some (Val (), f s)"
  by (simp add: modify_def)

lemma bnd_ret [simp]: "bnd (ret x) k = k x"
  by (simp add: fun_eq_iff bnd_def ret_def)

lemma bnd_gets [run_simps]: "bnd (gets f) k s = k (f s) s"
  by (simp add: bnd_def gets_def)

lemma bnd_modify [run_simps]: "bnd (modify f) k s = k () (f s)"
  by (simp add: bnd_def modify_def)

lemma bnd_assoc: "bnd (bnd c f) g = bnd c (\<lambda>x. bnd (f x) g)"
  by (auto simp: fun_eq_iff bnd_def split: option.splits outcome.splits)

lemma bnd_throw [simp]: "bnd (throw e) k = throw e"
  by (simp add: fun_eq_iff bnd_def throw_def)

lemma bnd_panic [simp]: "bnd panic k = panic"
  by (simp add: fun_eq_iff bnd_def panic_def)

lemma check_True [simp]: "check True = ret ()"
  by (simp add: check_def)

lemma check_False [simp]: "check False = panic"
  by (simp add: check_def)

lemma lift_res_simps [simp]: "lift_res (Inl e) = throw e" "lift_res (Inr x) = ret x"
  by (simp_all add: lift_res_def)

lemma bnd_run_Val: "c s = Some (Val x, t) \<Longrightarrow> bnd c k s = k x t"
  by (simp add: bnd_def)

lemma bnd_run_Exc: "c s = Some (Exc e, t) \<Longrightarrow> bnd c k s = Some (Exc e, t)"
  by (simp add: bnd_def)

lemma attempt_run_Val: "c s = Some (Val x, t) \<Longrightarrow> attempt c s = Some (Val (Inr x), t)"
  by (simp add: attempt_def)

lemma attempt_run_Exc: "c s = Some (Exc e, t) \<Longrightarrow> attempt c s = Some (Val (Inl e), t)"
  by (simp add: attempt_def)

subsection \<open>Total correctness\<close>

text \<open>\<open>wp c Q s\<close>: from \<open>s\<close> the computation returns, and its outcome satisfies \<open>Q\<close>.\<close>

definition wp :: "('s, 'a) m \<Rightarrow> ('a outcome \<Rightarrow> 's \<Rightarrow> bool) \<Rightarrow> 's \<Rightarrow> bool" where
  "wp c Q s = (case c s of None \<Rightarrow> False | Some (r, t) \<Rightarrow> Q r t)"

lemma wpI: "c s = Some (r, t) \<Longrightarrow> Q r t \<Longrightarrow> wp c Q s"
  by (simp add: wp_def)

lemma wpE:
  assumes "wp c Q s"
  obtains r t where "c s = Some (r, t)" and "Q r t"
  using assms by (auto simp: wp_def split: option.splits)

lemma wp_mono: "wp c Q s \<Longrightarrow> (\<And>r t. Q r t \<Longrightarrow> Q' r t) \<Longrightarrow> wp c Q' s"
  by (auto simp: wp_def split: option.splits)

lemma wp_bnd:
  assumes "wp c (\<lambda>r t. case r of Val x \<Rightarrow> wp (k x) Q t | Exc e \<Rightarrow> Q (Exc e) t
    | Panic \<Rightarrow> Q Panic t) s"
  shows "wp (bnd c k) Q s"
  using assms by (auto simp: wp_def bnd_def split: option.splits outcome.splits)

lemma wp_attempt:
  assumes "wp c (\<lambda>r t. case r of Val x \<Rightarrow> Q (Val (Inr x)) t | Exc e \<Rightarrow> Q (Val (Inl e)) t
    | Panic \<Rightarrow> Q Panic t) s"
  shows "wp (attempt c) Q s"
  using assms by (auto simp: wp_def attempt_def split: option.splits outcome.splits)

lemma wp_ret [run_simps]: "wp (ret x) Q s = Q (Val x) s"
  by (simp add: wp_def run_simps)

lemma wp_throw [run_simps]: "wp (throw e) Q s = Q (Exc e) s"
  by (simp add: wp_def run_simps)

lemma wp_panic [run_simps]: "wp panic Q s = Q Panic s"
  by (simp add: wp_def run_simps)

lemma wp_gets [run_simps]: "wp (gets f) Q s = Q (Val (f s)) s" "wp (bnd (gets f) k) Q' s = wp (k (f s)) Q' s"
  by (simp_all add: wp_def run_simps)

lemma wp_modify [run_simps]: "wp (modify g) Q s = Q (Val ()) (g s)" "wp (bnd (modify g) k') Q' s = wp (k' ()) Q' (g s)"
  by (simp_all add: wp_def run_simps)

text \<open>The loop rule: an invariant and a measure that every continuing iteration decreases.\<close>

lemma wp_mloop:
  fixes \<mu> :: "'x \<Rightarrow> 's \<Rightarrow> nat"
  assumes step: "\<And>x s. I x s \<Longrightarrow> wp (body x) (\<lambda>r t. case r of
        Val (Inl y) \<Rightarrow> I y t \<and> \<mu> y t < \<mu> x s
      | Val (Inr z) \<Rightarrow> Q (Val z) t
      | Exc e \<Rightarrow> Q (Exc e) t
      | Panic \<Rightarrow> Q Panic t) s"
    and start: "I x s"
  shows "wp (mloop body x) Q s"
  using start
proof (induction "\<mu> x s" arbitrary: x s rule: less_induct)
  case less
  from step [OF less.prems] obtain r t where run: "body x s = Some (r, t)"
    and post: "case r of Val (Inl y) \<Rightarrow> I y t \<and> \<mu> y t < \<mu> x s | Val (Inr z) \<Rightarrow> Q (Val z) t
      | Exc e \<Rightarrow> Q (Exc e) t | Panic \<Rightarrow> Q Panic t"
    by (rule wpE)
  show ?case
  proof (cases r)
    case (Val v)
    show ?thesis
    proof (cases v)
      case (Inl y)
      with Val post have "I y t" "\<mu> y t < \<mu> x s" by auto
      then have "wp (mloop body y) Q t" by (rule less.hyps [rotated])
      with run Val Inl show ?thesis
        by (simp add: wp_def mloop_unfold [of body x s])
    next
      case (Inr z)
      with run Val post show ?thesis by (simp add: wp_def mloop_unfold [of body x s])
    qed
  qed (use run post in \<open>auto simp: wp_def mloop_unfold [of body x s]\<close>)
qed

text \<open>
  The same rule with an accessible-part argument instead of a measure is not needed; the
  opposite fact is: a loop whose body, under an invariant, always continues never returns.
\<close>

lemma mloop_diverges:
  assumes step: "\<And>x s. I x s \<Longrightarrow> \<exists>y t. body x s = Some (Val (Inl y), t) \<and> I y t"
    and start: "I x s"
  shows "mloop body x s = None"
proof (rule ccontr)
  assume "mloop body x s \<noteq> None"
  then obtain r t where run: "mloop body x s = Some (r, t)" by auto
  then have "\<not> I x s"
  proof (induction rule: mloop_induct)
    case (step x s r t)
    show ?case
    proof
      assume "I x s"
      then obtain y u where "body x s = Some (Val (Inl y), u)" "I y u" using assms(1) by blast
      with step show False by simp
    qed
  qed
  with start show False by simp
qed

subsection \<open>Partial correctness\<close>

text \<open>\<open>vlp c Q s\<close>: if the computation returns a value from \<open>s\<close>, then value and state satisfy \<open>Q\<close>.\<close>

definition vlp :: "('s, 'a) m \<Rightarrow> ('a \<Rightarrow> 's \<Rightarrow> bool) \<Rightarrow> 's \<Rightarrow> bool" where
  "vlp c Q s \<longleftrightarrow> (\<forall>x t. c s = Some (Val x, t) \<longrightarrow> Q x t)"

lemma vlpD: "vlp c Q s \<Longrightarrow> c s = Some (Val x, t) \<Longrightarrow> Q x t"
  by (simp add: vlp_def)

lemma vlp_mono: "vlp c Q s \<Longrightarrow> (\<And>x t. Q x t \<Longrightarrow> Q' x t) \<Longrightarrow> vlp c Q' s"
  by (auto simp: vlp_def)

lemma vlp_bnd: "vlp c (\<lambda>x t. vlp (k x) Q t) s \<Longrightarrow> vlp (bnd c k) Q s"
  by (auto simp: vlp_def bnd_def split: option.splits outcome.splits)

lemma vlp_basic [run_simps]:
  "vlp (ret x) Q s = Q x s" "vlp (throw e) Q s = True" "vlp panic Q s = True"
  "vlp (modify g) Q' s = Q' () (g s)"
  by (auto simp: vlp_def run_simps)

lemma vlp_bnds [run_simps]:
  "vlp (bnd (gets f) k) Q s = vlp (k (f s)) Q s" "vlp (bnd (modify g) k') Q s = vlp (k' ()) Q (g s)"
  by (simp_all add: vlp_def run_simps)

lemma vlp_True [run_simps]: "vlp c (\<lambda>_ _. True) s"
  by (simp add: vlp_def)

lemma vlp_check [run_simps]: "vlp (bnd (check b) k) Q s \<longleftrightarrow> (b \<longrightarrow> vlp (k ()) Q s)"
  by (cases b) (simp_all add: run_simps)

lemma vlp_mloop:
  assumes step: "\<And>x s. I x s \<Longrightarrow> vlp (body x) (\<lambda>r t. case r of Inl y \<Rightarrow> I y t | Inr z \<Rightarrow> Q z t) s"
    and start: "I x s"
  shows "vlp (mloop body x) Q s"
proof -
  have "I x s \<longrightarrow> (\<forall>z. r = Val z \<longrightarrow> Q z t)" if "mloop body x s = Some (r, t)" for r t
    using that
  proof (induction rule: mloop_induct)
    case (step x s r t)
    show ?case
    proof
      assume "I x s"
      note post = assms(1) [OF this]
      from step obtain v u where v: "body x s = Some (v, u)" by (cases "body x s") auto
      show "\<forall>z. r = Val z \<longrightarrow> Q z t"
      proof (cases v)
        case (Val z)
        then show ?thesis using step post v by (cases z) (auto simp: vlp_def)
      qed (use step v in auto)
    qed
  qed
  with start show ?thesis by (simp add: vlp_def)
qed

subsection \<open>Frames\<close>

text \<open>
  \<open>keeps R c\<close>: every run of \<open>c\<close> that returns, with whatever outcome, relates the state
  before and the state after by \<open>R\<close>.  The combinators preserve any reflexive and
  transitive \<open>R\<close>, so the frame of an operation follows from the frames of the operations
  it calls.
\<close>

definition keeps :: "('s \<Rightarrow> 's \<Rightarrow> bool) \<Rightarrow> ('s, 'a) m \<Rightarrow> bool" where
  "keeps R c \<longleftrightarrow> (\<forall>s r t. c s = Some (r, t) \<longrightarrow> R s t)"

lemma keepsI: "(\<And>s r t. c s = Some (r, t) \<Longrightarrow> R s t) \<Longrightarrow> keeps R c"
  by (simp add: keeps_def)

lemma keepsD: "keeps R c \<Longrightarrow> c s = Some (r, t) \<Longrightarrow> R s t"
  by (simp add: keeps_def)

lemma keeps_if [keeps_intros]:
  "(P \<Longrightarrow> keeps R c) \<Longrightarrow> (\<not> P \<Longrightarrow> keeps R d) \<Longrightarrow> keeps R (if P then c else d)"
  by simp

lemma keeps_case_option [keeps_intros]:
  "keeps R c \<Longrightarrow> (\<And>x. keeps R (d x)) \<Longrightarrow> keeps R (case z of None \<Rightarrow> c | Some x \<Rightarrow> d x)"
  by (cases z) simp_all

lemma keeps_case_sum [keeps_intros]:
  "(\<And>x. keeps R (c x)) \<Longrightarrow> (\<And>x. keeps R (d x)) \<Longrightarrow>
    keeps R (case z of Inl x \<Rightarrow> c x | Inr x \<Rightarrow> d x)"
  by (cases z) simp_all

lemma keeps_case_prod [keeps_intros]:
  "(\<And>x y. keeps R (c x y)) \<Longrightarrow> keeps R (case z of (x, y) \<Rightarrow> c x y)"
  by (cases z) simp

lemma keeps_case_list [keeps_intros]:
  "keeps R c \<Longrightarrow> (\<And>x xs. keeps R (d x xs)) \<Longrightarrow> keeps R (case z of [] \<Rightarrow> c | x # xs \<Rightarrow> d x xs)"
  by (cases z) simp_all

lemma keeps_Let [keeps_intros]: "(\<And>x. keeps R (c x)) \<Longrightarrow> keeps R (let x = e in c x)"
  by simp

locale frame_rel =
  fixes R :: "'s \<Rightarrow> 's \<Rightarrow> bool"
  assumes R_refl: "R s s"
    and R_trans: "R s t \<Longrightarrow> R t u \<Longrightarrow> R s u"
begin

lemma k_ret: "keeps R (ret x)"
  by (auto simp: keeps_def ret_def R_refl)

lemma k_throw: "keeps R (throw e)"
  by (auto simp: keeps_def throw_def R_refl)

lemma k_panic: "keeps R panic"
  by (auto simp: keeps_def panic_def R_refl)

lemma k_gets: "keeps R (gets f)"
  by (auto simp: keeps_def gets_def R_refl)

lemma k_check: "keeps R (check P)"
  by (simp add: check_def k_ret k_panic)

lemma k_lift_res: "keeps R (lift_res r)"
  by (cases r) (simp_all add: k_ret k_throw)

lemma k_modify: "(\<And>s. R s (f s)) \<Longrightarrow> keeps R (modify f)"
  by (auto simp: keeps_def modify_def)

lemma k_bnd:
  assumes c: "keeps R c" and k: "\<And>x. keeps R (k x)"
  shows "keeps R (bnd c k)"
proof (rule keepsI)
  fix s r t
  assume "bnd c k s = Some (r, t)"
  then consider x u where "c s = Some (Val x, u)" "k x u = Some (r, t)"
    | z where "c s = Some (z, t)"
    by (auto simp: bnd_def split: option.splits outcome.splits)
  then show "R s t"
    by cases (blast intro: R_trans dest: keepsD [OF c] keepsD [OF k])+
qed

lemma k_attempt: "keeps R c \<Longrightarrow> keeps R (attempt c)"
  unfolding keeps_def attempt_def by (auto split: option.splits outcome.splits)

lemma k_mloop:
  assumes body: "\<And>x. keeps R (body x)"
  shows "keeps R (mloop body x)"
proof (rule keepsI)
  fix s r t
  assume "mloop body x s = Some (r, t)"
  then show "R s t"
  proof (induction rule: mloop_induct)
    case (step x s r t)
    then obtain z u where run: "body x s = Some (z, u)" by (cases "body x s") auto
    then have "R s u" using body by (auto dest: keepsD)
    with step run show ?case by (auto split: outcome.splits sum.splits intro: R_trans)
  qed
qed

lemma k_mfold: "(\<And>x c. keeps R (f x c)) \<Longrightarrow> keeps R (mfold f xs c)"
  by (induction xs arbitrary: c) (auto intro: k_ret k_bnd)

lemmas k_intros = k_ret k_throw k_panic k_gets k_check k_lift_res k_bnd k_attempt k_mloop
  k_mfold keeps_intros

end

end
