(* ===== verification/Types.thy ===== *)
theory Types
  imports Prelude
begin

text \<open>
  The data the code works on: the constants of \<open>types.rs\<close> and \<open>lfs_type.rs\<close>, the
  on-disk structures, the block cache, the open-list nodes, the configuration and the file
  system state \<open>lfs\<close>.

  Memory.  Raw pointers become addresses.  \<open>l_nodes\<close> holds the structures that are pointed
  to: \<open>LfsMlist\<close>, \<open>LfsDir\<close>, \<open>LfsFile\<close>, which the code casts into each other because they
  share a prefix, and the stack variables of type \<open>LfsMdir\<close> whose address is passed on (a
  node of which only \<open>nd_m\<close> is used).  A pointer to the \<open>m\<close> field of a node is the node's
  address.  \<open>l_bufs\<close> holds the byte buffers, so that two caches that share a buffer (as
  \<open>lfs_file_flush\<close> makes them do) share it here.  \<open>l_dev\<close> is the state of the device
  behind \<open>cfg.context\<close>; its operations are the record \<open>storage\<close>, the model of the trait
  object \<open>dyn Storage\<close>.
\<close>

subsection \<open>Little- and big-endian words\<close>

definition u32_to_le :: "u32 \<Rightarrow> bytes" where
  "u32_to_le w = [ucast w, ucast (drop_bit 8 w), ucast (drop_bit 16 w), ucast (drop_bit 24 w)]"

definition u32_to_be :: "u32 \<Rightarrow> bytes" where
  "u32_to_be w = [ucast (drop_bit 24 w), ucast (drop_bit 16 w), ucast (drop_bit 8 w), ucast w]"

fun u32_from_le :: "bytes \<Rightarrow> u32" where
  "u32_from_le [a, b, c, d] =
     ucast a OR push_bit 8 (ucast b) OR push_bit 16 (ucast c) OR push_bit 24 (ucast d)"
| "u32_from_le _ = 0"

fun u32_from_be :: "bytes \<Rightarrow> u32" where
  "u32_from_be [d, c, b, a] =
     ucast a OR push_bit 8 (ucast b) OR push_bit 16 (ucast c) OR push_bit 24 (ucast d)"
| "u32_from_be _ = 0"

definition pair_to_le :: "pair \<Rightarrow> bytes" where
  "pair_to_le p = u32_to_le (fst p) @ u32_to_le (snd p)"

definition pair_from_le :: "bytes \<Rightarrow> pair" where
  "pair_from_le bs = (u32_from_le (take 4 bs), u32_from_le (take 4 (drop 4 bs)))"

lemma length_u32_to_le [simp]: "length (u32_to_le w) = 4"
  by (simp add: u32_to_le_def)

lemma length_u32_to_be [simp]: "length (u32_to_be w) = 4"
  by (simp add: u32_to_be_def)

lemma length_pair_to_le [simp]: "length (pair_to_le p) = 8"
  by (simp add: pair_to_le_def)

lemma u32_from_to_le [byte_simps]: "u32_from_le (u32_to_le w) = w"
proof (rule bit_word_eqI)
  fix n :: nat
  assume n: "n < LENGTH(32)"
  consider "n < 8" | "8 \<le> n" "n < 16" | "16 \<le> n" "n < 24" | "24 \<le> n" by linarith
  then show "bit (u32_from_le (u32_to_le w)) n = bit w n"
    by cases (use n in \<open>auto simp: u32_to_le_def bit_simps\<close>)
qed

lemma u32_from_to_be [byte_simps]: "u32_from_be (u32_to_be w) = w"
proof (rule bit_word_eqI)
  fix n :: nat
  assume n: "n < LENGTH(32)"
  consider "n < 8" | "8 \<le> n" "n < 16" | "16 \<le> n" "n < 24" | "24 \<le> n" by linarith
  then show "bit (u32_from_be (u32_to_be w)) n = bit w n"
    by cases (use n in \<open>auto simp: u32_to_be_def bit_simps\<close>)
qed

lemma byte_of_quad:
  fixes a b c d :: u8
  defines "w \<equiv> (ucast a OR push_bit 8 (ucast b) OR push_bit 16 (ucast c) OR push_bit 24 (ucast d) :: u32)"
  shows "ucast w = a" "ucast (drop_bit 8 w) = b" "ucast (drop_bit 16 w) = c"
    "ucast (drop_bit 24 w) = d"
  by (rule bit_word_eqI, auto simp: w_def bit_simps dest: bit_imp_le_length)+

lemma length_4_conv: "length xs = 4 \<longleftrightarrow> (\<exists>a b c d. xs = [a, b, c, d])"
  by (auto simp: numeral_eq_Suc length_Suc_conv)

lemma u32_to_from_le [byte_simps]: "length bs = 4 \<Longrightarrow> u32_to_le (u32_from_le bs) = bs"
  by (auto simp: u32_to_le_def length_4_conv byte_of_quad simp del: push_bit_numeral drop_bit_or)

lemma u32_to_from_be [byte_simps]: "length bs = 4 \<Longrightarrow> u32_to_be (u32_from_be bs) = bs"
  by (auto simp: u32_to_be_def length_4_conv byte_of_quad simp del: push_bit_numeral drop_bit_or)

lemma pair_from_to_le [byte_simps]: "pair_from_le (pair_to_le p) = p"
  by (simp add: pair_from_le_def pair_to_le_def byte_simps)

lemma u32_to_le_inj: "u32_to_le v = u32_to_le w \<longleftrightarrow> v = w"
  by (metis u32_from_to_le)

subsection \<open>Constants\<close>

definition LFS_NAME_MAX :: u32 where "LFS_NAME_MAX = 255"
definition LFS_FILE_MAX :: u32 where "LFS_FILE_MAX = 2147483647"
definition LFS_ATTR_MAX :: u32 where "LFS_ATTR_MAX = 1022"
definition LFS_DISK_VERSION :: u32 where "LFS_DISK_VERSION = 0x00020001"
definition LFS_DISK_VERSION_MAJOR :: u32 where
  "LFS_DISK_VERSION_MAJOR = 0xffff AND drop_bit 16 LFS_DISK_VERSION"
definition LFS_DISK_VERSION_MINOR :: u32 where
  "LFS_DISK_VERSION_MINOR = 0xffff AND LFS_DISK_VERSION"
definition LFS_BLOCK_NULL :: u32 where "LFS_BLOCK_NULL = - 1"
definition LFS_BLOCK_INLINE :: u32 where "LFS_BLOCK_INLINE = - 2"

definition LFS_OK_RELOCATED :: nat where "LFS_OK_RELOCATED = 1"
definition LFS_OK_DROPPED :: nat where "LFS_OK_DROPPED = 2"
definition LFS_OK_ORPHANED :: nat where "LFS_OK_ORPHANED = 3"

definition TYPE_NONE :: u8 where "TYPE_NONE = 0"
definition TYPE_REG :: u8 where "TYPE_REG = 1"
definition TYPE_DIR :: u8 where "TYPE_DIR = 2"

definition LFS_TYPE3_REG :: u16 where "LFS_TYPE3_REG = 0x001"
definition LFS_TYPE3_DIR :: u16 where "LFS_TYPE3_DIR = 0x002"
definition LFS_TYPE_SPLICE :: u16 where "LFS_TYPE_SPLICE = 0x400"
definition LFS_TYPE_NAME :: u16 where "LFS_TYPE_NAME = 0x000"
definition LFS_TYPE_STRUCT :: u16 where "LFS_TYPE_STRUCT = 0x200"
definition LFS_TYPE_USERATTR :: u16 where "LFS_TYPE_USERATTR = 0x300"
definition LFS_TYPE_TAIL :: u16 where "LFS_TYPE_TAIL = 0x600"
definition LFS_TYPE_GLOBALS :: u16 where "LFS_TYPE_GLOBALS = 0x700"
definition LFS_TYPE_CREATE :: u16 where "LFS_TYPE_CREATE = 0x401"
definition LFS_TYPE_DELETE :: u16 where "LFS_TYPE_DELETE = 0x4ff"
definition LFS_TYPE_SUPERBLOCK :: u16 where "LFS_TYPE_SUPERBLOCK = 0x0ff"
definition LFS_TYPE_DIRSTRUCT :: u16 where "LFS_TYPE_DIRSTRUCT = 0x200"
definition LFS_TYPE_CTZSTRUCT :: u16 where "LFS_TYPE_CTZSTRUCT = 0x202"
definition LFS_TYPE_INLINESTRUCT :: u16 where "LFS_TYPE_INLINESTRUCT = 0x201"
definition LFS_TYPE_SOFTTAIL :: u16 where "LFS_TYPE_SOFTTAIL = 0x600"
definition LFS_TYPE_MOVESTATE :: u16 where "LFS_TYPE_MOVESTATE = 0x7ff"
definition LFS_TYPE_CCRC :: u16 where "LFS_TYPE_CCRC = 0x500"
definition LFS_TYPE_FCRC :: u16 where "LFS_TYPE_FCRC = 0x5ff"
definition LFS_FROM_NOOP :: u16 where "LFS_FROM_NOOP = 0x000"
definition LFS_FROM_MOVE :: u16 where "LFS_FROM_MOVE = 0x101"
definition LFS_FROM_USERATTRS :: u16 where "LFS_FROM_USERATTRS = 0x102"

lemmas type_defs = LFS_TYPE3_REG_def LFS_TYPE3_DIR_def LFS_TYPE_SPLICE_def LFS_TYPE_NAME_def
  LFS_TYPE_STRUCT_def LFS_TYPE_USERATTR_def LFS_TYPE_TAIL_def LFS_TYPE_GLOBALS_def
  LFS_TYPE_CREATE_def LFS_TYPE_DELETE_def LFS_TYPE_SUPERBLOCK_def LFS_TYPE_DIRSTRUCT_def
  LFS_TYPE_CTZSTRUCT_def LFS_TYPE_INLINESTRUCT_def LFS_TYPE_SOFTTAIL_def LFS_TYPE_MOVESTATE_def
  LFS_TYPE_CCRC_def LFS_TYPE_FCRC_def LFS_FROM_NOOP_def LFS_FROM_MOVE_def LFS_FROM_USERATTRS_def

definition O_READ :: u32 where "O_READ = 0x1"
definition O_WRITE :: u32 where "O_WRITE = 0x2"
definition O_CREATE :: u32 where "O_CREATE = 0x100"
definition O_EXCL :: u32 where "O_EXCL = 0x200"
definition O_TRUNC :: u32 where "O_TRUNC = 0x400"
definition O_APPEND :: u32 where "O_APPEND = 0x800"
definition F_DIRTY :: u32 where "F_DIRTY = 0x010000"
definition F_WRITING :: u32 where "F_WRITING = 0x020000"
definition F_READING :: u32 where "F_READING = 0x040000"
definition F_ERRED :: u32 where "F_ERRED = 0x080000"
definition F_INLINE :: u32 where "F_INLINE = 0x100000"

definition flag_has :: "u32 \<Rightarrow> u32 \<Rightarrow> bool" where "flag_has fl f \<longleftrightarrow> fl AND f = f"
definition flag_set :: "u32 \<Rightarrow> u32 \<Rightarrow> u32" where "flag_set f fl = fl OR f"
definition flag_clear :: "u32 \<Rightarrow> u32 \<Rightarrow> u32" where "flag_clear f fl = fl AND NOT f"

lemma flag_has_set [simp]: "flag_has (flag_set f fl) f"
  unfolding flag_has_def flag_set_def by (rule bit_word_eqI) (auto simp: bit_simps)

lemma flag_has_clear: "f \<noteq> 0 \<Longrightarrow> \<not> flag_has (flag_clear f fl) f"
proof
  assume "f \<noteq> 0" and h: "flag_has (flag_clear f fl) f"
  have "(fl AND NOT f) AND f = 0" by (rule bit_word_eqI) (auto simp: bit_simps)
  with h have "f = 0" by (simp add: flag_has_def flag_clear_def)
  with \<open>f \<noteq> 0\<close> show False by simp
qed

lemma flag_has_set_disj: "f AND g = 0 \<Longrightarrow> flag_has (flag_set g fl) f = flag_has fl f"
proof -
  assume d: "f AND g = 0"
  have "(fl OR g) AND f = (fl AND f) OR (f AND g)"
    by (rule bit_word_eqI) (auto simp: bit_simps)
  with d show ?thesis by (simp add: flag_has_def flag_set_def)
qed

lemma flag_has_clear_disj: "f AND g = 0 \<Longrightarrow> flag_has (flag_clear g fl) f = flag_has fl f"
proof -
  assume d: "f AND g = 0"
  have "(fl AND NOT g) AND f = fl AND f"
  proof (rule bit_word_eqI)
    fix n
    have "bit (f AND g) n = bit (0 :: u32) n" using d by simp
    then show "bit ((fl AND NOT g) AND f) n = bit (fl AND f) n" if "n < LENGTH(32)"
      using that by (auto simp: bit_simps)
  qed
  then show ?thesis by (simp add: flag_has_def flag_clear_def)
qed

subsection \<open>Structures\<close>

record lfs_gstate =
  gs_tag :: u32
  gs_pair :: pair

record lfs_lookahead =
  la_start :: u32
  la_size :: u32
  la_next :: u32
  la_ckpoint :: u32
  la_buffer :: nat

record lfs_cache =
  cache_block :: u32
  cache_off :: nat
  cache_size :: nat
  cache_buffer :: nat

record lfs_mdir =
  md_pair :: pair
  md_rev :: u32
  md_off :: u32
  md_etag :: u32
  md_count :: u16
  md_erased :: bool
  md_split :: bool
  md_tail :: pair

definition mdir_zero :: lfs_mdir where
  "mdir_zero = \<lparr>md_pair = (0, 0), md_rev = 0, md_off = 0, md_etag = 0, md_count = 0,
     md_erased = False, md_split = False, md_tail = (0, 0)\<rparr>"

record lfs_diskoff =
  do_block :: u32
  do_off :: u32

record lfs_commit =
  cm_block :: u32
  cm_off :: u32
  cm_ptag :: u32
  cm_crc :: u32
  cm_begin :: u32
  cm_end :: u32

record lfs_fcrc =
  fcrc_size :: u32
  fcrc_crc :: u32

record lfs_superblock =
  sb_version :: u32
  sb_block_size :: u32
  sb_block_count :: u32
  sb_name_max :: u32
  sb_file_max :: u32
  sb_attr_max :: u32

record lfs_ctz =
  ctz_head :: u32
  ctz_size :: u32

record lfs_attr =
  at_type :: u8
  at_buffer :: bytes

record lfs_file_config =
  fc_buffer :: "nat option"
  fc_attrs :: "lfs_attr list"

text \<open>
  The buffer of a commit attribute is a byte slice that the code reinterprets by the tag's
  type (\<open>lfs_diskoff\<close>, \<open>LfsMdir\<close>, an array of \<open>LfsAttr\<close>); the constructor says which view
  the slice was made from.
\<close>

datatype attr_buf = Bytes bytes | DiskBuf lfs_diskoff | MdirBuf lfs_mdir | AttrsBuf "lfs_attr list"

record lfs_mattr =
  ma_tag :: u32
  ma_buf :: attr_buf

text \<open>
  \<open>LfsMlist\<close> (the first four fields), \<open>LfsDir\<close> (with \<open>nd_dpos\<close>, \<open>nd_head\<close>) and \<open>LfsFile\<close>
  (with the rest); which of them a node is, \<open>nd_type\<close> says.
\<close>

record lfs_node =
  nd_next :: "nat option"
  nd_id :: u16
  nd_type :: u8
  nd_m :: lfs_mdir
  nd_dpos :: u32
  nd_head :: pair
  nd_ctz :: lfs_ctz
  nd_flags :: u32
  nd_pos :: u32
  nd_block :: u32
  nd_off :: u32
  nd_cache :: lfs_cache
  nd_cfg :: lfs_file_config

definition cache_default :: lfs_cache where
  "cache_default = \<lparr>cache_block = 0, cache_off = 0, cache_size = 0, cache_buffer = 0\<rparr>"

definition node_default :: lfs_node where
  "node_default = \<lparr>nd_next = None, nd_id = 0, nd_type = TYPE_NONE, nd_m = mdir_zero, nd_dpos = 0,
     nd_head = (0, 0), nd_ctz = \<lparr>ctz_head = 0, ctz_size = 0\<rparr>, nd_flags = 0, nd_pos = 0,
     nd_block = 0, nd_off = 0, nd_cache = cache_default,
     nd_cfg = \<lparr>fc_buffer = None, fc_attrs = []\<rparr>\<rparr>"

text \<open>
  The trait \<open>Storage\<close>.  A read is given the buffer it fills and returns what the buffer
  holds afterwards, on an error too.
\<close>

record 'd storage =
  st_read :: "u32 \<Rightarrow> u32 \<Rightarrow> bytes \<Rightarrow> 'd \<Rightarrow> (error + unit) \<times> bytes \<times> 'd"
  st_write :: "u32 \<Rightarrow> u32 \<Rightarrow> bytes \<Rightarrow> 'd \<Rightarrow> (error + unit) \<times> 'd"
  st_erase :: "u32 \<Rightarrow> 'd \<Rightarrow> (error + unit) \<times> 'd"
  st_sync :: "'d \<Rightarrow> (error + unit) \<times> 'd"

record 'd lfs_config =
  cfg_context :: "'d storage"
  cfg_read_size :: u32
  cfg_prog_size :: u32
  cfg_block_size :: u32
  cfg_block_count :: u32
  cfg_block_cycles :: u32
  cfg_cache_size :: u32
  cfg_compact_thresh :: u32
  cfg_read_buffer :: nat
  cfg_prog_buffer :: nat
  cfg_lookahead_buffer :: nat
  cfg_name_max :: u32
  cfg_file_max :: u32
  cfg_attr_max :: u32
  cfg_metadata_max :: u32
  cfg_inline_max :: u32

record 'd lfs =
  l_rcache :: lfs_cache
  l_pcache :: lfs_cache
  l_root :: pair
  l_mlist :: "nat option"
  l_seed :: u32
  l_gstate :: lfs_gstate
  l_gdisk :: lfs_gstate
  l_gdelta :: lfs_gstate
  l_lookahead :: lfs_lookahead
  l_cfg :: "'d lfs_config"
  l_block_count :: u32
  l_name_max :: u32
  l_file_max :: u32
  l_attr_max :: u32
  l_inline_max :: u32
  l_bufs :: "nat \<Rightarrow> bytes"
  l_next_buf :: nat
  l_nodes :: "nat \<Rightarrow> lfs_node option"
  l_next_node :: nat
  l_dev :: 'd

type_synonym ('d, 'a) fs = "('d lfs, 'a) m"

subsection \<open>Memory access\<close>

definition get_node :: "nat \<Rightarrow> ('d, lfs_node) fs" where
  "get_node a = bnd (gets (\<lambda>s. l_nodes s a)) (\<lambda>n. case n of None \<Rightarrow> panic | Some x \<Rightarrow> ret x)"

definition upd_node :: "nat \<Rightarrow> (lfs_node \<Rightarrow> lfs_node) \<Rightarrow> ('d, unit) fs" where
  "upd_node a f = bnd (get_node a) (\<lambda>n. modify (\<lambda>s. s\<lparr>l_nodes := (l_nodes s)(a \<mapsto> f n)\<rparr>))"

definition get_mdir :: "nat \<Rightarrow> ('d, lfs_mdir) fs" where
  "get_mdir a = bnd (get_node a) (\<lambda>n. ret (nd_m n))"

definition upd_mdir :: "nat \<Rightarrow> (lfs_mdir \<Rightarrow> lfs_mdir) \<Rightarrow> ('d, unit) fs" where
  "upd_mdir a f = upd_node a (\<lambda>n. n\<lparr>nd_m := f (nd_m n)\<rparr>)"

text \<open>A stack variable whose address is taken: it lives until the block it is declared in ends.\<close>

definition with_node :: "lfs_node \<Rightarrow> (nat \<Rightarrow> ('d, 'a) fs) \<Rightarrow> ('d, 'a) fs" where
  "with_node n body s =
     (let a = l_next_node s
      in case body a (s\<lparr>l_nodes := (l_nodes s)(a \<mapsto> n), l_next_node := Suc a\<rparr>) of
           None \<Rightarrow> None
         | Some (r, t) \<Rightarrow> Some (r, t\<lparr>l_nodes := (l_nodes t)(a := None), l_next_node := a\<rparr>))"

definition with_mdir :: "lfs_mdir \<Rightarrow> (nat \<Rightarrow> ('d, 'a) fs) \<Rightarrow> ('d, 'a) fs" where
  "with_mdir m = with_node (node_default\<lparr>nd_m := m\<rparr>)"

definition get_buf :: "nat \<Rightarrow> ('d, bytes) fs" where
  "get_buf b = gets (\<lambda>s. l_bufs s b)"

definition put_buf :: "nat \<Rightarrow> bytes \<Rightarrow> ('d, unit) fs" where
  "put_buf b bs = modify (\<lambda>s. s\<lparr>l_bufs := (l_bufs s)(b := bs)\<rparr>)"

text \<open>Writing \<open>xs\<close> over the bytes of \<open>bs\<close> from index \<open>i\<close>; the callers check the range.\<close>

definition splice :: "'a list \<Rightarrow> nat \<Rightarrow> 'a list \<Rightarrow> 'a list" where
  "splice bs i xs = take i bs @ xs @ drop (i + length xs) bs"

lemma length_splice [simp]: "i + length xs \<le> length bs \<Longrightarrow> length (splice bs i xs) = length bs"
  by (simp add: splice_def)

lemma nth_splice:
  assumes "i + length xs \<le> length bs" "k < length bs"
  shows "splice bs i xs ! k = (if i \<le> k \<and> k < i + length xs then xs ! (k - i) else bs ! k)"
  using assms by (auto simp: splice_def nth_append min_def)

lemma splice_before: "off + d \<le> i \<Longrightarrow> i \<le> length bs \<Longrightarrow>
    take d (drop off (splice bs i xs)) = take d (drop off bs)"
  by (auto simp: splice_def min_def drop_take)

lemma splice_after: "i + length xs \<le> off \<Longrightarrow> i \<le> length bs \<Longrightarrow>
    drop off (splice bs i xs) = drop off bs"
  by (simp add: splice_def min_def)

lemma splice_inside: "i \<le> off \<Longrightarrow> off + d \<le> i + length xs \<Longrightarrow> i \<le> length bs \<Longrightarrow>
    take d (drop off (splice bs i xs)) = take d (drop (off - i) xs)"
  by (simp add: splice_def min_def)

lemma splice_Nil [simp]: "splice bs i [] = bs"
  by (simp add: splice_def)

lemma splice_full: "length xs = length bs \<Longrightarrow> splice bs 0 xs = xs"
  by (simp add: splice_def)

text \<open>A cache argument: one of the two global caches or the cache of a file.\<close>

datatype cache_ref = RCache | PCache | FCache nat

definition get_cache :: "cache_ref \<Rightarrow> ('d, lfs_cache) fs" where
  "get_cache r = (case r of
      RCache \<Rightarrow> gets l_rcache
    | PCache \<Rightarrow> gets l_pcache
    | FCache a \<Rightarrow> bnd (get_node a) (\<lambda>n. ret (nd_cache n)))"

definition upd_cache :: "cache_ref \<Rightarrow> (lfs_cache \<Rightarrow> lfs_cache) \<Rightarrow> ('d, unit) fs" where
  "upd_cache r f = (case r of
      RCache \<Rightarrow> modify (\<lambda>s. s\<lparr>l_rcache := f (l_rcache s)\<rparr>)
    | PCache \<Rightarrow> modify (\<lambda>s. s\<lparr>l_pcache := f (l_pcache s)\<rparr>)
    | FCache a \<Rightarrow> upd_node a (\<lambda>n. n\<lparr>nd_cache := f (nd_cache n)\<rparr>))"

end
