(* ===== verification/Util.thy ===== *)
theory Util
  imports Types
begin

text \<open>
  \<open>util.rs\<close>: alignment, the bit-counting functions without intrinsics, sequence comparison,
  the path scanners and the operations on block pairs.  The lemmas give each bit trick its
  arithmetic meaning: \<open>lfs_npw2\<close> is the ceiling of the binary logarithm, \<open>lfs_ctz\<close> the
  2-adic valuation, \<open>lfs_popc\<close> the number of one bits.
\<close>

subsection \<open>Definitions\<close>

definition lfs_aligndown :: "u32 \<Rightarrow> u32 \<Rightarrow> u32" where
  "lfs_aligndown a alignment = a - (a mod alignment)"

definition lfs_alignup :: "u32 \<Rightarrow> u32 \<Rightarrow> u32" where
  "lfs_alignup a alignment = lfs_aligndown (a + alignment - 1) alignment"

definition lfs_npw2 :: "u32 \<Rightarrow> u32" where
  "lfs_npw2 a0 =
    (let a = a0 - 1;
         s4 = (if a > 0xffff then 1 else 0 :: nat);
         a = drop_bit (push_bit 4 s4) a;
         s3 = (if a > 0xff then 1 else 0);
         a = drop_bit (push_bit 3 s3) a;
         s2 = (if a > 0xf then 1 else 0);
         a = drop_bit (push_bit 2 s2) a;
         s1 = (if a > 0x3 then 1 else 0);
         a = drop_bit (push_bit 1 s1) a
     in (push_bit 4 (word_of_nat s4) OR push_bit 3 (word_of_nat s3) OR push_bit 2 (word_of_nat s2)
         OR push_bit 1 (word_of_nat s1) OR drop_bit 1 a) + 1)"

definition lfs_ctz :: "u32 \<Rightarrow> u32" where
  "lfs_ctz a = lfs_npw2 ((a AND (- a)) + 1) - 1"

definition lfs_popc :: "u32 \<Rightarrow> u32" where
  "lfs_popc a0 =
    (let a = a0 - (drop_bit 1 a0 AND 0x55555555);
         a = (a AND 0x33333333) + (drop_bit 2 a AND 0x33333333)
     in drop_bit 24 (((a + drop_bit 4 a) AND 0x0f0f0f0f) * 0x01010101))"

definition lfs_scmp :: "u32 \<Rightarrow> u32 \<Rightarrow> int" where
  "lfs_scmp a b = sint (a - b)"

fun position :: "('a \<Rightarrow> bool) \<Rightarrow> 'a list \<Rightarrow> nat option" where
  "position P [] = None"
| "position P (x # xs) = (if P x then Some 0 else map_option Suc (position P xs))"

definition SLASH :: u8 where "SLASH = 47"
definition DOT :: u8 where "DOT = 46"

definition lfs_strspn :: "bytes \<Rightarrow> u8 \<Rightarrow> nat" where
  "lfs_strspn p c = (case position (\<lambda>q. q \<noteq> c) p of Some i \<Rightarrow> i | None \<Rightarrow> length p)"

definition lfs_strcspn :: "bytes \<Rightarrow> u8 \<Rightarrow> nat" where
  "lfs_strcspn p c = (case position (\<lambda>q. q = c) p of Some i \<Rightarrow> i | None \<Rightarrow> length p)"

definition lfs_path_namelen :: "bytes \<Rightarrow> nat" where
  "lfs_path_namelen path = (case position (\<lambda>b. b = SLASH) path of Some i \<Rightarrow> i | None \<Rightarrow> length path)"

definition lfs_path_islast :: "bytes \<Rightarrow> bool" where
  "lfs_path_islast path =
    (let namelen = lfs_path_namelen path;
         rest = (if namelen \<le> length path then drop namelen path else [])
     in list_all (\<lambda>b. b = SLASH) rest)"

definition lfs_path_isdir :: "bytes \<Rightarrow> bool" where
  "lfs_path_isdir path =
    (let namelen = lfs_path_namelen path
     in if namelen < length path then path ! namelen \<noteq> 0 else False)"

definition lfs_pair_swap :: "pair \<Rightarrow> pair" where
  "lfs_pair_swap p = (snd p, fst p)"

definition lfs_pair_isnull :: "pair \<Rightarrow> bool" where
  "lfs_pair_isnull p = (fst p = LFS_BLOCK_NULL \<or> snd p = LFS_BLOCK_NULL)"

definition lfs_pair_cmp :: "pair \<Rightarrow> pair \<Rightarrow> bool" where
  "lfs_pair_cmp a b = (\<not> (fst a = fst b \<or> snd a = snd b \<or> fst a = snd b \<or> snd a = fst b))"

definition lfs_pair_issync :: "pair \<Rightarrow> pair \<Rightarrow> bool" where
  "lfs_pair_issync a b = ((fst a = fst b \<and> snd a = snd b) \<or> (fst a = snd b \<and> snd a = fst b))"

subsection \<open>Alignment\<close>

lemma unat_lfs_aligndown: "unat (lfs_aligndown a n) = unat a - unat a mod unat n"
proof -
  have "a mod n \<le> a" by (simp add: word_le_nat_alt unat_mod)
  then show ?thesis by (simp add: lfs_aligndown_def unat_sub unat_mod)
qed

lemma unat_lfs_aligndown_mult: "unat (lfs_aligndown a n) = unat a div unat n * unat n"
  by (simp add: unat_lfs_aligndown minus_mod_eq_div_mult)

lemma lfs_aligndown_le: "unat (lfs_aligndown a n) \<le> unat a"
  by (simp add: unat_lfs_aligndown)

lemma lfs_aligndown_gt: "n \<noteq> 0 \<Longrightarrow> unat a < unat (lfs_aligndown a n) + unat n"
  by (metis add.commute div_mult_mod_eq mod_less_divisor nat_add_left_cancel_less unat_gt_0
      unat_lfs_aligndown_mult)

lemma lfs_aligndown_dvd: "unat n dvd unat (lfs_aligndown a n)"
  by (simp add: unat_lfs_aligndown_mult)

lemma unat_lfs_alignup:
  assumes "n \<noteq> 0" "unat a + unat n \<le> 2 ^ 32"
  shows "unat (lfs_alignup a n) = (unat a + unat n - 1) div unat n * unat n"
proof -
  have n: "0 < unat n" using assms(1) by (simp add: unat_gt_0)
  have "unat (a + n - 1) = unat a + unat n - 1"
  proof (cases "unat a + unat n = 2 ^ 32")
    case True
    then have "a + n = 0" by (simp add: word_unat_eq_iff unat_word_ariths)
    have "unat (a + n - 1) = 2 ^ 32 - 1" by (simp add: \<open>a + n = 0\<close> unsigned_minus_1_eq_mask mask_eq_exp_minus_1)
    with True show ?thesis by simp
  next
    case False
    with assms(2) have lt: "unat a + unat n < 2 ^ 32" by simp
    then have s: "unat (a + n) = unat a + unat n" by (simp add: unat_word_ariths)
    moreover from s n have "1 \<le> a + n" by (simp add: word_le_nat_alt)
    ultimately show ?thesis by (simp add: unat_sub)
  qed
  then show ?thesis by (simp add: lfs_alignup_def unat_lfs_aligndown_mult)
qed

lemma nat_round_up:
  fixes x n :: nat
  assumes "0 < n"
  shows "x \<le> (x + n - 1) div n * n" and "(x + n - 1) div n * n < x + n"
proof -
  have e: "(x + n - 1) div n * n = (x + n - 1) - (x + n - 1) mod n"
    by (simp only: minus_mod_eq_div_mult)
  have m: "(x + n - 1) mod n < n" using assms by simp
  show "x \<le> (x + n - 1) div n * n" using e m by linarith
  show "(x + n - 1) div n * n < x + n" using e m assms by linarith
qed

lemma lfs_alignup_ge:
  assumes "n \<noteq> 0" "unat a + unat n \<le> 2 ^ 32"
  shows "unat a \<le> unat (lfs_alignup a n)"
  unfolding unat_lfs_alignup [OF assms]
  by (rule nat_round_up) (simp add: assms(1) unat_gt_0)

lemma lfs_alignup_dvd: "unat n dvd unat (lfs_alignup a n)"
  by (simp add: lfs_alignup_def lfs_aligndown_dvd)

lemma lfs_alignup_lt:
  assumes "n \<noteq> 0" "unat a + unat n \<le> 2 ^ 32"
  shows "unat (lfs_alignup a n) < unat a + unat n"
  unfolding unat_lfs_alignup [OF assms]
  by (rule nat_round_up) (simp add: assms(1) unat_gt_0)


subsection \<open>Bit counting\<close>

text \<open>Reference functions on naturals: trailing zeros and number of one bits.\<close>

fun tz :: "nat \<Rightarrow> nat" where
  "tz n = (if n = 0 \<or> odd n then 0 else Suc (tz (n div 2)))"

fun ones :: "nat \<Rightarrow> nat" where
  "ones n = (if n = 0 then 0 else n mod 2 + ones (n div 2))"

declare tz.simps [simp del] ones.simps [simp del]

lemma log_stage:
  fixes m k :: nat
  defines "s \<equiv> (if 2 ^ k \<le> m then 1 else 0)"
  assumes "0 < m" "m < 2 ^ (2 * k)"
  shows "0 < m div 2 ^ (k * s)" "m div 2 ^ (k * s) < 2 ^ k"
    "2 ^ r \<le> m div 2 ^ (k * s) \<Longrightarrow> 2 ^ (k * s + r) \<le> m"
    "m div 2 ^ (k * s) < 2 ^ Suc r \<Longrightarrow> m < 2 ^ Suc (k * s + r)"
proof -
  show "0 < m div 2 ^ (k * s)" using assms by (auto simp: div_greater_zero_iff)
  show "m div 2 ^ (k * s) < 2 ^ k"
    using assms by (auto simp: div_less_iff_less_mult mult_2 simp flip: power_add)
  show "2 ^ (k * s + r) \<le> m" if "2 ^ r \<le> m div 2 ^ (k * s)"
    using that by (simp add: power_add less_eq_div_iff_mult_less_eq mult.commute)
  show "m < 2 ^ Suc (k * s + r)" if "m div 2 ^ (k * s) < 2 ^ Suc r"
    using that by (simp add: power_add div_less_iff_less_mult mult.commute mult.left_commute)
qed

lemma unat_drop_bit_div: "unat (drop_bit n w) = unat w div 2 ^ n" for w :: "'a::len word"
  by (simp only: unat_drop_bit_eq) (simp add: drop_bit_eq_div)

lemma log_bits:
  fixes s4 s3 s2 s1 r :: nat
  assumes "s4 \<le> 1" "s3 \<le> 1" "s2 \<le> 1" "s1 \<le> 1" "r \<le> 1"
  shows "unat ((push_bit 4 (word_of_nat s4) OR push_bit 3 (word_of_nat s3)
      OR push_bit 2 (word_of_nat s2) OR push_bit 1 (word_of_nat s1) OR word_of_nat r) + 1 :: u32)
    = 16 * s4 + (8 * s3 + (4 * s2 + (2 * s1 + r))) + 1"
proof -
  have "x = 0 \<or> x = 1" if "x \<le> 1" for x :: nat using that by arith
  from this [OF assms(1)] this [OF assms(2)] this [OF assms(3)] this [OF assms(4)]
    this [OF assms(5)]
  show ?thesis by (elim disjE) simp_all
qed

lemma lfs_npw2_bounds:
  assumes "2 \<le> unat a"
  shows "unat a \<le> 2 ^ unat (lfs_npw2 a)" and "2 ^ (unat (lfs_npw2 a) - 1) < unat a"
    and "1 \<le> unat (lfs_npw2 a)" and "unat (lfs_npw2 a) \<le> 32"
proof -
  define m where "m = a - 1"
  have um: "unat m = unat a - 1"
    using assms by (simp add: m_def unat_sub word_le_nat_alt)
  have m0: "0 < unat m" using assms um by simp
  define s4 where "s4 = (if m > 0xffff then 1 else 0 :: nat)"
  define a4 where "a4 = drop_bit (16 * s4) m"
  define s3 where "s3 = (if a4 > 0xff then 1 else 0 :: nat)"
  define a3 where "a3 = drop_bit (8 * s3) a4"
  define s2 where "s2 = (if a3 > 0xf then 1 else 0 :: nat)"
  define a2 where "a2 = drop_bit (4 * s2) a3"
  define s1 where "s1 = (if a2 > 0x3 then 1 else 0 :: nat)"
  define a1 where "a1 = drop_bit (2 * s1) a2"
  define r where "r = unat a1 div 2"
  have S4: "s4 = (if 2 ^ 16 \<le> unat m then 1 else 0)" by (auto simp: s4_def word_less_nat_alt)
  have S3: "s3 = (if 2 ^ 8 \<le> unat a4 then 1 else 0)" by (auto simp: s3_def word_less_nat_alt)
  have S2: "s2 = (if 2 ^ 4 \<le> unat a3 then 1 else 0)" by (auto simp: s2_def word_less_nat_alt)
  have S1: "s1 = (if 2 ^ 2 \<le> unat a2 then 1 else 0)" by (auto simp: s1_def word_less_nat_alt)
  have A4: "unat a4 = unat m div 2 ^ (16 * s4)" and A3: "unat a3 = unat a4 div 2 ^ (8 * s3)"
    and A2: "unat a2 = unat a3 div 2 ^ (4 * s2)" and A1: "unat a1 = unat a2 div 2 ^ (2 * s1)"
    by (simp_all only: a4_def a3_def a2_def a1_def unat_drop_bit_div)
  have m32: "unat m < 2 ^ (2 * 16)" using unsigned_less [of m] by simp
  note L4 = log_stage [of "unat m" 16, folded S4 A4, OF m0 m32]
  have b4: "unat a4 < 2 ^ (2 * 8)" using L4(2) by simp
  note L3 = log_stage [of "unat a4" 8, folded S3 A3, OF L4(1) b4]
  have b3: "unat a3 < 2 ^ (2 * 4)" using L3(2) by simp
  note L2 = log_stage [of "unat a3" 4, folded S2 A2, OF L3(1) b3]
  have b2: "unat a2 < 2 ^ (2 * 2)" using L2(2) by simp
  note L1 = log_stage [of "unat a2" 2, folded S1 A1, OF L2(1) b2]
  have r1: "r \<le> 1" and lo: "2 ^ r \<le> unat a1" and hi: "unat a1 < 2 ^ Suc r"
  proof -
    have "unat a1 = 1 \<or> unat a1 = 2 \<or> unat a1 = 3" using L1(1,2) by auto
    then show "r \<le> 1" "2 ^ r \<le> unat a1" "unat a1 < 2 ^ Suc r" by (auto simp: r_def)
  qed
  define n where "n = 16 * s4 + (8 * s3 + (4 * s2 + (2 * s1 + r)))"
  have lom: "2 ^ n \<le> unat m" unfolding n_def
    by (rule L4(3), rule L3(3), rule L2(3), rule L1(3), rule lo)
  have him: "unat m < 2 ^ Suc n" unfolding n_def
    by (rule L4(4), rule L3(4), rule L2(4), rule L1(4), rule hi)
  have d: "drop_bit 1 a1 = word_of_nat r"
    unfolding r_def by (simp flip: unat_drop_bit_div [of 1, simplified])
  have p4: "push_bit 4 s4 = 16 * s4" and p3: "push_bit 3 s3 = 8 * s3"
    and p2: "push_bit 2 s2 = 4 * s2" and p1: "push_bit 1 s1 = 2 * s1"
    by (simp_all add: push_bit_eq_mult)
  have "lfs_npw2 a = (push_bit 4 (word_of_nat s4) OR push_bit 3 (word_of_nat s3)
      OR push_bit 2 (word_of_nat s2) OR push_bit 1 (word_of_nat s1) OR word_of_nat r) + 1"
    unfolding d [symmetric] lfs_npw2_def
    by (simp only: Let_def m_def [symmetric] s4_def [symmetric] p4 a4_def [symmetric]
        s3_def [symmetric] p3 a3_def [symmetric] s2_def [symmetric] p2 a2_def [symmetric]
        s1_def [symmetric] p1 a1_def [symmetric])
  then have N: "unat (lfs_npw2 a) = Suc n"
    using log_bits [of s4 s3 s2 s1 r] r1 by (simp add: n_def s4_def s3_def s2_def s1_def)
  show "unat a \<le> 2 ^ unat (lfs_npw2 a)" using him um N assms by simp
  show "2 ^ (unat (lfs_npw2 a) - 1) < unat a" using lom um N m0 by simp
  show "1 \<le> unat (lfs_npw2 a)" by (simp add: N)
  have "s4 \<le> 1" "s3 \<le> 1" "s2 \<le> 1" "s1 \<le> 1" by (simp_all add: s4_def s3_def s2_def s1_def)
  with r1 show "unat (lfs_npw2 a) \<le> 32" by (simp add: N n_def)
qed

lemma tz_mult: "odd q \<Longrightarrow> tz (2 ^ k * q) = k"
proof (induction k)
  case 0
  then show ?case by (simp add: tz.simps)
next
  case (Suc k)
  then have "0 < q" by (cases q) auto
  with Suc show ?case by (subst tz.simps) (simp add: mult.assoc)
qed

lemma odd_and_minus: "odd w \<Longrightarrow> w AND - w = (1 :: 'a::len word)"
proof (rule bit_word_eqI)
  fix n assume o: "odd w" and n: "n < LENGTH('a)"
  show "bit (w AND - w) n = bit (1 :: 'a word) n"
    using odd_bit_iff_bit_pred [OF o, of n] n o
    by (cases "n = 0") (auto simp: bit_simps bit_minus_iff bit_0 even_and_iff)
qed

lemma low_bit_split:
  fixes a :: "'a::len word"
  assumes "a \<noteq> 0"
  obtains k w where "a = push_bit k w" "odd w" "k < LENGTH('a)" "unat a = 2 ^ k * unat w"
proof -
  define k where "k = (LEAST n. bit a n)"
  from assms obtain n where "bit a n" by (auto simp: bit_eq_iff)
  then have bk: "bit a k" unfolding k_def by (rule LeastI)
  have below: "\<not> bit a i" if "i < k" for i using that not_less_Least unfolding k_def by blast
  have eq: "a = push_bit k (drop_bit k a)"
    by (rule bit_word_eqI) (use below in \<open>auto simp: bit_simps not_le\<close>, (metis not_le le_add_diff_inverse)+)
  have o: "odd (drop_bit k a)" using bk by (simp add: bit_drop_bit_eq flip: bit_0)
  have kl: "k < LENGTH('a)" using bk by (rule bit_imp_le_length)
  have "unat a mod 2 ^ k = 0"
  proof -
    have "take_bit k a = 0" by (rule bit_word_eqI) (use below in \<open>auto simp: bit_simps\<close>)
    then have "take_bit k (unat a) = 0" by (metis unsigned_take_bit_eq unsigned_0)
    then show ?thesis by (simp add: take_bit_eq_mod)
  qed
  then have "unat a = 2 ^ k * unat (drop_bit k a)"
    by (metis add.right_neutral mult_div_mod_eq unat_drop_bit_div)
  with eq o kl show ?thesis using that by blast
qed

lemma unat_lfs_ctz:
  assumes "a \<noteq> 0"
  shows "unat (lfs_ctz a) = tz (unat a)"
proof -
  obtain k w where a: "a = push_bit k w" and o: "odd w" and k: "k < 32"
    and u: "unat a = 2 ^ k * unat w"
    using low_bit_split [OF assms] by auto
  have "bit (unat w) 0 = bit w 0" by (simp only: bit_unsigned_iff) simp
  then have ow: "odd (unat w)" using o by (simp add: bit_0)
  have low: "a AND - a = push_bit k 1"
    by (simp add: a odd_and_minus [OF o] flip: push_bit_minus push_bit_and)
  have uk: "unat (push_bit k 1 :: u32) = 2 ^ k"
    using k unat_of_nat [of "2 ^ k", where ?'a = 32]
    by (simp add: push_bit_eq_mult power_strict_increasing_iff [of "2::nat" k 32, simplified])
  have "(2::nat) ^ k \<le> 2 ^ 31" using k by (intro power_increasing) auto
  then have "(2 ^ k + 1) mod 2 ^ 32 = (2 ^ k + 1 :: nat)" by simp
  then have u1: "unat ((a AND - a) + 1) = 2 ^ k + 1"
    unfolding low unat_word_ariths(1) uk by simp
  define N where "N = lfs_npw2 ((a AND - a) + 1)"
  have b: "(2::nat) ^ k + 1 \<le> 2 ^ unat N" "(2::nat) ^ (unat N - 1) < 2 ^ k + 1" "1 \<le> unat N" "unat N \<le> 32"
    using lfs_npw2_bounds [of "(a AND - a) + 1"] unfolding u1 N_def by auto
  have "k < unat N"
  proof (rule ccontr)
    assume "\<not> k < unat N"
    then have "(2::nat) ^ unat N \<le> 2 ^ k" by (intro power_increasing) auto
    with b(1) show False by simp
  qed
  moreover have "(2::nat) ^ (unat N - 1) \<le> 2 ^ k"
    using b(2) by (simp only: Suc_eq_plus1 [symmetric] less_Suc_eq_le)
  then have "unat N - 1 \<le> k" by simp
  ultimately have "unat N = Suc k" by simp
  then have "unat (N - 1) = k" using b(3) by (simp add: unat_sub word_le_nat_alt)
  then show ?thesis by (simp add: lfs_ctz_def N_def [symmetric] u tz_mult [OF ow])
qed

text \<open>The population count is computed on hexadecimal digits.\<close>

definition hexval :: "nat list \<Rightarrow> nat" where
  "hexval ds = foldr (\<lambda>d v. d + 16 * v) ds 0"

lemma hexval_simps [simp]: "hexval [] = 0" "hexval (d # ds) = d + 16 * hexval ds"
  by (simp_all add: hexval_def)

fun hexdigits :: "nat \<Rightarrow> nat \<Rightarrow> nat list" where
  "hexdigits 0 x = []"
| "hexdigits (Suc k) x = x mod 16 # hexdigits k (x div 16)"

lemma hexval_hexdigits: "x < 16 ^ k \<Longrightarrow> hexval (hexdigits k x) = x"
proof (induction k arbitrary: x)
  case (Suc k)
  then have "x div 16 < 16 ^ k" by (simp add: div_less_iff_less_mult mult.commute)
  with Suc.IH show ?case by simp
qed simp

lemma hexdigits_range: "d \<in> set (hexdigits k x) \<Longrightarrow> d < 16"
  by (induction k arbitrary: x) auto

lemma length_hexdigits [simp]: "length (hexdigits k x) = k"
  by (induction k arbitrary: x) auto

lemma nat_and_split:
  fixes d e v w :: nat
  assumes "e < 2 ^ k"
  shows "(d + 2 ^ k * v) AND (e + 2 ^ k * w) = (take_bit k d AND e) + 2 ^ k * (((d + 2 ^ k * v) div 2 ^ k) AND w)"
proof -
  have split: "x AND y = take_bit k (x AND y) + 2 ^ k * drop_bit k (x AND y)" for x y :: nat
    by (simp add: take_bit_eq_mod drop_bit_eq_div)
  have "(d + 2 ^ k * v) AND (e + 2 ^ k * w) = (take_bit k d AND take_bit k e)
      + 2 ^ k * (((d + 2 ^ k * v) div 2 ^ k) AND ((e + 2 ^ k * w) div 2 ^ k))"
    by (subst split) (simp add: take_bit_and drop_bit_and, simp add: take_bit_eq_mod drop_bit_eq_div)
  moreover have "take_bit k e = e" using assms by (simp add: take_bit_eq_mod)
  moreover have "(e + 2 ^ k * w) div 2 ^ k = w" using assms by simp
  ultimately show ?thesis by simp
qed

lemma nat_and_hex:
  fixes d e v w :: nat
  assumes "e < 16"
  shows "(d + 16 * v) AND (e + 16 * w) = ((d mod 16) AND e) + 16 * (((d + 16 * v) div 16) AND w)"
  using nat_and_split [of e 4 d v w] assms by (simp add: take_bit_eq_mod)

lemma less_16_cases: "(d::nat) < 16 \<Longrightarrow> (P 0 \<Longrightarrow> P 1 \<Longrightarrow> P 2 \<Longrightarrow> P 3 \<Longrightarrow> P 4 \<Longrightarrow> P 5 \<Longrightarrow> P 6 \<Longrightarrow> P 7 \<Longrightarrow> P 8
  \<Longrightarrow> P 9 \<Longrightarrow> P 10 \<Longrightarrow> P 11 \<Longrightarrow> P 12 \<Longrightarrow> P 13 \<Longrightarrow> P 14 \<Longrightarrow> P 15 \<Longrightarrow> P d)"
  by (auto simp: less_Suc_eq numeral_eq_Suc)

lemma hexval_shift1:
  assumes "\<forall>d \<in> set ds. d < 16"
  shows "(hexval ds div 2) AND hexval (replicate (length ds) 5)
    = hexval (map (\<lambda>d. (d div 2) AND 5) ds)"
  using assms
proof (induction ds)
  case (Cons d ds)
  have d: "d < 16" using Cons.prems by simp
  define q r where "q = hexval ds div 2" and "r = hexval ds mod 2"
  have v: "hexval ds = r + 2 * q" by (simp add: q_def r_def)
  have r: "r = 0 \<or> r = 1" unfolding r_def by (metis mod2_eq_if)
  have "(d + 2 * (8 * r + 16 * q)) div 2 = d div 2 + (8 * r + 16 * q)" by simp
  then have e: "(d + 16 * hexval ds) div 2 = (d div 2 + 8 * r) + 16 * q"
    by (simp add: v algebra_simps)
  have m: "(d div 2 + 8 * r) mod 16 = d div 2 + 8 * r"
    and q': "(d div 2 + 8 * r + 16 * q) div 16 = q" using d r by auto
  have a: "(d div 2 + 8 * r) AND 5 = (d div 2) AND 5"
    using d r by (elim disjE) (auto elim!: less_16_cases [of "d"])
  show ?case using Cons by (simp add: e nat_and_hex m a q') (simp add: q_def)
qed simp

lemma hexval_shift2:
  assumes "\<forall>d \<in> set ds. d < 16"
  shows "(hexval ds div 4) AND hexval (replicate (length ds) 3)
    = hexval (map (\<lambda>d. (d div 4) AND 3) ds)"
  using assms
proof (induction ds)
  case (Cons d ds)
  have d: "d < 16" using Cons.prems by simp
  define q r where "q = hexval ds div 4" and "r = hexval ds mod 4"
  have v: "hexval ds = r + 4 * q" by (simp add: q_def r_def)
  have r: "r < 4" by (simp add: r_def)
  have "(d + 4 * (4 * r + 16 * q)) div 4 = d div 4 + (4 * r + 16 * q)" by simp
  then have e: "(d + 16 * hexval ds) div 4 = (d div 4 + 4 * r) + 16 * q"
    by (simp add: v algebra_simps)
  have m: "(d div 4 + 4 * r) mod 16 = d div 4 + 4 * r"
    and q': "(d div 4 + 4 * r + 16 * q) div 16 = q" using d r by auto
  have t: "x AND 3 = x mod 4" for x :: nat
    using take_bit_eq_mask [of 2 x] by (simp add: take_bit_eq_mod mask_eq_exp_minus_1)
  have a: "(d div 4 + 4 * r) AND 3 = (d div 4) AND 3" unfolding t by (rule mod_mult_self2)
  show ?case using Cons by (simp add: e nat_and_hex m a q') (simp add: q_def)
qed simp

lemma hexval_and3:
  assumes "\<forall>d \<in> set ds. d < 16"
  shows "hexval ds AND hexval (replicate (length ds) 3) = hexval (map (\<lambda>d. d AND 3) ds)"
  using assms by (induction ds) (auto simp: nat_and_hex)

lemma hexval_add: "hexval (map (\<lambda>d. f d + g d) ds) = hexval (map f ds) + hexval (map g ds)"
  by (induction ds) auto

lemma hexval_le: "(\<And>d. d \<in> set ds \<Longrightarrow> g d \<le> f d) \<Longrightarrow> hexval (map g ds) \<le> hexval (map f ds)"
  by (induction ds) (auto intro!: add_mono)

lemma hexval_diff:
  assumes "\<And>d. d \<in> set ds \<Longrightarrow> g d \<le> f d"
  shows "hexval (map (\<lambda>d. f d - g d) ds) = hexval (map f ds) - hexval (map g ds)"
proof -
  have "hexval (map (\<lambda>d. f d - g d) ds) + hexval (map g ds) = hexval (map (\<lambda>d. f d - g d + g d) ds)"
    by (simp add: hexval_add)
  also have "\<dots> = hexval (map f ds)" using assms by (intro arg_cong [where f = hexval] map_cong) auto
  finally show ?thesis by simp
qed

lemma ones_small:
  assumes "d < 16"
  shows "ones d = ((d - (d div 2 AND 5)) AND 3) + ((d - (d div 2 AND 5)) div 4 AND 3)"
    and "d - (d div 2 AND 5) < 16" and "(d div 2) AND 5 \<le> d" and "ones d \<le> 4"
  by (rule less_16_cases [OF assms]; simp add: ones.simps)+

lemma ones_unfold: "ones x = x mod 2 + ones (x div 2)"
  by (cases "x = 0") (simp_all add: ones.simps [of 0] ones.simps [of x])

lemma ones_hex:
  assumes d: "d < 16"
  shows "ones (d + 16 * v) = ones d + ones v"
proof -
  have step: "ones (e + 2 * w) = e mod 2 + ones (e div 2 + w)" for e w
    using ones_unfold [of "e + 2 * w"] by (simp add: add.commute)
  have "ones (d + 16 * v) = d mod 2 + (d div 2 mod 2 + (d div 4 mod 2 + (d div 8 mod 2 + ones v)))"
    using d step [of d "8 * v"] step [of "d div 2" "4 * v"] step [of "d div 4" "2 * v"]
      step [of "d div 8" v] by (simp flip: div_mult2_eq)
  also have "\<dots> = ones d + ones v"
    by (rule less_16_cases [OF d]) (simp_all add: ones.simps)
  finally show ?thesis .
qed

lemma ones_hexval: "\<forall>d \<in> set ds. d < 16 \<Longrightarrow> ones (hexval ds) = sum_list (map ones ds)"
  by (induction ds) (auto simp: ones_hex ones.simps [of 0])


lemma nat_and_digit:
  fixes d e v w :: nat
  assumes "d < 16" "e < 16"
  shows "(d + 16 * v) AND (e + 16 * w) = (d AND e) + 16 * (v AND w)"
  using nat_and_hex [OF assms(2), of d v w] assms(1) by simp

lemma hex_sum_bytes:
  assumes "length ds = 8" "\<forall>d \<in> set ds. d \<le> (4::nat)"
  shows "(((hexval ds + hexval ds div 16) AND 0x0f0f0f0f) * 0x01010101) mod 2 ^ 32 div 2 ^ 24
    = sum_list ds"
proof -
  obtain a b c d e f g h where ds: "ds = [a, b, c, d, e, f, g, h]"
    using assms(1) by (auto simp: numeral_eq_Suc length_Suc_conv)
  have le: "a \<le> 4" "b \<le> 4" "c \<le> 4" "d \<le> 4" "e \<le> 4" "f \<le> 4" "g \<le> 4" "h \<le> 4"
    using assms(2) by (simp_all add: ds)
  have m: "(0x0f0f0f0f :: nat) = 15 + 16 * (0 + 16 * (15 + 16 * (0 + 16 * (15 + 16 * (0 + 16 * (15 + 16 * 0))))))"
    by simp
  have s: "hexval ds + hexval ds div 16
      = (a + b) + 16 * ((b + c) + 16 * ((c + d) + 16 * ((d + e) + 16 * ((e + f) + 16 * ((f + g) + 16 * ((g + h) + 16 * h))))))"
    using le by (simp add: ds algebra_simps)
  have t: "x AND 15 = x" if "x < 16" for x :: nat
    using take_bit_eq_mask [of 4 x] that by (simp add: take_bit_eq_mod mask_eq_exp_minus_1)
  have "(hexval ds + hexval ds div 16) AND 0x0f0f0f0f
      = (a + b) + 16 * (0 + 16 * ((c + d) + 16 * (0 + 16 * ((e + f) + 16 * (0 + 16 * ((g + h) + 16 * 0))))))"
    unfolding s m using le by (simp only: nat_and_digit) (simp add: nat_and_digit t)
  then have v: "(hexval ds + hexval ds div 16) AND 0x0f0f0f0f
      = (a + b) + 256 * (c + d) + 65536 * (e + f) + 16777216 * (g + h)" by simp
  define S where "S = 16777216 * (a+b+c+d+e+f+g+h) + 65536 * (a+b+c+d+e+f) + 256 * (a+b+c+d) + (a+b)"
  have E: "((hexval ds + hexval ds div 16) AND 0x0f0f0f0f) * 0x01010101
    = S + 2 ^ 32 * ((c+d+e+f+g+h) + 256 * (e+f+g+h) + 65536 * (g+h))"
    unfolding v S_def by (simp add: algebra_simps)
  have "S < 2 ^ 32" using le by (simp add: S_def)
  then have "((hexval ds + hexval ds div 16) AND 0x0f0f0f0f) * 0x01010101 mod 2 ^ 32 = S"
    unfolding E by (simp only: mod_mult_self2 mod_less)
  moreover have "S div 2 ^ 24 = a+b+c+d+e+f+g+h" using le by (simp add: S_def)
  ultimately show ?thesis by (simp add: ds)
qed

lemma unat_lfs_popc: "unat (lfs_popc a0) = ones (unat a0)"
proof -
  define ds where "ds = hexdigits 8 (unat a0)"
  have h: "\<forall>d \<in> set ds. d < 16" using hexdigits_range by (auto simp: ds_def)
  have l: "length ds = 8" by (simp add: ds_def)
  have v: "hexval ds = unat a0" unfolding ds_def using unsigned_less [of a0] by (intro hexval_hexdigits) simp
  define es where "es = map (\<lambda>d. d - (d div 2 AND 5)) ds"
  define fs where "fs = map ones ds"
  have rep: "replicate 8 x = [x, x, x, x, x, x, x, x]" for x :: nat by (simp add: numeral_eq_Suc)
  have c5: "hexval (replicate (length ds) 5) = 0x55555555"
    and c3: "hexval (replicate (length ds) 3) = 0x33333333" by (simp_all add: l rep)
  have he: "\<forall>d \<in> set es. d < 16" and le: "length es = length ds"
    using h ones_small(2) by (auto simp: es_def)
  define a1 where "a1 = a0 - (drop_bit 1 a0 AND 0x55555555)"
  have u0: "unat (drop_bit 1 a0 AND 0x55555555) = hexval (map (\<lambda>d. d div 2 AND 5) ds)"
    using hexval_shift1 [OF h, unfolded c5 v] by (simp add: unsigned_and_eq unat_drop_bit_div)
  have le1: "hexval (map (\<lambda>d. d div 2 AND 5) ds) \<le> hexval (map (\<lambda>d. d) ds)"
    using h ones_small(3) by (intro hexval_le) auto
  have le0: "hexval (map (\<lambda>d. d div 2 AND 5) ds) \<le> unat a0" using le1 by (simp add: v)
  have u1: "unat a1 = unat a0 - hexval (map (\<lambda>d. d div 2 AND 5) ds)"
    unfolding a1_def u0 [symmetric] by (rule unat_sub) (simp only: word_le_nat_alt u0 le0)
  also have "\<dots> = hexval es"
    unfolding es_def using h ones_small(3) by (subst hexval_diff) (auto simp: v)
  finally have u1: "unat a1 = hexval es" .
  define a2 where "a2 = (a1 AND 0x33333333) + (drop_bit 2 a1 AND 0x33333333)"
  have fs: "map (\<lambda>d. (d AND 3) + (d div 4 AND 3)) es = fs"
    using h ones_small(1) by (simp add: es_def fs_def)
  have f4: "\<forall>d \<in> set fs. d \<le> 4" using h ones_small(4) by (auto simp: fs_def)
  have lf: "length fs = 8" by (simp add: fs_def l)
  have flt: "hexval fs \<le> 0x44444444"
  proof -
    have "hexval (map (\<lambda>d. d) fs) \<le> hexval (map (\<lambda>_. 4) fs)" using f4 by (intro hexval_le) auto
    moreover have "map (\<lambda>_. 4::nat) fs = replicate 8 4" using lf by (simp add: map_replicate_const)
    ultimately show ?thesis by (simp add: rep)
  qed
  have "unat (a1 AND 0x33333333) + unat (drop_bit 2 a1 AND 0x33333333) = hexval fs"
    using hexval_and3 [OF he] hexval_shift2 [OF he] hexval_add [of "\<lambda>d. d AND 3" "\<lambda>d. d div 4 AND 3" es]
    by (simp add: unsigned_and_eq unat_drop_bit_div u1 le c3 fs)
  then have u2: "unat a2 = hexval fs"
    unfolding a2_def unat_word_ariths(1) using flt by simp
  have "unat (a2 + drop_bit 4 a2) = hexval fs + hexval fs div 16"
    unfolding unat_word_ariths(1) unat_drop_bit_div u2 using flt by simp
  then have "unat (((a2 + drop_bit 4 a2) AND 0x0f0f0f0f) * 0x01010101)
      = ((hexval fs + hexval fs div 16) AND 0x0f0f0f0f) * 0x01010101 mod 2 ^ 32"
    by (simp add: unat_word_ariths(2) unsigned_and_eq)
  moreover have "lfs_popc a0 = drop_bit 24 (((a2 + drop_bit 4 a2) AND 0x0f0f0f0f) * 0x01010101)"
    by (simp only: lfs_popc_def Let_def a1_def a2_def)
  ultimately have "unat (lfs_popc a0) = sum_list fs"
    using hex_sum_bytes [OF lf f4] by (simp add: unat_drop_bit_div)
  with ones_hexval [OF h] show ?thesis by (simp add: fs_def v)
qed

subsection \<open>Properties\<close>

text \<open>\<open>lfs_npw2 a\<close> is the exponent of the smallest power of two that is at
  least \<open>a\<close>, for every \<open>a\<close> from two on.\<close>

theorem npw2_is_ceil_log2:
  assumes "2 \<le> unat a"
  shows "unat a \<le> 2 ^ unat (lfs_npw2 a) \<and> 2 ^ (unat (lfs_npw2 a) - 1) < unat a \<and> unat (lfs_npw2 a) \<le> 32"
  using lfs_npw2_bounds [OF assms] by simp

theorem npw2_is_ceil_log2_witness:
  "unat (300 :: u32) \<le> 2 ^ unat (lfs_npw2 300) \<and> 2 ^ (unat (lfs_npw2 300) - 1) < unat (300 :: u32)
    \<and> unat (lfs_npw2 300) \<le> 32"
  by (rule npw2_is_ceil_log2) simp

text \<open>The branch-free bit counters agree with their definitions by recursion:
  \<open>lfs_ctz\<close> counts trailing zeros of a nonzero word, \<open>lfs_popc\<close> counts ones.\<close>

theorem bit_counters:
  "(a \<noteq> 0 \<longrightarrow> unat (lfs_ctz a) = tz (unat a)) \<and> unat (lfs_popc b) = ones (unat b)"
  using unat_lfs_ctz [of a] unat_lfs_popc [of b] by simp

theorem bit_counters_witness:
  "unat (lfs_ctz 40) = tz 40 \<and> unat (lfs_popc 41) = ones 41"
  using bit_counters [of 40 41] by simp

text \<open>Rounding up to an alignment: the result is the least multiple that is not
  below the argument, as long as it does not wrap.\<close>

theorem alignup_least:
  assumes "n \<noteq> 0" "unat a + unat n \<le> 2 ^ 32"
  shows "unat a \<le> unat (lfs_alignup a n) \<and> unat (lfs_alignup a n) < unat a + unat n
    \<and> unat n dvd unat (lfs_alignup a n)"
  using lfs_alignup_ge [OF assms] lfs_alignup_lt [OF assms] lfs_alignup_dvd [of n a] by simp

theorem alignup_least_witness:
  "unat (13 :: u32) \<le> unat (lfs_alignup 13 8) \<and> unat (lfs_alignup 13 8) < unat (13 :: u32) + unat (8 :: u32)
    \<and> unat (8 :: u32) dvd unat (lfs_alignup 13 8)"
  by (rule alignup_least) simp_all

end
