(* ===== verification/Tag.thy ===== *)
theory Tag
  imports Util
begin

text \<open>
  \<open>tag.rs\<close>: the 32-bit tags of the metadata log: a validity bit, eleven bits of type
  (split into three bits of kind and eight bits of chunk), ten bits of id and ten bits of
  size.  The lemmas show that building a tag and reading its fields are inverse on the
  field ranges, and what the entry size of a tag is.
\<close>

subsection \<open>Definitions\<close>

definition lfs_mktag :: "u16 \<Rightarrow> u32 \<Rightarrow> nat \<Rightarrow> u32" where
  "lfs_mktag type eid sz = (push_bit 20 (ucast type) OR push_bit 10 eid) OR word_of_nat sz"

definition lfs_mktag_if :: "bool \<Rightarrow> u16 \<Rightarrow> u32 \<Rightarrow> nat \<Rightarrow> u32" where
  "lfs_mktag_if cond type eid sz =
    (if cond then lfs_mktag type eid sz else lfs_mktag LFS_FROM_NOOP 0 0)"

definition lfs_tag_isvalid :: "u32 \<Rightarrow> bool" where
  "lfs_tag_isvalid tag \<longleftrightarrow> tag AND 0x80000000 = 0"

definition lfs_tag_isdelete :: "u32 \<Rightarrow> bool" where
  "lfs_tag_isdelete tag \<longleftrightarrow> signed_drop_bit 22 (push_bit 22 tag) = - 1"

definition lfs_tag_type1 :: "u32 \<Rightarrow> u16" where
  "lfs_tag_type1 tag = ucast (drop_bit 20 (tag AND 0x70000000))"

definition lfs_tag_type2 :: "u32 \<Rightarrow> u16" where
  "lfs_tag_type2 tag = ucast (drop_bit 20 (tag AND 0x78000000))"

definition lfs_tag_type3 :: "u32 \<Rightarrow> u16" where
  "lfs_tag_type3 tag = ucast (drop_bit 20 (tag AND 0x7ff00000))"

definition lfs_tag_chunk :: "u32 \<Rightarrow> u8" where
  "lfs_tag_chunk tag = ucast (drop_bit 20 (tag AND 0x0ff00000))"

definition lfs_tag_splice :: "u32 \<Rightarrow> int" where
  "lfs_tag_splice tag = sint (lfs_tag_chunk tag)"

definition lfs_tag_id :: "u32 \<Rightarrow> u16" where
  "lfs_tag_id tag = ucast (drop_bit 10 (tag AND 0x000ffc00))"

definition lfs_tag_size :: "u32 \<Rightarrow> u32" where
  "lfs_tag_size tag = tag AND 0x000003ff"

definition lfs_tag_dsize :: "u32 \<Rightarrow> u32" where
  "lfs_tag_dsize tag =
    (let sz = (if lfs_tag_isdelete tag then lfs_tag_size (tag + 1) else lfs_tag_size tag)
     in 4 + sz)"

subsection \<open>Masks as bit ranges\<close>

lemma tag_masks:
  "(0x80000000 :: u32) = push_bit 31 (mask 1)"
  "(0x70000000 :: u32) = push_bit 28 (mask 3)"
  "(0x78000000 :: u32) = push_bit 27 (mask 4)"
  "(0x7ff00000 :: u32) = push_bit 20 (mask 11)"
  "(0x0ff00000 :: u32) = push_bit 20 (mask 8)"
  "(0x000ffc00 :: u32) = push_bit 10 (mask 10)"
  "(0x000003ff :: u32) = mask 10"
  by (simp_all add: mask_eq_exp_minus_1)

lemmas tag_field_defs = lfs_tag_isvalid_def lfs_tag_type1_def lfs_tag_type2_def lfs_tag_type3_def
  lfs_tag_chunk_def lfs_tag_id_def lfs_tag_size_def tag_masks

lemma tag_bits:
  "n < 16 \<Longrightarrow> bit (lfs_tag_type3 tag) n \<longleftrightarrow> n < 11 \<and> bit tag (20 + n)"
  "n < 16 \<Longrightarrow> bit (lfs_tag_type2 tag) n \<longleftrightarrow> 7 \<le> n \<and> n < 11 \<and> bit tag (20 + n)"
  "n < 16 \<Longrightarrow> bit (lfs_tag_type1 tag) n \<longleftrightarrow> 8 \<le> n \<and> n < 11 \<and> bit tag (20 + n)"
  "n < 8 \<Longrightarrow> bit (lfs_tag_chunk tag) n \<longleftrightarrow> bit tag (20 + n)"
  "n < 16 \<Longrightarrow> bit (lfs_tag_id tag) n \<longleftrightarrow> n < 10 \<and> bit tag (10 + n)"
  "bit (lfs_tag_size tag) n \<longleftrightarrow> n < 10 \<and> bit tag n"
  by (auto simp: tag_field_defs bit_simps dest: bit_imp_le_length)

lemma lfs_tag_isvalid_bit: "lfs_tag_isvalid tag \<longleftrightarrow> \<not> bit tag 31"
  using and_exp_eq_0_iff_not_bit [of tag 31] by (simp add: lfs_tag_isvalid_def)

subsection \<open>Bounds\<close>

lemma lfs_tag_size_less: "unat (lfs_tag_size tag) < 1024"
  using and_mask_less_size [of 10 tag]
  by (simp add: lfs_tag_size_def mask_eq_exp_minus_1 word_size word_less_nat_alt)

lemma bits_above_0_less:
  assumes "\<And>n. k \<le> n \<Longrightarrow> n < LENGTH('a) \<Longrightarrow> \<not> bit w n"
  shows "unat (w :: 'a::len word) < 2 ^ k"
proof -
  have "take_bit k w = w"
  proof (rule bit_word_eqI)
    fix n assume "n < LENGTH('a)"
    then show "bit (take_bit k w) n = bit w n"
      by (cases "k \<le> n") (simp_all add: bit_take_bit_iff assms)
  qed
  then have "take_bit k (unat w) = unat w" by (metis unsigned_take_bit_eq)
  then show ?thesis by (metis take_bit_nat_less_exp)
qed

lemma bits_above_0:
  assumes "unat (w :: 'a::len word) < 2 ^ k" "k \<le> n"
  shows "\<not> bit w n"
proof -
  have "take_bit k (unat w) = unat w" using assms(1) by (simp add: take_bit_eq_mod)
  then have "bit (unat w) n = bit (take_bit k (unat w)) n" by simp
  also have "\<dots> = False" using assms(2) by (simp add: bit_take_bit_iff)
  finally show ?thesis using assms by (auto simp: bit_unsigned_iff dest: bit_imp_le_length)
qed

lemma nat_bits_above:
  assumes "sz < 1024" "10 \<le> n"
  shows "\<not> bit (sz :: nat) n"
proof -
  have "(2::nat) ^ 10 \<le> 2 ^ n" using assms(2) by (rule power_increasing) simp
  with assms(1) have "sz div 2 ^ n = 0" by simp
  then show ?thesis by (simp add: bit_iff_odd)
qed

lemma lfs_tag_id_less: "unat (lfs_tag_id tag) < 1024"
  using bits_above_0_less [of 10 "lfs_tag_id tag"] by (simp add: tag_bits)

lemma lfs_tag_type3_less: "unat (lfs_tag_type3 tag) < 2048"
  using bits_above_0_less [of 11 "lfs_tag_type3 tag"] by (simp add: tag_bits)

subsection \<open>Building and reading\<close>

lemma bit_mktag:
  assumes "unat type < 2048" "unat eid < 1024" "sz < 1024"
  shows "bit (lfs_mktag type eid sz) n \<longleftrightarrow>
    (if n < 10 then bit sz n else if n < 20 then bit eid (n - 10) else n < 31 \<and> bit type (n - 20))"
proof -
  have b: "bit (lfs_mktag type eid sz) n \<longleftrightarrow> n < 32 \<and> (20 \<le> n \<and> bit type (n - 20)
      \<or> 10 \<le> n \<and> bit eid (n - 10) \<or> bit sz n)"
    by (auto simp: lfs_mktag_def bit_simps)
  have t: "\<not> bit type (n - 20)" if "31 \<le> n"
    using that assms(1) by (intro bits_above_0 [of type 11]) auto
  have i: "\<not> bit eid (n - 10)" if "20 \<le> n"
    using that assms(2) by (intro bits_above_0 [of eid 10]) auto
  have s: "\<not> bit sz n" if "10 \<le> n" using nat_bits_above assms(3) that by blast
  consider "n < 10" | "10 \<le> n" "n < 20" | "20 \<le> n" "n < 31" | "31 \<le> n" by linarith
  then show ?thesis by cases (use t i s in \<open>simp_all add: b\<close>)
qed

lemma mktag_fields:
  assumes "unat type < 2048" "unat eid < 1024" "sz < 1024"
  shows "lfs_tag_type3 (lfs_mktag type eid sz) = type"
    and "lfs_tag_id (lfs_mktag type eid sz) = ucast eid"
    and "lfs_tag_size (lfs_mktag type eid sz) = word_of_nat sz"
    and "lfs_tag_isvalid (lfs_mktag type eid sz)"
proof -
  note b = bit_mktag [OF assms]
  show "lfs_tag_type3 (lfs_mktag type eid sz) = type"
  proof (rule bit_word_eqI)
    fix n assume "n < LENGTH(16)"
    then show "bit (lfs_tag_type3 (lfs_mktag type eid sz)) n = bit type n"
      using bits_above_0 [of type 11 n] assms(1) by (cases "11 \<le> n") (simp_all add: tag_bits b)
  qed
  show "lfs_tag_id (lfs_mktag type eid sz) = ucast eid"
  proof (rule bit_word_eqI)
    fix n assume "n < LENGTH(16)"
    then show "bit (lfs_tag_id (lfs_mktag type eid sz)) n = bit (ucast eid :: u16) n"
      using bits_above_0 [of eid 10 n] assms(2)
      by (cases "10 \<le> n") (simp_all add: tag_bits b bit_ucast_iff)
  qed
  show "lfs_tag_size (lfs_mktag type eid sz) = word_of_nat sz"
  proof (rule bit_word_eqI)
    fix n assume "n < LENGTH(32)"
    then show "bit (lfs_tag_size (lfs_mktag type eid sz)) n = bit (word_of_nat sz :: u32) n"
      using nat_bits_above [OF assms(3), of n] by (auto simp: tag_bits b bit_of_nat_iff)
  qed
  show "lfs_tag_isvalid (lfs_mktag type eid sz)"
    by (simp add: lfs_tag_isvalid_bit b)
qed

lemma mktag_of_fields:
  assumes "lfs_tag_isvalid tag"
  shows "lfs_mktag (lfs_tag_type3 tag) (ucast (lfs_tag_id tag)) (unat (lfs_tag_size tag)) = tag"
proof (rule bit_word_eqI)
  fix n :: nat
  assume n: "n < LENGTH(32)"
  have idl: "unat (ucast (lfs_tag_id tag) :: u32) < 1024"
    using lfs_tag_id_less [of tag] by (simp add: unsigned_ucast_eq take_bit_nat_eq_self)
  consider "n < 10" | "10 \<le> n" "n < 20" | "20 \<le> n" "n < 31" | "n = 31" using n by force
  then show "bit (lfs_mktag (lfs_tag_type3 tag) (ucast (lfs_tag_id tag)) (unat (lfs_tag_size tag))) n = bit tag n"
    unfolding bit_mktag [OF lfs_tag_type3_less idl lfs_tag_size_less]
    by cases (use assms in \<open>simp_all add: bit_unsigned_iff bit_ucast_iff tag_bits lfs_tag_isvalid_bit less_diff_conv2\<close>)
qed

lemma tag_type_parts:
  "lfs_tag_type1 tag = lfs_tag_type3 tag AND 0x700"
  "lfs_tag_type2 tag = lfs_tag_type3 tag AND 0x780"
  "lfs_tag_chunk tag = ucast (lfs_tag_type3 tag)"
proof -
  have m: "(0x700 :: u16) = push_bit 8 (mask 3)" "(0x780 :: u16) = push_bit 7 (mask 4)"
    by (simp_all add: mask_eq_exp_minus_1)
  show "lfs_tag_type1 tag = lfs_tag_type3 tag AND 0x700"
    by (rule bit_word_eqI) (auto simp: m tag_bits bit_simps)
  show "lfs_tag_type2 tag = lfs_tag_type3 tag AND 0x780"
    by (rule bit_word_eqI) (auto simp: m tag_bits bit_simps)
  show "lfs_tag_chunk tag = ucast (lfs_tag_type3 tag)"
    by (rule bit_word_eqI) (auto simp: tag_bits bit_simps)
qed

subsection \<open>Deleted tags and entry sizes\<close>

lemma lfs_tag_size_take: "lfs_tag_size tag = take_bit 10 tag"
  using take_bit_eq_mask [of 10 tag] by (simp add: lfs_tag_size_def mask_eq_exp_minus_1)

lemma lfs_tag_isdelete_size: "lfs_tag_isdelete tag \<longleftrightarrow> lfs_tag_size tag = 0x3ff"
proof -
  have b: "bit (signed_drop_bit 22 (push_bit 22 tag)) n \<longleftrightarrow> bit tag (if 10 \<le> n then 9 else n)"
    if "n < 32" for n
    using that by (auto simp: bit_simps)
  have m: "(0x3ff :: u32) = mask 10" by (simp add: mask_eq_exp_minus_1)
  have "lfs_tag_isdelete tag \<longleftrightarrow> (\<forall>n < 10. bit tag n)"
  proof
    assume "lfs_tag_isdelete tag"
    then have e: "signed_drop_bit 22 (push_bit 22 tag) = - 1" by (simp only: lfs_tag_isdelete_def)
    have "bit tag n" if "n < 10" for n
      using b [of n] that unfolding e by simp
    then show "\<forall>n < 10. bit tag n" by blast
  next
    assume a: "\<forall>n < 10. bit tag n"
    show "lfs_tag_isdelete tag" unfolding lfs_tag_isdelete_def
    proof (rule bit_word_eqI)
      fix n assume "n < LENGTH(32)"
      then show "bit (signed_drop_bit 22 (push_bit 22 tag)) n = bit (- 1 :: u32) n"
        using b [of n] a by simp
    qed
  qed
  also have "\<dots> \<longleftrightarrow> lfs_tag_size tag = mask 10"
  proof
    assume "lfs_tag_size tag = mask 10"
    then have "bit (take_bit 10 tag) n = bit (mask 10 :: u32) n" for n
      by (simp only: lfs_tag_size_take)
    then have "n < 10 \<Longrightarrow> bit tag n" for n
      using bit_take_bit_iff [of 10 tag n] bit_mask_iff [of 10 n, where 'a = "32 word"] by simp
    then show "\<forall>n < 10. bit tag n" by blast
  next
    assume a: "\<forall>n < 10. bit tag n"
    show "lfs_tag_size tag = mask 10"
    proof (rule bit_word_eqI)
      fix n assume "n < LENGTH(32)"
      then show "bit (lfs_tag_size tag) n = bit (mask 10 :: u32) n"
        unfolding lfs_tag_size_take bit_take_bit_iff bit_mask_iff using a by auto
    qed
  qed
  finally show ?thesis by (simp only: m)
qed

lemma unat_lfs_tag_dsize:
  "unat (lfs_tag_dsize tag) = (if lfs_tag_isdelete tag then 4 else 4 + unat (lfs_tag_size tag))"
proof -
  have sz: "unat (lfs_tag_size w) = unat w mod 1024" for w
    by (simp only: lfs_tag_size_take unsigned_take_bit_eq) (simp add: take_bit_eq_mod)
  have "lfs_tag_size (tag + 1) = 0" if d: "lfs_tag_isdelete tag"
  proof -
    have "unat (lfs_tag_size tag) = 1023" using d by (simp add: lfs_tag_isdelete_size)
    then have "unat tag mod 1024 = 1023" by (simp only: sz)
    moreover have "unat (tag + 1) mod 1024 = (unat tag + 1) mod 1024"
      unfolding unat_word_ariths by (simp add: mod_mod_cancel)
    ultimately have "unat (tag + 1) mod 1024 = 0" by (simp add: mod_Suc)
    then have "unat (lfs_tag_size (tag + 1)) = 0" by (simp only: sz)
    then show ?thesis by (simp add: unat_eq_0)
  qed
  moreover have "unat (4 + lfs_tag_size tag) = 4 + unat (lfs_tag_size tag)"
    using lfs_tag_size_less [of tag] by (simp add: unat_word_ariths)
  ultimately show ?thesis by (simp add: lfs_tag_dsize_def)
qed

lemma lfs_tag_dsize_bounds: "4 \<le> unat (lfs_tag_dsize tag)" "unat (lfs_tag_dsize tag) < 4 + 0x3ff"
proof -
  show "4 \<le> unat (lfs_tag_dsize tag)" by (simp add: unat_lfs_tag_dsize)
  have "unat (lfs_tag_size tag) \<noteq> 0x3ff" if "\<not> lfs_tag_isdelete tag"
    using that by (simp add: lfs_tag_isdelete_size word_unat_eq_iff)
  then show "unat (lfs_tag_dsize tag) < 4 + 0x3ff"
    using lfs_tag_size_less [of tag] by (auto simp: unat_lfs_tag_dsize)
qed

subsection \<open>Properties\<close>

text \<open>C39 (roundtrip). A tag built from an eleven-bit type, a ten-bit id and a ten-bit size is valid
  and gives its three fields back.\<close>

theorem tag_build_read:
  assumes "unat type < 2048" "unat eid < 1024" "sz < 1024"
  shows "lfs_tag_isvalid (lfs_mktag type eid sz) \<and> lfs_tag_type3 (lfs_mktag type eid sz) = type
    \<and> ucast (lfs_tag_id (lfs_mktag type eid sz)) = eid \<and> unat (lfs_tag_size (lfs_mktag type eid sz)) = sz"
proof -
  have "ucast (ucast eid :: u16) = eid"
  proof (rule bit_word_eqI)
    fix n assume "n < LENGTH(32)"
    then show "bit (ucast (ucast eid :: u16) :: u32) n = bit eid n"
      using bits_above_0 [of eid 10 n] assms(2) by (cases "10 \<le> n") (simp_all add: bit_ucast_iff)
  qed
  moreover have "unat (word_of_nat sz :: u32) = sz" unfolding unat_of_nat using assms(3) by simp
  ultimately show ?thesis using mktag_fields [OF assms] by simp
qed

theorem tag_build_read_witness:
  "lfs_tag_isvalid (lfs_mktag LFS_TYPE_CTZSTRUCT 5 8) \<and> lfs_tag_type3 (lfs_mktag LFS_TYPE_CTZSTRUCT 5 8) = LFS_TYPE_CTZSTRUCT
    \<and> ucast (lfs_tag_id (lfs_mktag LFS_TYPE_CTZSTRUCT 5 8)) = (5 :: u32) \<and> unat (lfs_tag_size (lfs_mktag LFS_TYPE_CTZSTRUCT 5 8)) = 8"
  by (rule tag_build_read) (simp_all add: type_defs)

text \<open>C40 (bounds). The space an entry takes in the log: the tag alone when the entry is a delete
  (size field 0x3ff), the tag and its data otherwise; at least 4 bytes and at most 1026.\<close>

theorem tag_entry_size:
  "unat (lfs_tag_dsize tag) = (if unat (lfs_tag_size tag) = 0x3ff then 4 else 4 + unat (lfs_tag_size tag))
    \<and> (lfs_tag_isdelete tag \<longleftrightarrow> unat (lfs_tag_size tag) = 0x3ff)
    \<and> 4 \<le> unat (lfs_tag_dsize tag) \<and> unat (lfs_tag_dsize tag) \<le> 1026"
proof -
  have "lfs_tag_isdelete tag \<longleftrightarrow> unat (lfs_tag_size tag) = 0x3ff"
    by (simp add: lfs_tag_isdelete_size word_unat_eq_iff)
  then show ?thesis using lfs_tag_dsize_bounds [of tag] by (simp add: unat_lfs_tag_dsize)
qed

end
