(* ===== verification/Gstate.thy ===== *)
theory Gstate
  imports Tag
begin

text \<open>
  \<open>lfs_gstate.rs\<close>: the global state, a tag and a pair whose on-disk value is the exclusive or
  of the deltas stored in all metadata pairs.  The lemmas show that the deltas form a group
  of exponent two and read the four pieces of information the tag packs.
\<close>

definition gstate_zero :: lfs_gstate where
  "gstate_zero = \<lparr>gs_tag = 0, gs_pair = (0, 0)\<rparr>"

definition lfs_gstate_xor :: "lfs_gstate \<Rightarrow> lfs_gstate \<Rightarrow> lfs_gstate" where
  "lfs_gstate_xor a b = \<lparr>gs_tag = gs_tag a XOR gs_tag b,
     gs_pair = (fst (gs_pair a) XOR fst (gs_pair b), snd (gs_pair a) XOR snd (gs_pair b))\<rparr>"

definition lfs_gstate_iszero :: "lfs_gstate \<Rightarrow> bool" where
  "lfs_gstate_iszero a \<longleftrightarrow> gs_tag a = 0 \<and> fst (gs_pair a) = 0 \<and> snd (gs_pair a) = 0"

definition lfs_gstate_hasorphans :: "lfs_gstate \<Rightarrow> bool" where
  "lfs_gstate_hasorphans a \<longleftrightarrow> lfs_tag_size (gs_tag a) \<noteq> 0"

definition lfs_gstate_getorphans :: "lfs_gstate \<Rightarrow> u8" where
  "lfs_gstate_getorphans a = ucast (lfs_tag_size (gs_tag a) AND 0x1ff)"

definition lfs_gstate_hasmove :: "lfs_gstate \<Rightarrow> bool" where
  "lfs_gstate_hasmove a \<longleftrightarrow> lfs_tag_type1 (gs_tag a) \<noteq> 0"

definition lfs_gstate_needssuperblock :: "lfs_gstate \<Rightarrow> bool" where
  "lfs_gstate_needssuperblock a \<longleftrightarrow> drop_bit 9 (lfs_tag_size (gs_tag a)) \<noteq> 0"

definition lfs_gstate_hasmovehere :: "lfs_gstate \<Rightarrow> pair \<Rightarrow> bool" where
  "lfs_gstate_hasmovehere a pr \<longleftrightarrow>
    lfs_tag_type1 (gs_tag a) \<noteq> 0 \<and> \<not> lfs_pair_cmp (gs_pair a) pr"

text \<open>On disk: twelve bytes, each word little-endian.\<close>

definition lfs_gstate_tole32 :: "lfs_gstate \<Rightarrow> bytes" where
  "lfs_gstate_tole32 a = u32_to_le (gs_tag a) @ pair_to_le (gs_pair a)"

definition lfs_gstate_fromle32 :: "bytes \<Rightarrow> lfs_gstate" where
  "lfs_gstate_fromle32 bs =
    \<lparr>gs_tag = u32_from_le (take 4 bs), gs_pair = pair_from_le (take 8 (drop 4 bs))\<rparr>"

lemma lfs_gstate_from_to_le [byte_simps]: "lfs_gstate_fromle32 (lfs_gstate_tole32 a) = a"
  by (simp add: lfs_gstate_fromle32_def lfs_gstate_tole32_def byte_simps)

lemma length_lfs_gstate_tole32 [simp]: "length (lfs_gstate_tole32 a) = 12"
  by (simp add: lfs_gstate_tole32_def)

lemma lfs_gstate_xor_zero [simp]: "lfs_gstate_xor a gstate_zero = a" "lfs_gstate_xor gstate_zero a = a"
  by (simp_all add: lfs_gstate_xor_def gstate_zero_def)

lemma lfs_gstate_xor_self [simp]: "lfs_gstate_xor a a = gstate_zero"
  by (simp add: lfs_gstate_xor_def gstate_zero_def)

lemma lfs_gstate_xor_assoc:
  "lfs_gstate_xor (lfs_gstate_xor a b) c = lfs_gstate_xor a (lfs_gstate_xor b c)"
  by (simp add: lfs_gstate_xor_def ac_simps)

lemma lfs_gstate_xor_commute: "lfs_gstate_xor a b = lfs_gstate_xor b a"
  by (simp add: lfs_gstate_xor_def ac_simps)

lemma lfs_gstate_xor_cancel [simp]: "lfs_gstate_xor a (lfs_gstate_xor a b) = b"
  by (simp flip: lfs_gstate_xor_assoc)

lemma lfs_gstate_iszero_iff: "lfs_gstate_iszero a \<longleftrightarrow> a = gstate_zero"
  by (cases a) (auto simp: lfs_gstate_iszero_def gstate_zero_def prod_eq_iff)

end
