(* ===== verification/Crc.thy ===== *)
theory Crc
  imports Util
begin

text \<open>
  \<open>crc.rs\<close>: the checksum that guards every metadata commit.  \<open>lfs_crc\<close> is the routine of the
  source, four bits at a time over a table of sixteen words.  \<open>crc_ref\<close> is the definition of
  the reflected CRC-32, one bit at a time.  The lemmas show them equal and derive from the
  bitwise form what the log relies on: linearity, injectivity in the running value, and
  that no two commits that differ in at most four consecutive bytes share a checksum.
\<close>

subsection \<open>Definitions\<close>

definition RTABLE :: "u32 list" where
  "RTABLE =
    [0x00000000, 0x1db71064, 0x3b6e20c8, 0x26d930ac,
     0x76dc4190, 0x6b6b51f4, 0x4db26158, 0x5005713c,
     0xedb88320, 0xf00f9344, 0xd6d6a3e8, 0xcb61b38c,
     0x9b64c2b0, 0x86d3d2d4, 0xa00ae278, 0xbdbdf21c]"

definition lfs_crc_step :: "u32 \<Rightarrow> u8 \<Rightarrow> u32" where
  "lfs_crc_step crc byte =
    (let idx = unat ((crc XOR ucast byte) AND 0xf);
         crc = drop_bit 4 crc XOR RTABLE ! idx;
         idx = unat ((crc XOR ucast (drop_bit 4 byte)) AND 0xf)
     in drop_bit 4 crc XOR RTABLE ! idx)"

definition lfs_crc :: "u32 \<Rightarrow> bytes \<Rightarrow> u32" where
  "lfs_crc crc buffer = foldl lfs_crc_step crc buffer"

text \<open>The reference: division by the polynomial 0x04c11db7, least significant bit first.\<close>

definition crc_bit :: "u32 \<Rightarrow> u32" where
  "crc_bit c = (if odd c then drop_bit 1 c XOR 0xedb88320 else drop_bit 1 c)"

definition crc_ref :: "u32 \<Rightarrow> bytes \<Rightarrow> u32" where
  "crc_ref = foldl (\<lambda>c b. (crc_bit ^^ 8) (c XOR ucast b))"

subsection \<open>Linearity\<close>

lemma odd_xor: "odd (x XOR y) \<longleftrightarrow> odd x \<noteq> odd y" for x y :: u32
  using bit_xor_iff [of x y 0] by (simp add: bit_0)

lemma xor_swap: "(a XOR p) XOR (b XOR p) = a XOR b" "(a XOR p) XOR b = (a XOR b) XOR p" for a b p :: u32
  by (simp_all add: xor.assoc xor.left_commute [of p] xor.commute [of p])

lemma crc_bit_xor: "crc_bit (x XOR y) = crc_bit x XOR crc_bit y"
  by (simp add: crc_bit_def odd_xor drop_bit_xor xor_swap del: One_nat_def)
    (simp add: ac_simps)

lemma crc_bits_xor: "(crc_bit ^^ n) (x XOR y) = (crc_bit ^^ n) x XOR (crc_bit ^^ n) y"
  by (induction n) (simp_all add: crc_bit_xor)

lemma crc_bit_eq_0: "crc_bit x = 0 \<longleftrightarrow> x = 0"
proof
  assume h: "crc_bit x = 0"
  have e: "even x"
  proof (rule ccontr)
    assume "odd x"
    with h have "drop_bit 1 x XOR 0xedb88320 = 0" by (simp add: crc_bit_def)
    then have "bit (drop_bit 1 x XOR 0xedb88320) 31 = bit (0 :: u32) 31" by simp
    then show False by (simp add: bit_simps del: One_nat_def)
      (auto dest: bit_imp_le_length)
  qed
  with h have d: "drop_bit 1 x = 0" by (simp add: crc_bit_def)
  show "x = 0"
  proof (rule bit_word_eqI)
    fix n assume "n < LENGTH(32)"
    show "bit x n = bit (0 :: u32) n"
    proof (cases n)
      case 0 then show ?thesis using e by (simp add: bit_0)
    next
      case (Suc k)
      have "bit (drop_bit 1 x) k = bit (0 :: u32) k" using d by simp
      with Suc show ?thesis by (simp add: bit_simps)
    qed
  qed
qed (simp add: crc_bit_def)

lemma crc_bits_eq_0: "(crc_bit ^^ n) x = 0 \<longleftrightarrow> x = 0"
  by (induction n arbitrary: x) (simp_all add: crc_bit_eq_0)

lemma xor_eq_0: "x XOR y = 0 \<longleftrightarrow> x = y" for x y :: u32
  by (auto simp: bit_eq_iff bit_simps)

lemma xor_cancel: "x XOR z = y XOR z \<longleftrightarrow> x = y" for x y z :: u32
  by (auto simp: bit_eq_iff bit_simps)

lemma crc_bits_inj: "(crc_bit ^^ n) x = (crc_bit ^^ n) y \<longleftrightarrow> x = y"
  by (metis crc_bits_xor crc_bits_eq_0 xor_eq_0)

lemma crc_bits_high:
  assumes "\<And>i. i < n \<Longrightarrow> \<not> bit x i"
  shows "(crc_bit ^^ n) x = drop_bit n x"
  using assms
proof (induction n arbitrary: x)
  case (Suc n)
  have "even x" using Suc.prems [of 0] by (simp add: bit_0)
  then have b: "crc_bit x = drop_bit 1 x" by (simp add: crc_bit_def)
  have "(crc_bit ^^ n) (drop_bit 1 x) = drop_bit n (drop_bit 1 x)"
    by (rule Suc.IH) (use Suc.prems in \<open>auto simp: bit_simps\<close>)
  then show ?case unfolding funpow_Suc_right by (simp add: b)
qed simp

subsection \<open>The table\<close>

lemma RTABLE_nth:
  assumes "n < 16"
  shows "RTABLE ! n = (crc_bit ^^ 4) (word_of_nat n)"
proof -
  have four: "(f ^^ 4) x = f (f (f (f x)))" for f :: "u32 \<Rightarrow> u32" and x
    by (simp add: numeral_eq_Suc)
  show ?thesis unfolding four
    by (rule less_16_cases [OF assms]) (simp_all add: RTABLE_def crc_bit_def)
qed

lemma and_15_less: "unat (x AND 0xf) < 16" for x :: u32
  using and_mask_less_size [of 4 x] by (simp add: mask_eq_exp_minus_1 word_size word_less_nat_alt)

lemma crc_nibble: "(crc_bit ^^ 4) x = drop_bit 4 x XOR RTABLE ! unat (x AND 0xf)"
proof -
  have m: "(0xf :: u32) = mask 4" by (simp add: mask_eq_exp_minus_1)
  have x: "x = (x AND NOT 0xf) XOR (x AND 0xf)"
    by (auto simp: bit_eq_iff bit_simps)
  have "(crc_bit ^^ 4) (x AND NOT 0xf) = drop_bit 4 (x AND NOT 0xf)"
    unfolding m by (rule crc_bits_high) (simp add: bit_simps)
  moreover have "drop_bit 4 (x AND NOT 0xf) = drop_bit 4 x"
    unfolding m by (rule bit_word_eqI) (auto simp: bit_simps dest: bit_imp_le_length)
  moreover have "(crc_bit ^^ 4) x = (crc_bit ^^ 4) (x AND NOT 0xf) XOR (crc_bit ^^ 4) (x AND 0xf)"
    using x by (metis crc_bits_xor)
  ultimately show ?thesis
    using RTABLE_nth [OF and_15_less [of x]] by simp
qed

lemma lfs_crc_step_ref: "lfs_crc_step crc byte = (crc_bit ^^ 8) (crc XOR ucast byte)"
proof -
  let ?b = "ucast byte :: u32" and ?h = "ucast (drop_bit 4 byte) :: u32"
  have hi: "drop_bit 4 ?b = ?h"
    by (rule bit_word_eqI) (auto simp: bit_simps dest: bit_imp_le_length)
  have z: "drop_bit 4 ?h = 0"
    by (rule bit_word_eqI) (auto simp: bit_simps dest: bit_imp_le_length)
  define c1 where "c1 = drop_bit 4 crc XOR RTABLE ! unat ((crc XOR ?b) AND 0xf)"
  have "(crc_bit ^^ 8) (crc XOR ?b) = (crc_bit ^^ 4) ((crc_bit ^^ 4) (crc XOR ?b))"
    by (simp flip: funpow_add [THEN fun_cong, unfolded o_def])
  also have "(crc_bit ^^ 4) (crc XOR ?b) = c1 XOR ?h"
    unfolding crc_nibble [of "crc XOR ?b"] drop_bit_xor hi c1_def by (simp only: ac_simps)
  also have "(crc_bit ^^ 4) \<dots> = drop_bit 4 c1 XOR RTABLE ! unat ((c1 XOR ?h) AND 0xf)"
    unfolding crc_nibble [of "c1 XOR ?h"] drop_bit_xor z by simp
  finally show ?thesis unfolding lfs_crc_step_def Let_def c1_def ..
qed

lemma lfs_crc_ref: "lfs_crc crc bs = crc_ref crc bs"
  by (simp add: lfs_crc_def crc_ref_def lfs_crc_step_ref [abs_def])

subsection \<open>Algebra of the checksum\<close>

lemma lfs_crc_Nil [simp]: "lfs_crc c [] = c"
  by (simp add: lfs_crc_def)

lemma lfs_crc_Cons: "lfs_crc c (b # bs) = lfs_crc ((crc_bit ^^ 8) (c XOR ucast b)) bs"
  by (simp add: lfs_crc_def lfs_crc_step_ref)

lemma lfs_crc_append: "lfs_crc c (xs @ ys) = lfs_crc (lfs_crc c xs) ys"
  by (simp add: lfs_crc_def)

lemma lfs_crc_inj: "lfs_crc c bs = lfs_crc d bs \<longleftrightarrow> c = d"
proof (induction bs arbitrary: c d)
  case (Cons b bs)
  then show ?case by (simp add: lfs_crc_Cons crc_bits_inj xor_cancel)
qed simp

lemma lfs_crc_xor:
  "length xs = length ys \<Longrightarrow>
    lfs_crc (c XOR d) (map2 (XOR) xs ys) = lfs_crc c xs XOR lfs_crc d ys"
proof (induction xs ys arbitrary: c d rule: list_induct2)
  case (Cons x xs y ys)
  have "(c XOR d) XOR ucast (x XOR y) = (c XOR ucast x) XOR (d XOR ucast y)"
    by (simp add: unsigned_xor_eq ac_simps)
  then show ?case by (simp add: lfs_crc_Cons crc_bits_xor Cons.IH)
qed simp

text \<open>Up to four bytes enter the register unchanged: one word's worth of shifting.\<close>

fun le_word :: "bytes \<Rightarrow> u32" where
  "le_word [] = 0"
| "le_word (b # bs) = ucast b XOR push_bit 8 (le_word bs)"

lemma le_word_bit: "bit (le_word bs) i \<Longrightarrow> i < 8 * length bs"
  by (induction bs arbitrary: i)
    (auto simp: bit_simps dest: bit_imp_le_length, fastforce dest: bit_imp_le_length)

lemma lfs_crc_le_word:
  assumes "length bs \<le> 4"
  shows "lfs_crc c bs = (crc_bit ^^ (8 * length bs)) (c XOR le_word bs)"
  using assms
proof (induction bs arbitrary: c)
  case (Cons b bs)
  let ?n = "8 * length bs"
  have sh: "(crc_bit ^^ 8) (push_bit 8 (le_word bs)) = le_word bs"
  proof -
    have "(crc_bit ^^ 8) (push_bit 8 (le_word bs)) = drop_bit 8 (push_bit 8 (le_word bs))"
      by (rule crc_bits_high) (simp add: bit_simps)
    also have "\<dots> = le_word bs"
      by (rule bit_word_eqI)
        (use Cons.prems in \<open>auto simp: bit_simps dest: bit_imp_le_length le_word_bit\<close>)
    finally show ?thesis .
  qed
  have "lfs_crc c (b # bs) = (crc_bit ^^ ?n) ((crc_bit ^^ 8) (c XOR ucast b) XOR le_word bs)"
    using Cons by (simp add: lfs_crc_Cons)
  also have "\<dots> = (crc_bit ^^ ?n) ((crc_bit ^^ 8) (c XOR le_word (b # bs)))"
    by (simp add: crc_bits_xor sh flip: xor.assoc)
  finally show ?case
    by (simp only: list.size mult_Suc_right add.commute [of 8] funpow_add o_apply Suc_eq_plus1 distrib_left mult_1_right
        mult_0_right funpow.simps(1) id_apply)
qed simp

lemma le_word_inj:
  assumes "length xs = length ys" "length ys \<le> 4" "le_word xs = le_word ys"
  shows "xs = ys"
  using assms
proof (induction xs ys rule: list_induct2)
  case (Cons x xs y ys)
  have bits: "bit (le_word (x # xs)) i = bit (le_word (y # ys)) i" for i
    using Cons.prems by simp
  have "x = y"
  proof (rule bit_word_eqI)
    fix i assume "i < LENGTH(8)"
    then show "bit x i = bit y i" using bits [of i] by (simp add: bit_simps)
  qed
  moreover have "le_word xs = le_word ys"
  proof (rule bit_word_eqI)
    fix i assume i: "i < LENGTH(32)"
    show "bit (le_word xs) i = bit (le_word ys) i"
    proof (cases "i + 8 < 32")
      case True
      with bits [of "i + 8"] show ?thesis by (auto simp: bit_simps dest: bit_imp_le_length)
    next
      case False
      then have "\<not> bit (le_word xs) i" "\<not> bit (le_word ys) i"
        using Cons.hyps Cons.prems by (auto dest!: le_word_bit)
      then show ?thesis by simp
    qed
  qed
  ultimately show ?case using Cons by simp
qed simp

lemma le_word_u32: "le_word (u32_to_le w) = w"
  by (rule bit_word_eqI) (auto simp: u32_to_le_def bit_simps)

lemma lfs_crc_of_le: "lfs_crc c (u32_to_le w) = 0 \<longleftrightarrow> w = c"
proof -
  have "c XOR w = 0 \<longleftrightarrow> w = c"
    by (auto simp: xor_eq_0)
  then show ?thesis by (simp add: lfs_crc_le_word le_word_u32 crc_bits_eq_0)
qed

subsection \<open>Properties\<close>

text \<open>C34 (equivalence). The table-driven, four-bits-at-a-time checksum of the source is the
  bitwise division by the CRC-32 polynomial, for every start value and every buffer.\<close>

theorem crc_table_is_bitwise: "lfs_crc crc bs = crc_ref crc bs"
  by (rule lfs_crc_ref)

text \<open>C35 (safety). Error detection: two buffers of the same length that differ only inside a
  window of at most four bytes never have the same checksum.\<close>

theorem crc_detects_bursts:
  assumes "length xs = length ys" "length ys \<le> 4" "xs \<noteq> ys"
  shows "lfs_crc crc (pre @ xs @ post) \<noteq> lfs_crc crc (pre @ ys @ post)"
proof
  assume "lfs_crc crc (pre @ xs @ post) = lfs_crc crc (pre @ ys @ post)"
  then have "lfs_crc (lfs_crc crc pre) xs = lfs_crc (lfs_crc crc pre) ys"
    by (simp add: lfs_crc_append lfs_crc_inj)
  then have "lfs_crc crc pre XOR le_word xs = lfs_crc crc pre XOR le_word ys"
    using assms(1,2) by (simp add: lfs_crc_le_word crc_bits_inj)
  then have "le_word xs = le_word ys" by (simp add: xor_cancel xor.commute [of "lfs_crc crc pre"])
  with assms show False using le_word_inj by blast
qed

theorem crc_detects_bursts_witness:
  "lfs_crc 0xffffffff ([1, 2] @ [7, 9] @ [3]) \<noteq> lfs_crc 0xffffffff ([1, 2] @ [7, 8] @ [3])"
  by (rule crc_detects_bursts) simp_all

text \<open>C36 (functional). Running the checksum over its own little-endian value gives zero, and over
  no other word: the test by which a commit is accepted when it is read back.\<close>

theorem crc_self_check: "lfs_crc crc (u32_to_le w) = 0 \<longleftrightarrow> w = crc"
  by (rule lfs_crc_of_le)

end
