(* ===== verification/Bd.thy ===== *)
theory Bd
  imports Gstate Crc
begin

text \<open>
  \<open>bd/bd.rs\<close> and \<open>bd/lfs_cache.rs\<close>: reading, comparing, checksumming and programming
  through the read cache and the program cache.  A cache is named by a \<open>cache_ref\<close>; a read
  returns what the caller's buffer holds afterwards, also when it fails half way.
\<close>

subsection \<open>The driver\<close>

definition dev_read :: "u32 \<Rightarrow> u32 \<Rightarrow> bytes \<Rightarrow> ('d, (error + unit) \<times> bytes) fs" where
  "dev_read block off buf s =
    (let (r, bs, d) = st_read (cfg_context (l_cfg s)) block off buf (l_dev s)
     in Some (Val (r, bs), s\<lparr>l_dev := d\<rparr>))"

definition dev_write :: "u32 \<Rightarrow> u32 \<Rightarrow> bytes \<Rightarrow> ('d, unit) fs" where
  "dev_write block off bs s =
    (let (r, d) = st_write (cfg_context (l_cfg s)) block off bs (l_dev s)
     in lift_res r (s\<lparr>l_dev := d\<rparr>))"

definition dev_erase :: "u32 \<Rightarrow> ('d, unit) fs" where
  "dev_erase block s =
    (let (r, d) = st_erase (cfg_context (l_cfg s)) block (l_dev s) in lift_res r (s\<lparr>l_dev := d\<rparr>))"

definition dev_sync :: "('d, unit) fs" where
  "dev_sync s = (let (r, d) = st_sync (cfg_context (l_cfg s)) (l_dev s) in lift_res r (s\<lparr>l_dev := d\<rparr>))"

text \<open>\<open>usize\<close> subtraction wraps at 64 bits; the remainder operator traps on a zero divisor.\<close>

definition usize_sub :: "nat \<Rightarrow> nat \<Rightarrow> nat" where
  "usize_sub a b = (if b \<le> a then a - b else a + 2 ^ 64 - b)"

definition aligndown_m :: "u32 \<Rightarrow> u32 \<Rightarrow> ('s, u32) m" where
  "aligndown_m a n = bnd (check (n \<noteq> 0)) (\<lambda>_. ret (lfs_aligndown a n))"

definition alignup_m :: "u32 \<Rightarrow> u32 \<Rightarrow> ('s, u32) m" where
  "alignup_m a n = bnd (check (n \<noteq> 0)) (\<lambda>_. ret (lfs_alignup a n))"

subsection \<open>Caches\<close>

definition lfs_cache_drop :: "cache_ref \<Rightarrow> ('d, unit) fs" where
  "lfs_cache_drop rcache = upd_cache rcache (\<lambda>c. c\<lparr>cache_block := LFS_BLOCK_NULL\<rparr>)"

definition lfs_cache_zero :: "cache_ref \<Rightarrow> ('d, unit) fs" where
  "lfs_cache_zero pcache =
    bnd (get_cache pcache) (\<lambda>c.
    bnd (get_buf (cache_buffer c)) (\<lambda>b.
    bnd (put_buf (cache_buffer c) (replicate (length b) 0xff)) (\<lambda>_.
    upd_cache pcache (\<lambda>c. c\<lparr>cache_block := LFS_BLOCK_NULL\<rparr>))))"

text \<open>
  The test both caches get: either the position is inside the cached range, and so many
  bytes can be copied, or so many bytes may be read before the cached range begins.
\<close>

datatype probe = Hit nat | Limit nat

definition cache_probe :: "lfs_cache \<Rightarrow> u32 \<Rightarrow> nat \<Rightarrow> nat \<Rightarrow> probe" where
  "cache_probe c block off diff =
    (if block = cache_block c \<and> off < cache_off c + cache_size c then
       if off \<ge> cache_off c then Hit (min diff (cache_size c - (off - cache_off c)))
       else Limit (min diff (cache_off c - off))
     else Limit diff)"

definition cache_copy :: "cache_ref \<Rightarrow> nat \<Rightarrow> nat \<Rightarrow> bytes \<Rightarrow> ('d, bytes) fs" where
  "cache_copy r off diff data =
    bnd (get_cache r) (\<lambda>c.
    bnd (get_buf (cache_buffer c)) (\<lambda>b.
    bnd (check (diff \<le> length data)) (\<lambda>_.
    bnd (check (diff + (off - cache_off c) \<le> length b)) (\<lambda>_.
    ret (take diff (drop (off - cache_off c) b))))))"

definition probe_opt :: "cache_ref option \<Rightarrow> u32 \<Rightarrow> nat \<Rightarrow> nat \<Rightarrow> ('d, probe) fs" where
  "probe_opt r block off diff = (case r of
      None \<Rightarrow> ret (Limit diff)
    | Some r \<Rightarrow> bnd (get_cache r) (\<lambda>c. ret (cache_probe c block off diff)))"

subsection \<open>Reading\<close>

text \<open>Loading the read cache around \<open>off\<close>.\<close>

definition bd_refill :: "cache_ref \<Rightarrow> nat \<Rightarrow> u32 \<Rightarrow> nat \<Rightarrow> ('d, error + unit) fs" where
  "bd_refill rcache hint block off =
    bnd (gets l_cfg) (\<lambda>cfg.
    bnd (gets l_block_count) (\<lambda>bc.
    bnd (check (bc = 0 \<or> block < bc)) (\<lambda>_.
    bnd (aligndown_m (word_of_nat off) (cfg_read_size cfg)) (\<lambda>start.
    bnd (alignup_m (word_of_nat (off + hint)) (cfg_read_size cfg)) (\<lambda>stop.
    bnd (get_cache rcache) (\<lambda>c.
    bnd (get_buf (cache_buffer c)) (\<lambda>b.
    let n = min (usize_sub (min (unat stop) (unat (cfg_block_size cfg))) (unat start)) (length b) in
    bnd (upd_cache rcache (\<lambda>c. c\<lparr>cache_block := block, cache_off := unat start, cache_size := n\<rparr>)) (\<lambda>_.
    bnd (dev_read block start (take n b)) (\<lambda>(r, bs).
    bnd (put_buf (cache_buffer c) (splice b 0 bs)) (\<lambda>_.
    case r of
      Inl e \<Rightarrow> bnd (upd_cache rcache (\<lambda>c. c\<lparr>cache_block := LFS_BLOCK_NULL\<rparr>)) (\<lambda>_. ret (Inl e))
    | Inr _ \<Rightarrow> ret (Inr ())))))))))))"

text \<open>
  One iteration of the loop: \<open>off\<close> the position, \<open>got\<close> the part of the buffer that is filled,
  \<open>data\<close> the part that is not.
\<close>

definition lfs_bd_read_body ::
  "cache_ref option \<Rightarrow> cache_ref \<Rightarrow> nat \<Rightarrow> u32 \<Rightarrow> nat \<times> bytes \<times> bytes \<Rightarrow>
    ('d, (nat \<times> bytes \<times> bytes) + ((error + unit) \<times> bytes)) fs" where
  "lfs_bd_read_body pcache rcache hint block = (\<lambda>(off, got, data).
    if data = [] then ret (Inr (Inr (), got))
    else
    bnd (gets l_cfg) (\<lambda>cfg.
    bnd (probe_opt pcache block off (length data)) (\<lambda>pp.
    case pp of
      Hit diff \<Rightarrow>
        bnd (cache_copy (the pcache) off diff data) (\<lambda>bs.
        ret (Inl (off + diff, got @ bs, drop diff data)))
    | Limit diff \<Rightarrow>
        bnd (probe_opt (Some rcache) block off diff) (\<lambda>rp.
        case rp of
          Hit diff \<Rightarrow>
            bnd (cache_copy rcache off diff data) (\<lambda>bs.
            ret (Inl (off + diff, got @ bs, drop diff data)))
        | Limit diff \<Rightarrow>
            if length data \<ge> hint \<and> unat (cfg_read_size cfg) dvd off
               \<and> word_of_nat (length data) \<ge> cfg_read_size cfg
            then
              bnd (aligndown_m (word_of_nat diff) (cfg_read_size cfg)) (\<lambda>diff.
              let diff = unat diff in
              bnd (check (diff \<le> length data)) (\<lambda>_.
              bnd (dev_read block (word_of_nat off) (take diff data)) (\<lambda>(r, bs).
              case r of
                Inl e \<Rightarrow> ret (Inr (Inl e, got @ bs @ drop diff data))
              | Inr _ \<Rightarrow> ret (Inl (off + diff, got @ bs, drop diff data)))))
            else
              bnd (bd_refill rcache hint block off) (\<lambda>r.
              case r of
                Inl e \<Rightarrow> ret (Inr (Inl e, got @ data))
              | Inr _ \<Rightarrow> ret (Inl (off, got, data)))))))"

definition lfs_bd_read_buf ::
  "cache_ref option \<Rightarrow> cache_ref \<Rightarrow> nat \<Rightarrow> u32 \<Rightarrow> nat \<Rightarrow> bytes \<Rightarrow> ('d, (error + unit) \<times> bytes) fs" where
  "lfs_bd_read_buf pcache rcache hint block off buffer =
    bnd (gets l_cfg) (\<lambda>cfg.
    bnd (gets l_block_count) (\<lambda>bc.
    if off + length buffer > unat (cfg_block_size cfg) \<or> (bc \<noteq> 0 \<and> block \<ge> bc)
    then ret (Inl Corrupt, buffer)
    else mloop (lfs_bd_read_body pcache rcache hint block) (off, [], buffer)))"

text \<open>For the callers that use the buffer only when the read succeeds.\<close>

definition lfs_bd_read ::
  "cache_ref option \<Rightarrow> cache_ref \<Rightarrow> nat \<Rightarrow> u32 \<Rightarrow> nat \<Rightarrow> bytes \<Rightarrow> ('d, bytes) fs" where
  "lfs_bd_read pcache rcache hint block off buffer =
    bnd (lfs_bd_read_buf pcache rcache hint block off buffer) (\<lambda>(r, bs).
    bnd (lift_res r) (\<lambda>_. ret bs))"

subsection \<open>Comparing and checksumming\<close>

datatype ordering = Less | Equal | Greater

fun bytes_cmp :: "bytes \<Rightarrow> bytes \<Rightarrow> ordering" where
  "bytes_cmp [] [] = Equal"
| "bytes_cmp [] (y # ys) = Less"
| "bytes_cmp (x # xs) [] = Greater"
| "bytes_cmp (x # xs) (y # ys) = (if x < y then Less else if y < x then Greater else bytes_cmp xs ys)"

definition lfs_bd_cmp_body ::
  "cache_ref option \<Rightarrow> cache_ref \<Rightarrow> nat \<Rightarrow> u32 \<Rightarrow> nat \<Rightarrow> nat \<times> bytes \<Rightarrow>
    ('d, (nat \<times> bytes) + ordering) fs" where
  "lfs_bd_cmp_body pcache rcache hint block off = (\<lambda>(i, buffer).
    if buffer = [] then ret (Inr Equal)
    else
    let diff = min (length buffer) 8 in
    bnd (lfs_bd_read pcache rcache (usize_sub hint i) block (off + i) (replicate diff 0)) (\<lambda>dat.
    case bytes_cmp dat (take diff buffer) of
      Equal \<Rightarrow> ret (Inl (i + diff, drop diff buffer))
    | Less \<Rightarrow> ret (Inr Less)
    | Greater \<Rightarrow> ret (Inr Greater)))"

definition lfs_bd_cmp ::
  "cache_ref option \<Rightarrow> cache_ref \<Rightarrow> nat \<Rightarrow> u32 \<Rightarrow> nat \<Rightarrow> bytes \<Rightarrow> ('d, ordering) fs" where
  "lfs_bd_cmp pcache rcache hint block off buffer =
    mloop (lfs_bd_cmp_body pcache rcache hint block off) (0, buffer)"

text \<open>The checksum computed so far is what the caller's variable holds when a read fails.\<close>

definition lfs_bd_crc_body ::
  "cache_ref option \<Rightarrow> cache_ref \<Rightarrow> u32 \<Rightarrow> u32 \<Rightarrow> nat \<Rightarrow> nat \<Rightarrow> nat \<times> u32 \<Rightarrow>
    ('d, (nat \<times> u32) + ((error + unit) \<times> u32)) fs" where
  "lfs_bd_crc_body pcache rcache hint block off sz = (\<lambda>(i, crc).
    if i < sz then
      let diff = min (sz - i) 8 in
      bnd (attempt (lfs_bd_read pcache rcache (usize_sub (unat hint) i) block (off + i) (replicate diff 0))) (\<lambda>r.
      case r of
        Inl e \<Rightarrow> ret (Inr (Inl e, crc))
      | Inr dat \<Rightarrow> ret (Inl (i + diff, lfs_crc crc dat)))
    else ret (Inr (Inr (), crc)))"

definition lfs_bd_crc_buf ::
  "cache_ref option \<Rightarrow> cache_ref \<Rightarrow> u32 \<Rightarrow> u32 \<Rightarrow> nat \<Rightarrow> nat \<Rightarrow> u32 \<Rightarrow> ('d, (error + unit) \<times> u32) fs" where
  "lfs_bd_crc_buf pcache rcache hint block off sz crc =
    mloop (lfs_bd_crc_body pcache rcache hint block off sz) (0, crc)"

definition lfs_bd_crc ::
  "cache_ref option \<Rightarrow> cache_ref \<Rightarrow> u32 \<Rightarrow> u32 \<Rightarrow> nat \<Rightarrow> nat \<Rightarrow> u32 \<Rightarrow> ('d, u32) fs" where
  "lfs_bd_crc pcache rcache hint block off sz crc =
    bnd (lfs_bd_crc_buf pcache rcache hint block off sz crc) (\<lambda>(r, crc).
    bnd (lift_res r) (\<lambda>_. ret crc))"

subsection \<open>Flushing and programming\<close>

definition lfs_bd_flush :: "cache_ref \<Rightarrow> cache_ref \<Rightarrow> bool \<Rightarrow> ('d, unit) fs" where
  "lfs_bd_flush pcache rcache validate =
    bnd (gets l_cfg) (\<lambda>cfg.
    bnd (get_cache pcache) (\<lambda>pc.
    if cache_block pc \<noteq> LFS_BLOCK_NULL \<and> cache_block pc \<noteq> LFS_BLOCK_INLINE then
      bnd (gets l_block_count) (\<lambda>bc.
      bnd (check (cache_block pc < bc)) (\<lambda>_.
      bnd (alignup_m (word_of_nat (cache_size pc)) (cfg_prog_size cfg)) (\<lambda>diff.
      let diff = unat diff in
      bnd (get_buf (cache_buffer pc)) (\<lambda>b.
      bnd (check (diff \<le> length b)) (\<lambda>_.
      let data = take diff b in
      bnd (dev_write (cache_block pc) (word_of_nat (cache_off pc)) data) (\<lambda>_.
      bnd (if validate then
             bnd (lfs_cache_drop rcache) (\<lambda>_.
             bnd (lfs_bd_cmp None rcache diff (cache_block pc) (cache_off pc) data) (\<lambda>res.
             if res \<noteq> Equal then throw Corrupt else ret ()))
           else ret ()) (\<lambda>_.
      lfs_cache_zero pcache)))))))
    else ret ()))"

definition lfs_bd_sync :: "cache_ref \<Rightarrow> cache_ref \<Rightarrow> bool \<Rightarrow> ('d, unit) fs" where
  "lfs_bd_sync pcache rcache validate =
    bnd (lfs_cache_drop rcache) (\<lambda>_.
    bnd (lfs_bd_flush pcache rcache validate) (\<lambda>_.
    dev_sync))"

definition lfs_bd_prog_body ::
  "cache_ref \<Rightarrow> cache_ref \<Rightarrow> bool \<Rightarrow> u32 \<Rightarrow> nat \<times> bytes \<Rightarrow> ('d, (nat \<times> bytes) + unit) fs" where
  "lfs_bd_prog_body pcache rcache validate block = (\<lambda>(off, data).
    if data = [] then ret (Inr ())
    else
    bnd (gets l_cfg) (\<lambda>cfg.
    bnd (get_cache pcache) (\<lambda>pc.
    bnd (get_buf (cache_buffer pc)) (\<lambda>b.
    if block = cache_block pc \<and> off \<ge> cache_off pc \<and> off < cache_off pc + length b then
      let diff = min (length data) (length b - (off - cache_off pc));
          off' = off + diff;
          n = max (cache_size pc) (off' - cache_off pc) in
      bnd (put_buf (cache_buffer pc) (splice b (off - cache_off pc) (take diff data))) (\<lambda>_.
      bnd (upd_cache pcache (\<lambda>c. c\<lparr>cache_size := n\<rparr>)) (\<lambda>_.
      bnd (if n = length b then lfs_bd_flush pcache rcache validate else ret ()) (\<lambda>_.
      ret (Inl (off', drop diff data)))))
    else
      bnd (check (cache_block pc = LFS_BLOCK_NULL)) (\<lambda>_.
      bnd (aligndown_m (word_of_nat off) (cfg_prog_size cfg)) (\<lambda>start.
      bnd (upd_cache pcache (\<lambda>c. c\<lparr>cache_block := block, cache_off := unat start, cache_size := 0\<rparr>)) (\<lambda>_.
      ret (Inl (off, data)))))))))"

definition lfs_bd_prog :: "cache_ref \<Rightarrow> cache_ref \<Rightarrow> bool \<Rightarrow> u32 \<Rightarrow> nat \<Rightarrow> bytes \<Rightarrow> ('d, unit) fs" where
  "lfs_bd_prog pcache rcache validate block off data =
    bnd (gets l_cfg) (\<lambda>cfg.
    bnd (gets l_block_count) (\<lambda>bc.
    bnd (check (block = LFS_BLOCK_INLINE \<or> block < bc)) (\<lambda>_.
    bnd (check (off + length data \<le> unat (cfg_block_size cfg))) (\<lambda>_.
    mloop (lfs_bd_prog_body pcache rcache validate block) (off, data)))))"

definition lfs_bd_erase :: "u32 \<Rightarrow> ('d, unit) fs" where
  "lfs_bd_erase block =
    bnd (gets l_block_count) (\<lambda>bc.
    bnd (check (block < bc)) (\<lambda>_.
    dev_erase block))"

end
