(* ===== verification/Mlist.thy ===== *)
theory Mlist
  imports Bd
begin

text \<open>
  \<open>dir/lfs_mlist.rs\<close>: the singly linked list of open files and directories that
  \<open>Lfs.mlist\<close> heads.  The source walks it with a pointer to the link to change; here that is
  the node whose \<open>next\<close> field is the link, or \<open>None\<close> for the head field.  The lemmas show the
  three operations refine a list of addresses.
\<close>

subsection \<open>Definitions\<close>

definition read_link :: "nat option \<Rightarrow> ('d, nat option) fs" where
  "read_link p = (case p of None \<Rightarrow> gets l_mlist | Some a \<Rightarrow> bnd (get_node a) (\<lambda>n. ret (nd_next n)))"

definition write_link :: "nat option \<Rightarrow> nat option \<Rightarrow> ('d, unit) fs" where
  "write_link p x = (case p of
      None \<Rightarrow> modify (\<lambda>s. s\<lparr>l_mlist := x\<rparr>)
    | Some a \<Rightarrow> upd_node a (\<lambda>n. n\<lparr>nd_next := x\<rparr>))"

definition lfs_mlist_isopen :: "nat option \<Rightarrow> nat \<Rightarrow> ('d, bool) fs" where
  "lfs_mlist_isopen head node = mloop (\<lambda>p. case p of
      None \<Rightarrow> ret (Inr False)
    | Some a \<Rightarrow> if a = node then ret (Inr True)
                else bnd (get_node a) (\<lambda>n. ret (Inl (nd_next n)))) head"

definition lfs_mlist_remove :: "nat \<Rightarrow> ('d, unit) fs" where
  "lfs_mlist_remove mlist = mloop (\<lambda>p.
    bnd (read_link p) (\<lambda>cur. case cur of
      None \<Rightarrow> ret (Inr ())
    | Some a \<Rightarrow>
        if a = mlist then
          bnd (get_node mlist) (\<lambda>n. bnd (write_link p (nd_next n)) (\<lambda>_. ret (Inr ())))
        else ret (Inl (Some a)))) None"

definition lfs_mlist_append :: "nat \<Rightarrow> ('d, unit) fs" where
  "lfs_mlist_append mlist =
    bnd (gets l_mlist) (\<lambda>head.
    bnd (upd_node mlist (\<lambda>n. n\<lparr>nd_next := head\<rparr>)) (\<lambda>_.
    modify (\<lambda>s. s\<lparr>l_mlist := Some mlist\<rparr>)))"

subsection \<open>The list a heap represents\<close>

fun chain :: "(nat \<Rightarrow> lfs_node option) \<Rightarrow> nat option \<Rightarrow> nat list \<Rightarrow> bool" where
  "chain h p [] \<longleftrightarrow> p = None"
| "chain h p (a # as) \<longleftrightarrow> p = Some a \<and> (case h a of None \<Rightarrow> False | Some n \<Rightarrow> chain h (nd_next n) as)"

definition mlist_rep :: "'d lfs \<Rightarrow> nat list \<Rightarrow> bool" where
  "mlist_rep s as \<longleftrightarrow> chain (l_nodes s) (l_mlist s) as \<and> distinct as"

lemma chain_upd_other: "a \<notin> set as \<Longrightarrow> chain (h(a := x)) p as = chain h p as"
  by (induction as arbitrary: p) (auto split: option.splits)

lemma chain_member: "chain h p as \<Longrightarrow> a \<in> set as \<Longrightarrow> \<exists>n. h a = Some n"
  by (induction as arbitrary: p) (auto split: option.splits)

lemma get_node_run: "l_nodes s a = Some n \<Longrightarrow> get_node a s = Some (Val n, s)"
  by (simp add: get_node_def run_simps)

lemma bnd_get_node: "l_nodes s a = Some n \<Longrightarrow> bnd (get_node a) k s = k n s"
  by (rule bnd_run_Val) (rule get_node_run)

lemma upd_node_run: "l_nodes s a = Some n \<Longrightarrow>
    upd_node a f s = Some (Val (), s\<lparr>l_nodes := (l_nodes s)(a \<mapsto> f n)\<rparr>)"
  by (simp add: upd_node_def bnd_get_node modify_run)

lemma bnd_upd_node: "l_nodes s a = Some n \<Longrightarrow>
    bnd (upd_node a f) k s = k () (s\<lparr>l_nodes := (l_nodes s)(a \<mapsto> f n)\<rparr>)"
  by (rule bnd_run_Val) (rule upd_node_run)

lemma isopen_chain:
  "chain (l_nodes s) p as \<Longrightarrow> lfs_mlist_isopen p a s = Some (Val (a \<in> set as), s)"
  unfolding lfs_mlist_isopen_def
proof (induction as arbitrary: p)
  case Nil
  then show ?case by (subst mloop_unfold) (simp add: ret_def)
next
  case (Cons b bs)
  then obtain n where n: "p = Some b" "l_nodes s b = Some n" "chain (l_nodes s) (nd_next n) bs"
    by (auto split: option.splits)
  from Cons.IH [OF n(3)] n(1,2) show ?case
    by (subst mloop_unfold) (auto simp: bnd_get_node ret_def)
qed

lemma mlist_isopen_rep:
  assumes "mlist_rep s as"
  shows "lfs_mlist_isopen (l_mlist s) a s = Some (Val (a \<in> set as), s)"
  using assms by (intro isopen_chain) (simp add: mlist_rep_def)

lemma mlist_append_rep:
  assumes "mlist_rep s as" "a \<notin> set as" "l_nodes s a = Some n"
  obtains s' where "lfs_mlist_append a s = Some (Val (), s')" "mlist_rep s' (a # as)"
    "l_nodes s' = (l_nodes s)(a \<mapsto> n\<lparr>nd_next := l_mlist s\<rparr>)"
proof
  show "lfs_mlist_append a s = Some (Val (), s\<lparr>l_nodes := (l_nodes s)(a \<mapsto> n\<lparr>nd_next := l_mlist s\<rparr>),
      l_mlist := Some a\<rparr>)"
    by (simp add: lfs_mlist_append_def bnd_gets bnd_upd_node [OF assms(3)] modify_run)
qed (use assms in \<open>auto simp: mlist_rep_def chain_upd_other\<close>)

text \<open>The walk that unlinks: from the link that \<open>p\<close> names, over the rest of the list.\<close>

definition link_of :: "'d lfs \<Rightarrow> nat option \<Rightarrow> nat option" where
  "link_of s p = (case p of None \<Rightarrow> l_mlist s
     | Some a \<Rightarrow> (case l_nodes s a of None \<Rightarrow> None | Some n \<Rightarrow> nd_next n))"

definition set_link :: "nat option \<Rightarrow> nat option \<Rightarrow> 'd lfs \<Rightarrow> 'd lfs" where
  "set_link p x s = (case p of None \<Rightarrow> s\<lparr>l_mlist := x\<rparr>
     | Some a \<Rightarrow> s\<lparr>l_nodes := (l_nodes s)(a := map_option (\<lambda>n. n\<lparr>nd_next := x\<rparr>) (l_nodes s a))\<rparr>)"

lemma bnd_read_link:
  "(\<And>a. p = Some a \<Longrightarrow> l_nodes s a \<noteq> None) \<Longrightarrow> bnd (read_link p) k s = k (link_of s p) s"
  by (cases p) (auto simp: read_link_def link_of_def bnd_gets bnd_get_node bnd_assoc)

lemma write_link_run:
  "(\<And>a. p = Some a \<Longrightarrow> l_nodes s a \<noteq> None) \<Longrightarrow> write_link p x s = Some (Val (), set_link p x s)"
  by (cases p) (auto simp: write_link_def set_link_def modify_run upd_node_run)

lemma bnd_write_link:
  "(\<And>a. p = Some a \<Longrightarrow> l_nodes s a \<noteq> None) \<Longrightarrow> bnd (write_link p x) k s = k () (set_link p x s)"
  by (rule bnd_run_Val) (rule write_link_run)

text \<open>Two heaps with the same nodes up to their links.\<close>

definition same_nodes :: "(nat \<Rightarrow> lfs_node option) \<Rightarrow> (nat \<Rightarrow> lfs_node option) \<Rightarrow> bool" where
  "same_nodes h h' \<longleftrightarrow> (\<forall>b. map_option (\<lambda>n. n\<lparr>nd_next := None\<rparr>) (h b) = map_option (\<lambda>n. n\<lparr>nd_next := None\<rparr>) (h' b))"

lemma same_nodes_set_link: "same_nodes (l_nodes s) (l_nodes (set_link p x s))"
  by (cases p) (auto simp: same_nodes_def set_link_def map_option.compositionality o_def)

lemma chain_cong: "(\<And>a. a \<in> set as \<Longrightarrow> h a = h' a) \<Longrightarrow> chain h p as = chain h' p as"
  by (induction as arbitrary: p) (auto split: option.splits)

lemma remove_walk:
  fixes s :: "'d lfs"
  assumes "chain (l_nodes s) (link_of s p) as" "distinct as" "\<And>q. p = Some q \<Longrightarrow> q \<notin> set as \<and> l_nodes s q \<noteq> None"
  shows "\<exists>s'. mloop (\<lambda>p. bnd (read_link p) (\<lambda>cur. case cur of
      None \<Rightarrow> ret (Inr ())
    | Some b \<Rightarrow> if b = a then bnd (get_node a) (\<lambda>n. bnd (write_link p (nd_next n)) (\<lambda>_. ret (Inr ())))
        else ret (Inl (Some b)))) p s = Some (Val (), s') \<and>
      chain (l_nodes s') (link_of s' p) (remove1 a as) \<and> same_nodes (l_nodes s) (l_nodes s') \<and>
      (\<forall>b. b \<notin> set as \<and> p \<noteq> Some b \<longrightarrow> l_nodes s' b = l_nodes s b) \<and>
      (p \<noteq> None \<longrightarrow> l_mlist s' = l_mlist s) \<and> l_dev s' = l_dev s"
    (is "\<exists>s'. mloop ?body p s = _ \<and> _")
  using assms
proof (induction as arbitrary: p)
  case Nil
  then have "mloop ?body p s = Some (Val (), s)"
    by (subst mloop_unfold) (simp add: bnd_read_link ret_def)
  with Nil show ?case by (auto simp: same_nodes_def)
next
  case (Cons b bs)
  then obtain n where n: "link_of s p = Some b" "l_nodes s b = Some n" "chain (l_nodes s) (nd_next n) bs"
    by (auto split: option.splits)
  have ex: "\<And>q. p = Some q \<Longrightarrow> l_nodes s q \<noteq> None" using Cons.prems(3) by blast
  show ?case
  proof (cases "b = a")
    case True
    have run: "mloop ?body p s = Some (Val (), set_link p (nd_next n) s)"
      using n True by (subst mloop_unfold)
        (simp add: bnd_read_link ex bnd_get_node bnd_write_link ex ret_def)
    have "chain (l_nodes (set_link p (nd_next n) s)) (nd_next n) bs"
      using n(3) Cons.prems(3) by (cases p) (auto simp: set_link_def chain_upd_other)
    moreover have "link_of (set_link p (nd_next n) s) p = nd_next n"
      using ex by (cases p) (auto simp: link_of_def set_link_def)
    moreover have "l_nodes (set_link p (nd_next n) s) c = l_nodes s c" if "p \<noteq> Some c" for c
      using that by (cases p) (auto simp: set_link_def)
    moreover have "p \<noteq> None \<longrightarrow> l_mlist (set_link p (nd_next n) s) = l_mlist s"
      and "l_dev (set_link p (nd_next n) s) = l_dev s"
      by (cases p; simp add: set_link_def)+
    ultimately show ?thesis using True run same_nodes_set_link by (intro exI [of _ "set_link p (nd_next n) s"]) auto
  next
    case False
    have lb: "link_of s (Some b) = nd_next n" using n(2) by (simp add: link_of_def)
    have "\<exists>s'. mloop ?body (Some b) s = Some (Val (), s') \<and>
      chain (l_nodes s') (link_of s' (Some b)) (remove1 a bs) \<and> same_nodes (l_nodes s) (l_nodes s') \<and>
      (\<forall>c. c \<notin> set bs \<and> Some b \<noteq> Some c \<longrightarrow> l_nodes s' c = l_nodes s c) \<and>
      (Some b \<noteq> None \<longrightarrow> l_mlist s' = l_mlist s) \<and> l_dev s' = l_dev s"
      by (rule Cons.IH) (use n(2,3) Cons.prems(2) lb in auto)
    then obtain s' where s': "mloop ?body (Some b) s = Some (Val (), s')"
      "chain (l_nodes s') (link_of s' (Some b)) (remove1 a bs)" "same_nodes (l_nodes s) (l_nodes s')"
      "\<forall>c. c \<notin> set bs \<and> b \<noteq> c \<longrightarrow> l_nodes s' c = l_nodes s c" "l_mlist s' = l_mlist s" "l_dev s' = l_dev s"
      by auto
    have run: "mloop ?body p s = Some (Val (), s')"
      using n(1) False s'(1) by (subst mloop_unfold) (simp add: bnd_read_link ex ret_def)
    have "\<exists>n'. l_nodes s' b = Some n'"
      using s'(3) [unfolded same_nodes_def, rule_format, of b] n(2) by (cases "l_nodes s' b") auto
    moreover have "link_of s' p = link_of s p"
      using s'(4,5) Cons.prems(3) by (auto simp: link_of_def split: option.splits)
    ultimately have "chain (l_nodes s') (link_of s' p) (b # remove1 a bs)"
      using s'(2) n(1) by (auto simp: link_of_def split: option.splits)
    with run False s' show ?thesis by (intro exI [of _ s']) auto
  qed
qed

lemma mlist_remove_rep:
  assumes "mlist_rep s as"
  obtains s' where "lfs_mlist_remove a s = Some (Val (), s')" "mlist_rep s' (remove1 a as)"
    "same_nodes (l_nodes s) (l_nodes s')" "l_dev s' = l_dev s"
proof -
  have "chain (l_nodes s) (link_of s None) as" "distinct as"
    using assms by (auto simp: mlist_rep_def link_of_def)
  from remove_walk [OF this, of a] show ?thesis
    using that \<open>distinct as\<close> unfolding lfs_mlist_remove_def
    by (auto simp: mlist_rep_def link_of_def)
qed

subsection \<open>Properties\<close>

text \<open>C37 (refinement). The pointer walk that closes a file or directory removes exactly that
  node from the list the heap represents and changes no node except for links.\<close>

theorem mlist_remove_refines:
  assumes "mlist_rep s as"
  shows "\<exists>s'. lfs_mlist_remove a s = Some (Val (), s') \<and> mlist_rep s' (remove1 a as)
    \<and> same_nodes (l_nodes s) (l_nodes s') \<and> l_dev s' = l_dev s"
  by (rule mlist_remove_rep [OF assms, of a]) blast

text \<open>C38 (refinement). Opening a node that is not in the list puts it at the front; membership is
  what \<open>lfs_mlist_isopen\<close> computes.\<close>

theorem mlist_append_refines:
  assumes "mlist_rep s as" "a \<notin> set as" "l_nodes s a = Some n"
  shows "\<exists>s'. lfs_mlist_append a s = Some (Val (), s') \<and> mlist_rep s' (a # as)
    \<and> lfs_mlist_isopen (l_mlist s') b s' = Some (Val (b \<in> insert a (set as)), s')"
proof -
  obtain s' where s': "lfs_mlist_append a s = Some (Val (), s')" "mlist_rep s' (a # as)"
    by (rule mlist_append_rep [OF assms])
  then show ?thesis using mlist_isopen_rep [OF s'(2), of b] by auto
qed

end
