(* ===== verification/Device.thy ===== *)
theory Device
  imports Bd
begin

text \<open>
  What the file system relies on from a storage driver, as a locale, and what the caching
  layer guarantees on top of it: a read returns the bytes of the block as the device holds
  them, overlaid with what is still waiting in the program cache, whatever the read cache
  holds and whichever way the bytes are fetched.
\<close>

subsection \<open>The state of a cache\<close>

definition cache_of :: "cache_ref \<Rightarrow> 'd lfs \<Rightarrow> lfs_cache option" where
  "cache_of r s = (case r of
      RCache \<Rightarrow> Some (l_rcache s)
    | PCache \<Rightarrow> Some (l_pcache s)
    | FCache a \<Rightarrow> map_option nd_cache (l_nodes s a))"

definition set_cache :: "cache_ref \<Rightarrow> lfs_cache \<Rightarrow> 'd lfs \<Rightarrow> 'd lfs" where
  "set_cache r c s = (case r of
      RCache \<Rightarrow> s\<lparr>l_rcache := c\<rparr>
    | PCache \<Rightarrow> s\<lparr>l_pcache := c\<rparr>
    | FCache a \<Rightarrow> s\<lparr>l_nodes := (l_nodes s)(a := map_option (\<lambda>n. n\<lparr>nd_cache := c\<rparr>) (l_nodes s a))\<rparr>)"

text \<open>A cache and the contents of its buffer, exchanged.\<close>

definition load :: "cache_ref \<Rightarrow> lfs_cache \<Rightarrow> bytes \<Rightarrow> 'd lfs \<Rightarrow> 'd lfs" where
  "load r c b s = set_cache r c (s\<lparr>l_bufs := (l_bufs s)(cache_buffer c := b)\<rparr>)"

lemma get_cache_run: "cache_of r s = Some c \<Longrightarrow> get_cache r s = Some (Val c, s)"
  by (cases r) (auto simp: cache_of_def get_cache_def get_node_def bnd_assoc run_simps)

lemma upd_cache_run: "cache_of r s = Some c \<Longrightarrow> upd_cache r f s = Some (Val (), set_cache r (f c) s)"
  by (cases r) (auto simp: cache_of_def upd_cache_def set_cache_def upd_node_def get_node_def
      run_simps bnd_def gets_def ret_def modify_def)

lemma set_cache_simps [simp]:
  "l_dev (set_cache r c s) = l_dev s" "l_cfg (set_cache r c s) = l_cfg s"
  "l_block_count (set_cache r c s) = l_block_count s" "l_bufs (set_cache r c s) = l_bufs s"
  by (cases r; simp add: set_cache_def)+

lemma cache_of_bufs [simp]: "cache_of r (s\<lparr>l_bufs := f\<rparr>) = cache_of r s"
  by (simp add: cache_of_def split: cache_ref.split)

lemma cache_of_dev [simp]: "cache_of r (s\<lparr>l_dev := f\<rparr>) = cache_of r s"
  by (simp add: cache_of_def split: cache_ref.split)

lemma cache_of_set: "cache_of r s \<noteq> None \<Longrightarrow> cache_of r (set_cache r c s) = Some c"
  by (cases r) (auto simp: cache_of_def set_cache_def)

lemma cache_of_set_other: "r \<noteq> r' \<Longrightarrow> cache_of r' (set_cache r c s) = cache_of r' s"
  by (cases r; cases r') (auto simp: cache_of_def set_cache_def)

lemma set_cache_set: "set_cache r c (set_cache r d s) = set_cache r c s"
  by (cases r) (auto simp: set_cache_def map_option.compositionality o_def)

lemma set_cache_same: "cache_of r s = Some c \<Longrightarrow> set_cache r c s = s"
  by (cases r) (auto simp: cache_of_def set_cache_def fun_upd_idem)

lemma set_cache_bufs: "(set_cache r c s)\<lparr>l_bufs := f\<rparr> = set_cache r c (s\<lparr>l_bufs := f\<rparr>)"
  by (cases r) (auto simp: set_cache_def)

lemma load_same: "cache_of r s = Some c \<Longrightarrow> load r c (l_bufs s (cache_buffer c)) s = s"
  by (simp add: load_def set_cache_same)

lemma load_simps [simp]:
  "l_dev (load r c b s) = l_dev s" "l_cfg (load r c b s) = l_cfg s"
  "l_block_count (load r c b s) = l_block_count s"
  "l_bufs (load r c b s) = (l_bufs s)(cache_buffer c := b)"
  by (simp_all add: load_def)

lemma cache_of_load: "cache_of r s \<noteq> None \<Longrightarrow> cache_of r (load r c b s) = Some c"
  by (simp add: load_def cache_of_set)

lemma cache_of_load_other: "r \<noteq> r' \<Longrightarrow> cache_of r' (load r c b s) = cache_of r' s"
  by (simp add: load_def cache_of_set_other)

lemma set_cache_load:
  "cache_buffer d = cache_buffer c \<Longrightarrow> set_cache r d (load r c b s) = load r d b s"
  by (simp add: load_def set_cache_set)

lemma put_buf_run: "put_buf i b s = Some (Val (), s\<lparr>l_bufs := (l_bufs s)(i := b)\<rparr>)"
  by (simp add: put_buf_def run_simps)

lemma get_buf_run: "get_buf i s = Some (Val (l_bufs s i), s)"
  by (simp add: get_buf_def run_simps)

lemma bnd_get_cache: "cache_of r s = Some c \<Longrightarrow> bnd (get_cache r) k s = k c s"
  by (rule bnd_run_Val) (rule get_cache_run)

lemma bnd_upd_cache: "cache_of r s = Some c \<Longrightarrow> bnd (upd_cache r f) k s = k () (set_cache r (f c) s)"
  by (rule bnd_run_Val) (rule upd_cache_run)

lemma bnd_put_buf: "bnd (put_buf i b) k s = k () (s\<lparr>l_bufs := (l_bufs s)(i := b)\<rparr>)"
  by (rule bnd_run_Val) (rule put_buf_run)

lemma bnd_get_buf: "bnd (get_buf i) k s = k (l_bufs s i) s"
  by (rule bnd_run_Val) (rule get_buf_run)

lemma load_put: "cache_buffer c = i \<Longrightarrow>
    (load r c b s)\<lparr>l_bufs := ((l_bufs s)(cache_buffer c := b))(i := b')\<rparr> = load r c b' s"
  by (simp add: load_def set_cache_bufs)

subsection \<open>Alignment, run\<close>

lemma aligndown_m_run: "n \<noteq> 0 \<Longrightarrow> aligndown_m a n = ret (lfs_aligndown a n)"
  by (simp add: aligndown_m_def)

lemma alignup_m_run: "n \<noteq> 0 \<Longrightarrow> alignup_m a n = ret (lfs_alignup a n)"
  by (simp add: alignup_m_def)

subsection \<open>What the caches and the device say together\<close>

text \<open>The state is attached to this driver with matching geometry.\<close>

definition attached_to ::
  "'d storage \<Rightarrow> ('d \<Rightarrow> bool) \<Rightarrow> nat \<Rightarrow> nat \<Rightarrow> 'd lfs \<Rightarrow> bool" where
  "attached_to st dok bsz bcount s \<longleftrightarrow> cfg_context (l_cfg s) = st \<and> dok (l_dev s) \<and>
     unat (l_block_count s) = bcount \<and> unat (cfg_block_size (l_cfg s)) = bsz \<and>
     bsz < 2 ^ 30 \<and> 0 < unat (cfg_read_size (l_cfg s)) \<and>
     unat (cfg_read_size (l_cfg s)) dvd bsz"

text \<open>A block as seen through the program cache.\<close>

definition overlay :: "(lfs_cache \<times> bytes) option \<Rightarrow> u32 \<Rightarrow> bytes \<Rightarrow> bytes" where
  "overlay p b bs = (case p of None \<Rightarrow> bs
     | Some (c, pb) \<Rightarrow> if cache_block c = b then splice bs (cache_off c) (take (cache_size c) pb) else bs)"

definition pcached :: "cache_ref option \<Rightarrow> 'd lfs \<Rightarrow> (lfs_cache \<times> bytes) option" where
  "pcached p s = (case p of None \<Rightarrow> None
     | Some r \<Rightarrow> (case cache_of r s of None \<Rightarrow> None | Some c \<Rightarrow> Some (c, l_bufs s (cache_buffer c))))"

definition view_of ::
  "('d \<Rightarrow> u32 \<Rightarrow> bytes) \<Rightarrow> cache_ref option \<Rightarrow> 'd lfs \<Rightarrow> u32 \<Rightarrow> bytes" where
  "view_of blk p s b = overlay (pcached p s) b (blk (l_dev s) b)"

text \<open>A read cache that holds what the device holds.\<close>

definition coherent_to ::
  "('d \<Rightarrow> u32 \<Rightarrow> bytes) \<Rightarrow> nat \<Rightarrow> nat \<Rightarrow> u32 \<Rightarrow> 'd \<Rightarrow> lfs_cache \<Rightarrow> bytes \<Rightarrow> bool" where
  "coherent_to blk bsz bcount rs d c b \<longleftrightarrow> cache_size c \<le> length b \<and> unat rs \<le> length b \<and> length b < 2 ^ 31 \<and>
     (unat (cache_block c) < bcount \<longrightarrow> unat rs dvd cache_off c \<and> cache_off c + cache_size c \<le> bsz \<and>
       take (cache_size c) b = take (cache_size c) (drop (cache_off c) (blk d (cache_block c))))"

definition pcache_in :: "nat \<Rightarrow> u32 \<Rightarrow> u32 \<Rightarrow> (lfs_cache \<times> bytes) option \<Rightarrow> bool" where
  "pcache_in bsz rs block p \<longleftrightarrow> (case p of None \<Rightarrow> True
     | Some (c, pb) \<Rightarrow> cache_block c = block \<longrightarrow> cache_size c \<le> length pb \<and>
         cache_off c + cache_size c \<le> bsz \<and> unat rs dvd cache_off c)"

definition probe_of :: "(lfs_cache \<times> bytes) option \<Rightarrow> u32 \<Rightarrow> nat \<Rightarrow> nat \<Rightarrow> probe" where
  "probe_of p block off n = (case p of None \<Rightarrow> Limit n | Some (c, _) \<Rightarrow> cache_probe c block off n)"

text \<open>Loading the read cache makes it hold the position asked for.\<close>

definition covers :: "lfs_cache \<Rightarrow> u32 \<Rightarrow> nat \<Rightarrow> bool" where
  "covers c block off \<longleftrightarrow>
    block = cache_block c \<and> cache_off c \<le> off \<and> off < cache_off c + cache_size c"

definition read_ready_to ::
  "'d storage \<Rightarrow> ('d \<Rightarrow> bool) \<Rightarrow> ('d \<Rightarrow> u32 \<Rightarrow> bytes) \<Rightarrow> nat \<Rightarrow> nat \<Rightarrow>
    cache_ref option \<Rightarrow> cache_ref \<Rightarrow> u32 \<Rightarrow> 'd lfs \<Rightarrow> bool" where
  "read_ready_to st dok blk bsz bcount p r block s \<longleftrightarrow>
     attached_to st dok bsz bcount s \<and> unat block < bcount \<and> p \<noteq> Some r \<and>
     (\<exists>c. cache_of r s = Some c \<and> coherent_to blk bsz bcount (cfg_read_size (l_cfg s)) (l_dev s) c (l_bufs s (cache_buffer c)) \<and>
       (\<forall>q. p = Some q \<longrightarrow> (\<exists>pc. cache_of q s = Some pc \<and> cache_buffer pc \<noteq> cache_buffer c))) \<and>
     pcache_in bsz (cfg_read_size (l_cfg s)) block (pcached p s)"

subsection \<open>The storage driver\<close>

locale block_device =
  fixes st :: "'d storage" and dok :: "'d \<Rightarrow> bool" and blk :: "'d \<Rightarrow> u32 \<Rightarrow> bytes"
    and bsz :: nat and bcount :: nat
  assumes blk_length: "dok d \<Longrightarrow> unat b < bcount \<Longrightarrow> length (blk d b) = bsz"
    and read_law: "dok d \<Longrightarrow> unat b < bcount \<Longrightarrow> unat off + length buf \<le> bsz \<Longrightarrow>
      st_read st b off buf d = (Inr (), take (length buf) (drop (unat off) (blk d b)), d)"
    and write_law: "dok d \<Longrightarrow> unat b < bcount \<Longrightarrow> unat off + length bs \<le> bsz \<Longrightarrow>
      (\<forall>i < length bs. blk d b ! (unat off + i) = 0xff) \<Longrightarrow>
      \<exists>d'. st_write st b off bs d = (Inr (), d') \<and> dok d' \<and>
        (\<forall>c. unat c < bcount \<longrightarrow> blk d' c = (if c = b then splice (blk d b) (unat off) bs else blk d c))"
    and erase_law: "dok d \<Longrightarrow> unat b < bcount \<Longrightarrow>
      \<exists>d'. st_erase st b d = (Inr (), d') \<and> dok d' \<and>
        (\<forall>c. unat c < bcount \<longrightarrow> blk d' c = (if c = b then replicate bsz 0xff else blk d c))"
    and sync_law: "dok d \<Longrightarrow> \<exists>d'. st_sync st d = (Inr (), d') \<and> dok d' \<and>
      (\<forall>c. unat c < bcount \<longrightarrow> blk d' c = blk d c)"
begin

abbreviation attached where "attached \<equiv> attached_to st dok bsz bcount"
abbreviation view where "view \<equiv> view_of blk"
abbreviation coherent where "coherent \<equiv> coherent_to blk bsz bcount"
abbreviation pcache_ok where "pcache_ok \<equiv> pcache_in bsz"
abbreviation read_ready where "read_ready \<equiv> read_ready_to st dok blk bsz bcount"

lemma length_view:
  assumes "dok (l_dev s)" "unat b < bcount" "pcache_ok rs b (pcached p s)"
  shows "length (view p s b) = bsz"
  using assms blk_length [of "l_dev s" b]
  by (auto simp: view_of_def overlay_def pcache_in_def split: option.splits prod.splits)


lemma probe_opt_run:
  assumes "\<And>q. p = Some q \<Longrightarrow> cache_of q t \<noteq> None"
  shows "probe_opt p block off n t = Some (Val (probe_of (pcached p t) block off n), t)"
  using assms by (cases p) (auto simp: probe_opt_def probe_of_def pcached_def ret_def
      get_cache_run bnd_def)

lemma probe_of_Hit:
  assumes "probe_of pc block off n = Hit d" "0 < n" "pcache_ok rs block pc"
  obtains c pb where "pc = Some (c, pb)" "cache_block c = block" "cache_off c \<le> off"
    "0 < d" "d \<le> n" "off + d \<le> cache_off c + cache_size c" "cache_size c \<le> length pb"
    "d + (off - cache_off c) \<le> length pb"
  using assms that
  by (auto simp: probe_of_def cache_probe_def pcache_in_def split: option.splits prod.splits if_splits)

lemma probe_of_Limit:
  assumes "probe_of pc block off n = Limit d" "0 < n" "pcache_ok rs block pc"
  shows "d \<le> n" "0 < d" "unat rs dvd off \<Longrightarrow> d = n \<or> unat rs dvd d"
    and "length bs = bsz \<Longrightarrow> take d (drop off (overlay pc block bs)) = take d (drop off bs)"
proof -
  show "d \<le> n" "0 < d" using assms
    by (auto simp: probe_of_def cache_probe_def split: option.splits prod.splits if_splits)
  show "d = n \<or> unat rs dvd d" if "unat rs dvd off" using assms that
    by (auto simp: probe_of_def cache_probe_def pcache_in_def min_def dvd_diff_nat
        split: option.splits prod.splits if_splits)
  show "take d (drop off (overlay pc block bs)) = take d (drop off bs)" if "length bs = bsz"
    using assms that
    by (auto simp: probe_of_def cache_probe_def pcache_in_def overlay_def splice_before splice_after
        split: option.splits prod.splits if_splits)
qed

lemma hit_view:
  assumes "pc = Some (c, pb)" "cache_block c = block" "cache_off c \<le> off"
    "off + d \<le> cache_off c + cache_size c" "cache_size c \<le> length pb"
    "cache_off c + cache_size c \<le> length bs"
  shows "take d (drop (off - cache_off c) pb) = take d (drop off (overlay pc block bs))"
  using assms by (simp add: overlay_def splice_inside drop_take)

lemma pcached_load:
  assumes "p \<noteq> Some r" "\<And>pr pc. p = Some pr \<Longrightarrow> cache_of pr s = Some pc \<Longrightarrow> cache_buffer pc \<noteq> cache_buffer c"
  shows "pcached p (load r c b s) = pcached p s"
proof (cases p)
  case (Some q)
  with assms(1) have "cache_of q (load r c b s) = cache_of q s" by (intro cache_of_load_other) auto
  with Some assms(2) show ?thesis by (auto simp: pcached_def split: option.splits)
qed (simp add: pcached_def)

lemma cache_copy_run:
  assumes "cache_of q t = Some c" "diff \<le> length data" "diff + (off - cache_off c) \<le> length (l_bufs t (cache_buffer c))"
  shows "cache_copy q off diff data t = Some (Val (take diff (drop (off - cache_off c) (l_bufs t (cache_buffer c)))), t)"
  using assms by (simp add: cache_copy_def bnd_def get_cache_run get_buf_run ret_def)

lemma dev_read_run:
  assumes "attached t" "unat b < bcount" "unat off + length buf \<le> bsz"
  shows "dev_read b off buf t
    = Some (Val (Inr (), take (length buf) (drop (unat off) (blk (l_dev t) b))), t)"
  using assms by (simp add: dev_read_def attached_to_def read_law)

lemma attached_load [simp]: "attached (load r c b s) = attached s"
  by (simp add: attached_to_def)

lemma bd_refill_run:
  assumes att: "attached s" and cof: "cache_of r s = Some c" and b: "b = l_bufs s (cache_buffer c)"
    and coh: "coherent (cfg_read_size (l_cfg s)) (l_dev s) c b"
    and bl: "unat block < bcount" and off: "off < bsz" and hint: "0 < hint" "hint \<le> 2 ^ 31"
  obtains c' b' where "bd_refill r hint block off s = Some (Val (Inr ()), load r c' b' s)"
    "cache_buffer c' = cache_buffer c" "length b' = length b"
    "coherent (cfg_read_size (l_cfg s)) (l_dev s) c' b'" "covers c' block off"
proof -
  define rs where "rs = cfg_read_size (l_cfg s)"
  have rs: "0 < unat rs" "rs \<noteq> 0" and small: "bsz < 2 ^ 30" and dv: "unat rs dvd bsz"
    and bs: "unat (cfg_block_size (l_cfg s)) = bsz" and wfd: "dok (l_dev s)"
    using att by (auto simp: attached_to_def rs_def unat_gt_0)
  have bc: "block < l_block_count s" using att bl by (simp add: attached_to_def word_less_nat_alt)
  have rsb: "unat rs \<le> bsz" using dv off by (auto dest: dvd_imp_le)
  define start where "start = lfs_aligndown (word_of_nat off) rs"
  define stop where "stop = lfs_alignup (word_of_nat (off + hint)) rs"
  have uo: "unat (word_of_nat off :: u32) = off" using off small by (simp add: unat_of_nat)
  have uh: "unat (word_of_nat (off + hint) :: u32) = off + hint"
    unfolding unat_of_nat using off small hint by simp
  have st1: "unat start \<le> off" "off < unat start + unat rs" "unat rs dvd unat start"
    using lfs_aligndown_le [of "word_of_nat off" rs] lfs_aligndown_gt [OF rs(2), of "word_of_nat off"]
      lfs_aligndown_dvd [of rs] by (simp_all add: start_def uo del: of_nat_add)
  have stop: "off + hint \<le> unat stop"
    using lfs_alignup_ge [OF rs(2), of "word_of_nat (off + hint)"] off small hint rsb
    by (simp add: stop_def uh del: of_nat_add)
  define n where "n = min (usize_sub (min (unat stop) bsz) (unat start)) (length b)"
  have n1: "min (unat stop) bsz - unat start = usize_sub (min (unat stop) bsz) (unat start)"
    using st1 stop off by (simp add: usize_sub_def)
  have nb: "n \<le> length b" and nz: "unat start + n \<le> bsz" and nc: "off < unat start + n"
    using st1 stop off hint coh by (auto simp: n_def coherent_to_def rs_def simp flip: n1)
  define c' where "c' = c\<lparr>cache_block := block, cache_off := unat start, cache_size := n\<rparr>"
  define b' where "b' = splice b 0 (take n (drop (unat start) (blk (l_dev s) block)))"
  have lb: "length (take n (drop (unat start) (blk (l_dev s) block))) = n"
    using nz blk_length [OF wfd bl] by simp
  have "bd_refill r hint block off s = Some (Val (Inr ()), load r c' b' s)"
  proof -
    note u = bnd_upd_cache [OF cof, of "\<lambda>c. c\<lparr>cache_block := block, cache_off := unat start,
      cache_size := n\<rparr>", folded c'_def]
    have d: "bnd (dev_read block start (take n b)) k (set_cache r c' s)
      = k (Inr (), take n (drop (unat start) (blk (l_dev s) block))) (set_cache r c' s)" for k :: "_ \<Rightarrow> ('d, 'x) fs"
      by (rule bnd_run_Val) (use dev_read_run [of "set_cache r c' s" block start "take n b"] att bl nz nb
        in \<open>simp add: attached_to_def min_def\<close>)
    have p: "(set_cache r c' s)\<lparr>l_bufs := (l_bufs s)(cache_buffer c := b')\<rparr> = load r c' b' s"
      by (simp add: load_def set_cache_bufs c'_def)
    show ?thesis
      unfolding bd_refill_def
      using bc rs(2)
      by (simp del: of_nat_add add: bnd_gets rs_def [symmetric] aligndown_m_run alignup_m_run start_def [symmetric]
          stop_def [symmetric] bnd_get_cache [OF cof] bnd_get_buf
          b [symmetric] bs n_def [symmetric] Let_def u d bnd_put_buf p b'_def [symmetric]) (simp add: ret_def)
  qed
  moreover have "coherent rs (l_dev s) c' b'"
    using coh nb nz st1 lb by (auto simp: coherent_to_def c'_def b'_def rs_def splice_def)
  moreover have "covers c' block off" using st1 nc by (simp add: covers_def c'_def)
  moreover have "length b' = length b" using nb lb by (simp add: b'_def)
  ultimately show ?thesis using that [of c' b'] by (simp add: c'_def rs_def)
qed


text \<open>One iteration: progress by \<open>d\<close> bytes of the view, or the cache was loaded.\<close>

lemma read_body_step:
  assumes ready: "read_ready p r block s" and cof: "cache_of r s = Some c"
    and hint: "0 < hint" "hint \<le> 2 ^ 31" and data: "data \<noteq> []" and fits: "off + length data \<le> bsz"
  obtains d c' b' where
    "lfs_bd_read_body p r hint block (off, got, data) s =
      Some (Val (Inl (off + d, got @ take d (drop off (view p s block)), drop d data)), load r c' b' s)"
    "d \<le> length data" "cache_buffer c' = cache_buffer c"
    "coherent (cfg_read_size (l_cfg s)) (l_dev s) c' b'"
    "0 < d \<or> covers c' block off \<and> \<not> covers c block off"
proof -
  define rs where "rs = cfg_read_size (l_cfg s)"
  define b where "b = l_bufs s (cache_buffer c)"
  have att: "attached s" and bl: "unat block < bcount" and pok: "pcache_ok rs block (pcached p s)"
    and coh: "coherent rs (l_dev s) c b" and psome: "\<And>q. p = Some q \<Longrightarrow> cache_of q s \<noteq> None"
    using ready cof by (auto simp: read_ready_to_def rs_def b_def)
  have rs: "0 < unat rs" "rs \<noteq> 0" and small: "bsz < 2 ^ 30" and wfd: "dok (l_dev s)"
    using att by (auto simp: attached_to_def rs_def unat_gt_0)
  have lbl: "length (blk (l_dev s) block) = bsz" by (rule blk_length [OF wfd bl])
  have same: "load r c b s = s" unfolding b_def by (rule load_same [OF cof])
  have n0: "0 < length data" using data by simp
  note pr = probe_opt_run [OF psome, where block = block and off = off and n = "length data"]
  have prb: "bnd (probe_opt p block off (length data)) k s = k (probe_of (pcached p s) block off (length data)) s"
    for k :: "_ \<Rightarrow> ('d, 'x) fs" by (rule bnd_run_Val) (rule pr, assumption)
  have rrb: "bnd (probe_opt (Some r) block off n) k s = k (probe_of (Some (c, b)) block off n) s"
    for k :: "_ \<Rightarrow> ('d, 'x) fs" and n
    by (rule bnd_run_Val) (use cof probe_opt_run [of "Some r" s block off n] in \<open>simp add: pcached_def b_def\<close>)
  show ?thesis
  proof (cases "probe_of (pcached p s) block off (length data)")
    case (Hit d)
    obtain pc pb where h: "pcached p s = Some (pc, pb)" "cache_block pc = block" "cache_off pc \<le> off"
      "0 < d" "d \<le> length data" "off + d \<le> cache_off pc + cache_size pc"
      "cache_size pc \<le> length pb" "d + (off - cache_off pc) \<le> length pb"
      by (rule probe_of_Hit [OF Hit n0 pok])
    obtain q where q: "p = Some q" "cache_of q s = Some pc" "pb = l_bufs s (cache_buffer pc)"
      using h(1) by (auto simp: pcached_def split: option.splits)
    have "cache_off pc + cache_size pc \<le> length (blk (l_dev s) block)"
      using pok h(1,2) by (simp add: pcache_in_def lbl)
    note v = hit_view [OF h(1-3,6,7) this, folded view_of_def]
    have cp: "bnd (cache_copy q off d data) k s = k (take d (drop off (view p s block))) s"
      for k :: "_ \<Rightarrow> ('d, 'x) fs"
      by (rule bnd_run_Val) (use cache_copy_run [OF q(2) h(5)] h(8) v in \<open>simp add: q(3)\<close>)
    show ?thesis
    proof (rule that [of d c b])
      show "lfs_bd_read_body p r hint block (off, got, data) s =
          Some (Val (Inl (off + d, got @ take d (drop off (view p s block)), drop d data)), load r c b s)"
        using data by (simp add: lfs_bd_read_body_def bnd_gets prb [unfolded q(1)] Hit [unfolded q(1)] q(1)
              cp [unfolded q(1)] same ret_def)
    qed (use h coh in \<open>auto simp: rs_def\<close>)
  next
    case (Limit l)
    note lim = probe_of_Limit [OF Limit n0 pok]
    have lv: "take l (drop off (view p s block)) = take l (drop off (blk (l_dev s) block))"
      unfolding view_of_def by (rule lim(4) [OF lbl])
    have lv': "take d (drop off (view p s block)) = take d (drop off (blk (l_dev s) block))" if "d \<le> l" for d
      using arg_cong [OF lv, of "take d"] that by (simp add: min_def)
    have cok: "pcache_ok rs block (Some (c, b))"
      using coh bl by (auto simp: coherent_to_def pcache_in_def)
    show ?thesis
    proof (cases "probe_of (Some (c, b)) block off l")
      case (Hit d)
      have h: "cache_block c = block" "cache_off c \<le> off" "0 < d" "d \<le> l"
          "off + d \<le> cache_off c + cache_size c" "d + (off - cache_off c) \<le> length b"
        by (rule probe_of_Hit [OF Hit lim(2) cok], simp)+
      have "take d (drop (off - cache_off c) b) = take d (drop off (blk (l_dev s) block))"
      proof -
        have e: "take (cache_size c) b = take (cache_size c) (drop (cache_off c) (blk (l_dev s) block))"
          using coh bl h(1) by (simp add: coherent_to_def)
        have "take d (drop (off - cache_off c) b) = take d (drop (off - cache_off c) (take (cache_size c) b))"
          using h by (simp add: drop_take)
        also have "\<dots> = take d (drop off (blk (l_dev s) block))"
          unfolding e using h by (simp add: drop_take)
        finally show ?thesis .
      qed
      then have cp: "bnd (cache_copy r off d data) k s = k (take d (drop off (view p s block))) s"
        for k :: "_ \<Rightarrow> ('d, 'x) fs"
        by (intro bnd_run_Val) (use cache_copy_run [OF cof, of d data off] h lim(1) lv' [OF h(4)] in \<open>simp add: b_def\<close>)
      show ?thesis
      proof (rule that [of d c b])
        show "lfs_bd_read_body p r hint block (off, got, data) s =
            Some (Val (Inl (off + d, got @ take d (drop off (view p s block)), drop d data)), load r c b s)"
          using data by (simp add: lfs_bd_read_body_def bnd_gets prb Limit rrb Hit cp same ret_def)
      qed (use h lim coh in \<open>auto simp: rs_def\<close>)
    next
      case (Limit l')
      note lim' = probe_of_Limit [OF Limit lim(2) cok]
      define bypass where "bypass \<longleftrightarrow> length data \<ge> hint \<and> unat rs dvd off \<and> word_of_nat (length data) \<ge> rs"
      show ?thesis
      proof (cases bypass)
        case True
        define d where "d = unat (lfs_aligndown (word_of_nat l') rs)"
        have ul: "unat (word_of_nat l' :: u32) = l'" and ud: "unat (word_of_nat (length data) :: u32) = length data"
          and uo: "unat (word_of_nat off :: u32) = off"
          unfolding unat_of_nat using lim(1) lim'(1) fits small by simp_all
        have "unat rs \<le> length data" using True ud by (simp add: bypass_def word_le_nat_alt)
        then have "unat rs \<le> l'"
          using lim lim' True by (auto simp: bypass_def dest: dvd_imp_le)
        moreover have "d = l' - l' mod unat rs" by (simp add: d_def unat_lfs_aligndown ul)
        ultimately have d: "0 < d" "d \<le> l'"
          using rs(1) mod_less_divisor [OF rs(1), of l'] by (auto simp del: mod_less_divisor)
        have dle: "d \<le> length data" using d lim lim' by linarith
        have dr: "bnd (dev_read block (word_of_nat off) (take d data)) k s
            = k (Inr (), take d (drop off (view p s block))) s" for k :: "_ \<Rightarrow> ('d, 'x) fs"
          by (rule bnd_run_Val) (use dev_read_run [OF att bl, of "word_of_nat off" "take d data"] dle fits
              d lim lim' lv' [of d] in \<open>simp add: uo min_def\<close>)
        show ?thesis
        proof (rule that [of d c b])
          show "lfs_bd_read_body p r hint block (off, got, data) s =
              Some (Val (Inl (off + d, got @ take d (drop off (view p s block)), drop d data)), load r c b s)"
            using data True dle unfolding lfs_bd_read_body_def
            by (simp add: bnd_gets prb \<open>probe_of (pcached p s) block off (length data) = Limit l\<close>
                rrb Limit rs_def [symmetric] bypass_def [symmetric] aligndown_m_run rs(2)
                d_def [symmetric] Let_def dr same ret_def)
        qed (use d dle coh in \<open>auto simp: rs_def\<close>)
      next
        case False
        have ob: "off < bsz" using fits n0 by linarith
        obtain c' b' where ref: "bd_refill r hint block off s = Some (Val (Inr ()), load r c' b' s)"
          "cache_buffer c' = cache_buffer c" "length b' = length b"
          "coherent rs (l_dev s) c' b'" "covers c' block off"
          unfolding rs_def by (rule bd_refill_run [OF att cof b_def coh [unfolded rs_def] bl ob hint])
        have rf: "bnd (bd_refill r hint block off) k s = k (Inr ()) (load r c' b' s)"
          for k :: "_ \<Rightarrow> ('d, 'x) fs" by (rule bnd_run_Val) (rule ref)
        have nc: "\<not> covers c block off"
          using Limit by (auto simp: probe_of_def cache_probe_def covers_def split: if_splits)
        show ?thesis
        proof (rule that [of 0 c' b'])
          show "lfs_bd_read_body p r hint block (off, got, data) s =
              Some (Val (Inl (off + 0, got @ take 0 (drop off (view p s block)), drop 0 data)), load r c' b' s)"
            using data False unfolding lfs_bd_read_body_def
            by (simp add: bnd_gets prb \<open>probe_of (pcached p s) block off (length data) = Limit l\<close>
                rrb Limit rs_def [symmetric] bypass_def [symmetric] rf ret_def)
        qed (use ref nc in \<open>auto simp: rs_def\<close>)
      qed
    qed
  qed
qed


lemma load_load: "cache_buffer c' = cache_buffer c \<Longrightarrow> load r c' b' (load r c b s) = load r c' b' s"
  by (simp add: load_def set_cache_bufs set_cache_set)

lemma view_load:
  assumes "p \<noteq> Some r" "\<And>pr pc. p = Some pr \<Longrightarrow> cache_of pr s = Some pc \<Longrightarrow> cache_buffer pc \<noteq> cache_buffer c"
  shows "view p (load r c b s) = view p s"
  by (simp add: view_of_def fun_eq_iff pcached_load [OF assms])

lemma read_ready_load:
  assumes ready: "read_ready p r block s" and cof: "cache_of r s = Some c"
    and new: "cache_buffer c' = cache_buffer c" "coherent (cfg_read_size (l_cfg s)) (l_dev s) c' b'"
  shows "read_ready p r block (load r c' b' s)" "view p (load r c' b' s) = view p s"
proof -
  have ne: "p \<noteq> Some r" and bufs: "\<And>q. p = Some q \<Longrightarrow> \<exists>pc. cache_of q s = Some pc \<and> cache_buffer pc \<noteq> cache_buffer c"
    using ready cof by (auto simp: read_ready_to_def)
  have cs: "pcached p (load r c' b' s) = pcached p s"
    using bufs new(1) by (intro pcached_load [OF ne]) fastforce
  then show "view p (load r c' b' s) = view p s" by (simp add: view_of_def fun_eq_iff)
  have "cache_of q (load r c' b' s) = cache_of q s" if "p = Some q" for q
    using that ne by (intro cache_of_load_other) auto
  then show "read_ready p r block (load r c' b' s)"
    using ready cof new bufs by (auto simp: read_ready_to_def cache_of_load cs)
qed

theorem bd_read_buf_correct:
  assumes ready: "read_ready p r block s" and cof: "cache_of r s = Some c"
    and hint: "0 < hint" "hint \<le> 2 ^ 31" and fits: "off + length buf \<le> bsz"
  obtains c' b' where
    "lfs_bd_read_buf p r hint block off buf s =
      Some (Val (Inr (), take (length buf) (drop off (view p s block))), load r c' b' s)"
    "cache_buffer c' = cache_buffer c" "coherent (cfg_read_size (l_cfg s)) (l_dev s) c' b'"
proof -
  let ?v = "view p s block"
  have att: "attached s" and bl: "unat block < bcount" using ready by (auto simp: read_ready_to_def)
  define I where "I = (\<lambda>(o', got, data :: bytes) t. \<exists>c' b'. t = load r c' b' s \<and> cache_buffer c' = cache_buffer c \<and>
      coherent (cfg_read_size (l_cfg s)) (l_dev s) c' b' \<and> off \<le> o' \<and> o' + length data = off + length buf \<and>
      got = take (o' - off) (drop off ?v))"
  define mu where "mu = (\<lambda>(o', got :: bytes, data :: bytes) (t :: 'd lfs). 2 * length data +
      (if covers (the (cache_of r t)) block o' then 0 else 1 :: nat))"
  have "wp (mloop (lfs_bd_read_body p r hint block) (off, [], buf))
     (\<lambda>res t. \<exists>c' b'. res = Val (Inr (), take (length buf) (drop off ?v)) \<and> t = load r c' b' s \<and>
        cache_buffer c' = cache_buffer c \<and> coherent (cfg_read_size (l_cfg s)) (l_dev s) c' b') s"
  proof (rule wp_mloop [where I = I and \<mu> = mu])
    show "I (off, [], buf) s"
      unfolding I_def using ready cof
      by (auto intro!: exI [of _ c] exI [of _ "l_bufs s (cache_buffer c)"] simp: load_same [OF cof] read_ready_to_def)
    fix x t
    assume "I x t"
    then obtain o' got data c1 b1 where x: "x = (o', got, data)" and t: "t = load r c1 b1 s"
      and c1: "cache_buffer c1 = cache_buffer c" "coherent (cfg_read_size (l_cfg s)) (l_dev s) c1 b1"
      and o': "off \<le> o'" "o' + length data = off + length buf" and got: "got = take (o' - off) (drop off ?v)"
      by (cases x) (auto simp: I_def)
    have cot: "cache_of r t = Some c1" using cof by (simp add: t cache_of_load)
    have rt: "read_ready p r block t" "view p t = view p s"
      using read_ready_load [OF ready cof c1] by (simp_all add: t)
    show "wp (lfs_bd_read_body p r hint block x) (\<lambda>res t'. case res of
          Val (Inl y) \<Rightarrow> I y t' \<and> mu y t' < mu x t
        | Val (Inr z) \<Rightarrow> \<exists>c' b'. Val z = Val (Inr (), take (length buf) (drop off ?v)) \<and> t' = load r c' b' s \<and>
            cache_buffer c' = cache_buffer c \<and> coherent (cfg_read_size (l_cfg s)) (l_dev s) c' b'
        | Exc e \<Rightarrow> \<exists>c' b'. Exc e = Val (Inr (), take (length buf) (drop off ?v)) \<and> t' = load r c' b' s \<and>
            cache_buffer c' = cache_buffer c \<and> coherent (cfg_read_size (l_cfg s)) (l_dev s) c' b'
        | Panic \<Rightarrow> \<exists>c' b'. Panic = Val (Inr (), take (length buf) (drop off ?v)) \<and> t' = load r c' b' s \<and>
            cache_buffer c' = cache_buffer c \<and> coherent (cfg_read_size (l_cfg s)) (l_dev s) c' b') t"
    proof (cases "data = []")
      case True
      then have "o' - off = length buf" using o' by simp
      with True c1 show ?thesis
        by (auto simp: x wp_def lfs_bd_read_body_def ret_def got t)
    next
      case False
      obtain d c2 b2 where step: "lfs_bd_read_body p r hint block (o', got, data) t =
          Some (Val (Inl (o' + d, got @ take d (drop o' (view p t block)), drop d data)), load r c2 b2 t)"
        "d \<le> length data" "cache_buffer c2 = cache_buffer c1"
        "coherent (cfg_read_size (l_cfg t)) (l_dev t) c2 b2"
        "0 < d \<or> covers c2 block o' \<and> \<not> covers c1 block o'"
        by (rule read_body_step [OF rt(1) cot hint False, of o' got]) (use o' fits in auto)
      have t2: "load r c2 b2 t = load r c2 b2 s" unfolding t by (rule load_load) (rule step(3))
      have "got @ take d (drop o' ?v) = take (o' + d - off) (drop off ?v)"
      proof -
        have "take ((o' - off) + d) (drop off ?v) = take (o' - off) (drop off ?v) @ take d (drop (o' - off) (drop off ?v))"
          by (rule take_add)
        with o'(1) got show ?thesis by simp
      qed
      then have "I (o' + d, got @ take d (drop o' ?v), drop d data) (load r c2 b2 s)"
        using step c1 o' by (auto simp: I_def t intro!: exI [of _ c2] exI [of _ b2])
      moreover have "mu (o' + d, got @ take d (drop o' ?v), drop d data) (load r c2 b2 s) < mu x t"
        using step(2,5) cof by (cases "d = 0") (auto simp: mu_def x cot cache_of_load)
      ultimately show ?thesis
        by (simp add: wp_def x step(1) rt(2) t2)
    qed
  qed
  then obtain c' b' where run: "mloop (lfs_bd_read_body p r hint block) (off, [], buf) s
      = Some (Val (Inr (), take (length buf) (drop off ?v)), load r c' b' s)"
    "cache_buffer c' = cache_buffer c" "coherent (cfg_read_size (l_cfg s)) (l_dev s) c' b'"
    by (auto elim!: wpE)
  moreover have "lfs_bd_read_buf p r hint block off buf s = mloop (lfs_bd_read_body p r hint block) (off, [], buf) s"
    using att bl fits by (auto simp: lfs_bd_read_buf_def bnd_gets attached_to_def word_le_nat_alt)
  ultimately show ?thesis using that by simp
qed

corollary bd_read_correct:
  assumes ready: "read_ready p r block s" and cof: "cache_of r s = Some c"
    and hint: "0 < hint" "hint \<le> 2 ^ 31" and fits: "off + length buf \<le> bsz"
  obtains c' b' where
    "lfs_bd_read p r hint block off buf s =
      Some (Val (take (length buf) (drop off (view p s block))), load r c' b' s)"
    "cache_buffer c' = cache_buffer c" "coherent (cfg_read_size (l_cfg s)) (l_dev s) c' b'"
proof -
  obtain c' b' where "lfs_bd_read_buf p r hint block off buf s =
      Some (Val (Inr (), take (length buf) (drop off (view p s block))), load r c' b' s)"
    "cache_buffer c' = cache_buffer c" "coherent (cfg_read_size (l_cfg s)) (l_dev s) c' b'"
    by (rule bd_read_buf_correct [OF assms])
  then show ?thesis using that by (simp add: lfs_bd_read_def bnd_def ret_def)
qed

end

end
