(* ===== verification/Ram.thy ===== *)
theory Ram
  imports Device
begin

text \<open>
  \<open>littlefs-rust/src/ram.rs\<close>: the RAM-backed driver, one vector of bytes holding the blocks
  one after the other, and its interpretation as a block device.  The geometry parameters
  are the const generics of the source.
\<close>

record ram_storage =
  ram_data :: bytes

definition ram_new :: "u32 \<Rightarrow> u32 \<Rightarrow> ram_storage" where
  "ram_new BLOCK_SIZE BLOCK_COUNT = \<lparr>ram_data = replicate (unat BLOCK_SIZE * unat BLOCK_COUNT) 0xff\<rparr>"

definition ram_offset :: "u32 \<Rightarrow> u32 \<Rightarrow> u32 \<Rightarrow> nat" where
  "ram_offset BLOCK_SIZE block off = unat block * unat BLOCK_SIZE + unat off"

definition ram_read :: "u32 \<Rightarrow> u32 \<Rightarrow> u32 \<Rightarrow> bytes \<Rightarrow> ram_storage \<Rightarrow> (error + unit) \<times> bytes \<times> ram_storage" where
  "ram_read BLOCK_SIZE block offset buf d =
    (let start = ram_offset BLOCK_SIZE block offset; fin = start + length buf
     in if fin > length (ram_data d) then (Inl Io, buf, d)
        else (Inr (), take (length buf) (drop start (ram_data d)), d))"

definition ram_write :: "u32 \<Rightarrow> u32 \<Rightarrow> u32 \<Rightarrow> bytes \<Rightarrow> ram_storage \<Rightarrow> (error + unit) \<times> ram_storage" where
  "ram_write BLOCK_SIZE block offset data d =
    (let start = ram_offset BLOCK_SIZE block offset; fin = start + length data
     in if fin > length (ram_data d) then (Inl Io, d)
        else (Inr (), d\<lparr>ram_data := splice (ram_data d) start data\<rparr>))"

definition ram_erase :: "u32 \<Rightarrow> u32 \<Rightarrow> ram_storage \<Rightarrow> (error + unit) \<times> ram_storage" where
  "ram_erase BLOCK_SIZE block d =
    (let start = ram_offset BLOCK_SIZE block 0; fin = start + unat BLOCK_SIZE
     in if fin > length (ram_data d) then (Inl Io, d)
        else (Inr (), d\<lparr>ram_data := splice (ram_data d) start (replicate (unat BLOCK_SIZE) 0xff)\<rparr>))"

text \<open>\<open>sync\<close> is the trait's default; the wrapper \<open>SS\<close> passes every call on.\<close>

definition ram_sync :: "ram_storage \<Rightarrow> (error + unit) \<times> ram_storage" where
  "ram_sync d = (Inr (), d)"

definition ram_driver :: "u32 \<Rightarrow> ram_storage storage" where
  "ram_driver BLOCK_SIZE = \<lparr>st_read = ram_read BLOCK_SIZE, st_write = ram_write BLOCK_SIZE,
     st_erase = ram_erase BLOCK_SIZE, st_sync = ram_sync\<rparr>"

definition ram_wf :: "u32 \<Rightarrow> u32 \<Rightarrow> ram_storage \<Rightarrow> bool" where
  "ram_wf BLOCK_SIZE BLOCK_COUNT d \<longleftrightarrow> length (ram_data d) = unat BLOCK_SIZE * unat BLOCK_COUNT"

definition ram_blk :: "u32 \<Rightarrow> ram_storage \<Rightarrow> u32 \<Rightarrow> bytes" where
  "ram_blk BLOCK_SIZE d b = take (unat BLOCK_SIZE) (drop (unat b * unat BLOCK_SIZE) (ram_data d))"

lemma ram_new_wf: "ram_wf bs bc (ram_new bs bc)"
  by (simp add: ram_wf_def ram_new_def)

lemma ram_fits:
  fixes b n m k :: nat
  assumes "b < n" "k \<le> m"
  shows "b * m + k \<le> m * n"
proof -
  have "Suc b * m \<le> n * m" using assms(1) by (intro mult_le_mono1) simp
  with assms(2) show ?thesis by (simp add: mult.commute)
qed

text \<open>Overwriting inside block \<open>b\<close> is overwriting that block and no other.\<close>

lemma blocks_splice:
  fixes c b m n k :: nat
  assumes len: "length bs = m * n" and c: "c < n" and b: "b < n" and k: "k + length xs \<le> m"
  shows "take m (drop (c * m) (splice bs (b * m + k) xs)) =
    (if c = b then splice (take m (drop (c * m) bs)) k xs else take m (drop (c * m) bs))"
proof -
  have fit: "b * m + (k + length xs) \<le> m * n" by (rule ram_fits [OF b k])
  have lsp: "length (splice bs (b * m + k) xs) = m * n"
    using fit by (subst length_splice) (simp_all add: len)
  have fitc: "c * m + m \<le> m * n" using ram_fits [OF c order_refl] .
  consider "c = b" | "c < b" | "b < c" by linarith
  then show ?thesis
  proof cases
    case 1
    have "take m (drop (b * m) (splice bs (b * m + k) xs)) = splice (take m (drop (b * m) bs)) k xs"
    proof (rule nth_equalityI)
      show "length (take m (drop (b * m) (splice bs (b * m + k) xs))) = length (splice (take m (drop (b * m) bs)) k xs)"
        using fitc k 1 by (simp add: lsp len)
    next
      fix i assume "i < length (take m (drop (b * m) (splice bs (b * m + k) xs)))"
      then have i: "i < m" by simp
      have l: "b * m + i < m * n" using fitc i 1 by simp
      have "splice bs (b * m + k) xs ! (b * m + i)
          = (if k \<le> i \<and> i < k + length xs then xs ! (i - k) else bs ! (b * m + i))"
        using fit l len by (subst nth_splice) auto
      moreover have "drop (b * m) ys ! i = ys ! (b * m + i)" if "length ys = m * n" for ys :: "'a list"
        using that l by (intro nth_drop) linarith
      ultimately show "take m (drop (b * m) (splice bs (b * m + k) xs)) ! i
          = splice (take m (drop (b * m) bs)) k xs ! i"
        using fit fitc k 1 i lsp by (simp add: nth_splice len)
    qed
    with 1 show ?thesis by simp
  next
    case 2
    then have "c * m + m \<le> b * m" using ram_fits [OF 2 order_refl, of m] by (simp add: mult.commute)
    then have "c * m + m \<le> b * m + k" by simp
    with 2 fit show ?thesis by (simp add: splice_before len)
  next
    case 3
    then have "b * m + (k + length xs) \<le> c * m" using ram_fits [OF 3 k] by (simp add: mult.commute)
    with 3 fit show ?thesis by (simp add: splice_after len add.assoc)
  qed
qed

interpretation ram: block_device "ram_driver bs" "ram_wf bs bc" "ram_blk bs" "unat bs" "unat bc"
  for bs bc :: u32
proof
  fix d :: ram_storage and b :: u32
  assume w: "ram_wf bs bc d" and b: "unat b < unat bc"
  have fit: "k \<le> unat bs \<Longrightarrow> unat b * unat bs + k \<le> length (ram_data d)" for k
    using ram_fits [OF b] w by (simp add: ram_wf_def)
  show "length (ram_blk bs d b) = unat bs" using fit [of "unat bs"] by (simp add: ram_blk_def)
  show "st_read (ram_driver bs) b off buf d = (Inr (), take (length buf) (drop (unat off) (ram_blk bs d b)), d)"
    if "unat off + length buf \<le> unat bs" for off buf
    using fit [OF that] that
    by (simp add: ram_driver_def ram_read_def ram_offset_def Let_def ram_blk_def drop_take add.commute
        add.left_commute)
  show "\<exists>d'. st_write (ram_driver bs) b off xs d = (Inr (), d') \<and> ram_wf bs bc d' \<and>
      (\<forall>c. unat c < unat bc \<longrightarrow>
        ram_blk bs d' c = (if c = b then splice (ram_blk bs d b) (unat off) xs else ram_blk bs d c))"
    if "unat off + length xs \<le> unat bs" for off xs
    using fit [OF that] w b blocks_splice [of "ram_data d" "unat bs" "unat bc" _ "unat b" "unat off" xs] that
    by (auto simp: ram_driver_def ram_write_def ram_offset_def Let_def ram_blk_def ram_wf_def add.assoc
        word_unat_eq_iff)
  show "\<exists>d'. st_erase (ram_driver bs) b d = (Inr (), d') \<and> ram_wf bs bc d' \<and>
      (\<forall>c. unat c < unat bc \<longrightarrow>
        ram_blk bs d' c = (if c = b then replicate (unat bs) 0xff else ram_blk bs d c))"
    using fit [of "unat bs"] w b
      blocks_splice [of "ram_data d" "unat bs" "unat bc" _ "unat b" 0 "replicate (unat bs) 0xff"]
    by (auto simp: ram_driver_def ram_erase_def ram_offset_def Let_def ram_blk_def ram_wf_def
        splice_full word_unat_eq_iff)
qed (auto simp: ram_driver_def ram_sync_def)

end
