(* ===== verification/Ctz.thy ===== *)
theory Ctz
  imports Ram
begin

text \<open>
  \<open>file/ctz.rs\<close>, reading side: file contents are stored in a reverse list of blocks, block
  \<open>n\<close> beginning with \<open>ctz n + 1\<close> pointers to the blocks \<open>n - 2 ^ i\<close>.  The lemmas compare
  \<open>lfs_ctz_index\<close> with the layout written as a sum, and show that following the pointers
  by \<open>lfs_ctz_find\<close> ends at the block that holds the position asked for.
\<close>

subsection \<open>Definitions\<close>

definition lfs_ctz_index :: "u32 \<Rightarrow> ('d, u32 \<times> u32) fs" where
  "lfs_ctz_index off =
    bnd (gets (\<lambda>s. cfg_block_size (l_cfg s))) (\<lambda>block_size.
    let b = block_size - 8 in
    bnd (check (b \<noteq> 0)) (\<lambda>_.
    let i = off div b in
    if i = 0 then ret (0, off)
    else
      let i = (off - 4 * (lfs_popc (i - 1) + 2)) div b
      in ret (i, off - b * i - 4 * lfs_popc i)))"

definition lfs_ctz_find_body ::
  "cache_ref option \<Rightarrow> cache_ref \<Rightarrow> u32 \<Rightarrow> u32 \<times> u32 \<Rightarrow> ('d, (u32 \<times> u32) + u32) fs" where
  "lfs_ctz_find_body pcache rcache target = (\<lambda>(current, head).
    if sint target < sint current then
      let skip = unat (min (lfs_npw2 (current - target + 1) - 1) (lfs_ctz current)) in
      bnd (lfs_bd_read pcache rcache 4 head (4 * skip) (replicate 4 0)) (\<lambda>bs.
      ret (Inl (current - push_bit skip 1, u32_from_le bs)))
    else ret (Inr head))"

definition lfs_ctz_find ::
  "cache_ref option \<Rightarrow> cache_ref \<Rightarrow> u32 \<Rightarrow> u32 \<Rightarrow> u32 \<Rightarrow> ('d, u32 \<times> u32) fs" where
  "lfs_ctz_find pcache rcache head sz pos =
    (if sz = 0 then ret (LFS_BLOCK_NULL, 0)
     else
       bnd (lfs_ctz_index (sz - 1)) (\<lambda>(current, _).
       bnd (lfs_ctz_index pos) (\<lambda>(target, target_off).
       bnd (mloop (lfs_ctz_find_body pcache rcache target) (current, head)) (\<lambda>block.
       ret (block, target_off)))))"

text \<open>The callback threads an accumulator; the read always asks for two words.\<close>

definition lfs_ctz_traverse_body ::
  "cache_ref option \<Rightarrow> cache_ref \<Rightarrow> (u32 \<Rightarrow> 'c \<Rightarrow> ('d, 'c) fs) \<Rightarrow> u32 \<times> u32 \<times> 'c \<Rightarrow>
    ('d, (u32 \<times> u32 \<times> 'c) + 'c) fs" where
  "lfs_ctz_traverse_body pcache rcache cb = (\<lambda>(index, head, c).
    bnd (cb head c) (\<lambda>c.
    if index = 0 then ret (Inr c)
    else
      let count = 2 - unat (index AND 1) in
      bnd (lfs_bd_read pcache rcache (count * 4) head 0 (replicate 8 0)) (\<lambda>bs.
      let heads = [u32_from_le (take 4 bs), u32_from_le (drop 4 bs)] in
      bnd (mfold cb (take (count - 1) heads) c) (\<lambda>c.
      ret (Inl (index - word_of_nat count, heads ! (count - 1), c))))))"

definition lfs_ctz_traverse ::
  "cache_ref option \<Rightarrow> cache_ref \<Rightarrow> u32 \<Rightarrow> u32 \<Rightarrow> (u32 \<Rightarrow> 'c \<Rightarrow> ('d, 'c) fs) \<Rightarrow> 'c \<Rightarrow> ('d, 'c) fs" where
  "lfs_ctz_traverse pcache rcache head sz cb c =
    (if sz = 0 then ret c
     else
       bnd (lfs_ctz_index (sz - 1)) (\<lambda>(index, _).
       mloop (lfs_ctz_traverse_body pcache rcache cb) (index, head, c)))"

definition lfs_ctz_tole32 :: "lfs_ctz \<Rightarrow> bytes" where
  "lfs_ctz_tole32 ctz = u32_to_le (ctz_head ctz) @ u32_to_le (ctz_size ctz)"

definition lfs_ctz_fromle32 :: "bytes \<Rightarrow> lfs_ctz" where
  "lfs_ctz_fromle32 bs = \<lparr>ctz_head = u32_from_le (take 4 bs), ctz_size = u32_from_le (take 4 (drop 4 bs))\<rparr>"

lemma lfs_ctz_from_to_le [byte_simps]: "lfs_ctz_fromle32 (lfs_ctz_tole32 c) = c"
  by (simp add: lfs_ctz_fromle32_def lfs_ctz_tole32_def byte_simps)

subsection \<open>The layout of a file\<close>

text \<open>
  \<open>block_start B i\<close> is the file position of the first data byte of block \<open>i\<close> and \<open>ptrs i\<close>
  the bytes its pointers take, for blocks of \<open>B\<close> bytes.
\<close>

definition ptrs :: "nat \<Rightarrow> nat" where
  "ptrs i = (if i = 0 then 0 else 4 * (tz i + 1))"

fun block_start :: "nat \<Rightarrow> nat \<Rightarrow> nat" where
  "block_start B 0 = 0"
| "block_start B (Suc i) = block_start B i + (B - ptrs i)"

lemma ones_0 [simp]: "ones 0 = 0" by (simp add: ones.simps)
lemma tz_odd: "odd n \<Longrightarrow> tz n = 0" by (subst tz.simps) simp
lemma tz_double: "0 < n \<Longrightarrow> tz (2 * n) = Suc (tz n)" by (subst tz.simps) simp
lemma ones_double: "ones (2 * n) = ones n" using ones_unfold [of "2 * n"] by simp
lemma ones_Suc_double: "ones (Suc (2 * n)) = Suc (ones n)" using ones_unfold [of "Suc (2 * n)"] by simp

text \<open>Incrementing clears \<open>tz\<close> ones and sets one.\<close>

lemma ones_Suc: "ones (Suc n) + tz (Suc n) = ones n + 1"
proof (induction n rule: less_induct)
  case (less n)
  show ?case
  proof (cases "even n")
    case True
    then obtain m where m: "n = 2 * m" by auto
    then show ?thesis by (simp add: ones_Suc_double ones_double tz_odd)
  next
    case False
    then obtain m where m: "n = Suc (2 * m)" by (auto elim: oddE)
    then have s: "Suc n = 2 * Suc m" by simp
    have "ones (Suc m) + tz (Suc m) = ones m + 1" using less.IH [of m] m by simp
    then show ?thesis unfolding s by (simp only: ones_double tz_double zero_less_Suc m ones_Suc_double)
  qed
qed

lemma tz_bound: "0 < n \<Longrightarrow> 2 ^ tz n \<le> n"
proof (induction n rule: less_induct)
  case (less n)
  show ?case
  proof (cases "even n")
    case True
    then obtain m where m: "n = 2 * m" "0 < m" using less.prems by auto
    then show ?thesis using less.IH [of m] by (simp add: tz_double)
  next
    case False
    then show ?thesis using less.prems by (simp add: tz_odd)
  qed
qed

lemma ones_less: "n < 2 ^ k \<Longrightarrow> ones n \<le> k"
proof (induction k arbitrary: n)
  case (Suc k)
  then have "ones (n div 2) \<le> k" by simp
  then show ?case using ones_unfold [of n] by linarith
qed simp

text \<open>The closed form the source's comment derives, for \<open>b = B - 8\<close>.\<close>

lemma block_start_closed:
  assumes "128 \<le> B" "i < 2 ^ 28"
  shows "block_start B (Suc i) + 4 * (2 * i) = Suc i * B + 4 * ones i"
  using assms
proof (induction i)
  case (Suc i)
  have "tz (Suc i) < 28"
  proof (rule ccontr)
    assume "\<not> tz (Suc i) < 28"
    then have "(2::nat) ^ 28 \<le> 2 ^ tz (Suc i)" by (intro power_increasing) auto
    with tz_bound [of "Suc i"] Suc.prems show False by simp
  qed
  then have p: "ptrs (Suc i) \<le> B" "ptrs (Suc i) = 4 * (tz (Suc i) + 1)"
    using Suc.prems by (simp_all add: ptrs_def)
  have "block_start B (Suc (Suc i)) + ptrs (Suc i) = block_start B (Suc i) + B"
    using p(1) by simp
  moreover have "block_start B (Suc i) + 4 * (2 * i) = Suc i * B + 4 * ones i"
    using Suc by simp
  ultimately show ?case using ones_Suc [of i] p(2) by simp
qed (simp add: ptrs_def)

lemma block_start_pos:
  assumes "128 \<le> B" "0 < i" "i \<le> 2 ^ 28"
  shows "block_start B i = i * (B - 8) + 4 * (ones (i - 1) + 2)"
proof -
  obtain j where j: "i = Suc j" using assms(2) by (cases i) auto
  have "Suc j * B = Suc j * (B - 8) + 8 * Suc j"
    using assms(1) by (simp add: add_mult_distrib2 [symmetric] mult.commute [of 8] flip: distrib_left)
  moreover have "block_start B (Suc j) + 4 * (2 * j) = Suc j * B + 4 * ones j"
    by (rule block_start_closed) (use assms j in auto)
  ultimately show ?thesis by (simp add: j)
qed

lemma block_start_next:
  assumes "128 \<le> B" "i < 2 ^ 28"
  shows "block_start B i + B = block_start B (Suc i) + ptrs i" "ptrs i < B"
proof -
  have "tz i < 28" if "0 < i"
  proof (rule ccontr)
    assume "\<not> tz i < 28"
    then have "(2::nat) ^ 28 \<le> 2 ^ tz i" by (intro power_increasing) auto
    with tz_bound [OF that] assms(2) show False by simp
  qed
  then have "ptrs i \<le> 112" by (cases "i = 0") (auto simp: ptrs_def)
  with assms(1) show "ptrs i < B" by simp
  then show "block_start B i + B = block_start B (Suc i) + ptrs i" by simp
qed

text \<open>The source's two-step division finds the block.\<close>

lemma index_search:
  fixes b pos i0 :: nat
  defines "B \<equiv> b + 8" and "i0 \<equiv> pos div b"
  defines "i \<equiv> (pos - 4 * (ones (i0 - 1) + 2)) div b"
  assumes b: "120 \<le> b" and i0: "0 < i0" "i0 < 2 ^ 26"
  shows "block_start B i \<le> pos" "pos < block_start B (Suc i)" "i \<le> i0"
    "4 * (ones (i0 - 1) + 2) \<le> pos"
proof -
  define d where "d = 4 * (ones (i0 - 1) + 2)"
  have "ones (i0 - 1) \<le> 26" using i0 by (intro ones_less) simp
  then have d: "d \<le> b" using b by (simp add: d_def)
  have B: "128 \<le> B" "B - 8 = b" using b by (simp_all add: B_def)
  obtain r where r: "pos = i0 * b + r" "r < b"
    using b by (metis div_mult_mod_eq i0_def mod_less_divisor zero_less_numeral less_le_trans)
  have "b \<le> i0 * b" using i0(1) by simp
  then show le: "4 * (ones (i0 - 1) + 2) \<le> pos" using d r unfolding d_def by linarith
  have S: "block_start B i0 = i0 * b + d"
    using block_start_pos [OF B(1) i0(1)] i0 B(2) by (simp add: d_def)
  have S1: "block_start B (Suc i0) \<ge> Suc i0 * b"
    using block_start_pos [OF B(1), of "Suc i0"] i0 B(2) by simp
  show "block_start B i \<le> pos" "pos < block_start B (Suc i)" "i \<le> i0"
  proof -
    have i_eq: "i = (if d \<le> r then i0 else i0 - 1)"
    proof (cases "d \<le> r")
      case True
      then have "pos - d = i0 * b + (r - d)" using r by simp
      moreover have "(i0 * b + (r - d)) div b = i0" using r(2) b by (subst div_mult_self3) auto
      ultimately show ?thesis using True by (simp add: i_def d_def)
    next
      case False
      obtain j where j: "i0 = Suc j" using i0(1) by (cases i0) auto
      have "pos - d = j * b + (b + r - d)" using False d r by (simp add: j)
      moreover have "(j * b + (b + r - d)) div b = j" using False d b by (subst div_mult_self3) auto
      ultimately show ?thesis using False by (simp add: i_def d_def j)
    qed
    then show "i \<le> i0" by simp
    show "block_start B i \<le> pos"
    proof (cases "d \<le> r")
      case True
      then show ?thesis using i_eq S r by simp
    next
      case False
      show ?thesis
      proof (cases "i0 = 1")
        case True
        then show ?thesis using i_eq False by simp
      next
        case F: False
        have "ones (i0 - 1 - 1) \<le> 26" using i0 by (intro ones_less) simp
        moreover have "block_start B (i0 - 1) = (i0 - 1) * b + 4 * (ones (i0 - 1 - 1) + 2)"
          using block_start_pos [OF B(1), of "i0 - 1"] i0 F B(2) by simp
        moreover have "(i0 - 1) * b + b = i0 * b" using i0(1) by (cases i0) auto
        ultimately show ?thesis using i_eq False b r by simp
      qed
    qed
    show "pos < block_start B (Suc i)"
    proof (cases "d \<le> r")
      case True
      then show ?thesis using i_eq S1 r by simp
    next
      case False
      then show ?thesis using i_eq S r i0(1) by simp
    qed
  qed
qed

lemma ctz_index_correct:
  fixes s :: "'d lfs"
  defines "B \<equiv> unat (cfg_block_size (l_cfg s))"
  assumes B: "128 \<le> B"
  obtains i o' where "lfs_ctz_index off s = Some (Val (i, o'), s)"
    "block_start B (unat i) \<le> unat off" "unat off < block_start B (Suc (unat i))" "unat i < 2 ^ 26"
    "unat o' = unat off - block_start B (unat i) + ptrs (unat i)" "unat o' < B"
proof -
  define bs where "bs = cfg_block_size (l_cfg s)"
  define b where "b = bs - 8"
  have ub: "unat b = B - 8"
    using B by (simp add: b_def B_def bs_def unat_sub word_le_nat_alt)
  have b0: "b \<noteq> 0" using ub B by auto
  have b8: "bs \<noteq> 8" using b0 by (simp add: b_def)
  have b120: "120 \<le> unat b" using ub B by simp
  have BB: "unat b + 8 = B" using ub B by simp
  define i0 where "i0 = off div b"
  have ui0: "unat i0 = unat off div unat b" by (simp add: i0_def unat_div)
  have "unat off < 2 ^ 32" using unsigned_less [of off] by simp
  also have "(2::nat) ^ 32 \<le> 2 ^ 26 * unat b" using b120 by simp
  finally have i0lt: "unat i0 < 2 ^ 26" unfolding ui0 using b120 by (simp add: div_less_iff_less_mult)
  show ?thesis
  proof (cases "i0 = 0")
    case True
    then have "unat off < unat b" using ui0 b120 by (simp add: div_eq_0_iff)
    moreover have "lfs_ctz_index off s = Some (Val (0, off), s)"
      using True b8 by (simp add: lfs_ctz_index_def bnd_gets Let_def bs_def [symmetric] b_def [symmetric]
          i0_def [symmetric] ret_def)
    ultimately show ?thesis using that [of 0 off] ub B by (simp add: ptrs_def)
  next
    case False
    then have i0p: "0 < unat i0" by (simp add: unat_gt_0)
    define d where "d = 4 * (lfs_popc (i0 - 1) + 2)"
    have "1 \<le> i0" using i0p by (simp add: word_le_nat_alt)
    then have u1: "unat (i0 - 1) = unat i0 - 1" by (simp add: unat_sub)
    have o26: "ones (unat i0 - 1) \<le> 26" using i0lt by (intro ones_less) simp
    have ud: "unat d = 4 * (ones (unat i0 - 1) + 2)"
      using o26 by (simp add: d_def unat_word_ariths unat_lfs_popc u1)
    define i where "i = (off - d) div b"
    note srch = index_search [OF b120, of "unat off", folded ui0, OF i0p i0lt, folded ud, unfolded BB]
    have "unat (off - d) = unat off - unat d" using srch(4) by (simp add: unat_sub word_le_nat_alt)
    then have ui: "unat i = (unat off - unat d) div unat b" by (simp add: i_def unat_div)
    note srch = srch [folded ui]
    have ilt: "unat i < 2 ^ 26" using srch(3) i0lt by simp
    have oi: "ones (unat i) \<le> 26" by (rule ones_less [OF ilt])
    have lay: "block_start B (unat i) + 4 * ones (unat i) + unat b * unat i
        = block_start B (unat i) + (block_start B (unat i) - ptrs (unat i)) \<and>
      ptrs (unat i) \<le> block_start B (unat i)"
    proof (cases "unat i = 0")
      case True
      then show ?thesis by (simp add: ptrs_def)
    next
      case nz: False
      then have p: "block_start B (unat i) = unat i * unat b + 4 * (ones (unat i - 1) + 2)"
        using block_start_pos [OF B, of "unat i"] ilt ub by simp
      have "ones (unat i) + tz (unat i) = ones (unat i - 1) + 1"
        using ones_Suc [of "unat i - 1"] nz by simp
      then show ?thesis using nz by (simp add: p ptrs_def mult.commute)
    qed
    define o' where "o' = off - b * i - 4 * lfs_popc i"
    have le: "unat b * unat i + 4 * ones (unat i) \<le> unat off" using lay srch(1) by linarith
    have offlt: "unat off < 2 ^ 32" using unsigned_less [of off] by simp
    have ubi: "unat (b * i) = unat b * unat i" using le offlt by (simp add: unat_word_ariths)
    have up: "unat (4 * lfs_popc i) = 4 * ones (unat i)"
      using oi by (simp add: unat_word_ariths unat_lfs_popc)
    have s1: "unat (off - b * i) = unat off - unat b * unat i"
      using le by (simp add: unat_sub word_le_nat_alt ubi)
    have uo: "unat o' = unat off - unat b * unat i - 4 * ones (unat i)"
      using le unfolding o'_def by (subst unat_sub) (simp_all add: word_le_nat_alt s1 up)
    have uo': "unat o' = unat off - block_start B (unat i) + ptrs (unat i)"
      using uo lay srch(1) by linarith
    have "lfs_ctz_index off s = Some (Val (i, o'), s)"
      using False b0 unfolding lfs_ctz_index_def Let_def bnd_gets bs_def [symmetric] b_def [symmetric]
        i0_def [symmetric] d_def [symmetric] i_def [symmetric] o'_def [symmetric]
      by (simp add: ret_def)
    moreover have "unat o' < B"
      using uo' srch(1,2) block_start_next [OF B, of "unat i"] ilt by simp
    ultimately show ?thesis using that srch ilt uo' by blast
  qed
qed

subsection \<open>Finding a position\<close>

lemma block_start_mono:
  assumes "128 \<le> B" "i \<le> j" "j < 2 ^ 28"
  shows "block_start B i \<le> block_start B j"
  using assms(2,3)
proof (induction j)
  case (Suc j)
  then show ?case by (cases "i = Suc j") auto
qed simp

lemma block_index_unique:
  assumes "128 \<le> B" "i < 2 ^ 28" "j < 2 ^ 28" "block_start B i \<le> x" "x < block_start B (Suc i)"
    "block_start B j \<le> x" "x < block_start B (Suc j)"
  shows "i = j"
proof (rule ccontr)
  assume "i \<noteq> j"
  then consider "Suc i \<le> j" | "Suc j \<le> i" by linarith
  then show False
  proof cases
    case 1
    with block_start_mono [OF assms(1) 1] assms show False by linarith
  next
    case 2
    with block_start_mono [OF assms(1) 2] assms show False by linarith
  qed
qed

lemma sint_small: "unat w < 2 ^ 31 \<Longrightarrow> sint w = int (unat (w :: u32))"
proof -
  assume "unat w < 2 ^ 31"
  then have u: "uint w < 2 ^ 31"
    using of_nat_less_iff [of "unat w" "2 ^ 31", where ?'a = int] by simp
  have "sint w = signed_take_bit (LENGTH(32) - Suc 0) (uint w)" by (rule sint_uint)
  also have "\<dots> = uint w"
  proof (rule signed_take_bit_int_eq_self)
    have "- (2 ^ (LENGTH(32) - Suc 0)) \<le> (0 :: int)" by simp
    then show "- (2 ^ (LENGTH(32) - Suc 0)) \<le> uint w" using uint_ge_0 [of w] by (rule order_trans)
    show "uint w < 2 ^ (LENGTH(32) - Suc 0)" using u by simp
  qed
  finally show ?thesis by (simp only: uint_nat)
qed

text \<open>The blocks \<open>bl 0, ..., bl n\<close> form a lay: every pointer is where it should be.\<close>

definition ctz_file :: "(u32 \<Rightarrow> bytes) \<Rightarrow> (nat \<Rightarrow> u32) \<Rightarrow> nat \<Rightarrow> bool" where
  "ctz_file view bl n \<longleftrightarrow>
    (\<forall>k j. 0 < k \<and> k \<le> n \<and> j \<le> tz k \<longrightarrow> take 4 (drop (4 * j) (view (bl k))) = u32_to_le (bl (k - 2 ^ j)))"

context block_device
begin

lemma ctz_find_walk:
  assumes lay: "ctz_file (view p s) bl n" and n: "n < 2 ^ 26" and bs: "128 \<le> bsz"
    and ready: "\<And>k. k \<le> n \<Longrightarrow> read_ready p r (bl k) s" and cof: "cache_of r s = Some c"
    and tgt: "unat target \<le> n"
  obtains c' b' where
    "mloop (lfs_ctz_find_body p r target) (word_of_nat n, bl n) s = Some (Val (bl (unat target)), load r c' b' s)"
    "cache_buffer c' = cache_buffer c" "coherent (cfg_read_size (l_cfg s)) (l_dev s) c' b'"
proof -
  let ?coh = "coherent (cfg_read_size (l_cfg s)) (l_dev s)"
  define I where "I = (\<lambda>(cur :: u32, hb) t. unat target \<le> unat cur \<and> unat cur \<le> n \<and> hb = bl (unat cur) \<and>
     (\<exists>c' b'. t = load r c' b' s \<and> cache_buffer c' = cache_buffer c \<and> ?coh c' b'))"
  define Q where "Q = (\<lambda>res t. res = Val (bl (unat target)) \<and>
     (\<exists>c' b'. t = load r c' b' s \<and> cache_buffer c' = cache_buffer c \<and> ?coh c' b'))"
  have un: "unat (word_of_nat n :: u32) = n" unfolding unat_of_nat using n by simp
  have "wp (mloop (lfs_ctz_find_body p r target) (word_of_nat n, bl n)) Q s"
  proof (rule wp_mloop [where I = I and \<mu> = "\<lambda>x t. unat (fst x)"])
    show "I (word_of_nat n, bl n) s"
      using ready [of n] cof tgt by (auto simp: I_def un read_ready_to_def
          intro!: exI [of _ c] exI [of _ "l_bufs s (cache_buffer c)"] load_same [symmetric])
    fix x t assume "I x t"
    then obtain cur c1 b1 where x: "x = (cur, bl (unat cur))" and le: "unat target \<le> unat cur" "unat cur \<le> n"
      and t: "t = load r c1 b1 s" and c1: "cache_buffer c1 = cache_buffer c" "?coh c1 b1"
      by (cases x) (auto simp: I_def)
    have sc: "sint target < sint cur \<longleftrightarrow> unat target < unat cur"
      using le n sint_small [of cur] sint_small [of target]
      by (simp flip: word_less_def add: word_less_nat_alt)
    show "wp (lfs_ctz_find_body p r target x) (\<lambda>res t'. case res of
          Val (Inl y) \<Rightarrow> I y t' \<and> unat (fst y) < unat (fst x)
        | Val (Inr z) \<Rightarrow> Q (Val z) t' | Exc e \<Rightarrow> Q (Exc e) t' | Panic \<Rightarrow> Q Panic t') t"
    proof (cases "unat target < unat cur")
      case False
      with le c1 show ?thesis
        by (auto simp: x lfs_ctz_find_body_def sc wp_def ret_def Q_def t)
    next
      case True
      define d where "d = unat cur - unat target"
      have d: "0 < d" "d < 2 ^ 26" using True le n by (simp_all add: d_def)
      have ud: "unat (cur - target + 1) = d + 1"
      proof -
        have "unat (cur - target) = d" using True by (simp add: d_def unat_sub word_le_nat_alt)
        then show ?thesis using d by (simp add: unat_word_ariths)
      qed
      define N where "N = lfs_npw2 (cur - target + 1)"
      have N: "2 ^ (unat N - 1) < d + 1" "1 \<le> unat N" "unat N \<le> 32"
        using lfs_npw2_bounds [of "cur - target + 1"] ud d unfolding N_def by auto
      have uN: "unat (N - 1) = unat N - 1" using N(2) by (simp add: unat_sub word_le_nat_alt)
      define skip where "skip = unat (min (N - 1) (lfs_ctz cur))"
      have c0: "cur \<noteq> 0" using True by auto
      have sk: "skip \<le> unat N - 1" "skip \<le> tz (unat cur)"
        by (auto simp: skip_def min_def word_le_nat_alt uN unat_lfs_ctz [OF c0])
      have "(2::nat) ^ skip \<le> 2 ^ (unat N - 1)" using sk(1) by (rule power_increasing) simp
      with N(1) have s2: "2 ^ skip \<le> d" by linarith
      have s26: "skip < 26"
      proof (rule ccontr)
        assume "\<not> skip < 26"
        then have "(2::nat) ^ 26 \<le> 2 ^ skip" by (intro power_increasing) auto
        with s2 d show False by simp
      qed
      have usk: "unat (push_bit skip 1 :: u32) = 2 ^ skip"
      proof -
        have "(2::nat) ^ skip < 2 ^ 32" using s26 by (intro power_strict_increasing) auto
        then show ?thesis using unat_of_nat [of "2 ^ skip", where ?'a = 32] by (simp add: push_bit_eq_mult)
      qed
      have cot: "cache_of r t = Some c1" using cof by (simp add: t cache_of_load)
      have rt: "read_ready p r (bl (unat cur)) t" "view p t = view p s"
        using read_ready_load [OF ready [OF le(2)] cof c1] by (simp_all add: t)
      obtain c2 b2 where rd: "lfs_bd_read p r 4 (bl (unat cur)) (4 * skip) (replicate 4 0) t =
          Some (Val (take 4 (drop (4 * skip) (view p t (bl (unat cur))))), load r c2 b2 t)"
        "cache_buffer c2 = cache_buffer c1" "coherent (cfg_read_size (l_cfg t)) (l_dev t) c2 b2"
        using bd_read_correct [OF rt(1) cot, of 4 "4 * skip" "replicate 4 0"] bs s26 by auto
      have rdb: "bnd (lfs_bd_read p r 4 (bl (unat cur)) (4 * skip) (replicate 4 0)) k t
          = k (take 4 (drop (4 * skip) (view p t (bl (unat cur))))) (load r c2 b2 t)"
        for k :: "_ \<Rightarrow> ('d, (u32 \<times> u32) + u32) fs" by (rule bnd_run_Val) (rule rd(1))
      have t2: "load r c2 b2 t = load r c2 b2 s" unfolding t by (rule load_load) (rule rd(2))
      have ptr: "take 4 (drop (4 * skip) (view p t (bl (unat cur)))) = u32_to_le (bl (unat cur - 2 ^ skip))"
        using lay True le sk(2) unfolding rt(2) ctz_file_def by auto
      define cur' where "cur' = cur - push_bit skip 1"
      have uc: "unat cur' = unat cur - 2 ^ skip"
      proof -
        have "push_bit skip 1 \<le> cur"
          unfolding word_le_nat_alt usk using s2 by (simp add: d_def)
        then show ?thesis by (simp only: cur'_def unat_sub usk)
      qed
      have "lfs_ctz_find_body p r target x t
        = Some (Val (Inl (cur', bl (unat cur - 2 ^ skip))), load r c2 b2 s)"
        using True unfolding x lfs_ctz_find_body_def
        by (simp only: sc prod.case if_True N_def [symmetric] Let_def skip_def [symmetric] cur'_def [symmetric] rdb)
          (simp add: ret_def ptr t2 byte_simps)
      moreover have "I (cur', bl (unat cur - 2 ^ skip)) (load r c2 b2 s)"
        using s2 le c1 rd(2,3) by (auto simp: I_def uc d_def t intro!: exI [of _ c2] exI [of _ b2])
      moreover have "unat cur' < unat cur" using True by (simp add: uc)
      ultimately show ?thesis by (simp add: wp_def x)
    qed
  qed
  then show ?thesis using that by (auto elim!: wpE simp: Q_def)
qed

theorem ctz_find_correct:
  assumes lay: "ctz_file (view p s) bl n" and n: "n < 2 ^ 26" and bs: "128 \<le> bsz"
    and ready: "\<And>k. k \<le> n \<Longrightarrow> read_ready p r (bl k) s" and cof: "cache_of r s = Some c"
    and last: "block_start bsz n < unat sz" "unat sz \<le> block_start bsz (Suc n)" and pos: "unat pos < unat sz"
  obtains i o' c' b' where
    "lfs_ctz_find p r (bl n) sz pos s = Some (Val (bl i, o'), load r c' b' s)"
    "block_start bsz i \<le> unat pos" "unat pos < block_start bsz (Suc i)"
    "unat o' = unat pos - block_start bsz i + ptrs i" "unat o' < bsz"
    "cache_buffer c' = cache_buffer c" "coherent (cfg_read_size (l_cfg s)) (l_dev s) c' b'"
proof -
  have att: "attached s" using ready [of 0] by (simp add: read_ready_to_def)
  then have ub: "unat (cfg_block_size (l_cfg s)) = bsz" by (simp add: attached_to_def)
  have sz0: "sz \<noteq> 0" using pos by auto
  then have usz: "unat (sz - 1) = unat sz - 1"
    by (metis unat_minus_one)
  obtain j oj where j: "lfs_ctz_index (sz - 1) s = Some (Val (j, oj), s)"
    "block_start bsz (unat j) \<le> unat (sz - 1)" "unat (sz - 1) < block_start bsz (Suc (unat j))" "unat j < 2 ^ 26"
    using ctz_index_correct [of s "sz - 1"] bs unfolding ub by metis
  obtain i oi where i: "lfs_ctz_index pos s = Some (Val (i, oi), s)"
    "block_start bsz (unat i) \<le> unat pos" "unat pos < block_start bsz (Suc (unat i))" "unat i < 2 ^ 26"
    "unat oi = unat pos - block_start bsz (unat i) + ptrs (unat i)" "unat oi < bsz"
    using ctz_index_correct [of s pos] bs unfolding ub by metis
  have jn: "unat j = n"
    by (rule block_index_unique [OF bs, where x = "unat sz - 1"]) (use j last pos n usz in auto)
  have jw: "j = word_of_nat n" unfolding jn [symmetric] by simp
  have ile: "unat i \<le> n"
  proof (rule ccontr)
    assume "\<not> unat i \<le> n"
    then have "block_start bsz (Suc n) \<le> block_start bsz (unat i)"
      using i(4) by (intro block_start_mono [OF bs]) auto
    with i(2) pos last(2) show False by linarith
  qed
  obtain c' b' where w: "mloop (lfs_ctz_find_body p r i) (word_of_nat n, bl n) s = Some (Val (bl (unat i)), load r c' b' s)"
    "cache_buffer c' = cache_buffer c" "coherent (cfg_read_size (l_cfg s)) (l_dev s) c' b'"
    by (rule ctz_find_walk [OF lay n bs ready cof ile])
  have "lfs_ctz_find p r (bl n) sz pos s = Some (Val (bl (unat i), oi), load r c' b' s)"
    using sz0 by (simp add: lfs_ctz_find_def bnd_def j(1) [unfolded jw] i(1) w(1) ret_def)
  with i w show ?thesis using that by blast
qed

end

end
