(* ===== verification/Dirget.thy ===== *)
theory Dirget
  imports Mlist Ctz
begin

text \<open>
  \<open>dir/traverse.rs\<close>, first part: looking a tag up in the log of a metadata pair, newest
  entry first, adjusting the id for the create and delete entries passed on the way; and the
  buffered read of an inline file that is built on it.
\<close>

text \<open>The loop variables of \<open>lfs_dir_getslice\<close>: \<open>off\<close>, \<open>ntag\<close>, \<open>gdiff\<close>.\<close>

definition lfs_dir_getslice_body ::
  "lfs_mdir \<Rightarrow> u32 \<Rightarrow> u32 \<Rightarrow> nat \<Rightarrow> bytes \<Rightarrow> u32 \<times> u32 \<times> u32 \<Rightarrow>
    ('d, (u32 \<times> u32 \<times> u32) + ((error + u32) \<times> bytes)) fs" where
  "lfs_dir_getslice_body dir gmask gtag goff gbuffer = (\<lambda>(off, ntag, gdiff).
    if off \<ge> 4 + lfs_tag_dsize ntag then
      let off = off - lfs_tag_dsize ntag;
          tag = ntag in
      bnd (attempt (lfs_bd_read None RCache 4 (fst (md_pair dir)) (unat off) (replicate 4 0))) (\<lambda>rd.
      case rd of
        Inl e \<Rightarrow> ret (Inr (Inl e, gbuffer))
      | Inr raw \<Rightarrow>
      let ntag = (u32_from_be raw XOR tag) AND 0x7fffffff;
          splice_here = lfs_tag_id gmask \<noteq> 0 \<and> lfs_tag_type1 tag = LFS_TYPE_SPLICE
            \<and> lfs_tag_id tag \<le> lfs_tag_id (gtag - gdiff) in
      if splice_here \<and> tag = (lfs_mktag LFS_TYPE_CREATE 0 0 OR (lfs_mktag 0 0x3ff 0 AND (gtag - gdiff)))
      then ret (Inr (Inl NoEntry, gbuffer))
      else
      let gdiff = (if splice_here then gdiff + lfs_mktag 0 (word_of_int (lfs_tag_splice tag)) 0 else gdiff) in
      if gmask AND tag = gmask AND (gtag - gdiff) then
        if lfs_tag_isdelete tag then ret (Inr (Inl NoEntry, gbuffer))
        else
          let diff = min (unat (lfs_tag_size tag)) (length gbuffer) in
          bnd (lfs_bd_read_buf None RCache diff (fst (md_pair dir)) (unat off + 4 + goff) (take diff gbuffer)) (\<lambda>(r, bs).
          case r of
            Inl e \<Rightarrow> ret (Inr (Inl e, bs @ drop diff gbuffer))
          | Inr _ \<Rightarrow> ret (Inr (Inr (tag + gdiff), bs @ replicate (length gbuffer - diff) 0)))
      else ret (Inl (off, ntag, gdiff)))
    else ret (Inr (Inl NoEntry, gbuffer)))"

definition lfs_dir_getslice_buf ::
  "lfs_mdir \<Rightarrow> u32 \<Rightarrow> u32 \<Rightarrow> nat \<Rightarrow> bytes \<Rightarrow> ('d, (error + u32) \<times> bytes) fs" where
  "lfs_dir_getslice_buf dir gmask gtag goff gbuffer =
    bnd (gets l_gdisk) (\<lambda>gdisk.
    let here = lfs_gstate_hasmovehere gdisk (md_pair dir) \<and> lfs_tag_id gmask \<noteq> 0 in
    if here \<and> lfs_tag_id (gs_tag gdisk) = lfs_tag_id gtag then ret (Inl NoEntry, gbuffer)
    else
    let gdiff = (if here \<and> lfs_tag_id (gs_tag gdisk) < lfs_tag_id gtag then 0 - lfs_mktag 0 1 0 else 0) in
    mloop (lfs_dir_getslice_body dir gmask gtag goff gbuffer) (md_off dir, md_etag dir, gdiff))"

definition lfs_dir_get_buf :: "lfs_mdir \<Rightarrow> u32 \<Rightarrow> u32 \<Rightarrow> bytes \<Rightarrow> ('d, (error + u32) \<times> bytes) fs" where
  "lfs_dir_get_buf dir gmask gtag buffer =
    (let n = unat (lfs_tag_size gtag) in
     bnd (check (n \<le> length buffer)) (\<lambda>_.
     bnd (lfs_dir_getslice_buf dir gmask gtag 0 (take n buffer)) (\<lambda>(r, bs).
     ret (r, bs @ drop n buffer))))"

text \<open>For the callers that use the buffer only on success.\<close>

definition lfs_dir_get :: "lfs_mdir \<Rightarrow> u32 \<Rightarrow> u32 \<Rightarrow> bytes \<Rightarrow> ('d, u32 \<times> bytes) fs" where
  "lfs_dir_get dir gmask gtag buffer =
    bnd (lfs_dir_get_buf dir gmask gtag buffer) (\<lambda>(r, bs).
    bnd (lift_res r) (\<lambda>tag. ret (tag, bs)))"

text \<open>
  Reading an inline file through its cache, which holds the block number
  \<open>LFS_BLOCK_INLINE\<close> while it caches a slice of the metadata entry.
\<close>

definition lfs_dir_getread_body ::
  "lfs_mdir \<Rightarrow> cache_ref option \<Rightarrow> cache_ref \<Rightarrow> u32 \<Rightarrow> u32 \<Rightarrow> u32 \<Rightarrow> nat \<times> bytes \<times> bytes \<Rightarrow>
    ('d, (nat \<times> bytes \<times> bytes) + bytes) fs" where
  "lfs_dir_getread_body dir pcache rcache hint gmask gtag = (\<lambda>(off, got, data).
    if data = [] then ret (Inr got)
    else
    bnd (gets l_cfg) (\<lambda>cfg.
    bnd (probe_opt pcache LFS_BLOCK_INLINE off (length data)) (\<lambda>pp.
    case pp of
      Hit diff \<Rightarrow>
        bnd (cache_copy (the pcache) off diff data) (\<lambda>bs.
        ret (Inl (off + diff, got @ bs, drop diff data)))
    | Limit diff \<Rightarrow>
        bnd (get_cache rcache) (\<lambda>rc.
        bnd (get_buf (cache_buffer rc)) (\<lambda>b.
        if cache_block rc = LFS_BLOCK_INLINE \<and> off < cache_off rc + cache_size rc \<and> off \<ge> cache_off rc then
          bnd (check (off - cache_off rc \<le> length b)) (\<lambda>_.
          let src = drop (off - cache_off rc) b;
              diff = min diff (length src) in
          ret (Inl (off + diff, got @ take diff src, drop diff data)))
        else
          bnd (aligndown_m (word_of_nat off) (cfg_read_size cfg)) (\<lambda>start.
          bnd (alignup_m (word_of_nat off + hint) (cfg_read_size cfg)) (\<lambda>stop.
          let n = unat (min stop (word_of_nat (length b))) in
          bnd (upd_cache rcache (\<lambda>c. c\<lparr>cache_block := LFS_BLOCK_INLINE, cache_off := unat start, cache_size := n\<rparr>)) (\<lambda>_.
          bnd (lfs_dir_getslice_buf dir gmask gtag (unat start) (take n b)) (\<lambda>(r, bs).
          bnd (put_buf (cache_buffer rc) (splice b 0 bs)) (\<lambda>_.
          bnd (lift_res r) (\<lambda>_.
          ret (Inl (off, got, data)))))))))))))"

definition lfs_dir_getread ::
  "lfs_mdir \<Rightarrow> cache_ref option \<Rightarrow> cache_ref \<Rightarrow> u32 \<Rightarrow> u32 \<Rightarrow> u32 \<Rightarrow> nat \<Rightarrow> bytes \<Rightarrow> ('d, bytes) fs" where
  "lfs_dir_getread dir pcache rcache hint gmask gtag off buffer =
    bnd (gets l_cfg) (\<lambda>cfg.
    if off + length buffer > unat (cfg_block_size cfg) then throw Corrupt
    else mloop (lfs_dir_getread_body dir pcache rcache hint gmask gtag) (off, [], buffer))"

end
