(* ===== verification/Fetch.thy ===== *)
theory Fetch
  imports Dirget
begin

text \<open>
  \<open>dir/fetch.rs\<close>: finding the newest valid commit of a metadata pair, with an optional
  match on tags while the log is scanned; the global-state delta and the directory entry
  read from a fetched pair.  The \<open>LfsMdir\<close> filled in is the one stored at a node address.
\<close>

subsection \<open>Errors that end a scan\<close>

text \<open>A read that fails with \<open>Corrupt\<close> ends the scan; other errors are passed on.\<close>

definition or_corrupt :: "('s, 'a) m \<Rightarrow> ('s, 'b) m \<Rightarrow> ('a \<Rightarrow> ('s, 'b) m) \<Rightarrow> ('s, 'b) m" where
  "or_corrupt c brk k = bnd (attempt c) (\<lambda>r. case r of
      Inl e \<Rightarrow> if e = Corrupt then brk else throw e
    | Inr x \<Rightarrow> k x)"

definition lfs_fcrc_fromle32 :: "bytes \<Rightarrow> lfs_fcrc" where
  "lfs_fcrc_fromle32 bs =
    \<lparr>fcrc_size = u32_from_le (take 4 bs), fcrc_crc = u32_from_le (take 4 (drop 4 bs))\<rparr>"

definition lfs_fcrc_tole32 :: "lfs_fcrc \<Rightarrow> bytes" where
  "lfs_fcrc_tole32 f = u32_to_le (fcrc_size f) @ u32_to_le (fcrc_crc f)"

lemma lfs_fcrc_from_to_le [byte_simps]: "lfs_fcrc_fromle32 (lfs_fcrc_tole32 f) = f"
  by (simp add: lfs_fcrc_fromle32_def lfs_fcrc_tole32_def byte_simps)

subsection \<open>The scan of one block\<close>

record fetch_loop =
  fl_off :: u32
  fl_ptag :: u32
  fl_tempcount :: u16
  fl_temptail :: pair
  fl_tempsplit :: bool
  fl_tempbesttag :: u32
  fl_maybeerased :: bool
  fl_hasfcrc :: bool
  fl_fcrc :: lfs_fcrc
  fl_crc :: u32
  fl_besttag :: u32

type_synonym 'd matcher = "u32 \<Rightarrow> lfs_diskoff \<Rightarrow> ('d, ordering) fs"

text \<open>What a tag of the log says about the number of entries, the best match and the tail.\<close>

definition fetch_note_name :: "u32 \<Rightarrow> fetch_loop \<Rightarrow> fetch_loop" where
  "fetch_note_name tag l =
    (if lfs_tag_id tag \<ge> fl_tempcount l then l\<lparr>fl_tempcount := lfs_tag_id tag + 1\<rparr> else l)"

definition fetch_note_splice :: "u32 \<Rightarrow> fetch_loop \<Rightarrow> fetch_loop" where
  "fetch_note_splice tag l =
    (let l = l\<lparr>fl_tempcount := fl_tempcount l + word_of_int (lfs_tag_splice tag)\<rparr>;
         best = fl_tempbesttag l;
         delete_tag = (lfs_mktag LFS_TYPE_DELETE 0 0 OR (lfs_mktag 0 0x3ff 0 AND best))
     in if tag = delete_tag then l\<lparr>fl_tempbesttag := best OR 0x80000000\<rparr>
        else if best \<noteq> - 1 \<and> lfs_tag_id tag \<le> lfs_tag_id best
        then l\<lparr>fl_tempbesttag := best + lfs_mktag 0 (word_of_int (lfs_tag_splice tag)) 0\<rparr>
        else l)"

definition fetch_note_match :: "u32 \<Rightarrow> ordering \<Rightarrow> fetch_loop \<Rightarrow> fetch_loop" where
  "fetch_note_match tag res l =
    (if res = Equal then l\<lparr>fl_tempbesttag := tag\<rparr>
     else if lfs_mktag 0x7ff 0x3ff 0 AND tag = lfs_mktag 0x7ff 0x3ff 0 AND fl_tempbesttag l
     then l\<lparr>fl_tempbesttag := - 1\<rparr>
     else if res = Greater \<and> lfs_tag_id tag \<le> lfs_tag_id (fl_tempbesttag l)
     then l\<lparr>fl_tempbesttag := tag OR 0x80000000\<rparr>
     else l)"

definition fetch_commit_crc ::
  "nat \<Rightarrow> u32 \<Rightarrow> fetch_loop \<Rightarrow> ('d, fetch_loop + fetch_loop) fs" where
  "fetch_commit_crc a tag l =
    bnd (gets l_cfg) (\<lambda>cfg.
    bnd (get_mdir a) (\<lambda>dir.
    or_corrupt (lfs_bd_read None RCache (unat (cfg_block_size cfg)) (fst (md_pair dir)) (unat (fl_off l + 4)) (replicate 4 0))
      (ret (Inr l)) (\<lambda>dcrc_buf.
    let dcrc = u32_from_le dcrc_buf in
    if fl_crc l \<noteq> dcrc then ret (Inr l)
    else
    let ptag = fl_ptag l XOR push_bit 31 (ucast (lfs_tag_chunk tag) AND 1) in
    bnd (modify (\<lambda>s. s\<lparr>l_seed := lfs_crc (l_seed s) (u32_to_le (fl_crc l))\<rparr>)) (\<lambda>_.
    bnd (upd_mdir a (\<lambda>d. d\<lparr>md_off := fl_off l + lfs_tag_dsize tag, md_etag := ptag, md_count := fl_tempcount l,
           md_tail := fl_temptail l, md_split := fl_tempsplit l\<rparr>)) (\<lambda>_.
    ret (Inl (l\<lparr>fl_ptag := ptag, fl_besttag := fl_tempbesttag l, fl_crc := 0xffffffff\<rparr>)))))))"

definition fetch_tag ::
  "nat \<Rightarrow> u32 \<Rightarrow> u32 \<Rightarrow> 'd matcher option \<Rightarrow> u32 \<Rightarrow> fetch_loop \<Rightarrow> ('d, fetch_loop + fetch_loop) fs" where
  "fetch_tag a fmask ftag cb tag l =
    bnd (gets l_cfg) (\<lambda>cfg.
    bnd (get_mdir a) (\<lambda>dir.
    let off4 = unat (fl_off l + 4);
        entry_size = lfs_tag_dsize tag - 4 in
    or_corrupt (lfs_bd_crc None RCache (cfg_block_size cfg) (fst (md_pair dir)) off4 (unat entry_size) (fl_crc l))
      (ret (Inr l)) (\<lambda>crc.
    let l = l\<lparr>fl_crc := crc\<rparr>;
        matching = (\<lambda>l.
          if fmask AND tag = fmask AND ftag then
            (case cb of
              None \<Rightarrow> panic
            | Some cb \<Rightarrow>
                or_corrupt (cb tag \<lparr>do_block = fst (md_pair dir), do_off = fl_off l + 4\<rparr>) (ret (Inr l)) (\<lambda>res.
                ret (Inl (fetch_note_match tag res l))))
          else ret (Inl l)) in
    if lfs_tag_type1 tag = LFS_TYPE_NAME then matching (fetch_note_name tag l)
    else if lfs_tag_type1 tag = LFS_TYPE_SPLICE then matching (fetch_note_splice tag l)
    else if lfs_tag_type1 tag = LFS_TYPE_TAIL then
      let l = l\<lparr>fl_tempsplit := (lfs_tag_chunk tag AND 1 \<noteq> 0)\<rparr> in
      or_corrupt (lfs_bd_read None RCache (unat (cfg_block_size cfg)) (fst (md_pair dir)) off4 (replicate 8 0))
        (ret (Inr l)) (\<lambda>bs. matching (l\<lparr>fl_temptail := pair_from_le bs\<rparr>))
    else if lfs_tag_type3 tag = LFS_TYPE_FCRC then
      or_corrupt (lfs_bd_read None RCache (unat (cfg_block_size cfg)) (fst (md_pair dir)) off4 (replicate 8 0))
        (ret (Inr l)) (\<lambda>bs. matching (l\<lparr>fl_fcrc := lfs_fcrc_fromle32 bs, fl_hasfcrc := True\<rparr>))
    else matching l)))"

definition fetch_body ::
  "nat \<Rightarrow> u32 \<Rightarrow> u32 \<Rightarrow> 'd matcher option \<Rightarrow> fetch_loop \<Rightarrow> ('d, fetch_loop + fetch_loop) fs" where
  "fetch_body a fmask ftag cb l =
    bnd (gets l_cfg) (\<lambda>cfg.
    bnd (get_mdir a) (\<lambda>dir.
    let l = l\<lparr>fl_off := fl_off l + lfs_tag_dsize (fl_ptag l)\<rparr> in
    or_corrupt (lfs_bd_read None RCache (unat (cfg_block_size cfg)) (fst (md_pair dir)) (unat (fl_off l)) (replicate 4 0))
      (ret (Inr l)) (\<lambda>tag_buf.
    let l = l\<lparr>fl_crc := lfs_crc (fl_crc l) tag_buf\<rparr>;
        tag = u32_from_be tag_buf XOR fl_ptag l in
    if \<not> lfs_tag_isvalid tag then
      ret (Inr (l\<lparr>fl_maybeerased := (lfs_tag_type2 (fl_ptag l) = LFS_TYPE_CCRC)\<rparr>))
    else if fl_off l + lfs_tag_dsize tag > cfg_block_size cfg then ret (Inr l)
    else
    let l = l\<lparr>fl_ptag := tag\<rparr> in
    if lfs_tag_type2 tag = LFS_TYPE_CCRC then fetch_commit_crc a tag l
    else fetch_tag a fmask ftag cb tag l)))"

definition fetch_start :: "u32 \<Rightarrow> u32 \<Rightarrow> fetch_loop" where
  "fetch_start besttag rv =
    \<lparr>fl_off = 0, fl_ptag = 0xffffffff, fl_tempcount = 0,
     fl_temptail = (LFS_BLOCK_NULL, LFS_BLOCK_NULL), fl_tempsplit = False,
     fl_tempbesttag = besttag, fl_maybeerased = False, fl_hasfcrc = False,
     fl_fcrc = \<lparr>fcrc_size = 0, fcrc_crc = 0\<rparr>,
     fl_crc = lfs_crc 0xffffffff (u32_to_le rv), fl_besttag = besttag\<rparr>"

subsection \<open>Choosing the block\<close>

definition pair_nth :: "pair \<Rightarrow> nat \<Rightarrow> u32" where
  "pair_nth p i = (if i = 0 then fst p else snd p)"

definition pair_upd :: "pair \<Rightarrow> nat \<Rightarrow> u32 \<Rightarrow> pair" where
  "pair_upd p i x = (if i = 0 then (x, snd p) else (fst p, x))"

definition fetch_revs :: "pair \<Rightarrow> nat \<Rightarrow> pair \<times> nat \<Rightarrow> ('d, pair \<times> nat) fs" where
  "fetch_revs pr i = (\<lambda>(revs, r).
    bnd (lfs_bd_read_buf None RCache 4 (pair_nth pr i) 0 (replicate 4 0)) (\<lambda>(err, rev_buf).
    let revs = pair_upd revs i (u32_from_le rev_buf) in
    case err of
      Inl e \<Rightarrow> if e \<noteq> Corrupt then throw e else ret (revs, r)
    | Inr _ \<Rightarrow>
        if lfs_scmp (pair_nth revs i) (pair_nth revs ((i + 1) mod 2)) > 0 then ret (revs, i)
        else ret (revs, r)))"

text \<open>What the matches found amount to, once the newest commit is known.\<close>

definition fetch_besttag :: "lfs_gstate \<Rightarrow> pair \<Rightarrow> u32 \<Rightarrow> u32" where
  "fetch_besttag gdisk pr besttag =
    (if lfs_gstate_hasmovehere gdisk pr then
       if lfs_tag_id (gs_tag gdisk) = lfs_tag_id besttag then besttag OR 0x80000000
       else if besttag \<noteq> - 1 \<and> lfs_tag_id (gs_tag gdisk) < lfs_tag_id besttag then besttag - lfs_mktag 0 1 0
       else besttag
     else besttag)"

text \<open>
  The result is the tag or the error the match ends with, and the id written to the
  caller's variable; \<open>None\<close> for a block without a valid commit.
\<close>

definition fetch_block ::
  "nat \<Rightarrow> u32 \<Rightarrow> u32 \<Rightarrow> 'd matcher option \<Rightarrow> u32 \<Rightarrow> ('d, ((error + u32) \<times> u16) option \<times> u32) fs" where
  "fetch_block a fmask ftag cb besttag =
    bnd (get_mdir a) (\<lambda>dir.
    bnd (mloop (fetch_body a fmask ftag cb) (fetch_start besttag (md_rev dir))) (\<lambda>l.
    let besttag = fl_besttag l in
    bnd (get_mdir a) (\<lambda>dir.
    if md_off dir = 0 then ret (None, besttag)
    else
    bnd (gets l_cfg) (\<lambda>cfg.
    bnd (upd_mdir a (\<lambda>d. d\<lparr>md_erased := False\<rparr>)) (\<lambda>_.
    bnd (if fl_maybeerased l \<and> unat (cfg_prog_size cfg) dvd unat (md_off dir) \<and> fl_hasfcrc l then
           bnd (lfs_bd_crc_buf None RCache (cfg_block_size cfg) (fst (md_pair dir)) (unat (md_off dir))
                 (unat (fcrc_size (fl_fcrc l))) 0xffffffff) (\<lambda>(err, fcrc).
           if (case err of Inl e \<Rightarrow> e \<noteq> Corrupt | Inr _ \<Rightarrow> False)
           then bnd (lift_res err) (\<lambda>_. ret ())
           else upd_mdir a (\<lambda>d. d\<lparr>md_erased := (fcrc = fcrc_crc (fl_fcrc l))\<rparr>))
         else ret ()) (\<lambda>_.
    bnd (gets l_gdisk) (\<lambda>gdisk.
    let besttag = fetch_besttag gdisk (md_pair dir) besttag;
        i = min (lfs_tag_id besttag) (md_count dir) in
    if lfs_tag_isvalid besttag then ret (Some (Inr besttag, i), besttag)
    else if lfs_tag_id besttag < md_count dir then ret (Some (Inl NoEntry, i), besttag)
    else ret (Some (Inr 0, i), besttag))))))))"

definition lfs_dir_fetchmatch ::
  "nat \<Rightarrow> pair \<Rightarrow> u32 \<Rightarrow> u32 \<Rightarrow> 'd matcher option \<Rightarrow> ('d, (error + u32) \<times> u16) fs" where
  "lfs_dir_fetchmatch a pr fmask ftag cb =
    bnd (gets l_block_count) (\<lambda>bc.
    if bc \<noteq> 0 \<and> (fst pr \<ge> bc \<or> snd pr \<ge> bc) then throw Corrupt
    else
    bnd (fetch_revs pr 0 ((0, 0), 0)) (\<lambda>acc.
    bnd (fetch_revs pr 1 acc) (\<lambda>(revs, r).
    bnd (upd_mdir a (\<lambda>d. d\<lparr>md_pair := (pair_nth pr (r mod 2), pair_nth pr ((r + 1) mod 2)),
           md_rev := pair_nth revs (r mod 2), md_off := 0\<rparr>)) (\<lambda>_.
    bnd (fetch_block a fmask ftag cb (- 1)) (\<lambda>(res, besttag).
    case res of
      Some x \<Rightarrow> ret x
    | None \<Rightarrow>
        bnd (upd_mdir a (\<lambda>d. d\<lparr>md_pair := lfs_pair_swap (md_pair d), md_rev := pair_nth revs ((r + 1) mod 2)\<rparr>)) (\<lambda>_.
        bnd (fetch_block a fmask ftag cb besttag) (\<lambda>(res, besttag).
        case res of
          Some x \<Rightarrow> ret x
        | None \<Rightarrow>
            bnd (upd_mdir a (\<lambda>d. d\<lparr>md_pair := lfs_pair_swap (md_pair d), md_rev := pair_nth revs ((r + 1) mod 2)\<rparr>)) (\<lambda>_.
            throw Corrupt))))))))"

definition lfs_dir_fetch :: "nat \<Rightarrow> pair \<Rightarrow> ('d, unit) fs" where
  "lfs_dir_fetch a pr =
    bnd (lfs_dir_fetchmatch a pr 0xffffffff 0xffffffff None) (\<lambda>(r, _).
    bnd (lift_res r) (\<lambda>_. ret ()))"

subsection \<open>Reading from a fetched pair\<close>

definition lfs_dir_getgstate :: "lfs_mdir \<Rightarrow> lfs_gstate \<Rightarrow> ('d, lfs_gstate) fs" where
  "lfs_dir_getgstate dir gstate =
    bnd (attempt (lfs_dir_get dir (lfs_mktag 0x7ff 0 0) (lfs_mktag LFS_TYPE_MOVESTATE 0 12) (replicate 12 0))) (\<lambda>res.
    case res of
      Inl e \<Rightarrow> if e \<noteq> NoEntry then throw e else ret gstate
    | Inr (_, bs) \<Rightarrow> ret (lfs_gstate_xor gstate (lfs_gstate_fromle32 bs)))"

record lfs_info =
  info_type :: u8
  info_size :: u32
  info_name :: bytes

definition lfs_info_default :: lfs_info where
  "lfs_info_default = \<lparr>info_type = TYPE_NONE, info_size = 0, info_name = replicate 256 0\<rparr>"

definition lfs_dir_getinfo :: "lfs_mdir \<Rightarrow> u16 \<Rightarrow> lfs_info \<Rightarrow> ('d, lfs_info) fs" where
  "lfs_dir_getinfo dir i info =
    (if i = 0x3ff then
       ret (info\<lparr>info_type := TYPE_DIR, info_name := (info_name info)[0 := SLASH, 1 := 0]\<rparr>)
     else
     bnd (gets l_name_max) (\<lambda>name_max.
     bnd (lfs_dir_get dir (lfs_mktag 0x780 0x3ff 0) (lfs_mktag LFS_TYPE_NAME (ucast i) (unat name_max + 1)) (info_name info)) (\<lambda>(tag, name).
     let type = ucast (lfs_tag_type3 tag) in
     bnd (check (type = TYPE_NONE \<or> type = TYPE_REG \<or> type = TYPE_DIR)) (\<lambda>_.
     let info = info\<lparr>info_type := type, info_name := name\<rparr> in
     bnd (lfs_dir_get dir (lfs_mktag 0x700 0x3ff 0) (lfs_mktag LFS_TYPE_STRUCT (ucast i) 8) (replicate 8 0)) (\<lambda>(tag, bs).
     let ctz = lfs_ctz_fromle32 bs in
     if lfs_tag_type3 tag = LFS_TYPE_CTZSTRUCT then ret (info\<lparr>info_size := ctz_size ctz\<rparr>)
     else if lfs_tag_type3 tag = LFS_TYPE_INLINESTRUCT then ret (info\<lparr>info_size := lfs_tag_size tag\<rparr>)
     else ret info)))))"

end
