(* ===== verification/Find.thy ===== *)
theory Find
  imports Fetch
begin

text \<open>
  \<open>dir/find.rs\<close>: resolving a path.  The names are scanned left to right; a name that a later
  \<open>..\<close> cancels is skipped before anything is looked up.  The result carries, besides the tag
  or the error, the rest of the path that was being looked up and the id where the name was
  found or would be inserted.
\<close>

definition nat_cmp :: "nat \<Rightarrow> nat \<Rightarrow> ordering" where
  "nat_cmp a b = (if a < b then Less else if b < a then Greater else Equal)"

definition lfs_dir_find_match :: "bytes \<Rightarrow> 'd matcher" where
  "lfs_dir_find_match name tag disk =
    (let diff = min (length name) (unat (lfs_tag_size tag)) in
     bnd (lfs_bd_cmp None RCache diff (do_block disk) (unat (do_off disk)) (take diff name)) (\<lambda>res.
     if res \<noteq> Equal then ret res
     else ret (nat_cmp (unat (word_of_nat (length name) :: u32)) (unat (lfs_tag_size tag)))))"

text \<open>
  The look-ahead: \<open>Some rest\<close> when the name at the front is cancelled by a \<open>..\<close> in the suffix,
  with \<open>rest\<close> what follows it.
\<close>

definition find_suffix_body :: "bytes \<times> int \<Rightarrow> ('s, (bytes \<times> int) + bytes option) m" where
  "find_suffix_body = (\<lambda>(suffix, depth).
    let suffix = drop (lfs_strspn suffix SLASH) suffix;
        sufflen = lfs_strcspn suffix SLASH in
    if sufflen = 0 then ret (Inr None)
    else if sufflen = 1 \<and> suffix ! 0 = DOT then ret (Inl (drop sufflen suffix, depth))
    else if sufflen = 2 \<and> suffix ! 0 = DOT \<and> suffix ! 1 = DOT then
      if depth - 1 = 0 then ret (Inr (Some (drop sufflen suffix)))
      else ret (Inl (drop sufflen suffix, depth - 1))
    else ret (Inl (drop sufflen suffix, depth + 1)))"

definition find_suffix :: "bytes \<Rightarrow> ('s, bytes option) m" where
  "find_suffix suffix = mloop find_suffix_body (suffix, 1)"

text \<open>Looking one name up in the pairs of a directory, starting at \<open>dir.tail\<close>.\<close>

definition find_entry :: "nat \<Rightarrow> bytes \<Rightarrow> u16 \<Rightarrow> ('d, (error + u32) \<times> u16) fs" where
  "find_entry a name i = mloop (\<lambda>i.
    bnd (get_mdir a) (\<lambda>dir.
    bnd (attempt (lfs_dir_fetchmatch a (md_tail dir) (lfs_mktag 0x780 0 0) (lfs_mktag LFS_TYPE_NAME 0 (length name))
           (Some (lfs_dir_find_match name)))) (\<lambda>res.
    case res of
      Inl e \<Rightarrow> ret (Inr (Inl e, i))
    | Inr (Inl e, i) \<Rightarrow> ret (Inr (Inl e, i))
    | Inr (Inr tag, i) \<Rightarrow>
        if tag \<noteq> 0 then ret (Inr (Inr tag, i))
        else
          bnd (get_mdir a) (\<lambda>dir.
          if \<not> md_split dir then ret (Inr (Inl NoEntry, i))
          else ret (Inl i))))) i"

definition find_body ::
  "nat \<Rightarrow> u32 \<times> bytes \<times> bytes \<times> u16 \<Rightarrow>
    ('d, (u32 \<times> bytes \<times> bytes \<times> u16) + ((error + u32) \<times> bytes \<times> u16)) fs" where
  "find_body a = (\<lambda>(tag, name, path, i).
    let name = (if lfs_tag_type3 tag = LFS_TYPE3_DIR then drop (lfs_strspn name SLASH) name else name);
        namelen = lfs_strcspn name SLASH in
    if namelen = 1 \<and> name ! 0 = DOT then ret (Inl (tag, drop 1 name, path, i))
    else if namelen = 2 \<and> name ! 0 = DOT \<and> name ! 1 = DOT then ret (Inr (Inl Invalid, path, i))
    else
    bnd (find_suffix (drop namelen name)) (\<lambda>sfx.
    case sfx of
      Some rest \<Rightarrow> ret (Inl (tag, rest, path, i))
    | None \<Rightarrow>
      if name = [] then ret (Inr (Inr tag, path, i))
      else
      let path = name in
      if lfs_tag_type3 tag \<noteq> LFS_TYPE3_DIR then ret (Inr (Inl NotDir, path, i))
      else
      bnd (if lfs_tag_id tag \<noteq> 0x3ff then
             bnd (get_mdir a) (\<lambda>dir.
             bnd (lfs_dir_get_buf dir (lfs_mktag LFS_TYPE_GLOBALS 0x3ff 0)
                   (lfs_mktag LFS_TYPE_STRUCT (ucast (lfs_tag_id tag)) 8) (pair_to_le (md_tail dir))) (\<lambda>(r, bs).
             bnd (upd_mdir a (\<lambda>d. d\<lparr>md_tail := pair_from_le bs\<rparr>)) (\<lambda>_.
             ret (case r of Inl e \<Rightarrow> Inl e | Inr _ \<Rightarrow> Inr ()))))
           else ret (Inr ())) (\<lambda>r.
      case r of
        Inl e \<Rightarrow> ret (Inr (Inl e, path, i))
      | Inr _ \<Rightarrow>
        bnd (find_entry a (take namelen name) i) (\<lambda>(res, i).
        case res of
          Inl e \<Rightarrow> ret (Inr (Inl e, path, i))
        | Inr tag \<Rightarrow> ret (Inl (tag, drop namelen name, path, i))))))"

definition lfs_dir_find :: "nat \<Rightarrow> bytes \<Rightarrow> u16 \<Rightarrow> ('d, (error + u32) \<times> bytes \<times> u16) fs" where
  "lfs_dir_find a path i =
    (if path = [] then ret (Inl Invalid, path, i)
     else
     bnd (gets l_root) (\<lambda>root.
     bnd (upd_mdir a (\<lambda>d. d\<lparr>md_tail := root\<rparr>)) (\<lambda>_.
     if path ! 0 = 0 then ret (Inl Invalid, path, i)
     else mloop (find_body a) (lfs_mktag LFS_TYPE3_DIR 0x3ff 0, path, path, i))))"

end
