(* ===== verification/FsTraverse.thy ===== *)
theory FsTraverse
  imports Find
begin

text \<open>
  \<open>fs/traverse.rs\<close>, \<open>fs/stat.rs\<close> and the cycle detector of \<open>fs/mount.rs\<close>: visiting every
  block in use, over the threaded list of metadata pairs and then the blocks that only open
  files know of.  The callback threads an accumulator.
\<close>

subsection \<open>Cycle detection\<close>

record lfs_tortoise =
  tt_pair :: pair
  tt_i :: u32
  tt_period :: u32

definition tortoise_start :: lfs_tortoise where
  "tortoise_start = \<lparr>tt_pair = (LFS_BLOCK_NULL, LFS_BLOCK_NULL), tt_i = 1, tt_period = 1\<rparr>"

definition lfs_tortoise_detectcycles :: "pair \<Rightarrow> lfs_tortoise \<Rightarrow> error + lfs_tortoise" where
  "lfs_tortoise_detectcycles tail t =
    (if lfs_pair_issync tail (tt_pair t) then Inl Corrupt
     else
       let t = (if tt_i t = tt_period t
                then t\<lparr>tt_pair := tail, tt_i := 0, tt_period := tt_period t * 2\<rparr> else t)
       in Inr (t\<lparr>tt_i := tt_i t + 1\<rparr>))"

subsection \<open>The traversal\<close>

definition fs_traverse_entry ::
  "nat \<Rightarrow> bool \<Rightarrow> (u32 \<Rightarrow> 'c \<Rightarrow> ('d, 'c) fs) \<Rightarrow> nat \<Rightarrow> 'c \<Rightarrow> ('d, 'c) fs" where
  "fs_traverse_entry a includeorphans cb i c =
    bnd (get_mdir a) (\<lambda>dir.
    bnd (attempt (lfs_dir_get dir (lfs_mktag 0x700 0x3ff 0) (lfs_mktag LFS_TYPE_STRUCT (word_of_nat i) 8) (replicate 8 0))) (\<lambda>r.
    case r of
      Inl e \<Rightarrow> if e = NoEntry then ret c else throw e
    | Inr (tag, bs) \<Rightarrow>
        let raw = pair_from_le bs in
        if lfs_tag_type3 tag = LFS_TYPE_CTZSTRUCT then
          lfs_ctz_traverse None RCache (fst raw) (snd raw) cb c
        else if includeorphans \<and> lfs_tag_type3 tag = LFS_TYPE_DIRSTRUCT then
          bnd (cb (fst raw) c) (cb (snd raw))
        else ret c))"

definition fs_traverse_pairs ::
  "nat \<Rightarrow> bool \<Rightarrow> (u32 \<Rightarrow> 'c \<Rightarrow> ('d, 'c) fs) \<Rightarrow> 'c \<Rightarrow> ('d, 'c) fs" where
  "fs_traverse_pairs a includeorphans cb c = mloop (\<lambda>(tortoise, c).
    bnd (get_mdir a) (\<lambda>dir.
    if lfs_pair_isnull (md_tail dir) then ret (Inr c)
    else
    case lfs_tortoise_detectcycles (md_tail dir) tortoise of
      Inl _ \<Rightarrow> throw Corrupt
    | Inr tortoise \<Rightarrow>
        bnd (cb (fst (md_tail dir)) c) (\<lambda>c.
        bnd (cb (snd (md_tail dir)) c) (\<lambda>c.
        bnd (lfs_dir_fetch a (md_tail dir)) (\<lambda>_.
        bnd (get_mdir a) (\<lambda>dir.
        bnd (mfold (fs_traverse_entry a includeorphans cb) [0..<unat (md_count dir)] c) (\<lambda>c.
        ret (Inl (tortoise, c))))))))) (tortoise_start, c)"

definition fs_traverse_open ::
  "(u32 \<Rightarrow> 'c \<Rightarrow> ('d, 'c) fs) \<Rightarrow> nat option \<times> 'c \<Rightarrow> ('d, (nat option \<times> 'c) + 'c) fs" where
  "fs_traverse_open cb = (\<lambda>(m, c). case m of
      None \<Rightarrow> ret (Inr c)
    | Some f \<Rightarrow>
        bnd (get_node f) (\<lambda>n.
        bnd (if nd_type n = TYPE_REG \<and> flag_has (nd_flags n) F_DIRTY \<and> \<not> flag_has (nd_flags n) F_INLINE
             then lfs_ctz_traverse (Some (FCache f)) RCache (ctz_head (nd_ctz n)) (ctz_size (nd_ctz n)) cb c
             else ret c) (\<lambda>c.
        bnd (if nd_type n = TYPE_REG \<and> flag_has (nd_flags n) F_WRITING \<and> \<not> flag_has (nd_flags n) F_INLINE
             then lfs_ctz_traverse (Some (FCache f)) RCache (nd_block n) (nd_pos n) cb c
             else ret c) (\<lambda>c.
        ret (Inl (nd_next n, c))))))"

definition lfs_fs_traverse_raw :: "(u32 \<Rightarrow> 'c \<Rightarrow> ('d, 'c) fs) \<Rightarrow> 'c \<Rightarrow> bool \<Rightarrow> ('d, 'c) fs" where
  "lfs_fs_traverse_raw cb c includeorphans =
    bnd (with_mdir (mdir_zero\<lparr>md_tail := (0, 1)\<rparr>) (\<lambda>a. fs_traverse_pairs a includeorphans cb c)) (\<lambda>c.
    bnd (gets l_mlist) (\<lambda>m.
    mloop (fs_traverse_open cb) (m, c)))"

subsection \<open>Status\<close>

definition lfs_stat_raw :: "bytes \<Rightarrow> lfs_info \<Rightarrow> ('d, lfs_info) fs" where
  "lfs_stat_raw path info = with_mdir mdir_zero (\<lambda>cwd.
    bnd (lfs_dir_find cwd path 0) (\<lambda>(res, path_ptr, _).
    bnd (lift_res res) (\<lambda>tag.
    if SLASH \<in> set path_ptr \<and> lfs_tag_type3 tag \<noteq> LFS_TYPE3_DIR then throw NotDir
    else bnd (get_mdir cwd) (\<lambda>dir. lfs_dir_getinfo dir (lfs_tag_id tag) info))))"

record lfs_fsinfo =
  fi_disk_version :: u32
  fi_block_size :: u32
  fi_block_count :: u32
  fi_name_max :: u32
  fi_file_max :: u32
  fi_attr_max :: u32

definition lfs_superblock_fromle32 :: "bytes \<Rightarrow> lfs_superblock" where
  "lfs_superblock_fromle32 bs =
    \<lparr>sb_version = u32_from_le (take 4 bs), sb_block_size = u32_from_le (take 4 (drop 4 bs)),
     sb_block_count = u32_from_le (take 4 (drop 8 bs)), sb_name_max = u32_from_le (take 4 (drop 12 bs)),
     sb_file_max = u32_from_le (take 4 (drop 16 bs)), sb_attr_max = u32_from_le (take 4 (drop 20 bs))\<rparr>"

definition lfs_superblock_tole32 :: "lfs_superblock \<Rightarrow> bytes" where
  "lfs_superblock_tole32 sb = u32_to_le (sb_version sb) @ u32_to_le (sb_block_size sb)
     @ u32_to_le (sb_block_count sb) @ u32_to_le (sb_name_max sb) @ u32_to_le (sb_file_max sb)
     @ u32_to_le (sb_attr_max sb)"

lemma lfs_superblock_from_to_le [byte_simps]: "lfs_superblock_fromle32 (lfs_superblock_tole32 sb) = sb"
  by (simp add: lfs_superblock_fromle32_def lfs_superblock_tole32_def byte_simps)

definition superblock_get :: "lfs_mdir \<Rightarrow> ('d, lfs_superblock) fs" where
  "superblock_get dir =
    bnd (lfs_dir_get dir (lfs_mktag 0x7ff 0x3ff 0) (lfs_mktag LFS_TYPE_INLINESTRUCT 0 24) (replicate 24 0)) (\<lambda>(_, bs).
    ret (lfs_superblock_fromle32 bs))"

definition lfs_fs_stat_raw :: "('d, lfs_fsinfo) fs" where
  "lfs_fs_stat_raw =
    bnd (gets l_gstate) (\<lambda>g.
    bnd (if \<not> lfs_gstate_needssuperblock g then ret LFS_DISK_VERSION
         else with_mdir mdir_zero (\<lambda>a.
           bnd (gets l_root) (\<lambda>root.
           bnd (lfs_dir_fetch a root) (\<lambda>_.
           bnd (get_mdir a) (\<lambda>dir.
           bnd (superblock_get dir) (\<lambda>sb. ret (sb_version sb))))))) (\<lambda>version.
    gets (\<lambda>s. \<lparr>fi_disk_version = version, fi_block_size = cfg_block_size (l_cfg s),
      fi_block_count = l_block_count s, fi_name_max = l_name_max s, fi_file_max = l_file_max s,
      fi_attr_max = l_attr_max s\<rparr>)))"

definition lfs_fs_size_raw :: "('d, u32) fs" where
  "lfs_fs_size_raw = lfs_fs_traverse_raw (\<lambda>_ n. ret (n + 1)) 0 False"

end
