(* ===== verification/Alloc.thy ===== *)
theory Alloc
  imports FsTraverse
begin

text \<open>
  \<open>block_alloc/alloc.rs\<close>: the block allocator.  A window of the disk is a bit map filled by a
  traversal of everything in use; a block is handed out when its bit is clear, and after a
  full turn since the last checkpoint the allocator gives up.
\<close>

definition lfs_alloc_ckpoint :: "('d, unit) fs" where
  "lfs_alloc_ckpoint =
    modify (\<lambda>s. s\<lparr>l_lookahead := (l_lookahead s)\<lparr>la_ckpoint := l_block_count s\<rparr>\<rparr>)"

definition lfs_alloc_drop :: "('d, unit) fs" where
  "lfs_alloc_drop =
    bnd (modify (\<lambda>s. s\<lparr>l_lookahead := (l_lookahead s)\<lparr>la_size := 0, la_next := 0\<rparr>\<rparr>)) (\<lambda>_.
    lfs_alloc_ckpoint)"

definition lfs_alloc_lookahead :: "u32 \<Rightarrow> ('d, unit) fs" where
  "lfs_alloc_lookahead block =
    bnd (gets l_block_count) (\<lambda>bc.
    bnd (gets l_lookahead) (\<lambda>la.
    bnd (check (bc \<noteq> 0)) (\<lambda>_.
    let off = ((block - la_start la) + bc) mod bc in
    if off < la_size la then
      bnd (get_buf (la_buffer la)) (\<lambda>buf.
      let byte_idx = unat (off div 8);
          bit = push_bit (unat (off mod 8)) 1 in
      bnd (check (byte_idx < length buf)) (\<lambda>_.
      put_buf (la_buffer la) (buf[byte_idx := buf ! byte_idx OR bit])))
    else ret ())))"

definition lfs_alloc_scan :: "('d, unit) fs" where
  "lfs_alloc_scan =
    bnd (gets l_cfg) (\<lambda>cfg.
    bnd (gets l_block_count) (\<lambda>bc.
    bnd (gets l_lookahead) (\<lambda>la.
    bnd (check (bc \<noteq> 0)) (\<lambda>_.
    bnd (get_buf (cfg_lookahead_buffer cfg)) (\<lambda>lb.
    bnd (modify (\<lambda>s. s\<lparr>l_lookahead := la\<lparr>la_start := (la_start la + la_next la) mod bc, la_next := 0,
           la_size := min (8 * word_of_nat (length lb)) (la_ckpoint la)\<rparr>\<rparr>)) (\<lambda>_.
    bnd (get_buf (la_buffer la)) (\<lambda>b.
    bnd (put_buf (la_buffer la) (replicate (length b) 0)) (\<lambda>_.
    bnd (attempt (lfs_fs_traverse_raw (\<lambda>block _. lfs_alloc_lookahead block) () True)) (\<lambda>err.
    case err of
      Inl e \<Rightarrow> bnd lfs_alloc_drop (\<lambda>_. throw e)
    | Inr _ \<Rightarrow> ret ())))))))))"

text \<open>The bit of position \<open>i\<close> in the map; the index is checked.\<close>

definition la_isfree :: "bytes \<Rightarrow> u32 \<Rightarrow> bool" where
  "la_isfree buf i \<longleftrightarrow> buf ! unat (i div 8) AND push_bit (unat (i mod 8)) 1 = 0"

definition la_probe :: "('d, bool) fs" where
  "la_probe =
    bnd (gets l_lookahead) (\<lambda>la.
    bnd (get_buf (la_buffer la)) (\<lambda>buf.
    bnd (check (unat (la_next la div 8) < length buf)) (\<lambda>_.
    ret (la_isfree buf (la_next la)))))"

definition la_advance :: "('d, unit) fs" where
  "la_advance = modify (\<lambda>s. s\<lparr>l_lookahead :=
    (l_lookahead s)\<lparr>la_next := la_next (l_lookahead s) + 1, la_ckpoint := la_ckpoint (l_lookahead s) - 1\<rparr>\<rparr>)"

text \<open>Eagerly moving on to the next free block, after one has been found.\<close>

definition alloc_skip :: "('d, unit) fs" where
  "alloc_skip = mloop (\<lambda>_.
    bnd la_advance (\<lambda>_.
    bnd (gets l_lookahead) (\<lambda>la.
    if la_next la \<ge> la_size la then ret (Inr ())
    else bnd la_probe (\<lambda>free. if free then ret (Inr ()) else ret (Inl ()))))) ()"

definition alloc_window :: "('d, u32 option) fs" where
  "alloc_window = mloop (\<lambda>_.
    bnd (gets l_lookahead) (\<lambda>la.
    if la_next la < la_size la then
      bnd la_probe (\<lambda>free.
      if free then
        bnd (gets l_block_count) (\<lambda>bc.
        bnd (check (bc \<noteq> 0)) (\<lambda>_.
        bnd alloc_skip (\<lambda>_.
        ret (Inr (Some ((la_start la + la_next la) mod bc))))))
      else bnd la_advance (\<lambda>_. ret (Inl ())))
    else ret (Inr None))) ()"

definition lfs_alloc :: "('d, u32) fs" where
  "lfs_alloc = mloop (\<lambda>_.
    bnd alloc_window (\<lambda>r. case r of
      Some block \<Rightarrow> ret (Inr block)
    | None \<Rightarrow>
        bnd (gets l_lookahead) (\<lambda>la.
        if la_ckpoint la = 0 then throw NoSpace
        else bnd lfs_alloc_scan (\<lambda>_. ret (Inl ()))))) ()"

end
