(* ===== verification/CtzExtend.thy ===== *)
theory CtzExtend
  imports Alloc
begin

text \<open>
  \<open>file/ctz.rs\<close>, writing side: \<open>lfs_ctz_extend\<close> allocates the next block of a file, copies
  an incomplete last block or writes the skip pointers, and starts again with another block
  when the medium reports the new one bad.
\<close>

text \<open>A bad block is marked in use and the program cache dropped before the next try.\<close>

definition ctz_bad_block :: "cache_ref \<Rightarrow> u32 \<Rightarrow> ('d, unit) fs" where
  "ctz_bad_block pcache nblock =
    bnd (attempt (lfs_alloc_lookahead nblock)) (\<lambda>_. lfs_cache_drop pcache)"

text \<open>\<open>Inl\<close> is \<open>continue 'relocate\<close>.\<close>

definition or_relocate :: "cache_ref \<Rightarrow> u32 \<Rightarrow> ('d, 'a) fs \<Rightarrow> ('d, unit + 'b) fs \<Rightarrow> ('d, unit + 'b) fs" where
  "or_relocate pcache nblock c k =
    bnd (attempt c) (\<lambda>r. case r of
      Inl e \<Rightarrow> if e = Corrupt then bnd (ctz_bad_block pcache nblock) (\<lambda>_. ret (Inl ())) else throw e
    | Inr _ \<Rightarrow> k)"

definition ctz_copy_body ::
  "cache_ref \<Rightarrow> cache_ref \<Rightarrow> u32 \<Rightarrow> u32 \<Rightarrow> nat \<Rightarrow> nat \<Rightarrow> ('d, nat + (unit + unit)) fs" where
  "ctz_copy_body pcache rcache head nblock noff i =
    (if i < noff then
       bnd (lfs_bd_read None rcache (noff - i) head i (replicate 1 0)) (\<lambda>data.
       bnd (or_relocate pcache nblock (lfs_bd_prog pcache rcache True nblock i data) (ret (Inr ()))) (\<lambda>r.
       case r of Inl _ \<Rightarrow> ret (Inr (Inl ())) | Inr _ \<Rightarrow> ret (Inl (Suc i))))
     else ret (Inr (Inr ())))"

definition ctz_link_body ::
  "cache_ref \<Rightarrow> cache_ref \<Rightarrow> u32 \<Rightarrow> u32 \<Rightarrow> u32 \<times> u32 \<Rightarrow> ('d, (u32 \<times> u32) + (unit + unit)) fs" where
  "ctz_link_body pcache rcache nblock skips = (\<lambda>(i, nhead).
    if i < skips then
      bnd (or_relocate pcache nblock (lfs_bd_prog pcache rcache True nblock (unat (4 * i)) (u32_to_le nhead)) (ret (Inr ()))) (\<lambda>r.
      case r of
        Inl _ \<Rightarrow> ret (Inr (Inl ()))
      | Inr _ \<Rightarrow>
        if i \<noteq> skips - 1 then
          bnd (lfs_bd_read None rcache 4 nhead (unat (4 * i)) (replicate 4 0)) (\<lambda>bs.
          ret (Inl (i + 1, u32_from_le bs)))
        else ret (Inl (i + 1, nhead)))
    else ret (Inr (Inr ())))"

definition lfs_ctz_extend_body ::
  "cache_ref \<Rightarrow> cache_ref \<Rightarrow> u32 \<Rightarrow> u32 \<Rightarrow> unit \<Rightarrow> ('d, unit + (u32 \<times> u32)) fs" where
  "lfs_ctz_extend_body pcache rcache head sz = (\<lambda>_.
    bnd (gets (\<lambda>s. cfg_block_size (l_cfg s))) (\<lambda>block_size.
    bnd lfs_alloc (\<lambda>nblock.
    or_relocate pcache nblock (lfs_bd_erase nblock)
     (if sz = 0 then ret (Inr (nblock, 0))
      else
      bnd (lfs_ctz_index (sz - 1)) (\<lambda>(index, noff).
      let noff = noff + 1 in
      if noff \<noteq> block_size then
        bnd (mloop (ctz_copy_body pcache rcache head nblock (unat noff)) 0) (\<lambda>r.
        case r of Inl _ \<Rightarrow> ret (Inl ()) | Inr _ \<Rightarrow> ret (Inr (nblock, noff)))
      else
        let index = index + 1;
            skips = lfs_ctz index + 1 in
        bnd (mloop (ctz_link_body pcache rcache nblock skips) (0, head)) (\<lambda>r.
        case r of Inl _ \<Rightarrow> ret (Inl ()) | Inr _ \<Rightarrow> ret (Inr (nblock, 4 * skips))))))))"

definition lfs_ctz_extend :: "cache_ref \<Rightarrow> cache_ref \<Rightarrow> u32 \<Rightarrow> u32 \<Rightarrow> ('d, u32 \<times> u32) fs" where
  "lfs_ctz_extend pcache rcache head sz = mloop (lfs_ctz_extend_body pcache rcache head sz) ()"

end
