(* ===== verification/Commit1.thy ===== *)
theory Commit1
  imports CtzExtend
begin

text \<open>
  \<open>dir/commit.rs\<close>, first part: appending to the log of a metadata pair.  A commit is a
  value: block, offset, previous tag and running checksum.  \<open>lfs_dir_commitcrc\<close> closes it
  with checksum entries up to the next program-size boundary and reads it back.
\<close>

definition lfs_dir_commitprog :: "lfs_commit \<Rightarrow> bytes \<Rightarrow> ('d, lfs_commit) fs" where
  "lfs_dir_commitprog commit buffer =
    bnd (lfs_bd_prog PCache RCache False (cm_block commit) (unat (cm_off commit)) buffer) (\<lambda>_.
    ret (commit\<lparr>cm_crc := lfs_crc (cm_crc commit) buffer,
                cm_off := cm_off commit + word_of_nat (length buffer)\<rparr>))"

text \<open>The bytes of an attribute's buffer; no tag that is written has one of the other views.\<close>

definition attr_bytes :: "attr_buf \<Rightarrow> bytes option" where
  "attr_bytes b = (case b of
      Bytes bs \<Rightarrow> Some bs
    | DiskBuf d \<Rightarrow> Some (u32_to_le (do_block d) @ u32_to_le (do_off d))
    | MdirBuf _ \<Rightarrow> None
    | AttrsBuf _ \<Rightarrow> None)"

definition attr_disk :: "attr_buf \<Rightarrow> lfs_diskoff option" where
  "attr_disk b = (case b of
      DiskBuf d \<Rightarrow> Some d
    | Bytes bs \<Rightarrow> if length bs = 8
        then Some \<lparr>do_block = u32_from_le (take 4 bs), do_off = u32_from_le (drop 4 bs)\<rparr> else None
    | MdirBuf _ \<Rightarrow> None
    | AttrsBuf _ \<Rightarrow> None)"

definition commit_copy_body ::
  "lfs_diskoff \<Rightarrow> u32 \<Rightarrow> u32 \<times> lfs_commit \<Rightarrow> ('d, (u32 \<times> lfs_commit) + lfs_commit) fs" where
  "commit_copy_body disk data_size = (\<lambda>(i, commit).
    if i < data_size then
      bnd (lfs_bd_read None RCache (unat (data_size - i)) (do_block disk) (unat (do_off disk + i)) (replicate 1 0)) (\<lambda>dat.
      bnd (lfs_dir_commitprog commit dat) (\<lambda>commit.
      ret (Inl (i + 1, commit))))
    else ret (Inr commit))"

definition lfs_dir_commitattr :: "lfs_commit \<Rightarrow> u32 \<Rightarrow> attr_buf \<Rightarrow> ('d, lfs_commit) fs" where
  "lfs_dir_commitattr commit tag buffer =
    (let dsize = lfs_tag_dsize tag in
     if cm_off commit + dsize > cm_end commit then throw NoSpace
     else
       bnd (lfs_dir_commitprog commit (u32_to_be ((tag AND 0x7fffffff) XOR cm_ptag commit))) (\<lambda>commit.
       bnd (if lfs_tag_isvalid tag then
              (case attr_bytes buffer of
                 None \<Rightarrow> panic
               | Some bs \<Rightarrow>
                   bnd (check (unat (dsize - 4) \<le> length bs)) (\<lambda>_.
                   lfs_dir_commitprog commit (take (unat (dsize - 4)) bs)))
            else
              (case attr_disk buffer of
                 None \<Rightarrow> panic
               | Some disk \<Rightarrow> mloop (commit_copy_body disk (dsize - 4)) (0, commit))) (\<lambda>commit.
       ret (commit\<lparr>cm_ptag := tag AND 0x7fffffff\<rparr>))))"

subsection \<open>Closing a commit\<close>

text \<open>The entry that predicts what erased flash after the commit looks like.\<close>

definition commit_fcrc :: "nat \<Rightarrow> lfs_commit \<Rightarrow> ('d, u8 \<times> lfs_commit) fs" where
  "commit_fcrc noff commit =
    bnd (gets l_cfg) (\<lambda>cfg.
    let prog_size = unat (cfg_prog_size cfg) in
    bnd (lfs_bd_read_buf None RCache prog_size (cm_block commit) noff [0xff]) (\<lambda>(err, eperturb).
    bnd (case err of Inl e \<Rightarrow> if e \<noteq> Corrupt then throw e else ret () | Inr _ \<Rightarrow> ret ()) (\<lambda>_.
    bnd (lfs_bd_crc_buf None RCache (cfg_prog_size cfg) (cm_block commit) noff prog_size 0xffffffff) (\<lambda>(err, crc).
    bnd (case err of Inl e \<Rightarrow> if e \<noteq> Corrupt then throw e else ret () | Inr _ \<Rightarrow> ret ()) (\<lambda>_.
    bnd (lfs_dir_commitattr commit (lfs_mktag LFS_TYPE_FCRC 0x3ff 8)
          (Bytes (lfs_fcrc_tole32 \<lparr>fcrc_size = cfg_prog_size cfg, fcrc_crc = crc\<rparr>))) (\<lambda>commit.
    ret (eperturb ! 0, commit)))))))"

definition commitcrc_body ::
  "nat \<Rightarrow> lfs_commit \<times> u32 \<times> u32 \<Rightarrow> ('d, (lfs_commit \<times> u32 \<times> u32) + (lfs_commit \<times> u32 \<times> u32)) fs" where
  "commitcrc_body fin = (\<lambda>(commit, off1, crc1).
    if unat (cm_off commit) < fin then
      bnd (gets l_cfg) (\<lambda>cfg.
      let block_size = unat (cfg_block_size cfg);
          prog_size = unat (cfg_prog_size cfg);
          noff = min (usize_sub fin (unat (cm_off commit) + 4)) 0x3fe + (unat (cm_off commit) + 4);
          noff = (if noff < fin then min noff (usize_sub fin 20) else noff) in
      bnd (if noff \<ge> fin \<and> noff \<le> usize_sub block_size prog_size then commit_fcrc noff commit
           else ret (0xff, commit)) (\<lambda>(eperturb, commit).
      let ntag = lfs_mktag (LFS_TYPE_CCRC + drop_bit 7 (ucast (NOT eperturb))) 0x3ff
                   (usize_sub noff (unat (cm_off commit) + 4));
          ccrc0 = u32_to_be (ntag XOR cm_ptag commit);
          crc = lfs_crc (cm_crc commit) ccrc0 in
      bnd (lfs_bd_prog PCache RCache False (cm_block commit) (unat (cm_off commit)) (ccrc0 @ u32_to_le crc)) (\<lambda>_.
      let (off1, crc1) = (if off1 = 0 then (cm_off commit + 4, crc) else (off1, crc1));
          commit = commit\<lparr>cm_off := word_of_nat noff,
                          cm_ptag := ntag XOR push_bit 24 (ucast (0x80 AND NOT eperturb)),
                          cm_crc := 0xffffffff\<rparr> in
      bnd (gets l_pcache) (\<lambda>pc.
      bnd (get_buf (cache_buffer pc)) (\<lambda>b.
      bnd (if noff \<ge> fin \<or> noff \<ge> cache_off pc + length b then lfs_bd_sync PCache RCache False
           else ret ()) (\<lambda>_.
      ret (Inl (commit, off1, crc1))))))))
    else ret (Inr (commit, off1, crc1)))"

definition lfs_dir_commitcrc :: "lfs_commit \<Rightarrow> ('d, lfs_commit) fs" where
  "lfs_dir_commitcrc commit =
    bnd (gets l_cfg) (\<lambda>cfg.
    bnd (alignup_m (min (cm_off commit + 20) (cfg_block_size cfg)) (cfg_prog_size cfg)) (\<lambda>fin.
    bnd (mloop (commitcrc_body (unat fin)) (commit, 0, 0)) (\<lambda>(commit, off1, crc1).
    bnd (lfs_bd_crc None RCache (off1 + 4) (cm_block commit) (unat (cm_begin commit))
          (unat (off1 - cm_begin commit)) 0xffffffff) (\<lambda>crc.
    if crc \<noteq> crc1 then throw Corrupt
    else
    bnd (lfs_bd_crc None RCache 4 (cm_block commit) (unat off1) 4 crc) (\<lambda>crc.
    if crc \<noteq> 0 then throw Corrupt
    else ret commit)))))"

subsection \<open>Callbacks of the traversal\<close>

definition lfs_dir_commit_size :: "u32 \<Rightarrow> attr_buf \<Rightarrow> u32 \<Rightarrow> ('d, int \<times> u32) fs" where
  "lfs_dir_commit_size tag _ sz = ret (0, sz + lfs_tag_dsize tag)"

definition lfs_dir_commit_commit :: "u32 \<Rightarrow> attr_buf \<Rightarrow> lfs_commit \<Rightarrow> ('d, int \<times> lfs_commit) fs" where
  "lfs_dir_commit_commit tag buffer commit =
    bnd (lfs_dir_commitattr commit tag buffer) (\<lambda>commit. ret (0, commit))"

definition lfs_dir_needsrelocation :: "lfs_mdir \<Rightarrow> ('d, bool) fs" where
  "lfs_dir_needsrelocation dir =
    bnd (gets l_cfg) (\<lambda>cfg.
    ret (sint (cfg_block_cycles cfg) > 0 \<and>
         unat ((cfg_block_cycles cfg + 1) OR 1) dvd unat (md_rev dir + 1)))"

end
