(* ===== verification/Traverse.thy ===== *)
theory Traverse
  imports Commit1
begin

text \<open>
  \<open>dir/traverse.rs\<close>, second part: the traversal of a log together with the attributes about
  to be written to it.  The source turned the recursion of the C code into an explicit stack
  of two frames and three phases; so does this theory.  While a frame is on the stack its
  tag is held back, and the traversal looks ahead with \<open>lfs_dir_traverse_filter\<close> for an
  entry that makes it redundant.
\<close>

subsection \<open>The filter\<close>

text \<open>The tag pointed to by the first argument, and its new value.\<close>

definition lfs_dir_traverse_filter :: "u32 \<Rightarrow> u32 \<Rightarrow> int \<times> u32" where
  "lfs_dir_traverse_filter ft tag =
    (let mask = (if tag AND lfs_mktag 0x100 0 0 \<noteq> 0 then lfs_mktag 0x7ff 0x3ff 0
                 else lfs_mktag 0x700 0x3ff 0) in
     if mask AND tag = mask AND ft
        \<or> lfs_tag_isdelete ft
        \<or> lfs_mktag 0x7ff 0x3ff 0 AND tag = (lfs_mktag LFS_TYPE_DELETE 0 0 OR (lfs_mktag 0 0x3ff 0 AND ft))
     then (1, lfs_mktag LFS_FROM_NOOP 0 0)
     else if lfs_tag_type1 tag = LFS_TYPE_SPLICE \<and> lfs_tag_id tag \<le> lfs_tag_id ft
     then (0, ft + lfs_mktag 0 (word_of_int (lfs_tag_splice tag)) 0)
     else (0, ft))"

subsection \<open>The state of a traversal\<close>

text \<open>The callback: the filter on the tag of a stack frame, or the one the caller gave.\<close>

datatype trav_cb = TraverseFilter nat | Outer

text \<open>A buffer: one an attribute carries, or a reference to the variable \<open>disk\<close>.\<close>

datatype trav_buf = AttrBuffer attr_buf | DiskVar

record trav =
  tv_dir :: lfs_mdir
  tv_off :: u32
  tv_ptag :: u32
  tv_attr_i :: nat
  tv_empty :: bool
  tv_tmask :: u32
  tv_ttag :: u32
  tv_begin :: u16
  tv_end :: u16
  tv_diff :: u16
  tv_cb :: trav_cb
  tv_disk :: lfs_diskoff

record frame =
  fr_trav :: trav
  fr_tag :: u32
  fr_buffer :: trav_buf

datatype phase = GetNextTag | ProcessTag u32 trav_buf "lfs_diskoff option" | PopAndProcess

definition LFS_DIR_TRAVERSE_DEPTH :: nat where "LFS_DIR_TRAVERSE_DEPTH = 3"

type_synonym 'c trav_state = "phase \<times> frame list \<times> trav \<times> int \<times> 'c"

text \<open>Writing a frame: the assertion of the source, then the bound of its array.\<close>

definition push_frame :: "frame \<Rightarrow> frame list \<Rightarrow> ('s, frame list) m" where
  "push_frame fr stack =
    bnd (check (length stack < LFS_DIR_TRAVERSE_DEPTH)) (\<lambda>_.
    bnd (check (length stack < LFS_DIR_TRAVERSE_DEPTH - 1)) (\<lambda>_.
    ret (stack @ [fr])))"

definition dispatch_tag ::
  "(u32 \<Rightarrow> attr_buf \<Rightarrow> 'c \<Rightarrow> ('d, int \<times> 'c) fs) \<Rightarrow> trav_cb \<Rightarrow> u32 \<Rightarrow> attr_buf \<Rightarrow> u16 \<Rightarrow> frame list \<Rightarrow> 'c \<Rightarrow>
    ('d, int \<times> frame list \<times> 'c) fs" where
  "dispatch_tag outer cb tag buffer diff stack c =
    (let out_tag = tag + lfs_mktag 0 (scast diff) 0 in
     case cb of
       TraverseFilter x \<Rightarrow>
         bnd (check (x < length stack)) (\<lambda>_.
         let (res, ft) = lfs_dir_traverse_filter (fr_tag (stack ! x)) out_tag in
         ret (res, stack[x := (stack ! x)\<lparr>fr_tag := ft\<rparr>], c))
     | Outer \<Rightarrow>
         bnd (outer out_tag buffer c) (\<lambda>(res, c). ret (res, stack, c)))"

subsection \<open>The phases\<close>

definition trav_get_next ::
  "lfs_mattr list \<Rightarrow> frame list \<Rightarrow> trav \<Rightarrow> ('d, (u32 \<times> trav_buf \<times> trav) option) fs" where
  "trav_get_next attrs stack t =
    (if tv_off t + lfs_tag_dsize (tv_ptag t) < md_off (tv_dir t) then
       let off = tv_off t + lfs_tag_dsize (tv_ptag t) in
       bnd (lfs_bd_read None RCache 4 (fst (md_pair (tv_dir t))) (unat off) (replicate 4 0)) (\<lambda>raw.
       let tag_val = (u32_from_be raw XOR tv_ptag t) OR 0x80000000 in
       ret (Some (tag_val, DiskVar, t\<lparr>tv_off := off, tv_ptag := tag_val,
         tv_disk := \<lparr>do_block = fst (md_pair (tv_dir t)), do_off = off + 4\<rparr>\<rparr>)))
     else if tv_attr_i t < length (if tv_empty t then [] else attrs) then
       let attr = attrs ! tv_attr_i t in
       ret (Some (ma_tag attr, AttrBuffer (ma_buf attr), t\<lparr>tv_attr_i := tv_attr_i t + 1\<rparr>))
     else ret None)"

definition trav_next_phase ::
  "lfs_mattr list \<Rightarrow> frame list \<Rightarrow> trav \<Rightarrow> int \<Rightarrow> 'c \<Rightarrow> ('d, 'c trav_state + (int \<times> 'c)) fs" where
  "trav_next_phase attrs stack t res c =
    bnd (trav_get_next attrs stack t) (\<lambda>nx. case nx of
      None \<Rightarrow> if stack = [] then ret (Inr (0, c)) else ret (Inl (PopAndProcess, stack, t, 0, c))
    | Some (tag, buffer, t) \<Rightarrow>
        let mask = lfs_mktag 0x7ff 0 0 in
        if mask AND tv_tmask t AND tag \<noteq> mask AND tv_tmask t AND tv_ttag t
        then ret (Inl (GetNextTag, stack, t, res, c))
        else if lfs_tag_id (tv_tmask t) \<noteq> 0 then
          bnd (push_frame \<lparr>fr_trav = t, fr_tag = tag, fr_buffer = buffer\<rparr> stack) (\<lambda>stack.
          ret (Inl (GetNextTag, stack, t\<lparr>tv_tmask := 0, tv_ttag := 0, tv_begin := 0, tv_end := 0,
            tv_diff := 0, tv_cb := TraverseFilter (length stack - 1)\<rparr>, res, c)))
        else ret (Inl (ProcessTag tag buffer None, stack, t, res, c)))"

text \<open>
  Dispatching the user attributes of an entry: the id of the tag built here already has
  \<open>diff\<close> added, and \<open>dispatch_tag\<close> adds it again.
\<close>

definition trav_userattrs_body ::
  "(u32 \<Rightarrow> attr_buf \<Rightarrow> 'c \<Rightarrow> ('d, int \<times> 'c) fs) \<Rightarrow> u32 \<Rightarrow> trav \<Rightarrow>
    lfs_attr list \<times> int \<times> frame list \<times> 'c \<Rightarrow>
    ('d, (lfs_attr list \<times> int \<times> frame list \<times> 'c) + (int \<times> frame list \<times> 'c)) fs" where
  "trav_userattrs_body outer tag t = (\<lambda>(as, res, stack, c). case as of
      [] \<Rightarrow> ret (Inr (res, stack, c))
    | a # as \<Rightarrow>
        let userattr_tag = lfs_mktag (LFS_TYPE_USERATTR + ucast (at_type a))
              (ucast (lfs_tag_id tag) + scast (tv_diff t)) (length (at_buffer a)) in
        bnd (dispatch_tag outer (tv_cb t) userattr_tag (Bytes (at_buffer a)) (tv_diff t) stack c) (\<lambda>(res, stack, c).
        if res \<noteq> 0 then ret (Inr (res, stack, c)) else ret (Inl (as, res, stack, c))))"

definition trav_after ::
  "frame list \<Rightarrow> trav \<Rightarrow> int \<Rightarrow> 'c \<Rightarrow> ('d, 'c trav_state + (int \<times> 'c)) fs" where
  "trav_after stack t res c =
    (if res = 0 then ret (Inl (GetNextTag, stack, t, res, c))
     else if stack \<noteq> [] then ret (Inl (PopAndProcess, stack, t, res, c))
     else ret (Inr (res, c)))"

definition trav_process ::
  "(u32 \<Rightarrow> attr_buf \<Rightarrow> 'c \<Rightarrow> ('d, int \<times> 'c) fs) \<Rightarrow> u32 \<Rightarrow> trav_buf \<Rightarrow> lfs_diskoff option \<Rightarrow>
    frame list \<Rightarrow> trav \<Rightarrow> int \<Rightarrow> 'c \<Rightarrow> ('d, 'c trav_state + (int \<times> 'c)) fs" where
  "trav_process outer tag buffer disk_override stack t res c =
    (if lfs_tag_id (tv_tmask t) \<noteq> 0 \<and> \<not> (lfs_tag_id tag \<ge> tv_begin t \<and> lfs_tag_id tag < tv_end t)
     then ret (Inl (GetNextTag, stack, t, res, c))
     else
     let type3 = lfs_tag_type3 tag;
         this = (case buffer of AttrBuffer b \<Rightarrow> b | DiskVar \<Rightarrow> DiskBuf (tv_disk t)) in
     if type3 = LFS_FROM_NOOP then ret (Inl (GetNextTag, stack, t, res, c))
     else if type3 = LFS_FROM_MOVE then
       if tv_cb t \<noteq> Outer then ret (Inl (GetNextTag, stack, t, res, c))
       else
         let fromid = ucast (lfs_tag_size tag) :: u16;
             toid = lfs_tag_id tag;
             new_diff = toid - fromid + tv_diff t in
         bnd (push_frame \<lparr>fr_trav = t, fr_tag = lfs_mktag LFS_FROM_NOOP 0 0, fr_buffer = AttrBuffer (Bytes [])\<rparr> stack) (\<lambda>stack.
         case this of
           MdirBuf d \<Rightarrow>
             ret (Inl (GetNextTag, stack, t\<lparr>tv_dir := d, tv_off := 0, tv_ptag := 0xffffffff, tv_attr_i := 0,
               tv_empty := True, tv_tmask := lfs_mktag 0x600 0x3ff 0, tv_ttag := lfs_mktag LFS_TYPE_STRUCT 0 0,
               tv_begin := fromid, tv_end := fromid + 1, tv_diff := new_diff\<rparr>, res, c))
         | _ \<Rightarrow> panic)
     else if type3 = LFS_FROM_USERATTRS then
       (case this of
          AttrsBuf as \<Rightarrow>
            bnd (check (unat (lfs_tag_size tag) = length as)) (\<lambda>_.
            bnd (mloop (trav_userattrs_body outer tag t) (as, res, stack, c)) (\<lambda>(res, stack, c).
            trav_after stack t res c))
        | Bytes [] \<Rightarrow>
            bnd (check (lfs_tag_size tag = 0)) (\<lambda>_. trav_after stack t res c)
        | _ \<Rightarrow> panic)
     else
       let actual = (case disk_override of Some d \<Rightarrow> DiskBuf d | None \<Rightarrow> this) in
       bnd (dispatch_tag outer (tv_cb t) tag actual (tv_diff t) stack c) (\<lambda>(res, stack, c).
       trav_after stack t res c))"

definition trav_pop ::
  "frame list \<Rightarrow> trav \<Rightarrow> int \<Rightarrow> 'c \<Rightarrow> ('d, 'c trav_state + (int \<times> 'c)) fs" where
  "trav_pop stack t res c =
    (if stack = [] then ret (Inr (res, c))
     else
       let fr = last stack;
           ov = (if \<not> lfs_tag_isvalid (fr_tag fr) then Some (tv_disk (fr_trav fr)) else None) in
       ret (Inl (ProcessTag (fr_tag fr) (fr_buffer fr) ov, butlast stack, fr_trav fr, res, c)))"

definition trav_body ::
  "lfs_mattr list \<Rightarrow> (u32 \<Rightarrow> attr_buf \<Rightarrow> 'c \<Rightarrow> ('d, int \<times> 'c) fs) \<Rightarrow> 'c trav_state \<Rightarrow>
    ('d, 'c trav_state + (int \<times> 'c)) fs" where
  "trav_body attrs outer = (\<lambda>(ph, stack, t, res, c). case ph of
      GetNextTag \<Rightarrow> trav_next_phase attrs stack t res c
    | ProcessTag tag buffer ov \<Rightarrow> trav_process outer tag buffer ov stack t res c
    | PopAndProcess \<Rightarrow> trav_pop stack t res c)"

definition lfs_dir_traverse ::
  "lfs_mdir \<Rightarrow> u32 \<Rightarrow> u32 \<Rightarrow> lfs_mattr list \<Rightarrow> u32 \<Rightarrow> u32 \<Rightarrow> u16 \<Rightarrow> u16 \<Rightarrow> u16 \<Rightarrow>
    (u32 \<Rightarrow> attr_buf \<Rightarrow> 'c \<Rightarrow> ('d, int \<times> 'c) fs) \<Rightarrow> 'c \<Rightarrow> ('d, int \<times> 'c) fs" where
  "lfs_dir_traverse dir off ptag attrs tmask ttag begn en diff outer c =
    mloop (trav_body attrs outer)
      (GetNextTag, [],
       \<lparr>tv_dir = dir, tv_off = off, tv_ptag = ptag, tv_attr_i = 0, tv_empty = False, tv_tmask = tmask,
        tv_ttag = ttag, tv_begin = begn, tv_end = en, tv_diff = diff, tv_cb = Outer,
        tv_disk = \<lparr>do_block = 0, do_off = 0\<rparr>\<rparr>, 0, c)"

end
