(* ===== verification/Frames.thy ===== *)
theory Frames
  imports Traverse
begin

text \<open>
  What the operations leave alone.  \<open>lookup_frame s t\<close> relates two states that differ at most in
  the read cache, the buffers, the seed, the stack, and in a device that has only been read;
  every lookup operation keeps it, whatever the driver does.  \<open>alloc_frame\<close> leaves out the
  lookahead window as well and is what the allocator keeps.
\<close>

subsection \<open>Devices that are only read\<close>

inductive dev_reads :: "'d storage \<Rightarrow> 'd \<Rightarrow> 'd \<Rightarrow> bool" for st :: "'d storage" where
  none: "dev_reads st d d"
| more: "dev_reads st d e \<Longrightarrow> st_read st block off buf e = (r, bs, f) \<Longrightarrow> dev_reads st d f"

inductive_cases dev_reads_cases: "dev_reads st d e"

lemma dev_reads_trans: "dev_reads st e f \<Longrightarrow> dev_reads st d e \<Longrightarrow> dev_reads st d f"
  by (induction rule: dev_reads.induct) (auto intro: dev_reads.intros)

text \<open>A driver whose reads have no side effect is left as it is.\<close>

lemma dev_reads_pure:
  assumes "\<And>block off buf d. snd (snd (st_read st block off buf d)) = d"
  shows "dev_reads st d e \<Longrightarrow> e = d"
proof (induction rule: dev_reads.induct)
  case (more d e block off buf r bs f)
  then show ?case using assms [of block off buf e] by simp
qed simp

subsection \<open>The two frames\<close>

definition alloc_frame :: "'d lfs \<Rightarrow> 'd lfs \<Rightarrow> bool" where
  "alloc_frame s t \<longleftrightarrow> l_pcache t = l_pcache s \<and> l_root t = l_root s \<and> l_mlist t = l_mlist s
    \<and> l_gstate t = l_gstate s \<and> l_gdisk t = l_gdisk s \<and> l_gdelta t = l_gdelta s
    \<and> l_cfg t = l_cfg s \<and> l_block_count t = l_block_count s \<and> l_name_max t = l_name_max s
    \<and> l_file_max t = l_file_max s \<and> l_attr_max t = l_attr_max s \<and> l_inline_max t = l_inline_max s
    \<and> dev_reads (cfg_context (l_cfg s)) (l_dev s) (l_dev t)"

definition lookup_frame :: "'d lfs \<Rightarrow> 'd lfs \<Rightarrow> bool" where
  "lookup_frame s t \<longleftrightarrow> alloc_frame s t \<and> l_lookahead t = l_lookahead s"

named_theorems look_intros \<open>operations that only look\<close>

lemma keeps_case_probe [keeps_intros]:
  "(\<And>x. keeps R (c x)) \<Longrightarrow> (\<And>x. keeps R (d x)) \<Longrightarrow> keeps R (case z of Hit x \<Rightarrow> c x | Limit x \<Rightarrow> d x)"
  by (cases z) simp_all

lemma keeps_case_ordering [keeps_intros]:
  "keeps R c \<Longrightarrow> keeps R d \<Longrightarrow> keeps R e \<Longrightarrow> keeps R (case z of Less \<Rightarrow> c | Equal \<Rightarrow> d | Greater \<Rightarrow> e)"
  by (cases z) simp_all

subsection \<open>Relations that lookups keep\<close>

text \<open>
  What a relation has to allow for every lookup to keep it: changing the directory a node holds,
  the buffers, the read cache and the caches of files, the seed, a read of the device, and the
  local variables of a scope.
\<close>

locale lookup_rel = frame_rel R for R :: "'d lfs \<Rightarrow> 'd lfs \<Rightarrow> bool" +
  assumes upd_mdir [look_intros]: "keeps R (upd_mdir a f)"
    and put_buf [look_intros]: "keeps R (put_buf b bs)"
    and upd_cache [look_intros]: "r \<noteq> PCache \<Longrightarrow> keeps R (upd_cache r g)"
    and seed [look_intros]: "keeps R (modify (\<lambda>s. s\<lparr>l_seed := h s\<rparr>))"
    and dev_read [look_intros]: "keeps R (dev_read block off buf)"
    and R_scope: "R (s\<lparr>l_nodes := (l_nodes s)(l_next_node s \<mapsto> node_default\<lparr>nd_m := m\<rparr>), l_next_node := Suc (l_next_node s)\<rparr>) u \<Longrightarrow>
      R s (u\<lparr>l_nodes := (l_nodes u)(l_next_node s := None), l_next_node := l_next_node s\<rparr>)"
begin

lemma get_node [look_intros]: "keeps R (get_node a)"
  unfolding get_node_def by (intro k_intros)

lemma get_mdir [look_intros]: "keeps R (get_mdir a)"
  unfolding get_mdir_def by (intro k_intros look_intros)

lemma get_buf [look_intros]: "keeps R (get_buf b)"
  unfolding get_buf_def by (intro k_intros)

lemma get_cache [look_intros]: "keeps R (get_cache r)"
  unfolding get_cache_def by (cases r) (auto intro!: k_intros look_intros)

lemma with_mdir [look_intros]:
  assumes "\<And>a. keeps R (c a)"
  shows "keeps R (with_mdir m c)"
proof (rule keepsI)
  fix s r t
  assume "with_mdir m c s = Some (r, t)"
  then obtain u where u: "c (l_next_node s) (s\<lparr>l_nodes := (l_nodes s)(l_next_node s \<mapsto> node_default\<lparr>nd_m := m\<rparr>),
      l_next_node := Suc (l_next_node s)\<rparr>) = Some (r, u)"
    and t: "t = u\<lparr>l_nodes := (l_nodes u)(l_next_node s := None), l_next_node := l_next_node s\<rparr>"
    by (auto simp: with_mdir_def with_node_def Let_def split: option.splits)
  show "R s t" unfolding t by (rule R_scope) (rule keepsD [OF assms u])
qed

lemma check_m [look_intros]: "keeps R (aligndown_m a n)" "keeps R (alignup_m a n)"
  unfolding aligndown_m_def alignup_m_def by (intro k_intros)+

lemma keeps_or_corrupt:
  "keeps R c \<Longrightarrow> keeps R b \<Longrightarrow> (\<And>x. keeps R (k x)) \<Longrightarrow>
    keeps R (or_corrupt c b k)"
  unfolding or_corrupt_def by (intro k_intros)

subsection \<open>Reads and lookups\<close>

lemma cache_copy [look_intros]: "keeps R (cache_copy r off diff data)"
  unfolding cache_copy_def by (intro k_intros look_intros)

lemma probe_opt [look_intros]: "keeps R (probe_opt r block off diff)"
  unfolding probe_opt_def by (intro k_intros look_intros)

lemma bd_refill: "r \<noteq> PCache \<Longrightarrow> keeps R (bd_refill r hint block off)"
  unfolding bd_refill_def by (intro k_intros look_intros keeps_case_probe)

lemma bd_read_buf [look_intros]: "r \<noteq> PCache \<Longrightarrow> keeps R (lfs_bd_read_buf p r hint block off buf)"
  unfolding lfs_bd_read_buf_def lfs_bd_read_body_def
  by (intro k_intros look_intros keeps_case_probe bd_refill)

lemma bd_read [look_intros]: "r \<noteq> PCache \<Longrightarrow> keeps R (lfs_bd_read p r hint block off buf)"
  unfolding lfs_bd_read_def by (intro k_intros look_intros)

lemma bd_cmp [look_intros]: "r \<noteq> PCache \<Longrightarrow> keeps R (lfs_bd_cmp p r hint block off buf)"
  unfolding lfs_bd_cmp_def lfs_bd_cmp_body_def by (intro k_intros look_intros keeps_case_ordering)

lemma bd_crc_buf [look_intros]: "r \<noteq> PCache \<Longrightarrow> keeps R (lfs_bd_crc_buf p r hint block off sz crc)"
  unfolding lfs_bd_crc_buf_def lfs_bd_crc_body_def by (intro k_intros look_intros)

lemma bd_crc [look_intros]: "r \<noteq> PCache \<Longrightarrow> keeps R (lfs_bd_crc p r hint block off sz crc)"
  unfolding lfs_bd_crc_def by (intro k_intros look_intros)

lemma ctz_index [look_intros]: "keeps R (lfs_ctz_index off)"
  unfolding lfs_ctz_index_def by (intro k_intros look_intros)

lemma ctz_find [look_intros]: "r \<noteq> PCache \<Longrightarrow> keeps R (lfs_ctz_find p r head sz pos)"
  unfolding lfs_ctz_find_def lfs_ctz_find_body_def by (intro k_intros look_intros)

lemma dir_getslice [look_intros]: "keeps R (lfs_dir_getslice_buf dir gmask gtag goff buf)"
  unfolding lfs_dir_getslice_buf_def lfs_dir_getslice_body_def
  by (intro k_intros look_intros) simp_all

lemma dir_get_buf [look_intros]: "keeps R (lfs_dir_get_buf dir gmask gtag buf)"
  unfolding lfs_dir_get_buf_def by (intro k_intros look_intros)

lemma dir_get [look_intros]: "keeps R (lfs_dir_get dir gmask gtag buf)"
  unfolding lfs_dir_get_def by (intro k_intros look_intros)

lemma dir_getread [look_intros]: "r \<noteq> PCache \<Longrightarrow>
    keeps R (lfs_dir_getread dir p r hint gmask gtag off buf)"
  unfolding lfs_dir_getread_def lfs_dir_getread_body_def
  by (intro k_intros look_intros keeps_case_probe)

lemma fetch_revs [look_intros]: "keeps R (fetch_revs pr i x)"
  unfolding fetch_revs_def by (intro k_intros look_intros) simp_all

lemma fetch_commit_crc [look_intros]: "keeps R (fetch_commit_crc a tag l)"
  unfolding fetch_commit_crc_def by (intro k_intros look_intros keeps_or_corrupt) simp_all

lemma fetch_tag:
  assumes "\<And>cb tag d. ocb = Some cb \<Longrightarrow> keeps R (cb tag d)"
  shows "keeps R (fetch_tag a fmask ftag ocb tag l)"
proof (cases ocb)
  case None
  show ?thesis unfolding fetch_tag_def Let_def None option.case
    by (intro k_intros look_intros keeps_or_corrupt) simp_all
next
  case (Some cb)
  show ?thesis unfolding fetch_tag_def Let_def Some option.case
    by (intro k_intros look_intros keeps_or_corrupt assms) (simp_all add: Some)
qed

lemma fetch_block:
  assumes "\<And>cb tag d. ocb = Some cb \<Longrightarrow> keeps R (cb tag d)"
  shows "keeps R (fetch_block a fmask ftag ocb best)"
  unfolding fetch_block_def fetch_body_def
  by (intro k_intros look_intros keeps_or_corrupt fetch_tag assms) simp_all

lemma dir_fetchmatch:
  assumes "\<And>cb tag d. ocb = Some cb \<Longrightarrow> keeps R (cb tag d)"
  shows "keeps R (lfs_dir_fetchmatch a pr fmask ftag ocb)"
  unfolding lfs_dir_fetchmatch_def by (intro k_intros look_intros fetch_block assms)

lemma dir_fetch [look_intros]: "keeps R (lfs_dir_fetch a pr)"
  unfolding lfs_dir_fetch_def by (intro k_intros dir_fetchmatch) simp

lemma dir_getgstate [look_intros]: "keeps R (lfs_dir_getgstate dir g)"
  unfolding lfs_dir_getgstate_def by (intro k_intros look_intros)

lemma dir_getinfo [look_intros]: "keeps R (lfs_dir_getinfo dir i info)"
  unfolding lfs_dir_getinfo_def by (intro k_intros look_intros)

lemma find_match [look_intros]: "keeps R (lfs_dir_find_match name tag d)"
  unfolding lfs_dir_find_match_def by (intro k_intros look_intros) simp

lemma find_suffix [look_intros]: "keeps R (find_suffix sfx)"
  unfolding find_suffix_def find_suffix_body_def by (intro k_intros)

lemma find_entry [look_intros]: "keeps R (find_entry a name i)"
  unfolding find_entry_def
  by (intro k_intros look_intros dir_fetchmatch) (auto intro: find_match)

lemma dir_find [look_intros]: "keeps R (lfs_dir_find a path i)"
  unfolding lfs_dir_find_def find_body_def by (intro k_intros look_intros)

lemma stat [look_intros]: "keeps R (lfs_stat_raw path info)"
  unfolding lfs_stat_raw_def by (intro k_intros look_intros)

lemma fs_stat [look_intros]: "keeps R lfs_fs_stat_raw"
  unfolding lfs_fs_stat_raw_def superblock_get_def by (intro k_intros look_intros)

text \<open>A traversal does what its callback does, and looks.\<close>

lemma ctz_traverse:
  assumes "\<And>b c. keeps R (cb b c)"
  shows "keeps R (lfs_ctz_traverse p RCache head sz cb c)"
  unfolding lfs_ctz_traverse_def lfs_ctz_traverse_body_def
  by (intro k_intros look_intros assms) simp

lemma fs_traverse:
  assumes "\<And>b c. keeps R (cb b c)"
  shows "keeps R (lfs_fs_traverse_raw cb c orphans)"
  unfolding lfs_fs_traverse_raw_def fs_traverse_pairs_def fs_traverse_open_def fs_traverse_entry_def
  by (intro k_intros look_intros ctz_traverse assms)

lemma alloc_lookahead: "keeps R (lfs_alloc_lookahead block)"
  unfolding lfs_alloc_lookahead_def by (intro k_intros look_intros)

lemma fs_size: "keeps R lfs_fs_size_raw"
  unfolding lfs_fs_size_raw_def by (intro k_intros look_intros fs_traverse)

end

lemmas frame_defs = lookup_frame_def alloc_frame_def

interpretation alo: frame_rel alloc_frame
  by unfold_locales (auto simp: alloc_frame_def intro: dev_reads.none dev_reads_trans)

interpretation ro: lookup_rel lookup_frame
proof
  show "keeps lookup_frame (upd_mdir a f)" for a f
    by (rule keepsI) (auto simp: upd_mdir_def upd_node_def get_node_def run_simps bnd_def frame_defs dev_reads.none split: option.splits)
  show "keeps lookup_frame (upd_cache r g)" if "r \<noteq> PCache" for r g
    using that by (cases r) (auto intro!: keepsI simp: upd_cache_def upd_node_def get_node_def run_simps bnd_def frame_defs dev_reads.none split: option.splits)
  show "keeps lookup_frame (dev_read block off buf)" for block off buf
    by (rule keepsI) (auto simp: dev_read_def frame_defs split: prod.splits intro: dev_reads.more [OF dev_reads.none])
qed (auto simp: frame_defs put_buf_def keeps_def run_simps dev_reads.none intro: alo.R_refl dest: dev_reads_trans)

lemma lookup_alloc: "keeps lookup_frame c \<Longrightarrow> keeps alloc_frame c"
  by (auto simp: keeps_def lookup_frame_def)

lemma k_with_node_alloc:
  assumes "\<And>a. keeps alloc_frame (c a)"
  shows "keeps alloc_frame (with_node n c)"
proof (rule keepsI)
  fix s r t
  assume "with_node n c s = Some (r, t)"
  then obtain u where u: "c (l_next_node s) (s\<lparr>l_nodes := (l_nodes s)(l_next_node s \<mapsto> n), l_next_node := Suc (l_next_node s)\<rparr>)
      = Some (r, u)" and t: "t = u\<lparr>l_nodes := (l_nodes u)(l_next_node s := None), l_next_node := l_next_node s\<rparr>"
    by (auto simp: with_node_def Let_def split: option.splits)
  show "alloc_frame s t" using keepsD [OF assms u] by (simp add: t frame_defs)
qed

subsection \<open>The allocator\<close>

lemma ro_bd_read_alloc: "keeps alloc_frame (lfs_bd_read p RCache hint block off buf)"
  by (rule lookup_alloc) (rule ro.bd_read, simp)

lemma alo_ctz_traverse:
  assumes "\<And>b c. keeps alloc_frame (cb b c)"
  shows "keeps alloc_frame (lfs_ctz_traverse p RCache head sz cb c)"
  unfolding lfs_ctz_traverse_def lfs_ctz_traverse_body_def
  by (intro alo.k_intros ro_bd_read_alloc lookup_alloc [OF ro.ctz_index] assms)

lemma alo_fs_traverse:
  assumes cb: "\<And>b c. keeps alloc_frame (cb b c)"
  shows "keeps alloc_frame (lfs_fs_traverse_raw cb c orphans)"
  unfolding lfs_fs_traverse_raw_def fs_traverse_pairs_def fs_traverse_open_def fs_traverse_entry_def with_mdir_def
  by (intro alo.k_intros k_with_node_alloc lookup_alloc [OF ro.get_mdir] lookup_alloc [OF ro.get_node]
      lookup_alloc [OF ro.dir_get] lookup_alloc [OF ro.dir_fetch] alo_ctz_traverse cb)

lemma alo_modify_lookahead: "keeps alloc_frame (modify (\<lambda>s. s\<lparr>l_lookahead := f s\<rparr>))"
  by (intro alo.k_modify) (simp add: frame_defs dev_reads.none)

lemma alo_alloc_lookahead: "keeps alloc_frame (lfs_alloc_lookahead block)"
  unfolding lfs_alloc_lookahead_def
  by (intro alo.k_intros lookup_alloc [OF ro.get_buf] lookup_alloc [OF ro.put_buf])

lemma alo_alloc_scan: "keeps alloc_frame lfs_alloc_scan"
  unfolding lfs_alloc_scan_def lfs_alloc_drop_def lfs_alloc_ckpoint_def
  by (intro alo.k_intros lookup_alloc [OF ro.get_buf] lookup_alloc [OF ro.put_buf]
      alo_modify_lookahead alo_fs_traverse alo_alloc_lookahead)

lemma alo_alloc: "keeps alloc_frame lfs_alloc"
  unfolding lfs_alloc_def alloc_window_def alloc_skip_def la_probe_def la_advance_def
  by (intro alo.k_intros lookup_alloc [OF ro.get_buf] alo_modify_lookahead alo_alloc_scan)

subsection \<open>Properties\<close>

text \<open>Looking a path up, the status of an entry and of the file system, and counting
  the blocks in use change neither the global state, nor the allocator, nor the program cache,
  and only read the device, whatever the driver answers and however they end.\<close>

lemma lookups_only_read:
  "keeps lookup_frame (lfs_dir_find a path i) \<and> keeps lookup_frame (lfs_stat_raw path info)
    \<and> keeps lookup_frame lfs_fs_stat_raw \<and> keeps lookup_frame lfs_fs_size_raw"
  by (intro conjI ro.dir_find ro.stat ro.fs_stat ro.fs_size)

text \<open>Allocating a block, with the scan of the whole file system it may need, changes
  the lookahead window alone: it never writes or erases, and touches no other state.\<close>

theorem allocator_only_reads: "keeps alloc_frame lfs_alloc"
  by (rule alo_alloc)

end
