(* ===== verification/BdOps.thy ===== *)
theory BdOps
  imports Device
begin

text \<open>
  What comparing, checksumming, programming, flushing and synchronising through the caches
  do, on any driver that keeps the laws of a block device.
\<close>

subsection \<open>Comparing and checksumming\<close>

lemma bytes_cmp_refl [simp]: "bytes_cmp xs xs = Equal"
  by (induction xs) auto

lemma bytes_cmp_Equal: "bytes_cmp xs ys = Equal \<longleftrightarrow> xs = ys"
  by (induction xs ys rule: bytes_cmp.induct) auto

lemma bytes_cmp_append:
  "length xs = length ys \<Longrightarrow> bytes_cmp (xs @ us) (ys @ vs) =
    (case bytes_cmp xs ys of Equal \<Rightarrow> bytes_cmp us vs | z \<Rightarrow> z)"
  by (induction xs ys rule: bytes_cmp.induct) auto

lemma bytes_cmp_take:
  assumes "length us = length vs" "n \<le> length vs"
  shows "bytes_cmp us vs = (case bytes_cmp (take n us) (take n vs) of
    Equal \<Rightarrow> bytes_cmp (drop n us) (drop n vs) | z \<Rightarrow> z)"
  using bytes_cmp_append [of "take n us" "take n vs" "drop n us" "drop n vs"] assms by simp

subsection \<open>What programming needs\<close>

text \<open>The block is erased from \<open>pos\<close> on.\<close>

definition erased_from :: "('d \<Rightarrow> u32 \<Rightarrow> bytes) \<Rightarrow> nat \<Rightarrow> 'd \<Rightarrow> u32 \<Rightarrow> nat \<Rightarrow> bool" where
  "erased_from blk bsz d block pos \<longleftrightarrow> (\<forall>i. pos \<le> i \<and> i < bsz \<longrightarrow> blk d block ! i = 0xff)"

text \<open>
  A program cache is empty, or holds bytes of one block from an aligned offset on, where the
  device is still erased.  What it has not been given is \<open>0xff\<close>.
\<close>

definition pcache_clean :: "('d \<Rightarrow> u32 \<Rightarrow> bytes) \<Rightarrow> nat \<Rightarrow> nat \<Rightarrow> nat \<Rightarrow> 'd \<Rightarrow> lfs_cache \<Rightarrow> bytes \<Rightarrow> bool" where
  "pcache_clean blk bsz bcount ps d pc pb \<longleftrightarrow>
     (if cache_block pc = LFS_BLOCK_NULL then pb = replicate (length pb) 0xff
      else unat (cache_block pc) < bcount \<and> ps dvd cache_off pc \<and> cache_size pc \<le> length pb
        \<and> cache_off pc + cache_size pc \<le> bsz
        \<and> drop (cache_size pc) pb = replicate (length pb - cache_size pc) 0xff
        \<and> erased_from blk bsz d (cache_block pc) (cache_off pc))"

definition prog_geometry :: "'d storage \<Rightarrow> ('d \<Rightarrow> bool) \<Rightarrow> nat \<Rightarrow> nat \<Rightarrow> bytes \<Rightarrow> 'd lfs \<Rightarrow> bool" where
  "prog_geometry st dok bsz bcount pb s \<longleftrightarrow> attached_to st dok bsz bcount s \<and> bcount < 2 ^ 32 - 2
     \<and> 0 < bsz \<and> 0 < unat (cfg_prog_size (l_cfg s)) \<and> unat (cfg_prog_size (l_cfg s)) dvd bsz
     \<and> unat (cfg_prog_size (l_cfg s)) dvd length pb \<and> 0 < length pb \<and> length pb < 2 ^ 31"

text \<open>The next byte programmed to \<open>block\<close> may go to \<open>off\<close>.\<close>

definition prog_ready_to ::
  "'d storage \<Rightarrow> ('d \<Rightarrow> bool) \<Rightarrow> ('d \<Rightarrow> u32 \<Rightarrow> bytes) \<Rightarrow> nat \<Rightarrow> nat \<Rightarrow>
    cache_ref \<Rightarrow> u32 \<Rightarrow> nat \<Rightarrow> 'd lfs \<Rightarrow> bool" where
  "prog_ready_to st dok blk bsz bcount p block off s \<longleftrightarrow> unat block < bcount \<and>
     (\<exists>pc pb. cache_of p s = Some pc \<and> pb = l_bufs s (cache_buffer pc)
       \<and> prog_geometry st dok bsz bcount pb s
       \<and> pcache_clean blk bsz bcount (unat (cfg_prog_size (l_cfg s))) (l_dev s) pc pb
       \<and> (if cache_block pc = LFS_BLOCK_NULL
          then erased_from blk bsz (l_dev s) block (off - off mod unat (cfg_prog_size (l_cfg s)))
          else cache_block pc = block \<and> cache_off pc \<le> off \<and> off < cache_off pc + length pb
            \<and> cache_size pc < length pb))"

lemma set_cache_dev: "(set_cache r c s)\<lparr>l_dev := d\<rparr> = set_cache r c (s\<lparr>l_dev := d\<rparr>)"
  by (cases r) (simp_all add: set_cache_def)

lemma splice_splice:
  assumes "i + length xs \<le> length bs"
  shows "splice (splice bs i xs) (i + length xs) ys = splice bs i (xs @ ys)"
  using assms by (simp add: splice_def add.commute add.left_commute)

lemma unat_BLOCK_NULL: "unat LFS_BLOCK_NULL = 2 ^ 32 - 1"
proof -
  have e: "(- 1 :: u32) = 0xffffffff" by simp
  show ?thesis unfolding LFS_BLOCK_NULL_def e by simp
qed

lemma unat_BLOCK_INLINE: "unat LFS_BLOCK_INLINE = 2 ^ 32 - 2"
proof -
  have e: "(- 2 :: u32) = 0xfffffffe" by simp
  show ?thesis unfolding LFS_BLOCK_INLINE_def e by simp
qed

lemma multiple_le: "m dvd a \<Longrightarrow> m dvd b \<Longrightarrow> a < b + m \<Longrightarrow> a \<le> b" for a b m :: nat
proof (rule ccontr)
  assume m: "m dvd a" "m dvd b" and lt: "a < b + m" and "\<not> a \<le> b"
  then have "0 < a - b" "m dvd a - b" by simp_all
  then have "m \<le> a - b" by (rule dvd_imp_le [rotated])
  with lt \<open>\<not> a \<le> b\<close> show False by linarith
qed

lemma splice_same:
  assumes "i + length xs \<le> length bs" "\<And>k. k < length xs \<Longrightarrow> bs ! (i + k) = xs ! k"
  shows "splice bs i xs = bs"
  by (rule nth_equalityI) (use assms in \<open>auto simp: nth_splice le_iff_add\<close>)

context block_device
begin

text \<open>A state that differs from \<open>s\<close> in what the read cache holds.\<close>

definition reloaded :: "cache_ref \<Rightarrow> 'd lfs \<Rightarrow> 'd lfs \<Rightarrow> bool" where
  "reloaded r s t \<longleftrightarrow> (\<exists>c c' b'. cache_of r s = Some c \<and> t = load r c' b' s
    \<and> cache_buffer c' = cache_buffer c \<and> coherent (cfg_read_size (l_cfg s)) (l_dev s) c' b')"

lemma reloaded_refl: "read_ready p r block s \<Longrightarrow> reloaded r s s"
  unfolding reloaded_def read_ready_to_def by (metis load_same)

lemma reloaded_trans: "reloaded r s t \<Longrightarrow> reloaded r t u \<Longrightarrow> reloaded r s u"
  unfolding reloaded_def by (force simp: cache_of_load load_load)

lemma reloaded_ready:
  assumes "read_ready p r block s" "reloaded r s t"
  shows "read_ready p r block t" "view p t = view p s"
  using assms read_ready_load [OF assms(1)] by (auto simp: reloaded_def)

lemma reloaded_simps:
  assumes "reloaded r s t"
  shows "l_cfg t = l_cfg s" "l_dev t = l_dev s" "l_block_count t = l_block_count s"
  using assms by (auto simp: reloaded_def)

lemma bd_read_reloaded:
  assumes "read_ready p r block s" "0 < hint" "hint \<le> 2 ^ 31" "off + length buf \<le> bsz"
  obtains t where "lfs_bd_read p r hint block off buf s = Some (Val (take (length buf) (drop off (view p s block))), t)"
    "reloaded r s t"
proof -
  obtain c where c: "cache_of r s = Some c" using assms(1) by (auto simp: read_ready_to_def)
  show ?thesis
    by (rule bd_read_correct [OF assms(1) c assms(2-4)]) (rule that, auto simp: reloaded_def c)
qed

theorem bd_cmp_correct:
  assumes ready: "read_ready p r block s" and hint: "length buf \<le> hint" "hint \<le> 2 ^ 31"
    and fits: "off + length buf \<le> bsz"
  obtains t where "lfs_bd_cmp p r hint block off buf s =
      Some (Val (bytes_cmp (take (length buf) (drop off (view p s block))) buf), t)" "reloaded r s t"
proof -
  let ?v = "view p s block"
  define I where "I = (\<lambda>(i, rest) t. reloaded r s t \<and> i \<le> length buf \<and> rest = drop i buf \<and>
      bytes_cmp (take (length buf) (drop off ?v)) buf = bytes_cmp (take (length rest) (drop (off + i) ?v)) rest)"
  define Q where "Q = (\<lambda>z t. z = Val (bytes_cmp (take (length buf) (drop off ?v)) buf) \<and> reloaded r s t)"
  have "wp (lfs_bd_cmp p r hint block off buf) Q s"
    unfolding lfs_bd_cmp_def
  proof (rule wp_mloop [where I = I and \<mu> = "\<lambda>(i, rest) _. length rest"])
    show "I (0, buf) s" by (simp add: I_def reloaded_refl [OF ready])
    fix x t
    assume "I x t"
    then obtain i where x: "x = (i, drop i buf)" and rl: "reloaded r s t" and i: "i \<le> length buf"
      and inv: "bytes_cmp (take (length buf) (drop off ?v)) buf
        = bytes_cmp (take (length buf - i) (drop (off + i) ?v)) (drop i buf)"
      by (cases x) (auto simp: I_def)
    note rt = reloaded_ready [OF ready rl]
    show "wp (lfs_bd_cmp_body p r hint block off x) (\<lambda>z t'. case z of
          Val (Inl y) \<Rightarrow> I y t' \<and> (case y of (i, rest) \<Rightarrow> \<lambda>_. length rest) t' < (case x of (i, rest) \<Rightarrow> \<lambda>_. length rest) t
        | Val (Inr z) \<Rightarrow> Q (Val z) t' | Exc e \<Rightarrow> Q (Exc e) t' | Panic \<Rightarrow> Q Panic t') t"
    proof (cases "i = length buf")
      case True
      with inv rl show ?thesis by (simp add: x lfs_bd_cmp_body_def run_simps Q_def)
    next
      case False
      with i have il: "i < length buf" by simp
      define d where "d = min (length buf - i) 8"
      have d: "0 < d" "d \<le> length buf - i" using il by (simp_all add: d_def)
      have us: "usize_sub hint i = hint - i" using il hint by (simp add: usize_sub_def)
      obtain u where rd: "lfs_bd_read p r (hint - i) block (off + i) (replicate d 0) t
          = Some (Val (take d (drop (off + i) ?v)), u)" and ru: "reloaded r t u"
        by (rule bd_read_reloaded [OF rt(1), of "hint - i" "off + i" "replicate d 0"])
          (use il hint fits d in \<open>auto simp: rt(2)\<close>)
      have su: "reloaded r s u" by (rule reloaded_trans [OF rl ru])
      have lv: "length ?v = bsz"
        by (rule length_view) (use ready in \<open>auto simp: read_ready_to_def attached_to_def\<close>)
      have dr: "drop d (take (length buf - i) (drop (off + i) ?v)) = take (length buf - (i + d)) (drop (off + (i + d)) ?v)"
        "take d (take (length buf - i) (drop (off + i) ?v)) = take d (drop (off + i) ?v)"
        using d by (simp_all add: drop_take min_def add.commute add.left_commute)
      have e: "drop d (drop i buf) = drop (i + d) buf" by (simp add: add.commute)
      have eqlen: "length (take (length buf - i) (drop (off + i) ?v)) = length (drop i buf)"
        and dle: "d \<le> length (drop i buf)" using fits lv d by simp_all
      have split: "bytes_cmp (take (length buf - i) (drop (off + i) ?v)) (drop i buf)
          = (case bytes_cmp (take d (drop (off + i) ?v)) (take d (drop i buf)) of
              Equal \<Rightarrow> bytes_cmp (take (length buf - (i + d)) (drop (off + (i + d)) ?v)) (drop (i + d) buf) | z \<Rightarrow> z)"
        unfolding bytes_cmp_take [OF eqlen dle] dr e ..
      have rdb: "bnd (lfs_bd_read p r (hint - i) block (off + i) (replicate d 0)) k t = k (take d (drop (off + i) ?v)) u"
        for k :: "_ \<Rightarrow> ('d, 'x) fs" by (rule bnd_run_Val) (rule rd)
      show ?thesis
        using inv [unfolded split] d su il
        by (auto simp: wp_def x lfs_bd_cmp_body_def us d_def [symmetric] Let_def rdb ret_def
            I_def Q_def e simp del: drop_drop split: ordering.splits)
    qed
  qed
  then show ?thesis using that by (auto elim!: wpE simp: Q_def)
qed

theorem bd_crc_correct:
  assumes ready: "read_ready p r block s" and hint: "sz \<le> unat hint" "unat hint \<le> 2 ^ 31"
    and fits: "off + sz \<le> bsz"
  obtains t where "lfs_bd_crc_buf p r hint block off sz crc s =
      Some (Val (Inr (), lfs_crc crc (take sz (drop off (view p s block)))), t)" "reloaded r s t"
proof -
  let ?v = "view p s block"
  define I where "I = (\<lambda>(i, c) t. reloaded r s t \<and> i \<le> sz \<and> c = lfs_crc crc (take i (drop off ?v)))"
  define Q where "Q = (\<lambda>z t. z = Val (Inr () :: error + unit, lfs_crc crc (take sz (drop off ?v))) \<and> reloaded r s t)"
  have "wp (lfs_bd_crc_buf p r hint block off sz crc) Q s"
    unfolding lfs_bd_crc_buf_def
  proof (rule wp_mloop [where I = I and \<mu> = "\<lambda>(i, c) _. sz - i"])
    show "I (0, crc) s" by (simp add: I_def reloaded_refl [OF ready])
    fix x t
    assume "I x t"
    then obtain i where x: "x = (i, lfs_crc crc (take i (drop off ?v)))" and rl: "reloaded r s t" and i: "i \<le> sz"
      by (cases x) (auto simp: I_def)
    note rt = reloaded_ready [OF ready rl]
    show "wp (lfs_bd_crc_body p r hint block off sz x) (\<lambda>z t'. case z of
          Val (Inl y) \<Rightarrow> I y t' \<and> (case y of (i, c) \<Rightarrow> \<lambda>_. sz - i) t' < (case x of (i, c) \<Rightarrow> \<lambda>_. sz - i) t
        | Val (Inr z) \<Rightarrow> Q (Val z) t' | Exc e \<Rightarrow> Q (Exc e) t' | Panic \<Rightarrow> Q Panic t') t"
    proof (cases "i < sz")
      case False
      with i rl show ?thesis by (simp add: x lfs_bd_crc_body_def run_simps Q_def)
    next
      case True
      define d where "d = min (sz - i) 8"
      have d: "0 < d" "d \<le> sz - i" using True by (simp_all add: d_def)
      have us: "usize_sub (unat hint) i = unat hint - i" using True hint by (simp add: usize_sub_def)
      obtain u where rd: "lfs_bd_read p r (unat hint - i) block (off + i) (replicate d 0) t
          = Some (Val (take d (drop (off + i) ?v)), u)" and ru: "reloaded r t u"
        by (rule bd_read_reloaded [OF rt(1), of "unat hint - i" "off + i" "replicate d 0"])
          (use True hint fits d in \<open>auto simp: rt(2)\<close>)
      have rdb: "bnd (attempt (lfs_bd_read p r (unat hint - i) block (off + i) (replicate d 0))) k t
          = k (Inr (take d (drop (off + i) ?v))) u" for k :: "_ \<Rightarrow> ('d, 'x) fs"
        by (rule bnd_run_Val, rule attempt_run_Val) (rule rd)
      have "lfs_crc (lfs_crc crc (take i (drop off ?v))) (take d (drop (off + i) ?v)) = lfs_crc crc (take (i + d) (drop off ?v))"
        by (simp add: take_add lfs_crc_append add.commute [of i off])
      with True d reloaded_trans [OF rl ru] show ?thesis
        by (auto simp: wp_def x lfs_bd_crc_body_def us d_def [symmetric] Let_def rdb ret_def I_def)
    qed
  qed
  then show ?thesis using that by (auto elim!: wpE simp: Q_def)
qed

subsection \<open>Flushing and programming\<close>

abbreviation erased where "erased \<equiv> erased_from blk bsz"
abbreviation clean where "clean \<equiv> pcache_clean blk bsz bcount"
abbreviation geometry where "geometry \<equiv> prog_geometry st dok bsz bcount"
abbreviation prog_ready where "prog_ready \<equiv> prog_ready_to st dok blk bsz bcount"

text \<open>The device and the program cache are all that changes.\<close>

definition progged :: "cache_ref \<Rightarrow> lfs_cache \<Rightarrow> bytes \<Rightarrow> 'd \<Rightarrow> 'd lfs \<Rightarrow> 'd lfs" where
  "progged p pc pb d s = (load p pc pb s)\<lparr>l_dev := d\<rparr>"

lemma view_empty:
  assumes "cache_of p s = Some pc" "cache_block pc = LFS_BLOCK_NULL" "bcount < 2 ^ 32 - 2" "unat c < bcount"
  shows "view (Some p) s c = blk (l_dev s) c"
proof -
  have "c \<noteq> LFS_BLOCK_NULL" using assms(3,4) unat_BLOCK_NULL by auto
  with assms show ?thesis by (simp add: view_of_def overlay_def pcached_def)
qed

lemma lfs_bd_flush_empty:
  assumes "cache_of p s = Some pc" "cache_block pc = LFS_BLOCK_NULL"
  shows "lfs_bd_flush p r v s = Some (Val (), s)"
  using assms by (simp add: lfs_bd_flush_def bnd_gets bnd_get_cache ret_def)

lemma bd_flush_run:
  assumes pc: "cache_of p s = Some pc" and pb: "pb = l_bufs s (cache_buffer pc)"
    and geo: "geometry pb s" and cl: "clean (unat (cfg_prog_size (l_cfg s))) (l_dev s) pc pb"
    and full: "cache_block pc \<noteq> LFS_BLOCK_NULL"
  obtains d where "lfs_bd_flush p r False s =
      Some (Val (), progged p (pc\<lparr>cache_block := LFS_BLOCK_NULL\<rparr>) (replicate (length pb) 0xff) d s)"
    "dok d" "\<And>c. unat c < bcount \<Longrightarrow> blk d c = view (Some p) s c"
proof -
  define ps where "ps = cfg_prog_size (l_cfg s)"
  define b where "b = cache_block pc"
  define n where "n = unat (lfs_alignup (word_of_nat (cache_size pc)) ps)"
  have att: "attached s" and few: "bcount < 2 ^ 32 - 2" and ps: "0 < unat ps" "ps \<noteq> 0" "unat ps dvd bsz" "unat ps dvd length pb"
    and len: "length pb < 2 ^ 31" using geo by (auto simp: prog_geometry_def ps_def unat_gt_0)
  have c: "unat b < bcount" "unat ps dvd cache_off pc" "cache_size pc \<le> length pb" "cache_off pc + cache_size pc \<le> bsz"
    "drop (cache_size pc) pb = replicate (length pb - cache_size pc) 0xff" "erased (l_dev s) b (cache_off pc)"
    using cl full by (auto simp: pcache_clean_def b_def ps_def)
  have wfd: "dok (l_dev s)" and small: "bsz < 2 ^ 30" and bc: "b < l_block_count s"
    using att c(1) by (auto simp: attached_to_def word_less_nat_alt)
  have lbl: "length (blk (l_dev s) b) = bsz" by (rule blk_length [OF wfd c(1)])
  have un: "unat (word_of_nat (cache_size pc) :: u32) = cache_size pc" using c(4) small by (simp add: unat_of_nat)
  have uo: "unat (word_of_nat (cache_off pc) :: u32) = cache_off pc" using c(4) small by (simp add: unat_of_nat)
  have psb: "unat ps \<le> bsz" "unat ps \<le> length pb"
    using ps c geo att by (auto simp: prog_geometry_def attached_to_def dest: dvd_imp_le)
  have fit: "unat (word_of_nat (cache_size pc) :: u32) + unat ps \<le> 2 ^ 32" using c(4) small psb by (simp add: un)
  have n0: "cache_size pc \<le> n" "n < cache_size pc + unat ps" "unat ps dvd n"
    using lfs_alignup_ge [OF ps(2) fit] lfs_alignup_lt [OF ps(2) fit] lfs_alignup_dvd [of ps] by (simp_all add: n_def un)
  have n: "n \<le> length pb" "cache_off pc + n \<le> bsz"
    using multiple_le [OF n0(3) ps(4)] multiple_le [of "unat ps" "cache_off pc + n" bsz] n0 c ps by auto
  define d1 where "d1 = take n pb"
  have d1: "d1 = take (cache_size pc) pb @ replicate (n - cache_size pc) 0xff" "length d1 = n"
  proof -
    have "take n pb = take (cache_size pc) pb @ take (n - cache_size pc) (drop (cache_size pc) pb)"
      using n0(1) take_add [of "cache_size pc" "n - cache_size pc" pb] by simp
    with n n0(1) show "d1 = take (cache_size pc) pb @ replicate (n - cache_size pc) 0xff" by (simp add: c(5) d1_def)
    show "length d1 = n" using n by (simp add: d1_def)
  qed
  obtain d where w: "st_write st b (word_of_nat (cache_off pc)) d1 (l_dev s) = (Inr (), d)" "dok d"
    and bd: "\<And>c'. unat c' < bcount \<Longrightarrow> blk d c' = (if c' = b then splice (blk (l_dev s) b) (cache_off pc) d1 else blk (l_dev s) c')"
    using write_law [OF wfd c(1), of "word_of_nat (cache_off pc)" d1] c(6) n by (auto simp: uo d1(2) erased_from_def)
  have dw: "bnd (dev_write b (word_of_nat (cache_off pc)) d1) k s = k () (s\<lparr>l_dev := d\<rparr>)" for k :: "_ \<Rightarrow> ('d, 'x) fs"
    by (rule bnd_run_Val) (use att w(1) in \<open>simp add: dev_write_def attached_to_def ret_def\<close>)
  have "splice (blk (l_dev s) b) (cache_off pc) d1 = splice (blk (l_dev s) b) (cache_off pc) (take (cache_size pc) pb)"
  proof -
    let ?v = "splice (blk (l_dev s) b) (cache_off pc) (take (cache_size pc) pb)"
    have "splice ?v (cache_off pc + cache_size pc) (replicate (n - cache_size pc) 0xff) = ?v"
      by (rule splice_same) (use c(3,4,6) n n0 lbl in \<open>auto simp: nth_splice erased_from_def\<close>)
    then show ?thesis
      using splice_splice [of "cache_off pc" "take (cache_size pc) pb" "blk (l_dev s) b" "replicate (n - cache_size pc) 0xff"]
        c(3,4) lbl by (simp add: d1(1) min_absorb2)
  qed
  then have v: "blk d c' = view (Some p) s c'" if "unat c' < bcount" for c'
    using bd [OF that] pc by (auto simp: view_of_def overlay_def pcached_def pb b_def)
  have nn: "b \<noteq> LFS_BLOCK_NULL" "b \<noteq> LFS_BLOCK_INLINE"
    using full c(1) few unat_BLOCK_INLINE by (auto simp: b_def)
  have pc': "cache_of p (s\<lparr>l_dev := d\<rparr>) = Some pc" using pc by simp
  have sw: "s\<lparr>l_bufs := f, l_dev := d\<rparr> = s\<lparr>l_dev := d, l_bufs := f\<rparr>" for f by simp
  have z: "lfs_cache_zero p (s\<lparr>l_dev := d\<rparr>)
      = Some (Val (), progged p (pc\<lparr>cache_block := LFS_BLOCK_NULL\<rparr>) (replicate (length pb) 0xff) d s)"
    by (simp add: lfs_cache_zero_def bnd_get_cache [OF pc'] bnd_get_buf bnd_put_buf pb progged_def load_def
        set_cache_dev sw upd_cache_run [of p _ pc] pc)
  have "lfs_bd_flush p r False s = lfs_cache_zero p (s\<lparr>l_dev := d\<rparr>)"
    using bc nn n by (simp add: lfs_bd_flush_def bnd_gets bnd_get_cache [OF pc] b_def [symmetric] ps_def [symmetric]
        alignup_m_run ps(2) n_def [symmetric] Let_def bnd_get_buf pb [symmetric] d1_def [symmetric] dw)
  with z show ?thesis using that [OF _ w(2) v] by simp
qed

lemma progged_simps [simp]:
  "l_cfg (progged p pc pb d s) = l_cfg s" "l_dev (progged p pc pb d s) = d"
  "l_block_count (progged p pc pb d s) = l_block_count s"
  "l_bufs (progged p pc pb d s) = (l_bufs s)(cache_buffer pc := pb)"
  by (simp_all add: progged_def)

lemma progged_cache_of: "cache_of p s \<noteq> None \<Longrightarrow> cache_of p (progged p pc pb d s) = Some pc"
  by (simp add: progged_def cache_of_load)

lemma progged_progged:
  "cache_buffer pc' = cache_buffer pc \<Longrightarrow> progged p pc' pb' d' (progged p pc pb d s) = progged p pc' pb' d' s"
  by (simp add: progged_def load_def set_cache_dev set_cache_bufs set_cache_set)

lemma progged_same:
  assumes "cache_of p s = Some pc"
  shows "progged p pc (l_bufs s (cache_buffer pc)) (l_dev s) s = s"
proof -
  have "(load p pc (l_bufs s (cache_buffer pc)) s)\<lparr>l_dev := l_dev s\<rparr> = load p pc (l_bufs s (cache_buffer pc)) s"
    unfolding load_same [OF assms] by simp
  then show ?thesis unfolding progged_def load_same [OF assms] by simp
qed

lemma progged_view: "cache_of p s \<noteq> None \<Longrightarrow>
    view (Some p) (progged p pc pb d s) c = overlay (Some (pc, pb)) c (blk d c)"
  by (simp add: view_of_def pcached_def progged_cache_of)

text \<open>Copying into the program cache is writing to the view of the block.\<close>

lemma overlay_copy:
  assumes c: "cache_size pc \<le> length pb" "cache_off pc + cache_size pc \<le> length bs"
      "drop (cache_size pc) pb = replicate (length pb - cache_size pc) 0xff"
    and er: "\<And>i. cache_off pc \<le> i \<Longrightarrow> i < length bs \<Longrightarrow> bs ! i = 0xff"
    and o: "cache_off pc \<le> off" "off - cache_off pc + length xs \<le> length pb" "off + length xs \<le> length bs"
    and n: "n = max (cache_size pc) (off + length xs - cache_off pc)"
  shows "splice bs (cache_off pc) (take n (splice pb (off - cache_off pc) xs))
    = splice (splice bs (cache_off pc) (take (cache_size pc) pb)) off xs"
    and "drop n (splice pb (off - cache_off pc) xs) = replicate (length pb - n) 0xff"
proof -
  have gap: "pb ! k = 0xff" if "cache_size pc \<le> k" "k < length pb" for k
  proof -
    have "pb ! k = drop (cache_size pc) pb ! (k - cache_size pc)" using that by simp
    also have "\<dots> = 0xff" unfolding c(3) using that by simp
    finally show ?thesis .
  qed
  have nl: "n \<le> length pb" "cache_off pc + n \<le> length bs" using c o by (auto simp: n)
  have ge: "cache_size pc \<le> n" "off + length xs - cache_off pc \<le> n"
    and eq: "n = cache_size pc \<or> n = off + length xs - cache_off pc" by (auto simp: n)
  show "splice bs (cache_off pc) (take n (splice pb (off - cache_off pc) xs))
    = splice (splice bs (cache_off pc) (take (cache_size pc) pb)) off xs"
  proof (rule nth_equalityI)
    fix i assume "i < length (splice bs (cache_off pc) (take n (splice pb (off - cache_off pc) xs)))"
    then have i: "i < length bs" using nl o by (simp add: min_absorb2)
    show "splice bs (cache_off pc) (take n (splice pb (off - cache_off pc) xs)) ! i
        = splice (splice bs (cache_off pc) (take (cache_size pc) pb)) off xs ! i"
      using i nl o c(1,2) gap [of "i - cache_off pc"] er [of i] ge eq
      by (auto simp: nth_splice min_absorb2 less_diff_conv2)
  qed (use nl o c in \<open>simp add: min_absorb2\<close>)
  show "drop n (splice pb (off - cache_off pc) xs) = replicate (length pb - n) 0xff"
    by (rule nth_equalityI) (use nl o gap ge in \<open>auto simp: nth_splice\<close>)
qed


text \<open>One iteration: the cache is opened on the block, or bytes are copied and a full cache flushed.\<close>

lemma prog_body_step:
  assumes ready: "prog_ready p block off s" and pc: "cache_of p s = Some pc"
    and data: "data \<noteq> []" and fits: "off + length data \<le> bsz"
  obtains k pc' pb' d where
    "lfs_bd_prog_body p r False block (off, data) s = Some (Val (Inl (off + k, drop k data)), progged p pc' pb' d s)"
    "k \<le> length data" "cache_buffer pc' = cache_buffer pc" "dok d"
    "prog_ready p block (off + k) (progged p pc' pb' d s)"
    "0 < k \<or> cache_block pc = LFS_BLOCK_NULL \<and> cache_block pc' \<noteq> LFS_BLOCK_NULL"
    "\<And>c. unat c < bcount \<Longrightarrow> view (Some p) (progged p pc' pb' d s) c =
      (if c = block then splice (view (Some p) s block) off (take k data) else view (Some p) s c)"
proof -
  define ps where "ps = cfg_prog_size (l_cfg s)"
  define pb where "pb = l_bufs s (cache_buffer pc)"
  have bl: "unat block < bcount" and geo: "geometry pb s" and cl: "clean (unat ps) (l_dev s) pc pb"
    and at: "if cache_block pc = LFS_BLOCK_NULL then erased (l_dev s) block (off - off mod unat ps)
      else cache_block pc = block \<and> cache_off pc \<le> off \<and> off < cache_off pc + length pb \<and> cache_size pc < length pb"
    using ready pc by (auto simp: prog_ready_to_def ps_def pb_def)
  have att: "attached s" and few: "bcount < 2 ^ 32 - 2" and ps: "0 < unat ps" "ps \<noteq> 0" "unat ps dvd bsz" "unat ps dvd length pb"
    and len: "0 < length pb" "length pb < 2 ^ 31" using geo by (auto simp: prog_geometry_def ps_def unat_gt_0)
  have wfd: "dok (l_dev s)" and small: "bsz < 2 ^ 30" using att by (auto simp: attached_to_def)
  have lbl: "length (blk (l_dev s) block) = bsz" by (rule blk_length [OF wfd bl])
  have bn: "block \<noteq> LFS_BLOCK_NULL" using bl few unat_BLOCK_NULL by auto
  have ready': "prog_ready p block off' (progged p pc' pb' d s)"
    if "length pb' = length pb" "dok d" "cache_buffer pc' = cache_buffer pc" "clean (unat ps) d pc' pb'"
      "if cache_block pc' = LFS_BLOCK_NULL then erased d block (off' - off' mod unat ps)
       else cache_block pc' = block \<and> cache_off pc' \<le> off' \<and> off' < cache_off pc' + length pb \<and> cache_size pc' < length pb"
    for off' pc' pb' d
  proof -
    have "cache_of p (progged p pc' pb' d s) = Some pc'" using pc by (intro progged_cache_of) simp
    moreover have "geometry pb' (progged p pc' pb' d s)"
      using geo that(1,2) by (auto simp: prog_geometry_def attached_to_def)
    ultimately show ?thesis using bl that by (simp add: prog_ready_to_def ps_def split: if_splits)
  qed
  show ?thesis
  proof (cases "cache_block pc = LFS_BLOCK_NULL")
    case True
    define start where "start = lfs_aligndown (word_of_nat off) ps"
    have uo: "unat (word_of_nat off :: u32) = off" using fits small by (simp add: unat_of_nat)
    have st: "unat start = off - off mod unat ps" by (simp add: start_def unat_lfs_aligndown uo)
    define pc' where "pc' = pc\<lparr>cache_block := block, cache_off := unat start, cache_size := 0\<rparr>"
    have run: "lfs_bd_prog_body p r False block (off, data) s = Some (Val (Inl (off, data)), progged p pc' pb (l_dev s) s)"
    proof -
      have "progged p pc' pb (l_dev s) s = set_cache p pc' s"
        using progged_same [OF pc] by (simp add: progged_def load_def pb_def pc'_def set_cache_dev set_cache_bufs)
      then show ?thesis using data True bn
        by (simp add: lfs_bd_prog_body_def bnd_gets bnd_get_cache [OF pc] bnd_get_buf aligndown_m_run ps(2)
            ps_def [symmetric] start_def [symmetric] bnd_upd_cache [OF pc] pc'_def [symmetric] ret_def)
    qed
    have pb0: "pb = replicate (length pb) 0xff" using cl True by (simp add: pcache_clean_def)
    have off: "unat start \<le> off" "off < unat start + unat ps" "unat ps dvd unat start"
      using lfs_aligndown_le [of "word_of_nat off" ps] lfs_aligndown_gt [OF ps(2), of "word_of_nat off"]
        lfs_aligndown_dvd [of ps] by (simp_all add: start_def uo)
    have er: "erased (l_dev s) block (unat start)" using at True by (simp add: st)
    have psl: "unat ps \<le> length pb" using ps len by (auto dest: dvd_imp_le)
    have cl': "clean (unat ps) (l_dev s) pc' pb"
      using bl off er pb0 fits bn by (simp add: pcache_clean_def pc'_def)
    show ?thesis
    proof (rule that [of 0 pc' pb "l_dev s"])
      show "prog_ready p block (off + 0) (progged p pc' pb (l_dev s) s)"
        by (rule ready') (use wfd cl' off psl len bn in \<open>auto simp: pc'_def\<close>)
      show "view (Some p) (progged p pc' pb (l_dev s) s) c
          = (if c = block then splice (view (Some p) s block) off (take 0 data) else view (Some p) s c)"
        if "unat c < bcount" for c
        using that pc True view_empty [OF pc True few] bl by (simp add: progged_view overlay_def pc'_def)
    qed (use run wfd True bn in \<open>auto simp: pc'_def\<close>)
  next
    case False
    then have at: "cache_block pc = block" "cache_off pc \<le> off" "off < cache_off pc + length pb" "cache_size pc < length pb"
      using at by simp_all
    have c: "unat ps dvd cache_off pc" "cache_off pc + cache_size pc \<le> bsz"
      "drop (cache_size pc) pb = replicate (length pb - cache_size pc) 0xff" "erased (l_dev s) block (cache_off pc)"
      using cl False at(1) by (auto simp: pcache_clean_def)
    define k where "k = min (length data) (length pb - (off - cache_off pc))"
    define n where "n = max (cache_size pc) (off + k - cache_off pc)"
    define pc1 where "pc1 = pc\<lparr>cache_size := n\<rparr>"
    define pb1 where "pb1 = splice pb (off - cache_off pc) (take k data)"
    have k: "0 < k" "k \<le> length data" "off - cache_off pc + k \<le> length pb" "off + k \<le> bsz"
      using data at fits by (auto simp: k_def)
    have lk: "length (take k data) = k" using k by simp
    have n: "n \<le> length pb" "cache_off pc + n \<le> bsz" using k at c by (auto simp: n_def)
    have lpb1: "length pb1 = length pb" using k by (simp add: pb1_def)
    note oc = overlay_copy [of pc pb "blk (l_dev s) block" off "take k data" n, unfolded lk lbl, folded pb1_def]
    have ov: "splice (blk (l_dev s) block) (cache_off pc) (take n pb1)
        = splice (splice (blk (l_dev s) block) (cache_off pc) (take (cache_size pc) pb)) off (take k data)"
      and dn: "drop n pb1 = replicate (length pb - n) 0xff"
      using oc c at k n_def by (auto simp: erased_from_def)
    have cl1: "clean (unat ps) (l_dev s) pc1 pb1"
      using False bl c n dn lpb1 at(1) by (simp add: pcache_clean_def pc1_def)
    define u where "u = progged p pc1 pb1 (l_dev s) s"
    have cu: "cache_of p u = Some pc1" using pc by (simp add: u_def progged_cache_of)
    have v0: "view (Some p) s c' = overlay (Some (pc, pb)) c' (blk (l_dev s) c')" for c'
      using pc by (simp add: view_of_def pcached_def pb_def)
    have vu: "view (Some p) u c' = (if c' = block then splice (view (Some p) s block) off (take k data) else view (Some p) s c')" for c'
      using pc ov at(1) v0 by (simp add: u_def progged_view overlay_def pc1_def)
    have st: "lfs_bd_prog_body p r False block (off, data) s
        = bnd (if n = length pb then lfs_bd_flush p r False else ret ()) (\<lambda>_. ret (Inl (off + k, drop k data))) u"
    proof -
      have pc2: "cache_of p (s\<lparr>l_bufs := (l_bufs s)(cache_buffer pc := pb1)\<rparr>) = Some pc" using pc by simp
      have "set_cache p pc1 (s\<lparr>l_bufs := (l_bufs s)(cache_buffer pc := pb1)\<rparr>) = u"
        by (simp add: u_def progged_def load_def set_cache_dev pc1_def)
      with data at k show ?thesis
        by (simp del: diff_diff_right add: lfs_bd_prog_body_def bnd_gets bnd_get_cache [OF pc] bnd_get_buf pb_def [symmetric] Let_def
            k_def [symmetric] n_def [symmetric] pb1_def [symmetric] bnd_put_buf bnd_upd_cache [OF pc2] pc1_def [symmetric])
    qed
    show ?thesis
    proof (cases "n = length pb")
      case full: True
      have gu: "geometry pb1 u" using geo lpb1 wfd by (auto simp: u_def prog_geometry_def attached_to_def)
      obtain d where fl: "lfs_bd_flush p r False u = Some (Val (),
            progged p (pc1\<lparr>cache_block := LFS_BLOCK_NULL\<rparr>) (replicate (length pb1) 0xff) d u)"
          and d: "dok d" "\<And>c. unat c < bcount \<Longrightarrow> blk d c = view (Some p) u c"
        by (rule bd_flush_run [OF cu _ gu, of r]) (use cl1 at(1) bn in \<open>auto simp: u_def pc1_def ps_def\<close>)
      define pc2 where "pc2 = pc1\<lparr>cache_block := LFS_BLOCK_NULL\<rparr>"
      have pp: "progged p pc2 (replicate (length pb) 0xff) d u = progged p pc2 (replicate (length pb) 0xff) d s"
        unfolding u_def by (rule progged_progged) (simp add: pc2_def)
      have flb: "bnd (lfs_bd_flush p r False) kk u = kk () (progged p pc2 (replicate (length pb) 0xff) d s)" for kk :: "_ \<Rightarrow> ('d, 'x) fs"
        by (rule bnd_run_Val) (use fl pp in \<open>simp add: pc2_def lpb1\<close>)
      have offk: "off + k = cache_off pc + length pb" using full at k by (auto simp: n_def max_def split: if_splits)
      have vb: "blk d block = splice (blk (l_dev s) block) (cache_off pc) (take n pb1)"
        using d(2) [OF bl] pc by (simp add: u_def progged_view overlay_def pc1_def at(1))
      have erd: "erased d block (off + k)"
        using c(4) n lpb1 lbl offk full by (auto simp: erased_from_def vb nth_splice min_absorb2)
      have al: "(off + k) mod unat ps = 0" unfolding offk using c(1) ps(4) by (simp flip: dvd_eq_mod_eq_0)
      show ?thesis
      proof (rule that [of k pc2 "replicate (length pb) 0xff" d])
        show "prog_ready p block (off + k) (progged p pc2 (replicate (length pb) 0xff) d s)"
          by (rule ready') (use d erd al in \<open>auto simp: pc2_def pc1_def pcache_clean_def\<close>)
        show "view (Some p) (progged p pc2 (replicate (length pb) 0xff) d s) c
            = (if c = block then splice (view (Some p) s block) off (take k data) else view (Some p) s c)"
          if cb: "unat c < bcount" for c
        proof -
          have "cache_of p (progged p pc2 (replicate (length pb) 0xff) d s) = Some pc2"
            using pc by (simp add: progged_cache_of)
          from view_empty [OF this _ few cb] have "view (Some p) (progged p pc2 (replicate (length pb) 0xff) d s) c = blk d c"
            by (simp add: pc2_def)
          then show ?thesis by (simp add: d(2) [OF cb] vu)
        qed
        show "lfs_bd_prog_body p r False block (off, data) s
            = Some (Val (Inl (off + k, drop k data)), progged p pc2 (replicate (length pb) 0xff) d s)"
          by (simp add: st full flb ret_def)
      qed (use k d in \<open>auto simp: pc2_def pc1_def\<close>)
    next
      case nf: False
      show ?thesis
      proof (rule that [of k pc1 pb1 "l_dev s"])
        show "prog_ready p block (off + k) (progged p pc1 pb1 (l_dev s) s)"
          by (rule ready') (use wfd cl1 lpb1 at nf n bn k in \<open>auto simp: pc1_def n_def\<close>)
        show "lfs_bd_prog_body p r False block (off, data) s = Some (Val (Inl (off + k, drop k data)), progged p pc1 pb1 (l_dev s) s)"
          using st nf by (simp add: ret_def u_def)
      qed (use k wfd vu in \<open>auto simp: pc1_def u_def\<close>)
    qed
  qed
qed

lemma prog_ready_view:
  assumes "prog_ready p block off s"
  shows "length (view (Some p) s block) = bsz"
proof -
  obtain pc where pc: "cache_of p s = Some pc" "clean (unat (cfg_prog_size (l_cfg s))) (l_dev s) pc (l_bufs s (cache_buffer pc))"
    and bl: "unat block < bcount" "bcount < 2 ^ 32 - 2" "dok (l_dev s)"
    using assms by (auto simp: prog_ready_to_def prog_geometry_def attached_to_def)
  moreover have "length (blk (l_dev s) block) = bsz" by (rule blk_length [OF bl(3,1)])
  moreover have "block \<noteq> LFS_BLOCK_NULL" using bl unat_BLOCK_NULL by auto
  ultimately show ?thesis by (auto simp: view_of_def overlay_def pcached_def pcache_clean_def split: if_splits)
qed

theorem bd_prog_correct:
  assumes ready: "prog_ready p block off s" and pc: "cache_of p s = Some pc" and fits: "off + length data \<le> bsz"
  obtains pc' pb' d where
    "lfs_bd_prog p r False block off data s = Some (Val (), progged p pc' pb' d s)"
    "cache_buffer pc' = cache_buffer pc" "dok d"
    "prog_ready p block (off + length data) (progged p pc' pb' d s)"
    "\<And>c. unat c < bcount \<Longrightarrow> view (Some p) (progged p pc' pb' d s) c =
      (if c = block then splice (view (Some p) s block) off data else view (Some p) s c)"
proof -
  have att: "attached s" and bl: "unat block < bcount" and wfd: "dok (l_dev s)"
    using ready by (auto simp: prog_ready_to_def prog_geometry_def attached_to_def)
  define I where "I = (\<lambda>(o', rest) t. \<exists>pc' pb' d. t = progged p pc' pb' d s \<and> cache_buffer pc' = cache_buffer pc
      \<and> dok d \<and> prog_ready p block o' t \<and> off \<le> o' \<and> o' + length rest = off + length data \<and> rest = drop (o' - off) data
      \<and> (\<forall>c. unat c < bcount \<longrightarrow> view (Some p) t c =
          (if c = block then splice (view (Some p) s block) off (take (o' - off) data) else view (Some p) s c)))"
  define mu where "mu = (\<lambda>(o' :: nat, rest :: bytes) (t :: 'd lfs). 2 * length rest +
      (if cache_block (the (cache_of p t)) = LFS_BLOCK_NULL then 1 else 0 :: nat))"
  define Q where "Q = (\<lambda>z t. z = Val () \<and> I (off + length data, []) t)"
  have "wp (mloop (lfs_bd_prog_body p r False block) (off, data)) Q s"
  proof (rule wp_mloop [where I = I and \<mu> = mu])
    show "I (off, data) s"
      unfolding I_def prod.case using ready pc wfd progged_same [OF pc]
      by (intro exI [of _ pc] exI [of _ "l_bufs s (cache_buffer pc)"] exI [of _ "l_dev s"]) auto
    fix x t
    assume "I x t"
    then obtain o' pc1 pb1 d1 where x: "x = (o', drop (o' - off) data)" and t: "t = progged p pc1 pb1 d1 s"
      and c1: "cache_buffer pc1 = cache_buffer pc" and rt: "prog_ready p block o' t"
      and o': "off \<le> o'" "o' + length (drop (o' - off) data) = off + length data"
      and v: "\<And>c. unat c < bcount \<Longrightarrow> view (Some p) t c =
          (if c = block then splice (view (Some p) s block) off (take (o' - off) data) else view (Some p) s c)"
      by (cases x) (auto simp: I_def)
    have ct: "cache_of p t = Some pc1" using pc by (simp add: t progged_cache_of)
    show "wp (lfs_bd_prog_body p r False block x) (\<lambda>z t'. case z of
          Val (Inl y) \<Rightarrow> I y t' \<and> mu y t' < mu x t
        | Val (Inr z) \<Rightarrow> Q (Val z) t' | Exc e \<Rightarrow> Q (Exc e) t' | Panic \<Rightarrow> Q Panic t') t"
    proof (cases "drop (o' - off) data = []")
      case True
      with o' have "o' = off + length data" by simp
      with True \<open>I x t\<close> show ?thesis by (simp add: x lfs_bd_prog_body_def run_simps Q_def)
    next
      case False
      have fits': "o' + length (drop (o' - off) data) \<le> bsz" using o' fits by linarith
      obtain k pc2 pb2 d2 where st:
        "lfs_bd_prog_body p r False block (o', drop (o' - off) data) t
          = Some (Val (Inl (o' + k, drop k (drop (o' - off) data))), progged p pc2 pb2 d2 t)"
        and k: "k \<le> length (drop (o' - off) data)" and c2: "cache_buffer pc2 = cache_buffer pc1" "dok d2"
        and r2: "prog_ready p block (o' + k) (progged p pc2 pb2 d2 t)"
        and pr: "0 < k \<or> cache_block pc1 = LFS_BLOCK_NULL \<and> cache_block pc2 \<noteq> LFS_BLOCK_NULL"
        and v2: "\<And>c. unat c < bcount \<Longrightarrow> view (Some p) (progged p pc2 pb2 d2 t) c =
          (if c = block then splice (view (Some p) t block) o' (take k (drop (o' - off) data)) else view (Some p) t c)"
        by (rule prog_body_step [OF rt ct False fits', of r]) blast
      have t2: "progged p pc2 pb2 d2 t = progged p pc2 pb2 d2 s" unfolding t by (rule progged_progged) (rule c2(1))
      have lv: "length (view (Some p) s block) = bsz" by (rule prog_ready_view [OF ready])
      have lt: "length (take (o' - off) data) = o' - off" using o' by simp
      have sp: "splice (splice (view (Some p) s block) off (take (o' - off) data)) o' (take k (drop (o' - off) data))
          = splice (view (Some p) s block) off (take (o' + k - off) data)"
        using splice_splice [of off "take (o' - off) data" "view (Some p) s block" "take k (drop (o' - off) data)"]
          o' fits lv lt by (simp add: take_add [symmetric])
      have "I (o' + k, drop (o' + k - off) data) (progged p pc2 pb2 d2 s)"
        unfolding I_def prod.case using c1 c2 r2 o' k v v2 bl
        by (intro exI [of _ pc2] exI [of _ pb2] exI [of _ d2]) (auto simp: t2 sp)
      moreover have "mu (o' + k, drop (o' + k - off) data) (progged p pc2 pb2 d2 s) < mu x t"
        using k pr pc o' by (auto simp: mu_def x ct progged_cache_of)
      moreover have "drop k (drop (o' - off) data) = drop (o' + k - off) data" using o' by (simp add: add.commute)
      ultimately show ?thesis by (simp add: wp_def x st t2)
    qed
  qed
  moreover have "lfs_bd_prog p r False block off data s = mloop (lfs_bd_prog_body p r False block) (off, data) s"
    using att bl fits by (auto simp: lfs_bd_prog_def bnd_gets attached_to_def word_less_nat_alt)
  ultimately show ?thesis using that by (auto simp: wp_def Q_def I_def split: option.splits)
qed

text \<open>Synchronising writes the view to the device and leaves both caches empty.\<close>

theorem bd_sync_correct:
  assumes pc: "cache_of p s = Some pc" and rc: "cache_of r s = Some rc" and ne: "p \<noteq> r"
    and pb: "pb = l_bufs s (cache_buffer pc)"
    and geo: "geometry pb s" and cl: "clean (unat (cfg_prog_size (l_cfg s))) (l_dev s) pc pb"
  obtains pc' pb' d where
    "lfs_bd_sync p r False s =
      Some (Val (), progged p pc' pb' d (set_cache r (rc\<lparr>cache_block := LFS_BLOCK_NULL\<rparr>) s))"
    "cache_buffer pc' = cache_buffer pc" "length pb' = length pb" "cache_block pc' = LFS_BLOCK_NULL"
    "pb' = replicate (length pb) 0xff" "dok d" "\<And>c. unat c < bcount \<Longrightarrow> blk d c = view (Some p) s c"
proof -
  define u where "u = set_cache r (rc\<lparr>cache_block := LFS_BLOCK_NULL\<rparr>) s"
  have att: "attached s" and few: "bcount < 2 ^ 32 - 2" using geo by (auto simp: prog_geometry_def)
  have wfd: "dok (l_dev s)" using att by (auto simp: attached_to_def)
  have cu: "cache_of p u = Some pc" using pc ne by (simp add: u_def cache_of_set_other)
  have su: "l_dev u = l_dev s" "l_cfg u = l_cfg s" "l_bufs u = l_bufs s" "l_block_count u = l_block_count s"
    by (simp_all add: u_def)
  have vu: "view (Some p) u c = view (Some p) s c" for c
    using pc cu by (simp add: view_of_def pcached_def su)
  have drop: "bnd (lfs_cache_drop r) k s = k () u" for k :: "_ \<Rightarrow> ('d, 'x) fs"
    unfolding lfs_cache_drop_def u_def by (rule bnd_upd_cache [OF rc])
  obtain pc' pb' d where fl: "lfs_bd_flush p r False u = Some (Val (), progged p pc' pb' d u)"
    and post: "cache_buffer pc' = cache_buffer pc" "length pb' = length pb" "cache_block pc' = LFS_BLOCK_NULL"
      "pb' = replicate (length pb) 0xff" "dok d" "\<And>c. unat c < bcount \<Longrightarrow> blk d c = view (Some p) s c"
  proof (cases "cache_block pc = LFS_BLOCK_NULL")
    case True
    show ?thesis
      by (rule that [of pc pb "l_dev s"])
        (use True wfd cl pc few in \<open>auto simp: lfs_bd_flush_empty [OF cu] progged_same [OF cu, unfolded su, folded pb]
           pcache_clean_def view_empty\<close>)
  next
    case False
    have g: "geometry pb u" using geo by (simp add: prog_geometry_def attached_to_def su)
    show ?thesis
      by (rule bd_flush_run [OF cu _ g, of r]) (use that pb cl False vu in \<open>auto simp: su\<close>)
  qed
  have flb: "bnd (lfs_bd_flush p r False) k u = k () (progged p pc' pb' d u)" for k :: "_ \<Rightarrow> ('d, 'x) fs"
    by (rule bnd_run_Val) (rule fl)
  obtain d' where sy: "st_sync st d = (Inr (), d')" "dok d'" "\<And>c. unat c < bcount \<Longrightarrow> blk d' c = blk d c"
    using sync_law [OF post(5)] by auto
  have "lfs_bd_sync p r False s = Some (Val (), progged p pc' pb' d' u)"
    using sy att by (simp add: lfs_bd_sync_def drop flb dev_sync_def su attached_to_def ret_def)
      (simp add: progged_def)
  then show ?thesis using that [of pc' pb' d'] post sy unfolding u_def by simp
qed

end

end
