(* ===== verification/Log.thy ===== *)
theory Log
  imports BdOps Commit1
begin

text \<open>
  The metadata log, abstractly: a list of tagged entries, newest first.  \<open>log_rep\<close> says that
  the bytes of a block hold such a list, \<open>log_find\<close> is the lookup on the list.  Looking a tag
  up with \<open>lfs_dir_getslice\<close> is \<open>log_find\<close>, appending with \<open>lfs_dir_commitattr\<close> is \<open>Cons\<close>.
\<close>

type_synonym log_entry = "u32 \<times> bytes"

text \<open>
  \<open>off\<close> is where the log ends, \<open>etag\<close> the tag of its last entry.  The first entry follows the
  revision count; before it stands, as it were, the tag of all ones.
\<close>

fun log_rep :: "bytes \<Rightarrow> nat \<Rightarrow> u32 \<Rightarrow> log_entry list \<Rightarrow> bool" where
  "log_rep bs off etag [] \<longleftrightarrow> off = 4 \<and> etag = 0x7fffffff"
| "log_rep bs off etag ((tag, data) # es) \<longleftrightarrow> etag = tag \<and> lfs_tag_isvalid tag
     \<and> 4 + unat (lfs_tag_dsize tag) \<le> off \<and> length data = unat (lfs_tag_dsize tag) - 4
     \<and> take (length data) (drop (off - length data) bs) = data
     \<and> log_rep bs (off - unat (lfs_tag_dsize tag))
         ((u32_from_be (take 4 (drop (off - unat (lfs_tag_dsize tag)) bs)) XOR tag) AND 0x7fffffff) es"

text \<open>Ids above a created or deleted entry were others before; \<open>gdiff\<close> is what they differ by.\<close>

definition splices_here :: "u32 \<Rightarrow> u32 \<Rightarrow> u32 \<Rightarrow> u32 \<Rightarrow> bool" where
  "splices_here gmask gtag gdiff tag \<longleftrightarrow> lfs_tag_id gmask \<noteq> 0 \<and> lfs_tag_type1 tag = LFS_TYPE_SPLICE
     \<and> lfs_tag_id tag \<le> lfs_tag_id (gtag - gdiff)"

fun log_find :: "u32 \<Rightarrow> u32 \<Rightarrow> u32 \<Rightarrow> log_entry list \<Rightarrow> error + log_entry" where
  "log_find gmask gtag gdiff [] = Inl NoEntry"
| "log_find gmask gtag gdiff ((tag, data) # es) =
    (let here = splices_here gmask gtag gdiff tag in
     if here \<and> tag = (lfs_mktag LFS_TYPE_CREATE 0 0 OR (lfs_mktag 0 0x3ff 0 AND (gtag - gdiff)))
     then Inl NoEntry
     else
     let gdiff = (if here then gdiff + lfs_mktag 0 (word_of_int (lfs_tag_splice tag)) 0 else gdiff) in
     if gmask AND tag = gmask AND (gtag - gdiff)
     then if lfs_tag_isdelete tag then Inl NoEntry else Inr (tag + gdiff, data)
     else log_find gmask gtag gdiff es)"

text \<open>What a lookup leaves in the caller's buffer.\<close>

definition filled :: "bytes \<Rightarrow> bytes \<Rightarrow> bytes" where
  "filled buf data = take (length buf) data @ replicate (length buf - length data) 0"

definition slice_result :: "bytes \<Rightarrow> error + log_entry \<Rightarrow> (error + u32) \<times> bytes" where
  "slice_result buf r = (case r of Inl e \<Rightarrow> (Inl e, buf) | Inr (tag, data) \<Rightarrow> (Inr tag, filled buf data))"

text \<open>The shift that an entry moved away from this pair causes.\<close>

definition move_shift :: "lfs_gstate \<Rightarrow> pair \<Rightarrow> u32 \<Rightarrow> u32 \<Rightarrow> u32" where
  "move_shift g pr gmask gtag =
    (if lfs_gstate_hasmovehere g pr \<and> lfs_tag_id gmask \<noteq> 0 \<and> lfs_tag_id (gs_tag g) < lfs_tag_id gtag
     then 0 - lfs_mktag 0 1 0 else 0)"

definition moved_away :: "lfs_gstate \<Rightarrow> pair \<Rightarrow> u32 \<Rightarrow> u32 \<Rightarrow> bool" where
  "moved_away g pr gmask gtag \<longleftrightarrow> lfs_gstate_hasmovehere g pr \<and> lfs_tag_id gmask \<noteq> 0
    \<and> lfs_tag_id (gs_tag g) = lfs_tag_id gtag"

text \<open>What an entry is on the disk: its tag, as the difference to the tag before, and its data.\<close>

definition entry_bytes :: "u32 \<Rightarrow> u32 \<Rightarrow> bytes \<Rightarrow> bytes" where
  "entry_bytes ptag tag data = u32_to_be ((tag AND 0x7fffffff) XOR ptag) @ data"

lemma log_rep_end: "log_rep bs off etag es \<Longrightarrow> 4 \<le> off"
  by (cases es) auto

lemma unat_dsize: "unat (lfs_tag_dsize tag) = 4 + unat (if lfs_tag_isdelete tag then lfs_tag_size (tag + 1) else lfs_tag_size tag)"
  using lfs_tag_size_less [of tag] lfs_tag_size_less [of "tag + 1"]
  by (simp add: lfs_tag_dsize_def unat_word_ariths)

lemma unat_4_dsize: "unat (4 + lfs_tag_dsize tag) = 4 + unat (lfs_tag_dsize tag)" "4 \<le> unat (lfs_tag_dsize tag)"
    "unat (lfs_tag_dsize tag) < 2 ^ 11"
  using lfs_tag_size_less [of tag] lfs_tag_size_less [of "tag + 1"]
  by (simp_all add: unat_dsize unat_word_ariths)

lemma log_rep_cong:
  "log_rep bs off etag es \<Longrightarrow> take off bs' = take off bs \<Longrightarrow> log_rep bs' off etag es"
proof (induction bs off etag es rule: log_rep.induct)
  case (2 bs off etag tag data es)
  let ?n = "unat (lfs_tag_dsize tag)"
  have n: "4 \<le> ?n" "4 + ?n \<le> off" "length data = ?n - 4" using 2(2) unat_4_dsize(2) by auto
  have same: "take k (drop j bs') = take k (drop j bs)" if "j + k \<le> off" for j k
  proof -
    have "k \<le> off - j" using that by simp
    with arg_cong [OF 2(3), of "\<lambda>x. take k (drop j x)"] show ?thesis by (simp add: drop_take min_absorb1)
  qed
  have "take (off - ?n) bs' = take (off - ?n) bs"
    using arg_cong [OF 2(3), of "take (off - ?n)"] by (simp add: min_def)
  with 2 n show ?case by (auto simp: same)
qed simp

context block_device
begin

text \<open>Reading nothing reads nothing.\<close>

lemma bd_read_buf_nil:
  assumes "read_ready p r block s" "off \<le> bsz"
  shows "lfs_bd_read_buf p r hint block off [] s = Some (Val (Inr (), []), s)"
proof -
  have "mloop (lfs_bd_read_body p r hint block) (off, [], []) s = Some (Val (Inr (), []), s)"
    by (subst mloop_unfold) (simp add: lfs_bd_read_body_def ret_def)
  with assms show ?thesis
    by (auto simp: lfs_bd_read_buf_def bnd_gets read_ready_to_def attached_to_def word_le_nat_alt)
qed

lemma bd_read_buf_reloaded:
  assumes "read_ready p r block s" "hint = length buf" "hint \<le> 2 ^ 31" "off + length buf \<le> bsz"
  obtains t where "lfs_bd_read_buf p r hint block off buf s = Some (Val (Inr (), take (length buf) (drop off (view p s block))), t)"
    "reloaded r s t"
proof (cases "buf = []")
  case True
  with assms that [of s] show ?thesis by (simp add: bd_read_buf_nil reloaded_refl)
next
  case False
  obtain c where c: "cache_of r s = Some c" using assms(1) by (auto simp: read_ready_to_def)
  show ?thesis
    by (rule bd_read_buf_correct [OF assms(1) c, of hint off buf])
      (use assms False that c in \<open>auto simp: reloaded_def\<close>)
qed

lemma getslice_loop:
  assumes "log_rep (view None s (fst (md_pair dir))) (unat off) etag es" "unat off \<le> bsz"
    and "read_ready None RCache (fst (md_pair dir)) s"
  obtains t where "mloop (lfs_dir_getslice_body dir gmask gtag 0 buf) (off, etag, gdiff) s
      = Some (Val (slice_result buf (log_find gmask gtag gdiff es)), t)" "reloaded RCache s t"
  using assms
proof (induction es arbitrary: off etag gdiff s thesis)
  case Nil
  have "\<not> off \<ge> 4 + lfs_tag_dsize etag"
    using Nil.prems(2) unat_4_dsize [of etag] by (auto simp: word_le_nat_alt)
  then have "mloop (lfs_dir_getslice_body dir gmask gtag 0 buf) (off, etag, gdiff) s = Some (Val (Inl NoEntry, buf), s)"
    by (subst mloop_unfold) (simp add: lfs_dir_getslice_body_def ret_def)
  with Nil.prems(1) [of s] Nil.prems(4) show ?case by (simp add: slice_result_def reloaded_refl)
next
  case (Cons e es)
  obtain tag data where e: "e = (tag, data)" by (cases e)
  let ?n = "lfs_tag_dsize tag" and ?v = "view None s (fst (md_pair dir))"
  have et: "etag = tag" and fits: "4 + unat ?n \<le> unat off" and ld: "length data = unat ?n - 4"
    and data: "take (length data) (drop (unat off - length data) ?v) = data"
    using Cons.prems(2) by (auto simp: e)
  define ptag where "ptag = (u32_from_be (take 4 (drop (unat off - unat ?n) ?v)) XOR tag) AND 0x7fffffff"
  have rest: "log_rep ?v (unat off - unat ?n) ptag es" using Cons.prems(2) by (simp add: e ptag_def)
  have le: "off \<ge> 4 + ?n" using fits unat_4_dsize [of tag] by (simp add: word_le_nat_alt)
  have uo: "unat (off - ?n) = unat off - unat ?n" using fits by (subst unat_sub) (simp_all add: word_le_nat_alt)
  have small: "bsz < 2 ^ 30" using Cons.prems(4) by (auto simp: read_ready_to_def attached_to_def)
  obtain u where rd: "lfs_bd_read None RCache 4 (fst (md_pair dir)) (unat (off - ?n)) (replicate 4 0) s
      = Some (Val (take 4 (drop (unat off - unat ?n) ?v)), u)" and ru: "reloaded RCache s u"
    by (rule bd_read_reloaded [OF Cons.prems(4), of 4 "unat (off - ?n)" "replicate 4 0"])
      (use fits Cons.prems(3) unat_4_dsize(2) [of tag] in \<open>auto simp: uo\<close>)
  have rdb: "bnd (attempt (lfs_bd_read None RCache 4 (fst (md_pair dir)) (unat (off - ?n)) (replicate 4 0))) k s
      = k (Inr (take 4 (drop (unat off - unat ?n) ?v))) u" for k :: "_ \<Rightarrow> ('d, 'x) fs"
    by (rule bnd_run_Val, rule attempt_run_Val) (rule rd)
  note ready = reloaded_ready [OF Cons.prems(4) ru]
  define gd where "gd = (if splices_here gmask gtag gdiff tag
    then gdiff + lfs_mktag 0 (word_of_int (lfs_tag_splice tag)) 0 else gdiff)"
  define cr where "cr \<longleftrightarrow> splices_here gmask gtag gdiff tag
    \<and> tag = (lfs_mktag LFS_TYPE_CREATE 0 0 OR (lfs_mktag 0 0x3ff 0 AND (gtag - gdiff)))"
  note folds = cr_def [symmetric] gd_def [symmetric]
  note body = lfs_dir_getslice_body_def et le rdb splices_here_def [symmetric] ptag_def [symmetric] folds
  consider (created) cr | (deleted) "\<not> cr" "gmask AND tag = gmask AND (gtag - gd)" "lfs_tag_isdelete tag"
    | (found) "\<not> cr" "gmask AND tag = gmask AND (gtag - gd)" "\<not> lfs_tag_isdelete tag"
    | (older) "\<not> cr" "gmask AND tag \<noteq> gmask AND (gtag - gd)"
    by blast
  then show ?case
  proof cases
    case created
    then have "mloop (lfs_dir_getslice_body dir gmask gtag 0 buf) (off, etag, gdiff) s = Some (Val (Inl NoEntry, buf), u)"
      by (subst mloop_unfold) (simp add: body Let_def ret_def)
    with created Cons.prems(1) [of u] ru show ?thesis by (simp add: e slice_result_def folds Let_def)
  next
    case deleted
    then have "mloop (lfs_dir_getslice_body dir gmask gtag 0 buf) (off, etag, gdiff) s = Some (Val (Inl NoEntry, buf), u)"
      by (subst mloop_unfold) (simp add: body Let_def ret_def)
    with deleted Cons.prems(1) [of u] ru show ?thesis
      by (simp add: e slice_result_def folds Let_def)
  next
    case found
    have sz: "unat (lfs_tag_size tag) = length data" using ld found(3) by (simp add: unat_dsize)
    define diff where "diff = min (length data) (length buf)"
    have offd: "unat off - length data = unat (off - ?n) + 4" using fits ld unat_4_dsize(2) [of tag] by (simp add: uo)
    obtain w where rd2: "lfs_bd_read_buf None RCache diff (fst (md_pair dir)) (unat (off - ?n) + 4 + 0) (take diff buf) u
        = Some (Val (Inr (), take diff (drop (unat (off - ?n) + 4) ?v)), w)" and rw: "reloaded RCache u w"
      by (rule bd_read_buf_reloaded [OF ready(1), of diff "take diff buf" "unat (off - ?n) + 4 + 0"])
        (use fits ld Cons.prems(3) unat_4_dsize [of tag] small in \<open>auto simp: uo diff_def ready(2) min_absorb2\<close>)
    have rdb2: "bnd (lfs_bd_read_buf None RCache diff (fst (md_pair dir)) (unat (off - ?n) + 4 + 0) (take diff buf)) k u
        = k (Inr (), take diff (drop (unat (off - ?n) + 4) ?v)) w" for k :: "_ \<Rightarrow> ('d, 'x) fs"
      by (rule bnd_run_Val) (rule rd2)
    have td: "take diff (drop (unat (off - ?n) + 4) ?v) = take diff data"
    proof -
      have "diff \<le> length data" by (simp add: diff_def)
      with arg_cong [OF data, of "take diff"] show ?thesis by (simp add: offd min_absorb1)
    qed
    have "mloop (lfs_dir_getslice_body dir gmask gtag 0 buf) (off, etag, gdiff) s
        = Some (Val (Inr (tag + gd), take diff data @ replicate (length buf - diff) 0), w)"
      using found
      by (subst mloop_unfold) (simp add: body Let_def ret_def sz diff_def [symmetric] rdb2 [simplified] td)
    moreover have "take diff data @ replicate (length buf - diff) 0 = filled buf data"
      by (simp add: filled_def diff_def min_def)
    moreover have "log_find gmask gtag gdiff (e # es) = Inr (tag + gd, data)"
      using found by (simp add: e folds Let_def)
    ultimately show ?thesis using Cons.prems(1) [of w] reloaded_trans [OF ru rw] by (simp add: slice_result_def)
  next
    case older
    have st: "mloop (lfs_dir_getslice_body dir gmask gtag 0 buf) (off, etag, gdiff) s
        = mloop (lfs_dir_getslice_body dir gmask gtag 0 buf) (off - ?n, ptag, gd) u"
      using older by (subst mloop_unfold) (simp add: body Let_def ret_def)
    obtain w where "mloop (lfs_dir_getslice_body dir gmask gtag 0 buf) (off - ?n, ptag, gd) u
        = Some (Val (slice_result buf (log_find gmask gtag gd es)), w)" "reloaded RCache u w"
      by (rule Cons.IH [where s = u and off = "off - ?n" and etag = ptag and gdiff = gd]) (use rest ready Cons.prems(3) in \<open>auto simp: uo\<close>)
    moreover have "log_find gmask gtag gdiff (e # es) = log_find gmask gtag gd es"
      using older by (simp add: e folds Let_def)
    ultimately show ?thesis using Cons.prems(1) [of w] reloaded_trans [OF ru] st by simp
  qed
qed

theorem dir_get_correct:
  assumes "log_rep (view None s (fst (md_pair dir))) (unat (md_off dir)) (md_etag dir) es"
    and "unat (md_off dir) \<le> bsz" "read_ready None RCache (fst (md_pair dir)) s"
    and n: "n = unat (lfs_tag_size gtag)" "n \<le> length buf"
    and res: "r = slice_result (take n buf) (if moved_away (l_gdisk s) (md_pair dir) gmask gtag then Inl NoEntry
      else log_find gmask gtag (move_shift (l_gdisk s) (md_pair dir) gmask gtag) es)"
  obtains t where "lfs_dir_get_buf dir gmask gtag buf s = Some (Val (fst r, snd r @ drop n buf), t)" "reloaded RCache s t"
proof -
  let ?g = "move_shift (l_gdisk s) (md_pair dir) gmask gtag"
  obtain t where lp: "mloop (lfs_dir_getslice_body dir gmask gtag 0 (take n buf)) (md_off dir, md_etag dir, ?g) s
      = Some (Val (slice_result (take n buf) (log_find gmask gtag ?g es)), t)" and rt: "reloaded RCache s t"
    by (rule getslice_loop [OF assms(1-3)])
  define u where "u = (if moved_away (l_gdisk s) (md_pair dir) gmask gtag then s else t)"
  have "lfs_dir_getslice_buf dir gmask gtag 0 (take n buf) s = Some (Val r, u)"
    using lp by (auto simp: lfs_dir_getslice_buf_def bnd_gets Let_def res moved_away_def move_shift_def u_def
        slice_result_def ret_def)
  then have sl: "bnd (lfs_dir_getslice_buf dir gmask gtag 0 (take n buf)) k s = k r u" for k :: "_ \<Rightarrow> ('d, 'x) fs"
    by (rule bnd_run_Val)
  have "lfs_dir_get_buf dir gmask gtag buf s = Some (Val (fst r, snd r @ drop n buf), u)"
    using n(2) by (simp add: lfs_dir_get_buf_def Let_def n(1) [symmetric] sl ret_def split: prod.splits)
  moreover have "reloaded RCache s u" using rt assms(3) by (simp add: u_def reloaded_refl)
  ultimately show ?thesis using that by blast
qed

subsection \<open>Appending\<close>

lemma cache_of_PCache: "cache_of PCache s = Some (l_pcache s)" "cache_of RCache s = Some (l_rcache s)"
  by (simp_all add: cache_of_def)

lemma commitprog_correct:
  assumes ready: "prog_ready PCache (cm_block cm) (unat (cm_off cm)) s" and fits: "unat (cm_off cm) + length buf \<le> bsz"
  obtains pc pb d where
    "lfs_dir_commitprog cm buf s = Some (Val (cm\<lparr>cm_crc := lfs_crc (cm_crc cm) buf,
        cm_off := cm_off cm + word_of_nat (length buf)\<rparr>), progged PCache pc pb d s)"
    "cache_buffer pc = cache_buffer (l_pcache s)" "dok d"
    "prog_ready PCache (cm_block cm) (unat (cm_off cm + word_of_nat (length buf))) (progged PCache pc pb d s)"
    "unat (cm_off cm + word_of_nat (length buf)) = unat (cm_off cm) + length buf"
    "\<And>c. unat c < bcount \<Longrightarrow> view (Some PCache) (progged PCache pc pb d s) c =
      (if c = cm_block cm then splice (view (Some PCache) s c) (unat (cm_off cm)) buf else view (Some PCache) s c)"
proof -
  have small: "bsz < 2 ^ 30" using ready by (auto simp: prog_ready_to_def prog_geometry_def attached_to_def)
  have uo: "unat (cm_off cm + word_of_nat (length buf)) = unat (cm_off cm) + length buf"
    using fits small by (simp add: unat_word_ariths unat_of_nat)
  obtain pc pb d where run: "lfs_bd_prog PCache RCache False (cm_block cm) (unat (cm_off cm)) buf s = Some (Val (), progged PCache pc pb d s)"
    and post: "cache_buffer pc = cache_buffer (l_pcache s)" "dok d"
      "prog_ready PCache (cm_block cm) (unat (cm_off cm) + length buf) (progged PCache pc pb d s)"
      "\<And>c. unat c < bcount \<Longrightarrow> view (Some PCache) (progged PCache pc pb d s) c =
        (if c = cm_block cm then splice (view (Some PCache) s (cm_block cm)) (unat (cm_off cm)) buf else view (Some PCache) s c)"
    by (rule bd_prog_correct [OF ready cache_of_PCache(1) fits, of RCache]) blast
  have runb: "bnd (lfs_bd_prog PCache RCache False (cm_block cm) (unat (cm_off cm)) buf) k s = k () (progged PCache pc pb d s)"
    for k :: "_ \<Rightarrow> ('d, 'x) fs" by (rule bnd_run_Val) (rule run)
  have "lfs_dir_commitprog cm buf s = Some (Val (cm\<lparr>cm_crc := lfs_crc (cm_crc cm) buf,
        cm_off := cm_off cm + word_of_nat (length buf)\<rparr>), progged PCache pc pb d s)"
    by (simp add: lfs_dir_commitprog_def runb ret_def)
  with post uo show ?thesis by (intro that [of pc pb d]) auto
qed

theorem commitattr_correct:
  assumes ready: "prog_ready PCache (cm_block cm) (unat (cm_off cm)) s"
    and room: "unat (cm_off cm) + unat (lfs_tag_dsize tag) \<le> unat (cm_end cm)" "unat (cm_end cm) \<le> bsz"
    and tag: "lfs_tag_isvalid tag" "length data = unat (lfs_tag_dsize tag) - 4"
  obtains pc pb d where
    "lfs_dir_commitattr cm tag (Bytes data) s = Some (Val (cm\<lparr>cm_crc := lfs_crc (cm_crc cm) (entry_bytes (cm_ptag cm) tag data),
        cm_off := cm_off cm + lfs_tag_dsize tag, cm_ptag := tag\<rparr>), progged PCache pc pb d s)"
    "cache_buffer pc = cache_buffer (l_pcache s)" "dok d"
    "prog_ready PCache (cm_block cm) (unat (cm_off cm) + unat (lfs_tag_dsize tag)) (progged PCache pc pb d s)"
    "unat (cm_off cm + lfs_tag_dsize tag) = unat (cm_off cm) + unat (lfs_tag_dsize tag)"
    "\<And>c. unat c < bcount \<Longrightarrow> view (Some PCache) (progged PCache pc pb d s) c =
      (if c = cm_block cm then splice (view (Some PCache) s c) (unat (cm_off cm)) (entry_bytes (cm_ptag cm) tag data)
       else view (Some PCache) s c)"
proof -
  let ?n = "lfs_tag_dsize tag" and ?hd = "u32_to_be ((tag AND 0x7fffffff) XOR cm_ptag cm)"
  have small: "bsz < 2 ^ 30" and bl: "unat (cm_block cm) < bcount" and wfd: "dok (l_dev s)"
    using ready by (auto simp: prog_ready_to_def prog_geometry_def attached_to_def)
  have n4: "4 \<le> unat ?n" by (rule unat_4_dsize)
  have un: "unat (cm_off cm + ?n) = unat (cm_off cm) + unat ?n"
    using room small by (simp add: unat_word_ariths)
  have un4: "unat (?n - 4) = unat ?n - 4" using n4 by (subst unat_sub) (simp_all add: word_le_nat_alt)
  have le: "\<not> cm_off cm + ?n > cm_end cm" using room un by (simp add: word_less_nat_alt)
  have m31: "(0x7fffffff :: u32) = mask 31" by (simp add: mask_eq_exp_minus_1)
  have mask: "tag AND 0x7fffffff = tag"
    unfolding m31
  proof (rule bit_word_eqI)
    fix i assume "i < LENGTH(32)"
    then show "bit (tag AND mask 31) i = bit tag i"
      using tag(1) by (cases "i = 31") (auto simp: lfs_tag_isvalid_bit bit_simps)
  qed
  obtain pc1 pb1 d1 where c1: "lfs_dir_commitprog cm ?hd s = Some (Val (cm\<lparr>cm_crc := lfs_crc (cm_crc cm) ?hd,
        cm_off := cm_off cm + word_of_nat (length ?hd)\<rparr>), progged PCache pc1 pb1 d1 s)"
    and p1: "cache_buffer pc1 = cache_buffer (l_pcache s)" "dok d1"
      "prog_ready PCache (cm_block cm) (unat (cm_off cm + word_of_nat (length ?hd))) (progged PCache pc1 pb1 d1 s)"
      "unat (cm_off cm + word_of_nat (length ?hd)) = unat (cm_off cm) + length ?hd"
    and v1: "\<And>c. unat c < bcount \<Longrightarrow> view (Some PCache) (progged PCache pc1 pb1 d1 s) c =
      (if c = cm_block cm then splice (view (Some PCache) s c) (unat (cm_off cm)) ?hd else view (Some PCache) s c)"
    by (rule commitprog_correct [OF ready, of ?hd]) (use room n4 in auto)
  define cm1 where "cm1 = cm\<lparr>cm_crc := lfs_crc (cm_crc cm) ?hd, cm_off := cm_off cm + word_of_nat (length ?hd)\<rparr>"
  define s1 where "s1 = progged PCache pc1 pb1 d1 s"
  have o1: "unat (cm_off cm1) = unat (cm_off cm) + 4" using p1(4) by (simp add: cm1_def)
  have cb: "cm_block cm1 = cm_block cm" by (simp add: cm1_def)
  have r1: "prog_ready PCache (cm_block cm1) (unat (cm_off cm1)) s1" using p1(3) by (simp add: cm1_def s1_def)
  obtain pc2 pb2 d2 where c2: "lfs_dir_commitprog cm1 data s1 = Some (Val (cm1\<lparr>cm_crc := lfs_crc (cm_crc cm1) data,
        cm_off := cm_off cm1 + word_of_nat (length data)\<rparr>), progged PCache pc2 pb2 d2 s1)"
    and p2: "cache_buffer pc2 = cache_buffer (l_pcache s1)" "dok d2"
      "prog_ready PCache (cm_block cm1) (unat (cm_off cm1 + word_of_nat (length data))) (progged PCache pc2 pb2 d2 s1)"
      "unat (cm_off cm1 + word_of_nat (length data)) = unat (cm_off cm1) + length data"
    and v2: "\<And>c. unat c < bcount \<Longrightarrow> view (Some PCache) (progged PCache pc2 pb2 d2 s1) c =
      (if c = cm_block cm1 then splice (view (Some PCache) s1 c) (unat (cm_off cm1)) data else view (Some PCache) s1 c)"
    by (rule commitprog_correct [OF r1, of data]) (use room n4 o1 tag in auto)
  have pcs1: "l_pcache s1 = pc1" using progged_cache_of [of PCache s pc1 pb1 d1] by (simp add: s1_def cache_of_def)
  have pp: "progged PCache pc2 pb2 d2 s1 = progged PCache pc2 pb2 d2 s"
    unfolding s1_def by (rule progged_progged) (use p2(1) pcs1 in simp)
  have c1b: "bnd (lfs_dir_commitprog cm ?hd) k s = k cm1 s1" for k :: "_ \<Rightarrow> ('d, 'x) fs"
    unfolding cm1_def s1_def by (rule bnd_run_Val) (rule c1)
  have c2b: "bnd (lfs_dir_commitprog cm1 data) k s1 = k (cm1\<lparr>cm_crc := lfs_crc (cm_crc cm1) data,
        cm_off := cm_off cm1 + word_of_nat (length data)\<rparr>) (progged PCache pc2 pb2 d2 s)" for k :: "_ \<Rightarrow> ('d, 'x) fs"
    unfolding pp [symmetric] by (rule bnd_run_Val) (rule c2)
  have offs: "cm_off cm1 + word_of_nat (length data) = cm_off cm + ?n"
  proof (rule unsigned_word_eqI)
    show "unat (cm_off cm1 + word_of_nat (length data)) = unat (cm_off cm + ?n)"
      using p2(4) o1 un tag(2) n4 by simp
  qed
  have "lfs_dir_commitattr cm tag (Bytes data) s = Some (Val (cm\<lparr>cm_crc := lfs_crc (cm_crc cm) (entry_bytes (cm_ptag cm) tag data),
        cm_off := cm_off cm + ?n, cm_ptag := tag\<rparr>), progged PCache pc2 pb2 d2 s)"
    using le tag offs by (simp add: lfs_dir_commitattr_def c1b [unfolded mask] c2b attr_bytes_def un4 ret_def mask)
      (simp add: cm1_def entry_bytes_def lfs_crc_append mask)
  moreover have "view (Some PCache) (progged PCache pc2 pb2 d2 s) c =
      (if c = cm_block cm then splice (view (Some PCache) s c) (unat (cm_off cm)) (entry_bytes (cm_ptag cm) tag data)
       else view (Some PCache) s c)" if "unat c < bcount" for c
  proof -
    have lv: "length (view (Some PCache) s (cm_block cm)) = bsz"
      by (rule prog_ready_view [OF ready])
    show ?thesis
      using v2 [OF that, unfolded pp o1 cb] v1 [OF that, folded s1_def]
        splice_splice [of "unat (cm_off cm)" ?hd "view (Some PCache) s c" data] room n4 lv
      by (auto simp: entry_bytes_def)
  qed
  moreover have "prog_ready PCache (cm_block cm) (unat (cm_off cm) + unat ?n) (progged PCache pc2 pb2 d2 s)"
    using p2(3) unfolding pp offs cb un .
  moreover have "cache_buffer pc2 = cache_buffer (l_pcache s)" using p1(1) p2(1) pcs1 by simp
  ultimately show ?thesis using that p2(2) un by blast
qed

lemma log_rep_append:
  assumes rep: "log_rep v off (ptag AND 0x7fffffff) es" and tag: "lfs_tag_isvalid tag"
    and data: "length data = unat (lfs_tag_dsize tag) - 4" and fits: "off + unat (lfs_tag_dsize tag) \<le> length v"
  shows "log_rep (splice v off (entry_bytes ptag tag data)) (off + unat (lfs_tag_dsize tag)) tag ((tag, data) # es)"
proof -
  let ?n = "unat (lfs_tag_dsize tag)" and ?w = "(tag AND 0x7fffffff) XOR ptag"
  have n: "4 \<le> ?n" by (rule unat_4_dsize)
  have le: "length (entry_bytes ptag tag data) = ?n" using n data by (simp add: entry_bytes_def)
  have e: "take ?n (drop off (splice v off (entry_bytes ptag tag data))) = entry_bytes ptag tag data"
    using splice_inside [of off off ?n "entry_bytes ptag tag data" v] le fits by simp
  have hd: "take 4 (drop off (splice v off (entry_bytes ptag tag data))) = u32_to_be ?w"
    using arg_cong [OF e, of "take 4"] n by (simp add: entry_bytes_def)
  have off4: "off + ?n - length data = off + 4" using n data by simp
  have tl: "take (length data) (drop (off + 4) (splice v off (entry_bytes ptag tag data))) = data"
    using arg_cong [OF e, of "drop 4"] n data by (simp add: entry_bytes_def drop_take add.commute)
  have m: "(?w XOR tag) AND 0x7fffffff = ptag AND 0x7fffffff"
  proof -
    have m31: "(0x7fffffff :: u32) = mask 31" by (simp add: mask_eq_exp_minus_1)
    show ?thesis unfolding m31 by (rule bit_word_eqI) (auto simp: bit_simps)
  qed
  have "log_rep (splice v off (entry_bytes ptag tag data)) off (ptag AND 0x7fffffff) es"
    by (rule log_rep_cong [OF rep]) (use fits in \<open>simp add: splice_def min_def\<close>)
  then show ?thesis
    using log_rep_end [OF rep] tag data tl by (simp add: off4 [unfolded data] tl [unfolded data] hd u32_from_to_be m)
qed

text \<open>Appending an entry, writing the cache out and looking something up.\<close>

theorem commit_get_correct:
  assumes ready: "prog_ready PCache (cm_block cm) (unat (cm_off cm)) s"
    and room: "unat (cm_off cm) + unat (lfs_tag_dsize tag) \<le> unat (cm_end cm)" "unat (cm_end cm) \<le> bsz"
    and tag: "lfs_tag_isvalid tag" "length data = unat (lfs_tag_dsize tag) - 4"
    and rep: "log_rep (view (Some PCache) s (cm_block cm)) (unat (cm_off cm)) (cm_ptag cm AND 0x7fffffff) es"
    and rc: "cache_buffer (l_rcache s) \<noteq> cache_buffer (l_pcache s)"
      "cache_size (l_rcache s) \<le> length (l_bufs s (cache_buffer (l_rcache s)))"
      "unat (cfg_read_size (l_cfg s)) \<le> length (l_bufs s (cache_buffer (l_rcache s)))"
      "length (l_bufs s (cache_buffer (l_rcache s))) < 2 ^ 31"
    and dir: "fst (md_pair dir) = cm_block cm" "md_off dir = cm_off cm + lfs_tag_dsize tag" "md_etag dir = tag"
    and n: "n = unat (lfs_tag_size gtag)" "n \<le> length buf"
    and res: "r = slice_result (take n buf) (if moved_away (l_gdisk s) (md_pair dir) gmask gtag then Inl NoEntry
      else log_find gmask gtag (move_shift (l_gdisk s) (md_pair dir) gmask gtag) ((tag, data) # es))"
  obtains cm' t where "bnd (lfs_dir_commitattr cm tag (Bytes data)) (\<lambda>cm'. bnd (lfs_bd_sync PCache RCache False)
      (\<lambda>_. bnd (lfs_dir_get_buf dir gmask gtag buf) (\<lambda>r. ret (cm', r)))) s = Some (Val (cm', fst r, snd r @ drop n buf), t)"
    "cm_off cm' = cm_off cm + lfs_tag_dsize tag" "cm_ptag cm' = tag"
    "cm_crc cm' = lfs_crc (cm_crc cm) (entry_bytes (cm_ptag cm) tag data)"
proof -
  let ?b = "cm_block cm" and ?n = "unat (lfs_tag_dsize tag)"
  have bl: "unat ?b < bcount" and few: "bcount < 2 ^ 32 - 2" and att: "attached s"
    using ready by (auto simp: prog_ready_to_def prog_geometry_def)
  define cm' where "cm' = cm\<lparr>cm_crc := lfs_crc (cm_crc cm) (entry_bytes (cm_ptag cm) tag data),
        cm_off := cm_off cm + lfs_tag_dsize tag, cm_ptag := tag\<rparr>"
  obtain pc pb d where run: "lfs_dir_commitattr cm tag (Bytes data) s = Some (Val cm', progged PCache pc pb d s)"
    and pc: "cache_buffer pc = cache_buffer (l_pcache s)"
    and rt: "prog_ready PCache ?b (unat (cm_off cm) + ?n) (progged PCache pc pb d s)"
    and un: "unat (cm_off cm + lfs_tag_dsize tag) = unat (cm_off cm) + ?n"
    and vt: "\<And>c. unat c < bcount \<Longrightarrow> view (Some PCache) (progged PCache pc pb d s) c =
      (if c = ?b then splice (view (Some PCache) s c) (unat (cm_off cm)) (entry_bytes (cm_ptag cm) tag data)
       else view (Some PCache) s c)"
    unfolding cm'_def by (rule commitattr_correct [OF ready room tag]) blast
  define t where "t = progged PCache pc pb d s"
  have ct: "l_pcache t = pc" using progged_cache_of [of PCache s pc pb d] by (simp add: t_def cache_of_def)
  have pt: "l_rcache t = l_rcache s" "l_bufs t = (l_bufs s)(cache_buffer pc := pb)" "l_cfg t = l_cfg s" "l_gdisk t = l_gdisk s"
    "l_block_count t = l_block_count s" by (simp_all add: t_def progged_def load_def set_cache_def)
  have geo: "geometry pb t" "clean (unat (cfg_prog_size (l_cfg t))) (l_dev t) pc pb"
    using rt ct by (auto simp: prog_ready_to_def t_def [symmetric] cache_of_PCache pt)
  have pbt: "pb = l_bufs t (cache_buffer pc)" by (simp add: pt)
  obtain pc2 pb2 d2 where sy: "lfs_bd_sync PCache RCache False t =
      Some (Val (), progged PCache pc2 pb2 d2 (set_cache RCache ((l_rcache t)\<lparr>cache_block := LFS_BLOCK_NULL\<rparr>) t))"
    and p2: "cache_buffer pc2 = cache_buffer pc" "dok d2" "\<And>c. unat c < bcount \<Longrightarrow> blk d2 c = view (Some PCache) t c"
    by (rule bd_sync_correct [of PCache t pc RCache "l_rcache t" pb]) (use ct geo pbt in \<open>auto simp: cache_of_PCache\<close>)
  define u where "u = progged PCache pc2 pb2 d2 (set_cache RCache ((l_rcache t)\<lparr>cache_block := LFS_BLOCK_NULL\<rparr>) t)"
  have pu: "l_rcache u = (l_rcache s)\<lparr>cache_block := LFS_BLOCK_NULL\<rparr>" "l_cfg u = l_cfg s" "l_gdisk u = l_gdisk s" "l_dev u = d2"
    "l_block_count u = l_block_count s" "l_bufs u (cache_buffer (l_rcache s)) = l_bufs s (cache_buffer (l_rcache s))"
    using rc(1) p2(1) pc by (simp_all add: u_def progged_def load_def set_cache_def pt)
  have ru: "read_ready None RCache (fst (md_pair dir)) u"
    using bl rc att p2(2) few unat_BLOCK_NULL
    by (auto simp: read_ready_to_def attached_to_def pu dir cache_of_PCache coherent_to_def pcached_def pcache_in_def)
  have vu: "view None u (fst (md_pair dir)) = splice (view (Some PCache) s ?b) (unat (cm_off cm)) (entry_bytes (cm_ptag cm) tag data)"
    using p2(3) [OF bl] vt [OF bl] by (simp add: view_of_def overlay_def pcached_def pu dir t_def)
  have rp: "log_rep (view None u (fst (md_pair dir))) (unat (md_off dir)) (md_etag dir) ((tag, data) # es)"
    unfolding vu unfolding dir un by (rule log_rep_append [OF rep tag]) (use room prog_ready_view [OF ready] in simp)
  have res': "r = slice_result (take n buf) (if moved_away (l_gdisk u) (md_pair dir) gmask gtag then Inl NoEntry
      else log_find gmask gtag (move_shift (l_gdisk u) (md_pair dir) gmask gtag) ((tag, data) # es))"
    unfolding pu by (rule res)
  have ob: "unat (md_off dir) \<le> bsz" using un room dir by simp
  obtain w where get: "lfs_dir_get_buf dir gmask gtag buf u = Some (Val (fst r, snd r @ drop n buf), w)"
    by (rule dir_get_correct [OF rp ob ru n res'])
  have runb: "bnd (lfs_dir_commitattr cm tag (Bytes data)) k s = k cm' t" for k :: "_ \<Rightarrow> ('d, 'x) fs"
    unfolding t_def by (rule bnd_run_Val) (rule run)
  have syb: "bnd (lfs_bd_sync PCache RCache False) k t = k () u" for k :: "_ \<Rightarrow> ('d, 'x) fs"
    unfolding u_def by (rule bnd_run_Val) (rule sy)
  have getb: "bnd (lfs_dir_get_buf dir gmask gtag buf) k u = k (fst r, snd r @ drop n buf) w" for k :: "_ \<Rightarrow> ('d, 'x) fs"
    by (rule bnd_run_Val) (rule get)
  show ?thesis
    by (rule that [of cm' w]) (simp_all add: runb syb getb ret_def, simp_all add: cm'_def)
qed

end

end
