(* ===== verification/Demo.thy ===== *)
theory Demo
  imports Ctz Mlist
begin

text \<open>
  A small concrete file system state on the RAM driver, four blocks of 128 bytes, on which
  the properties of the storage layer are instantiated; and those properties.
\<close>

definition demo_config :: "ram_storage lfs_config" where
  "demo_config = \<lparr>cfg_context = ram_driver 128, cfg_read_size = 16, cfg_prog_size = 16,
     cfg_block_size = 128, cfg_block_count = 4, cfg_block_cycles = 500, cfg_cache_size = 64,
     cfg_compact_thresh = 0, cfg_read_buffer = 1, cfg_prog_buffer = 2, cfg_lookahead_buffer = 3,
     cfg_name_max = 0, cfg_file_max = 0, cfg_attr_max = 0, cfg_metadata_max = 0, cfg_inline_max = 0\<rparr>"

definition demo_bufs :: "nat \<Rightarrow> bytes" where
  "demo_bufs i = (if i = 1 \<or> i = 2 then replicate 64 0xff else if i = 3 then replicate 8 0 else [])"

definition demo_state :: "ram_storage \<Rightarrow> ram_storage lfs" where
  "demo_state d = \<lparr>
     l_rcache = \<lparr>cache_block = LFS_BLOCK_NULL, cache_off = 0, cache_size = 0, cache_buffer = 1\<rparr>,
     l_pcache = \<lparr>cache_block = LFS_BLOCK_NULL, cache_off = 0, cache_size = 0, cache_buffer = 2\<rparr>,
     l_root = (0, 1), l_mlist = None, l_seed = 0,
     l_gstate = gstate_zero, l_gdisk = gstate_zero, l_gdelta = gstate_zero,
     l_lookahead = \<lparr>la_start = 0, la_size = 0, la_next = 0, la_ckpoint = 4, la_buffer = 3\<rparr>,
     l_cfg = demo_config, l_block_count = 4, l_name_max = 255, l_file_max = 2147483647,
     l_attr_max = 1022, l_inline_max = 16, l_bufs = demo_bufs, l_next_buf = 4,
     l_nodes = (\<lambda>_. None), l_next_node = 1, l_dev = d\<rparr>"

lemmas demo_defs = demo_state_def demo_config_def demo_bufs_def

lemma demo_read_ready:
  assumes "ram_wf 128 4 d" "unat b < 4"
  shows "read_ready_to (ram_driver 128) (ram_wf 128 4) (ram_blk 128) 128 4 (Some PCache) RCache b (demo_state d)"
  using assms by (auto simp: read_ready_to_def attached_to_def coherent_to_def pcache_in_def pcached_def
      cache_of_def demo_defs LFS_BLOCK_NULL_def)

lemma demo_cache_of: "cache_of RCache (demo_state d) = Some (l_rcache (demo_state d))"
  by (simp add: cache_of_def)

subsection \<open>Properties\<close>

text \<open>C15 (functional). On any driver that keeps the laws of a block device, a read within the
  block returns, whatever the caches hold, the bytes of the block as the device has them
  overlaid with what the program cache still has to write; it always returns, and changes
  nothing but the read cache, which stays coherent.\<close>

theorem bd_read_returns_view:
  assumes "block_device st dok blk bsz bcount" "read_ready_to st dok blk bsz bcount p r block s"
    and "cache_of r s = Some c" "0 < hint" "hint \<le> 2 ^ 31" "off + length buf \<le> bsz"
  shows "\<exists>c' b'. lfs_bd_read p r hint block off buf s =
      Some (Val (take (length buf) (drop off (view_of blk p s block))), load r c' b' s)
    \<and> cache_buffer c' = cache_buffer c \<and> coherent_to blk bsz bcount (cfg_read_size (l_cfg s)) (l_dev s) c' b'"
  by (rule block_device.bd_read_correct [OF assms]) blast

theorem bd_read_returns_view_witness:
  "\<exists>c' b'. lfs_bd_read (Some PCache) RCache 8 2 100 (replicate 8 0) (demo_state (ram_new 128 4)) =
      Some (Val (take 8 (drop 100 (view_of (ram_blk 128) (Some PCache) (demo_state (ram_new 128 4)) 2))),
        load RCache c' b' (demo_state (ram_new 128 4)))
    \<and> cache_buffer c' = 1 \<and> coherent_to (ram_blk 128) 128 4 16 (ram_new 128 4) c' b'"
  using bd_read_returns_view [OF ram.block_device_axioms [of 128 4, simplified]
      demo_read_ready [OF ram_new_wf [of 128 4], of 2] demo_cache_of, of 8 100 "replicate 8 0"]
  by (simp add: demo_defs)

text \<open>C20 (functional). The two divisions and two popcounts of \<open>lfs_ctz_index\<close> find the block of a
  file position: the block's first position is not beyond it, the next block's is, and the
  offset in the block accounts for the skip pointers the block begins with.\<close>

theorem ctz_index_finds_block:
  assumes "128 \<le> unat (cfg_block_size (l_cfg s))"
  shows "\<exists>i o'. lfs_ctz_index off s = Some (Val (i, o'), s)
    \<and> block_start (unat (cfg_block_size (l_cfg s))) (unat i) \<le> unat off
    \<and> unat off < block_start (unat (cfg_block_size (l_cfg s))) (Suc (unat i))
    \<and> unat o' = unat off - block_start (unat (cfg_block_size (l_cfg s))) (unat i) + ptrs (unat i)
    \<and> unat o' < unat (cfg_block_size (l_cfg s))"
  by (rule ctz_index_correct [OF assms, of off]) blast

theorem ctz_index_finds_block_witness:
  "\<exists>i o'. lfs_ctz_index 1000 (demo_state (ram_new 128 4)) = Some (Val (i, o'), demo_state (ram_new 128 4))
    \<and> block_start 128 (unat i) \<le> 1000 \<and> 1000 < block_start 128 (Suc (unat i))
    \<and> unat o' = 1000 - block_start 128 (unat i) + ptrs (unat i) \<and> unat o' < 128"
  using ctz_index_finds_block [of "demo_state (ram_new 128 4)" 1000] by (simp add: demo_defs)

text \<open>C19 (functional). In a file whose blocks carry the skip pointers they should, \<open>lfs_ctz_find\<close>
  started at the last block always returns, and with the block and offset that hold the
  position asked for.\<close>

theorem ctz_find_reaches_block:
  assumes "block_device st dok blk bsz bcount" "ctz_file (view_of blk p s) bl n" "n < 2 ^ 26" "128 \<le> bsz"
    and "\<And>k. k \<le> n \<Longrightarrow> read_ready_to st dok blk bsz bcount p r (bl k) s" "cache_of r s = Some c"
    and "block_start bsz n < unat sz" "unat sz \<le> block_start bsz (Suc n)" "unat pos < unat sz"
  shows "\<exists>i o' c' b'. lfs_ctz_find p r (bl n) sz pos s = Some (Val (bl i, o'), load r c' b' s)
    \<and> block_start bsz i \<le> unat pos \<and> unat pos < block_start bsz (Suc i)
    \<and> unat o' = unat pos - block_start bsz i + ptrs i \<and> unat o' < bsz"
proof (rule block_device.ctz_find_correct [OF assms])
  fix i o' c' b'
  assume "lfs_ctz_find p r (bl n) sz pos s = Some (Val (bl i, o'), load r c' b' s)"
    "block_start bsz i \<le> unat pos" "unat pos < block_start bsz (Suc i)"
    "unat o' = unat pos - block_start bsz i + ptrs i" "unat o' < bsz"
  then show ?thesis by (intro exI conjI)
qed

definition demo_file_dev :: ram_storage where
  "demo_file_dev = \<lparr>ram_data = u32_to_le 1 @ replicate 508 0\<rparr>"

lemma demo_file_wf: "ram_wf 128 4 demo_file_dev"
  by (simp add: ram_wf_def demo_file_dev_def)

theorem ctz_find_reaches_block_witness:
  "\<exists>i o' c' b'. lfs_ctz_find (Some PCache) RCache ((\<lambda>k. if k = 0 then 1 else 0) (1::nat)) 150 20 (demo_state demo_file_dev)
      = Some (Val ((\<lambda>k. if k = 0 then 1 else 0) i, o'), load RCache c' b' (demo_state demo_file_dev))
    \<and> block_start 128 i \<le> unat (20 :: u32) \<and> unat (20 :: u32) < block_start 128 (Suc i)
    \<and> unat o' = unat (20 :: u32) - block_start 128 i + ptrs i \<and> unat o' < 128"
proof (rule ctz_find_reaches_block [OF ram.block_device_axioms [of 128 4, simplified]])
  have "view_of (ram_blk 128) (Some PCache) (demo_state demo_file_dev) 0 = u32_to_le 1 @ replicate 124 0"
    by (simp add: view_of_def overlay_def pcached_def cache_of_def demo_defs LFS_BLOCK_NULL_def
        ram_blk_def demo_file_dev_def)
  then show "ctz_file (view_of (ram_blk 128) (Some PCache) (demo_state demo_file_dev)) (\<lambda>k. if k = 0 then 1 else 0) 1"
    by (auto simp: ctz_file_def tz_odd less_Suc_eq_le [symmetric] less_Suc_eq)
  show "read_ready_to (ram_driver 128) (ram_wf 128 4) (ram_blk 128) 128 4 (Some PCache) RCache
      ((\<lambda>k. if k = 0 then 1 else 0) k) (demo_state demo_file_dev)" for k :: nat
    by (rule demo_read_ready [OF demo_file_wf]) simp
qed (simp_all add: demo_cache_of ptrs_def tz_odd)

text \<open>C33 (refinement). The RAM driver of the wrapper crate keeps every law the file system relies
  on: reads return the block, writes and erases change that block alone.\<close>

theorem ram_is_block_device:
  "block_device (ram_driver bs) (ram_wf bs bc) (ram_blk bs) (unat bs) (unat bc) \<and> ram_wf bs bc (ram_new bs bc)"
  using ram.block_device_axioms ram_new_wf by blast

definition demo_mlist :: "ram_storage lfs" where
  "demo_mlist = (demo_state (ram_new 128 4))\<lparr>l_mlist := Some 7, l_nodes :=
     [7 \<mapsto> node_default\<lparr>nd_next := Some 5\<rparr>, 5 \<mapsto> node_default, 9 \<mapsto> node_default]\<rparr>"

lemma demo_mlist_rep: "mlist_rep demo_mlist [7, 5]"
  by (simp add: demo_mlist_def mlist_rep_def demo_state_def node_default_def)

theorem mlist_remove_refines_witness:
  "\<exists>s'. lfs_mlist_remove 5 demo_mlist = Some (Val (), s') \<and> mlist_rep s' [7]
    \<and> same_nodes (l_nodes demo_mlist) (l_nodes s') \<and> l_dev s' = l_dev demo_mlist"
  using mlist_remove_refines [OF demo_mlist_rep, of 5] by simp

theorem mlist_append_refines_witness:
  "\<exists>s'. lfs_mlist_append 9 demo_mlist = Some (Val (), s') \<and> mlist_rep s' [9, 7, 5]
    \<and> lfs_mlist_isopen (l_mlist s') 5 s' = Some (Val True, s')"
  using mlist_append_refines [OF demo_mlist_rep, of 9 node_default 5]
  by (simp add: demo_mlist_def)

end
