(* ===== verification/LogProps.thy ===== *)
theory LogProps
  imports Log Demo
begin

text \<open>
  The properties of the writing side of the storage layer and of the metadata log, each with
  an instance on the RAM driver.
\<close>

lemmas demo_device = ram.block_device_axioms [of 128 4, simplified]

abbreviation demo_ram :: "ram_storage lfs" where "demo_ram \<equiv> demo_state (ram_new 128 4)"

lemma demo_blank: "unat b < 4 \<Longrightarrow> ram_blk 128 (ram_new 128 4) b = replicate 128 0xff"
proof -
  assume "unat b < 4"
  then have "unat b * 128 + 128 \<le> 512" by linarith
  then show ?thesis by (simp add: ram_blk_def ram_new_def min_def)
qed

lemma demo_prog_ready:
  assumes "unat b < 4" "off < 128"
  shows "prog_ready_to (ram_driver 128) (ram_wf 128 4) (ram_blk 128) 128 4 PCache b off demo_ram"
  using assms ram_new_wf [of 128 4]
  by (auto simp: prog_ready_to_def prog_geometry_def attached_to_def pcache_clean_def cache_of_def erased_from_def
      demo_defs demo_blank)

lemma demo_view: "unat b < 4 \<Longrightarrow> view_of (ram_blk 128) p demo_ram b = replicate 128 0xff"
  by (cases p) (auto simp: view_of_def overlay_def pcached_def cache_of_def demo_defs demo_blank
      LFS_BLOCK_NULL_def split: cache_ref.splits)

lemma demo_read_ready_None:
  assumes "ram_wf 128 4 d" "unat b < 4"
  shows "read_ready_to (ram_driver 128) (ram_wf 128 4) (ram_blk 128) 128 4 None RCache b (demo_state d)"
  using demo_read_ready [OF assms] by (auto simp: read_ready_to_def pcached_def pcache_in_def)

lemma demo_nomove: "\<not> lfs_gstate_hasmovehere (l_gdisk (demo_state d)) p"
  by (simp add: demo_state_def lfs_gstate_hasmovehere_def gstate_zero_def lfs_tag_type1_def)

subsection \<open>Properties\<close>

text \<open>C31 (functional). Comparing with what is on the device, as seen through the program cache,
  always returns, with the lexicographic order of the bytes there and the bytes given.\<close>

theorem bd_cmp_compares_view:
  assumes "block_device st dok blk bsz bcount" "read_ready_to st dok blk bsz bcount p r block s"
    and "length buf \<le> hint" "hint \<le> 2 ^ 31" "off + length buf \<le> bsz"
  shows "\<exists>t. lfs_bd_cmp p r hint block off buf s =
      Some (Val (bytes_cmp (take (length buf) (drop off (view_of blk p s block))) buf), t) \<and> l_dev t = l_dev s"
  by (rule block_device.bd_cmp_correct [OF assms]) (auto dest: block_device.reloaded_simps [OF assms(1)])

theorem bd_cmp_compares_view_witness:
  "\<exists>t. lfs_bd_cmp (Some PCache) RCache 2 1 100 [0xff, 3] demo_ram = Some (Val Greater, t) \<and> l_dev t = l_dev demo_ram"
  using bd_cmp_compares_view [OF demo_device demo_read_ready [OF ram_new_wf [of 128 4], of 1], of "[0xff, 3]" 2 100]
  by (simp add: demo_view)

text \<open>C32 (functional). Checksumming a range always returns, with the CRC of the bytes on the device
  as seen through the program cache.\<close>

theorem bd_crc_sums_view:
  assumes "block_device st dok blk bsz bcount" "read_ready_to st dok blk bsz bcount p r block s"
    and "sz \<le> unat hint" "unat hint \<le> 2 ^ 31" "off + sz \<le> bsz"
  shows "\<exists>t. lfs_bd_crc p r hint block off sz crc s =
      Some (Val (lfs_crc crc (take sz (drop off (view_of blk p s block)))), t) \<and> l_dev t = l_dev s"
proof -
  obtain t where "lfs_bd_crc_buf p r hint block off sz crc s =
      Some (Val (Inr (), lfs_crc crc (take sz (drop off (view_of blk p s block)))), t)"
    and "block_device.reloaded blk bsz bcount r s t"
    by (rule block_device.bd_crc_correct [OF assms])
  then show ?thesis
    by (auto simp: lfs_bd_crc_def bnd_def ret_def dest: block_device.reloaded_simps [OF assms(1)])
qed

theorem bd_crc_sums_view_witness:
  "\<exists>t. lfs_bd_crc (Some PCache) RCache 3 1 100 3 0xffffffff demo_ram = Some (Val (lfs_crc 0xffffffff (replicate 3 0xff)), t)
    \<and> l_dev t = l_dev demo_ram"
  using bd_crc_sums_view [OF demo_device demo_read_ready [OF ram_new_wf [of 128 4], of 1], of 3 3 100 "0xffffffff"]
  by (simp add: demo_view)

text \<open>C16 (refinement). Programming writes the bytes to the block as seen through the program
  cache, however they are split over the cache and the device, touches no other block, never
  panics, and leaves the next position ready to be programmed.\<close>

theorem bd_prog_writes_view:
  assumes "block_device st dok blk bsz bcount" "prog_ready_to st dok blk bsz bcount p block off s"
    and "off + length data \<le> bsz"
  shows "\<exists>t. lfs_bd_prog p r False block off data s = Some (Val (), t)
    \<and> prog_ready_to st dok blk bsz bcount p block (off + length data) t
    \<and> (\<forall>c. unat c < bcount \<longrightarrow> view_of blk (Some p) t c =
        (if c = block then splice (view_of blk (Some p) s c) off data else view_of blk (Some p) s c))"
proof -
  obtain pc where "cache_of p s = Some pc" using assms(2) by (auto simp: prog_ready_to_def)
  from block_device.bd_prog_correct [OF assms(1,2) this assms(3), of r] show ?thesis by fastforce
qed

theorem bd_prog_writes_view_witness:
  "\<exists>t. lfs_bd_prog PCache RCache False 2 60 [1, 2, 3] demo_ram = Some (Val (), t)
    \<and> view_of (ram_blk 128) (Some PCache) t 2 = replicate 60 0xff @ [1, 2, 3] @ replicate 65 0xff
    \<and> view_of (ram_blk 128) (Some PCache) t 1 = replicate 128 0xff"
proof -
  obtain t where t: "lfs_bd_prog PCache RCache False 2 60 [1, 2, 3] demo_ram = Some (Val (), t)"
    and v: "\<And>c. unat c < 4 \<Longrightarrow> view_of (ram_blk 128) (Some PCache) t c =
        (if c = 2 then splice (view_of (ram_blk 128) (Some PCache) demo_ram c) 60 [1, 2, 3]
         else view_of (ram_blk 128) (Some PCache) demo_ram c)"
    using bd_prog_writes_view [OF demo_device demo_prog_ready [of 2 60], of "[1, 2, 3]" RCache] by auto
  show ?thesis
    by (rule exI [of _ t]) (use t v [of 1] v [of 2] in \<open>simp add: demo_view splice_def\<close>)
qed

text \<open>C17 (refinement). Synchronising returns and makes every block of the device what was seen
  through the program cache before, and empties the cache: nothing that was programmed is lost.\<close>

theorem bd_sync_persists:
  assumes "block_device st dok blk bsz bcount" "prog_ready_to st dok blk bsz bcount p block off s"
    and "cache_of r s = Some rc" "p \<noteq> r"
  shows "\<exists>t pc. lfs_bd_sync p r False s = Some (Val (), t) \<and> dok (l_dev t)
    \<and> (\<forall>c. unat c < bcount \<longrightarrow> blk (l_dev t) c = view_of blk (Some p) s c)
    \<and> cache_of p t = Some pc \<and> cache_block pc = LFS_BLOCK_NULL"
proof -
  obtain pc where pc: "cache_of p s = Some pc"
    and geo: "prog_geometry st dok bsz bcount (l_bufs s (cache_buffer pc)) s"
    and cl: "pcache_clean blk bsz bcount (unat (cfg_prog_size (l_cfg s))) (l_dev s) pc (l_bufs s (cache_buffer pc))"
    using assms(2) by (auto simp: prog_ready_to_def)
  have pu: "cache_of p (set_cache r (rc\<lparr>cache_block := LFS_BLOCK_NULL\<rparr>) s) \<noteq> None"
    using pc assms(4) by (simp add: cache_of_set_other)
  show ?thesis
    by (rule block_device.bd_sync_correct [OF assms(1) pc assms(3,4) refl geo cl])
      (use block_device.progged_cache_of [OF assms(1) pu] block_device.progged_simps [OF assms(1)] in fastforce)
qed

theorem bd_sync_persists_witness:
  "\<exists>t pc. lfs_bd_sync PCache RCache False demo_ram = Some (Val (), t) \<and> ram_wf 128 4 (l_dev t)
    \<and> (\<forall>c. unat c < 4 \<longrightarrow> ram_blk 128 (l_dev t) c = view_of (ram_blk 128) (Some PCache) demo_ram c)
    \<and> cache_of PCache t = Some pc \<and> cache_block pc = LFS_BLOCK_NULL"
  by (rule bd_sync_persists [OF demo_device demo_prog_ready [of 2 60]]) (simp_all add: cache_of_def)

text \<open>C11 (refinement). Where a block holds a log of entries, \<open>lfs_dir_get\<close> is the lookup on the list
  of entries: newest first, with ids shifted by the entries created and deleted since.  Where the global state
  says that an entry of this pair is being moved away, that entry is not found and the ids behind it
  are shifted down by one (\<open>moved_away\<close>, \<open>move_shift\<close>).  It always returns.\<close>

theorem dir_get_refines_log:
  assumes "block_device st dok blk bsz bcount" "read_ready_to st dok blk bsz bcount None RCache (fst (md_pair dir)) s"
    and "log_rep (view_of blk None s (fst (md_pair dir))) (unat (md_off dir)) (md_etag dir) es"
    and "unat (md_off dir) \<le> bsz" "unat (lfs_tag_size gtag) \<le> length buf"
  shows "\<exists>t. lfs_dir_get dir gmask gtag buf s = Some ((case
      if moved_away (l_gdisk s) (md_pair dir) gmask gtag then Inl NoEntry
      else log_find gmask gtag (move_shift (l_gdisk s) (md_pair dir) gmask gtag) es of
      Inl e \<Rightarrow> Exc e
    | Inr (tag, data) \<Rightarrow> Val (tag, filled (take (unat (lfs_tag_size gtag)) buf) data @ drop (unat (lfs_tag_size gtag)) buf)), t)
    \<and> l_dev t = l_dev s"
  by (rule block_device.dir_get_correct [OF assms(1,3,4,2) refl assms(5) refl, of gmask])
    (auto simp: lfs_dir_get_def bnd_def slice_result_def ret_def throw_def
      dest: block_device.reloaded_simps(2) [OF assms(1)] split: sum.splits)

definition demo_tag :: u32 where "demo_tag = lfs_mktag LFS_TYPE_INLINESTRUCT 0 2"

lemma demo_tag_eq: "demo_tag = 0x20100002"
  by (simp add: demo_tag_def lfs_mktag_def LFS_TYPE_INLINESTRUCT_def push_bit_numeral)

lemma demo_tag_fields: "lfs_tag_isvalid demo_tag" "\<not> lfs_tag_isdelete demo_tag" "unat (lfs_tag_size demo_tag) = 2"
    "unat (lfs_tag_dsize demo_tag) = 6" "lfs_tag_type1 demo_tag = 0x200"
proof -
  show d: "\<not> lfs_tag_isdelete demo_tag"
    by (simp add: lfs_tag_isdelete_size demo_tag_eq lfs_tag_size_def)
  show s: "unat (lfs_tag_size demo_tag) = 2" by (simp add: demo_tag_eq lfs_tag_size_def)
  show "unat (lfs_tag_dsize demo_tag) = 6" by (simp add: unat_dsize d s)
qed (simp_all add: demo_tag_eq lfs_tag_isvalid_def lfs_tag_type1_def)

definition demo_log :: bytes where
  "demo_log = splice (replicate 128 0xff) 4 (entry_bytes (- 1) demo_tag [7, 9])"

definition demo_log_dev :: ram_storage where
  "demo_log_dev = \<lparr>ram_data = replicate 128 0xff @ demo_log @ replicate 256 0xff\<rparr>"

definition demo_dir :: lfs_mdir where
  "demo_dir = mdir_zero\<lparr>md_pair := (1, 0), md_off := 10, md_etag := demo_tag\<rparr>"

lemma demo_log_rep: "log_rep demo_log 10 demo_tag [(demo_tag, [7, 9])]"
  using block_device.log_rep_append [OF demo_device, of "replicate 128 0xff" 4 "- 1" "[]" demo_tag "[7, 9]"]
  by (simp add: demo_log_def demo_tag_fields)

theorem dir_get_refines_log_witness:
  "\<exists>t. lfs_dir_get demo_dir 0x7ffffc00 demo_tag [0, 0, 0] (demo_state demo_log_dev)
     = Some (Val (demo_tag, [7, 9, 0]), t) \<and> l_dev t = demo_log_dev"
proof -
  have len: "length demo_log = 128" by (simp add: demo_log_def entry_bytes_def)
  have wf: "ram_wf 128 4 demo_log_dev" by (simp add: ram_wf_def demo_log_dev_def len)
  have v: "view_of (ram_blk 128) None (demo_state demo_log_dev) 1 = demo_log"
    by (simp add: view_of_def overlay_def pcached_def demo_defs ram_blk_def demo_log_dev_def len)
  have f: "log_find 0x7ffffc00 demo_tag 0 [(demo_tag, [7, 9])] = Inr (demo_tag, [7, 9])"
    by (simp add: splices_here_def demo_tag_fields LFS_TYPE_SPLICE_def)
  have r: "read_ready_to (ram_driver 128) (ram_wf 128 4) (ram_blk 128) 128 4 None RCache (fst (md_pair demo_dir)) (demo_state demo_log_dev)"
    by (rule demo_read_ready_None [OF wf]) (simp add: demo_dir_def)
  have l: "log_rep (view_of (ram_blk 128) None (demo_state demo_log_dev) (fst (md_pair demo_dir)))
      (unat (md_off demo_dir)) (md_etag demo_dir) [(demo_tag, [7, 9])]"
    using demo_log_rep by (simp del: log_rep.simps add: demo_dir_def v)
  obtain t where "lfs_dir_get demo_dir 0x7ffffc00 demo_tag [0, 0, 0] (demo_state demo_log_dev)
      = Some ((case log_find 0x7ffffc00 demo_tag 0 [(demo_tag, [7, 9])] of Inl e \<Rightarrow> Exc e
          | Inr (tag, data) \<Rightarrow> Val (tag, filled (take (unat (lfs_tag_size demo_tag)) [0, 0, 0]) data
              @ drop (unat (lfs_tag_size demo_tag)) [0, 0, 0])), t)"
    "l_dev t = l_dev (demo_state demo_log_dev)"
    using dir_get_refines_log [OF demo_device r l, of demo_tag "[0, 0, 0]" "0x7ffffc00"]
    by (auto simp: demo_dir_def demo_tag_fields moved_away_def move_shift_def demo_nomove)
  then show ?thesis
    by (intro exI [of _ t]) (simp only: f, simp add: demo_tag_fields filled_def demo_state_def)
qed

text \<open>C8 (roundtrip). An attribute appended to the log and written out with the cache is what a
  lookup of its tag under any mask finds: its tag and its bytes, whatever the log held before, as long as
  the global state records no pending move from this pair (a lookup would then skip the moved entry).\<close>

theorem committed_attr_is_found:
  assumes "block_device st dok blk bsz bcount"
    and "prog_ready_to st dok blk bsz bcount PCache (cm_block cm) (unat (cm_off cm)) s"
    and "unat (cm_off cm) + unat (lfs_tag_dsize tag) \<le> unat (cm_end cm)" "unat (cm_end cm) \<le> bsz"
    and "lfs_tag_isvalid tag" "\<not> lfs_tag_isdelete tag" "lfs_tag_type1 tag \<noteq> LFS_TYPE_SPLICE"
    and "length data = unat (lfs_tag_size tag)" "length data \<le> length buf"
    and "log_rep (view_of blk (Some PCache) s (cm_block cm)) (unat (cm_off cm)) (cm_ptag cm AND 0x7fffffff) es"
    and "cache_buffer (l_rcache s) \<noteq> cache_buffer (l_pcache s)"
      "cache_size (l_rcache s) \<le> length (l_bufs s (cache_buffer (l_rcache s)))"
      "unat (cfg_read_size (l_cfg s)) \<le> length (l_bufs s (cache_buffer (l_rcache s)))"
      "length (l_bufs s (cache_buffer (l_rcache s))) < 2 ^ 31"
    and "fst (md_pair dir) = cm_block cm" "md_off dir = cm_off cm + lfs_tag_dsize tag" "md_etag dir = tag"
    and "\<not> lfs_gstate_hasmovehere (l_gdisk s) (md_pair dir)"
  shows "\<exists>t. bnd (lfs_dir_commitattr cm tag (Bytes data)) (\<lambda>_. bnd (lfs_bd_sync PCache RCache False)
      (\<lambda>_. lfs_dir_get dir gmask tag buf)) s = Some (Val (tag, data @ drop (length data) buf), t)"
proof -
  have ds: "length data = unat (lfs_tag_dsize tag) - 4" using assms(6,8) by (simp add: unat_dsize)
  have fi: "slice_result (take (length data) buf) (if moved_away (l_gdisk s) (md_pair dir) gmask tag then Inl NoEntry
      else log_find gmask tag (move_shift (l_gdisk s) (md_pair dir) gmask tag) ((tag, data) # es)) = (Inr tag, data)"
    using assms(6,7,9,18) by (simp add: moved_away_def move_shift_def splices_here_def slice_result_def filled_def Let_def)
  obtain cm' t where r: "bnd (lfs_dir_commitattr cm tag (Bytes data)) (\<lambda>cm'. bnd (lfs_bd_sync PCache RCache False)
      (\<lambda>_. bnd (lfs_dir_get_buf dir gmask tag buf) (\<lambda>r. ret (cm', r)))) s
      = Some (Val (cm', Inr tag, data @ drop (length data) buf), t)"
    by (rule block_device.commit_get_correct [OF assms(1-5) ds assms(10-17,8,9) fi [symmetric]]) auto
  show ?thesis
    using r by (auto simp: lfs_dir_get_def bnd_def ret_def split: option.splits outcome.splits)
qed

theorem committed_attr_is_found_witness:
  "\<exists>t. bnd (lfs_dir_commitattr \<lparr>cm_block = 2, cm_off = 4, cm_ptag = - 1, cm_crc = 0, cm_begin = 0, cm_end = 120\<rparr>
        demo_tag (Bytes [7, 9])) (\<lambda>_. bnd (lfs_bd_sync PCache RCache False)
      (\<lambda>_. lfs_dir_get (demo_dir\<lparr>md_pair := (2, 0)\<rparr>) 0x7ffffc00 demo_tag [0, 0, 0])) demo_ram
    = Some (Val (demo_tag, [7, 9] @ drop (length [7 :: u8, 9]) [0, 0, 0]), t)"
proof (rule committed_attr_is_found [OF demo_device, where es = "[]"])
  have "lfs_tag_dsize demo_tag = 6" by (simp add: word_unat_eq_iff demo_tag_fields)
  then show "md_off (demo_dir\<lparr>md_pair := (2, 0)\<rparr>) = cm_off \<lparr>cm_block = 2, cm_off = 4, cm_ptag = - 1, cm_crc = 0,
      cm_begin = 0, cm_end = 120\<rparr> + lfs_tag_dsize demo_tag" by (simp add: demo_dir_def)
qed (simp_all add: demo_prog_ready demo_tag_fields demo_dir_def demo_nomove demo_view LFS_TYPE_SPLICE_def,
    simp_all add: demo_defs)

end
