(* ===== verification/AllocProps.thy ===== *)
theory AllocProps
  imports Alloc Frames LogProps
begin

text \<open>
  The block allocator.  Between two checkpoints the allocator walks round the disk once: its
  position, counted from the checkpoint, only grows, a block is handed out at a position it
  has passed, and it passes at most as many positions as there are blocks.  So no block is
  handed out twice, whatever the traversal that fills the window finds.
\<close>

subsection \<open>The walk round the disk\<close>

definition alloc_inv :: "'d lfs \<Rightarrow> bool" where
  "alloc_inv s \<longleftrightarrow> 0 < l_block_count s \<and> unat (l_block_count s) \<le> 2 ^ 31
    \<and> la_start (l_lookahead s) < l_block_count s \<and> la_next (l_lookahead s) \<le> la_size (l_lookahead s)
    \<and> la_size (l_lookahead s) - la_next (l_lookahead s) \<le> la_ckpoint (l_lookahead s)
    \<and> la_size (l_lookahead s) \<le> l_block_count s \<and> la_ckpoint (l_lookahead s) \<le> l_block_count s"

text \<open>Where the allocator looks next, and how many positions it may still look at.\<close>

definition alloc_pos :: "'d lfs \<Rightarrow> nat" where
  "alloc_pos s = unat (la_start (l_lookahead s)) + unat (la_next (l_lookahead s))"

abbreviation alloc_left :: "'d lfs \<Rightarrow> nat" where
  "alloc_left s \<equiv> unat (la_ckpoint (l_lookahead s))"

definition advanced :: "'d lfs \<Rightarrow> 'd lfs \<Rightarrow> bool" where
  "advanced s t \<longleftrightarrow> l_block_count t = l_block_count s \<and> alloc_inv t
    \<and> (\<exists>d. alloc_left s = alloc_left t + d
        \<and> alloc_pos t mod unat (l_block_count s) = (alloc_pos s + d) mod unat (l_block_count s))"

lemma advanced_refl: "alloc_inv s \<Longrightarrow> advanced s s"
  by (simp add: advanced_def)

lemma advanced_trans:
  assumes "advanced s t" "advanced t u"
  shows "advanced s u"
proof -
  let ?b = "unat (l_block_count s)"
  obtain d e where d: "alloc_left s = alloc_left t + d" "alloc_pos t mod ?b = (alloc_pos s + d) mod ?b"
    and e: "alloc_left t = alloc_left u + e" "alloc_pos u mod ?b = (alloc_pos t + e) mod ?b"
    using assms by (auto simp: advanced_def)
  have "(alloc_pos t + e) mod ?b = (alloc_pos s + d + e) mod ?b" by (rule mod_add_cong [OF d(2) refl])
  then have "alloc_pos u mod ?b = (alloc_pos s + (d + e)) mod ?b" using e by (simp add: add.assoc)
  then show ?thesis using assms d(1) e(1) unfolding advanced_def by (intro conjI exI [of _ "d + e"]) simp_all
qed

text \<open>Block \<open>b\<close> was handed out: it lies at a position that was passed.\<close>

definition handed_out :: "u32 \<Rightarrow> 'd lfs \<Rightarrow> 'd lfs \<Rightarrow> bool" where
  "handed_out b s t \<longleftrightarrow> (\<exists>e. alloc_left t + e < alloc_left s \<and> unat b = (alloc_pos s + e) mod unat (l_block_count s))"

lemma handed_out_later:
  assumes "advanced s t" "handed_out b t u"
  shows "handed_out b s u"
proof -
  let ?b = "unat (l_block_count s)"
  obtain d e where d: "alloc_left s = alloc_left t + d" "alloc_pos t mod ?b = (alloc_pos s + d) mod ?b"
    and e: "alloc_left u + e < alloc_left t" "unat b = (alloc_pos t + e) mod ?b"
    using assms by (auto simp: advanced_def handed_out_def)
  have "(alloc_pos t + e) mod ?b = (alloc_pos s + d + e) mod ?b" by (rule mod_add_cong [OF d(2) refl])
  then show ?thesis using d e by (auto simp: handed_out_def add.assoc intro!: exI [of _ "d + e"])
qed

lemma handed_out_mono: "handed_out b s t \<Longrightarrow> advanced t u \<Longrightarrow> handed_out b s u"
proof -
  assume "handed_out b s t" and a: "advanced t u"
  then obtain e where e: "alloc_left t + e < alloc_left s" "unat b = (alloc_pos s + e) mod unat (l_block_count s)"
    by (auto simp: handed_out_def)
  moreover have "alloc_left u + e < alloc_left s" using a e(1) by (auto simp: advanced_def)
  ultimately show ?thesis by (auto simp: handed_out_def)
qed

subsection \<open>The operations\<close>

lemma u_sub: "(b :: u32) \<le> a \<Longrightarrow> unat (a - b) = unat a - unat b"
  by (simp add: unat_sub_if' word_le_nat_alt)

lemma advance_step:
  assumes "alloc_inv s" "la_next (l_lookahead s) < la_size (l_lookahead s)"
  shows "vlp la_advance (\<lambda>_ t. advanced s t \<and> alloc_left s = alloc_left t + 1) s"
proof -
  let ?la = "l_lookahead s"
  have n: "unat (la_next ?la) < unat (la_size ?la)" using assms(2) by (simp add: word_less_nat_alt)
  have "unat (la_size ?la) < 2 ^ 32" using unsigned_less [of "la_size ?la"] by simp
  then have n1: "unat (la_next ?la + 1) = unat (la_next ?la) + 1"
    using n by (subst unat_plus_if') auto
  have l: "unat (la_size ?la) - unat (la_next ?la) \<le> unat (la_ckpoint ?la)"
    using assms n by (simp add: alloc_inv_def word_le_nat_alt u_sub)
  then have c1: "unat (la_ckpoint ?la - 1) = unat (la_ckpoint ?la) - 1" and c0: "0 < unat (la_ckpoint ?la)"
    using n by (auto simp: u_sub word_le_nat_alt)
  have le: "la_next ?la + 1 \<le> la_size ?la" using n by (simp add: word_le_nat_alt n1)
  have "\<exists>d. alloc_left s = alloc_left s - 1 + d \<and> Suc (alloc_pos s) mod b = (alloc_pos s + d) mod b" for b
    using c0 by (intro exI [of _ 1]) simp
  then show ?thesis
    using assms(1) n l le c0 by (simp add: la_advance_def run_simps advanced_def alloc_inv_def alloc_pos_def n1 c1
        word_le_nat_alt u_sub) auto
qed

lemma probe_step: "vlp la_probe (\<lambda>_ t. t = s) s"
  by (simp add: la_probe_def get_buf_def run_simps)

lemma skip_advances:
  assumes "alloc_inv s" "la_next (l_lookahead s) < la_size (l_lookahead s)"
  shows "vlp alloc_skip (\<lambda>_ t. advanced s t \<and> alloc_left t < alloc_left s) s"
  unfolding alloc_skip_def
proof (rule vlp_mloop [where I = "\<lambda>_ t. advanced s t \<and> la_next (l_lookahead t) < la_size (l_lookahead t)"])
  fix x t assume t: "advanced s t \<and> la_next (l_lookahead t) < la_size (l_lookahead t)"
  then have inv: "alloc_inv t" "alloc_left t \<le> alloc_left s" by (auto simp: advanced_def)
  have adv: "advanced s u" "alloc_left u < alloc_left s" if "advanced t u" "alloc_left t = Suc (alloc_left u)" for u
    using t that inv advanced_trans by auto
  show "vlp (bnd la_advance (\<lambda>_. bnd (gets l_lookahead) (\<lambda>la.
      if la_size la \<le> la_next la then ret (Inr ())
      else bnd la_probe (\<lambda>free. if free then ret (Inr ()) else ret (Inl ())))))
    (\<lambda>r t. case r of Inl y \<Rightarrow> advanced s t \<and> la_next (l_lookahead t) < la_size (l_lookahead t)
      | Inr z \<Rightarrow> advanced s t \<and> alloc_left t < alloc_left s) t"
    by (rule vlp_bnd, rule vlp_mono [OF advance_step [OF inv(1)]])
      (use t in \<open>auto simp: run_simps not_le intro: adv intro!: vlp_bnd vlp_mono [OF probe_step]\<close>)
qed (use assms in \<open>simp add: advanced_refl\<close>)

lemma pos_block:
  assumes "alloc_inv s"
  shows "unat ((la_start (l_lookahead s) + la_next (l_lookahead s)) mod l_block_count s)
    = alloc_pos s mod unat (l_block_count s)"
proof -
  have "unat (la_start (l_lookahead s) + la_next (l_lookahead s)) = alloc_pos s"
    using assms by (subst unat_plus_if') (auto simp: alloc_pos_def alloc_inv_def word_less_nat_alt word_le_nat_alt)
  then show ?thesis by (simp add: unat_mod)
qed

lemma window_hands_out:
  assumes "alloc_inv s"
  shows "vlp alloc_window (\<lambda>r t. advanced s t \<and> (case r of
      None \<Rightarrow> la_size (l_lookahead t) \<le> la_next (l_lookahead t) | Some b \<Rightarrow> handed_out b s t)) s"
  unfolding alloc_window_def
proof (rule vlp_mloop [where I = "\<lambda>_ t. advanced s t"])
  fix x t assume t: "advanced s t"
  then have inv: "alloc_inv t" by (simp add: advanced_def)
  have found: "advanced s u \<and> handed_out ((la_start (l_lookahead t) + la_next (l_lookahead t)) mod l_block_count t) s u"
    if "la_next (l_lookahead t) < la_size (l_lookahead t)" "advanced t u \<and> alloc_left u < alloc_left t" for u
  proof
    show "advanced s u" using that(2) advanced_trans [OF t] by blast
    have "handed_out ((la_start (l_lookahead t) + la_next (l_lookahead t)) mod l_block_count t) t u"
      unfolding handed_out_def using that(2) pos_block [OF inv] by (intro exI [of _ 0]) simp
    then show "handed_out ((la_start (l_lookahead t) + la_next (l_lookahead t)) mod l_block_count t) s u"
      by (rule handed_out_later [OF t])
  qed
  let ?b = "(la_start (l_lookahead t) + la_next (l_lookahead t)) mod l_block_count t"
  have sk: "vlp alloc_skip (\<lambda>_ u. advanced s u \<and> handed_out ?b s u) t" if c: "la_next (l_lookahead t) < la_size (l_lookahead t)"
    by (rule vlp_mono [OF skip_advances [OF inv c]]) (rule found [OF c])
  have av: "vlp la_advance (\<lambda>_ u. advanced s u) t" if c: "la_next (l_lookahead t) < la_size (l_lookahead t)"
    by (rule vlp_mono [OF advance_step [OF inv c]]) (use advanced_trans [OF t] in blast)
  show "vlp (bnd (gets l_lookahead) (\<lambda>la. if la_next la < la_size la then
      bnd la_probe (\<lambda>free. if free then
        bnd (gets l_block_count) (\<lambda>bc. bnd (check (bc \<noteq> 0)) (\<lambda>_. bnd alloc_skip (\<lambda>_.
        ret (Inr (Some ((la_start la + la_next la) mod bc))))))
      else bnd la_advance (\<lambda>_. ret (Inl ())))
    else ret (Inr None)))
    (\<lambda>r t. case r of Inl y \<Rightarrow> advanced s t
      | Inr z \<Rightarrow> advanced s t \<and> (case z of None \<Rightarrow> la_size (l_lookahead t) \<le> la_next (l_lookahead t) | Some b \<Rightarrow> handed_out b s t)) t"
    using t by (auto simp: run_simps intro!: vlp_bnd vlp_mono [OF probe_step] vlp_mono [OF sk] vlp_mono [OF av])
qed (use assms in \<open>simp add: advanced_refl\<close>)

lemma scan_keeps_pos:
  assumes "alloc_inv s"
  shows "vlp lfs_alloc_scan (\<lambda>_ t. advanced s t) s"
proof -
  let ?la = "l_lookahead s" and ?b = "l_block_count s"
  have keep: "vlp (attempt (lfs_fs_traverse_raw (\<lambda>block _. lfs_alloc_lookahead block) () True))
      (\<lambda>_ t. l_lookahead t = l_lookahead u \<and> l_block_count t = l_block_count u) u" for u :: "'a lfs"
    using keepsD [OF ro.fs_traverse [OF ro.alloc_lookahead], of _ _ _ u]
    by (auto simp: vlp_def attempt_def frame_defs split: option.splits outcome.splits)
  have adv: "advanced s t" if t: "l_block_count t = ?b" "la_start (l_lookahead t) = (la_start ?la + la_next ?la) mod ?b"
      "la_next (l_lookahead t) = 0" "la_ckpoint (l_lookahead t) = la_ckpoint ?la"
      "la_size (l_lookahead t) \<le> la_ckpoint ?la" for t :: "'a lfs"
  proof -
    have "(la_start ?la + la_next ?la) mod ?b < ?b"
      using assms by (simp add: alloc_inv_def word_less_nat_alt unat_mod)
    then have inv: "alloc_inv t"
      using assms t by (auto simp: alloc_inv_def word_le_nat_alt)
    have "alloc_pos t = alloc_pos s mod unat ?b"
      using pos_block [OF assms] t by (simp add: alloc_pos_def)
    then show ?thesis using inv t by (simp add: advanced_def)
  qed
  show ?thesis unfolding lfs_alloc_scan_def get_buf_def put_buf_def
    by (auto simp: run_simps intro!: vlp_bnd vlp_mono [OF keep] adv split: sum.splits)
qed

lemma alloc_hands_out:
  assumes "alloc_inv s"
  shows "vlp lfs_alloc (\<lambda>b t. advanced s t \<and> handed_out b s t) s"
  unfolding lfs_alloc_def
proof (rule vlp_mloop [where I = "\<lambda>_ t. advanced s t"])
  fix x t assume t: "advanced s t"
  have scan: "vlp lfs_alloc_scan (\<lambda>_ v. advanced s v) u" if "advanced s u" for u
    by (rule vlp_mono [OF scan_keeps_pos], use that in \<open>simp add: advanced_def\<close>, rule advanced_trans [OF that])
  show "vlp (bnd alloc_window (\<lambda>r. case r of
      Some block \<Rightarrow> ret (Inr block)
    | None \<Rightarrow> bnd (gets l_lookahead) (\<lambda>la.
        if la_ckpoint la = 0 then throw NoSpace else bnd lfs_alloc_scan (\<lambda>_. ret (Inl ())))))
    (\<lambda>r t. case r of Inl y \<Rightarrow> advanced s t | Inr b \<Rightarrow> advanced s t \<and> handed_out b s t) t"
  proof (rule vlp_bnd, rule vlp_mono [OF window_hands_out])
    show "alloc_inv t" using t by (simp add: advanced_def)
    fix r u assume u: "advanced t u \<and> (case r of
      None \<Rightarrow> la_size (l_lookahead u) \<le> la_next (l_lookahead u) | Some b \<Rightarrow> handed_out b t u)"
    then have "advanced s u" using t advanced_trans by blast
    with u show "vlp (case r of Some block \<Rightarrow> ret (Inr block)
      | None \<Rightarrow> bnd (gets l_lookahead) (\<lambda>la.
          if la_ckpoint la = 0 then throw NoSpace else bnd lfs_alloc_scan (\<lambda>_. ret (Inl ()))))
      (\<lambda>r t. case r of Inl y \<Rightarrow> advanced s t | Inr b \<Rightarrow> advanced s t \<and> handed_out b s t) u"
      by (auto simp: run_simps handed_out_later [OF t] intro!: vlp_bnd vlp_mono [OF scan] split: option.splits)
  qed
qed (use assms in \<open>simp add: advanced_refl\<close>)

subsection \<open>What the map of the window says\<close>

text \<open>The free positions of the window from \<open>next\<close> on.\<close>

definition window_map :: "'d lfs \<Rightarrow> bytes" where
  "window_map s = l_bufs s (la_buffer (l_lookahead s))"

definition window_wf :: "'d lfs \<Rightarrow> bool" where
  "window_wf s \<longleftrightarrow> alloc_inv s \<and> unat (la_size (l_lookahead s)) \<le> 8 * length (window_map s)"

definition free_at :: "'d lfs \<Rightarrow> nat \<Rightarrow> bool" where
  "free_at s i \<longleftrightarrow> la_isfree (window_map s) (word_of_nat i)"

text \<open>A state of the walk inside one window: only \<open>next\<close> and the checkpoint have moved.\<close>

definition moved_on :: "'d lfs \<Rightarrow> 'd lfs \<Rightarrow> bool" where
  "moved_on s t \<longleftrightarrow> window_wf t \<and> (\<exists>la. t = s\<lparr>l_lookahead := la\<rparr>
    \<and> la_start la = la_start (l_lookahead s) \<and> la_size la = la_size (l_lookahead s)
    \<and> la_buffer la = la_buffer (l_lookahead s) \<and> la_next (l_lookahead s) \<le> la_next la
    \<and> unat (la_next la) + unat (la_ckpoint la) = unat (la_next (l_lookahead s)) + alloc_left s)"

lemma moved_on_refl: "window_wf s \<Longrightarrow> moved_on s s"
  by (auto simp: moved_on_def intro: exI [of _ "l_lookahead s"])

lemma moved_on_trans: "moved_on s t \<Longrightarrow> moved_on t u \<Longrightarrow> moved_on s u"
  by (fastforce simp: moved_on_def)

lemma moved_on_free: "moved_on s t \<Longrightarrow> free_at t i = free_at s i"
  by (auto simp: moved_on_def free_at_def window_map_def)

lemma advance_moves:
  assumes "window_wf s" "la_next (l_lookahead s) < la_size (l_lookahead s)"
  obtains t where "la_advance s = Some (Val (), t)" "moved_on s t"
    "unat (la_next (l_lookahead t)) = unat (la_next (l_lookahead s)) + 1"
proof -
  have n: "unat (la_next (l_lookahead s)) < unat (la_size (l_lookahead s))" using assms(2) by (simp add: word_less_nat_alt)
  have "unat (la_size (l_lookahead s)) < 2 ^ 32" using unsigned_less [of "la_size (l_lookahead s)"] by simp
  then have n1: "unat (la_next (l_lookahead s) + 1) = unat (la_next (l_lookahead s)) + 1"
    using n by (subst unat_plus_if') auto
  obtain t where t: "la_advance s = Some (Val (), t)" "t = s\<lparr>l_lookahead := (l_lookahead s)\<lparr>la_next := la_next (l_lookahead s) + 1,
      la_ckpoint := la_ckpoint (l_lookahead s) - 1\<rparr>\<rparr>"
    by (simp add: la_advance_def run_simps)
  have "alloc_inv t" "alloc_left s = alloc_left t + 1"
    using vlpD [OF advance_step t(1)] assms by (auto simp: window_wf_def advanced_def)
  then have "moved_on s t" using assms(1) n1 t(2)
    by (auto simp: moved_on_def window_wf_def window_map_def word_le_nat_alt)
  with t n1 show ?thesis by (intro that) auto
qed

lemma probe_reads:
  assumes "window_wf s" "la_next (l_lookahead s) < la_size (l_lookahead s)"
  shows "la_probe s = Some (Val (free_at s (unat (la_next (l_lookahead s)))), s)"
proof -
  have "unat (la_next (l_lookahead s) div 8) < length (window_map s)"
    using assms by (auto simp: window_wf_def unat_div word_less_nat_alt intro: less_mult_imp_div_less)
  then show ?thesis
    by (simp add: la_probe_def get_buf_def run_simps free_at_def window_map_def)
qed

lemma skip_moves:
  assumes "window_wf s" "la_next (l_lookahead s) < la_size (l_lookahead s)"
  shows "wp alloc_skip (\<lambda>r t. r = Val () \<and> moved_on s t) s"
  unfolding alloc_skip_def
proof (rule wp_mloop [where I = "\<lambda>_ t. moved_on s t \<and> la_next (l_lookahead t) < la_size (l_lookahead t)"
      and \<mu> = "\<lambda>_ t. unat (la_size (l_lookahead s)) - unat (la_next (l_lookahead t))"])
  fix x t assume t: "moved_on s t \<and> la_next (l_lookahead t) < la_size (l_lookahead t)"
  then have w: "window_wf t" and sz: "la_size (l_lookahead t) = la_size (l_lookahead s)" by (auto simp: moved_on_def)
  obtain u where u: "la_advance t = Some (Val (), u)" "moved_on t u"
      "unat (la_next (l_lookahead u)) = unat (la_next (l_lookahead t)) + 1"
    by (rule advance_moves [OF w]) (use t in auto)
  have su: "moved_on s u" "window_wf u" "la_size (l_lookahead u) = la_size (l_lookahead s)"
    using t u(2) moved_on_trans by (auto simp: moved_on_def sz)
  have x: "bnd la_advance k t = k () u" for k :: "unit \<Rightarrow> ('a, unit + unit) fs"
    by (rule bnd_run_Val) (rule u(1))
  show "wp (bnd la_advance (\<lambda>_. bnd (gets l_lookahead) (\<lambda>la.
      if la_size la \<le> la_next la then ret (Inr ())
      else bnd la_probe (\<lambda>free. if free then ret (Inr ()) else ret (Inl ())))))
    (\<lambda>r v. case r of
      Val (Inl y) \<Rightarrow> (moved_on s v \<and> la_next (l_lookahead v) < la_size (l_lookahead v))
        \<and> unat (la_size (l_lookahead s)) - unat (la_next (l_lookahead v)) < unat (la_size (l_lookahead s)) - unat (la_next (l_lookahead t))
    | Val (Inr z) \<Rightarrow> Val z = Val () \<and> moved_on s v
    | Exc e \<Rightarrow> Exc e = Val () \<and> moved_on s v | Panic \<Rightarrow> Panic = Val () \<and> moved_on s v) t"
    using t u(3) su probe_reads [OF su(2)] sz
    by (auto simp: wp_def x run_simps bnd_run_Val not_le word_less_nat_alt)
qed (use assms in \<open>simp add: moved_on_refl\<close>)

lemma find_skip: "find P xs = None \<Longrightarrow> find P (xs @ ys) = find P ys"
  by (induction xs) (auto split: if_splits)

lemma find_upt_skip:
  assumes "a \<le> m" "m \<le> n" "\<And>i. a \<le> i \<Longrightarrow> i < m \<Longrightarrow> \<not> P i"
  shows "find P [a..<n] = find P [m..<n]"
proof -
  have "[a..<n] = [a..<m] @ [m..<n]" using assms(1,2) by (metis le_add_diff_inverse upt_add_eq_append)
  moreover have "find P [a..<m] = None" using assms(3) by (auto simp: find_None_iff)
  ultimately show ?thesis by (simp add: find_skip)
qed

lemma window_finds:
  assumes "window_wf s"
  shows "wp alloc_window (\<lambda>r t. r = Val (map_option
      (\<lambda>i. word_of_nat ((unat (la_start (l_lookahead s)) + i) mod unat (l_block_count s)))
      (find (free_at s) [unat (la_next (l_lookahead s))..<unat (la_size (l_lookahead s))]))
      \<and> moved_on s t \<and> (r = Val None \<longrightarrow> la_next (l_lookahead t) = la_size (l_lookahead t))) s"
    (is "wp _ (\<lambda>r t. ?Q r t) _")
  unfolding alloc_window_def
proof (rule wp_mloop [where I = "\<lambda>_ t. moved_on s t \<and> (\<forall>i. unat (la_next (l_lookahead s)) \<le> i \<longrightarrow> i < unat (la_next (l_lookahead t)) \<longrightarrow> \<not> free_at s i)"
      and \<mu> = "\<lambda>_ t. unat (la_size (l_lookahead s)) - unat (la_next (l_lookahead t))"])
  fix x t assume t: "moved_on s t \<and> (\<forall>i. unat (la_next (l_lookahead s)) \<le> i \<longrightarrow> i < unat (la_next (l_lookahead t)) \<longrightarrow> \<not> free_at s i)"
  let ?n = "unat (la_next (l_lookahead t))"
  have w: "window_wf t" and eq: "la_size (l_lookahead t) = la_size (l_lookahead s)" "la_start (l_lookahead t) = la_start (l_lookahead s)"
      "l_block_count t = l_block_count s" and ge: "unat (la_next (l_lookahead s)) \<le> ?n"
    using t by (auto simp: moved_on_def word_le_nat_alt)
  have le: "?n \<le> unat (la_size (l_lookahead s))" "l_block_count t \<noteq> 0" "unat (l_block_count t) \<noteq> 0"
    using w eq by (auto simp: window_wf_def alloc_inv_def word_le_nat_alt unat_eq_zero)
  have f: "find (free_at s) [unat (la_next (l_lookahead s))..<unat (la_size (l_lookahead s))]
      = find (free_at s) [?n..<unat (la_size (l_lookahead s))]"
    by (rule find_upt_skip [OF ge le(1)]) (use t in blast)
  have b: "(la_start (l_lookahead t) + la_next (l_lookahead t)) mod l_block_count t
      = word_of_nat ((unat (la_start (l_lookahead s)) + ?n) mod unat (l_block_count s))"
  proof -
    have "unat ((la_start (l_lookahead t) + la_next (l_lookahead t)) mod l_block_count t)
        = (unat (la_start (l_lookahead s)) + ?n) mod unat (l_block_count s)"
      using pos_block [of t] w eq by (simp add: alloc_pos_def window_wf_def)
    from arg_cong [OF this, of "word_of_nat :: nat \<Rightarrow> u32"] show ?thesis by simp
  qed
  show "wp (bnd (gets l_lookahead) (\<lambda>la. if la_next la < la_size la then
      bnd la_probe (\<lambda>free. if free then
        bnd (gets l_block_count) (\<lambda>bc. bnd (check (bc \<noteq> 0)) (\<lambda>_. bnd alloc_skip (\<lambda>_.
        ret (Inr (Some ((la_start la + la_next la) mod bc))))))
      else bnd la_advance (\<lambda>_. ret (Inl ())))
    else ret (Inr None)))
    (\<lambda>r v. case r of
      Val (Inl y) \<Rightarrow> (moved_on s v \<and> (\<forall>i. unat (la_next (l_lookahead s)) \<le> i \<longrightarrow> i < unat (la_next (l_lookahead v)) \<longrightarrow> \<not> free_at s i))
        \<and> unat (la_size (l_lookahead s)) - unat (la_next (l_lookahead v)) < unat (la_size (l_lookahead s)) - unat (la_next (l_lookahead t))
    | Val (Inr z) \<Rightarrow> ?Q (Val z) v | Exc e \<Rightarrow> ?Q (Exc e) v | Panic \<Rightarrow> ?Q Panic v) t"
  proof (cases "la_next (l_lookahead t) < la_size (l_lookahead t)")
    case False
    then have r: "find (free_at s) [?n..<unat (la_size (l_lookahead s))] = None" using eq by (simp add: word_less_nat_alt)
    have "moved_on s t" "la_next (l_lookahead t) = la_size (l_lookahead t)"
      using t False w by (auto simp: window_wf_def alloc_inv_def)
    then show ?thesis unfolding f r using False by (simp add: run_simps)
  next
    case True
    have pr: "la_probe t = Some (Val (free_at s ?n), t)" using probe_reads [OF w True] moved_on_free [of s t] t by simp
    have x: "bnd la_probe k t = k (free_at s ?n) t" for k :: "bool \<Rightarrow> ('a, unit + u32 option) fs"
      by (rule bnd_run_Val) (rule pr)
    show ?thesis
    proof (cases "free_at s ?n")
      case free: True
      have "[?n..<unat (la_size (l_lookahead s))] = ?n # [Suc ?n..<unat (la_size (l_lookahead s))]"
        using True eq by (simp add: word_less_nat_alt upt_conv_Cons)
      then have r: "find (free_at s) [?n..<unat (la_size (l_lookahead s))] = Some ?n" using free by simp
      obtain u where u: "alloc_skip t = Some (Val (), u)" "moved_on t u"
        using skip_moves [OF w True] by (auto elim: wpE)
      then have su: "moved_on s u" using t moved_on_trans by blast
      have y: "bnd alloc_skip k t = k () u" for k :: "unit \<Rightarrow> ('a, unit + u32 option) fs"
        by (rule bnd_run_Val) (rule u(1))
      show ?thesis unfolding f r using True free le(2) su b by (simp add: wp_def x y run_simps)
    next
      case used: False
      obtain u where u: "la_advance t = Some (Val (), u)" "moved_on t u" "unat (la_next (l_lookahead u)) = ?n + 1"
        by (rule advance_moves [OF w True])
      have su: "moved_on s u" using t u(2) moved_on_trans by blast
      have no: "\<forall>i. unat (la_next (l_lookahead s)) \<le> i \<longrightarrow> i < unat (la_next (l_lookahead u)) \<longrightarrow> \<not> free_at s i"
        using t used u(3) by (auto simp: less_Suc_eq)
      have y: "bnd la_advance k t = k () u" for k :: "unit \<Rightarrow> ('a, unit + u32 option) fs"
        by (rule bnd_run_Val) (rule u(1))
      have "unat (la_size (l_lookahead s)) - unat (la_next (l_lookahead u)) < unat (la_size (l_lookahead s)) - ?n"
        using True eq u(3) by (simp add: word_less_nat_alt)
      then show ?thesis using True used su no by (simp add: wp_def x y run_simps)
    qed
  qed
qed (use assms in \<open>simp add: moved_on_refl\<close>)

subsection \<open>Marking a block\<close>

lemma and_bit_zero: "n < 8 \<Longrightarrow> (x :: u8) AND push_bit n 1 = 0 \<longleftrightarrow> \<not> bit x n"
  by (simp add: push_bit_eq_mult and_exp_eq_0_iff_not_bit)

lemma la_isfree_bit: "la_isfree buf i \<longleftrightarrow> \<not> bit (buf ! (unat i div 8)) (unat i mod 8)"
  unfolding la_isfree_def by (subst and_bit_zero) (simp_all add: unat_div unat_mod)

lemma la_isfree_mark:
  assumes "unat k div 8 < length buf"
  shows "la_isfree (buf[unat k div 8 := buf ! (unat k div 8) OR push_bit (unat k mod 8) 1]) i
    \<longleftrightarrow> la_isfree buf i \<and> i \<noteq> k"
proof -
  have "i = k \<longleftrightarrow> unat i div 8 = unat k div 8 \<and> unat i mod 8 = unat k mod 8"
    by (metis div_mult_mod_eq word_unat_eq_iff)
  then show ?thesis
    using assms by (cases "unat i div 8 = unat k div 8") (auto simp: la_isfree_bit bit_simps)
qed

lemma window_offset:
  fixes block start bc :: u32
  assumes "block < bc" "start < bc" "unat bc \<le> 2 ^ 31"
  shows "unat ((block - start + bc) mod bc) = (unat block + unat bc - unat start) mod unat bc"
proof -
  have "unat (block - start + bc) = unat block + unat bc - unat start \<or> unat (block - start + bc) = unat block - unat start + unat bc"
    using assms unsigned_less [of block] by (auto simp: unat_plus_if' unat_sub_if' word_less_nat_alt)
  then show ?thesis using assms by (cases "start \<le> block") (auto simp: unat_mod word_less_nat_alt word_le_nat_alt unat_plus_if' unat_sub_if')
qed

lemma mod_turn:
  fixes a b :: nat
  assumes "a < n" "b < n" "i < n"
  shows "(b + n - a) mod n = i \<longleftrightarrow> (a + i) mod n = b"
proof (cases "a \<le> b")
  case True
  then have "(b + n - a) mod n = b - a" using assms by (simp add: mod_if)
  then show ?thesis using True assms by (auto simp: mod_if)
next
  case False
  then have "(b + n - a) mod n = b + n - a" using assms by simp
  then show ?thesis using False assms by (auto simp: mod_if)
qed

lemma lookahead_marks:
  assumes "window_wf s" "block < l_block_count s"
  obtains t where "lfs_alloc_lookahead block s = Some (Val (), t)" "l_lookahead t = l_lookahead s" "window_wf t"
    "\<And>i. i < unat (la_size (l_lookahead s)) \<Longrightarrow>
      free_at t i \<longleftrightarrow> free_at s i \<and> (unat (la_start (l_lookahead s)) + i) mod unat (l_block_count s) \<noteq> unat block"
proof -
  let ?la = "l_lookahead s" and ?bc = "l_block_count s" and ?buf = "window_map s"
  let ?off = "(block - la_start ?la + ?bc) mod ?bc"
  have inv: "alloc_inv s" and sz: "unat (la_size ?la) \<le> 8 * length ?buf" using assms(1) by (auto simp: window_wf_def)
  have u: "unat ?off = (unat block + unat ?bc - unat (la_start ?la)) mod unat ?bc"
    by (rule window_offset) (use inv assms(2) in \<open>auto simp: alloc_inv_def\<close>)
  have at: "(unat (la_start ?la) + i) mod unat ?bc = unat block \<longleftrightarrow> unat ?off = i" if "i < unat (la_size ?la)" for i
    unfolding u by (subst mod_turn) (use that inv assms(2) in \<open>auto simp: alloc_inv_def word_less_nat_alt word_le_nat_alt\<close>)
  have bc: "?bc \<noteq> 0" using inv by (auto simp: alloc_inv_def)
  show ?thesis
  proof (cases "?off < la_size ?la")
    case False
    then have "unat ?off \<noteq> i" if "i < unat (la_size ?la)" for i using that by (auto simp: word_less_nat_alt)
    then show ?thesis
      by (intro that [of s]) (use False assms(1) at bc in \<open>auto simp: lfs_alloc_lookahead_def Let_def run_simps\<close>)
  next
    case True
    then have lt: "unat ?off div 8 < length ?buf" using sz by (auto simp: word_less_nat_alt intro: less_mult_imp_div_less)
    let ?t = "s\<lparr>l_bufs := (l_bufs s)(la_buffer ?la := ?buf[unat ?off div 8 := ?buf ! (unat ?off div 8) OR push_bit (unat ?off mod 8) 1])\<rparr>"
    have run: "lfs_alloc_lookahead block s = Some (Val (), ?t)"
      using True lt bc by (simp add: lfs_alloc_lookahead_def Let_def run_simps get_buf_def put_buf_def window_map_def unat_div unat_mod)
    have m: "free_at ?t i \<longleftrightarrow> free_at s i \<and> word_of_nat i \<noteq> ?off" for i
      using la_isfree_mark [OF lt] by (simp add: free_at_def window_map_def)
    have w: "word_of_nat i \<noteq> ?off \<longleftrightarrow> unat ?off \<noteq> i" if "i < unat (la_size ?la)" for i
    proof -
      have "unat (la_size ?la) < 2 ^ 32" using unsigned_less [of "la_size ?la"] by simp
      then have "unat (word_of_nat i :: u32) = i" using that by (simp add: unat_of_nat)
      then show ?thesis by (simp only: word_unat_eq_iff) auto
    qed
    show ?thesis
      by (rule that [OF run]) (use m w at assms(1) in \<open>auto simp: window_wf_def alloc_inv_def window_map_def\<close>)
  qed
qed

subsection \<open>Properties\<close>

text \<open>A series of allocations with other work before each of them.\<close>

primrec alloc_script :: "('d, unit) fs list \<Rightarrow> ('d, u32 list) fs" where
  "alloc_script [] = ret []"
| "alloc_script (c # cs) = bnd c (\<lambda>_. bnd lfs_alloc (\<lambda>b. bnd (alloc_script cs) (\<lambda>bs. ret (b # bs))))"

definition lookahead_frame :: "'d lfs \<Rightarrow> 'd lfs \<Rightarrow> bool" where
  "lookahead_frame s t \<longleftrightarrow> l_lookahead t = l_lookahead s \<and> l_block_count t = l_block_count s"

lemma frame_advanced: "alloc_inv s \<Longrightarrow> lookahead_frame s t \<Longrightarrow> advanced s t"
  by (simp add: advanced_def lookahead_frame_def alloc_inv_def alloc_pos_def)

lemma handed_out_less: "alloc_inv s \<Longrightarrow> handed_out b s t \<Longrightarrow> b < l_block_count s"
  by (auto simp: handed_out_def alloc_inv_def word_less_nat_alt)

lemma handed_out_apart:
  assumes "alloc_inv s" "handed_out b s t" "advanced s t" "handed_out b' t u"
  shows "b \<noteq> b'"
proof -
  let ?n = "unat (l_block_count s)"
  obtain d where d: "alloc_left s = alloc_left t + d" "alloc_pos t mod ?n = (alloc_pos s + d) mod ?n"
    using assms(3) by (auto simp: advanced_def)
  obtain e where e: "e < d" "unat b = (alloc_pos s + e) mod ?n" using assms(2) d(1) by (auto simp: handed_out_def)
  obtain e' where "alloc_left u + e' < alloc_left t" "unat b' = (alloc_pos t + e') mod unat (l_block_count t)"
    using assms(4) by (auto simp: handed_out_def)
  with assms(3) have e': "e' < alloc_left t" "unat b' = (alloc_pos t + e') mod ?n" by (simp_all add: advanced_def)
  have "unat b' = (alloc_pos s + (d + e')) mod ?n" using mod_add_cong [OF d(2) refl, of e'] e'(2) by (simp add: add.assoc)
  moreover have "d + e' < e + ?n" using d(1) e'(1) assms(1) by (auto simp: alloc_inv_def word_le_nat_alt)
  moreover have "(alloc_pos s + e) mod ?n \<noteq> (alloc_pos s + (d + e')) mod ?n" if "d + e' < e + ?n"
  proof
    assume "(alloc_pos s + e) mod ?n = (alloc_pos s + (d + e')) mod ?n"
    then have "?n dvd (alloc_pos s + (d + e')) - (alloc_pos s + e)"
      using e(1) by (intro mod_eq_dvd_iff_nat [THEN iffD1]) simp_all
    then have "?n dvd d + e' - e" by simp
    with that e(1) show False by (auto dest!: dvd_imp_le)
  qed
  ultimately show ?thesis using e(2) by metis
qed

lemma script_hands_out:
  assumes "alloc_inv s" "\<forall>c \<in> set cs. keeps lookahead_frame c"
  shows "vlp (alloc_script cs) (\<lambda>bs t. distinct bs \<and> advanced s t \<and> (\<forall>b \<in> set bs. handed_out b s t)) s"
  using assms
proof (induction cs arbitrary: s)
  case Nil
  then show ?case by (simp add: vlp_def ret_def advanced_refl)
next
  case (Cons c cs)
  have c: "vlp c (\<lambda>_ t. advanced s t) s"
    using Cons.prems keepsD [of lookahead_frame c s] frame_advanced by (auto simp: vlp_def)
  have al: "vlp lfs_alloc (\<lambda>b u. advanced t u \<and> handed_out b t u) t" if "advanced s t" for t
    by (rule alloc_hands_out) (use that in \<open>simp add: advanced_def\<close>)
  have rest: "vlp (alloc_script cs) (\<lambda>bs v. distinct (b # bs) \<and> advanced s v \<and> (\<forall>b \<in> set (b # bs). handed_out b s v)) u"
    if t: "advanced s t" and u: "advanced t u \<and> handed_out b t u" for t u b
  proof -
    have su: "advanced s u" using t u advanced_trans by blast
    have inv: "alloc_inv t" "alloc_inv u" using t u by (simp_all add: advanced_def)
    have ih: "vlp (alloc_script cs) (\<lambda>bs v. distinct bs \<and> advanced u v \<and> (\<forall>b' \<in> set bs. handed_out b' u v)) u"
      by (rule Cons.IH [OF inv(2)]) (use Cons.prems in simp)
    have "distinct (b # bs) \<and> advanced s v \<and> (\<forall>b \<in> set (b # bs). handed_out b s v)"
      if "distinct bs \<and> advanced u v \<and> (\<forall>b' \<in> set bs. handed_out b' u v)" for bs v
    proof -
      have "b \<notin> set bs" using that u handed_out_apart [OF inv(1), of b u _ v] by blast
      then show ?thesis
        using that advanced_trans [OF su] handed_out_later [OF su] u handed_out_mono [OF handed_out_later [OF t], of b u v]
        by auto
    qed
    then show ?thesis by (rule vlp_mono [OF ih])
  qed
  show ?case
    unfolding alloc_script.simps
    by (intro vlp_bnd vlp_mono [OF c] vlp_mono [OF al] vlp_mono [OF rest]) (auto simp: run_simps)
qed

text \<open>C21 (safety). Between two checkpoints the allocator hands no block out twice, and only blocks
  of the disk: in any series of allocations, with any work in between that leaves the
  allocator's window alone, and whatever the scans of the file system find, the blocks are
  distinct.\<close>

theorem allocations_distinct:
  assumes "alloc_inv s" "\<forall>c \<in> set cs. keeps lookahead_frame c"
    and "alloc_script cs s = Some (Val bs, t)"
  shows "distinct bs \<and> (\<forall>b \<in> set bs. b < l_block_count s)"
  using vlpD [OF script_hands_out [OF assms(1,2)] assms(3)] handed_out_less [OF assms(1)] by blast

definition demo_alloc :: "ram_storage lfs" where
  "demo_alloc = demo_ram\<lparr>l_lookahead := \<lparr>la_start = 3, la_size = 4, la_next = 0, la_ckpoint = 4, la_buffer = 3\<rparr>,
     l_bufs := (\<lambda>_. [])(3 := [10])\<rparr>"

lemma demo_alloc_sel:
  "l_lookahead demo_alloc = \<lparr>la_start = 3, la_size = 4, la_next = 0, la_ckpoint = 4, la_buffer = 3\<rparr>"
  "l_bufs demo_alloc 3 = [10]" "l_block_count demo_alloc = 4" "l_dev demo_alloc = ram_new 128 4"
  by (simp_all add: demo_alloc_def demo_state_def)

lemma demo_alloc_wf: "window_wf demo_alloc" "alloc_inv demo_alloc"
  by (simp_all add: window_wf_def alloc_inv_def window_map_def demo_alloc_sel)

theorem allocations_distinct_witness:
  "\<exists>bs t. alloc_script [ret (), modify (\<lambda>s. s\<lparr>l_seed := 5\<rparr>)] demo_alloc = Some (Val bs, t)
    \<and> bs = [3, 1] \<and> distinct bs \<and> (3 :: u32) < l_block_count demo_alloc"
proof -
  have "case alloc_script [ret (), modify (\<lambda>s. s\<lparr>l_seed := 5\<rparr>)] demo_alloc of Some (Val bs, t) \<Rightarrow> bs = [3, 1] | _ \<Rightarrow> False"
    by code_simp
  then obtain t where "alloc_script [ret (), modify (\<lambda>s. s\<lparr>l_seed := 5\<rparr>)] demo_alloc = Some (Val [3, 1], t)"
    by (auto split: option.splits outcome.splits)
  moreover from allocations_distinct [OF demo_alloc_wf(2) _ this]
  have "distinct [3 :: u32, 1] \<and> (3 :: u32) < l_block_count demo_alloc"
    by (auto simp: keeps_def run_simps lookahead_frame_def)
  ultimately show ?thesis by blast
qed

text \<open>C25 (functional). Inside the window the allocator returns the first block whose bit is clear,
  counted from where it looked last, or nothing when there is none; the search always ends,
  and changes nothing but its own position: nothing outside the window, not the window's start, size
  or map, and what it passes over is taken from the number of blocks that may still be handed out (\<open>moved_on\<close>).\<close>

theorem window_finds_first_free:
  assumes "window_wf s"
  shows "\<exists>t. alloc_window s = Some (Val (map_option
      (\<lambda>i. word_of_nat ((unat (la_start (l_lookahead s)) + i) mod unat (l_block_count s)))
      (find (free_at s) [unat (la_next (l_lookahead s))..<unat (la_size (l_lookahead s))])), t)
    \<and> moved_on s t \<and> window_wf t \<and> window_map t = window_map s"
proof -
  have "window_map t = window_map s" if "moved_on s t" for t
    using that by (auto simp: moved_on_def window_map_def)
  moreover have "window_wf t" if "moved_on s t" for t using that by (simp add: moved_on_def)
  ultimately show ?thesis using window_finds [OF assms] by (fastforce elim!: wpE)
qed

theorem window_finds_first_free_witness:
  "\<exists>t. alloc_window demo_alloc = Some (Val (Some 3), t) \<and> moved_on demo_alloc t \<and> window_wf t \<and> window_map t = [10]"
  using window_finds_first_free [OF demo_alloc_wf(1)]
  by (simp add: demo_alloc_sel upt_rec free_at_def la_isfree_def window_map_def)

text \<open>C26 (functional). Marking a block during the scan clears its position in the window and no
  other, wherever the window starts, and leaves blocks outside the window unrecorded.\<close>

theorem lookahead_marks_block:
  assumes "window_wf s" "block < l_block_count s"
  shows "\<exists>t. lfs_alloc_lookahead block s = Some (Val (), t) \<and> window_wf t
    \<and> (\<forall>i < unat (la_size (l_lookahead s)). free_at t i \<longleftrightarrow>
        free_at s i \<and> (unat (la_start (l_lookahead s)) + i) mod unat (l_block_count s) \<noteq> unat block)"
  by (rule lookahead_marks [OF assms]) blast

theorem lookahead_marks_block_witness:
  "\<exists>t. lfs_alloc_lookahead 1 demo_alloc = Some (Val (), t) \<and> window_wf t \<and> free_at t 0 \<and> \<not> free_at t 2"
proof -
  have "free_at demo_alloc 0" by (simp add: free_at_def la_isfree_def window_map_def demo_alloc_sel)
  then show ?thesis using lookahead_marks_block [OF demo_alloc_wf(1), of 1] by (auto simp: demo_alloc_sel)
qed

text \<open>C27 (error). When every position up to the checkpoint has been looked at and the rest of the
  window has no clear bit, allocation fails with \<open>NoSpace\<close>, without another scan.\<close>

theorem alloc_reports_full:
  assumes "window_wf s" "alloc_left s = unat (la_size (l_lookahead s)) - unat (la_next (l_lookahead s))"
    and "\<And>i. unat (la_next (l_lookahead s)) \<le> i \<Longrightarrow> i < unat (la_size (l_lookahead s)) \<Longrightarrow> \<not> free_at s i"
  shows "\<exists>t. lfs_alloc s = Some (Exc NoSpace, t) \<and> l_dev t = l_dev s"
proof -
  have "find (free_at s) [unat (la_next (l_lookahead s))..<unat (la_size (l_lookahead s))] = None"
    using assms(3) by (auto simp: find_None_iff)
  then obtain t where t: "alloc_window s = Some (Val None, t)" "moved_on s t" "la_next (l_lookahead t) = la_size (l_lookahead t)"
    using window_finds [OF assms(1)] by (auto elim!: wpE)
  have "alloc_left t = 0" "l_dev t = l_dev s"
    using t(2,3) assms(1,2) by (auto simp: moved_on_def window_wf_def alloc_inv_def word_le_nat_alt)
  then show ?thesis using t(1)
    by (simp add: lfs_alloc_def mloop_unfold [where s = s] bnd_def run_simps unat_eq_zero)
qed

theorem alloc_reports_full_witness:
  "\<exists>t. lfs_alloc (demo_alloc\<lparr>l_bufs := (\<lambda>_. [])(3 := [15])\<rparr>) = Some (Exc NoSpace, t) \<and> l_dev t = ram_new 128 4"
proof -
  let ?s = "demo_alloc\<lparr>l_bufs := (\<lambda>_. [])(3 := [15])\<rparr>"
  have "\<not> free_at ?s i" if "i < 4" for i
  proof -
    have "i = 0 \<or> i = 1 \<or> i = 2 \<or> i = 3" using that by auto
    then show ?thesis by (elim disjE) (simp_all add: free_at_def la_isfree_def window_map_def demo_alloc_sel)
  qed
  then show ?thesis
    using alloc_reports_full [of ?s] by (simp add: window_wf_def alloc_inv_def window_map_def demo_alloc_sel)
qed

end
