(* ===== verification/Parent.thy ===== *)
theory Parent
  imports Traverse
begin

text \<open>
  \<open>fs/parent.rs\<close>: the predecessor of a pair on the threaded list and its parent in the tree;
  and the part of \<open>fs/superblock.rs\<close> that prepares the in-memory global state.  The
  \<open>LfsMdir\<close> filled in is the one at a node address.
\<close>

subsection \<open>Preparing the global state\<close>

definition set_gtag :: "u32 \<Rightarrow> ('d, unit) fs" where
  "set_gtag tag = modify (\<lambda>s. s\<lparr>l_gstate := (l_gstate s)\<lparr>gs_tag := tag\<rparr>\<rparr>)"

definition lfs_fs_prepsuperblock :: "bool \<Rightarrow> ('d, unit) fs" where
  "lfs_fs_prepsuperblock needssuperblock =
    bnd (gets l_gstate) (\<lambda>g.
    set_gtag ((gs_tag g AND NOT (lfs_mktag 0 0 0x200)) OR push_bit 9 (if needssuperblock then 1 else 0)))"

definition lfs_fs_preporphans :: "int \<Rightarrow> ('d, unit) fs" where
  "lfs_fs_preporphans orphans =
    bnd (gets l_gstate) (\<lambda>g.
    let tag_size = lfs_tag_size (gs_tag g) in
    bnd (check (tag_size > 0 \<or> orphans \<ge> 0)) (\<lambda>_.
    bnd (check (tag_size < 0x1ff \<or> orphans \<le> 0)) (\<lambda>_.
    bnd (set_gtag (gs_tag g + word_of_int orphans)) (\<lambda>_.
    bnd (gets l_gstate) (\<lambda>g.
    set_gtag ((gs_tag g AND NOT (lfs_mktag 0x800 0 0))
      OR push_bit 31 (if lfs_gstate_hasorphans g then 1 else 0)))))))"

definition lfs_fs_prepmove :: "u16 \<Rightarrow> pair option \<Rightarrow> ('d, unit) fs" where
  "lfs_fs_prepmove i pr =
    modify (\<lambda>s. s\<lparr>l_gstate :=
      \<lparr>gs_tag = (gs_tag (l_gstate s) AND NOT (lfs_mktag 0x7ff 0x3ff 0))
           OR (if i \<noteq> 0x3ff then lfs_mktag LFS_TYPE_DELETE (ucast i) 0 else 0),
       gs_pair = (case pr of Some p \<Rightarrow> if i \<noteq> 0x3ff then p else (0, 0) | None \<Rightarrow> (0, 0))\<rparr>\<rparr>)"

subsection \<open>The predecessor\<close>

definition lfs_fs_pred_body ::
  "nat \<Rightarrow> pair \<Rightarrow> lfs_tortoise \<times> bool \<Rightarrow> ('d, (lfs_tortoise \<times> bool) + unit) fs" where
  "lfs_fs_pred_body pdir pr = (\<lambda>(tortoise, have_fetched).
    bnd (get_mdir pdir) (\<lambda>d.
    if lfs_pair_isnull (md_tail d) then throw NoEntry
    else
    case lfs_tortoise_detectcycles (md_tail d) tortoise of
      Inl _ \<Rightarrow> throw Corrupt
    | Inr tortoise \<Rightarrow>
        if \<not> lfs_pair_cmp (md_tail d) pr then
          bnd (if \<not> have_fetched then
                 bnd (lfs_dir_fetch pdir (md_tail d)) (\<lambda>_.
                 bnd (get_mdir pdir) (\<lambda>d.
                 if lfs_pair_isnull (md_tail d) then throw NoEntry else ret ()))
               else ret ()) (\<lambda>_.
          ret (Inr ()))
        else
          bnd (lfs_dir_fetch pdir (md_tail d)) (\<lambda>_.
          ret (Inl (tortoise, True)))))"

definition lfs_fs_pred :: "pair \<Rightarrow> nat \<Rightarrow> ('d, unit) fs" where
  "lfs_fs_pred pr pdir =
    bnd (upd_mdir pdir (\<lambda>d. d\<lparr>md_tail := (0, 1)\<rparr>)) (\<lambda>_.
    mloop (lfs_fs_pred_body pdir pr) (tortoise_start, False))"

subsection \<open>The parent\<close>

definition lfs_fs_parent_match :: "pair \<Rightarrow> 'd matcher" where
  "lfs_fs_parent_match pr tag disk =
    bnd (gets l_cfg) (\<lambda>cfg.
    bnd (lfs_bd_read None RCache (unat (cfg_block_size cfg)) (do_block disk) (unat (do_off disk)) (replicate 8 0)) (\<lambda>bs.
    ret (if \<not> lfs_pair_cmp (pair_from_le bs) pr then Equal else Less)))"

definition lfs_fs_parent_body ::
  "nat \<Rightarrow> pair \<Rightarrow> lfs_tortoise \<Rightarrow> ('d, lfs_tortoise + u32) fs" where
  "lfs_fs_parent_body parent pr tortoise =
    bnd (get_mdir parent) (\<lambda>d.
    if lfs_pair_isnull (md_tail d) then throw NoEntry
    else
    bnd (lift_res (lfs_tortoise_detectcycles (md_tail d) tortoise)) (\<lambda>tortoise.
    bnd (attempt (lfs_dir_fetchmatch parent (md_tail d) (lfs_mktag 0x7ff 0 0x3ff) (lfs_mktag LFS_TYPE_DIRSTRUCT 0 8)
           (Some (lfs_fs_parent_match pr)))) (\<lambda>r.
    let tag = (case r of Inl e \<Rightarrow> Inl e | Inr (x, _) \<Rightarrow> x) in
    if tag \<noteq> Inr 0 \<and> tag \<noteq> Inl NoEntry then bnd (lift_res tag) (\<lambda>tag. ret (Inr tag))
    else ret (Inl tortoise))))"

definition lfs_fs_parent :: "pair \<Rightarrow> nat \<Rightarrow> ('d, u32) fs" where
  "lfs_fs_parent pr parent =
    bnd (upd_mdir parent (\<lambda>d. d\<lparr>md_tail := (0, 1)\<rparr>)) (\<lambda>_.
    mloop (lfs_fs_parent_body parent pr) tortoise_start)"

end
