(* ===== verification/GstateProps.thy ===== *)
theory GstateProps
  imports Parent LogProps
begin

text \<open>
  The in-memory global state packs a pending move, the count of orphans and the flag that the
  superblock must be rewritten into one tag and a pair.  Each of the three \<open>prep\<close> operations
  changes its own part and leaves the other two readable as they were.
\<close>

text \<open>What the packed state says.\<close>

definition orphan_count :: "lfs_gstate \<Rightarrow> nat" where
  "orphan_count g = unat (lfs_tag_size (gs_tag g)) mod 512"

definition pending_move :: "lfs_gstate \<Rightarrow> (u16 \<times> pair) option" where
  "pending_move g = (if lfs_gstate_hasmove g then Some (lfs_tag_id (gs_tag g), gs_pair g) else None)"

lemma move_mask: "lfs_mktag 0x7ff 0x3ff 0 = push_bit 10 (mask 21)"
  by (simp add: lfs_mktag_def mask_eq_exp_minus_1 push_bit_eq_mult)

lemma prepmove_bits:
  assumes "unat i < 1024"
  shows "bit ((tag AND NOT (lfs_mktag 0x7ff 0x3ff 0)) OR (if c then lfs_mktag LFS_TYPE_DELETE i 0 else 0)) n \<longleftrightarrow>
    (if n < 10 \<or> n = 31 then bit tag n else c \<and> (if n < 20 then bit i (n - 10) else n < 31 \<and> bit (0x4ff :: u16) (n - 20)))"
proof -
  have d: "bit (lfs_mktag LFS_TYPE_DELETE i 0) n \<longleftrightarrow> 10 \<le> n \<and> (if n < 20 then bit i (n - 10) else n < 31 \<and> bit (0x4ff :: u16) (n - 20))" for n
    using assms by (simp add: bit_mktag LFS_TYPE_DELETE_def)
  show ?thesis
    by (cases "n < 32") (auto simp: bit_simps move_mask d dest: bit_imp_le_length)
qed

lemma prepmove_fields:
  fixes tag i :: u32
  assumes "unat i < 1024"
  defines "t c \<equiv> (tag AND NOT (lfs_mktag 0x7ff 0x3ff 0)) OR (if c then lfs_mktag LFS_TYPE_DELETE i 0 else 0)"
  shows "lfs_tag_size (t c) = lfs_tag_size tag" "lfs_tag_id (t True) = ucast i"
    "lfs_tag_type1 (t True) \<noteq> 0" "lfs_tag_type1 (t False) = 0" "bit (t c) 31 = bit tag 31"
proof -
  note b = prepmove_bits [OF assms(1), of tag, folded t_def]
  have z: "\<not> bit i n" if "10 \<le> n" for n using bits_above_0 [of i 10 n] assms(1) that by simp
  show "lfs_tag_size (t c) = lfs_tag_size tag"
    by (rule bit_word_eqI) (auto simp: tag_bits b)
  show "lfs_tag_id (t True) = ucast i"
    by (rule bit_word_eqI) (auto simp: tag_bits b bit_ucast_iff z)
  have "bit (lfs_tag_type1 (t True)) 10"
    by (simp add: tag_bits b)
  then show "lfs_tag_type1 (t True) \<noteq> 0" by auto
  show "lfs_tag_type1 (t False) = 0"
    by (rule bit_word_eqI) (auto simp: tag_bits b)
  show "bit (t c) 31 = bit tag 31" by (simp add: b)
qed

lemma tag_size_mod: "unat (lfs_tag_size t) = unat t mod 1024" for t :: u32
proof -
  have "lfs_tag_size t = take_bit 10 t" by (simp add: lfs_tag_size_def tag_masks take_bit_eq_mask)
  then show ?thesis by (simp only: unsigned_take_bit_eq, simp add: take_bit_eq_mod)
qed

text \<open>Adding to the tag below the size's carry changes the size alone.\<close>

lemma tag_add_size:
  fixes tag :: u32
  assumes "int (unat (lfs_tag_size tag)) + d \<ge> 0" "int (unat (lfs_tag_size tag)) + d < 1024"
  shows "int (unat (lfs_tag_size (tag + word_of_int d))) = int (unat (lfs_tag_size tag)) + d"
    "drop_bit 10 (tag + word_of_int d) = drop_bit 10 tag"
proof -
  note sz = tag_size_mod
  define q where "q = unat tag div 1024"
  define m where "m = unat tag mod 1024"
  have tag: "unat tag = q * 1024 + m" by (simp add: q_def m_def)
  have "unat tag < 2 ^ 32" using unsigned_less [of tag] by simp
  then have q: "q < 2 ^ 22" by (simp add: q_def)
  have m: "0 \<le> int m + d" "int m + d < 1024" using assms by (simp_all add: sz m_def)
  define k where "k = nat (int m + d)"
  have k: "k < 1024" "int k = int m + d" using m by (auto simp: k_def)
  have i: "int (unat tag) + d = int (q * 1024 + k)"
    unfolding tag using k(2) by (simp only: of_nat_add)
  have w: "(word_of_int (int (unat tag)) :: u32) = tag" by simp
  have "tag + word_of_int d = word_of_int (int (unat tag) + d)" by (simp only: of_int_add w)
  then have "tag + word_of_int d = word_of_nat (q * 1024 + k)" by (simp only: i of_int_of_nat_eq)
  then have u: "unat (tag + word_of_int d) = q * 1024 + k"
    using q k by (simp only: unat_of_nat) (simp add: mod_less)
  show "int (unat (lfs_tag_size (tag + word_of_int d))) = int (unat (lfs_tag_size tag)) + d"
    using k by (simp add: sz u m_def [symmetric])
  have "m < 1024" by (simp add: m_def)
  then show "drop_bit 10 (tag + word_of_int d) = drop_bit 10 tag"
    using k by (simp add: word_unat_eq_iff drop_bit_eq_div unat_div u tag)
qed

lemma tag_same_fields:
  fixes t u :: u32
  assumes "\<And>n. 10 \<le> n \<Longrightarrow> n < 31 \<Longrightarrow> bit t n = bit u n"
  shows "lfs_tag_id t = lfs_tag_id u" "lfs_tag_type1 t = lfs_tag_type1 u"
  by (rule bit_word_eqI, use assms in \<open>auto simp: tag_bits\<close>)+

lemma flag_mask:
  "bit (lfs_mktag 0x800 0 0) n \<longleftrightarrow> n = 31" "bit (lfs_mktag 0 0 0x200) n \<longleftrightarrow> n = 9"
  "bit (push_bit k (if b then 1 else 0 :: u32)) n \<longleftrightarrow> b \<and> n = k \<and> n < 32"
proof -
  have "lfs_mktag 0x800 0 0 = 2 ^ 31" "lfs_mktag 0 0 0x200 = 2 ^ 9" by (simp_all add: lfs_mktag_def push_bit_eq_mult)
  then show "bit (lfs_mktag 0x800 0 0) n \<longleftrightarrow> n = 31" "bit (lfs_mktag 0 0 0x200) n \<longleftrightarrow> n = 9"
    by (simp_all only: bit_exp_iff possible_bit_word) auto
  show "bit (push_bit k (if b then 1 else 0 :: u32)) n \<longleftrightarrow> b \<and> n = k \<and> n < 32"
    by (auto simp: bit_push_bit_iff bit_1_iff)
qed

lemma preporphans_fields:
  fixes g :: lfs_gstate
  assumes "int (unat (lfs_tag_size (gs_tag g))) + d \<ge> 0" "int (unat (lfs_tag_size (gs_tag g))) + d < 1024"
  defines "u \<equiv> gs_tag g + word_of_int d"
  defines "t \<equiv> (u AND NOT (lfs_mktag 0x800 0 0)) OR push_bit 31 (if lfs_tag_size u \<noteq> 0 then 1 else 0)"
  shows "int (unat (lfs_tag_size t)) = int (unat (lfs_tag_size (gs_tag g))) + d"
    "lfs_tag_id t = lfs_tag_id (gs_tag g)" "lfs_tag_type1 t = lfs_tag_type1 (gs_tag g)"
    "lfs_tag_isvalid t \<longleftrightarrow> lfs_tag_size t = 0"
proof -
  have b: "bit t n \<longleftrightarrow> (if n = 31 then lfs_tag_size u \<noteq> 0 else bit u n)" for n
    by (cases "n < 32") (auto simp: t_def flag_mask bit_and_iff bit_or_iff bit_not_iff dest: bit_imp_le_length)
  have s: "lfs_tag_size t = lfs_tag_size u"
    by (rule bit_word_eqI) (auto simp: tag_bits b)
  show "int (unat (lfs_tag_size t)) = int (unat (lfs_tag_size (gs_tag g))) + d"
    unfolding s u_def by (rule tag_add_size [OF assms(1,2)])
  have same: "bit t n = bit (gs_tag g) n" if "10 \<le> n" "n < 31" for n
  proof -
    have "bit u n = bit (drop_bit 10 u) (n - 10)" using that by (simp add: bit_simps)
    also have "\<dots> = bit (gs_tag g) n" using that by (simp add: u_def tag_add_size [OF assms(1,2)] bit_simps)
    finally show ?thesis using that by (simp add: b)
  qed
  show "lfs_tag_id t = lfs_tag_id (gs_tag g)" "lfs_tag_type1 t = lfs_tag_type1 (gs_tag g)"
    by (rule tag_same_fields, rule same, assumption+)+
  show "lfs_tag_isvalid t \<longleftrightarrow> lfs_tag_size t = 0"
    by (simp add: lfs_tag_isvalid_bit b s)
qed

text \<open>The size field as one number: the count, and above it the superblock flag.\<close>

definition field_value :: "lfs_gstate \<Rightarrow> nat" where
  "field_value g = unat (lfs_tag_size (gs_tag g))"

lemma field_value_less: "field_value g < 1024"
  by (simp add: field_value_def tag_size_mod)

lemma orphan_count_field: "orphan_count g = field_value g mod 512"
  by (simp add: orphan_count_def field_value_def)

lemma needssuperblock_field: "lfs_gstate_needssuperblock g \<longleftrightarrow> 512 \<le> field_value g"
proof -
  have "unat (drop_bit 9 (lfs_tag_size (gs_tag g))) = field_value g div 512"
    by (simp add: field_value_def drop_bit_eq_div unat_div)
  then have "drop_bit 9 (lfs_tag_size (gs_tag g)) \<noteq> 0 \<longleftrightarrow> field_value g div 512 \<noteq> 0"
    by (metis unat_0 unat_eq_zero)
  then show ?thesis by (simp add: lfs_gstate_needssuperblock_def) linarith
qed

lemma hasorphans_field: "lfs_gstate_hasorphans g \<longleftrightarrow> field_value g \<noteq> 0"
  by (simp add: lfs_gstate_hasorphans_def field_value_def unat_eq_zero)

lemma tag_add_field:
  "int (unat (lfs_tag_size (tag + word_of_int d))) = (int (unat (lfs_tag_size tag)) + d) mod 1024" for tag :: u32
proof -
  have size: "int (unat (lfs_tag_size t)) = uint t mod 1024" for t :: u32
    unfolding tag_size_mod by (simp only: of_nat_mod uint_nat of_nat_numeral)
  have "uint (tag + word_of_int d) mod 1024 = (uint tag + d) mod 1024"
    by (simp add: uint_word_ariths uint_word_of_int mod_mod_cancel mod_add_right_eq)
  then show ?thesis by (simp only: size mod_add_left_eq)
qed

lemma preporphans_field:
  fixes g :: lfs_gstate
  defines "u d \<equiv> gs_tag g + word_of_int d"
  defines "t d \<equiv> (u d AND NOT (lfs_mktag 0x800 0 0)) OR push_bit 31 (if lfs_tag_size (u d) \<noteq> 0 then 1 else 0)"
  shows "int (field_value (g\<lparr>gs_tag := t d\<rparr>)) = (int (field_value g) + d) mod 1024"
    and preporphans_marked: "bit (t d) 31 \<longleftrightarrow> lfs_gstate_hasorphans (g\<lparr>gs_tag := t d\<rparr>)"
proof -
  have b: "bit (t d) n \<longleftrightarrow> (if n = 31 then lfs_tag_size (u d) \<noteq> 0 else bit (u d) n)" for n
    by (cases "n < 32") (auto simp: t_def flag_mask bit_and_iff bit_or_iff bit_not_iff dest: bit_imp_le_length)
  have s: "lfs_tag_size (t d) = lfs_tag_size (u d)"
    by (rule bit_word_eqI) (auto simp: tag_bits b)
  have g: "gs_tag (g\<lparr>gs_tag := x\<rparr>) = x" for x by simp
  show "int (field_value (g\<lparr>gs_tag := t d\<rparr>)) = (int (field_value g) + d) mod 1024"
    by (simp only: field_value_def g s) (simp only: u_def tag_add_field)
  show "bit (t d) 31 \<longleftrightarrow> lfs_gstate_hasorphans (g\<lparr>gs_tag := t d\<rparr>)"
    by (simp add: lfs_gstate_hasorphans_def s b)
qed

lemma nine_bits:
  fixes n d :: int
  assumes "0 \<le> n" "n < 1024"
  shows "n mod 512 = (if n < 512 then n else n - 512)"
    "- 128 \<le> d \<Longrightarrow> n + d < 1024 \<Longrightarrow> (n + d) mod 1024 = (if n + d < 0 then n + d + 1024 else n + d)"
proof -
  have e: "n mod 512 = (n - 512) mod 512" by simp
  show "n mod 512 = (if n < 512 then n else n - 512)"
  proof (cases "n < 512")
    case True then show ?thesis using assms by simp
  next
    case False then show ?thesis unfolding e using assms mod_pos_pos_trivial [of "n - 512" 512] by simp
  qed
  have e': "(n + d) mod 1024 = (n + d + 1024) mod 1024" by simp
  show "(n + d) mod 1024 = (if n + d < 0 then n + d + 1024 else n + d)" if "- 128 \<le> d" "n + d < 1024"
  proof (cases "n + d < 0")
    case True then show ?thesis unfolding e' using assms that mod_pos_pos_trivial [of "n + d + 1024" 1024] by simp
  next
    case False then show ?thesis using that by simp
  qed
qed

lemma check_twice: "bnd (check a) (\<lambda>_. bnd (check b) k) s = (if a \<and> b then k () s else Some (Panic, s))"
  by (cases a; cases b; simp add: run_simps)

lemma preporphans_run:
  fixes s :: "'d lfs"
  defines "u d \<equiv> gs_tag (l_gstate s) + word_of_int d"
  shows "lfs_fs_preporphans d s = Some (if int (field_value (l_gstate s)) = 0 \<and> d < 0 \<or> 511 \<le> int (field_value (l_gstate s)) \<and> 0 < d
    then (Panic, s)
    else (Val (), s\<lparr>l_gstate := (l_gstate s)\<lparr>gs_tag :=
      (u d AND NOT (lfs_mktag 0x800 0 0)) OR push_bit 31 (if lfs_tag_size (u d) \<noteq> 0 then 1 else 0)\<rparr>\<rparr>))"
proof -
  have "lfs_tag_size (gs_tag (l_gstate s)) > 0 \<longleftrightarrow> 0 < field_value (l_gstate s)"
    "lfs_tag_size (gs_tag (l_gstate s)) < 0x1ff \<longleftrightarrow> field_value (l_gstate s) < 511"
    by (simp_all add: field_value_def word_less_nat_alt)
  then have "lfs_fs_preporphans d s = (if (0 < field_value (l_gstate s) \<or> 0 \<le> d) \<and> (field_value (l_gstate s) < 511 \<or> d \<le> 0)
    then Some (Val (), s\<lparr>l_gstate := (l_gstate s)\<lparr>gs_tag :=
      (u d AND NOT (lfs_mktag 0x800 0 0)) OR push_bit 31 (if lfs_tag_size (u d) \<noteq> 0 then 1 else 0)\<rparr>\<rparr>)
    else Some (Panic, s))"
    by (simp add: lfs_fs_preporphans_def check_twice bnd_gets Let_def set_gtag_def lfs_gstate_hasorphans_def u_def)
      (simp add: run_simps)
  then show ?thesis by auto
qed

lemma prepsuperblock_fields:
  fixes tag :: u32
  defines "t b \<equiv> (tag AND NOT (lfs_mktag 0 0 0x200)) OR push_bit 9 (if b then 1 else 0)"
  shows "unat (lfs_tag_size (t b)) mod 512 = unat (lfs_tag_size tag) mod 512"
    "drop_bit 9 (lfs_tag_size (t b)) = (if b then 1 else 0)"
    "lfs_tag_id (t b) = lfs_tag_id tag" "lfs_tag_type1 (t b) = lfs_tag_type1 tag" "bit (t b) 31 = bit tag 31"
proof -
  have b: "bit (t b) n \<longleftrightarrow> (if n = 9 then b else bit tag n)" for n
    by (cases "n < 32") (auto simp: t_def flag_mask bit_and_iff bit_or_iff bit_not_iff dest: bit_imp_le_length)
  have "take_bit 9 (lfs_tag_size (t b)) = take_bit 9 (lfs_tag_size tag)"
    by (rule bit_word_eqI) (auto simp: bit_simps tag_bits b)
  then have "unat (take_bit 9 (lfs_tag_size (t b))) = unat (take_bit 9 (lfs_tag_size tag))" by simp
  then show "unat (lfs_tag_size (t b)) mod 512 = unat (lfs_tag_size tag) mod 512"
    by (simp only: unsigned_take_bit_eq) (simp add: take_bit_eq_mod)
  show "drop_bit 9 (lfs_tag_size (t b)) = (if b then 1 else 0)"
    by (rule bit_word_eqI) (auto simp: bit_simps tag_bits b)
  show "lfs_tag_id (t b) = lfs_tag_id tag" "lfs_tag_type1 (t b) = lfs_tag_type1 tag"
    by (rule tag_same_fields; simp add: b)+
  show "bit (t b) 31 = bit tag 31" by (simp add: b)
qed

subsection \<open>Properties\<close>

text \<open>Recording a pending move stores its entry and pair, and clearing it leaves none pending; neither
  changes the count of orphans nor the superblock flag.\<close>

lemma prepmove_sets_move:
  assumes "unat i < 1024"
  shows "\<exists>t. lfs_fs_prepmove i pr s = Some (Val (), t)
    \<and> pending_move (l_gstate t) = (if i = 0x3ff then None else Some (i, case pr of Some p \<Rightarrow> p | None \<Rightarrow> (0, 0)))
    \<and> orphan_count (l_gstate t) = orphan_count (l_gstate s)
    \<and> lfs_gstate_needssuperblock (l_gstate t) = lfs_gstate_needssuperblock (l_gstate s)"
proof -
  have "unat (ucast i :: u32) < 1024" using assms by (simp add: unsigned_ucast_eq take_bit_nat_eq_self)
  note f = prepmove_fields [OF this, of "gs_tag (l_gstate s)"]
  have "ucast (ucast i :: u32) = i" by (rule bit_word_eqI) (simp add: bit_simps)
  then show ?thesis
    using f(1) [of True] f(1) [of False] f(2,3,4)
    by (auto simp: lfs_fs_prepmove_def run_simps pending_move_def lfs_gstate_hasmove_def orphan_count_def
        lfs_gstate_needssuperblock_def split: option.split)
qed

text \<open>C28 (functional). Counting orphans up or down by any step that fits an \<open>i8\<close>.  The size field
  of the tag holds the count in nine bits and above it the superblock flag, and the two guards
  look at the field as a whole: counting down panics only when both are zero, counting up panics
  when the count is 511 or the flag is set, and a panic changes nothing.  Every other step succeeds
  and moves the count modulo 512.  The guards only protect single steps: when a longer step
  carries the count out of its nine bits, the superblock flag flips (and it flips only then),
  silently.  The pending move is kept unless the step borrows from below the whole field.  The
  state is marked as needing work, in bit 31, exactly when a count or the flag is left.\<close>

theorem preporphans_counts:
  fixes s :: "'d lfs"
  assumes "- 128 \<le> d" "d \<le> 127"
  shows "let g = l_gstate s; c = int (orphan_count g); f = lfs_gstate_needssuperblock g in
    \<exists>r t. lfs_fs_preporphans d s = Some (r, t) \<and>
    (if d < 0 \<and> c = 0 \<and> \<not> f \<or> 0 < d \<and> (c = 511 \<or> f) then r = Panic \<and> t = s
     else r = Val () \<and> int (orphan_count (l_gstate t)) = (c + d) mod 512
       \<and> (lfs_gstate_needssuperblock (l_gstate t) \<longleftrightarrow> (f \<longleftrightarrow> 0 \<le> c + d \<and> c + d < 512))
       \<and> (f \<or> 0 \<le> c + d \<longrightarrow> pending_move (l_gstate t) = pending_move g)
       \<and> (lfs_gstate_hasorphans (l_gstate t) \<longleftrightarrow> orphan_count (l_gstate t) \<noteq> 0 \<or> lfs_gstate_needssuperblock (l_gstate t))
       \<and> (bit (gs_tag (l_gstate t)) 31 \<longleftrightarrow> lfs_gstate_hasorphans (l_gstate t)))"
proof -
  define g n where "g = l_gstate s" and "n = int (field_value g)"
  define u where "u = gs_tag g + word_of_int d"
  define g' where "g' = g\<lparr>gs_tag := (u AND NOT (lfs_mktag 0x800 0 0)) OR push_bit 31 (if lfs_tag_size u \<noteq> 0 then 1 else 0)\<rparr>"
  have n: "0 \<le> n" "n < 1024" using field_value_less [of g] by (simp_all add: n_def)
  have c: "int (orphan_count g) = n mod 512" by (simp add: orphan_count_field n_def of_nat_mod)
  have c0: "orphan_count g = 0 \<longleftrightarrow> n mod 512 = 0" "orphan_count g = 511 \<longleftrightarrow> n mod 512 = 511"
    using c by linarith+
  have f: "lfs_gstate_needssuperblock g \<longleftrightarrow> 512 \<le> n" by (simp add: needssuperblock_field n_def)
  have n': "int (field_value g') = (n + d) mod 1024"
    using preporphans_field [of g d] by (simp add: g'_def u_def n_def)
  have c': "int (orphan_count g') = (n + d) mod 1024 mod 512" by (simp add: orphan_count_field of_nat_mod n')
  have f': "lfs_gstate_needssuperblock g' \<longleftrightarrow> 512 \<le> (n + d) mod 1024"
    unfolding needssuperblock_field using n' by linarith
  have run: "lfs_fs_preporphans d s = Some (if n = 0 \<and> d < 0 \<or> 511 \<le> n \<and> 0 < d then (Panic, s) else (Val (), s\<lparr>l_gstate := g'\<rparr>))"
    unfolding g'_def u_def n_def g_def by (rule preporphans_run)
  have guard: "d < 0 \<and> n mod 512 = 0 \<and> \<not> 512 \<le> n \<or> 0 < d \<and> (n mod 512 = 511 \<or> 512 \<le> n) \<longleftrightarrow>
      n = 0 \<and> d < 0 \<or> 511 \<le> n \<and> 0 < d" using n by (auto simp: nine_bits(1))
  show ?thesis
  proof (cases "n = 0 \<and> d < 0 \<or> 511 \<le> n \<and> 0 < d")
    case True
    then show ?thesis by (simp add: Let_def g_def [symmetric] c c0 f guard run)
  next
    case False
    then have less: "n + d < 1024" using n assms by linarith
    note m = nine_bits(1) [OF n] nine_bits(2) [OF n assms(1) less]
    have "(n + d) mod 1024 mod 512 = (n mod 512 + d) mod 512" by (simp add: mod_mod_cancel mod_add_left_eq)
    moreover have "512 \<le> (n + d) mod 1024 \<longleftrightarrow> (512 \<le> n \<longleftrightarrow> 0 \<le> n mod 512 + d \<and> n mod 512 + d < 512)"
      unfolding m using False n assms by (auto split: if_splits)
    moreover have "pending_move g' = pending_move g" if "512 \<le> n \<or> 0 \<le> n mod 512 + d"
    proof -
      have "0 \<le> n + d" using that n assms by (auto simp: m(1) split: if_splits)
      then show ?thesis using preporphans_fields(2,3) [of g d] less
        by (simp add: g'_def u_def pending_move_def lfs_gstate_hasmove_def n_def field_value_def)
    qed
    moreover have "lfs_gstate_hasorphans g' \<longleftrightarrow> orphan_count g' \<noteq> 0 \<or> lfs_gstate_needssuperblock g'"
      using mod_less [of "field_value g'" 512] by (auto simp: hasorphans_field orphan_count_field needssuperblock_field not_le)
    moreover have "bit (gs_tag g') 31 \<longleftrightarrow> lfs_gstate_hasorphans g'"
      using preporphans_marked [of g d] by (simp add: g'_def u_def)
    ultimately show ?thesis
      using False by (simp add: Let_def g_def [symmetric] c c0 f guard run c' f')
  qed
qed

theorem preporphans_counts_witness:
  "(\<exists>r t. lfs_fs_preporphans 1 demo_ram = Some (r, t) \<and> r = Val () \<and> orphan_count (l_gstate t) = 1
      \<and> lfs_gstate_hasorphans (l_gstate t) \<and> pending_move (l_gstate t) = None)
   \<and> (\<exists>r t. lfs_fs_preporphans (- 2) (demo_ram\<lparr>l_gstate := \<lparr>gs_tag = 1, gs_pair = (0, 0)\<rparr>\<rparr>) = Some (r, t)
      \<and> r = Val () \<and> orphan_count (l_gstate t) = 511 \<and> lfs_gstate_needssuperblock (l_gstate t))"
proof -
  have "orphan_count (l_gstate demo_ram) = 0" "pending_move (l_gstate demo_ram) = None"
    "\<not> lfs_gstate_needssuperblock (l_gstate demo_ram)"
    by (simp_all add: demo_state_def orphan_count_def lfs_gstate_needssuperblock_def gstate_zero_def lfs_tag_size_def
        pending_move_def lfs_gstate_hasmove_def lfs_tag_type1_def)
  moreover have "orphan_count \<lparr>gs_tag = 1, gs_pair = (0, 0)\<rparr> = 1" "\<not> lfs_gstate_needssuperblock \<lparr>gs_tag = 1, gs_pair = (0, 0)\<rparr>"
    by (simp_all add: orphan_count_def lfs_gstate_needssuperblock_def lfs_tag_size_def)
  ultimately show ?thesis
    using preporphans_counts [of 1 demo_ram] preporphans_counts [of "- 2" "demo_ram\<lparr>l_gstate := \<lparr>gs_tag = 1, gs_pair = (0, 0)\<rparr>\<rparr>"]
    by (auto simp: Let_def)
qed

text \<open>Setting or clearing the superblock flag changes it and nothing else.\<close>

lemma prepsuperblock_sets_flag:
  "\<exists>t. lfs_fs_prepsuperblock b s = Some (Val (), t) \<and> lfs_gstate_needssuperblock (l_gstate t) = b
    \<and> orphan_count (l_gstate t) = orphan_count (l_gstate s) \<and> pending_move (l_gstate t) = pending_move (l_gstate s)"
  using prepsuperblock_fields [of "gs_tag (l_gstate s)" b]
  by (simp add: lfs_fs_prepsuperblock_def set_gtag_def run_simps lfs_gstate_needssuperblock_def orphan_count_def
      pending_move_def lfs_gstate_hasmove_def)

end
