(* ===== verification/FileIo.thy ===== *)
theory FileIo
  imports CtzExtend
begin

text \<open>
  \<open>file/ops.rs\<close>, the layer below the commits: moving the block being written to another one,
  turning an inline file into an outlined one, and reading, writing and flushing a file whose
  handle is the node at an address.  The handle's cache is \<open>FCache\<close> of that address.
\<close>

definition has_flag :: "nat \<Rightarrow> u32 \<Rightarrow> ('d, bool) fs" where
  "has_flag f fl = bnd (get_node f) (\<lambda>n. ret (flag_has (nd_flags n) fl))"

definition insert_flag :: "nat \<Rightarrow> u32 \<Rightarrow> ('d, unit) fs" where
  "insert_flag f fl = upd_node f (\<lambda>n. n\<lparr>nd_flags := flag_set fl (nd_flags n)\<rparr>)"

definition remove_flag :: "nat \<Rightarrow> u32 \<Rightarrow> ('d, unit) fs" where
  "remove_flag f fl = upd_node f (\<lambda>n. n\<lparr>nd_flags := flag_clear fl (nd_flags n)\<rparr>)"

text \<open>An error sets the handle's error flag and is passed on.\<close>

definition or_erred :: "nat \<Rightarrow> ('d, 'a) fs \<Rightarrow> ('d, 'a) fs" where
  "or_erred f c = bnd (attempt c) (\<lambda>r. case r of
      Inl e \<Rightarrow> bnd (insert_flag f F_ERRED) (\<lambda>_. throw e)
    | Inr x \<Rightarrow> ret x)"

subsection \<open>Relocating the block being written\<close>

definition relocate_copy_body :: "nat \<Rightarrow> u32 \<Rightarrow> nat \<Rightarrow> ('d, nat + (unit + unit)) fs" where
  "relocate_copy_body f nblock i =
    bnd (get_node f) (\<lambda>file.
    if i < unat (nd_off file) then
      bnd (if flag_has (nd_flags file) F_INLINE then
             lfs_dir_getread (nd_m file) None (FCache f) (nd_off file - word_of_nat i)
               (lfs_mktag 0xfff 0x1ff 0) (lfs_mktag LFS_TYPE_INLINESTRUCT (ucast (nd_id file)) 0) i (replicate 1 0)
           else
             lfs_bd_read (Some (FCache f)) RCache (unat (nd_off file) - i) (nd_block file) i (replicate 1 0)) (\<lambda>data.
      bnd (or_relocate PCache nblock (lfs_bd_prog PCache RCache True nblock i data) (ret (Inr ()))) (\<lambda>r.
      case r of Inl _ \<Rightarrow> ret (Inr (Inl ())) | Inr _ \<Rightarrow> ret (Inl (Suc i))))
    else ret (Inr (Inr ())))"

text \<open>The new block's contents are still in the program cache: they become the file's cache.\<close>

definition relocate_take_cache :: "nat \<Rightarrow> u32 \<Rightarrow> ('d, unit) fs" where
  "relocate_take_cache f nblock =
    bnd (gets l_pcache) (\<lambda>pc.
    bnd (get_buf (cache_buffer pc)) (\<lambda>pb.
    bnd (get_node f) (\<lambda>file.
    bnd (get_buf (cache_buffer (nd_cache file))) (\<lambda>fb.
    bnd (check (length pb \<le> length fb)) (\<lambda>_.
    bnd (put_buf (cache_buffer (nd_cache file)) (splice fb 0 pb)) (\<lambda>_.
    bnd (upd_node f (\<lambda>n. n\<lparr>nd_cache := (nd_cache n)\<lparr>cache_block := cache_block pc,
           cache_off := cache_off pc, cache_size := cache_size pc\<rparr>, nd_block := nblock,
           nd_flags := flag_set F_WRITING (nd_flags n)\<rparr>)) (\<lambda>_.
    lfs_cache_zero PCache)))))))"

definition lfs_file_relocate_body :: "nat \<Rightarrow> unit \<Rightarrow> ('d, unit + unit) fs" where
  "lfs_file_relocate_body f = (\<lambda>_.
    bnd lfs_alloc (\<lambda>nblock.
    or_relocate PCache nblock (lfs_bd_erase nblock)
     (bnd (mloop (relocate_copy_body f nblock) 0) (\<lambda>r.
      case r of
        Inl _ \<Rightarrow> ret (Inl ())
      | Inr _ \<Rightarrow> bnd (relocate_take_cache f nblock) (\<lambda>_. ret (Inr ()))))))"

definition lfs_file_relocate :: "nat \<Rightarrow> ('d, unit) fs" where
  "lfs_file_relocate f = mloop (lfs_file_relocate_body f) ()"

definition lfs_file_outline :: "nat \<Rightarrow> ('d, unit) fs" where
  "lfs_file_outline f =
    bnd (upd_node f (\<lambda>n. n\<lparr>nd_off := nd_pos n\<rparr>)) (\<lambda>_.
    bnd lfs_alloc_ckpoint (\<lambda>_.
    bnd (lfs_file_relocate f) (\<lambda>_.
    remove_flag f F_INLINE)))"

subsection \<open>Reading\<close>

definition flushedread_seek :: "nat \<Rightarrow> ('d, unit) fs" where
  "flushedread_seek f =
    bnd (get_node f) (\<lambda>file.
    bnd (if \<not> flag_has (nd_flags file) F_INLINE then
           bnd (lfs_ctz_find None (FCache f) (ctz_head (nd_ctz file)) (ctz_size (nd_ctz file)) (nd_pos file)) (\<lambda>(block, off).
           upd_node f (\<lambda>n. n\<lparr>nd_block := block, nd_off := off\<rparr>))
         else upd_node f (\<lambda>n. n\<lparr>nd_block := LFS_BLOCK_INLINE, nd_off := nd_pos n\<rparr>)) (\<lambda>_.
    insert_flag f F_READING))"

definition lfs_file_flushedread_body ::
  "nat \<Rightarrow> bytes \<times> bytes \<Rightarrow> ('d, (bytes \<times> bytes) + bytes) fs" where
  "lfs_file_flushedread_body f = (\<lambda>(got, data).
    if data = [] then ret (Inr got)
    else
    bnd (gets (\<lambda>s. cfg_block_size (l_cfg s))) (\<lambda>block_size.
    bnd (get_node f) (\<lambda>file.
    bnd (if \<not> flag_has (nd_flags file) F_READING \<or> nd_off file = block_size
         then flushedread_seek f else ret ()) (\<lambda>_.
    bnd (get_node f) (\<lambda>file.
    let diff = min (length data) (unat (block_size - nd_off file)) in
    bnd (if flag_has (nd_flags file) F_INLINE then
           lfs_dir_getread (nd_m file) None (FCache f) block_size (lfs_mktag 0xfff 0x1ff 0)
             (lfs_mktag LFS_TYPE_INLINESTRUCT (ucast (nd_id file)) 0) (unat (nd_off file)) (take diff data)
         else
           lfs_bd_read None (FCache f) (unat block_size) (nd_block file) (unat (nd_off file)) (take diff data)) (\<lambda>bs.
    bnd (upd_node f (\<lambda>n. n\<lparr>nd_pos := nd_pos n + word_of_nat diff, nd_off := nd_off n + word_of_nat diff\<rparr>)) (\<lambda>_.
    ret (Inl (got @ bs, drop diff data)))))))))"

text \<open>The number of bytes read, and the buffer.\<close>

definition lfs_file_flushedread :: "nat \<Rightarrow> bytes \<Rightarrow> ('d, u32 \<times> bytes) fs" where
  "lfs_file_flushedread f buffer =
    (if buffer = [] then ret (0, buffer)
     else
     bnd (get_node f) (\<lambda>file.
     if nd_pos file \<ge> ctz_size (nd_ctz file) then ret (0, buffer)
     else
       let sz = min (length buffer) (unat (ctz_size (nd_ctz file) - nd_pos file)) in
       bnd (mloop (lfs_file_flushedread_body f) ([], take sz buffer)) (\<lambda>bs.
       ret (word_of_nat sz, bs @ drop sz buffer))))"

subsection \<open>Writing\<close>

definition flushedwrite_block :: "nat \<Rightarrow> ('d, unit) fs" where
  "flushedwrite_block f =
    bnd (get_node f) (\<lambda>file.
    bnd (if flag_has (nd_flags file) F_INLINE then
           upd_node f (\<lambda>n. n\<lparr>nd_block := LFS_BLOCK_INLINE, nd_off := nd_pos n\<rparr>)
         else
           bnd (if \<not> flag_has (nd_flags file) F_WRITING \<and> nd_pos file > 0 then
                  bnd (or_erred f (lfs_ctz_find None RCache (ctz_head (nd_ctz file)) (ctz_size (nd_ctz file)) (nd_pos file - 1))) (\<lambda>(block, _).
                  bnd (upd_node f (\<lambda>n. n\<lparr>nd_block := block\<rparr>)) (\<lambda>_.
                  lfs_cache_zero (FCache f)))
                else ret ()) (\<lambda>_.
           bnd lfs_alloc_ckpoint (\<lambda>_.
           bnd (get_node f) (\<lambda>file.
           bnd (or_erred f (lfs_ctz_extend (FCache f) RCache (nd_block file) (nd_pos file))) (\<lambda>(block, off).
           upd_node f (\<lambda>n. n\<lparr>nd_block := block, nd_off := off\<rparr>)))))) (\<lambda>_.
    insert_flag f F_WRITING))"

definition flushedwrite_prog :: "nat \<Rightarrow> bytes \<Rightarrow> ('d, unit) fs" where
  "flushedwrite_prog f data = mloop (\<lambda>_.
    bnd (get_node f) (\<lambda>file.
    bnd (attempt (lfs_bd_prog (FCache f) RCache True (nd_block file) (unat (nd_off file)) data)) (\<lambda>r.
    case r of
      Inr _ \<Rightarrow> ret (Inr ())
    | Inl e \<Rightarrow>
        if e = Corrupt then bnd (or_erred f (lfs_file_relocate f)) (\<lambda>_. ret (Inl ()))
        else bnd (insert_flag f F_ERRED) (\<lambda>_. throw e)))) ()"

definition lfs_file_flushedwrite_body :: "nat \<Rightarrow> bytes \<Rightarrow> ('d, bytes + unit) fs" where
  "lfs_file_flushedwrite_body f data =
    (if data = [] then ret (Inr ())
     else
     bnd (gets (\<lambda>s. cfg_block_size (l_cfg s))) (\<lambda>block_size.
     bnd (get_node f) (\<lambda>file.
     bnd (if \<not> flag_has (nd_flags file) F_WRITING \<or> nd_off file = block_size
          then flushedwrite_block f else ret ()) (\<lambda>_.
     bnd (get_node f) (\<lambda>file.
     let diff = min (length data) (unat (block_size - nd_off file)) in
     bnd (flushedwrite_prog f (take diff data)) (\<lambda>_.
     bnd (upd_node f (\<lambda>n. n\<lparr>nd_pos := nd_pos n + word_of_nat diff, nd_off := nd_off n + word_of_nat diff\<rparr>)) (\<lambda>_.
     bnd lfs_alloc_ckpoint (\<lambda>_.
     ret (Inl (drop diff data))))))))))"

definition lfs_file_flushedwrite :: "nat \<Rightarrow> bytes \<Rightarrow> ('d, u32) fs" where
  "lfs_file_flushedwrite f buffer =
    (if buffer = [] then ret 0
     else
     bnd (get_node f) (\<lambda>file.
     bnd (gets l_inline_max) (\<lambda>inline_max.
     bnd (if flag_has (nd_flags file) F_INLINE
             \<and> max (nd_pos file + word_of_nat (length buffer)) (ctz_size (nd_ctz file)) > inline_max
          then or_erred f (lfs_file_outline f) else ret ()) (\<lambda>_.
     bnd (mloop (lfs_file_flushedwrite_body f) buffer) (\<lambda>_.
     ret (word_of_nat (length buffer)))))))"

subsection \<open>Flushing\<close>

text \<open>
  The rest of an overwritten file is copied through a second handle, whose cache is a copy of
  the read cache that shares its buffer.
\<close>

definition flush_copy_body :: "nat \<Rightarrow> nat \<Rightarrow> unit \<Rightarrow> ('d, unit + unit) fs" where
  "flush_copy_body f orig = (\<lambda>_.
    bnd (get_node f) (\<lambda>file.
    if nd_pos file < ctz_size (nd_ctz file) then
      bnd (lfs_file_flushedread orig (replicate 1 0)) (\<lambda>(_, data).
      bnd (lfs_file_flushedwrite f data) (\<lambda>_.
      bnd (gets l_rcache) (\<lambda>rc.
      bnd (if cache_block rc \<noteq> LFS_BLOCK_NULL then
             bnd (lfs_cache_drop (FCache orig)) (\<lambda>_. lfs_cache_drop RCache)
           else ret ()) (\<lambda>_.
      ret (Inl ())))))
    else ret (Inr ())))"

definition flush_blocks :: "nat \<Rightarrow> ('d, unit) fs" where
  "flush_blocks f = mloop (\<lambda>_.
    bnd (attempt (lfs_bd_flush (FCache f) RCache True)) (\<lambda>r.
    case r of
      Inr _ \<Rightarrow> ret (Inr ())
    | Inl e \<Rightarrow> if e = Corrupt then bnd (lfs_file_relocate f) (\<lambda>_. ret (Inl ())) else throw e)) ()"

definition flush_outlined :: "nat \<Rightarrow> ('d, unit) fs" where
  "flush_outlined f =
    bnd (get_node f) (\<lambda>file.
    bnd (gets l_rcache) (\<lambda>rc.
    with_node (node_default\<lparr>nd_id := nd_id file, nd_type := nd_type file, nd_ctz := nd_ctz file,
        nd_flags := O_READ, nd_pos := nd_pos file, nd_cache := rc\<rparr>) (\<lambda>orig.
    bnd (lfs_cache_drop RCache) (\<lambda>_.
    bnd (mloop (flush_copy_body f orig) ()) (\<lambda>_.
    flush_blocks f)))))"

definition lfs_file_flush :: "nat \<Rightarrow> ('d, unit) fs" where
  "lfs_file_flush f =
    bnd (get_node f) (\<lambda>file.
    bnd (if flag_has (nd_flags file) F_READING then
           bnd (if \<not> flag_has (nd_flags file) F_INLINE then lfs_cache_drop (FCache f) else ret ()) (\<lambda>_.
           remove_flag f F_READING)
         else ret ()) (\<lambda>_.
    bnd (get_node f) (\<lambda>file.
    if flag_has (nd_flags file) F_WRITING then
      let pos = nd_pos file in
      bnd (if flag_has (nd_flags file) F_INLINE then
             upd_node f (\<lambda>n. n\<lparr>nd_pos := max pos (ctz_size (nd_ctz n))\<rparr>)
           else flush_outlined f) (\<lambda>_.
      upd_node f (\<lambda>n. n\<lparr>nd_ctz := \<lparr>ctz_head = nd_block n, ctz_size = nd_pos n\<rparr>,
        nd_flags := flag_set F_DIRTY (flag_clear F_WRITING (nd_flags n)), nd_pos := pos\<rparr>))
    else ret ())))"

end
