(* ===== verification/Commit2.thy ===== *)
theory Commit2
  imports Parent FileIo
begin

text \<open>
  \<open>dir/commit.rs\<close>, second part: allocating a pair, compacting a log into the other block of
  its pair, splitting a pair that is full, moving a pair whose block has gone bad, and the
  commit that repairs every pointer to a pair that was moved.  A directory argument is the
  address of its \<open>LfsMdir\<close>.
\<close>

definition gdelta_clear :: "('d, unit) fs" where
  "gdelta_clear = modify (\<lambda>s. s\<lparr>l_gdelta := gstate_zero\<rparr>)"

definition metadata_limit :: "'d lfs_config \<Rightarrow> u32" where
  "metadata_limit cfg = (if cfg_metadata_max cfg \<noteq> 0 then cfg_metadata_max cfg else cfg_block_size cfg)"

definition bool_u16 :: "bool \<Rightarrow> u16" where "bool_u16 b = (if b then 1 else 0)"

definition tail_attr :: "bool \<Rightarrow> pair \<Rightarrow> lfs_mattr" where
  "tail_attr split tail =
    \<lparr>ma_tag = lfs_mktag (LFS_TYPE_TAIL + bool_u16 split) 0x3ff 8, ma_buf = Bytes (pair_to_le tail)\<rparr>"

subsection \<open>Allocating a pair\<close>

definition lfs_dir_alloc :: "nat \<Rightarrow> ('d, unit) fs" where
  "lfs_dir_alloc dir =
    bnd lfs_alloc (\<lambda>b1.
    bnd (upd_mdir dir (\<lambda>d. d\<lparr>md_pair := (fst (md_pair d), b1)\<rparr>)) (\<lambda>_.
    bnd lfs_alloc (\<lambda>b0.
    bnd (upd_mdir dir (\<lambda>d. d\<lparr>md_pair := (b0, snd (md_pair d)), md_rev := 0\<rparr>)) (\<lambda>_.
    bnd (lfs_bd_read_buf None RCache 4 b0 0 (replicate 4 0)) (\<lambda>(err, rev_buf).
    bnd (upd_mdir dir (\<lambda>d. d\<lparr>md_rev := u32_from_le rev_buf\<rparr>)) (\<lambda>_.
    bnd (case err of Inl e \<Rightarrow> if e \<noteq> Corrupt then throw e else ret () | Inr _ \<Rightarrow> ret ()) (\<lambda>_.
    bnd (gets l_cfg) (\<lambda>cfg.
    bnd (if sint (cfg_block_cycles cfg) > 0 then
           bnd (alignup_m (u32_from_le rev_buf) ((cfg_block_cycles cfg + 1) OR 1)) (\<lambda>rev.
           upd_mdir dir (\<lambda>d. d\<lparr>md_rev := rev\<rparr>))
         else ret ()) (\<lambda>_.
    upd_mdir dir (\<lambda>d. d\<lparr>md_off := 4, md_etag := 0xffffffff, md_count := 0,
      md_tail := (LFS_BLOCK_NULL, LFS_BLOCK_NULL), md_erased := False, md_split := False\<rparr>))))))))))"

subsection \<open>Compacting\<close>

text \<open>Allocating another block, where having none left is accepted for a tired pair.\<close>

definition compact_alloc :: "nat \<Rightarrow> bool \<Rightarrow> ('d, unit) fs" where
  "compact_alloc dir tired =
    bnd (attempt lfs_alloc) (\<lambda>r. case r of
      Inl e \<Rightarrow> if e \<noteq> NoSpace \<or> \<not> tired then throw e else ret ()
    | Inr b \<Rightarrow> upd_mdir dir (\<lambda>d. d\<lparr>md_pair := (fst (md_pair d), b)\<rparr>))"

text \<open>
  What every step of the loop does on \<open>Corrupt\<close>: the block is marked, another one allocated
  and the loop started again (\<open>Inl (relocated, tired)\<close>); the superblock pair cannot move.
\<close>

definition compact_step ::
  "nat \<Rightarrow> bool \<Rightarrow> ('d, 'a) fs \<Rightarrow> ('a \<Rightarrow> ('d, (bool \<times> bool) + bool) fs) \<Rightarrow> ('d, (bool \<times> bool) + bool) fs" where
  "compact_step dir tired c k =
    bnd (attempt c) (\<lambda>r. case r of
      Inr x \<Rightarrow> k x
    | Inl e \<Rightarrow>
        if e = Corrupt then
          bnd (get_mdir dir) (\<lambda>d.
          bnd (attempt (lfs_alloc_lookahead (snd (md_pair d)))) (\<lambda>_.
          bnd (lfs_cache_drop PCache) (\<lambda>_.
          if \<not> lfs_pair_cmp (md_pair d) (0, 1) then throw NoSpace
          else bnd (compact_alloc dir tired) (\<lambda>_. ret (Inl (True, False))))))
        else throw e)"

definition compact_delta :: "bool \<Rightarrow> ('d, lfs_gstate) fs" where
  "compact_delta relocated =
    bnd (gets l_gdisk) (\<lambda>gdisk.
    bnd (gets l_gstate) (\<lambda>gstate.
    bnd (gets l_gdelta) (\<lambda>gdelta.
    let delta = (if \<not> relocated then lfs_gstate_xor (lfs_gstate_xor gstate_zero gdisk) gstate else gstate_zero);
        delta = lfs_gstate_xor delta gdelta in
    ret (delta\<lparr>gs_tag := gs_tag delta AND NOT (lfs_mktag 0 0 0x3ff)\<rparr>))))"

definition movestate_tag :: u32 where
  "movestate_tag = lfs_mktag LFS_TYPE_MOVESTATE 0x3ff 12"

definition lfs_dir_compact_body ::
  "nat \<Rightarrow> lfs_mattr list \<Rightarrow> nat \<Rightarrow> u16 \<Rightarrow> u16 \<Rightarrow> bool \<times> bool \<Rightarrow> ('d, (bool \<times> bool) + bool) fs" where
  "lfs_dir_compact_body dir attrs source begn en = (\<lambda>(relocated, tired).
    bnd (gets l_cfg) (\<lambda>cfg.
    bnd (get_mdir dir) (\<lambda>d.
    let commit = \<lparr>cm_block = snd (md_pair d), cm_off = 0, cm_ptag = 0xffffffff, cm_crc = 0xffffffff,
                  cm_begin = 0, cm_end = metadata_limit cfg - 8\<rparr> in
    compact_step dir tired (lfs_bd_erase (snd (md_pair d))) (\<lambda>_.
    compact_step dir tired (lfs_dir_commitprog commit (u32_to_le (md_rev d))) (\<lambda>commit.
    compact_step dir tired
      (bnd (get_mdir source) (\<lambda>src.
       lfs_dir_traverse src 0 0xffffffff attrs (lfs_mktag 0x400 0x3ff 0) (lfs_mktag LFS_TYPE_NAME 0 0)
         begn en (- begn) lfs_dir_commit_commit commit)) (\<lambda>(_, commit).
    compact_step dir tired
      (bnd (get_mdir dir) (\<lambda>d.
       if \<not> lfs_pair_isnull (md_tail d)
       then lfs_dir_commitattr commit (ma_tag (tail_attr (md_split d) (md_tail d))) (ma_buf (tail_attr (md_split d) (md_tail d)))
       else ret commit)) (\<lambda>commit.
    bnd (compact_delta relocated) (\<lambda>delta.
    bnd (get_mdir dir) (\<lambda>d.
    bnd (lfs_dir_getgstate d delta) (\<lambda>delta.
    compact_step dir tired
      (if \<not> lfs_gstate_iszero delta
       then lfs_dir_commitattr commit movestate_tag (Bytes (lfs_gstate_tole32 delta))
       else ret commit) (\<lambda>commit.
    compact_step dir tired (lfs_dir_commitcrc commit) (\<lambda>commit.
    bnd (check (unat (cfg_prog_size cfg) dvd unat (cm_off commit))) (\<lambda>_.
    bnd (upd_mdir dir (\<lambda>d. d\<lparr>md_pair := lfs_pair_swap (md_pair d), md_count := en - begn,
           md_off := cm_off commit, md_etag := cm_ptag commit\<rparr>)) (\<lambda>_.
    bnd gdelta_clear (\<lambda>_.
    bnd (if \<not> relocated then modify (\<lambda>s. s\<lparr>l_gdisk := l_gstate s\<rparr>) else ret ()) (\<lambda>_.
    ret (Inr relocated)))))))))))))))))"

definition lfs_dir_compact :: "nat \<Rightarrow> lfs_mattr list \<Rightarrow> nat \<Rightarrow> u16 \<Rightarrow> u16 \<Rightarrow> ('d, nat) fs" where
  "lfs_dir_compact dir attrs source begn en =
    bnd (get_mdir dir) (\<lambda>d.
    bnd (lfs_dir_needsrelocation d) (\<lambda>tired.
    bnd (upd_mdir dir (\<lambda>d. d\<lparr>md_rev := md_rev d + 1\<rparr>)) (\<lambda>_.
    bnd (if tired \<and> lfs_pair_cmp (md_pair d) (0, 1) then
           bnd (lfs_cache_drop PCache) (\<lambda>_.
           bnd (compact_alloc dir tired) (\<lambda>_. ret (True, False)))
         else ret (False, tired)) (\<lambda>start.
    bnd (mloop (lfs_dir_compact_body dir attrs source begn en) start) (\<lambda>relocated.
    ret (if relocated then LFS_OK_RELOCATED else 0))))))"

subsection \<open>Splitting\<close>

definition lfs_dir_split :: "nat \<Rightarrow> lfs_mattr list \<Rightarrow> nat \<Rightarrow> u16 \<Rightarrow> u16 \<Rightarrow> ('d, unit) fs" where
  "lfs_dir_split dir attrs source split en = with_mdir mdir_zero (\<lambda>tail.
    bnd (lfs_dir_alloc tail) (\<lambda>_.
    bnd (get_mdir dir) (\<lambda>d.
    bnd (upd_mdir tail (\<lambda>t. t\<lparr>md_split := md_split d, md_tail := md_tail d\<rparr>)) (\<lambda>_.
    bnd (lfs_dir_compact tail attrs source split en) (\<lambda>_.
    bnd (get_mdir tail) (\<lambda>t.
    bnd (upd_mdir dir (\<lambda>d. d\<lparr>md_tail := md_pair t, md_split := True\<rparr>)) (\<lambda>_.
    bnd (gets l_root) (\<lambda>root.
    bnd (get_mdir dir) (\<lambda>d.
    if \<not> lfs_pair_cmp (md_pair d) root \<and> split = 0
    then modify (\<lambda>s. s\<lparr>l_root := md_pair t\<rparr>) else ret ())))))))))"

text \<open>Halving the range until its upper part fits.\<close>

definition split_search :: "lfs_mattr list \<Rightarrow> nat \<Rightarrow> u16 \<Rightarrow> u16 \<Rightarrow> ('d, u16) fs" where
  "split_search attrs source en = mloop (\<lambda>split.
    if en - split > 1 then
      bnd (get_mdir source) (\<lambda>src.
      bnd (lfs_dir_traverse src 0 0xffffffff attrs (lfs_mktag 0x400 0x3ff 0) (lfs_mktag LFS_TYPE_NAME 0 0)
             split en (- split) lfs_dir_commit_size 0) (\<lambda>(_, sz).
      bnd (gets l_cfg) (\<lambda>cfg.
      bnd (alignup_m (metadata_limit cfg div 2) (cfg_prog_size cfg)) (\<lambda>half_block.
      if en - split < 0xff \<and> sz \<le> min (metadata_limit cfg - 40) half_block then ret (Inr split)
      else ret (Inl (split + (en - split) div 2))))))
    else ret (Inr split))"

text \<open>The loop variables are \<open>split\<close>, which is not reset, and \<open>end_val\<close>.\<close>

definition splitting_body ::
  "nat \<Rightarrow> lfs_mattr list \<Rightarrow> nat \<Rightarrow> u16 \<Rightarrow> u16 \<times> u16 \<Rightarrow> ('d, (u16 \<times> u16) + u16) fs" where
  "splitting_body dir attrs source begn = (\<lambda>(split, en).
    bnd (split_search attrs source en split) (\<lambda>split.
    if split = begn then ret (Inr en)
    else if en \<le> split then ret (Inr en)
    else
    bnd (attempt (lfs_dir_split dir attrs source split en)) (\<lambda>r.
    case r of
      Inl e \<Rightarrow> if e \<noteq> NoSpace then throw e else ret (Inr en)
    | Inr _ \<Rightarrow> ret (Inl (split, split)))))"

definition expand_superblock :: "nat \<Rightarrow> lfs_mattr list \<Rightarrow> nat \<Rightarrow> u16 \<Rightarrow> u16 \<Rightarrow> ('d, u16) fs" where
  "expand_superblock dir attrs source begn en =
    bnd (get_mdir dir) (\<lambda>d.
    bnd (lfs_dir_needsrelocation d) (\<lambda>needs.
    if needs \<and> \<not> lfs_pair_cmp (md_pair d) (0, 1) then
      bnd lfs_fs_size_raw (\<lambda>sz.
      bnd (gets l_block_count) (\<lambda>bc.
      if int (unat bc) - int (unat sz) > int (unat bc) div 8 then
        bnd (attempt (lfs_dir_split dir attrs source begn en)) (\<lambda>r.
        case r of
          Inl e \<Rightarrow> if e \<noteq> NoSpace then throw e else ret en
        | Inr _ \<Rightarrow> ret 1)
      else ret en))
    else ret en))"

definition lfs_dir_splittingcompact ::
  "nat \<Rightarrow> lfs_mattr list \<Rightarrow> nat \<Rightarrow> u16 \<Rightarrow> u16 \<Rightarrow> ('d, nat) fs" where
  "lfs_dir_splittingcompact dir attrs source begn en =
    bnd (mloop (splitting_body dir attrs source begn) (begn, en)) (\<lambda>en.
    bnd (expand_superblock dir attrs source begn en) (\<lambda>en.
    lfs_dir_compact dir attrs source begn en))"

subsection \<open>Committing, and following a pair that moved\<close>

text \<open>A reference to a pair: a local variable, or the pair of the \<open>LfsMdir\<close> at an address.\<close>

datatype pair_ref = PairVal pair | PairOf nat

definition read_pair :: "pair_ref \<Rightarrow> ('d, pair) fs" where
  "read_pair r = (case r of PairVal p \<Rightarrow> ret p | PairOf a \<Rightarrow> bnd (get_mdir a) (\<lambda>d. ret (md_pair d)))"

definition fixmlist_attr :: "lfs_mattr \<Rightarrow> lfs_node \<Rightarrow> lfs_node" where
  "fixmlist_attr attr n =
    (let tag = ma_tag attr in
     if lfs_tag_type3 tag = LFS_TYPE_DELETE \<and> nd_id n = lfs_tag_id tag \<and> nd_type n \<noteq> TYPE_DIR
     then n\<lparr>nd_m := (nd_m n)\<lparr>md_pair := (LFS_BLOCK_NULL, LFS_BLOCK_NULL)\<rparr>\<rparr>
     else if lfs_tag_type3 tag = LFS_TYPE_DELETE \<and> nd_id n > lfs_tag_id tag then n\<lparr>nd_id := nd_id n - 1\<rparr>
     else if lfs_tag_type3 tag = LFS_TYPE_CREATE \<and> nd_id n \<ge> lfs_tag_id tag then n\<lparr>nd_id := nd_id n + 1\<rparr>
     else n)"

text \<open>An entry that has moved to a later pair of the directory is followed there.\<close>

definition fixmlist_follow :: "nat \<Rightarrow> ('d, unit) fs" where
  "fixmlist_follow a = mloop (\<lambda>_.
    bnd (get_node a) (\<lambda>n.
    if nd_id n \<ge> md_count (nd_m n) \<and> md_split (nd_m n) then
      bnd (gets l_root) (\<lambda>root.
      bnd (if lfs_pair_cmp (md_tail (nd_m n)) root
           then upd_node a (\<lambda>n. n\<lparr>nd_id := nd_id n - md_count (nd_m n)\<rparr>) else ret ()) (\<lambda>_.
      bnd (lfs_dir_fetch a (md_tail (nd_m n))) (\<lambda>_.
      ret (Inl ()))))
    else ret (Inr ()))) ()"

text \<open>A loop over the list of open handles; the link is read after the body.\<close>

definition mlist_each :: "(nat \<Rightarrow> ('d, unit) fs) \<Rightarrow> ('d, unit) fs" where
  "mlist_each body =
    bnd (gets l_mlist) (mloop (\<lambda>p. case p of
        None \<Rightarrow> ret (Inr ())
      | Some a \<Rightarrow> bnd (body a) (\<lambda>_. bnd (get_node a) (\<lambda>n. ret (Inl (nd_next n))))))"

definition relocatingcommit_fixmlist ::
  "nat \<Rightarrow> pair_ref \<Rightarrow> lfs_mattr list \<Rightarrow> nat \<Rightarrow> ('d, nat) fs" where
  "relocatingcommit_fixmlist dir pr attrs state =
    bnd (read_pair pr) (\<lambda>oldpair.
    bnd (mlist_each (\<lambda>a.
      bnd (get_node a) (\<lambda>n.
      if \<not> lfs_pair_cmp (md_pair (nd_m n)) oldpair then
        bnd (get_mdir dir) (\<lambda>d.
        bnd (upd_mdir a (\<lambda>_. d)) (\<lambda>_.
        bnd (if pr \<noteq> PairOf a then upd_node a (fold fixmlist_attr attrs) else ret ()) (\<lambda>_.
        fixmlist_follow a)))
      else ret ()))) (\<lambda>_.
    ret state))"

text \<open>What the attributes say about the number of entries and the tail.\<close>

definition commit_note_attr :: "nat \<Rightarrow> lfs_mattr \<Rightarrow> bool \<Rightarrow> ('d, bool) fs" where
  "commit_note_attr dir attr hasdelete =
    (let tag = ma_tag attr in
     if lfs_tag_type3 tag = LFS_TYPE_CREATE then
       bnd (upd_mdir dir (\<lambda>d. d\<lparr>md_count := md_count d + 1\<rparr>)) (\<lambda>_. ret hasdelete)
     else if lfs_tag_type3 tag = LFS_TYPE_DELETE then
       bnd (get_mdir dir) (\<lambda>d.
       bnd (check (md_count d > 0)) (\<lambda>_.
       bnd (upd_mdir dir (\<lambda>d. d\<lparr>md_count := md_count d - 1\<rparr>)) (\<lambda>_. ret True)))
     else if lfs_tag_type1 tag = LFS_TYPE_TAIL then
       (case ma_buf attr of
          Bytes bs \<Rightarrow>
            bnd (check (length bs = 8)) (\<lambda>_.
            bnd (upd_mdir dir (\<lambda>d. d\<lparr>md_tail := pair_from_le bs, md_split := (lfs_tag_chunk tag AND 1 \<noteq> 0)\<rparr>)) (\<lambda>_.
            ret hasdelete))
        | _ \<Rightarrow> panic)
     else ret hasdelete)"

text \<open>A failed append is retried by compacting when the log is full or the block bad.\<close>

definition or_compact :: "('d, 'a) fs \<Rightarrow> ('a \<Rightarrow> ('d, bool) fs) \<Rightarrow> ('d, bool) fs" where
  "or_compact c k = bnd (attempt c) (\<lambda>r. case r of
      Inr x \<Rightarrow> k x
    | Inl e \<Rightarrow> if e = NoSpace \<or> e = Corrupt then ret True else throw e)"

text \<open>Appending to the log; the result says whether it has to be compacted instead.\<close>

definition commit_append :: "nat \<Rightarrow> lfs_mattr list \<Rightarrow> ('d, bool) fs" where
  "commit_append dir attrs =
    bnd (gets l_cfg) (\<lambda>cfg.
    bnd (get_mdir dir) (\<lambda>d.
    let commit = \<lparr>cm_block = fst (md_pair d), cm_off = md_off d, cm_ptag = md_etag d, cm_crc = 0xffffffff,
                  cm_begin = md_off d, cm_end = metadata_limit cfg - 8\<rparr> in
    or_compact (lfs_dir_traverse d (md_off d) (md_etag d) attrs 0 0 0 0 0 lfs_dir_commit_commit commit) (\<lambda>(_, commit).
    bnd (gets l_gdisk) (\<lambda>gdisk.
    bnd (gets l_gstate) (\<lambda>gstate.
    bnd (gets l_gdelta) (\<lambda>gdelta.
    let delta = lfs_gstate_xor (lfs_gstate_xor (lfs_gstate_xor gstate_zero gstate) gdisk) gdelta;
        delta = delta\<lparr>gs_tag := gs_tag delta AND NOT (lfs_mktag 0 0 0x3ff)\<rparr> in
    bnd (if \<not> lfs_gstate_iszero delta then
           bnd (get_mdir dir) (\<lambda>d.
           bnd (lfs_dir_getgstate d delta) (\<lambda>delta.
           bnd (attempt (lfs_dir_commitattr commit movestate_tag (Bytes (lfs_gstate_tole32 delta)))) (\<lambda>r.
           case r of
             Inr commit \<Rightarrow> ret (Some commit)
           | Inl e \<Rightarrow> if e = NoSpace \<or> e = Corrupt then ret None else throw e)))
         else ret (Some commit)) (\<lambda>c.
    case c of
      None \<Rightarrow> ret True
    | Some commit \<Rightarrow>
        or_compact (lfs_dir_commitcrc commit) (\<lambda>commit.
        bnd (upd_mdir dir (\<lambda>d. d\<lparr>md_off := cm_off commit, md_etag := cm_ptag commit\<rparr>)) (\<lambda>_.
        bnd (modify (\<lambda>s. s\<lparr>l_gdisk := l_gstate s\<rparr>)) (\<lambda>_.
        bnd gdelta_clear (\<lambda>_. ret False)))))))))))"

text \<open>Whether the pair has become empty and is to be dropped from the list of its directory.\<close>

definition commit_drops :: "nat \<Rightarrow> nat option \<Rightarrow> bool \<Rightarrow> ('d, bool) fs" where
  "commit_drops dir pdir hasdelete =
    bnd (get_mdir dir) (\<lambda>d.
    if hasdelete \<and> md_count d = 0 then
      (case pdir of
         None \<Rightarrow> panic
       | Some pdir \<Rightarrow>
           bnd (attempt (lfs_fs_pred (md_pair d) pdir)) (\<lambda>r.
           case r of
             Inl e \<Rightarrow> if e \<noteq> NoEntry then throw e else ret False
           | Inr _ \<Rightarrow> bnd (get_mdir pdir) (\<lambda>p. ret (md_split p))))
    else ret False)"

definition lfs_dir_relocatingcommit ::
  "nat \<Rightarrow> pair_ref \<Rightarrow> lfs_mattr list \<Rightarrow> nat option \<Rightarrow> ('d, nat) fs" where
  "lfs_dir_relocatingcommit dir pr attrs pdir =
    bnd (mfold (commit_note_attr dir) attrs False) (\<lambda>hasdelete.
    bnd (commit_drops dir pdir hasdelete) (\<lambda>drops.
    if drops then relocatingcommit_fixmlist dir pr attrs LFS_OK_DROPPED
    else
    bnd (get_mdir dir) (\<lambda>d.
    bnd (if md_erased d \<and> md_count d < 0xff then commit_append dir attrs else ret True) (\<lambda>do_compact.
    bnd (if do_compact then
           bnd (lfs_cache_drop PCache) (\<lambda>_.
           bnd (get_mdir dir) (\<lambda>d.
           lfs_dir_splittingcompact dir attrs dir 0 (md_count d)))
         else ret 0) (\<lambda>state.
    relocatingcommit_fixmlist dir pr attrs state)))))"

end
