(* ===== verification/HandleProps.thy ===== *)
theory HandleProps
  imports Commit2 LogProps
begin

text \<open>
  Open files across commits.  A commit's attributes insert and delete entries of a pair;
  \<open>lfs_dir_relocatingcommit\<close> shifts the entry ids of the open handles accordingly.  A file
  handle stays on its entry, and learns when the entry is deleted.
\<close>

text \<open>The entries of a pair as the attributes change them; created entries are \<open>None\<close>.\<close>

definition entry_apply :: "lfs_mattr \<Rightarrow> 'e option list \<Rightarrow> 'e option list" where
  "entry_apply attr es =
    (let i = unat (lfs_tag_id (ma_tag attr)) in
     if lfs_tag_type3 (ma_tag attr) = LFS_TYPE_DELETE then take i es @ drop (Suc i) es
     else if lfs_tag_type3 (ma_tag attr) = LFS_TYPE_CREATE then take i es @ None # drop i es
     else es)"

definition attr_fits :: "lfs_mattr \<Rightarrow> 'e list \<Rightarrow> bool" where
  "attr_fits attr es \<longleftrightarrow> (let i = unat (lfs_tag_id (ma_tag attr)) in
     (lfs_tag_type3 (ma_tag attr) = LFS_TYPE_DELETE \<longrightarrow> i < length es)
   \<and> (lfs_tag_type3 (ma_tag attr) = LFS_TYPE_CREATE \<longrightarrow> i \<le> length es \<and> length es < 0x3ff))"

primrec attrs_fit :: "lfs_mattr list \<Rightarrow> 'e option list \<Rightarrow> bool" where
  "attrs_fit [] es = True"
| "attrs_fit (a # as) es \<longleftrightarrow> attr_fits a es \<and> attrs_fit as (entry_apply a es)"

text \<open>A handle on entry \<open>e\<close>, which is there once, or on none if \<open>e\<close> is gone.\<close>

definition handle_on :: "'e \<Rightarrow> 'e option list \<Rightarrow> lfs_node \<Rightarrow> bool" where
  "handle_on e es n \<longleftrightarrow> unat (nd_id n) < length es \<and> es ! unat (nd_id n) = Some e
    \<and> (\<forall>j < length es. es ! j = Some e \<longrightarrow> j = unat (nd_id n))"

lemma handle_on_in: "handle_on e es n \<Longrightarrow> Some e \<in> set es"
  unfolding handle_on_def by (metis nth_mem)

lemma entry_apply_new: "Some e \<notin> set es \<Longrightarrow> Some e \<notin> set (entry_apply attr es)"
  by (auto simp: entry_apply_def Let_def dest: in_set_takeD in_set_dropD)

lemma fix_null: "md_pair (nd_m n) = (LFS_BLOCK_NULL, LFS_BLOCK_NULL) \<Longrightarrow>
    md_pair (nd_m (fixmlist_attr attr n)) = (LFS_BLOCK_NULL, LFS_BLOCK_NULL)"
  by (simp add: fixmlist_attr_def Let_def)

lemma fix_type: "nd_type (fixmlist_attr attr n) = nd_type n"
  by (simp add: fixmlist_attr_def Let_def)

lemma fix_step:
  assumes "handle_on e es n" "attr_fits attr es" "nd_type n \<noteq> TYPE_DIR"
  shows "(handle_on e (entry_apply attr es) (fixmlist_attr attr n)
      \<and> md_pair (nd_m (fixmlist_attr attr n)) = md_pair (nd_m n))
    \<or> (Some e \<notin> set (entry_apply attr es) \<and> md_pair (nd_m (fixmlist_attr attr n)) = (LFS_BLOCK_NULL, LFS_BLOCK_NULL))"
proof -
  let ?i = "lfs_tag_id (ma_tag attr)" and ?k = "nd_id n"
  have k: "unat ?k < length es" "es ! unat ?k = Some e" and u: "\<And>j. j < length es \<Longrightarrow> es ! j = Some e \<Longrightarrow> j = unat ?k"
    using assms(1) by (auto simp: handle_on_def)
  have dc: "LFS_TYPE_DELETE \<noteq> LFS_TYPE_CREATE" by (simp add: LFS_TYPE_DELETE_def LFS_TYPE_CREATE_def)
  consider (del) "lfs_tag_type3 (ma_tag attr) = LFS_TYPE_DELETE" | (cre) "lfs_tag_type3 (ma_tag attr) = LFS_TYPE_CREATE"
    | (none) "lfs_tag_type3 (ma_tag attr) \<noteq> LFS_TYPE_DELETE" "lfs_tag_type3 (ma_tag attr) \<noteq> LFS_TYPE_CREATE" by blast
  then show ?thesis
  proof cases
    case del
    then have i: "unat ?i < length es" using assms(2) by (simp add: attr_fits_def Let_def)
    have nth: "(take (unat ?i) es @ drop (Suc (unat ?i)) es) ! j = es ! (if j < unat ?i then j else Suc j)"
      if "j < length es - 1" for j using that i by (auto simp: nth_append)
    show ?thesis
    proof (cases "?k = ?i")
      case True
      have "Some e \<notin> set (take (unat ?i) es @ drop (Suc (unat ?i)) es)"
      proof
        assume "Some e \<in> set (take (unat ?i) es @ drop (Suc (unat ?i)) es)"
        then obtain j where j': "j < length (take (unat ?i) es @ drop (Suc (unat ?i)) es)"
            "(take (unat ?i) es @ drop (Suc (unat ?i)) es) ! j = Some e"
          unfolding in_set_conv_nth by blast
        then have j: "j < length es - 1" using i by auto
        with nth j'(2) have "es ! (if j < unat ?i then j else Suc j) = Some e" by simp
        moreover have "Suc j < length es" using j i by linarith
        ultimately show False using u [of "if j < unat ?i then j else Suc j"] True i by (auto split: if_splits)
      qed
      then show ?thesis using del True assms(3) by (simp add: entry_apply_def fixmlist_attr_def Let_def)
    next
      case False
      then have ne: "unat ?k \<noteq> unat ?i" by (simp add: word_unat_eq_iff)
      define k' where "k' = (if ?i < ?k then ?k - 1 else ?k)"
      have k': "unat k' = (if unat ?i < unat ?k then unat ?k - 1 else unat ?k)"
        by (auto simp: k'_def word_less_nat_alt unat_sub_if')
      have "handle_on e (take (unat ?i) es @ drop (Suc (unat ?i)) es) (n\<lparr>nd_id := k'\<rparr>)"
      proof -
        let ?es = "take (unat ?i) es @ drop (Suc (unat ?i)) es"
        have len: "length ?es = length es - 1" using i by simp
        have lt: "unat k' < length es - 1" using k(1) i ne by (auto simp: k')
        have at: "?es ! unat k' = Some e"
          unfolding nth [OF lt] using k(2) ne by (auto simp: k')
        have uniq: "j = unat k'" if "j < length es - 1" "?es ! j = Some e" for j
        proof -
          have "Suc j < length es" using that(1) by linarith
          then have "(if j < unat ?i then j else Suc j) < length es" using i by simp
          from u [OF this that(2) [unfolded nth [OF that(1)]]] show ?thesis
            by (cases "j < unat ?i") (simp_all add: k')
        qed
        show ?thesis unfolding handle_on_def len using lt at by (auto intro: uniq)
      qed
      then show ?thesis using del False
        by (auto simp: entry_apply_def fixmlist_attr_def Let_def k'_def)
    qed
  next
    case cre
    then have i: "unat ?i \<le> length es" "length es < 0x3ff" using assms(2) dc by (simp_all add: attr_fits_def Let_def)
    have nth: "(take (unat ?i) es @ None # drop (unat ?i) es) ! j
        = (if j < unat ?i then es ! j else if j = unat ?i then None else es ! (j - 1))"
      if "j < Suc (length es)" for j using that i by (auto simp: nth_append nth_Cons')
    define k' where "k' = (if ?i \<le> ?k then ?k + 1 else ?k)"
    have k': "unat k' = (if unat ?i \<le> unat ?k then unat ?k + 1 else unat ?k)"
      using k i by (auto simp: k'_def word_le_nat_alt unat_plus_if')
    have "handle_on e (take (unat ?i) es @ None # drop (unat ?i) es) (n\<lparr>nd_id := k'\<rparr>)"
    proof -
      let ?es = "take (unat ?i) es @ None # drop (unat ?i) es"
      have len: "length ?es = Suc (length es)" using i by simp
      have lt: "unat k' < Suc (length es)" using k(1) by (auto simp: k')
      have at: "?es ! unat k' = Some e"
        unfolding nth [OF lt] using k(2) by (auto simp: k')
      have uniq: "j = unat k'" if "j < Suc (length es)" "?es ! j = Some e" for j
      proof (cases "j = unat ?i")
        case True
        then show ?thesis using that(2) [unfolded nth [OF that(1)]] by simp
      next
        case False
        then have "(if j < unat ?i then j else j - 1) < length es" using that(1) i by (cases j) auto
        from u [OF this] False that(2) [unfolded nth [OF that(1)]] show ?thesis
          by (cases "j < unat ?i") (auto simp: k')
      qed
      show ?thesis unfolding handle_on_def len using lt at by (auto intro: uniq)
    qed
    then show ?thesis using cre dc
      by (auto simp: entry_apply_def fixmlist_attr_def Let_def k'_def)
  next
    case none
    then show ?thesis using assms(1) by (simp add: entry_apply_def fixmlist_attr_def Let_def)
  qed
qed

lemma fix_gone:
  assumes "Some e \<notin> set es" "md_pair (nd_m n) = (LFS_BLOCK_NULL, LFS_BLOCK_NULL)"
  shows "Some e \<notin> set (fold entry_apply attrs es) \<and> md_pair (nd_m (fold fixmlist_attr attrs n)) = (LFS_BLOCK_NULL, LFS_BLOCK_NULL)"
  using assms by (induction attrs arbitrary: es n) (simp_all add: entry_apply_new fix_null)

subsection \<open>Properties\<close>

text \<open>C22 (invariant). After the attributes of a commit have been applied to the open handles of
  its pair, a file handle is on the entry it was on, with the pair it had, if that entry is
  still there, and has the null pair if the entry was deleted by one of them, whatever other
  entries were created and deleted.\<close>

theorem file_handle_follows_entry:
  assumes "handle_on e es n" "attrs_fit attrs es" "nd_type n \<noteq> TYPE_DIR"
  shows "if Some e \<in> set (fold entry_apply attrs es)
    then handle_on e (fold entry_apply attrs es) (fold fixmlist_attr attrs n)
      \<and> md_pair (nd_m (fold fixmlist_attr attrs n)) = md_pair (nd_m n)
    else md_pair (nd_m (fold fixmlist_attr attrs n)) = (LFS_BLOCK_NULL, LFS_BLOCK_NULL)"
  using assms
proof (induction attrs arbitrary: es n)
  case Nil
  then show ?case using handle_on_in [of e es n] by simp
next
  case (Cons a attrs)
  then have fit: "attr_fits a es" "attrs_fit attrs (entry_apply a es)" by simp_all
  from fix_step [OF Cons.prems(1) fit(1) Cons.prems(3)] show ?case
  proof (elim disjE conjE)
    assume h: "handle_on e (entry_apply a es) (fixmlist_attr a n)" "md_pair (nd_m (fixmlist_attr a n)) = md_pair (nd_m n)"
    show ?thesis using Cons.IH [OF h(1) fit(2)] Cons.prems(3) h(2) by (simp add: fix_type)
  next
    assume "Some e \<notin> set (entry_apply a es)" "md_pair (nd_m (fixmlist_attr a n)) = (LFS_BLOCK_NULL, LFS_BLOCK_NULL)"
    from fix_gone [OF this, of attrs] show ?thesis by simp
  qed
qed

definition demo_attrs :: "lfs_mattr list" where
  "demo_attrs = [\<lparr>ma_tag = lfs_mktag LFS_TYPE_CREATE 1 0, ma_buf = Bytes []\<rparr>,
     \<lparr>ma_tag = lfs_mktag LFS_TYPE_DELETE 0 0, ma_buf = Bytes []\<rparr>]"

theorem file_handle_follows_entry_witness:
  "handle_on CHR ''c'' [None, Some CHR ''b'', Some CHR ''c'']
     (fold fixmlist_attr demo_attrs (node_default\<lparr>nd_id := 2, nd_type := TYPE_REG\<rparr>))"
proof -
  let ?n = "node_default\<lparr>nd_id := 2, nd_type := TYPE_REG\<rparr>" and ?es = "[Some CHR ''a'', Some CHR ''b'', Some CHR ''c'']"
  have tags: "lfs_tag_type3 (lfs_mktag LFS_TYPE_CREATE 1 0) = LFS_TYPE_CREATE" "lfs_tag_id (lfs_mktag LFS_TYPE_CREATE 1 0) = 1"
    "lfs_tag_type3 (lfs_mktag LFS_TYPE_DELETE 0 0) = LFS_TYPE_DELETE" "lfs_tag_id (lfs_mktag LFS_TYPE_DELETE 0 0) = 0"
    "LFS_TYPE_CREATE \<noteq> LFS_TYPE_DELETE"
    by (simp_all add: mktag_fields LFS_TYPE_CREATE_def LFS_TYPE_DELETE_def)
  have es: "fold entry_apply demo_attrs ?es = [None, Some CHR ''b'', Some CHR ''c'']"
    by (simp add: demo_attrs_def entry_apply_def Let_def tags)
  have "handle_on CHR ''c'' ?es ?n"
  proof -
    have "j = 2" if "j < 3" "?es ! j = Some CHR ''c''" for j
    proof -
      have "j = 0 \<or> j = 1 \<or> j = 2" using that(1) by auto
      then show ?thesis using that(2) by auto
    qed
    then show ?thesis by (simp add: handle_on_def)
  qed
  moreover have "attrs_fit demo_attrs ?es"
    by (simp add: demo_attrs_def attr_fits_def entry_apply_def Let_def tags)
  ultimately show ?thesis
    using file_handle_follows_entry [of "CHR ''c''" ?es ?n demo_attrs]
    by (simp add: es TYPE_REG_def TYPE_DIR_def)
qed

end
