(* ===== verification/Commit3.thy ===== *)
theory Commit3
  imports Commit2
begin

text \<open>
  \<open>dir/commit.rs\<close>, third part: the commit that also repairs the pointers to pairs it had to
  move; and \<open>fs/superblock.rs\<close> and \<open>fs/consistent.rs\<close>, which use it to finish what a power
  loss interrupted.
\<close>

subsection \<open>The orphaning commit\<close>

text \<open>Inline files that no longer fit the cache are written out before their directory changes.\<close>

definition evict_inline :: "nat \<Rightarrow> nat \<Rightarrow> ('d, unit) fs" where
  "evict_inline dir f =
    (if dir = f then ret ()
     else
     bnd (get_node f) (\<lambda>n.
     bnd (get_mdir dir) (\<lambda>d.
     bnd (gets (\<lambda>s. cfg_cache_size (l_cfg s))) (\<lambda>cache_size.
     if \<not> lfs_pair_cmp (md_pair (nd_m n)) (md_pair d) \<and> nd_type n = TYPE_REG
        \<and> flag_has (nd_flags n) F_INLINE \<and> ctz_size (nd_ctz n) > cache_size
     then bnd (lfs_file_outline f) (\<lambda>_. lfs_file_flush f)
     else ret ()))))"

text \<open>The open handles that name the pair that moved.\<close>

definition relocate_handle :: "pair \<Rightarrow> pair \<Rightarrow> nat \<Rightarrow> ('d, unit) fs" where
  "relocate_handle lpair newpair a = upd_node a (\<lambda>n.
    let n = (if \<not> lfs_pair_cmp lpair (md_pair (nd_m n)) then n\<lparr>nd_m := (nd_m n)\<lparr>md_pair := newpair\<rparr>\<rparr> else n)
    in if nd_type n = TYPE_DIR \<and> \<not> lfs_pair_cmp lpair (nd_head n) then n\<lparr>nd_head := newpair\<rparr> else n)"

text \<open>A move pending in the pair about to be written is finished with it.\<close>

definition take_move :: "pair \<Rightarrow> ('d, u16) fs" where
  "take_move pr =
    bnd (gets l_gstate) (\<lambda>g.
    if lfs_gstate_hasmovehere g pr then
      bnd (lfs_fs_prepmove 0x3ff None) (\<lambda>_. ret (lfs_tag_id (gs_tag g)))
    else ret 0x3ff)"

definition move_attr :: "u16 \<Rightarrow> lfs_mattr" where
  "move_attr moveid =
    \<lparr>ma_tag = lfs_mktag_if (moveid \<noteq> 0x3ff) LFS_TYPE_DELETE (ucast moveid) 0, ma_buf = Bytes []\<rparr>"

text \<open>
  Updating the parent: \<open>Inl\<close> when the parent itself had to be moved, with its old pair;
  \<open>Inr\<close> with whether there is a parent otherwise.
\<close>

definition relocate_parent :: "pair \<Rightarrow> nat \<Rightarrow> nat \<Rightarrow> ('d, pair + bool) fs" where
  "relocate_parent lpair ldir pdir =
    bnd (attempt (lfs_fs_parent lpair pdir)) (\<lambda>r.
    case r of
      Inl e \<Rightarrow> if e \<noteq> NoEntry then throw e else ret (Inr False)
    | Inr tag \<Rightarrow>
        bnd (lfs_fs_preporphans 1) (\<lambda>_.
        bnd (get_mdir pdir) (\<lambda>p.
        bnd (take_move (md_pair p)) (\<lambda>moveid.
        bnd (get_mdir ldir) (\<lambda>l.
        let tag = (if moveid \<noteq> 0x3ff \<and> moveid < lfs_tag_id tag then tag - lfs_mktag 0 1 0 else tag) in
        bnd (lfs_dir_relocatingcommit pdir (PairVal (md_pair p))
               [move_attr moveid, \<lparr>ma_tag = tag, ma_buf = Bytes (pair_to_le (md_pair l))\<rparr>] None) (\<lambda>state.
        ret (if state = LFS_OK_RELOCATED then Inl (md_pair p) else Inr True)))))))"

text \<open>Updating the predecessor: the pair it had and the state of that commit, if there is one.\<close>

definition relocate_pred :: "pair \<Rightarrow> nat \<Rightarrow> nat \<Rightarrow> bool \<Rightarrow> ('d, (pair \<times> nat) option) fs" where
  "relocate_pred lpair ldir pdir hasparent =
    bnd (attempt (lfs_fs_pred lpair pdir)) (\<lambda>r.
    case r of
      Inl e \<Rightarrow>
        if e \<noteq> NoEntry then throw e
        else bnd (check (\<not> hasparent)) (\<lambda>_. ret None)
    | Inr _ \<Rightarrow>
        bnd (gets l_gstate) (\<lambda>g.
        bnd (if lfs_gstate_hasorphans g then lfs_fs_preporphans (if hasparent then -1 else 0) else ret ()) (\<lambda>_.
        bnd (get_mdir pdir) (\<lambda>p.
        bnd (take_move (md_pair p)) (\<lambda>moveid.
        bnd (get_mdir ldir) (\<lambda>l.
        bnd (lfs_dir_relocatingcommit pdir (PairVal (md_pair p))
               [move_attr moveid, tail_attr (md_split p) (md_pair l)] None) (\<lambda>state.
        ret (Some (md_pair p, state)))))))))"

definition copy_mdir :: "nat \<Rightarrow> nat \<Rightarrow> ('d, unit) fs" where
  "copy_mdir dst src = bnd (get_mdir src) (\<lambda>d. upd_mdir dst (\<lambda>_. d))"

text \<open>The loop variables are \<open>state\<close>, \<open>lpair\<close> and \<open>orphans\<close>.\<close>

definition orphaning_body ::
  "nat \<Rightarrow> nat \<Rightarrow> nat \<times> pair \<times> bool \<Rightarrow> ('d, (nat \<times> pair \<times> bool) + bool) fs" where
  "orphaning_body ldir pdir = (\<lambda>(state, lpair, orphans).
    if state = LFS_OK_RELOCATED then
      bnd (get_mdir ldir) (\<lambda>l.
      bnd (gets l_root) (\<lambda>root.
      bnd (if \<not> lfs_pair_cmp lpair root then modify (\<lambda>s. s\<lparr>l_root := md_pair l\<rparr>) else ret ()) (\<lambda>_.
      bnd (mlist_each (relocate_handle lpair (md_pair l))) (\<lambda>_.
      bnd (relocate_parent lpair ldir pdir) (\<lambda>pr.
      case pr of
        Inl ppair \<Rightarrow> bnd (copy_mdir ldir pdir) (\<lambda>_. ret (Inl (LFS_OK_RELOCATED, ppair, True)))
      | Inr hasparent \<Rightarrow>
          bnd (relocate_pred lpair ldir pdir hasparent) (\<lambda>pd.
          case pd of
            None \<Rightarrow> ret (Inl (0, lpair, orphans))
          | Some (lpair, state) \<Rightarrow>
              bnd (copy_mdir ldir pdir) (\<lambda>_. ret (Inl (state, lpair, orphans)))))))))
    else ret (Inr orphans))"

text \<open>
  Removing a dropped pair from its list.  \<open>lpair\<close> stays the pair that was dropped, also for
  the relocation loop that may follow.
\<close>

definition orphaning_drop :: "nat \<Rightarrow> nat \<Rightarrow> nat \<Rightarrow> ('d, nat) fs" where
  "orphaning_drop dir ldir pdir =
    bnd (get_mdir dir) (\<lambda>d.
    bnd (gets l_gdelta) (\<lambda>gdelta.
    bnd (lfs_dir_getgstate d gdelta) (\<lambda>gdelta.
    bnd (modify (\<lambda>s. s\<lparr>l_gdelta := gdelta\<rparr>)) (\<lambda>_.
    bnd (get_mdir pdir) (\<lambda>p.
    bnd (lfs_dir_relocatingcommit pdir (PairVal (md_pair p)) [tail_attr (md_split d) (md_tail d)] None) (\<lambda>state.
    bnd (copy_mdir ldir pdir) (\<lambda>_.
    ret state)))))))"

definition lfs_dir_orphaningcommit :: "nat \<Rightarrow> lfs_mattr list \<Rightarrow> ('d, nat) fs" where
  "lfs_dir_orphaningcommit dir attrs =
    bnd (mlist_each (evict_inline dir)) (\<lambda>_.
    bnd (get_mdir dir) (\<lambda>d.
    let lpair = md_pair d in
    with_mdir d (\<lambda>ldir.
    with_mdir mdir_zero (\<lambda>pdir.
    bnd (lfs_dir_relocatingcommit ldir (PairOf dir) attrs (Some pdir)) (\<lambda>state.
    bnd (get_mdir dir) (\<lambda>d.
    bnd (if \<not> lfs_pair_cmp (md_pair d) lpair then copy_mdir dir ldir else ret ()) (\<lambda>_.
    bnd (if state = LFS_OK_DROPPED then orphaning_drop dir ldir pdir else ret state) (\<lambda>state.
    bnd (mloop (orphaning_body ldir pdir) (state, lpair, False)) (\<lambda>orphans.
    ret (if orphans then LFS_OK_ORPHANED else 0))))))))))"

subsection \<open>Orphans\<close>


text \<open>
  One pair of the threaded list: \<open>True\<close> when a commit changed the predecessor, whose tail is
  then fetched again, \<open>False\<close> when the scan moves on; and whether it made more orphans.
\<close>

definition deorphan_half :: "nat \<Rightarrow> nat \<Rightarrow> u32 \<Rightarrow> bool \<Rightarrow> ('d, bool \<times> bool) fs" where
  "deorphan_half pdir parent tag moreorphans =
    bnd (get_mdir parent) (\<lambda>par.
    bnd (lfs_dir_get par (lfs_mktag 0x7ff 0x3ff 0) tag (replicate 8 0)) (\<lambda>(_, bs).
    let pr = pair_from_le bs in
    bnd (get_mdir pdir) (\<lambda>p.
    if \<not> lfs_pair_issync pr (md_tail p) then
      bnd (take_move (md_pair p)) (\<lambda>moveid.
      bnd (lfs_dir_orphaningcommit pdir
             [move_attr moveid, \<lparr>ma_tag = lfs_mktag LFS_TYPE_SOFTTAIL 0x3ff 8, ma_buf = Bytes (pair_to_le pr)\<rparr>]) (\<lambda>state.
      ret (True, moreorphans \<or> state = LFS_OK_ORPHANED)))
    else ret (False, moreorphans))))"

definition deorphan_full :: "nat \<Rightarrow> nat \<Rightarrow> bool \<Rightarrow> ('d, bool \<times> bool) fs" where
  "deorphan_full pdir dir moreorphans =
    bnd (get_mdir dir) (\<lambda>d.
    bnd (gets l_gdelta) (\<lambda>gdelta.
    bnd (lfs_dir_getgstate d gdelta) (\<lambda>gdelta.
    bnd (modify (\<lambda>s. s\<lparr>l_gdelta := gdelta\<rparr>)) (\<lambda>_.
    bnd (lfs_dir_orphaningcommit pdir [tail_attr (md_split d) (md_tail d)]) (\<lambda>state.
    ret (True, moreorphans \<or> state = LFS_OK_ORPHANED))))))"

definition deorphan_pair :: "nat \<Rightarrow> nat \<Rightarrow> nat \<Rightarrow> bool \<Rightarrow> bool \<Rightarrow> ('d, bool \<times> bool) fs" where
  "deorphan_pair pdir dir pass powerloss moreorphans =
    bnd (get_mdir pdir) (\<lambda>p.
    if \<not> md_split p then
      with_mdir mdir_zero (\<lambda>parent.
      bnd (attempt (lfs_fs_parent (md_tail p) parent)) (\<lambda>r.
      case r of
        Inl e \<Rightarrow>
          if e \<noteq> NoEntry then throw e
          else if pass = 1 \<and> powerloss then deorphan_full pdir dir moreorphans
          else ret (False, moreorphans)
      | Inr tag \<Rightarrow>
          if pass = 0 then deorphan_half pdir parent tag moreorphans else ret (False, moreorphans)))
    else ret (False, moreorphans))"

definition deorphan_scan :: "nat \<Rightarrow> bool \<Rightarrow> ('d, bool) fs" where
  "deorphan_scan pass powerloss =
    with_mdir (mdir_zero\<lparr>md_split := True, md_tail := (0, 1)\<rparr>) (\<lambda>pdir.
    with_mdir mdir_zero (\<lambda>dir.
    mloop (\<lambda>moreorphans.
      bnd (get_mdir pdir) (\<lambda>p.
      if lfs_pair_isnull (md_tail p) then ret (Inr moreorphans)
      else
        bnd (lfs_dir_fetch dir (md_tail p)) (\<lambda>_.
        bnd (deorphan_pair pdir dir pass powerloss moreorphans) (\<lambda>(again, moreorphans).
        bnd (if again then ret () else copy_mdir pdir dir) (\<lambda>_.
        ret (Inl moreorphans)))))) False))"

definition lfs_fs_deorphan :: "bool \<Rightarrow> ('d, unit) fs" where
  "lfs_fs_deorphan powerloss =
    bnd (gets l_gstate) (\<lambda>g.
    if \<not> lfs_gstate_hasorphans g then ret ()
    else
    bnd (mloop (\<lambda>pass.
      if pass < 2 then
        bnd (deorphan_scan pass powerloss) (\<lambda>moreorphans.
        ret (Inl (if moreorphans then 0 else Suc pass)))
      else ret (Inr ())) 0) (\<lambda>_.
    bnd (gets l_gstate) (\<lambda>g.
    lfs_fs_preporphans (sint (- lfs_gstate_getorphans g)))))"

subsection \<open>Committing\<close>

definition lfs_dir_commit :: "nat \<Rightarrow> lfs_mattr list \<Rightarrow> ('d, unit) fs" where
  "lfs_dir_commit dir attrs =
    bnd (lfs_dir_orphaningcommit dir attrs) (\<lambda>orphans.
    if orphans = LFS_OK_ORPHANED then lfs_fs_deorphan False else ret ())"

definition lfs_dir_drop :: "nat \<Rightarrow> nat \<Rightarrow> ('d, unit) fs" where
  "lfs_dir_drop dir tail =
    bnd (get_mdir tail) (\<lambda>t.
    bnd (gets l_gdelta) (\<lambda>gdelta.
    bnd (lfs_dir_getgstate t gdelta) (\<lambda>gdelta.
    bnd (modify (\<lambda>s. s\<lparr>l_gdelta := gdelta\<rparr>)) (\<lambda>_.
    lfs_dir_commit dir [tail_attr (md_split t) (md_tail t)]))))"

subsection \<open>Consistency after a power loss\<close>

definition lfs_fs_desuperblock :: "('d, unit) fs" where
  "lfs_fs_desuperblock =
    bnd (gets l_gstate) (\<lambda>g.
    if \<not> lfs_gstate_needssuperblock g then ret ()
    else with_mdir mdir_zero (\<lambda>root.
      bnd (gets l_root) (\<lambda>rp.
      bnd (lfs_dir_fetch root rp) (\<lambda>_.
      bnd (gets (\<lambda>s. \<lparr>sb_version = LFS_DISK_VERSION, sb_block_size = cfg_block_size (l_cfg s),
             sb_block_count = l_block_count s, sb_name_max = l_name_max s, sb_file_max = l_file_max s,
             sb_attr_max = l_attr_max s\<rparr>)) (\<lambda>sb.
      bnd (lfs_dir_commit root
             [\<lparr>ma_tag = lfs_mktag LFS_TYPE_INLINESTRUCT 0 24, ma_buf = Bytes (lfs_superblock_tole32 sb)\<rparr>]) (\<lambda>_.
      lfs_fs_prepsuperblock False))))))"

definition lfs_fs_demove :: "('d, unit) fs" where
  "lfs_fs_demove =
    bnd (gets l_gdisk) (\<lambda>g.
    if \<not> lfs_gstate_hasmove g then ret ()
    else
    bnd (check (lfs_tag_type3 (gs_tag g) = LFS_TYPE_DELETE)) (\<lambda>_.
    with_mdir mdir_zero (\<lambda>movedir.
    bnd (lfs_dir_fetch movedir (gs_pair g)) (\<lambda>_.
    bnd (gets l_gdisk) (\<lambda>g.
    let moveid = lfs_tag_id (gs_tag g) in
    bnd (lfs_fs_prepmove 0x3ff None) (\<lambda>_.
    lfs_dir_commit movedir [\<lparr>ma_tag = lfs_mktag LFS_TYPE_DELETE (ucast moveid) 0, ma_buf = Bytes []\<rparr>]))))))"

definition lfs_fs_forceconsistency :: "('d, unit) fs" where
  "lfs_fs_forceconsistency =
    bnd lfs_fs_desuperblock (\<lambda>_.
    bnd lfs_fs_demove (\<lambda>_.
    lfs_fs_deorphan True))"

definition lfs_fs_mkconsistent_raw :: "('d, unit) fs" where
  "lfs_fs_mkconsistent_raw =
    bnd lfs_fs_forceconsistency (\<lambda>_.
    bnd (gets (\<lambda>s. lfs_gstate_xor (lfs_gstate_xor gstate_zero (l_gdisk s)) (l_gstate s))) (\<lambda>delta.
    if \<not> lfs_gstate_iszero delta then
      with_mdir mdir_zero (\<lambda>root.
      bnd (gets l_root) (\<lambda>rp.
      bnd (lfs_dir_fetch root rp) (\<lambda>_.
      lfs_dir_commit root [])))
    else ret ()))"

definition gc_should_compact :: "'d lfs_config \<Rightarrow> lfs_mdir \<Rightarrow> bool" where
  "gc_should_compact cfg d \<longleftrightarrow> \<not> md_erased d \<or>
    (if cfg_compact_thresh cfg = 0 then md_off d > cfg_block_size cfg - cfg_block_size cfg div 8
     else md_off d > cfg_compact_thresh cfg)"

definition gc_compact_all :: "('d, unit) fs" where
  "gc_compact_all = with_mdir (mdir_zero\<lparr>md_tail := (0, 1)\<rparr>) (\<lambda>mdir. mloop (\<lambda>_.
    bnd (get_mdir mdir) (\<lambda>d.
    if lfs_pair_isnull (md_tail d) then ret (Inr ())
    else
      bnd (lfs_dir_fetch mdir (md_tail d)) (\<lambda>_.
      bnd (gets l_cfg) (\<lambda>cfg.
      bnd (get_mdir mdir) (\<lambda>d.
      bnd (if gc_should_compact cfg d then
             bnd (upd_mdir mdir (\<lambda>d. d\<lparr>md_erased := False\<rparr>)) (\<lambda>_. lfs_dir_commit mdir [])
           else ret ()) (\<lambda>_.
      ret (Inl ()))))))) ())"

definition lfs_fs_gc_raw :: "('d, unit) fs" where
  "lfs_fs_gc_raw =
    bnd lfs_fs_forceconsistency (\<lambda>_.
    bnd (gets l_cfg) (\<lambda>cfg.
    bnd (if cfg_compact_thresh cfg < cfg_block_size cfg - cfg_prog_size cfg then gc_compact_all else ret ()) (\<lambda>_.
    bnd (get_buf (cfg_lookahead_buffer cfg)) (\<lambda>lb.
    bnd (gets l_block_count) (\<lambda>bc.
    bnd (gets l_lookahead) (\<lambda>la.
    if la_size la < min (8 * word_of_nat (length lb)) bc then lfs_alloc_scan else ret ()))))))"

subsection \<open>Growing\<close>

text \<open>A file system is shrunk only when nothing beyond the new size is in use.\<close>

definition lfs_fs_grow_raw :: "u32 \<Rightarrow> ('d, unit) fs" where
  "lfs_fs_grow_raw block_count =
    bnd (gets l_block_count) (\<lambda>bc.
    if block_count = bc then ret ()
    else
    bnd (if block_count < bc then
           lfs_fs_traverse_raw (\<lambda>block _. if block \<ge> block_count then throw NotEmpty else ret ()) () True
         else ret ()) (\<lambda>_.
    bnd (modify (\<lambda>s. s\<lparr>l_block_count := block_count\<rparr>)) (\<lambda>_.
    with_mdir mdir_zero (\<lambda>root.
    bnd (gets l_root) (\<lambda>rp.
    bnd (lfs_dir_fetch root rp) (\<lambda>_.
    bnd (get_mdir root) (\<lambda>d.
    bnd (lfs_dir_get d (lfs_mktag 0x7ff 0x3ff 0) (lfs_mktag LFS_TYPE_INLINESTRUCT 0 24) (replicate 24 0)) (\<lambda>(tag, bs).
    bnd (gets l_block_count) (\<lambda>bc.
    let sb = (lfs_superblock_fromle32 bs)\<lparr>sb_block_count := bc\<rparr> in
    lfs_dir_commit root [\<lparr>ma_tag = tag, ma_buf = Bytes (lfs_superblock_tole32 sb)\<rparr>])))))))))"

end
