(* ===== verification/FileOps.thy ===== *)
theory FileOps
  imports Commit3
begin

text \<open>
  \<open>file/ops.rs\<close>, the public file operations: opening and closing, synchronising with the
  directory, reading, writing, seeking and truncating.  A handle is the address of its node.
\<close>

subsection \<open>Synchronising and closing\<close>

text \<open>The entry a handle would write: inline data or the skip list, and its attributes.\<close>

definition sync_attrs :: "nat \<Rightarrow> ('d, lfs_mattr list) fs" where
  "sync_attrs f =
    bnd (get_node f) (\<lambda>file.
    bnd (get_buf (cache_buffer (nd_cache file))) (\<lambda>b.
    let inline = flag_has (nd_flags file) F_INLINE;
        sz = unat (ctz_size (nd_ctz file));
        as = fc_attrs (nd_cfg file);
        userattrs = \<lparr>ma_tag = lfs_mktag LFS_FROM_USERATTRS (ucast (nd_id file)) (length as), ma_buf = AttrsBuf as\<rparr> in
    if inline then
      bnd (check (sz \<le> length b)) (\<lambda>_.
      ret [\<lparr>ma_tag = lfs_mktag LFS_TYPE_INLINESTRUCT (ucast (nd_id file)) sz, ma_buf = Bytes (take sz b)\<rparr>, userattrs])
    else
      ret [\<lparr>ma_tag = lfs_mktag LFS_TYPE_CTZSTRUCT (ucast (nd_id file)) 8, ma_buf = Bytes (lfs_ctz_tole32 (nd_ctz file))\<rparr>,
           userattrs]))"

definition lfs_file_sync_raw :: "nat \<Rightarrow> ('d, unit) fs" where
  "lfs_file_sync_raw f =
    bnd (get_node f) (\<lambda>file.
    if flag_has (nd_flags file) F_ERRED then ret ()
    else
    bnd (or_erred f (lfs_file_flush f)) (\<lambda>_.
    bnd (get_node f) (\<lambda>file.
    if flag_has (nd_flags file) F_DIRTY \<and> \<not> lfs_pair_isnull (md_pair (nd_m file)) then
      bnd (if \<not> flag_has (nd_flags file) F_INLINE then lfs_bd_sync PCache RCache False else ret ()) (\<lambda>_.
      bnd (sync_attrs f) (\<lambda>attrs.
      bnd (or_erred f (lfs_dir_commit f attrs)) (\<lambda>_.
      remove_flag f F_DIRTY)))
    else ret ())))"

text \<open>The empty slice, which a handle's cache has until its buffer is set; and freed memory.\<close>

definition EMPTY_BUF :: nat where "EMPTY_BUF = 0"

definition lfs_malloc :: "nat \<Rightarrow> ('d, nat) fs" where
  "lfs_malloc n =
    bnd (gets l_next_buf) (\<lambda>b.
    bnd (modify (\<lambda>s. s\<lparr>l_next_buf := Suc b\<rparr>)) (\<lambda>_.
    bnd (put_buf b (replicate n 0)) (\<lambda>_.
    ret b)))"

definition lfs_file_close_raw :: "nat \<Rightarrow> ('d, unit) fs" where
  "lfs_file_close_raw f =
    bnd (get_node f) (\<lambda>file.
    bnd (if \<not> flag_has (nd_flags file) F_ERRED then attempt (lfs_file_sync_raw f) else ret (Inr ())) (\<lambda>err.
    bnd (lfs_mlist_remove f) (\<lambda>_.
    bnd (get_node f) (\<lambda>file.
    bnd (get_buf (cache_buffer (nd_cache file))) (\<lambda>b.
    bnd (if fc_buffer (nd_cfg file) = None \<and> b \<noteq> [] then put_buf (cache_buffer (nd_cache file)) [] else ret ()) (\<lambda>_.
    lift_res err))))))"

subsection \<open>Opening\<close>

text \<open>Every failure after the handle has been set up closes it, without setting its error flag.\<close>

definition close_fail :: "nat \<Rightarrow> error \<Rightarrow> ('d, 'a) fs" where
  "close_fail f e = bnd (attempt (lfs_file_close_raw f)) (\<lambda>_. throw e)"

definition open_create :: "nat \<Rightarrow> u32 \<Rightarrow> bytes \<Rightarrow> ('d, unit) fs" where
  "open_create f flags path =
    (if \<not> flag_has flags O_CREATE then close_fail f NoEntry
     else if lfs_path_isdir path then close_fail f NotDir
     else
     let nlen = lfs_path_namelen path in
     bnd (gets l_name_max) (\<lambda>name_max.
     if nlen > unat name_max then close_fail f NameTooLong
     else
     bnd lfs_alloc_ckpoint (\<lambda>_.
     bnd (get_node f) (\<lambda>file.
     let eid = ucast (nd_id file) in
     bnd (attempt (lfs_dir_commit f
            [\<lparr>ma_tag = lfs_mktag LFS_TYPE_CREATE eid 0, ma_buf = Bytes []\<rparr>,
             \<lparr>ma_tag = lfs_mktag LFS_TYPE3_REG eid nlen, ma_buf = Bytes path\<rparr>,
             \<lparr>ma_tag = lfs_mktag LFS_TYPE_INLINESTRUCT eid 0, ma_buf = Bytes []\<rparr>])) (\<lambda>r.
     case r of
       Inl e \<Rightarrow> close_fail f (if e = NoSpace then NameTooLong else e)
     | Inr _ \<Rightarrow> ret ())))))"

text \<open>An existing entry: the tag of its data, \<open>file.ctz\<close> filled from it.\<close>

definition open_existing :: "nat \<Rightarrow> u32 \<Rightarrow> u32 \<Rightarrow> ('d, u32) fs" where
  "open_existing f flags tag =
    (if flag_has flags O_EXCL then close_fail f Exists
     else if lfs_tag_type3 tag \<noteq> LFS_TYPE3_REG then close_fail f IsDir
     else
     bnd (get_node f) (\<lambda>file.
     if flag_has flags O_TRUNC then
       bnd (insert_flag f F_DIRTY) (\<lambda>_. ret (lfs_mktag LFS_TYPE_INLINESTRUCT (ucast (nd_id file)) 0))
     else
       bnd (lfs_dir_get_buf (nd_m file) (lfs_mktag 0x700 0x3ff 0) (lfs_mktag LFS_TYPE_STRUCT (ucast (nd_id file)) 8)
              (lfs_ctz_tole32 (nd_ctz file))) (\<lambda>(r, bs).
       bnd (upd_node f (\<lambda>n. n\<lparr>nd_ctz := lfs_ctz_fromle32 bs\<rparr>)) (\<lambda>_.
       case r of Inl e \<Rightarrow> close_fail f e | Inr tag \<Rightarrow> ret tag))))"

definition set_attr_buffer :: "nat \<Rightarrow> nat \<Rightarrow> bytes \<Rightarrow> ('d, unit) fs" where
  "set_attr_buffer f i bs = upd_node f (\<lambda>n. n\<lparr>nd_cfg := (nd_cfg n)\<lparr>fc_attrs :=
     (fc_attrs (nd_cfg n))[i := (fc_attrs (nd_cfg n) ! i)\<lparr>at_buffer := bs\<rparr>]\<rparr>\<rparr>)"

definition open_attr :: "nat \<Rightarrow> nat \<Rightarrow> unit \<Rightarrow> ('d, unit) fs" where
  "open_attr f i = (\<lambda>_.
    bnd (get_node f) (\<lambda>file.
    let attr = fc_attrs (nd_cfg file) ! i in
    bnd (if flag_has (nd_flags file) O_READ then
           bnd (lfs_dir_get_buf (nd_m file) (lfs_mktag 0x7ff 0x3ff 0)
                 (lfs_mktag (LFS_TYPE_USERATTR + ucast (at_type attr)) (ucast (nd_id file)) (length (at_buffer attr)))
                 (at_buffer attr)) (\<lambda>(r, bs).
           bnd (set_attr_buffer f i bs) (\<lambda>_.
           case r of
             Inl e \<Rightarrow> if e \<noteq> NoEntry then close_fail f e else ret ()
           | Inr _ \<Rightarrow> ret ()))
         else ret ()) (\<lambda>_.
    if flag_has (nd_flags file) O_WRITE then
      bnd (gets l_attr_max) (\<lambda>attr_max.
      if word_of_nat (length (at_buffer attr)) > attr_max then close_fail f NoSpace
      else insert_flag f F_DIRTY)
    else ret ())))"

definition open_buffer :: "nat \<Rightarrow> ('d, unit) fs" where
  "open_buffer f =
    bnd (get_node f) (\<lambda>file.
    case fc_buffer (nd_cfg file) of
      Some b \<Rightarrow> upd_node f (\<lambda>n. n\<lparr>nd_cache := (nd_cache n)\<lparr>cache_buffer := b\<rparr>\<rparr>)
    | None \<Rightarrow>
        bnd (gets (\<lambda>s. cfg_cache_size (l_cfg s))) (\<lambda>sz.
        bnd (lfs_malloc (unat sz)) (\<lambda>b.
        bnd (upd_node f (\<lambda>n. n\<lparr>nd_cache := (nd_cache n)\<lparr>cache_buffer := b\<rparr>\<rparr>)) (\<lambda>_.
        if sz = 0 then close_fail f NoMemory else ret ()))))"

text \<open>Setting an inline file up, with its data read into its cache.\<close>

definition open_inline :: "nat \<Rightarrow> u32 \<Rightarrow> ('d, unit) fs" where
  "open_inline f sz =
    bnd (gets (\<lambda>s. cfg_cache_size (l_cfg s))) (\<lambda>csz.
    bnd (upd_node f (\<lambda>n. n\<lparr>nd_ctz := \<lparr>ctz_head = LFS_BLOCK_INLINE, ctz_size = sz\<rparr>,
           nd_flags := flag_set F_INLINE (nd_flags n),
           nd_cache := (nd_cache n)\<lparr>cache_block := LFS_BLOCK_INLINE, cache_off := 0, cache_size := unat csz\<rparr>\<rparr>)) (\<lambda>_.
    if sz > 0 then
      bnd (get_node f) (\<lambda>file.
      bnd (get_buf (cache_buffer (nd_cache file))) (\<lambda>b.
      bnd (lfs_dir_get_buf (nd_m file) (lfs_mktag 0x700 0x3ff 0)
            (lfs_mktag LFS_TYPE_STRUCT (ucast (nd_id file)) (min (cache_size (nd_cache file)) 0x3fe)) b) (\<lambda>(r, bs).
      bnd (put_buf (cache_buffer (nd_cache file)) bs) (\<lambda>_.
      case r of Inl e \<Rightarrow> close_fail f e | Inr _ \<Rightarrow> ret ()))))
    else ret ()))"

definition lfs_file_opencfg_raw :: "nat \<Rightarrow> bytes \<Rightarrow> u32 \<Rightarrow> lfs_file_config \<Rightarrow> ('d, unit) fs" where
  "lfs_file_opencfg_raw f path flags cfg =
    bnd (if flag_has flags O_WRITE then lfs_fs_forceconsistency else ret ()) (\<lambda>_.
    bnd (upd_node f (\<lambda>n. n\<lparr>nd_cfg := cfg, nd_flags := flags, nd_pos := 0, nd_off := 0,
           nd_cache := (nd_cache n)\<lparr>cache_buffer := EMPTY_BUF\<rparr>\<rparr>)) (\<lambda>_.
    bnd (get_node f) (\<lambda>file.
    bnd (lfs_dir_find f path (nd_id file)) (\<lambda>(tag, path_ptr, i).
    bnd (upd_node f (\<lambda>n. n\<lparr>nd_id := i\<rparr>)) (\<lambda>_.
    bnd (case tag of
           Inl e \<Rightarrow> if \<not> (e = NoEntry \<and> lfs_path_islast path_ptr) then close_fail f e else ret ()
         | Inr _ \<Rightarrow> ret ()) (\<lambda>_.
    bnd (upd_node f (\<lambda>n. n\<lparr>nd_type := TYPE_REG\<rparr>)) (\<lambda>_.
    bnd (lfs_mlist_append f) (\<lambda>_.
    bnd (case tag of
           Inl _ \<Rightarrow> bnd (open_create f flags path_ptr) (\<lambda>_. ret None)
         | Inr tag \<Rightarrow> bnd (open_existing f flags tag) (\<lambda>tag. ret (Some tag))) (\<lambda>tag.
    bnd (mfold (open_attr f) [0..<length (fc_attrs cfg)] ()) (\<lambda>_.
    bnd (open_buffer f) (\<lambda>_.
    bnd (lfs_cache_zero (FCache f)) (\<lambda>_.
    case tag of
      None \<Rightarrow> open_inline f 0
    | Some tag \<Rightarrow>
        if lfs_tag_type3 tag = LFS_TYPE_INLINESTRUCT then open_inline f (lfs_tag_size tag) else ret ()))))))))))))"

definition LFS_FILE_DEFAULTS :: lfs_file_config where
  "LFS_FILE_DEFAULTS = \<lparr>fc_buffer = None, fc_attrs = []\<rparr>"

definition lfs_file_open_raw :: "nat \<Rightarrow> bytes \<Rightarrow> u32 \<Rightarrow> ('d, unit) fs" where
  "lfs_file_open_raw f path flags = lfs_file_opencfg_raw f path flags LFS_FILE_DEFAULTS"

subsection \<open>Reading, writing and seeking\<close>

definition lfs_file_read_raw :: "nat \<Rightarrow> bytes \<Rightarrow> ('d, u32 \<times> bytes) fs" where
  "lfs_file_read_raw f buffer =
    bnd (get_node f) (\<lambda>file.
    bnd (check (flag_has (nd_flags file) O_READ)) (\<lambda>_.
    bnd (if flag_has (nd_flags file) F_WRITING then lfs_file_flush f else ret ()) (\<lambda>_.
    lfs_file_flushedread f buffer)))"

text \<open>The gap between the end of the file and the position is filled with zeros.\<close>

definition write_zeros :: "nat \<Rightarrow> u32 \<Rightarrow> ('d, unit) fs" where
  "write_zeros f pos = mloop (\<lambda>_.
    bnd (get_node f) (\<lambda>file.
    if nd_pos file < pos then bnd (lfs_file_flushedwrite f [0]) (\<lambda>_. ret (Inl ()))
    else ret (Inr ()))) ()"

definition lfs_file_write_raw :: "nat \<Rightarrow> bytes \<Rightarrow> ('d, u32) fs" where
  "lfs_file_write_raw f buffer =
    bnd (get_node f) (\<lambda>file.
    bnd (check (flag_has (nd_flags file) O_WRITE)) (\<lambda>_.
    bnd (if flag_has (nd_flags file) F_READING then lfs_file_flush f else ret ()) (\<lambda>_.
    bnd (upd_node f (\<lambda>n. if flag_has (nd_flags n) O_APPEND \<and> nd_pos n < ctz_size (nd_ctz n)
           then n\<lparr>nd_pos := ctz_size (nd_ctz n)\<rparr> else n)) (\<lambda>_.
    bnd (get_node f) (\<lambda>file.
    bnd (gets l_file_max) (\<lambda>file_max.
    if nd_pos file + word_of_nat (length buffer) > file_max then throw FileTooBig
    else
    bnd (if \<not> flag_has (nd_flags file) F_WRITING \<and> nd_pos file > ctz_size (nd_ctz file) then
           bnd (upd_node f (\<lambda>n. n\<lparr>nd_pos := ctz_size (nd_ctz n)\<rparr>)) (\<lambda>_. write_zeros f (nd_pos file))
         else ret ()) (\<lambda>_.
    bnd (lfs_file_flushedwrite f buffer) (\<lambda>nsize.
    bnd (remove_flag f F_ERRED) (\<lambda>_.
    ret nsize)))))))))"

definition lfs_file_size_raw :: "lfs_node \<Rightarrow> u32" where
  "lfs_file_size_raw file =
    (if flag_has (nd_flags file) F_WRITING then max (nd_pos file) (ctz_size (nd_ctz file)) else ctz_size (nd_ctz file))"

definition lfs_file_tell_raw :: "lfs_node \<Rightarrow> u32" where
  "lfs_file_tell_raw file = nd_pos file"

definition LFS_SEEK_SET :: int where "LFS_SEEK_SET = 0"
definition LFS_SEEK_CUR :: int where "LFS_SEEK_CUR = 1"
definition LFS_SEEK_END :: int where "LFS_SEEK_END = 2"

definition seek_target :: "lfs_node \<Rightarrow> u32 \<Rightarrow> int \<Rightarrow> u32" where
  "seek_target file off whence =
    (if whence = LFS_SEEK_SET then off
     else if whence = LFS_SEEK_CUR then nd_pos file + off
     else if whence = LFS_SEEK_END then lfs_file_size_raw file + off
     else nd_pos file)"

text \<open>A position in the block that is cached is reached without flushing: \<open>Some\<close> its offset.\<close>

definition seek_cached :: "nat \<Rightarrow> u32 \<Rightarrow> ('d, u32 option) fs" where
  "seek_cached f npos =
    bnd (get_node f) (\<lambda>file.
    bnd (gets (\<lambda>s. cfg_block_size (l_cfg s))) (\<lambda>block_size.
    if flag_has (nd_flags file) F_READING \<and> nd_off file \<noteq> block_size then
      bnd (lfs_ctz_index (nd_pos file)) (\<lambda>(oindex, _).
      bnd (lfs_ctz_index npos) (\<lambda>(nindex, noff).
      let c = nd_cache file in
      ret (if oindex = nindex \<and> unat noff \<ge> cache_off c \<and> unat noff < cache_off c + cache_size c
           then Some noff else None)))
    else ret None))"

definition lfs_file_seek_raw :: "nat \<Rightarrow> u32 \<Rightarrow> int \<Rightarrow> ('d, u32) fs" where
  "lfs_file_seek_raw f off whence =
    bnd (get_node f) (\<lambda>file.
    bnd (gets l_file_max) (\<lambda>file_max.
    let npos = seek_target file off whence in
    if npos > file_max then throw Invalid
    else if nd_pos file = npos then ret npos
    else
    bnd (seek_cached f npos) (\<lambda>c.
    case c of
      Some noff \<Rightarrow> bnd (upd_node f (\<lambda>n. n\<lparr>nd_pos := npos, nd_off := noff\<rparr>)) (\<lambda>_. ret npos)
    | None \<Rightarrow>
        bnd (lfs_file_flush f) (\<lambda>_.
        bnd (upd_node f (\<lambda>n. n\<lparr>nd_pos := npos\<rparr>)) (\<lambda>_.
        ret npos)))))"

definition lfs_file_rewind_raw :: "nat \<Rightarrow> ('d, unit) fs" where
  "lfs_file_rewind_raw f = bnd (lfs_file_seek_raw f 0 LFS_SEEK_SET) (\<lambda>_. ret ())"

subsection \<open>Truncating\<close>

text \<open>Back to an inline file: the data is read through the read cache's buffer.\<close>

definition truncate_inline :: "nat \<Rightarrow> u32 \<Rightarrow> ('d, unit) fs" where
  "truncate_inline f sz =
    bnd (lfs_file_seek_raw f 0 LFS_SEEK_SET) (\<lambda>_.
    bnd (lfs_cache_drop RCache) (\<lambda>_.
    bnd (gets l_rcache) (\<lambda>rc.
    bnd (get_buf (cache_buffer rc)) (\<lambda>rb.
    bnd (check (unat sz \<le> length rb)) (\<lambda>_.
    bnd (lfs_file_flushedread f (take (unat sz) rb)) (\<lambda>(_, bs).
    bnd (get_buf (cache_buffer rc)) (\<lambda>rb.
    bnd (put_buf (cache_buffer rc) (splice rb 0 bs)) (\<lambda>_.
    bnd (gets (\<lambda>s. cfg_cache_size (l_cfg s))) (\<lambda>cache_size.
    bnd (upd_node f (\<lambda>n. n\<lparr>nd_ctz := \<lparr>ctz_head = LFS_BLOCK_INLINE, ctz_size = sz\<rparr>,
           nd_flags := flag_set F_DIRTY (flag_set F_READING (flag_set F_INLINE (nd_flags n))),
           nd_cache := (nd_cache n)\<lparr>cache_block := LFS_BLOCK_INLINE, cache_off := 0, cache_size := unat cache_size\<rparr>\<rparr>)) (\<lambda>_.
    bnd (get_node f) (\<lambda>file.
    bnd (get_buf (cache_buffer (nd_cache file))) (\<lambda>fb.
    bnd (check (unat sz \<le> length fb)) (\<lambda>_.
    bnd (get_buf (cache_buffer rc)) (\<lambda>rb.
    put_buf (cache_buffer (nd_cache file)) (splice fb 0 (take (unat sz) rb))))))))))))))))"

definition truncate_blocks :: "nat \<Rightarrow> u32 \<Rightarrow> ('d, unit) fs" where
  "truncate_blocks f sz =
    bnd (lfs_file_flush f) (\<lambda>_.
    bnd (get_node f) (\<lambda>file.
    bnd (lfs_ctz_find None (FCache f) (ctz_head (nd_ctz file)) (ctz_size (nd_ctz file)) (sz - 1)) (\<lambda>(block, _).
    upd_node f (\<lambda>n. n\<lparr>nd_block := block, nd_pos := sz, nd_ctz := \<lparr>ctz_head = block, ctz_size = sz\<rparr>,
      nd_flags := flag_set F_DIRTY (flag_set F_READING (nd_flags n))\<rparr>))))"

definition truncate_grow :: "nat \<Rightarrow> u32 \<Rightarrow> ('d, unit) fs" where
  "truncate_grow f sz =
    bnd (lfs_file_seek_raw f 0 LFS_SEEK_END) (\<lambda>_.
    mloop (\<lambda>_.
      bnd (get_node f) (\<lambda>file.
      if nd_pos file < sz then bnd (lfs_file_write_raw f [0]) (\<lambda>_. ret (Inl ()))
      else ret (Inr ()))) ())"

definition lfs_file_truncate_raw :: "nat \<Rightarrow> u32 \<Rightarrow> ('d, unit) fs" where
  "lfs_file_truncate_raw f sz =
    bnd (get_node f) (\<lambda>file.
    bnd (check (flag_has (nd_flags file) O_WRITE)) (\<lambda>_.
    bnd (gets l_file_max) (\<lambda>file_max.
    if sz > file_max then throw Invalid
    else
    let oldsize = lfs_file_size_raw file in
    bnd (gets l_inline_max) (\<lambda>inline_max.
    bnd (if sz < oldsize then
           (if sz \<le> inline_max then truncate_inline f sz else truncate_blocks f sz)
         else if sz > oldsize then truncate_grow f sz
         else ret ()) (\<lambda>_.
    bnd (lfs_file_seek_raw f (nd_pos file) LFS_SEEK_SET) (\<lambda>_.
    ret ()))))))"

end
