(* ===== verification/Names.thy ===== *)
theory Names
  imports Commit3
begin

text \<open>
  The operations on names: \<open>dir/open.rs\<close> (reading a directory), \<open>fs/mkdir.rs\<close>,
  \<open>fs/remove.rs\<close>, \<open>fs/rename.rs\<close> and \<open>fs/attr.rs\<close> (user attributes).
\<close>

definition root_tail :: "('d, lfs_mdir) fs" where
  "root_tail = gets (\<lambda>s. mdir_zero\<lparr>md_tail := l_root s\<rparr>)"

subsection \<open>Reading a directory\<close>

definition lfs_dir_open_raw :: "nat \<Rightarrow> bytes \<Rightarrow> ('d, unit) fs" where
  "lfs_dir_open_raw dir path =
    bnd (lfs_dir_find dir path 0) (\<lambda>(res, _, _).
    bnd (lift_res res) (\<lambda>tag.
    if lfs_tag_type3 tag \<noteq> LFS_TYPE3_DIR then throw NotDir
    else
    bnd (if lfs_tag_id tag = 0x3ff then gets l_root
         else
           bnd (get_mdir dir) (\<lambda>m.
           bnd (lfs_dir_get m (lfs_mktag 0x700 0x3ff 0) (lfs_mktag LFS_TYPE_STRUCT (ucast (lfs_tag_id tag)) 8) (replicate 8 0)) (\<lambda>(_, bs).
           ret (pair_from_le bs)))) (\<lambda>pr.
    bnd (lfs_dir_fetch dir pr) (\<lambda>_.
    bnd (upd_node dir (\<lambda>n. n\<lparr>nd_head := md_pair (nd_m n), nd_id := 0, nd_dpos := 0, nd_type := TYPE_DIR\<rparr>)) (\<lambda>_.
    lfs_mlist_append dir)))))"

definition lfs_dir_close_raw :: "nat \<Rightarrow> ('d, unit) fs" where
  "lfs_dir_close_raw dir = lfs_mlist_remove dir"

text \<open>Going on to the next pair of the directory when the entries of this one are used up.\<close>

definition dir_next_pair :: "nat \<Rightarrow> ('d, bool) fs" where
  "dir_next_pair dir =
    bnd (get_node dir) (\<lambda>n.
    if nd_id n = md_count (nd_m n) then
      if \<not> md_split (nd_m n) then ret False
      else
        bnd (lfs_dir_fetch dir (md_tail (nd_m n))) (\<lambda>_.
        bnd (upd_node dir (\<lambda>n. n\<lparr>nd_id := 0\<rparr>)) (\<lambda>_.
        ret True))
    else ret True)"

definition lfs_dir_read_body :: "nat \<Rightarrow> lfs_info \<Rightarrow> ('d, lfs_info + lfs_info option) fs" where
  "lfs_dir_read_body dir info =
    bnd (dir_next_pair dir) (\<lambda>more.
    if \<not> more then ret (Inr None)
    else
      bnd (get_node dir) (\<lambda>n.
      bnd (attempt (lfs_dir_getinfo (nd_m n) (nd_id n) info)) (\<lambda>r.
      case r of
        Inl e \<Rightarrow>
          if e \<noteq> NoEntry then throw e
          else bnd (upd_node dir (\<lambda>n. n\<lparr>nd_id := nd_id n + 1\<rparr>)) (\<lambda>_. ret (Inl info))
      | Inr info \<Rightarrow>
          bnd (upd_node dir (\<lambda>n. n\<lparr>nd_id := nd_id n + 1\<rparr>)) (\<lambda>_. ret (Inr (Some info))))))"

definition dot_info :: "bytes \<Rightarrow> lfs_info" where
  "dot_info name = lfs_info_default\<lparr>info_type := TYPE_DIR, info_name := splice (replicate 256 0) 0 (name @ [0])\<rparr>"

definition lfs_dir_read_raw :: "nat \<Rightarrow> ('d, lfs_info option) fs" where
  "lfs_dir_read_raw dir =
    bnd (get_node dir) (\<lambda>n.
    let step = upd_node dir (\<lambda>n. n\<lparr>nd_dpos := nd_dpos n + 1\<rparr>) in
    if nd_dpos n = 0 then bnd step (\<lambda>_. ret (Some (dot_info [DOT])))
    else if nd_dpos n = 1 then bnd step (\<lambda>_. ret (Some (dot_info [DOT, DOT])))
    else
      bnd (mloop (lfs_dir_read_body dir) lfs_info_default) (\<lambda>r.
      case r of None \<Rightarrow> ret None | Some info \<Rightarrow> bnd step (\<lambda>_. ret (Some info))))"

definition lfs_dir_rewind_raw :: "nat \<Rightarrow> ('d, unit) fs" where
  "lfs_dir_rewind_raw dir =
    bnd (get_node dir) (\<lambda>n.
    bnd (lfs_dir_fetch dir (nd_head n)) (\<lambda>_.
    upd_node dir (\<lambda>n. n\<lparr>nd_id := 0, nd_dpos := 0\<rparr>)))"

definition lfs_dir_seek_body :: "nat \<Rightarrow> u32 \<Rightarrow> ('d, u32 + unit) fs" where
  "lfs_dir_seek_body dir off =
    (if off > 0 then
       bnd (dir_next_pair dir) (\<lambda>more.
       if \<not> more then throw Invalid
       else
         bnd (get_node dir) (\<lambda>n.
         let diff = min (ucast (md_count (nd_m n) - nd_id n)) off in
         bnd (upd_node dir (\<lambda>n. n\<lparr>nd_id := nd_id n + ucast diff, nd_dpos := nd_dpos n + diff\<rparr>)) (\<lambda>_.
         ret (Inl (off - diff)))))
     else ret (Inr ()))"

definition lfs_dir_seek_raw :: "nat \<Rightarrow> u32 \<Rightarrow> ('d, unit) fs" where
  "lfs_dir_seek_raw dir off =
    bnd (lfs_dir_rewind_raw dir) (\<lambda>_.
    bnd (get_node dir) (\<lambda>n.
    bnd (gets l_root) (\<lambda>root.
    let pos = min 2 off;
        off = off - pos in
    bnd (upd_node dir (\<lambda>n. n\<lparr>nd_dpos := pos,
           nd_id := (if off > 0 \<and> \<not> lfs_pair_cmp (nd_head n) root then 1 else 0)\<rparr>)) (\<lambda>_.
    mloop (lfs_dir_seek_body dir) off))))"

definition lfs_dir_tell_raw :: "nat \<Rightarrow> ('d, u32) fs" where
  "lfs_dir_tell_raw dir = bnd (get_node dir) (\<lambda>n. ret (nd_dpos n))"

subsection \<open>Making a directory\<close>

definition find_list_end :: "nat \<Rightarrow> ('d, unit) fs" where
  "find_list_end pred = mloop (\<lambda>_.
    bnd (get_mdir pred) (\<lambda>p.
    if md_split p then bnd (lfs_dir_fetch pred (md_tail p)) (\<lambda>_. ret (Inl ()))
    else ret (Inr ()))) ()"

definition softtail_attr :: "pair \<Rightarrow> lfs_mattr" where
  "softtail_attr p = \<lparr>ma_tag = lfs_mktag LFS_TYPE_SOFTTAIL 0x3ff 8, ma_buf = Bytes (pair_to_le p)\<rparr>"

text \<open>The handle is put in front of the open list while the commit runs, so that it is kept valid.\<close>

definition with_open :: "nat \<Rightarrow> ('d, 'a) fs \<Rightarrow> ('d, 'a) fs" where
  "with_open a c =
    bnd (modify (\<lambda>s. s\<lparr>l_mlist := Some a\<rparr>)) (\<lambda>_.
    bnd (attempt c) (\<lambda>r.
    bnd (get_node a) (\<lambda>n.
    bnd (modify (\<lambda>s. s\<lparr>l_mlist := nd_next n\<rparr>)) (\<lambda>_.
    lift_res r))))"

definition mkdir_link_tails :: "nat \<Rightarrow> nat \<Rightarrow> nat \<Rightarrow> ('d, unit) fs" where
  "mkdir_link_tails cwd dir pred =
    bnd (lfs_fs_preporphans 1) (\<lambda>_.
    bnd (upd_node cwd (\<lambda>n. n\<lparr>nd_type := 0, nd_id := 0\<rparr>)) (\<lambda>_.
    bnd (get_mdir dir) (\<lambda>d.
    bnd (with_open cwd (lfs_dir_commit pred [softtail_attr (md_pair d)])) (\<lambda>_.
    lfs_fs_preporphans (- 1)))))"

definition mkdir_attrs :: "u16 \<Rightarrow> bytes \<Rightarrow> nat \<Rightarrow> pair \<Rightarrow> bool \<Rightarrow> lfs_mattr list" where
  "mkdir_attrs i name nlen pr split =
    [\<lparr>ma_tag = lfs_mktag LFS_TYPE_CREATE (ucast i) 0, ma_buf = Bytes []\<rparr>,
     \<lparr>ma_tag = lfs_mktag LFS_TYPE3_DIR (ucast i) nlen, ma_buf = Bytes name\<rparr>,
     \<lparr>ma_tag = lfs_mktag LFS_TYPE_DIRSTRUCT (ucast i) 8, ma_buf = Bytes (pair_to_le pr)\<rparr>,
     \<lparr>ma_tag = lfs_mktag_if (\<not> split) LFS_TYPE_SOFTTAIL 0x3ff 8, ma_buf = Bytes (pair_to_le pr)\<rparr>]"

definition mkdir_create :: "nat \<Rightarrow> bytes \<Rightarrow> u16 \<Rightarrow> ('d, unit) fs" where
  "mkdir_create cwd name i =
    (let nlen = lfs_path_namelen name in
    bnd (gets l_name_max) (\<lambda>name_max.
    if nlen > unat name_max then throw NameTooLong
    else
    bnd lfs_alloc_ckpoint (\<lambda>_.
    with_mdir mdir_zero (\<lambda>dir.
    bnd (lfs_dir_alloc dir) (\<lambda>_.
    bnd (get_mdir cwd) (\<lambda>m.
    with_mdir m (\<lambda>pred.
    bnd (find_list_end pred) (\<lambda>_.
    bnd (get_mdir pred) (\<lambda>p.
    bnd (lfs_dir_commit dir [softtail_attr (md_tail p)]) (\<lambda>_.
    bnd (get_mdir cwd) (\<lambda>m.
    bnd (if md_split m then mkdir_link_tails cwd dir pred else ret ()) (\<lambda>_.
    bnd (get_mdir dir) (\<lambda>d.
    bnd (get_mdir cwd) (\<lambda>m.
    lfs_dir_commit cwd (mkdir_attrs i name nlen (md_pair d) (md_split m))))))))))))))))"

definition lfs_mkdir_raw :: "bytes \<Rightarrow> ('d, unit) fs" where
  "lfs_mkdir_raw path =
    bnd lfs_fs_forceconsistency (\<lambda>_.
    bnd root_tail (\<lambda>m.
    bnd (gets l_mlist) (\<lambda>mlist.
    with_node (node_default\<lparr>nd_m := m, nd_next := mlist, nd_type := 0, nd_id := 0\<rparr>) (\<lambda>cwd.
    bnd (lfs_dir_find cwd path 0) (\<lambda>(res, path_ptr, i).
    case res of
      Inr _ \<Rightarrow> throw Exists
    | Inl e \<Rightarrow>
        if \<not> (e = NoEntry \<and> lfs_path_islast path_ptr) then throw e
        else mkdir_create cwd path_ptr i)))))"

subsection \<open>Removing\<close>

definition delete_attr :: "u16 \<Rightarrow> lfs_mattr" where
  "delete_attr i = \<lparr>ma_tag = lfs_mktag LFS_TYPE_DELETE (ucast i) 0, ma_buf = Bytes []\<rparr>"

text \<open>The directory about to be replaced or removed has to be empty; it will be an orphan.\<close>

definition prepare_orphan :: "lfs_mdir \<Rightarrow> nat \<Rightarrow> u16 \<Rightarrow> ('d, unit) fs" where
  "prepare_orphan cwd dir i =
    bnd (lfs_dir_get cwd (lfs_mktag 0x700 0x3ff 0) (lfs_mktag LFS_TYPE_STRUCT (ucast i) 8) (replicate 8 0)) (\<lambda>(_, bs).
    bnd (lfs_dir_fetch dir (pair_from_le bs)) (\<lambda>_.
    bnd (get_mdir dir) (\<lambda>d.
    if md_count d > 0 \<or> md_split d then throw NotEmpty
    else
      bnd (lfs_fs_preporphans 1) (\<lambda>_.
      bnd (upd_node dir (\<lambda>n. n\<lparr>nd_type := 0, nd_id := 0\<rparr>)) (\<lambda>_.
      modify (\<lambda>s. s\<lparr>l_mlist := Some dir\<rparr>))))))"

text \<open>The commit, after which the open list is what it was.\<close>

definition commit_and_close :: "nat \<Rightarrow> nat \<Rightarrow> lfs_mattr list \<Rightarrow> ('d, unit) fs" where
  "commit_and_close dir cwd attrs =
    bnd (attempt (lfs_dir_commit cwd attrs)) (\<lambda>r.
    bnd (get_node dir) (\<lambda>n.
    bnd (modify (\<lambda>s. s\<lparr>l_mlist := nd_next n\<rparr>)) (\<lambda>_.
    lift_res r)))"

text \<open>The directory that has become an orphan is taken off the threaded list.\<close>

definition drop_orphan :: "nat \<Rightarrow> nat \<Rightarrow> ('d, unit) fs" where
  "drop_orphan cwd dir =
    bnd (lfs_fs_preporphans (- 1)) (\<lambda>_.
    bnd (get_mdir dir) (\<lambda>d.
    bnd (lfs_fs_pred (md_pair d) cwd) (\<lambda>_.
    lfs_dir_drop cwd dir)))"

definition lfs_remove_raw :: "bytes \<Rightarrow> ('d, unit) fs" where
  "lfs_remove_raw path =
    bnd lfs_fs_forceconsistency (\<lambda>_.
    bnd root_tail (\<lambda>m.
    with_mdir m (\<lambda>cwd.
    bnd (lfs_dir_find cwd path 0) (\<lambda>(res, _, _).
    bnd (lift_res res) (\<lambda>tag.
    if lfs_tag_id tag = 0x3ff then throw Invalid
    else
    bnd (gets l_mlist) (\<lambda>mlist.
    with_node (node_default\<lparr>nd_next := mlist\<rparr>) (\<lambda>dir.
    bnd (get_mdir cwd) (\<lambda>c.
    bnd (if lfs_tag_type3 tag = LFS_TYPE3_DIR then prepare_orphan c dir (lfs_tag_id tag) else ret ()) (\<lambda>_.
    bnd (commit_and_close dir cwd [delete_attr (lfs_tag_id tag)]) (\<lambda>_.
    bnd (gets l_gstate) (\<lambda>g.
    if lfs_gstate_hasorphans g then
      bnd (check (lfs_tag_type3 tag = LFS_TYPE3_DIR)) (\<lambda>_. drop_orphan cwd dir)
    else ret ())))))))))))"

subsection \<open>Renaming\<close>

text \<open>
  What the destination allows: \<open>None\<close> when source and destination are the same entry, else
  the id the source has once an entry has been inserted in front of it.
\<close>

definition rename_check ::
  "nat \<Rightarrow> nat \<Rightarrow> u32 \<Rightarrow> (error + u32) \<Rightarrow> bytes \<Rightarrow> u16 \<Rightarrow> bool \<Rightarrow> ('d, u16 option) fs" where
  "rename_check newcwd prevdir oldtag prevtag newpath newid samepair =
    (case prevtag of
       Inl _ \<Rightarrow>
         if lfs_path_isdir newpath \<and> lfs_tag_type3 oldtag \<noteq> LFS_TYPE3_DIR then throw NotDir
         else
         bnd (gets l_name_max) (\<lambda>name_max.
         if word_of_nat (lfs_path_namelen newpath) > name_max then throw NameTooLong
         else ret (Some (if samepair \<and> newid \<le> lfs_tag_id oldtag then lfs_tag_id oldtag + 1 else lfs_tag_id oldtag)))
     | Inr ptag \<Rightarrow>
         if lfs_tag_type3 ptag \<noteq> lfs_tag_type3 oldtag then
           throw (if lfs_tag_type3 ptag = LFS_TYPE3_DIR then IsDir else NotDir)
         else if samepair \<and> newid = lfs_tag_id oldtag then ret None
         else
           bnd (get_mdir newcwd) (\<lambda>c.
           bnd (if lfs_tag_type3 ptag = LFS_TYPE3_DIR then prepare_orphan c prevdir newid else ret ()) (\<lambda>_.
           ret (Some (lfs_tag_id oldtag)))))"

definition rename_attrs ::
  "bool \<Rightarrow> u16 \<Rightarrow> u32 \<Rightarrow> bytes \<Rightarrow> lfs_mdir \<Rightarrow> bool \<Rightarrow> u16 \<Rightarrow> lfs_mattr list" where
  "rename_attrs exists newid oldtag newpath oldcwd samepair newoldid =
    [\<lparr>ma_tag = lfs_mktag_if exists LFS_TYPE_DELETE (ucast newid) 0, ma_buf = Bytes []\<rparr>,
     \<lparr>ma_tag = lfs_mktag LFS_TYPE_CREATE (ucast newid) 0, ma_buf = Bytes []\<rparr>,
     \<lparr>ma_tag = lfs_mktag (lfs_tag_type3 oldtag) (ucast newid) (lfs_path_namelen newpath), ma_buf = Bytes newpath\<rparr>,
     \<lparr>ma_tag = lfs_mktag LFS_FROM_MOVE (ucast newid) (unat (lfs_tag_id oldtag)), ma_buf = MdirBuf oldcwd\<rparr>,
     \<lparr>ma_tag = lfs_mktag_if samepair LFS_TYPE_DELETE (ucast newoldid) 0, ma_buf = Bytes []\<rparr>]"

definition rename_commit ::
  "nat \<Rightarrow> nat \<Rightarrow> nat \<Rightarrow> u32 \<Rightarrow> (error + u32) \<Rightarrow> bytes \<Rightarrow> u16 \<Rightarrow> bool \<Rightarrow> u16 \<Rightarrow> ('d, unit) fs" where
  "rename_commit oldcwd newcwd prevdir oldtag prevtag newpath newid samepair newoldid =
    bnd (get_mdir oldcwd) (\<lambda>od.
    bnd (if \<not> samepair then lfs_fs_prepmove newoldid (Some (md_pair od)) else ret ()) (\<lambda>_.
    bnd (commit_and_close prevdir newcwd
           (rename_attrs (prevtag \<noteq> Inl NoEntry) newid oldtag newpath od samepair newoldid)) (\<lambda>_.
    bnd (gets l_gstate) (\<lambda>g.
    bnd (if \<not> samepair \<and> lfs_gstate_hasmove g then
           bnd (lfs_fs_prepmove 0x3ff None) (\<lambda>_.
           commit_and_close prevdir oldcwd [delete_attr (lfs_tag_id oldtag)])
         else ret ()) (\<lambda>_.
    bnd (gets l_gstate) (\<lambda>g.
    if lfs_gstate_hasorphans g then
      (case prevtag of
         Inl _ \<Rightarrow> panic
       | Inr ptag \<Rightarrow>
           bnd (check (lfs_tag_type3 ptag = LFS_TYPE3_DIR)) (\<lambda>_. drop_orphan newcwd prevdir))
    else ret ()))))))"

definition lfs_rename_raw :: "bytes \<Rightarrow> bytes \<Rightarrow> ('d, unit) fs" where
  "lfs_rename_raw oldpath newpath =
    bnd lfs_fs_forceconsistency (\<lambda>_.
    bnd root_tail (\<lambda>m.
    with_mdir m (\<lambda>oldcwd.
    bnd (lfs_dir_find oldcwd oldpath 0) (\<lambda>(res, _, _).
    bnd (lift_res res) (\<lambda>oldtag.
    if lfs_tag_id oldtag = 0x3ff then throw Invalid
    else
    bnd root_tail (\<lambda>m.
    with_mdir m (\<lambda>newcwd.
    bnd (lfs_dir_find newcwd newpath 0) (\<lambda>(prevtag, newpath_ptr, newid).
    bnd (case prevtag of
           Inl e \<Rightarrow> if \<not> (e = NoEntry \<and> lfs_path_islast newpath_ptr) then throw e else ret ()
         | Inr ptag \<Rightarrow> if lfs_tag_id ptag = 0x3ff then throw Invalid else ret ()) (\<lambda>_.
    bnd (get_mdir oldcwd) (\<lambda>od.
    bnd (get_mdir newcwd) (\<lambda>n.
    let samepair = (\<not> lfs_pair_cmp (md_pair od) (md_pair n)) in
    bnd (gets l_mlist) (\<lambda>mlist.
    with_node (node_default\<lparr>nd_next := mlist\<rparr>) (\<lambda>prevdir.
    bnd (rename_check newcwd prevdir oldtag prevtag newpath_ptr newid samepair) (\<lambda>r.
    case r of
      None \<Rightarrow> ret ()
    | Some newoldid \<Rightarrow>
        rename_commit oldcwd newcwd prevdir oldtag prevtag newpath_ptr newid samepair newoldid))))))))))))))"

subsection \<open>User attributes\<close>

text \<open>The entry a path names; the root's attributes are those of its first entry.\<close>

definition attr_entry :: "nat \<Rightarrow> bytes \<Rightarrow> ('d, u16) fs" where
  "attr_entry cwd path =
    bnd (lfs_dir_find cwd path 0) (\<lambda>(res, _, _).
    bnd (lift_res res) (\<lambda>tag.
    if lfs_tag_id tag = 0x3ff then
      bnd (gets l_root) (\<lambda>root.
      bnd (lfs_dir_fetch cwd root) (\<lambda>_.
      ret 0))
    else ret (lfs_tag_id tag)))"

definition lfs_getattr_raw :: "bytes \<Rightarrow> u8 \<Rightarrow> bytes \<Rightarrow> ('d, u32 \<times> bytes) fs" where
  "lfs_getattr_raw path type buffer =
    bnd root_tail (\<lambda>m.
    with_mdir m (\<lambda>cwd.
    bnd (attr_entry cwd path) (\<lambda>i.
    bnd (gets l_attr_max) (\<lambda>attr_max.
    bnd (get_mdir cwd) (\<lambda>d.
    bnd (lfs_dir_get_buf d (lfs_mktag 0x7ff 0x3ff 0)
           (lfs_mktag (LFS_TYPE_USERATTR + ucast type) (ucast i) (min (length buffer) (unat attr_max))) buffer) (\<lambda>(r, bs).
    case r of
      Inl e \<Rightarrow> throw (if e = NoEntry then NoAttribute else e)
    | Inr tag \<Rightarrow> ret (lfs_tag_size tag, bs)))))))"

definition lfs_commitattr :: "bytes \<Rightarrow> u8 \<Rightarrow> bytes \<Rightarrow> nat \<Rightarrow> ('d, unit) fs" where
  "lfs_commitattr path type buffer sz =
    bnd root_tail (\<lambda>m.
    with_mdir m (\<lambda>cwd.
    bnd (attr_entry cwd path) (\<lambda>i.
    lfs_dir_commit cwd
      [\<lparr>ma_tag = lfs_mktag (LFS_TYPE_USERATTR + ucast type) (ucast i) sz, ma_buf = Bytes buffer\<rparr>])))"

definition lfs_setattr_raw :: "bytes \<Rightarrow> u8 \<Rightarrow> bytes \<Rightarrow> ('d, unit) fs" where
  "lfs_setattr_raw path type buffer =
    bnd (gets l_attr_max) (\<lambda>attr_max.
    if length buffer > unat attr_max then throw NoSpace
    else lfs_commitattr path type buffer (length buffer))"

definition lfs_removeattr_raw :: "bytes \<Rightarrow> u8 \<Rightarrow> ('d, unit) fs" where
  "lfs_removeattr_raw path type = lfs_commitattr path type [] 0x3ff"

end
