(* ===== verification/Mount.thy ===== *)
theory Mount
  imports FileOps Names
begin

text \<open>
  \<open>fs/init.rs\<close>, \<open>fs/format.rs\<close> and \<open>fs/mount.rs\<close>: checking the configuration and setting the
  state up, writing the first superblock, and reading superblocks and global state back.
  \<open>lfs_deinit\<close> frees nothing, because all buffers are provided.
\<close>

subsection \<open>Initialisation\<close>

text \<open>The assertions on the configuration, in the order of the source.\<close>

definition init_sizes_ok :: "'d lfs_config \<Rightarrow> nat \<Rightarrow> nat \<Rightarrow> bool" where
  "init_sizes_ok cfg rlen plen \<longleftrightarrow>
    cfg_read_size cfg \<noteq> 0 \<and> cfg_prog_size cfg \<noteq> 0 \<and> cfg_cache_size cfg \<noteq> 0
    \<and> word_of_nat rlen \<ge> cfg_cache_size cfg \<and> word_of_nat plen \<ge> cfg_cache_size cfg
    \<and> unat (cfg_read_size cfg) dvd unat (cfg_cache_size cfg)
    \<and> unat (cfg_prog_size cfg) dvd unat (cfg_cache_size cfg)
    \<and> unat (cfg_cache_size cfg) dvd unat (cfg_block_size cfg)
    \<and> cfg_block_size cfg \<ge> 128
    \<and> 4 * lfs_npw2 (0xffffffff div (cfg_block_size cfg - 8)) \<le> cfg_block_size cfg
    \<and> cfg_block_cycles cfg \<noteq> 0"

definition init_thresholds_ok :: "'d lfs_config \<Rightarrow> bool" where
  "init_thresholds_ok cfg \<longleftrightarrow>
    (cfg_compact_thresh cfg = 0 \<or> cfg_compact_thresh cfg \<ge> cfg_block_size cfg div 2)
    \<and> (cfg_compact_thresh cfg = - 1 \<or> cfg_compact_thresh cfg \<le> cfg_block_size cfg)
    \<and> (cfg_metadata_max cfg = 0 \<or> unat (cfg_read_size cfg) dvd unat (cfg_metadata_max cfg))
    \<and> (cfg_metadata_max cfg = 0 \<or> unat (cfg_prog_size cfg) dvd unat (cfg_metadata_max cfg))
    \<and> (cfg_metadata_max cfg = 0 \<or> unat (cfg_metadata_max cfg) dvd unat (cfg_block_size cfg))"

definition or_default :: "u32 \<Rightarrow> u32 \<Rightarrow> u32" where
  "or_default x d = (if x \<noteq> 0 then x else d)"

definition init_metadata_max :: "'d lfs_config \<Rightarrow> u32" where
  "init_metadata_max cfg = or_default (cfg_metadata_max cfg) (cfg_block_size cfg)"

definition init_limits_ok :: "'d lfs_config \<Rightarrow> bool" where
  "init_limits_ok cfg \<longleftrightarrow>
    cfg_name_max cfg \<le> LFS_NAME_MAX \<and> cfg_file_max cfg \<le> LFS_FILE_MAX \<and> cfg_attr_max cfg \<le> LFS_ATTR_MAX
    \<and> (cfg_metadata_max cfg = 0 \<or> cfg_metadata_max cfg \<le> cfg_block_size cfg)
    \<and> (cfg_inline_max cfg = - 1 \<or> cfg_inline_max cfg \<le> cfg_cache_size cfg)
    \<and> (cfg_inline_max cfg = - 1 \<or> cfg_inline_max cfg \<le> or_default (cfg_attr_max cfg) LFS_ATTR_MAX)
    \<and> (cfg_inline_max cfg = - 1 \<or> cfg_inline_max cfg \<le> init_metadata_max cfg div 8)"

definition init_inline_max :: "'d lfs_config \<Rightarrow> u32" where
  "init_inline_max cfg =
    (if cfg_inline_max cfg = - 1 then 0
     else if cfg_inline_max cfg = 0
     then min (min (cfg_cache_size cfg) (or_default (cfg_attr_max cfg) LFS_ATTR_MAX)) (init_metadata_max cfg div 8)
     else cfg_inline_max cfg)"

definition lfs_init :: "'d lfs_config \<Rightarrow> ('d, unit) fs" where
  "lfs_init cfg =
    bnd (get_buf (cfg_read_buffer cfg)) (\<lambda>rb.
    bnd (get_buf (cfg_prog_buffer cfg)) (\<lambda>pb.
    bnd (check (init_sizes_ok cfg (length rb) (length pb))) (\<lambda>_.
    bnd (check (init_thresholds_ok cfg)) (\<lambda>_.
    bnd (modify (\<lambda>s. s\<lparr>l_cfg := cfg, l_block_count := cfg_block_count cfg,
           l_rcache := (l_rcache s)\<lparr>cache_buffer := cfg_read_buffer cfg\<rparr>,
           l_pcache := (l_pcache s)\<lparr>cache_buffer := cfg_prog_buffer cfg\<rparr>\<rparr>)) (\<lambda>_.
    bnd (lfs_cache_zero RCache) (\<lambda>_.
    bnd (lfs_cache_zero PCache) (\<lambda>_.
    bnd (get_buf (cfg_lookahead_buffer cfg)) (\<lambda>lb.
    bnd (check (lb \<noteq> [])) (\<lambda>_.
    bnd (check (init_limits_ok cfg)) (\<lambda>_.
    modify (\<lambda>s. s\<lparr>l_lookahead := (l_lookahead s)\<lparr>la_buffer := cfg_lookahead_buffer cfg\<rparr>,
      l_name_max := or_default (cfg_name_max cfg) LFS_NAME_MAX,
      l_file_max := or_default (cfg_file_max cfg) LFS_FILE_MAX,
      l_attr_max := or_default (cfg_attr_max cfg) LFS_ATTR_MAX,
      l_inline_max := init_inline_max cfg,
      l_root := (LFS_BLOCK_NULL, LFS_BLOCK_NULL), l_mlist := None, l_seed := 0,
      l_gstate := gstate_zero, l_gdisk := gstate_zero, l_gdelta := gstate_zero\<rparr>)))))))))))"

definition lfs_deinit :: "('d, unit) fs" where
  "lfs_deinit = ret ()"

subsection \<open>Formatting\<close>

text \<open>\<open>b"littlefs"\<close>.\<close>

definition lfs_magic :: bytes where
  "lfs_magic = [0x6c, 0x69, 0x74, 0x74, 0x6c, 0x65, 0x66, 0x73]"

definition or_deinit :: "('d, 'a) fs \<Rightarrow> ('d, 'a) fs" where
  "or_deinit c = bnd (attempt c) (\<lambda>r. case r of
      Inl e \<Rightarrow> bnd lfs_deinit (\<lambda>_. throw e)
    | Inr x \<Rightarrow> ret x)"

definition superblock_attrs :: "lfs_superblock \<Rightarrow> lfs_mattr list" where
  "superblock_attrs sb =
    [\<lparr>ma_tag = lfs_mktag LFS_TYPE_CREATE 0 0, ma_buf = Bytes []\<rparr>,
     \<lparr>ma_tag = lfs_mktag LFS_TYPE_SUPERBLOCK 0 8, ma_buf = Bytes lfs_magic\<rparr>,
     \<lparr>ma_tag = lfs_mktag LFS_TYPE_INLINESTRUCT 0 24, ma_buf = Bytes (lfs_superblock_tole32 sb)\<rparr>]"

text \<open>The free lookahead window of a disk about to be formatted.\<close>

definition format_lookahead :: "'d lfs_config \<Rightarrow> ('d, unit) fs" where
  "format_lookahead cfg =
    bnd (gets l_lookahead) (\<lambda>la.
    bnd (get_buf (la_buffer la)) (\<lambda>b.
    bnd (put_buf (la_buffer la) (replicate (length b) 0)) (\<lambda>_.
    bnd (get_buf (cfg_lookahead_buffer cfg)) (\<lambda>lb.
    bnd (modify (\<lambda>s. s\<lparr>l_lookahead := (l_lookahead s)\<lparr>la_start := 0,
           la_size := min (8 * word_of_nat (length lb)) (l_block_count s), la_next := 0\<rparr>\<rparr>)) (\<lambda>_.
    lfs_alloc_ckpoint)))))"

definition format_superblock :: "'d lfs_config \<Rightarrow> ('d, lfs_superblock) fs" where
  "format_superblock cfg = gets (\<lambda>s. \<lparr>sb_version = LFS_DISK_VERSION, sb_block_size = cfg_block_size cfg,
     sb_block_count = l_block_count s, sb_name_max = l_name_max s, sb_file_max = l_file_max s,
     sb_attr_max = l_attr_max s\<rparr>)"

definition lfs_format_raw :: "'d lfs_config \<Rightarrow> ('d, unit) fs" where
  "lfs_format_raw cfg =
    bnd (or_deinit (lfs_init cfg)) (\<lambda>_.
    bnd (check (cfg_block_count cfg \<noteq> 0)) (\<lambda>_.
    bnd (format_lookahead cfg) (\<lambda>_.
    with_mdir mdir_zero (\<lambda>root.
    bnd (or_deinit (lfs_dir_alloc root)) (\<lambda>_.
    bnd (format_superblock cfg) (\<lambda>sb.
    bnd (or_deinit (lfs_dir_commit root (superblock_attrs sb))) (\<lambda>_.
    bnd (upd_mdir root (\<lambda>d. d\<lparr>md_erased := False\<rparr>)) (\<lambda>_.
    bnd (or_deinit (lfs_dir_commit root [])) (\<lambda>_.
    bnd (or_deinit (lfs_dir_fetch root (0, 1))) (\<lambda>_.
    lfs_deinit))))))))))"

subsection \<open>Mounting\<close>

text \<open>The limits a superblock sets may only be lower than the configured ones.\<close>

definition mount_limit :: "u32 \<Rightarrow> u32 \<Rightarrow> (u32 \<Rightarrow> ('d, unit) fs) \<Rightarrow> ('d, unit) fs" where
  "mount_limit sb_max cur upd =
    (if sb_max \<noteq> 0 then (if sb_max > cur then throw Invalid else upd sb_max) else ret ())"

definition mount_superblock :: "'d lfs_config \<Rightarrow> lfs_superblock \<Rightarrow> ('d, unit) fs" where
  "mount_superblock cfg sb =
    (let major = ucast (0xffff AND drop_bit 16 (sb_version sb)) :: u16;
         minor = ucast (0xffff AND sb_version sb) :: u16 in
     if major \<noteq> ucast LFS_DISK_VERSION_MAJOR \<or> minor > ucast LFS_DISK_VERSION_MINOR then throw Invalid
     else
     bnd (lfs_fs_prepsuperblock (minor < ucast LFS_DISK_VERSION_MINOR)) (\<lambda>_.
     bnd (gets l_name_max) (\<lambda>name_max.
     bnd (mount_limit (sb_name_max sb) name_max (\<lambda>m. modify (\<lambda>s. s\<lparr>l_name_max := m\<rparr>))) (\<lambda>_.
     bnd (gets l_file_max) (\<lambda>file_max.
     bnd (mount_limit (sb_file_max sb) file_max (\<lambda>m. modify (\<lambda>s. s\<lparr>l_file_max := m\<rparr>))) (\<lambda>_.
     bnd (gets l_attr_max) (\<lambda>attr_max.
     bnd (mount_limit (sb_attr_max sb) attr_max
            (\<lambda>m. modify (\<lambda>s. s\<lparr>l_attr_max := m, l_inline_max := min (l_inline_max s) m\<rparr>))) (\<lambda>_.
     if cfg_block_count cfg \<noteq> 0 \<and> sb_block_count sb \<noteq> cfg_block_count cfg then throw Invalid
     else
     bnd (modify (\<lambda>s. s\<lparr>l_block_count := sb_block_count sb\<rparr>)) (\<lambda>_.
     if sb_block_size sb \<noteq> cfg_block_size cfg then throw Invalid else ret ())))))))))"

text \<open>One pair of the threaded list.\<close>

definition mount_pair :: "'d lfs_config \<Rightarrow> nat \<Rightarrow> pair \<Rightarrow> ('d, unit) fs" where
  "mount_pair cfg dir tail =
    bnd (lfs_dir_fetchmatch dir tail (lfs_mktag 0x7ff 0x3ff 0) (lfs_mktag LFS_TYPE_SUPERBLOCK 0 8)
           (Some (lfs_dir_find_match lfs_magic))) (\<lambda>(r, _).
    bnd (lift_res r) (\<lambda>tag.
    bnd (get_mdir dir) (\<lambda>d.
    bnd (if tag \<noteq> 0 \<and> \<not> lfs_tag_isdelete tag then
           bnd (modify (\<lambda>s. s\<lparr>l_root := md_pair d\<rparr>)) (\<lambda>_.
           bnd (superblock_get d) (mount_superblock cfg))
         else ret ()) (\<lambda>_.
    bnd (gets l_gstate) (\<lambda>g.
    bnd (lfs_dir_getgstate d g) (\<lambda>g.
    modify (\<lambda>s. s\<lparr>l_gstate := g\<rparr>)))))))"

definition mount_scan :: "'d lfs_config \<Rightarrow> ('d, unit) fs" where
  "mount_scan cfg = with_mdir (mdir_zero\<lparr>md_tail := (0, 1)\<rparr>) (\<lambda>dir. mloop (\<lambda>tortoise.
    bnd (get_mdir dir) (\<lambda>d.
    if lfs_pair_isnull (md_tail d) then ret (Inr ())
    else
      bnd (lift_res (lfs_tortoise_detectcycles (md_tail d) tortoise)) (\<lambda>tortoise.
      bnd (mount_pair cfg dir (md_tail d)) (\<lambda>_.
      ret (Inl tortoise))))) tortoise_start)"

definition lfs_mount_raw :: "'d lfs_config \<Rightarrow> ('d, unit) fs" where
  "lfs_mount_raw cfg =
    bnd (lfs_init cfg) (\<lambda>_.
    bnd (or_deinit (mount_scan cfg)) (\<lambda>_.
    bnd (modify (\<lambda>s. s\<lparr>l_gstate :=
           (if \<not> lfs_gstate_iszero (l_gstate s)
            then (l_gstate s)\<lparr>gs_tag := gs_tag (l_gstate s) + (if \<not> lfs_tag_isvalid (gs_tag (l_gstate s)) then 1 else 0)\<rparr>
            else l_gstate s)\<rparr>)) (\<lambda>_.
    bnd (gets l_block_count) (\<lambda>bc.
    bnd (check (bc \<noteq> 0)) (\<lambda>_.
    bnd (modify (\<lambda>s. s\<lparr>l_gdisk := l_gstate s,
           l_lookahead := (l_lookahead s)\<lparr>la_start := l_seed s mod bc\<rparr>\<rparr>)) (\<lambda>_.
    lfs_alloc_drop))))))"

definition lfs_unmount_raw :: "('d, unit) fs" where
  "lfs_unmount_raw = lfs_deinit"

end
