(* ===== verification/Robust.thy ===== *)
theory Robust
  imports LogProps Mount
begin

text \<open>
  Reading metadata is robust: on a driver that works, whatever bytes the device holds,
  fetching a pair and looking entries up return, do not panic, and leave the device alone.
  \<open>robust I c P\<close> says that from every state with \<open>I\<close> the computation returns without a panic,
  keeps \<open>I\<close>, and a value it returns satisfies \<open>P\<close>.
\<close>

definition robust :: "('s \<Rightarrow> bool) \<Rightarrow> ('s, 'a) m \<Rightarrow> ('a \<Rightarrow> bool) \<Rightarrow> bool" where
  "robust I c P \<longleftrightarrow> (\<forall>s. I s \<longrightarrow> (\<exists>r t. c s = Some (r, t) \<and> r \<noteq> Panic \<and> I t \<and> (\<forall>x. r = Val x \<longrightarrow> P x)))"

lemma robustI: "(\<And>s. I s \<Longrightarrow> \<exists>r t. c s = Some (r, t) \<and> r \<noteq> Panic \<and> I t \<and> (\<forall>x. r = Val x \<longrightarrow> P x)) \<Longrightarrow> robust I c P"
  by (simp add: robust_def)

lemma robust_mono: "robust I c P \<Longrightarrow> (\<And>x. P x \<Longrightarrow> Q x) \<Longrightarrow> robust I c Q"
  unfolding robust_def by blast

named_theorems rb_intros \<open>computations that are robust\<close>

lemma rb_ret [rb_intros]: "P x \<Longrightarrow> robust I (ret x) P"
  by (simp add: robust_def ret_def)

lemma rb_throw [rb_intros]: "robust I (throw e) P"
  by (simp add: robust_def throw_def)

lemma rb_check [rb_intros]: "b \<Longrightarrow> P () \<Longrightarrow> robust I (check b) P"
  by (simp add: rb_ret)

lemma rb_gets [rb_intros]: "(\<And>s. I s \<Longrightarrow> P (f s)) \<Longrightarrow> robust I (gets f) P"
  by (simp add: robust_def gets_def)

lemma rb_modify: "(\<And>s. I s \<Longrightarrow> I (f s)) \<Longrightarrow> P () \<Longrightarrow> robust I (modify f) P"
  by (simp add: robust_def modify_def)

lemma rb_bnd_post:
  assumes "robust I c P" "\<And>x. P x \<Longrightarrow> robust I (k x) Q"
  shows "robust I (bnd c k) Q"
proof (rule robustI)
  fix s assume "I s"
  then obtain r t where c: "c s = Some (r, t)" "r \<noteq> Panic" "I t" "\<forall>x. r = Val x \<longrightarrow> P x"
    using assms(1) unfolding robust_def by blast
  then show "\<exists>r t. bnd c k s = Some (r, t) \<and> r \<noteq> Panic \<and> I t \<and> (\<forall>x. r = Val x \<longrightarrow> Q x)"
    using assms(2) unfolding robust_def by (cases r) (auto simp: bnd_def)
qed

lemma rb_bnd [rb_intros]:
  "robust I c (\<lambda>_. True) \<Longrightarrow> (\<And>x. robust I (k x) Q) \<Longrightarrow> robust I (bnd c k) Q"
  by (rule rb_bnd_post)

lemma rb_attempt [rb_intros]: "robust I c P \<Longrightarrow> (\<And>e. Q (Inl e)) \<Longrightarrow> (\<And>x. P x \<Longrightarrow> Q (Inr x)) \<Longrightarrow> robust I (attempt c) Q"
  unfolding robust_def attempt_def by (fastforce split: outcome.splits)

lemma rb_lift_res [rb_intros]: "(\<And>x. r = Inr x \<Longrightarrow> P x) \<Longrightarrow> robust I (lift_res r) P"
  by (cases r) (simp_all add: rb_ret rb_throw)

lemma rb_if [rb_intros]: "(b \<Longrightarrow> robust I c P) \<Longrightarrow> (\<not> b \<Longrightarrow> robust I d P) \<Longrightarrow> robust I (if b then c else d) P"
  by simp

lemma rb_case_sum [rb_intros]: "(\<And>x. r = Inl x \<Longrightarrow> robust I (c x) P) \<Longrightarrow> (\<And>x. r = Inr x \<Longrightarrow> robust I (d x) P) \<Longrightarrow>
    robust I (case r of Inl x \<Rightarrow> c x | Inr x \<Rightarrow> d x) P"
  by (cases r) simp_all

lemma rb_case_option [rb_intros]: "(r = None \<Longrightarrow> robust I c P) \<Longrightarrow> (\<And>x. r = Some x \<Longrightarrow> robust I (d x) P) \<Longrightarrow>
    robust I (case r of None \<Rightarrow> c | Some x \<Rightarrow> d x) P"
  by (cases r) simp_all

lemma rb_case_prod [rb_intros]: "(\<And>x y. r = (x, y) \<Longrightarrow> robust I (c x y) P) \<Longrightarrow> robust I (case r of (x, y) \<Rightarrow> c x y) P"
  by (cases r) simp

lemma rb_Let [rb_intros]: "(\<And>x. x = e \<Longrightarrow> robust I (c x) P) \<Longrightarrow> robust I (let x = e in c x) P"
  by simp

lemma mktag_size_le: "unat type < 2048 \<Longrightarrow> unat eid < 1024 \<Longrightarrow> sz < 1024 \<Longrightarrow> unat (lfs_tag_size (lfs_mktag type eid sz)) \<le> sz"
  by (simp add: mktag_fields(3) unat_of_nat)

text \<open>A loop with an invariant on its variables and a measure.\<close>

lemma rb_mloop:
  fixes \<mu> :: "'x \<Rightarrow> nat"
  assumes body: "\<And>x. J x \<Longrightarrow> robust I (body x) (\<lambda>r. case r of Inl y \<Rightarrow> J y \<and> \<mu> y < \<mu> x | Inr z \<Rightarrow> Q z)"
    and start: "J x"
  shows "robust I (mloop body x) Q"
proof (rule robustI)
  fix s assume "I s"
  have "wp (mloop body x) (\<lambda>r t. r \<noteq> Panic \<and> I t \<and> (\<forall>z. r = Val z \<longrightarrow> Q z)) s"
  proof (rule wp_mloop [where I = "\<lambda>x s. J x \<and> I s" and \<mu> = "\<lambda>x s. \<mu> x"])
    fix x s assume "J x \<and> I s"
    then obtain r t where "body x s = Some (r, t)" "r \<noteq> Panic" "I t"
      "\<forall>z. r = Val z \<longrightarrow> (case z of Inl y \<Rightarrow> J y \<and> \<mu> y < \<mu> x | Inr z \<Rightarrow> Q z)"
      using body unfolding robust_def by blast
    then show "wp (body x) (\<lambda>r t. case r of
        Val (Inl y) \<Rightarrow> (J y \<and> I t) \<and> \<mu> y < \<mu> x
      | Val (Inr z) \<Rightarrow> Val z \<noteq> Panic \<and> I t \<and> (\<forall>z'. Val z = Val z' \<longrightarrow> Q z')
      | Exc e \<Rightarrow> Exc e \<noteq> Panic \<and> I t \<and> (\<forall>z. Exc e = Val z \<longrightarrow> Q z)
      | Panic \<Rightarrow> Panic \<noteq> Panic \<and> I t \<and> (\<forall>z. Panic = Val z \<longrightarrow> Q z)) s"
      by (auto simp: wp_def split: outcome.splits sum.splits)
  qed (use \<open>I s\<close> start in simp)
  then show "\<exists>r t. mloop body x s = Some (r, t) \<and> r \<noteq> Panic \<and> I t \<and> (\<forall>x. r = Val x \<longrightarrow> Q x)"
    by (auto elim!: wpE)
qed

subsection \<open>The states a lookup starts from\<close>

definition rd_state ::
  "'d storage \<Rightarrow> ('d \<Rightarrow> bool) \<Rightarrow> ('d \<Rightarrow> u32 \<Rightarrow> bytes) \<Rightarrow> nat \<Rightarrow> nat \<Rightarrow> 'd lfs_config \<Rightarrow> 'd \<Rightarrow> nat \<Rightarrow> 'd lfs \<Rightarrow> bool" where
  "rd_state st dok blk bsz bcount cfg d a s \<longleftrightarrow> l_cfg s = cfg \<and> l_dev s = d \<and> attached_to st dok bsz bcount s
     \<and> 0 < bcount \<and> 0 < bsz
     \<and> coherent_to blk bsz bcount (cfg_read_size cfg) d (l_rcache s) (l_bufs s (cache_buffer (l_rcache s)))
     \<and> l_nodes s a \<noteq> None"

context block_device
begin

abbreviation rd where "rd \<equiv> rd_state st dok blk bsz bcount"

lemma rd_read_ready: "rd cfg d a s \<Longrightarrow> unat block < bcount \<Longrightarrow> read_ready None RCache block s"
  by (auto simp: rd_state_def read_ready_to_def cache_of_PCache pcached_def pcache_in_def)

lemma rd_reloaded: "rd cfg d a s \<Longrightarrow> reloaded RCache s t \<Longrightarrow> rd cfg d a t"
  by (auto simp: rd_state_def reloaded_def attached_to_def load_def set_cache_def cache_of_PCache)

lemma rb_bd_read_buf:
  assumes "off + length buf \<le> bsz \<Longrightarrow> buf \<noteq> [] \<Longrightarrow> 0 < hint \<and> hint \<le> 2 ^ 31"
    and "\<And>r bs. length bs = length buf \<Longrightarrow> (r = Inr () \<Longrightarrow> off + length buf \<le> bsz) \<Longrightarrow> P (r, bs)"
  shows "robust (rd cfg d a) (lfs_bd_read_buf None RCache hint block off buf) P"
proof (rule robustI)
  fix s assume I: "rd cfg d a s"
  show "\<exists>r t. lfs_bd_read_buf None RCache hint block off buf s = Some (r, t) \<and> r \<noteq> Panic \<and> rd cfg d a t
      \<and> (\<forall>x. r = Val x \<longrightarrow> P x)"
  proof (cases "off + length buf \<le> bsz \<and> unat block < bcount")
    case False
    then have "lfs_bd_read_buf None RCache hint block off buf s = Some (Val (Inl Corrupt, buf), s)"
      using I by (auto simp: lfs_bd_read_buf_def bnd_gets rd_state_def attached_to_def word_le_nat_alt ret_def)
    with I show ?thesis by (auto intro!: assms(2))
  next
    case True
    note ready = rd_read_ready [OF I, of block]
    show ?thesis
    proof (cases "buf = []")
      case True
      with \<open>off + length buf \<le> bsz \<and> unat block < bcount\<close> I ready show ?thesis
        by (simp add: bd_read_buf_nil assms(2))
    next
      case False
      obtain c' b' where "lfs_bd_read_buf None RCache hint block off buf s =
          Some (Val (Inr (), take (length buf) (drop off (view None s block))), load RCache c' b' s)"
        "cache_buffer c' = cache_buffer (l_rcache s)" "coherent (cfg_read_size (l_cfg s)) (l_dev s) c' b'"
        by (rule bd_read_buf_correct [OF ready cache_of_PCache(2), of hint off buf])
          (use assms(1) True False in auto)
      moreover from this have "rd cfg d a (load RCache c' b' s)"
        by (intro rd_reloaded [OF I]) (auto simp: reloaded_def cache_of_PCache)
      moreover have "length (view None s block) = bsz"
        using I True by (intro length_view) (auto simp: rd_state_def attached_to_def pcached_def pcache_in_def)
      ultimately show ?thesis using True by (auto intro!: assms(2))
    qed
  qed
qed

lemma rb_bd_read [rb_intros]:
  assumes "off + length buf \<le> bsz \<Longrightarrow> buf \<noteq> [] \<Longrightarrow> 0 < hint \<and> hint \<le> 2 ^ 31"
    and "\<And>bs. length bs = length buf \<Longrightarrow> off + length buf \<le> bsz \<Longrightarrow> P bs"
  shows "robust (rd cfg d a) (lfs_bd_read None RCache hint block off buf) P"
  unfolding lfs_bd_read_def
proof (rule rb_bnd_post [where P = "\<lambda>(r, bs). length bs = length buf \<and> (r = Inr () \<longrightarrow> off + length buf \<le> bsz)"])
  show "robust (rd cfg d a) (lfs_bd_read_buf None RCache hint block off buf)
      (\<lambda>(r, bs). length bs = length buf \<and> (r = Inr () \<longrightarrow> off + length buf \<le> bsz))"
    by (rule rb_bd_read_buf) (use assms(1) in auto)
  fix x :: "(error + unit) \<times> bytes"
  assume x: "case x of (r, bs) \<Rightarrow> length bs = length buf \<and> (r = Inr () \<longrightarrow> off + length buf \<le> bsz)"
  obtain r bs where [simp]: "x = (r, bs)" by (cases x)
  show "robust (rd cfg d a) (case x of (r, bs) \<Rightarrow> bnd (lift_res r) (\<lambda>_. ret bs)) P"
    unfolding \<open>x = (r, bs)\<close> prod.case
    by (rule rb_bnd_post [where P = "\<lambda>_. r = Inr ()"]) (use x assms(2) in \<open>auto intro!: rb_intros\<close>)
qed

lemma rb_cfg: "robust (rd cfg d a) (k cfg) P \<Longrightarrow> robust (rd cfg d a) (bnd (gets l_cfg) k) P"
  by (rule rb_bnd_post [where P = "\<lambda>x. x = cfg"]) (auto intro!: rb_intros simp: rd_state_def)

lemma rb_get_mdir [rb_intros]: "(\<And>m. P m) \<Longrightarrow> robust (rd cfg d a) (get_mdir a) P"
  by (rule robustI) (auto simp: get_mdir_def get_node_def run_simps bnd_assoc rd_state_def)

lemma rb_upd_mdir [rb_intros]: "P () \<Longrightarrow> robust (rd cfg d a) (upd_mdir a f) P"
  by (rule robustI) (auto simp: upd_mdir_def upd_node_def get_node_def run_simps bnd_assoc rd_state_def attached_to_def)

lemma rb_seed [rb_intros]: "P () \<Longrightarrow> robust (rd cfg d a) (modify (\<lambda>s. s\<lparr>l_seed := f s\<rparr>)) P"
  by (rule rb_modify) (auto simp: rd_state_def attached_to_def)

lemma rb_or_corrupt_post:
  "robust I c R \<Longrightarrow> robust I b P \<Longrightarrow> (\<And>x. R x \<Longrightarrow> robust I (k x) P) \<Longrightarrow> robust I (or_corrupt c b k) P"
  unfolding or_corrupt_def
  by (rule rb_bnd_post [where P = "\<lambda>r. case r of Inl _ \<Rightarrow> True | Inr x \<Rightarrow> R x"])
    (auto intro!: rb_intros split: sum.splits)

lemma rb_or_corrupt [rb_intros]:
  "robust I c (\<lambda>_. True) \<Longrightarrow> robust I b P \<Longrightarrow> (\<And>x. robust I (k x) P) \<Longrightarrow> robust I (or_corrupt c b k) P"
  by (rule rb_or_corrupt_post)

text \<open>A checksum over any range: beyond the end of the block it ends with an error.\<close>

lemma rb_bd_crc_buf:
  assumes "unat hint = bsz" "\<And>r. P r" "bsz \<le> 2 ^ 31"
  shows "robust (rd cfg d a) (lfs_bd_crc_buf None RCache hint block off sz crc) P"
  unfolding lfs_bd_crc_buf_def
proof (rule rb_mloop [where J = "\<lambda>_. True" and \<mu> = "\<lambda>(i, c). sz - i"])
  fix x :: "nat \<times> u32"
  obtain i c where x: "x = (i, c)" by (cases x)
  show "robust (rd cfg d a) (lfs_bd_crc_body None RCache hint block off sz x)
    (\<lambda>r. case r of Inl y \<Rightarrow> True \<and> (case y of (i, c) \<Rightarrow> sz - i) < (case x of (i, c) \<Rightarrow> sz - i) | Inr z \<Rightarrow> P z)"
    unfolding x lfs_bd_crc_body_def prod.case
    by (intro rb_intros) (use assms in \<open>auto simp: usize_sub_def\<close>)
qed simp

lemma rb_bd_crc [rb_intros]:
  assumes "unat hint = bsz" "\<And>r. P r" "bsz \<le> 2 ^ 31"
  shows "robust (rd cfg d a) (lfs_bd_crc None RCache hint block off sz crc) P"
  unfolding lfs_bd_crc_def by (intro rb_intros rb_bd_crc_buf) (use assms in auto)

subsection \<open>Fetching a pair\<close>

lemma rb_case_attr: "(\<And>x. robust I (c x) P) \<Longrightarrow> robust I (case r of (x, y) \<Rightarrow> c x) P"
  by (cases r) simp

text \<open>The scan of one block: the log ends before the block does.\<close>

definition in_block :: "fetch_loop \<Rightarrow> bool" where
  "in_block l \<longleftrightarrow> unat (fl_off l) + unat (lfs_tag_dsize (fl_ptag l)) \<le> bsz"

abbreviation same_place :: "fetch_loop \<Rightarrow> fetch_loop + fetch_loop \<Rightarrow> bool" where
  "same_place l r \<equiv> (case r of
      Inl l' \<Rightarrow> fl_off l' = fl_off l \<and> lfs_tag_dsize (fl_ptag l') = lfs_tag_dsize (fl_ptag l)
    | Inr _ \<Rightarrow> True)"

lemma fetch_note_place [simp]:
  "fl_off (fetch_note_name tag l) = fl_off l" "fl_ptag (fetch_note_name tag l) = fl_ptag l"
  "fl_off (fetch_note_splice tag l) = fl_off l" "fl_ptag (fetch_note_splice tag l) = fl_ptag l"
  "fl_off (fetch_note_match tag res l) = fl_off l" "fl_ptag (fetch_note_match tag res l) = fl_ptag l"
  by (simp_all add: fetch_note_name_def fetch_note_splice_def fetch_note_match_def Let_def)

lemma dsize_flip_valid: "lfs_tag_dsize (tag XOR push_bit 31 w) = lfs_tag_dsize tag"
proof -
  have "lfs_tag_size (tag XOR push_bit 31 w) = lfs_tag_size tag"
    by (rule bit_word_eqI) (auto simp: tag_bits bit_simps)
  then show ?thesis
    by (simp add: word_unat_eq_iff unat_lfs_tag_dsize lfs_tag_isdelete_size del: push_bit_and)
qed

definition matcher_ok :: "'d lfs_config \<Rightarrow> 'd \<Rightarrow> nat \<Rightarrow> u32 \<Rightarrow> u32 \<Rightarrow> 'd matcher option \<Rightarrow> bool" where
  "matcher_ok cfg d a fmask ftag ocb \<longleftrightarrow> (case ocb of
      None \<Rightarrow> (\<forall>tag. lfs_tag_isvalid tag \<longrightarrow> fmask AND tag \<noteq> fmask AND ftag)
    | Some cb \<Rightarrow> (\<forall>tag disk. robust (rd cfg d a) (cb tag disk) (\<lambda>_. True)))"

lemma rb_fetch_tag:
  assumes "matcher_ok cfg d a fmask ftag ocb" "lfs_tag_isvalid tag" "unat (cfg_block_size cfg) = bsz" "bsz < 2 ^ 30" "0 < bsz"
  shows "robust (rd cfg d a) (fetch_tag a fmask ftag ocb tag l) (same_place l)"
proof (cases ocb)
  case None
  with assms(1,2) have "fmask AND tag \<noteq> fmask AND ftag" by (auto simp: matcher_ok_def)
  then show ?thesis unfolding fetch_tag_def
    by (intro rb_cfg rb_intros) (use assms in \<open>auto intro!: rb_ret\<close>)
next
  case (Some cb)
  with assms(1) have "robust (rd cfg d a) (cb t disk) (\<lambda>_. True)" for t disk by (auto simp: matcher_ok_def)
  then show ?thesis unfolding fetch_tag_def Some option.case
    by (intro rb_cfg rb_intros) (use assms in \<open>auto intro!: rb_ret rb_intros\<close>)
qed

lemma rb_fetch_commit_crc:
  assumes "unat (cfg_block_size cfg) = bsz" "bsz < 2 ^ 30" "0 < bsz"
  shows "robust (rd cfg d a) (fetch_commit_crc a tag l) (same_place l)"
  unfolding fetch_commit_crc_def
  by (intro rb_cfg rb_intros) (use assms in \<open>auto simp: dsize_flip_valid simp del: push_bit_and\<close>)

lemma rb_fetch_body:
  assumes "matcher_ok cfg d a fmask ftag ocb" "unat (cfg_block_size cfg) = bsz" "bsz < 2 ^ 30" "0 < bsz" "in_block l"
  shows "robust (rd cfg d a) (fetch_body a fmask ftag ocb l)
    (\<lambda>r. case r of Inl l' \<Rightarrow> in_block l' \<and> bsz - unat (fl_off l') < bsz - unat (fl_off l) | Inr _ \<Rightarrow> True)"
proof -
  define l1 where "l1 = l\<lparr>fl_off := fl_off l + lfs_tag_dsize (fl_ptag l)\<rparr>"
  have o1: "unat (fl_off l1) = unat (fl_off l) + unat (lfs_tag_dsize (fl_ptag l))"
    using assms(3,5) by (simp add: l1_def in_block_def unat_word_ariths)
  have step: "robust (rd cfg d a) c (\<lambda>r. case r of Inl l' \<Rightarrow> in_block l' \<and> bsz - unat (fl_off l') < bsz - unat (fl_off l) | Inr _ \<Rightarrow> True)"
    if "robust (rd cfg d a) c (same_place l2)" "fl_off l2 = fl_off l1" "unat (fl_off l1) + 4 \<le> bsz"
      "\<not> fl_off l1 + lfs_tag_dsize (fl_ptag l2) > cfg_block_size cfg" for c l2
  proof (rule robust_mono [OF that(1)])
    fix r assume r: "same_place l2 r"
    have "unat (fl_off l1 + lfs_tag_dsize (fl_ptag l2)) = unat (fl_off l1) + unat (lfs_tag_dsize (fl_ptag l2))"
      using that(3) assms(3) unat_4_dsize [of "fl_ptag l2"] by (simp add: unat_word_ariths)
    with that(4) assms(2) have "unat (fl_off l1) + unat (lfs_tag_dsize (fl_ptag l2)) \<le> bsz"
      by (simp add: word_less_nat_alt)
    with r that(2,3) o1 unat_4_dsize [of "fl_ptag l"]
    show "case r of Inl l' \<Rightarrow> in_block l' \<and> bsz - unat (fl_off l') < bsz - unat (fl_off l) | Inr _ \<Rightarrow> True"
      by (auto simp: in_block_def split: sum.splits)
  qed
  show ?thesis
    unfolding fetch_body_def l1_def [symmetric] Let_def
  proof (intro rb_cfg rb_bnd rb_get_mdir rb_or_corrupt_post [where R = "\<lambda>bs. unat (fl_off l1) + 4 \<le> bsz"])
    show "robust (rd cfg d a) (lfs_bd_read None RCache (unat (cfg_block_size cfg)) (fst (md_pair dir)) (unat (fl_off l1)) (replicate 4 0))
        (\<lambda>bs. unat (fl_off l1) + 4 \<le> bsz)" for dir
      by (rule rb_bd_read) (use assms in auto)
    show "robust (rd cfg d a) (ret (Inr l1)) (\<lambda>r. case r of Inl l' \<Rightarrow> in_block l' \<and> bsz - unat (fl_off l') < bsz - unat (fl_off l)
        | Inr _ \<Rightarrow> True)" by (rule rb_ret) simp
  qed (auto intro!: rb_ret rb_if step [OF rb_fetch_commit_crc] step [OF rb_fetch_tag] simp: assms assms(3) [simplified])
qed

lemma rb_fetch_block [rb_intros]:
  assumes "matcher_ok cfg d a fmask ftag ocb" "unat (cfg_block_size cfg) = bsz" "bsz < 2 ^ 30" "4 \<le> bsz" "\<And>r. P r"
  shows "robust (rd cfg d a) (fetch_block a fmask ftag ocb best) P"
proof -
  have ds: "unat (lfs_tag_dsize 0xffffffff) = 4"
    by (simp add: unat_lfs_tag_dsize lfs_tag_isdelete_size lfs_tag_size_def)
  have lp: "robust (rd cfg d a) (mloop (fetch_body a fmask ftag ocb) (fetch_start best rv)) (\<lambda>_. True)" for rv
    by (rule rb_mloop [where J = in_block and \<mu> = "\<lambda>l. bsz - unat (fl_off l)"], rule rb_fetch_body)
      (use assms in \<open>auto simp: in_block_def fetch_start_def ds\<close>)
  have crc: "robust (rd cfg d a) (lfs_bd_crc_buf None RCache (cfg_block_size cfg) block off sz crc) (\<lambda>_. True)" for block off sz crc
    by (rule rb_bd_crc_buf) (use assms in auto)
  show ?thesis unfolding fetch_block_def
    by (intro rb_cfg rb_intros lp crc) (use assms in \<open>auto intro!: rb_intros\<close>)
qed

lemma rb_dir_fetchmatch [rb_intros]:
  assumes "matcher_ok cfg d a fmask ftag ocb" "unat (cfg_block_size cfg) = bsz" "bsz < 2 ^ 30" "4 \<le> bsz" "\<And>r. P r"
  shows "robust (rd cfg d a) (lfs_dir_fetchmatch a pr fmask ftag ocb) P"
proof -
  have revs: "robust (rd cfg d a) (fetch_revs pr i acc) (\<lambda>_. True)" for i acc
    unfolding fetch_revs_def by (intro rb_intros rb_bd_read_buf) simp_all
  show ?thesis unfolding lfs_dir_fetchmatch_def
    by (intro rb_intros revs) (use assms in auto)
qed

lemma matcher_ok_None: "matcher_ok cfg d a 0xffffffff 0xffffffff None"
proof -
  have "0xffffffff AND tag \<noteq> 0xffffffff AND 0xffffffff" if "lfs_tag_isvalid tag" for tag :: u32
  proof
    assume "0xffffffff AND tag = 0xffffffff AND 0xffffffff"
    then have "bit (0xffffffff AND tag) 31 = bit (0xffffffff AND 0xffffffff :: u32) 31" by simp
    with that show False by (simp add: bit_simps lfs_tag_isvalid_bit)
  qed
  then show ?thesis by (simp add: matcher_ok_def)
qed

lemma rb_dir_fetch [rb_intros]:
  assumes "unat (cfg_block_size cfg) = bsz" "bsz < 2 ^ 30" "4 \<le> bsz" "P ()"
  shows "robust (rd cfg d a) (lfs_dir_fetch a pr) P"
  unfolding lfs_dir_fetch_def by (intro rb_intros matcher_ok_None) (use assms in auto)

subsection \<open>Looking entries up\<close>

lemma dsize_progress: "4 + lfs_tag_dsize tag \<le> off \<Longrightarrow> unat (off - lfs_tag_dsize tag) < unat off"
  using unat_4_dsize [of tag] by (subst unat_sub) (auto simp: word_le_nat_alt)

lemma rb_dir_getslice_buf [rb_intros]:
  assumes "length buf \<le> 2 ^ 31" "\<And>r. P r"
  shows "robust (rd cfg d a) (lfs_dir_getslice_buf dir gmask gtag goff buf) P"
proof -
  have lp: "robust (rd cfg d a) (mloop (lfs_dir_getslice_body dir gmask gtag goff buf) x) P" for x
  proof (rule rb_mloop [where J = "\<lambda>_. True" and \<mu> = "\<lambda>(off, ntag, gdiff). unat off"])
    fix x :: "u32 \<times> u32 \<times> u32"
    obtain off ntag gdiff where [simp]: "x = (off, ntag, gdiff)" by (cases x)
    show "robust (rd cfg d a) (lfs_dir_getslice_body dir gmask gtag goff buf x) (\<lambda>r. case r of
        Inl y \<Rightarrow> True \<and> (case y of (off, ntag, gdiff) \<Rightarrow> unat off) < (case x of (off, ntag, gdiff) \<Rightarrow> unat off)
      | Inr z \<Rightarrow> P z)"
      unfolding \<open>x = (off, ntag, gdiff)\<close> lfs_dir_getslice_body_def prod.case
      by (intro rb_intros rb_bd_read_buf)
        (use assms in \<open>auto intro!: rb_intros rb_bd_read_buf intro: dsize_progress split: sum.splits\<close>)
  qed simp
  show ?thesis unfolding lfs_dir_getslice_buf_def
    by (intro rb_intros lp) (use assms in auto)
qed

lemma rb_dir_get_buf [rb_intros]:
  assumes "unat (lfs_tag_size gtag) \<le> length buf" "\<And>r. P r"
  shows "robust (rd cfg d a) (lfs_dir_get_buf dir gmask gtag buf) P"
  unfolding lfs_dir_get_buf_def
  by (intro rb_intros) (use assms lfs_tag_size_less [of gtag] in auto)

lemma rb_dir_get [rb_intros]:
  assumes "unat (lfs_tag_size gtag) \<le> length buf" "\<And>r. P r"
  shows "robust (rd cfg d a) (lfs_dir_get dir gmask gtag buf) P"
  unfolding lfs_dir_get_def by (intro rb_intros) (use assms in auto)

lemma rb_dir_getgstate [rb_intros]: "(\<And>r. P r) \<Longrightarrow> robust (rd cfg d a) (lfs_dir_getgstate dir g) P"
  unfolding lfs_dir_getgstate_def
  by (intro rb_intros) (auto intro!: mktag_size_le simp: LFS_TYPE_MOVESTATE_def)

lemma rb_superblock_get [rb_intros]: "(\<And>r. P r) \<Longrightarrow> robust (rd cfg d a) (superblock_get dir) P"
  unfolding superblock_get_def
  by (intro rb_intros) (auto intro!: mktag_size_le simp: LFS_TYPE_INLINESTRUCT_def)

lemma rb_bd_cmp [rb_intros]:
  assumes "length buffer \<le> 2 ^ 31" "hint = length buffer" "\<And>r. P r"
  shows "robust (rd cfg d a) (lfs_bd_cmp None RCache hint block off buffer) P"
proof -
  have case_ord: "robust I (case x of Equal \<Rightarrow> c | Less \<Rightarrow> u | Greater \<Rightarrow> v) Q"
    if "robust I c Q" "robust I u Q" "robust I v Q" for I c u v Q x
    using that by (cases x) simp_all
  show ?thesis unfolding lfs_bd_cmp_def
  proof (rule rb_mloop [where J = "\<lambda>(i, b). i + length b = hint" and \<mu> = "\<lambda>(i, b). length b"])
    fix x :: "nat \<times> bytes"
    obtain i b where x: "x = (i, b)" by (cases x)
    assume "case x of (i, b) \<Rightarrow> i + length b = hint"
    then show "robust (rd cfg d a) (lfs_bd_cmp_body None RCache hint block off x)
      (\<lambda>r. case r of Inl y \<Rightarrow> (case y of (i, b) \<Rightarrow> i + length b = hint) \<and> (case y of (i, b) \<Rightarrow> length b) < (case x of (i, b) \<Rightarrow> length b) | Inr z \<Rightarrow> P z)"
      unfolding x lfs_bd_cmp_body_def prod.case
      by (intro rb_intros case_ord) (use assms in \<open>auto simp: usize_sub_def neq_Nil_conv\<close>)
  qed (use assms in simp)
qed

lemma rb_find_match [rb_intros]: "(\<And>r. P r) \<Longrightarrow> robust (rd cfg d a) (lfs_dir_find_match name tag disk) P"
  unfolding lfs_dir_find_match_def
  by (intro rb_intros) (use lfs_tag_size_less [of tag] in auto)

end

subsection \<open>Properties\<close>

text \<open>C10 (safety). Fetching a metadata pair is robust against the contents of the device: on a
  driver that keeps the laws of a block device, whatever bytes its blocks hold and whatever
  pair of addresses is asked for, the fetch returns (its loop over the log ends), with a value
  or an error and never with a panic, and leaves the device and the configuration as they
  were and the read cache coherent.\<close>

theorem dir_fetch_robust:
  assumes "block_device st dok blk bsz bcount" "rd_state st dok blk bsz bcount cfg d a s"
    and "unat (cfg_block_size cfg) = bsz" "4 \<le> bsz" "bsz < 2 ^ 30"
  shows "\<exists>r t. lfs_dir_fetch a pr s = Some (r, t) \<and> r \<noteq> Panic \<and> rd_state st dok blk bsz bcount cfg d a t"
  using block_device.rb_dir_fetch [OF assms(1,3,5,4), of "\<lambda>_. True" d a pr] assms(2)
  by (auto simp: robust_def)

lemma demo_rd_state:
  assumes "ram_wf 128 4 d"
  shows "rd_state (ram_driver 128) (ram_wf 128 4) (ram_blk 128) 128 4 demo_config d 7
    ((demo_state d)\<lparr>l_nodes := [7 \<mapsto> node_default]\<rparr>)"
  using assms by (auto simp: rd_state_def attached_to_def coherent_to_def demo_defs LFS_BLOCK_NULL_def)

theorem dir_fetch_robust_witness:
  "\<exists>r t. lfs_dir_fetch 7 (3, 2) ((demo_state demo_file_dev)\<lparr>l_nodes := [7 \<mapsto> node_default]\<rparr>) = Some (r, t) \<and> r \<noteq> Panic
    \<and> rd_state (ram_driver 128) (ram_wf 128 4) (ram_blk 128) 128 4 demo_config demo_file_dev 7 t"
  by (rule dir_fetch_robust [OF demo_device demo_rd_state [OF demo_file_wf]])
    (simp_all add: demo_config_def)

text \<open>C18 (safety). Looking an entry up in a pair's log is robust in the same way: with any tag in
  the directory's \<open>etag\<close>, any offset and any device contents, the backward walk over the log
  ends, and the lookup returns a value or an error, never a panic, as long as the buffer can
  hold what the tag asks for.\<close>

theorem dir_get_robust:
  assumes "block_device st dok blk bsz bcount" "rd_state st dok blk bsz bcount cfg d a s"
    and "unat (lfs_tag_size gtag) \<le> length buf"
  shows "\<exists>r t. lfs_dir_get dir gmask gtag buf s = Some (r, t) \<and> r \<noteq> Panic
    \<and> rd_state st dok blk bsz bcount cfg d a t"
  using block_device.rb_dir_get [OF assms(1,3), of "\<lambda>_. True" cfg d a dir gmask] assms(2)
  by (auto simp: robust_def)

theorem dir_get_robust_witness:
  "\<exists>r t. lfs_dir_get (mdir_zero\<lparr>md_off := 0xfffffff0, md_etag := 0x7fffffff, md_pair := (9, 3)\<rparr>) 0x700ffc00
      (lfs_mktag 0x201 0 4) (replicate 4 0) ((demo_state demo_file_dev)\<lparr>l_nodes := [7 \<mapsto> node_default]\<rparr>) = Some (r, t)
    \<and> r \<noteq> Panic \<and> rd_state (ram_driver 128) (ram_wf 128 4) (ram_blk 128) 128 4 demo_config demo_file_dev 7 t"
  by (rule dir_get_robust [OF demo_device demo_rd_state [OF demo_file_wf]]) (use mktag_size_le [of "0x201" 0 4] in simp)

end
