(* ===== verification/Steady.thy ===== *)
theory Steady
  imports Robust Frames
begin

text \<open>
  What a fetch reads does not depend on the caches.  \<open>steady R c\<close> says that from two states
  related by \<open>R\<close> two runs of the computation that return have the same outcome and end in
  related states; the relation used here fixes the device and the parts of the directory a
  fetch has filled in so far.  It follows that the next pair on the threaded list is a function
  of the device and the current pair.
\<close>

definition steady :: "('s \<Rightarrow> 's \<Rightarrow> bool) \<Rightarrow> ('s, 'a) m \<Rightarrow> bool" where
  "steady R c \<longleftrightarrow> (\<forall>s s' r t r' t'. R s s' \<longrightarrow> c s = Some (r, t) \<longrightarrow> c s' = Some (r', t') \<longrightarrow> r = r' \<and> R t t')"

named_theorems st_intros \<open>computations that are steady\<close>

lemma steadyI: "(\<And>s s' r t r' t'. R s s' \<Longrightarrow> c s = Some (r, t) \<Longrightarrow> c s' = Some (r', t') \<Longrightarrow> r = r' \<and> R t t') \<Longrightarrow> steady R c"
  unfolding steady_def by blast

lemma steadyD: "steady R c \<Longrightarrow> R s s' \<Longrightarrow> c s = Some (r, t) \<Longrightarrow> c s' = Some (r', t') \<Longrightarrow> r = r' \<and> R t t'"
  unfolding steady_def by blast

lemma st_ret [st_intros]: "steady R (ret x)"
  by (simp add: steady_def run_simps)

lemma st_throw [st_intros]: "steady R (throw e)"
  by (simp add: steady_def run_simps)

lemma st_panic [st_intros]: "steady R panic"
  by (simp add: steady_def run_simps)

lemma st_check [st_intros]: "steady R (check b)"
  by (cases b) (simp_all add: st_intros)

lemma st_lift_res [st_intros]: "steady R (lift_res r)"
  by (cases r) (simp_all add: st_intros)

lemma st_modify: "(\<And>s s'. R s s' \<Longrightarrow> R (f s) (f s')) \<Longrightarrow> steady R (modify f)"
  by (simp add: steady_def run_simps)

text \<open>Reading something on which related states agree, and continuing with it.\<close>

lemma st_bnd_agree:
  assumes "\<And>s s' r t r' t'. R s s' \<Longrightarrow> c s = Some (r, t) \<Longrightarrow> c s' = Some (r', t') \<Longrightarrow> R t t'
      \<and> (case r of Val x \<Rightarrow> (\<exists>y. r' = Val y \<and> k x = k y) | Exc e \<Rightarrow> r' = Exc e | Panic \<Rightarrow> r' = Panic)"
    and "\<And>x. steady R (k x)"
  shows "steady R (bnd c k)"
proof (rule steadyI)
  fix s s' r t r' t'
  assume R: "R s s'" and run: "bnd c k s = Some (r, t)" "bnd c k s' = Some (r', t')"
  obtain q u where q: "c s = Some (q, u)" using run(1) by (auto simp: bnd_def split: option.splits)
  obtain q' u' where q': "c s' = Some (q', u')" using run(2) by (auto simp: bnd_def split: option.splits)
  from assms(1) [OF R q q'] have "R u u'" and o: "case q of Val x \<Rightarrow> (\<exists>y. q' = Val y \<and> k x = k y)
      | Exc e \<Rightarrow> q' = Exc e | Panic \<Rightarrow> q' = Panic" by auto
  show "r = r' \<and> R t t'"
  proof (cases q)
    case (Val x)
    with o obtain y where y: "q' = Val y" "k x = k y" by auto
    have "k x u = Some (r, t)" "k x u' = Some (r', t')"
      using run q q' Val y by (simp_all add: bnd_def)
    then show ?thesis by (rule steadyD [OF assms(2) \<open>R u u'\<close>])
  qed (use run q q' o \<open>R u u'\<close> in \<open>auto simp: bnd_def\<close>)
qed

lemma st_bnd [st_intros]: "steady R c \<Longrightarrow> (\<And>x. steady R (k x)) \<Longrightarrow> steady R (bnd c k)"
proof (rule st_bnd_agree)
  fix s s' r t r' t' assume "steady R c" "R s s'" "c s = Some (r, t)" "c s' = Some (r', t')"
  from steadyD [OF this] show "R t t' \<and> (case r of Val x \<Rightarrow> (\<exists>y. r' = Val y \<and> k x = k y)
      | Exc e \<Rightarrow> r' = Exc e | Panic \<Rightarrow> r' = Panic)" by (auto split: outcome.splits)
qed

lemma st_gets [st_intros]: "(\<And>s s'. R s s' \<Longrightarrow> f s = f s') \<Longrightarrow> steady R (gets f)"
  by (auto simp: steady_def run_simps)

lemma st_attempt [st_intros]: "steady R c \<Longrightarrow> steady R (attempt c)"
proof (rule steadyI)
  fix s s' r t r' t' assume c: "steady R c" "R s s'" and "attempt c s = Some (r, t)" "attempt c s' = Some (r', t')"
  then obtain q q' where "c s = Some (q, t)" "c s' = Some (q', t')" "r = (case q of Val x \<Rightarrow> Val (Inr x) | Exc e \<Rightarrow> Val (Inl e) | Panic \<Rightarrow> Panic)"
      "r' = (case q' of Val x \<Rightarrow> Val (Inr x) | Exc e \<Rightarrow> Val (Inl e) | Panic \<Rightarrow> Panic)"
    by (auto simp: attempt_def split: option.splits outcome.splits)
  with steadyD [OF c] show "r = r' \<and> R t t'" by auto
qed

lemma st_if [st_intros]: "(b \<Longrightarrow> steady R c) \<Longrightarrow> (\<not> b \<Longrightarrow> steady R d) \<Longrightarrow> steady R (if b then c else d)"
  by simp

lemma st_case_sum [st_intros]:
  "(\<And>x. r = Inl x \<Longrightarrow> steady R (c x)) \<Longrightarrow> (\<And>x. r = Inr x \<Longrightarrow> steady R (d x)) \<Longrightarrow>
    steady R (case r of Inl x \<Rightarrow> c x | Inr x \<Rightarrow> d x)"
  by (cases r) simp_all

lemma st_case_option [st_intros]:
  "steady R c \<Longrightarrow> (\<And>x. r = Some x \<Longrightarrow> steady R (d x)) \<Longrightarrow> steady R (case r of None \<Rightarrow> c | Some x \<Rightarrow> d x)"
  by (cases r) simp_all

lemma st_case_prod [st_intros]: "(\<And>x y. r = (x, y) \<Longrightarrow> steady R (c x y)) \<Longrightarrow> steady R (case r of (x, y) \<Rightarrow> c x y)"
  by (cases r) simp

lemma st_case_ordering [st_intros]:
  "steady R c \<Longrightarrow> steady R d \<Longrightarrow> steady R e \<Longrightarrow> steady R (case z of Less \<Rightarrow> c | Equal \<Rightarrow> d | Greater \<Rightarrow> e)"
  by (cases z) simp_all

lemma st_Let [st_intros]: "(\<And>x. x = e \<Longrightarrow> steady R (c x)) \<Longrightarrow> steady R (let x = e in c x)"
  by simp

lemma st_or_corrupt [st_intros]:
  "steady R c \<Longrightarrow> steady R b \<Longrightarrow> (\<And>x. steady R (k x)) \<Longrightarrow> steady R (or_corrupt c b k)"
  unfolding or_corrupt_def by (intro st_intros)

lemma st_mloop_inv:
  assumes body: "\<And>x. J x \<Longrightarrow> steady R (body x)" and inv: "\<And>x s y t. J x \<Longrightarrow> body x s = Some (Val (Inl y), t) \<Longrightarrow> J y"
    and start: "J x"
  shows "steady R (mloop body x)"
proof (rule steadyI)
  fix s s' r t r' t'
  assume R: "R s s'" and run: "mloop body x s = Some (r, t)" and run': "mloop body x s' = Some (r', t')"
  from run have "J x \<longrightarrow> (\<forall>s' r' t'. R s s' \<longrightarrow> mloop body x s' = Some (r', t') \<longrightarrow> r = r' \<and> R t t')"
  proof (induction rule: mloop_induct)
    case (step x s r t)
    show ?case
    proof (intro allI impI)
      fix s' r' t' assume J: "J x" and R: "R s s'" and run': "mloop body x s' = Some (r', t')"
      obtain q u where q: "body x s = Some (q, u)" using step by (cases "body x s") auto
      obtain q' u' where q': "body x s' = Some (q', u')"
        using run' by (cases "body x s'") (auto simp: mloop_unfold [of body x s'])
      have eq: "q = q'" "R u u'" using steadyD [OF body [OF J] R q q'] by auto
      show "r = r' \<and> R t t'"
      proof (cases q)
        case (Val z)
        then show ?thesis
          using step run' q q' eq inv [OF J] by (cases z) (auto simp: mloop_unfold [of body x s'])
      qed (use step run' q q' eq in \<open>auto simp: mloop_unfold [of body x s']\<close>)
    qed
  qed
  with start R run' show "r = r' \<and> R t t'" by blast
qed

lemma st_mloop [st_intros]: "(\<And>x. steady R (body x)) \<Longrightarrow> steady R (mloop body x)"
  by (rule st_mloop_inv [where J = "\<lambda>_. True"]) simp_all

subsection \<open>Reads leave the nodes alone\<close>

definition nodes_frame :: "'d lfs \<Rightarrow> 'd lfs \<Rightarrow> bool" where
  "nodes_frame s t \<longleftrightarrow> l_nodes t = l_nodes s \<and> l_gdisk t = l_gdisk s"

interpretation nf: frame_rel nodes_frame
  by unfold_locales (auto simp: nodes_frame_def)

lemma nf_basic:
  "keeps nodes_frame (get_buf b)" "keeps nodes_frame (put_buf b bs)" "keeps nodes_frame (get_cache r)"
  "keeps nodes_frame (upd_cache RCache f)" "keeps nodes_frame (aligndown_m x n)" "keeps nodes_frame (alignup_m x n)"
  by (auto simp: keeps_def nodes_frame_def get_buf_def put_buf_def get_cache_def upd_cache_def get_node_def aligndown_m_def
      alignup_m_def check_def run_simps bnd_def split: cache_ref.splits option.splits if_splits)

lemma nf_dev_read: "keeps nodes_frame (dev_read block off buf)"
  by (rule keepsI) (auto simp: dev_read_def nodes_frame_def split: prod.splits sum.splits)

lemma nf_bd_read_buf: "keeps nodes_frame (lfs_bd_read_buf p RCache hint block off buf)"
  unfolding lfs_bd_read_buf_def lfs_bd_read_body_def bd_refill_def cache_copy_def probe_opt_def
  by (intro nf.k_intros nf_basic nf_dev_read keeps_case_probe)

lemma nf_bd_crc_buf: "keeps nodes_frame (lfs_bd_crc_buf p RCache hint block off sz crc)"
  unfolding lfs_bd_crc_buf_def lfs_bd_crc_body_def lfs_bd_read_def
  by (intro nf.k_intros nf_bd_read_buf)

subsection \<open>Two states that read the same device\<close>

text \<open>
  The directories agree as far as a fetch that has found \<open>off\<close> bytes of log fills them in.
\<close>

definition mdir_agree :: "lfs_mdir \<Rightarrow> lfs_mdir \<Rightarrow> bool" where
  "mdir_agree m m' \<longleftrightarrow> md_pair m = md_pair m' \<and> md_rev m = md_rev m' \<and> md_off m = md_off m'
    \<and> (md_off m \<noteq> 0 \<longrightarrow> md_count m = md_count m' \<and> md_tail m = md_tail m' \<and> md_split m = md_split m')"

definition agree_at :: "nat \<Rightarrow> 'd lfs \<Rightarrow> 'd lfs \<Rightarrow> bool" where
  "agree_at a s s' \<longleftrightarrow> (case (l_nodes s a, l_nodes s' a) of
      (Some n, Some n') \<Rightarrow> mdir_agree (nd_m n) (nd_m n') | _ \<Rightarrow> False)"

context block_device
begin

abbreviation (input) both_rd where
  "both_rd cfg d a s s' \<equiv> rd cfg d a s \<and> rd cfg d a s' \<and> l_gdisk s = l_gdisk s'"

abbreviation (input) both_fetch where
  "both_fetch cfg d a s s' \<equiv> rd cfg d a s \<and> rd cfg d a s' \<and> l_gdisk s = l_gdisk s' \<and> agree_at a s s'"

lemma reloaded_nodes: "reloaded RCache s t \<Longrightarrow> l_nodes t = l_nodes s \<and> l_gdisk t = l_gdisk s"
  by (auto simp: reloaded_def load_def set_cache_def)

text \<open>A read through the cache is a function of the device.\<close>

lemma bd_read_buf_outcome:
  assumes "rd cfg d a s" "off + length buf \<le> bsz \<Longrightarrow> buf \<noteq> [] \<Longrightarrow> 0 < hint \<and> hint \<le> 2 ^ 31"
  obtains t where "lfs_bd_read_buf None RCache hint block off buf s = Some (Val
      (if off + length buf \<le> bsz \<and> unat block < bcount then (Inr (), take (length buf) (drop off (blk d block)))
       else (Inl Corrupt, buf)), t)" "rd cfg d a t" "l_nodes t = l_nodes s" "l_gdisk t = l_gdisk s"
proof (cases "off + length buf \<le> bsz \<and> unat block < bcount")
  case False
  then have "lfs_bd_read_buf None RCache hint block off buf s = Some (Val (Inl Corrupt, buf), s)"
    using assms(1) by (auto simp: lfs_bd_read_buf_def bnd_gets rd_state_def attached_to_def word_le_nat_alt ret_def)
  with False assms(1) show ?thesis by (intro that [of s]) (auto simp del: de_Morgan_conj)
next
  case True
  note ready = rd_read_ready [OF assms(1), of block]
  show ?thesis
  proof (cases "buf = []")
    case nil: True
    then show ?thesis using True assms(1) ready by (intro that [of s]) (simp_all add: bd_read_buf_nil)
  next
    case False
    have v: "view None s block = blk d block"
      using assms(1) by (simp add: view_of_def overlay_def pcached_def rd_state_def)
    obtain c' b' where run: "lfs_bd_read_buf None RCache hint block off buf s =
        Some (Val (Inr (), take (length buf) (drop off (view None s block))), load RCache c' b' s)"
      and c': "cache_buffer c' = cache_buffer (l_rcache s)" "coherent (cfg_read_size (l_cfg s)) (l_dev s) c' b'"
      by (rule bd_read_buf_correct [OF ready cache_of_PCache(2), of hint off buf])
        (use assms(2) True False in auto)
    then have "reloaded RCache s (load RCache c' b' s)" by (auto simp: reloaded_def cache_of_PCache)
    then show ?thesis
      using run True v rd_reloaded [OF assms(1)] reloaded_nodes by (intro that [of "load RCache c' b' s"]) auto
  qed
qed

text \<open>The relations that only see what a read does not change.\<close>

definition read_rel :: "'d lfs_config \<Rightarrow> 'd \<Rightarrow> nat \<Rightarrow> ('d lfs \<Rightarrow> 'd lfs \<Rightarrow> bool) \<Rightarrow> bool" where
  "read_rel cfg d a R \<longleftrightarrow> (\<forall>s s'. R s s' \<longrightarrow> rd cfg d a s \<and> rd cfg d a s' \<and> (\<forall>t t'. rd cfg d a t \<longrightarrow> rd cfg d a t' \<longrightarrow>
      l_nodes t = l_nodes s \<longrightarrow> l_nodes t' = l_nodes s' \<longrightarrow> l_gdisk t = l_gdisk s \<longrightarrow> l_gdisk t' = l_gdisk s' \<longrightarrow> R t t'))"

lemma read_rel_rd: "read_rel cfg d a (both_rd cfg d a)" and read_rel_fetch: "read_rel cfg d a (both_fetch cfg d a)"
  by (auto simp: read_rel_def agree_at_def split: option.splits)

lemma read_relD:
  assumes "read_rel cfg d a R" "R s s'"
  shows "rd cfg d a s" "rd cfg d a s'"
    "rd cfg d a t \<Longrightarrow> rd cfg d a t' \<Longrightarrow> l_nodes t = l_nodes s \<Longrightarrow> l_nodes t' = l_nodes s' \<Longrightarrow>
      l_gdisk t = l_gdisk s \<Longrightarrow> l_gdisk t' = l_gdisk s' \<Longrightarrow> R t t'"
  using assms unfolding read_rel_def by blast+

lemma st_bd_read_buf:
  assumes rr: "read_rel cfg d a R"
    and "off + length buf \<le> bsz \<Longrightarrow> buf \<noteq> [] \<Longrightarrow> 0 < hint \<and> hint \<le> 2 ^ 31"
  shows "steady R (lfs_bd_read_buf None RCache hint block off buf)"
proof (rule steadyI)
  fix s s' r t r' t'
  assume R: "R s s'" and run: "lfs_bd_read_buf None RCache hint block off buf s = Some (r, t)"
    "lfs_bd_read_buf None RCache hint block off buf s' = Some (r', t')"
  note rd = read_relD(1,2) [OF rr R]
  obtain u where u: "lfs_bd_read_buf None RCache hint block off buf s = Some (Val
      (if off + length buf \<le> bsz \<and> unat block < bcount then (Inr (), take (length buf) (drop off (blk d block)))
       else (Inl Corrupt, buf)), u)" "rd cfg d a u" "l_nodes u = l_nodes s" "l_gdisk u = l_gdisk s"
    by (rule bd_read_buf_outcome [OF rd(1) assms(2)])
  obtain u' where u': "lfs_bd_read_buf None RCache hint block off buf s' = Some (Val
      (if off + length buf \<le> bsz \<and> unat block < bcount then (Inr (), take (length buf) (drop off (blk d block)))
       else (Inl Corrupt, buf)), u')" "rd cfg d a u'" "l_nodes u' = l_nodes s'" "l_gdisk u' = l_gdisk s'"
    by (rule bd_read_buf_outcome [OF rd(2) assms(2)])
  show "r = r' \<and> R t t'"
    using run u u' read_relD(3) [OF rr R, of u u'] by simp
qed

lemma st_bd_read:
  assumes "read_rel cfg d a R" "off + length buf \<le> bsz \<Longrightarrow> buf \<noteq> [] \<Longrightarrow> 0 < hint \<and> hint \<le> 2 ^ 31"
  shows "steady R (lfs_bd_read None RCache hint block off buf)"
  unfolding lfs_bd_read_def by (intro st_intros st_bd_read_buf [OF assms])

lemma st_bd_crc_buf:
  assumes "read_rel cfg d a R" "unat hint = bsz" "bsz \<le> 2 ^ 31"
  shows "steady R (lfs_bd_crc_buf None RCache hint block off sz crc)"
  unfolding lfs_bd_crc_buf_def lfs_bd_crc_body_def
  by (intro st_intros st_bd_read [OF assms(1)]) (use assms(1,2,3) in \<open>auto simp: usize_sub_def\<close>)

lemma st_bd_crc:
  assumes "read_rel cfg d a R" "unat hint = bsz" "bsz \<le> 2 ^ 31"
  shows "steady R (lfs_bd_crc None RCache hint block off sz crc)"
  unfolding lfs_bd_crc_def by (intro st_intros st_bd_crc_buf [OF assms])

lemma st_bd_cmp:
  assumes "read_rel cfg d a R" "hint = length buffer" "length buffer \<le> 2 ^ 31"
  shows "steady R (lfs_bd_cmp None RCache hint block off buffer)"
  unfolding lfs_bd_cmp_def
proof (rule st_mloop_inv [where J = "\<lambda>(i, b). i + length b = hint"])
  fix x :: "nat \<times> bytes" assume J: "case x of (i, b) \<Rightarrow> i + length b = hint"
  obtain i b where x: "x = (i, b)" by (cases x)
  show "steady R (lfs_bd_cmp_body None RCache hint block off x)"
    unfolding x lfs_bd_cmp_body_def prod.case
    by (intro st_intros st_bd_read [OF assms(1)]) (use J x assms(2,3) in \<open>auto simp: usize_sub_def neq_Nil_conv\<close>)
  fix s :: "'d lfs" and y t assume "lfs_bd_cmp_body None RCache hint block off x s = Some (Val (Inl y), t)"
  with J x show "case y of (i, b) \<Rightarrow> i + length b = hint"
    by (auto simp: lfs_bd_cmp_body_def bnd_def run_simps Let_def split: if_splits option.splits outcome.splits ordering.splits)
qed (use assms(2) in simp)

lemma st_find_match:
  "read_rel cfg d a R \<Longrightarrow> steady R (lfs_dir_find_match name tag disk)"
  unfolding lfs_dir_find_match_def
  by (intro st_intros st_bd_cmp) (use lfs_tag_size_less [of tag] in \<open>auto simp: min_def\<close>)

subsection \<open>The fetch\<close>

lemma st_cfg:
  assumes "read_rel cfg d a R" "steady R (k cfg)"
  shows "steady R (bnd (gets l_cfg) k)"
proof (rule steadyI)
  fix s s' r t r' t' assume R: "R s s'" "bnd (gets l_cfg) k s = Some (r, t)" "bnd (gets l_cfg) k s' = Some (r', t')"
  have "l_cfg s = cfg" "l_cfg s' = cfg" using read_relD(1,2) [OF assms(1) R(1)] by (simp_all add: rd_state_def)
  then have "k cfg s = Some (r, t)" "k cfg s' = Some (r', t')" using R(2,3) by (simp_all add: run_simps)
  then show "r = r' \<and> R t t'" by (rule steadyD [OF assms(2) R(1)])
qed

lemma st_get_mdir:
  assumes "\<And>m m'. mdir_agree m m' \<Longrightarrow> k m = k m'" "\<And>m. steady (both_fetch cfg d a) (k m)"
  shows "steady (both_fetch cfg d a) (bnd (get_mdir a) k)"
  by (rule st_bnd_agree [OF _ assms(2)])
    (auto simp: get_mdir_def get_node_def run_simps bnd_assoc agree_at_def intro: assms(1) split: option.splits)

lemma st_upd_mdir:
  assumes "\<And>m m'. mdir_agree m m' \<Longrightarrow> mdir_agree (f m) (f m')"
  shows "steady (both_fetch cfg d a) (upd_mdir a f)"
  by (rule steadyI)
    (auto simp: upd_mdir_def upd_node_def get_node_def run_simps bnd_assoc agree_at_def rd_state_def attached_to_def
      intro: assms split: option.splits)

lemma st_seed: "steady (both_fetch cfg d a) (modify (\<lambda>s. s\<lparr>l_seed := f s\<rparr>))"
  by (rule st_modify) (auto simp: rd_state_def attached_to_def agree_at_def)

lemma st_fetch_commit_crc:
  assumes "unat (cfg_block_size cfg) = bsz" "0 < bsz" "bsz < 2 ^ 30"
  shows "steady (both_fetch cfg d a) (fetch_commit_crc a tag l)"
  unfolding fetch_commit_crc_def
  by (intro st_cfg [OF read_rel_fetch] st_get_mdir st_intros st_bd_read [OF read_rel_fetch] st_seed st_upd_mdir)
    (use assms in \<open>simp_all add: mdir_agree_def\<close>)

definition matcher_steady :: "'d lfs_config \<Rightarrow> 'd \<Rightarrow> nat \<Rightarrow> 'd matcher option \<Rightarrow> bool" where
  "matcher_steady cfg d a ocb \<longleftrightarrow> (case ocb of None \<Rightarrow> True
    | Some cb \<Rightarrow> (\<forall>tag disk. steady (both_fetch cfg d a) (cb tag disk)))"

lemma st_fetch_tag:
  assumes "unat (cfg_block_size cfg) = bsz" "0 < bsz" "bsz < 2 ^ 30" "matcher_steady cfg d a ocb"
  shows "steady (both_fetch cfg d a) (fetch_tag a fmask ftag ocb tag l)"
proof -
  have hint: "0 < unat (cfg_block_size cfg)" "unat (cfg_block_size cfg) \<le> 2147483648" "bsz \<le> 2147483648"
    using assms(1-3) by auto
  note reads = st_cfg [OF read_rel_fetch] st_get_mdir st_bd_read [OF read_rel_fetch] st_bd_crc [OF read_rel_fetch]
  show ?thesis
  proof (cases ocb)
    case None
    show ?thesis unfolding fetch_tag_def None option.case
      by (intro reads st_intros) (auto simp: mdir_agree_def hint assms(1) intro!: st_intros cong: if_cong)
  next
    case (Some cb)
    with assms(4) have cb: "steady (both_fetch cfg d a) (cb t disk)" for t disk by (simp add: matcher_steady_def)
    show ?thesis unfolding fetch_tag_def Some option.case
      by (intro reads st_intros) (auto simp: mdir_agree_def hint assms(1) intro!: st_intros cb cong: if_cong)
  qed
qed

lemma st_fetch_body:
  assumes "unat (cfg_block_size cfg) = bsz" "0 < bsz" "bsz < 2 ^ 30" "matcher_steady cfg d a ocb"
  shows "steady (both_fetch cfg d a) (fetch_body a fmask ftag ocb l)"
  unfolding fetch_body_def
  by (intro st_cfg [OF read_rel_fetch] st_get_mdir st_intros st_bd_read [OF read_rel_fetch]
      st_fetch_tag [OF assms] st_fetch_commit_crc [OF assms(1-3)])
    (use assms in \<open>simp_all add: mdir_agree_def cong: if_cong option.case_cong\<close>)

lemma st_fetch_block:
  assumes "unat (cfg_block_size cfg) = bsz" "0 < bsz" "bsz < 2 ^ 30" "matcher_steady cfg d a ocb"
  shows "steady (both_fetch cfg d a) (fetch_block a fmask ftag ocb besttag)"
  unfolding fetch_block_def
  by (intro st_cfg [OF read_rel_fetch] st_get_mdir st_intros st_bd_crc_buf [OF read_rel_fetch]
      st_fetch_body [OF assms] st_upd_mdir)
    (use assms in \<open>simp_all add: mdir_agree_def cong: if_cong option.case_cong\<close>)

end

subsection \<open>A block with a commit\<close>

text \<open>A block with a commit leaves a directory with an offset behind.\<close>

lemma vlp_skip: "(\<And>x t. vlp (k x) Q t) \<Longrightarrow> vlp (bnd c k) Q s"
  by (rule vlp_bnd) (simp add: vlp_def)

lemma vlp_post: "vlp c (\<lambda>_. J) s \<Longrightarrow> (\<And>x t. J t \<Longrightarrow> vlp (k x) Q t) \<Longrightarrow> vlp (bnd c k) Q s"
  by (rule vlp_bnd) (rule vlp_mono)

lemma vlp_if: "(b \<Longrightarrow> vlp c Q s) \<Longrightarrow> (\<not> b \<Longrightarrow> vlp d Q s) \<Longrightarrow> vlp (if b then c else d) Q s"
  by simp

lemma vlp_keeps: "keeps nodes_frame c \<Longrightarrow> (\<And>x t. l_nodes t = l_nodes s \<Longrightarrow> vlp (k x) Q t) \<Longrightarrow> vlp (bnd c k) Q s"
  by (rule vlp_bnd) (unfold vlp_def keeps_def nodes_frame_def, blast)

lemma vlp_get_mdir: "(\<And>n. l_nodes s a = Some n \<Longrightarrow> vlp (k (nd_m n)) Q s) \<Longrightarrow> vlp (bnd (get_mdir a) k) Q s"
  by (cases "l_nodes s a") (simp_all add: get_mdir_def get_node_def bnd_assoc run_simps)

lemma upd_mdir_run: "l_nodes s a = Some n \<Longrightarrow>
    upd_mdir a f s = Some (Val (), s\<lparr>l_nodes := (l_nodes s)(a \<mapsto> n\<lparr>nd_m := f (nd_m n)\<rparr>)\<rparr>)"
  by (simp add: upd_mdir_def upd_node_def get_node_def bnd_assoc run_simps)

lemma get_mdir_run: "l_nodes s a = Some n \<Longrightarrow> get_mdir a s = Some (Val (nd_m n), s)"
  by (simp add: get_mdir_def get_node_def bnd_assoc run_simps)

definition has_log :: "nat \<Rightarrow> 'd lfs \<Rightarrow> bool" where
  "has_log a s \<longleftrightarrow> (\<exists>n. l_nodes s a = Some n \<and> md_off (nd_m n) \<noteq> 0)"

lemma vlp_upd_erased: "has_log a (s :: 'd lfs) \<Longrightarrow> vlp (upd_mdir a (\<lambda>d. d\<lparr>md_erased := b\<rparr>)) (\<lambda>_ t. has_log a t) s"
  by (auto simp: has_log_def vlp_def upd_mdir_run)

lemma vlp_erased_check:
  fixes s :: "'d lfs"
  assumes "has_log a s"
  shows "vlp (bnd (lfs_bd_crc_buf p RCache hint block off sz crc) (\<lambda>(err, fcrc).
      if (case err of Inl e \<Rightarrow> e \<noteq> Corrupt | Inr _ \<Rightarrow> False) then bnd (lift_res err) (\<lambda>_. ret ())
      else upd_mdir a (\<lambda>d. d\<lparr>md_erased := (fcrc = x)\<rparr>))) (\<lambda>_ t. has_log a t) s"
proof (rule vlp_keeps [OF nf_bd_crc_buf])
  fix y :: "(error + unit) \<times> u32" and t :: "'d lfs" assume "l_nodes t = l_nodes s"
  with assms have t: "has_log a t" by (simp add: has_log_def)
  obtain err fcrc where y: "y = (err, fcrc)" by (cases y)
  have "vlp (bnd (lift_res err) (\<lambda>_. ret ())) (\<lambda>_ t. has_log a t) t"
    unfolding vlp_def using t by (cases err) (auto simp: run_simps)
  then show "vlp (case y of (err, fcrc) \<Rightarrow>
      if (case err of Inl e \<Rightarrow> e \<noteq> Corrupt | Inr _ \<Rightarrow> False) then bnd (lift_res err) (\<lambda>_. ret ())
      else upd_mdir a (\<lambda>d. d\<lparr>md_erased := (fcrc = x)\<rparr>)) (\<lambda>_ t. has_log a t) t"
    unfolding y prod.case using vlp_upd_erased [OF t] by simp
qed

lemma vlp_erased_step:
  fixes t :: "'d lfs"
  assumes "has_log a t" "\<And>u. has_log a u \<Longrightarrow> vlp k Q u"
  shows "vlp (bnd (upd_mdir a (\<lambda>d. d\<lparr>md_erased := b\<rparr>)) (\<lambda>_.
       bnd (if c
            then bnd (lfs_bd_crc_buf p RCache hint block off sz crc) (\<lambda>(err, fcrc).
              if case err of Inl e \<Rightarrow> e \<noteq> Corrupt | Inr _ \<Rightarrow> False then bnd (lift_res err) (\<lambda>_. ret ())
              else upd_mdir a (\<lambda>d. d\<lparr>md_erased := (fcrc = x)\<rparr>))
            else ret ()) (\<lambda>_. k))) Q t"
  by (rule vlp_post [OF vlp_upd_erased [OF assms(1)]], rule vlp_post [where J = "has_log a"],
      rule vlp_if, erule vlp_erased_check, simp add: run_simps, erule assms(2))

lemma fetch_block_has_log:
  fixes s :: "'d lfs"
  shows "vlp (fetch_block a fmask ftag ocb besttag) (\<lambda>r t. fst r \<noteq> None \<longrightarrow> has_log a t) s"
  unfolding fetch_block_def Let_def
  by (rule vlp_get_mdir, rule vlp_skip, rule vlp_get_mdir, rule vlp_if, simp add: run_simps, unfold vlp_bnds,
      rule vlp_erased_step, simp add: has_log_def, simp add: run_simps)

subsection \<open>The whole fetch\<close>

text \<open>From \<open>R\<close>-related states the outcomes agree and a returned value leads to \<open>R'\<close>.\<close>

definition steady_to :: "('s \<Rightarrow> 's \<Rightarrow> bool) \<Rightarrow> ('a \<Rightarrow> 's \<Rightarrow> 's \<Rightarrow> bool) \<Rightarrow> ('s, 'a) m \<Rightarrow> bool" where
  "steady_to R R' c \<longleftrightarrow> (\<forall>s s' r t r' t'. R s s' \<longrightarrow> c s = Some (r, t) \<longrightarrow> c s' = Some (r', t') \<longrightarrow>
    r = r' \<and> (\<forall>x. r = Val x \<longrightarrow> R' x t t'))"

lemma steady_toD: "steady_to R R' c \<Longrightarrow> R s s' \<Longrightarrow> c s = Some (r, t) \<Longrightarrow> c s' = Some (r', t') \<Longrightarrow>
    r = r' \<and> (\<forall>x. r = Val x \<longrightarrow> R' x t t')"
  unfolding steady_to_def by blast

lemma sto_bnd:
  assumes "steady_to R R1 c" "\<And>x. steady_to (R1 x) R' (k x)"
  shows "steady_to R R' (bnd c k)"
  unfolding steady_to_def
proof (intro allI impI)
  fix s s' r t r' t'
  assume R: "R s s'" and run: "bnd c k s = Some (r, t)" "bnd c k s' = Some (r', t')"
  obtain q u where q: "c s = Some (q, u)" using run(1) by (auto simp: bnd_def split: option.splits)
  obtain q' u' where q': "c s' = Some (q', u')" using run(2) by (auto simp: bnd_def split: option.splits)
  note o = steady_toD [OF assms(1) R q q']
  show "r = r' \<and> (\<forall>x. r = Val x \<longrightarrow> R' x t t')"
  proof (cases q)
    case (Val x)
    with o have "R1 x u u'" "q' = Val x" by auto
    moreover have "k x u = Some (r, t)" "k x u' = Some (r', t')"
      using run q q' Val \<open>q' = Val x\<close> by (simp_all add: bnd_def)
    ultimately show ?thesis by (intro steady_toD [OF assms(2)])
  qed (use run q q' o in \<open>auto simp: bnd_def\<close>)
qed

lemma sto_steady: "steady R c \<Longrightarrow> steady_to R (\<lambda>_. R) c"
  unfolding steady_to_def steady_def by blast

lemma sto_step: "steady R c \<Longrightarrow> (\<And>x. steady_to R R' (k x)) \<Longrightarrow> steady_to R R' (bnd c k)"
  by (rule sto_bnd [OF sto_steady])

lemma sto_basic: "steady_to R R' (throw e)" "(\<And>s s'. R s s' \<Longrightarrow> R' x s s') \<Longrightarrow> steady_to R R' (ret x)"
  by (simp_all add: steady_to_def run_simps)

lemma sto_if: "(b \<Longrightarrow> steady_to R R' c) \<Longrightarrow> (\<not> b \<Longrightarrow> steady_to R R' d) \<Longrightarrow> steady_to R R' (if b then c else d)"
  by simp

lemma sto_case_prod: "(\<And>x y. r = (x, y) \<Longrightarrow> steady_to R R' (c x y)) \<Longrightarrow> steady_to R R' (case r of (x, y) \<Rightarrow> c x y)"
  by (cases r) simp

lemma sto_case_option: "steady_to R R' c \<Longrightarrow> (\<And>x. r = Some x \<Longrightarrow> steady_to R R' (d x)) \<Longrightarrow>
    steady_to R R' (case r of None \<Rightarrow> c | Some x \<Rightarrow> d x)"
  by (cases r) simp_all

text \<open>The two directories name the same next pair.\<close>

definition same_tail :: "nat \<Rightarrow> 'd lfs \<Rightarrow> 'd lfs \<Rightarrow> bool" where
  "same_tail a s s' \<longleftrightarrow> (\<exists>n n'. l_nodes s a = Some n \<and> l_nodes s' a = Some n' \<and> md_tail (nd_m n) = md_tail (nd_m n'))"

context block_device
begin

lemma sto_fetch_block:
  assumes "unat (cfg_block_size cfg) = bsz" "0 < bsz" "bsz < 2 ^ 30" "matcher_steady cfg d a ocb"
  shows "steady_to (both_fetch cfg d a) (\<lambda>x s s'. (both_fetch cfg d a s s') \<and> (fst x \<noteq> None \<longrightarrow> same_tail a s s'))
    (fetch_block a fmask ftag ocb besttag)"
  unfolding steady_to_def
proof (intro allI impI)
  fix s s' r t r' t'
  assume R: "both_fetch cfg d a s s'" and run: "fetch_block a fmask ftag ocb besttag s = Some (r, t)"
    "fetch_block a fmask ftag ocb besttag s' = Some (r', t')"
  have eq: "r = r'" and R': "both_fetch cfg d a t t'"
    using steadyD [OF st_fetch_block [OF assms] R run] by auto
  have "same_tail a t t'" if "r = Val x" "fst x \<noteq> None" for x
  proof -
    have "has_log a t" using vlpD [OF fetch_block_has_log, of a fmask ftag ocb besttag s x t] run(1) that by simp
    with R' show ?thesis by (auto simp: has_log_def agree_at_def same_tail_def mdir_agree_def split: option.splits)
  qed
  with eq R' show "r = r' \<and> (\<forall>x. r = Val x \<longrightarrow> (both_fetch cfg d a t t') \<and> (fst x \<noteq> None \<longrightarrow> same_tail a t t'))"
    by simp
qed

lemma sto_start:
  "steady_to (both_rd cfg d a) (\<lambda>_. both_fetch cfg d a) (upd_mdir a (\<lambda>d. d\<lparr>md_pair := pr, md_rev := rv, md_off := 0\<rparr>))"
  unfolding steady_to_def
  by (auto simp: upd_mdir_def upd_node_def get_node_def run_simps bnd_assoc agree_at_def mdir_agree_def rd_state_def
      attached_to_def split: option.splits)

lemma st_fetch_revs: "steady (both_rd cfg d a) (fetch_revs pr i acc)"
  unfolding fetch_revs_def by (intro st_intros st_bd_read_buf [OF read_rel_rd]) simp_all

lemma fetchmatch_steady:
  assumes "unat (cfg_block_size cfg) = bsz" "0 < bsz" "bsz < 2 ^ 30" "matcher_steady cfg d a ocb"
  shows "steady_to (both_rd cfg d a) (\<lambda>_. same_tail a) (lfs_dir_fetchmatch a pr fmask ftag ocb)"
proof -
  have bc: "steady (both_rd cfg d a) (gets l_block_count)"
    by (rule st_gets) (auto simp: rd_state_def attached_to_def word_unat_eq_iff)
  have swap: "steady (both_fetch cfg d a) (upd_mdir a (\<lambda>d. d\<lparr>md_pair := lfs_pair_swap (md_pair d), md_rev := rv\<rparr>))" for rv
    by (rule st_upd_mdir) (simp add: mdir_agree_def)
  have found: "steady_to (\<lambda>s s'. (both_fetch cfg d a s s') \<and> (fst x \<noteq> None \<longrightarrow> same_tail a s s')) (\<lambda>_. same_tail a)
      (case x of (res, b) \<Rightarrow> (case res of None \<Rightarrow> c b | Some y \<Rightarrow> ret y))"
    if "\<And>b. steady_to (both_fetch cfg d a) (\<lambda>_. same_tail a) (c b)" for c :: "u32 \<Rightarrow> ('d, (error + u32) \<times> u16) fs" and x
  proof (cases x)
    case (Pair res b)
    then show ?thesis using that [of b] by (cases res) (auto simp: steady_to_def run_simps)
  qed
  show ?thesis unfolding lfs_dir_fetchmatch_def
    by (intro sto_step [OF bc] sto_if sto_basic sto_step [OF st_fetch_revs] sto_case_prod sto_bnd [OF sto_start]
        sto_bnd [OF sto_fetch_block [OF assms]] found sto_step [OF swap])
qed

end

end
