(* ===== verification/Tortoise.thy ===== *)
theory Tortoise
  imports FsTraverse
begin

text \<open>
  The cycle detector of \<open>fs/mount.rs\<close>, which every walk over the list of metadata pairs calls
  once per pair: what a run of calls compares, when it reports, and that it neither misses a
  cycle nor reports one that is not there.
\<close>

text \<open>A run of calls with the tails \<open>ps\<close>: the first error, or the detector at the end.\<close>

primrec tortoise_run :: "lfs_tortoise \<Rightarrow> pair list \<Rightarrow> error + lfs_tortoise" where
  "tortoise_run t [] = Inr t"
| "tortoise_run t (p # ps) = (case lfs_tortoise_detectcycles p t of Inl e \<Rightarrow> Inl e | Inr t \<Rightarrow> tortoise_run t ps)"

text \<open>The call after which the detector remembers its tail for the \<open>j\<close>-th time.\<close>

definition turn :: "nat \<Rightarrow> nat" where
  "turn j = 2 ^ Suc j - 2"

lemma turn_0 [simp]: "turn 0 = 0"
  by (simp add: turn_def)

lemma turn_Suc: "turn (Suc j) = turn j + 2 ^ Suc j"
  using one_le_power [of "2 :: nat" j] by (simp add: turn_def)

lemma turn_mono: "turn j < turn (Suc j)"
  by (simp add: turn_Suc)

lemma turn_ge: "j \<le> turn j"
proof (induction j)
  case (Suc j)
  have "(1 :: nat) \<le> 2 ^ Suc j" by (rule one_le_power) simp
  with Suc show ?case unfolding turn_Suc by linarith
qed simp

text \<open>Every call but the first lies between two turns.\<close>

lemma turn_cover: "0 < k \<Longrightarrow> \<exists>j. turn j < k \<and> k \<le> turn (Suc j)"
proof (induction k)
  case (Suc k)
  show ?case
  proof (cases "k = 0")
    case True
    then show ?thesis by (intro exI [of _ 0]) (simp add: turn_Suc)
  next
    case False
    with Suc obtain j where "turn j < k" "k \<le> turn (Suc j)" by auto
    then show ?thesis
      using turn_mono [of "Suc j"]
      by (cases "k = turn (Suc j)") (auto intro: exI [of _ "Suc j"] exI [of _ j] simp: less_Suc_eq_le)
  qed
qed simp

text \<open>The detector before call \<open>k\<close> of a run over \<open>p 0\<close>, \<open>p 1\<close>, ...\<close>

definition tortoise_at :: "(nat \<Rightarrow> pair) \<Rightarrow> nat \<Rightarrow> lfs_tortoise \<Rightarrow> bool" where
  "tortoise_at p k t \<longleftrightarrow> (if k = 0 then t = tortoise_start else
     (\<exists>j. turn j < k \<and> k \<le> turn (Suc j) \<and> t = \<lparr>tt_pair = p (turn j), tt_i = word_of_nat (k - turn j), tt_period = 2 ^ Suc j\<rparr>))"

text \<open>What call \<open>k\<close> compares its tail with.\<close>

definition sees_cycle :: "(nat \<Rightarrow> pair) \<Rightarrow> nat \<Rightarrow> bool" where
  "sees_cycle p k \<longleftrightarrow> (\<exists>j. turn j < k \<and> k \<le> turn (Suc j) \<and> lfs_pair_issync (p k) (p (turn j)))"

lemma turn_unique:
  assumes "turn i < k" "k \<le> turn (Suc i)" "turn j < k" "k \<le> turn (Suc j)"
  shows "i = j"
proof -
  have mono: "turn a \<le> turn b" if "a \<le> b" for a b
    using that by (simp add: turn_def power_increasing diff_le_mono)
  show ?thesis
    using assms mono [of "Suc i" j] mono [of "Suc j" i] by (cases i j rule: linorder_cases) (auto simp: Suc_le_eq)
qed

lemma tortoise_step:
  assumes "tortoise_at p k t" "k < 2 ^ 30" "\<not> lfs_pair_isnull (p k)"
  shows "case lfs_tortoise_detectcycles (p k) t of
      Inl e \<Rightarrow> e = Corrupt \<and> sees_cycle p k
    | Inr t' \<Rightarrow> \<not> sees_cycle p k \<and> tortoise_at p (Suc k) t'"
proof (cases "k = 0")
  case True
  have "\<not> lfs_pair_issync (p 0) (LFS_BLOCK_NULL, LFS_BLOCK_NULL)"
    using assms(3) True by (auto simp: lfs_pair_issync_def lfs_pair_isnull_def)
  with True assms(1) show ?thesis
    by (auto simp: tortoise_at_def tortoise_start_def lfs_tortoise_detectcycles_def sees_cycle_def turn_Suc
        intro: exI [of _ 0])
next
  case False
  then obtain j where j: "turn j < k" "k \<le> turn (Suc j)"
      and t: "t = \<lparr>tt_pair = p (turn j), tt_i = word_of_nat (k - turn j), tt_period = 2 ^ Suc j\<rparr>"
    using assms(1) by (auto simp: tortoise_at_def)
  have sc: "sees_cycle p k \<longleftrightarrow> lfs_pair_issync (p k) (p (turn j))"
    using j turn_unique by (auto simp: sees_cycle_def)
  have jb: "Suc j < 32"
  proof (rule ccontr)
    assume "\<not> Suc j < 32"
    then have "(2 :: nat) ^ 32 \<le> 2 ^ Suc j" by (intro power_increasing) auto
    with j(1) assms(2) show False by (simp add: turn_def)
  qed
  have eq: "word_of_nat (k - turn j) = (2 ^ Suc j :: u32) \<longleftrightarrow> k = turn (Suc j)"
  proof -
    have "unat (word_of_nat (k - turn j) :: u32) = k - turn j" using assms(2) by (simp add: unat_of_nat)
    moreover have "(2 :: nat) ^ Suc j < 2 ^ 32" using jb by (intro power_strict_increasing) auto
    then have "unat (2 ^ Suc j :: u32) = 2 ^ Suc j"
      using unat_of_nat [of "2 ^ Suc j", where 'a = 32] by (simp del: power_Suc)
    ultimately show ?thesis using j by (auto simp: word_unat_eq_iff turn_Suc)
  qed
  show ?thesis
  proof (cases "k = turn (Suc j)")
    case True
    have "tortoise_at p (Suc k) \<lparr>tt_pair = p k, tt_i = 1, tt_period = 2 ^ Suc j * 2\<rparr>"
      unfolding tortoise_at_def using True by (auto intro!: exI [of _ "Suc j"] simp: turn_mono Suc_le_eq)
    then show ?thesis using True eq sc
      by (simp add: lfs_tortoise_detectcycles_def t Let_def)
  next
    case False
    have "tortoise_at p (Suc k) \<lparr>tt_pair = p (turn j), tt_i = word_of_nat (k - turn j) + 1, tt_period = 2 ^ Suc j\<rparr>"
      unfolding tortoise_at_def using j False by (auto intro!: exI [of _ j] simp: Suc_diff_le)
    then show ?thesis using False eq
      by (simp add: lfs_tortoise_detectcycles_def sc t Let_def)
  qed
qed

text \<open>A run reports exactly when one of its calls sees a cycle.\<close>

lemma tortoise_run_from:
  assumes "tortoise_at p k t" "k + n \<le> 2 ^ 30" "\<And>i. i < k + n \<Longrightarrow> \<not> lfs_pair_isnull (p i)"
  shows "if \<exists>i. k \<le> i \<and> i < k + n \<and> sees_cycle p i then tortoise_run t (map p [k..<k + n]) = Inl Corrupt
    else \<exists>t'. tortoise_run t (map p [k..<k + n]) = Inr t' \<and> tortoise_at p (k + n) t'"
  using assms
proof (induction n arbitrary: k t)
  case (Suc n)
  have u: "map p [k..<k + Suc n] = p k # map p [Suc k..<Suc k + n]"
    by (simp add: upt_rec)
  have st: "case lfs_tortoise_detectcycles (p k) t of
      Inl e \<Rightarrow> e = Corrupt \<and> sees_cycle p k
    | Inr t' \<Rightarrow> \<not> sees_cycle p k \<and> tortoise_at p (Suc k) t'"
    by (rule tortoise_step) (use Suc.prems in auto)
  show ?case
  proof (cases "lfs_tortoise_detectcycles (p k) t")
    case (Inl e)
    with st have "sees_cycle p k" "tortoise_run t (map p [k..<k + Suc n]) = Inl Corrupt"
      by (simp_all only: u) auto
    moreover from this have "\<exists>i. k \<le> i \<and> i < k + Suc n \<and> sees_cycle p i" by (intro exI [of _ k]) simp
    ultimately show ?thesis by (simp del: upt_Suc)
  next
    case (Inr t')
    with st have no: "\<not> sees_cycle p k" and at: "tortoise_at p (Suc k) t'" by auto
    have ex: "(\<exists>i. k \<le> i \<and> i < k + Suc n \<and> sees_cycle p i) \<longleftrightarrow> (\<exists>i. Suc k \<le> i \<and> i < Suc k + n \<and> sees_cycle p i)"
      using no by (metis Suc_leD Suc_leI add_Suc add_Suc_right le_neq_implies_less)
    have r: "tortoise_run t (map p [k..<k + Suc n]) = tortoise_run t' (map p [Suc k..<Suc k + n])"
      using Inr by (simp only: u) simp
    have b: "Suc k + n \<le> 2 ^ 30" using Suc.prems by simp
    have nn: "\<not> lfs_pair_isnull (p i)" if "i < Suc k + n" for i using Suc.prems(3) [of i] that by simp
    have "if \<exists>i. Suc k \<le> i \<and> i < Suc k + n \<and> sees_cycle p i then tortoise_run t' (map p [Suc k..<Suc k + n]) = Inl Corrupt
      else \<exists>t''. tortoise_run t' (map p [Suc k..<Suc k + n]) = Inr t'' \<and> tortoise_at p (Suc k + n) t''"
      by (rule Suc.IH [OF at b nn])
    then show ?thesis unfolding ex r by (simp only: add_Suc add_Suc_right)
  qed
qed simp

lemma tortoise_run_reports:
  assumes "n \<le> 2 ^ 30" "\<And>i. i < n \<Longrightarrow> \<not> lfs_pair_isnull (p i)"
  shows "tortoise_run tortoise_start (map p [0..<n]) = Inl Corrupt \<longleftrightarrow> (\<exists>k<n. sees_cycle p k)"
  using tortoise_run_from [of p 0 tortoise_start n] assms by (auto simp: tortoise_at_def split: if_splits)

text \<open>A sequence that repeats with period \<open>l\<close> from \<open>m\<close> on is seen at the latest one period after
  the first turn that is beyond \<open>m\<close> and at least \<open>l\<close> before the next.\<close>

lemma cycle_seen:
  assumes "\<And>k. m \<le> k \<Longrightarrow> p (k + l) = p k" "0 < l"
  obtains k where "k < 3 * (m + l) + 4" "sees_cycle p k"
proof -
  define M where "M = max (m + 2) l"
  define j where "j = (LEAST j. M \<le> 2 ^ Suc j)"
  have ex: "M \<le> 2 ^ Suc M" by (rule order_trans [OF less_imp_le [OF less_exp]]) simp
  have jM: "M \<le> 2 ^ Suc j" unfolding j_def by (rule LeastI [of "\<lambda>j. M \<le> 2 ^ Suc j", OF ex])
  have jl: "2 ^ Suc j < 2 * M \<or> j = 0"
  proof (cases j)
    case (Suc i)
    then have "\<not> M \<le> 2 ^ Suc i" unfolding j_def using not_less_Least by (metis lessI)
    then show ?thesis using Suc by simp
  qed simp
  have tj: "m \<le> turn j" "l \<le> 2 ^ Suc j" using jM by (auto simp: M_def turn_def)
  have tb: "turn j \<le> 2 * M - 2" using jl by (auto simp: turn_def)
  have "sees_cycle p (turn j + l)"
    unfolding sees_cycle_def using assms tj
    by (intro exI [of _ j]) (auto simp: turn_Suc lfs_pair_issync_def)
  then show ?thesis by (rule that [rotated]) (use tb in \<open>auto simp: M_def max_def split: if_splits\<close>)
qed

subsection \<open>Properties\<close>

text \<open>C23 (liveness). A walk that goes round in circles is caught: if the tails repeat with period
  \<open>l\<close> from the \<open>m\<close>-th pair on, one of the first \<open>3 * (m + l) + 4\<close> calls of the detector reports
  corruption.  The counters of the detector do not overflow on the way.\<close>

theorem tortoise_finds_cycles:
  assumes "\<And>k. m \<le> k \<Longrightarrow> p (k + l) = p k" "0 < l" "\<And>k. \<not> lfs_pair_isnull (p k)"
    and "3 * (m + l) + 4 \<le> n" "n \<le> 2 ^ 30"
  shows "tortoise_run tortoise_start (map p [0..<n]) = Inl Corrupt"
proof -
  obtain k where "k < n" "sees_cycle p k"
    using cycle_seen [of m p l] assms(1,2,4) by (metis less_le_trans)
  then show ?thesis using tortoise_run_reports [OF assms(5)] assms(3) by blast
qed

theorem tortoise_finds_cycles_witness:
  "tortoise_run tortoise_start (map (\<lambda>k. if even k then (2, 3) else (4, 5)) [0..<10]) = Inl Corrupt"
  by (rule tortoise_finds_cycles [where m = 0 and l = 2])
    (simp_all add: lfs_pair_isnull_def LFS_BLOCK_NULL_def)

text \<open>C24 (safety). A list that is not circular is never reported: when no two of the pairs a walk
  meets are the same pair of blocks, in either order, every call of the detector passes.\<close>

theorem tortoise_passes_lists:
  assumes "\<And>i j. i < j \<Longrightarrow> j < length ps \<Longrightarrow> \<not> lfs_pair_issync (ps ! j) (ps ! i)"
    and "\<And>p. p \<in> set ps \<Longrightarrow> \<not> lfs_pair_isnull p" "length ps \<le> 2 ^ 30"
  shows "\<exists>t. tortoise_run tortoise_start ps = Inr t"
proof -
  have "\<not> sees_cycle ((!) ps) k" if "k < length ps" for k
    using assms(1) that by (auto simp: sees_cycle_def)
  then show ?thesis
    using tortoise_run_from [of "(!) ps" 0 tortoise_start "length ps"] assms(2,3)
    by (auto simp: tortoise_at_def map_nth split: if_splits)
qed

theorem tortoise_passes_lists_witness:
  "\<exists>t. tortoise_run tortoise_start [(0, 1), (2, 3), (5, 4), (6, 1)] = Inr t"
proof (rule tortoise_passes_lists)
  fix i j :: nat assume "i < j" "j < length [(0 :: u32, 1 :: u32), (2, 3), (5, 4), (6, 1)]"
  then have "i = 0 \<or> i = 1 \<or> i = 2" "j = 1 \<or> j = 2 \<or> j = 3" by auto
  then show "\<not> lfs_pair_issync ([(0, 1), (2, 3), (5, 4), (6, 1)] ! j) ([(0, 1), (2, 3), (5, 4), (6, 1)] ! i)"
    using \<open>i < j\<close> by (elim disjE) (simp_all add: lfs_pair_issync_def)
qed (auto simp: lfs_pair_isnull_def LFS_BLOCK_NULL_def)

end
