(* ===== verification/MountProps.thy ===== *)
theory MountProps
  imports Steady Tortoise
begin

text \<open>
  Mounting always comes to an end.  Every pair the scan fetches determines the next one
  (\<open>Steady\<close>), so a scan that does not end repeats itself, and the cycle detector
  (\<open>Tortoise\<close>) stops it; each fetch on the way is robust (\<open>Robust\<close>).
\<close>

subsection \<open>The superblock\<close>

text \<open>A loop whose iterations are counted: \<open>I k\<close> before iteration \<open>k\<close>, and never \<open>n\<close> of them.\<close>

lemma wp_mloop_count:
  assumes step: "\<And>k x s. I k x s \<Longrightarrow> k < n \<and> wp (body x) (\<lambda>r t. case r of
        Val (Inl y) \<Rightarrow> I (Suc k) y t
      | Val (Inr z) \<Rightarrow> Q (Val z) t
      | Exc e \<Rightarrow> Q (Exc e) t
      | Panic \<Rightarrow> Q Panic t) s"
    and start: "I k x s"
  shows "wp (mloop body x) Q s"
  using start
proof (induction "n - k" arbitrary: k x s rule: less_induct)
  case less
  from step [OF less.prems] obtain r t where k: "k < n" and run: "body x s = Some (r, t)"
    and post: "case r of Val (Inl y) \<Rightarrow> I (Suc k) y t | Val (Inr z) \<Rightarrow> Q (Val z) t
      | Exc e \<Rightarrow> Q (Exc e) t | Panic \<Rightarrow> Q Panic t"
    by (auto elim: wpE)
  have "wp (mloop body y) Q t" if "I (Suc k) y t" for y
    by (rule less.hyps [OF _ that]) (use k in simp)
  then show ?case
    using run post by (auto simp: wp_def mloop_unfold [of body x s] split: outcome.splits sum.splits)
qed

text \<open>What the scan does with a pair after it has been fetched leaves the nodes alone.\<close>

definition pair_rest :: "'d lfs_config \<Rightarrow> u32 \<Rightarrow> lfs_mdir \<Rightarrow> ('d, unit) fs" where
  "pair_rest cfg tag d =
    bnd (if tag \<noteq> 0 \<and> \<not> lfs_tag_isdelete tag then
           bnd (modify (\<lambda>s. s\<lparr>l_root := md_pair d\<rparr>)) (\<lambda>_.
           bnd (superblock_get d) (mount_superblock cfg))
         else ret ()) (\<lambda>_.
    bnd (gets l_gstate) (\<lambda>g.
    bnd (lfs_dir_getgstate d g) (\<lambda>g.
    modify (\<lambda>s. s\<lparr>l_gstate := g\<rparr>))))"

context block_device
begin

lemma rb_mount_limit:
  assumes "\<And>m. robust (rd cfg d a) (upd m) (\<lambda>_. True)"
  shows "robust (rd cfg d a) (mount_limit x cur upd) (\<lambda>_. True)"
  unfolding mount_limit_def by (intro rb_intros assms) simp_all

lemma rb_limits:
  "robust (rd cfg d a) (modify (\<lambda>s. s\<lparr>l_name_max := m\<rparr>)) (\<lambda>_. True)"
  "robust (rd cfg d a) (modify (\<lambda>s. s\<lparr>l_file_max := m\<rparr>)) (\<lambda>_. True)"
  "robust (rd cfg d a) (modify (\<lambda>s. s\<lparr>l_attr_max := m, l_inline_max := min (l_inline_max s) m\<rparr>)) (\<lambda>_. True)"
  "robust (rd cfg d a) (modify (\<lambda>s. s\<lparr>l_root := p\<rparr>)) (\<lambda>_. True)"
  "robust (rd cfg d a) (modify (\<lambda>s. s\<lparr>l_gstate := g s\<rparr>)) (\<lambda>_. True)"
  by (rule rb_modify; auto simp: rd_state_def attached_to_def)+

lemma rb_prepsuperblock: "robust (rd cfg d a) (lfs_fs_prepsuperblock b) (\<lambda>_. True)"
  unfolding lfs_fs_prepsuperblock_def set_gtag_def by (intro rb_intros rb_limits) simp_all

lemma rb_mount_superblock:
  assumes "unat (cfg_block_count cfg) = bcount" "0 < bcount"
  shows "robust (rd cfg d a) (mount_superblock cfg sb) (\<lambda>_. True)"
proof -
  have bc: "robust (rd cfg d a) (modify (\<lambda>s. s\<lparr>l_block_count := n\<rparr>)) (\<lambda>_. True)"
    if "\<not> (cfg_block_count cfg \<noteq> 0 \<and> n \<noteq> cfg_block_count cfg)" for n
    by (rule rb_modify) (use assms that in \<open>auto simp: rd_state_def attached_to_def\<close>)
  show ?thesis
    unfolding mount_superblock_def Let_def
    by (intro rb_intros rb_mount_limit rb_limits rb_prepsuperblock bc) simp_all
qed

lemma rb_pair_rest:
  assumes "unat (cfg_block_count cfg) = bcount" "0 < bcount"
  shows "robust (rd cfg d a) (pair_rest cfg tag m) (\<lambda>_. True)"
  unfolding pair_rest_def by (intro rb_intros rb_limits rb_mount_superblock [OF assms] refl TrueI)

end

lemma nf_limits:
  "keeps nodes_frame (modify (\<lambda>s. s\<lparr>l_name_max := m\<rparr>))"
  "keeps nodes_frame (modify (\<lambda>s. s\<lparr>l_file_max := m\<rparr>))"
  "keeps nodes_frame (modify (\<lambda>s. s\<lparr>l_attr_max := m, l_inline_max := min (l_inline_max s) m\<rparr>))"
  "keeps nodes_frame (modify (\<lambda>s. s\<lparr>l_root := p\<rparr>))"
  "keeps nodes_frame (modify (\<lambda>s. s\<lparr>l_block_count := bc\<rparr>))"
  "keeps nodes_frame (modify (\<lambda>s. s\<lparr>l_gstate := g s\<rparr>))"
  by (auto simp: keeps_def nodes_frame_def modify_def)

lemma nf_dir_getslice: "keeps nodes_frame (lfs_dir_getslice_buf dir gmask gtag goff buf)"
  unfolding lfs_dir_getslice_buf_def lfs_dir_getslice_body_def lfs_bd_read_def
  by (intro nf.k_intros nf_bd_read_buf)

lemma nf_dir_get: "keeps nodes_frame (lfs_dir_get dir gmask gtag buf)"
  unfolding lfs_dir_get_def lfs_dir_get_buf_def by (intro nf.k_intros nf_dir_getslice)

lemma nf_pair_rest: "keeps nodes_frame (pair_rest cfg tag d)"
  unfolding pair_rest_def superblock_get_def mount_superblock_def mount_limit_def lfs_dir_getgstate_def Let_def
    lfs_fs_prepsuperblock_def set_gtag_def
  by (intro nf.k_intros nf_limits nf_dir_get)

subsection \<open>The scan ends\<close>

lemma mount_pair_rest:
  "mount_pair cfg a p = bnd (lfs_dir_fetchmatch a p (lfs_mktag 0x7ff 0x3ff 0) (lfs_mktag LFS_TYPE_SUPERBLOCK 0 8)
      (Some (lfs_dir_find_match lfs_magic))) (\<lambda>(r, _). bnd (lift_res r) (\<lambda>tag. bnd (get_mdir a) (pair_rest cfg tag)))"
  by (simp add: mount_pair_def pair_rest_def [abs_def])

text \<open>A walk that stays among \<open>b\<close> blocks and has not been stopped is short.\<close>

lemma walk_is_short:
  fixes f :: "pair \<Rightarrow> pair"
  assumes "\<And>i. i < k \<Longrightarrow> unat (fst ((f ^^ i) p)) < b \<and> unat (snd ((f ^^ i) p)) < b"
    and "\<And>i. i < k \<Longrightarrow> \<not> sees_cycle (\<lambda>i. (f ^^ i) p) i"
  shows "k < 3 * (b * b) + 4"
proof (rule ccontr)
  assume k: "\<not> ?thesis"
  let ?g = "\<lambda>i. (unat (fst ((f ^^ i) p)), unat (snd ((f ^^ i) p)))"
  have "?g ` {..b * b} \<subseteq> {..<b} \<times> {..<b}"
    using assms(1) k by auto
  then have "card (?g ` {..b * b}) \<le> card ({..<b} \<times> {..<b})" by (intro card_mono) auto
  then have "\<not> inj_on ?g {..b * b}"
    by (auto dest!: card_image simp: card_cartesian_product)
  then obtain x y where "x \<le> b * b" "y \<le> b * b" "x \<noteq> y" "?g x = ?g y" by (auto simp: inj_on_def)
  then obtain i j where ij: "i < j" "j \<le> b * b" "?g i = ?g j" by (metis linorder_neqE_nat)
  then have eq: "(f ^^ i) p = (f ^^ j) p" by (simp add: prod_eq_iff word_unat_eq_iff)
  have "(f ^^ (n + (j - i))) p = (f ^^ n) p" if "i \<le> n" for n
  proof -
    have "(f ^^ (n + (j - i))) p = (f ^^ (n - i)) ((f ^^ j) p)"
      using that ij(1) by (simp flip: funpow_add comp_apply [of "f ^^ (n - i)" "f ^^ j"])
    also have "\<dots> = (f ^^ n) p"
      using that eq [symmetric] by (simp flip: funpow_add comp_apply [of "f ^^ (n - i)" "f ^^ i"])
    finally show ?thesis .
  qed
  then obtain n where "n < 3 * (i + (j - i)) + 4" "sees_cycle (\<lambda>i. (f ^^ i) p) n"
    by (rule cycle_seen [of i "\<lambda>i. (f ^^ i) p" "j - i"]) (use ij in auto)
  then show False using assms(2) [of n] k ij by simp
qed

context block_device
begin

lemma matcher_magic:
  "matcher_ok cfg d a fmask ftag (Some (lfs_dir_find_match lfs_magic))"
  "matcher_steady cfg d a (Some (lfs_dir_find_match lfs_magic))"
  by (auto simp: matcher_ok_def matcher_steady_def intro: rb_find_match st_find_match [OF read_rel_fetch])

abbreviation (input) magic_fetch where
  "magic_fetch a p \<equiv> lfs_dir_fetchmatch a p (lfs_mktag 0x7ff 0x3ff 0) (lfs_mktag LFS_TYPE_SUPERBLOCK 0 8)
      (Some (lfs_dir_find_match lfs_magic))"

lemma fetchmatch_in_range:
  assumes "rd cfg d a s" "lfs_dir_fetchmatch a p fmask ftag cb s = Some (Val x, t)"
  shows "unat (fst p) < bcount \<and> unat (snd p) < bcount"
proof -
  have "unat (l_block_count s) = bcount" "0 < bcount" using assms(1) by (auto simp: rd_state_def attached_to_def)
  moreover have "\<not> (l_block_count s \<noteq> 0 \<and> (fst p \<ge> l_block_count s \<or> snd p \<ge> l_block_count s))"
    using assms(2) by (auto simp: lfs_dir_fetchmatch_def run_simps)
  ultimately show ?thesis by (auto simp: word_le_nat_alt)
qed

text \<open>With the device fixed, the pair after \<open>p\<close> is always the same.\<close>

lemma next_pair:
  assumes "unat (cfg_block_size cfg) = bsz" "0 < bsz" "bsz < 2 ^ 30"
  obtains f where "\<And>s p x t. rd cfg d a s \<Longrightarrow> l_gdisk s = g \<Longrightarrow> magic_fetch a p s = Some (Val x, t) \<Longrightarrow>
      \<exists>n. l_nodes t a = Some n \<and> md_tail (nd_m n) = f p"
proof -
  define leads where "leads p q \<longleftrightarrow> (\<exists>s x t n. rd cfg d a s \<and> l_gdisk s = g \<and> magic_fetch a p s = Some (Val x, t)
      \<and> l_nodes t a = Some n \<and> md_tail (nd_m n) = q)" for p q
  note st = fetchmatch_steady [OF assms matcher_magic(2)]
  have uniq: "q = q'" if "leads p q" "leads p q'" for p q q'
  proof -
    from that obtain s x t n s' x' t' n' where r: "rd cfg d a s" "l_gdisk s = g" "magic_fetch a p s = Some (Val x, t)"
      "l_nodes t a = Some n" "md_tail (nd_m n) = q" "rd cfg d a s'" "l_gdisk s' = g"
      "magic_fetch a p s' = Some (Val x', t')" "l_nodes t' a = Some n'" "md_tail (nd_m n') = q'"
      unfolding leads_def by blast
    have "both_rd cfg d a s s'" using r by simp
    from steady_toD [OF st this r(3,8)] r show ?thesis by (auto simp: same_tail_def)
  qed
  have "\<exists>n. l_nodes t a = Some n \<and> md_tail (nd_m n) = (SOME q. leads p q)"
    if r: "rd cfg d a s" "l_gdisk s = g" "magic_fetch a p s = Some (Val x, t)" for s p x t
  proof -
    have "both_rd cfg d a s s" using r by simp
    from steady_toD [OF st this r(3) r(3)] obtain n where n: "l_nodes t a = Some n" by (auto simp: same_tail_def)
    with r have "leads p (md_tail (nd_m n))" unfolding leads_def by blast
    then have "(SOME q. leads p q) = md_tail (nd_m n)" by (intro some_equality) (auto intro: uniq)
    with n show ?thesis by simp
  qed
  then show thesis by (rule that)
qed

lemma mount_pair_step:
  assumes "unat (cfg_block_size cfg) = bsz" "4 \<le> bsz" "bsz < 2 ^ 30" "unat (cfg_block_count cfg) = bcount" "0 < bcount"
    and rd: "rd cfg d a s" and g: "l_gdisk s = g"
    and f: "\<And>s p x t. rd cfg d a s \<Longrightarrow> l_gdisk s = g \<Longrightarrow> magic_fetch a p s = Some (Val x, t) \<Longrightarrow>
      \<exists>n. l_nodes t a = Some n \<and> md_tail (nd_m n) = f p"
  shows "\<exists>r t. mount_pair cfg a p s = Some (r, t) \<and> r \<noteq> Panic \<and> rd cfg d a t
    \<and> (\<forall>x. r = Val x \<longrightarrow> l_gdisk t = g \<and> unat (fst p) < bcount \<and> unat (snd p) < bcount
      \<and> (\<exists>n. l_nodes t a = Some n \<and> md_tail (nd_m n) = f p))"
proof -
  have rbf: "robust (rd cfg d a) (magic_fetch a p) (\<lambda>_. True)"
    by (rule rb_dir_fetchmatch) (use assms matcher_magic in auto)
  then obtain r t where run: "magic_fetch a p s = Some (r, t)" "r \<noteq> Panic" "rd cfg d a t"
    using rd unfolding robust_def by blast
  have ro: "keeps lookup_frame (magic_fetch a p)"
    by (rule ro.dir_fetchmatch) (auto intro: ro.find_match)
  show ?thesis
  proof (cases "\<exists>tag i. r = Val (Inr tag, i)")
    case False
    then have "(\<exists>e i. r = Val (Inl e, i)) \<or> (\<exists>e. r = Exc e)"
      using run(2) by (cases r) (auto, metis sumE)
    then have "\<exists>e. mount_pair cfg a p s = Some (Exc e, t)"
      using run(1) unfolding mount_pair_rest
      by (auto simp: bnd_def [of "magic_fetch a p"] run_simps bnd_run_Exc)
    with run show ?thesis by auto
  next
    case True
    then obtain tag i where r: "r = Val (Inr tag, i)" by blast
    obtain n where n: "l_nodes t a = Some n" "md_tail (nd_m n) = f p"
      using f [OF rd g] run(1) r by blast
    have gt: "l_gdisk t = g"
      using keepsD [OF ro run(1)] g by (simp add: frame_defs)
    obtain r' u where run': "pair_rest cfg tag (nd_m n) t = Some (r', u)" "r' \<noteq> Panic" "rd cfg d a u"
      using rb_pair_rest [OF assms(4,5)] run(3) unfolding robust_def by blast
    have "nodes_frame t u" using keepsD [OF nf_pair_rest run'(1)] .
    moreover have "mount_pair cfg a p s = Some (r', u)"
      using run(1) r n run'(1) unfolding mount_pair_rest
      by (simp add: bnd_def [of "magic_fetch a p"] get_mdir_run run_simps bnd_run_Val)
    ultimately show ?thesis
      using run' n gt fetchmatch_in_range [OF rd] run(1) r by (auto simp: nodes_frame_def)
  qed
qed

lemma mount_scan_body:
  assumes "unat (cfg_block_size cfg) = bsz" "4 \<le> bsz" "bsz < 2 ^ 30" "unat (cfg_block_count cfg) = bcount"
    and "0 < bcount" "bcount \<le> 2 ^ 14" "rd cfg d a s" "l_nodes s a = Some n" "md_tail (nd_m n) = (0, 1)"
  shows "wp (mloop (\<lambda>tortoise.
      bnd (get_mdir a) (\<lambda>m.
      if lfs_pair_isnull (md_tail m) then ret (Inr ())
      else
        bnd (lift_res (lfs_tortoise_detectcycles (md_tail m) tortoise)) (\<lambda>tortoise.
        bnd (mount_pair cfg a (md_tail m)) (\<lambda>_.
        ret (Inl tortoise))))) tortoise_start) (\<lambda>r t. r \<noteq> Panic \<and> rd cfg d a t) s"
proof -
  define g where "g = l_gdisk s"
  obtain f where f: "\<And>s p x t. rd cfg d a s \<Longrightarrow> l_gdisk s = g \<Longrightarrow> magic_fetch a p s = Some (Val x, t) \<Longrightarrow>
      \<exists>n. l_nodes t a = Some n \<and> md_tail (nd_m n) = f p"
    by (rule next_pair [OF assms(1) _ assms(3), where d = d and a = a and g = g]) (use assms(2) in auto)
  define p where "p = (\<lambda>i. (f ^^ i) (0, 1))"
  define walked where "walked k t u \<longleftrightarrow> rd cfg d a u \<and> l_gdisk u = g
      \<and> (\<exists>n. l_nodes u a = Some n \<and> md_tail (nd_m n) = p k) \<and> tortoise_at p k t
      \<and> (\<forall>i<k. unat (fst (p i)) < bcount \<and> unat (snd (p i)) < bcount \<and> \<not> sees_cycle p i)" for k t u
  have "bcount * bcount \<le> 2 ^ 14 * 2 ^ 14" by (intro mult_le_mono assms)
  then have bound: "3 * (bcount * bcount) + 4 \<le> 2 ^ 30" by simp
  show ?thesis
  proof (rule wp_mloop_count [where I = walked and n = "3 * (bcount * bcount) + 4" and k = 0])
    show "walked 0 tortoise_start s"
      using assms(7-9) by (auto simp: walked_def tortoise_at_def p_def g_def)
    fix k t u assume "walked k t u"
    then obtain n where w: "rd cfg d a u" "l_gdisk u = g" "l_nodes u a = Some n" "md_tail (nd_m n) = p k"
        "tortoise_at p k t" "\<And>i. i < k \<Longrightarrow> unat (fst (p i)) < bcount \<and> unat (snd (p i)) < bcount"
        "\<And>i. i < k \<Longrightarrow> \<not> sees_cycle p i"
      by (auto simp: walked_def)
    have k: "k < 3 * (bcount * bcount) + 4"
      by (rule walk_is_short [of k f "(0, 1)"]) (use w(6,7) in \<open>auto simp: p_def\<close>)
    show "k < 3 * (bcount * bcount) + 4 \<and> wp (bnd (get_mdir a) (\<lambda>m.
        if lfs_pair_isnull (md_tail m) then ret (Inr ())
        else bnd (lift_res (lfs_tortoise_detectcycles (md_tail m) t)) (\<lambda>tortoise.
          bnd (mount_pair cfg a (md_tail m)) (\<lambda>_. ret (Inl tortoise)))))
      (\<lambda>r t. case r of Val (Inl y) \<Rightarrow> walked (Suc k) y t | Val (Inr z) \<Rightarrow> Val z \<noteq> Panic \<and> rd cfg d a t
        | Exc e \<Rightarrow> Exc e \<noteq> Panic \<and> rd cfg d a t | Panic \<Rightarrow> Panic \<noteq> Panic \<and> rd cfg d a t) u"
      (is "_ \<and> wp (bnd _ ?k) ?Q u")
    proof
      have "wp (?k (nd_m n)) ?Q u"
      proof (cases "lfs_pair_isnull (p k)")
        case False
        then have step: "case lfs_tortoise_detectcycles (p k) t of Inl e \<Rightarrow> e = Corrupt \<and> sees_cycle p k
            | Inr t' \<Rightarrow> \<not> sees_cycle p k \<and> tortoise_at p (Suc k) t'"
          by (intro tortoise_step w(5)) (use k bound in auto)
        show ?thesis
        proof (cases "lfs_tortoise_detectcycles (p k) t")
          case (Inr t')
          have "\<exists>r v. mount_pair cfg a (p k) u = Some (r, v) \<and> r \<noteq> Panic \<and> rd cfg d a v
            \<and> (\<forall>x. r = Val x \<longrightarrow> l_gdisk v = g \<and> unat (fst (p k)) < bcount \<and> unat (snd (p k)) < bcount
              \<and> (\<exists>n. l_nodes v a = Some n \<and> md_tail (nd_m n) = f (p k)))"
            by (rule mount_pair_step [OF assms(1-5) w(1,2)]) (rule f)
          then obtain r v where v: "mount_pair cfg a (p k) u = Some (r, v)" "r \<noteq> Panic" "rd cfg d a v"
            "\<forall>x. r = Val x \<longrightarrow> l_gdisk v = g \<and> unat (fst (p k)) < bcount \<and> unat (snd (p k)) < bcount
              \<and> (\<exists>n. l_nodes v a = Some n \<and> md_tail (nd_m n) = f (p k))" by blast
          have "f (p k) = p (Suc k)" by (simp add: p_def)
          then show ?thesis
            using False w Inr step v by (cases r) (auto simp: wp_def run_simps bnd_def walked_def less_Suc_eq)
        qed (use False w step in \<open>auto simp: wp_def run_simps\<close>)
      qed (use w in \<open>simp add: run_simps\<close>)
      moreover have "bnd (get_mdir a) ?k u = ?k (nd_m n) u"
        by (rule bnd_run_Val) (rule get_mdir_run [OF w(3)])
      ultimately show "wp (bnd (get_mdir a) ?k) ?Q u" by (simp only: wp_def)
    qed (rule k)
  qed
qed

lemma mount_scan_returns:
  assumes "unat (cfg_block_size cfg) = bsz" "4 \<le> bsz" "bsz < 2 ^ 30" "unat (cfg_block_count cfg) = bcount"
    and "0 < bcount" "bcount \<le> 2 ^ 14" "l_cfg s = cfg" "l_dev s = d" "attached_to st dok bsz bcount s"
    and "coherent_to blk bsz bcount (cfg_read_size cfg) d (l_rcache s) (l_bufs s (cache_buffer (l_rcache s)))"
  shows "\<exists>r t. mount_scan cfg s = Some (r, t) \<and> r \<noteq> Panic \<and> l_dev t = d \<and> l_cfg t = cfg \<and> attached_to st dok bsz bcount t
    \<and> coherent_to blk bsz bcount (cfg_read_size cfg) d (l_rcache t) (l_bufs t (cache_buffer (l_rcache t)))"
proof -
  let ?a = "l_next_node s" and ?n = "node_default\<lparr>nd_m := mdir_zero\<lparr>md_tail := (0, 1)\<rparr>\<rparr>"
  let ?s = "s\<lparr>l_nodes := (l_nodes s)(?a \<mapsto> ?n), l_next_node := Suc ?a\<rparr>"
  have "rd cfg d ?a ?s" using assms by (auto simp: rd_state_def attached_to_def)
  from mount_scan_body [OF assms(1-6) this, of ?n]
  obtain r t where "mloop (\<lambda>tortoise.
      bnd (get_mdir ?a) (\<lambda>m.
      if lfs_pair_isnull (md_tail m) then ret (Inr ())
      else
        bnd (lift_res (lfs_tortoise_detectcycles (md_tail m) tortoise)) (\<lambda>tortoise.
        bnd (mount_pair cfg ?a (md_tail m)) (\<lambda>_.
        ret (Inl tortoise))))) tortoise_start ?s = Some (r, t)" "r \<noteq> Panic" "rd cfg d ?a t"
    by (auto elim: wpE)
  then show ?thesis
    unfolding mount_scan_def with_mdir_def with_node_def Let_def
    by (auto simp: rd_state_def attached_to_def)
qed

end

subsection \<open>The whole of mounting\<close>

text \<open>A configuration that passes the assertions of \<open>lfs_init\<close>, with the buffers a state holds.\<close>

definition config_ok :: "'d lfs_config \<Rightarrow> 'd lfs \<Rightarrow> bool" where
  "config_ok cfg s \<longleftrightarrow> init_sizes_ok cfg (length (l_bufs s (cfg_read_buffer cfg))) (length (l_bufs s (cfg_prog_buffer cfg)))
    \<and> init_thresholds_ok cfg \<and> init_limits_ok cfg \<and> l_bufs s (cfg_lookahead_buffer cfg) \<noteq> []
    \<and> length (l_bufs s (cfg_read_buffer cfg)) < 2 ^ 31 \<and> cache_size (l_rcache s) \<le> length (l_bufs s (cfg_read_buffer cfg))"

lemma init_run:
  assumes "config_ok cfg s"
  obtains t where "lfs_init cfg s = Some (Val (), t)" "l_dev t = l_dev s" "l_cfg t = cfg" "l_block_count t = cfg_block_count cfg"
    "cache_block (l_rcache t) = LFS_BLOCK_NULL" "cache_size (l_rcache t) = cache_size (l_rcache s)"
    "length (l_bufs t (cache_buffer (l_rcache t))) = length (l_bufs s (cfg_read_buffer cfg))"
  using assms
  by (cases "cfg_lookahead_buffer cfg = cfg_prog_buffer cfg"; cases "cfg_lookahead_buffer cfg = cfg_read_buffer cfg";
      cases "cfg_prog_buffer cfg = cfg_read_buffer cfg")
    (auto simp: config_ok_def lfs_init_def lfs_cache_zero_def get_buf_def put_buf_def get_cache_def upd_cache_def run_simps bnd_assoc)

lemma config_sizes:
  assumes "config_ok cfg s" "unat (cfg_block_size cfg) = bsz"
  shows "4 \<le> bsz" "0 < unat (cfg_read_size cfg)" "unat (cfg_read_size cfg) dvd bsz"
    "unat (cfg_read_size cfg) \<le> length (l_bufs s (cfg_read_buffer cfg))"
proof -
  note ok = assms(1) [unfolded config_ok_def init_sizes_ok_def]
  show "4 \<le> bsz" "0 < unat (cfg_read_size cfg)" "unat (cfg_read_size cfg) dvd bsz"
    using ok assms(2) by (auto simp: word_le_nat_alt word_unat_eq_iff intro: dvd_trans)
  have "unat (cfg_read_size cfg) \<le> unat (cfg_cache_size cfg)"
    using ok by (intro dvd_imp_le) (auto simp: word_unat_eq_iff)
  also have "\<dots> \<le> length (l_bufs s (cfg_read_buffer cfg))"
    using ok by (auto simp: word_le_nat_alt unat_of_nat)
  finally show "unat (cfg_read_size cfg) \<le> length (l_bufs s (cfg_read_buffer cfg))" .
qed

context block_device
begin

lemma mount_returns:
  assumes "unat (cfg_block_size cfg) = bsz" "bsz < 2 ^ 30" "unat (cfg_block_count cfg) = bcount"
    and "0 < bcount" "bcount \<le> 2 ^ 14" "cfg_context cfg = st" "dok (l_dev s)" "config_ok cfg s"
  shows "\<exists>r t. lfs_mount_raw cfg s = Some (r, t) \<and> r \<noteq> Panic \<and> l_dev t = l_dev s \<and> l_cfg t = cfg"
proof -
  obtain t where t: "lfs_init cfg s = Some (Val (), t)" "l_dev t = l_dev s" "l_cfg t = cfg" "l_block_count t = cfg_block_count cfg"
    "cache_block (l_rcache t) = LFS_BLOCK_NULL" "cache_size (l_rcache t) = cache_size (l_rcache s)"
    "length (l_bufs t (cache_buffer (l_rcache t))) = length (l_bufs s (cfg_read_buffer cfg))"
    by (rule init_run [OF assms(8)])
  have sizes: "4 \<le> bsz" "0 < unat (cfg_read_size cfg)" "unat (cfg_read_size cfg) dvd bsz"
    "unat (cfg_read_size cfg) \<le> length (l_bufs s (cfg_read_buffer cfg))"
    by (rule config_sizes [OF assms(8,1)])+
  have no_block: "\<not> unat LFS_BLOCK_NULL < bcount"
    using assms(5) by (simp add: LFS_BLOCK_NULL_def unsigned_minus_1_eq_mask mask_eq_exp_minus_1)
  have "attached_to st dok bsz bcount t"
    using assms t sizes by (simp add: attached_to_def)
  moreover have "coherent_to blk bsz bcount (cfg_read_size cfg) (l_dev s) (l_rcache t) (l_bufs t (cache_buffer (l_rcache t)))"
    using assms t sizes no_block by (simp add: coherent_to_def config_ok_def)
  ultimately obtain r u where u: "mount_scan cfg t = Some (r, u)" "r \<noteq> Panic" "l_dev u = l_dev s" "l_cfg u = cfg"
      "attached_to st dok bsz bcount u"
    using mount_scan_returns [OF assms(1) sizes(1) assms(2-5) t(3,2)] by blast
  have "l_block_count u \<noteq> 0" using u(5) assms(4) by (auto simp: attached_to_def)
  then show ?thesis
    using t(1) u by (cases r) (auto simp: lfs_mount_raw_def bnd_def [of "lfs_init cfg"] or_deinit_def bnd_assoc
        attempt_run_Val attempt_run_Exc bnd_run_Val bnd_run_Exc run_simps lfs_deinit_def lfs_alloc_drop_def lfs_alloc_ckpoint_def)
qed

end

text \<open>Mounting divides by the number of blocks, after the scan; when neither the configuration nor a
  superblock has given it, this is a division by zero.\<close>

lemma mount_without_count_panics:
  assumes "lfs_init cfg s = Some (Val (), t)" "mount_scan cfg t = Some (Val (), u)" "l_block_count u = 0"
  shows "\<exists>v. lfs_mount_raw cfg s = Some (Panic, v)"
  using assms
  by (auto simp: lfs_mount_raw_def bnd_run_Val or_deinit_def bnd_assoc attempt_run_Val run_simps)

subsection \<open>Properties\<close>

text \<open>C9 (liveness). Mounting with a given number of blocks always returns.  On a driver that keeps the laws
  of a block device, for every configuration that passes the assertions of \<open>lfs_init\<close> and names the number
  of blocks of the device, and whatever bytes the device holds (damaged
  or hostile logs, superblocks, lists of pairs that run in circles), \<open>lfs_mount_raw\<close> ends, with
  success or an error and never with a panic, and has not written to the device.  At most
  \<open>2 ^ 14\<close> blocks: the counters of the cycle detector would have to be wider for the square of more.
  The configuration with a block count of zero, which leaves the number to the superblock, passes
  \<open>lfs_init\<close> too and is not covered: there mounting panics when the scan ends well without having
  met a superblock (\<open>mount_without_count_panics\<close>).\<close>

theorem mount_always_returns:
  assumes "block_device st dok blk bsz bcount" "cfg_context cfg = st" "dok (l_dev s)" "config_ok cfg s"
    and "unat (cfg_block_size cfg) = bsz" "bsz < 2 ^ 30" "unat (cfg_block_count cfg) = bcount" "0 < bcount" "bcount \<le> 2 ^ 14"
  shows "\<exists>r t. lfs_mount_raw cfg s = Some (r, t) \<and> r \<noteq> Panic \<and> l_dev t = l_dev s \<and> l_cfg t = cfg"
  by (rule block_device.mount_returns [OF assms(1,5-9,2-4)])

lemma demo_config_ok: "config_ok demo_config (demo_state d)"
  by (simp add: config_ok_def init_sizes_ok_def init_thresholds_ok_def init_limits_ok_def demo_defs or_default_def
      init_metadata_max_def LFS_NAME_MAX_def LFS_FILE_MAX_def LFS_ATTR_MAX_def lfs_npw2_def)

theorem mount_always_returns_witness:
  "\<exists>r t. lfs_mount_raw demo_config (demo_state demo_file_dev) = Some (r, t) \<and> r \<noteq> Panic
    \<and> l_dev t = demo_file_dev \<and> l_cfg t = demo_config"
  using mount_always_returns [OF demo_device _ _ demo_config_ok, of demo_file_dev] demo_file_wf
  by (simp add: demo_defs)

end
