(* ===== verification/FetchLog.thy ===== *)
theory FetchLog
  imports Steady
begin

text \<open>
  The format of a metadata block, and what fetching makes of it.  A block holds a revision
  count and commits, each a run of tagged entries closed by a checksum; behind the last
  commit stands whatever an interrupted write has left.  Fetching a pair of such blocks finds
  exactly the commits that are complete.
\<close>

subsection \<open>The format\<close>

type_synonym log_commit = "log_entry list \<times> u32 \<times> bytes"

primrec entries_bytes :: "u32 \<Rightarrow> log_entry list \<Rightarrow> bytes" where
  "entries_bytes p [] = []"
| "entries_bytes p (e # es) = entry_bytes p (fst e) (snd e) @ entries_bytes (fst e) es"

primrec last_tag :: "u32 \<Rightarrow> log_entry list \<Rightarrow> u32" where
  "last_tag p [] = p"
| "last_tag p (e # es) = last_tag (fst e) es"

text \<open>The closing entry: its tag, the checksum of the commit, and the padding.\<close>

definition commit_bytes :: "u32 \<Rightarrow> u32 \<Rightarrow> log_commit \<Rightarrow> bytes" where
  "commit_bytes p crc = (\<lambda>(es, ctag, pad).
    let body = entries_bytes p es @ u32_to_be (ctag XOR last_tag p es)
    in body @ u32_to_le (lfs_crc crc body) @ pad)"

text \<open>The tag the next commit chains to: the closing tag, with the valid bit as that commit expects it.\<close>

definition next_tag :: "u32 \<Rightarrow> u32" where
  "next_tag ctag = ctag XOR push_bit 31 (ucast (lfs_tag_chunk ctag) AND 1)"

primrec commits_bytes :: "u32 \<Rightarrow> u32 \<Rightarrow> log_commit list \<Rightarrow> bytes" where
  "commits_bytes p crc [] = []"
| "commits_bytes p crc (c # cs) = commit_bytes p crc c @ commits_bytes (next_tag (fst (snd c))) 0xffffffff cs"

definition wf_entry :: "log_entry \<Rightarrow> bool" where
  "wf_entry e \<longleftrightarrow> lfs_tag_isvalid (fst e) \<and> lfs_tag_type2 (fst e) \<noteq> LFS_TYPE_CCRC
    \<and> length (snd e) = unat (lfs_tag_dsize (fst e)) - 4
    \<and> (lfs_tag_type1 (fst e) = LFS_TYPE_TAIL \<or> lfs_tag_type3 (fst e) = LFS_TYPE_FCRC \<longrightarrow> 8 \<le> length (snd e))"

definition wf_commit :: "log_commit \<Rightarrow> bool" where
  "wf_commit = (\<lambda>(es, ctag, pad). list_all wf_entry es \<and> lfs_tag_isvalid ctag \<and> lfs_tag_type2 ctag = LFS_TYPE_CCRC
    \<and> 8 \<le> unat (lfs_tag_dsize ctag) \<and> length pad = unat (lfs_tag_dsize ctag) - 8)"

text \<open>What is left where the next commit would start: entries without a closing checksum that fits.\<close>

definition no_entry :: "u32 \<Rightarrow> u32 \<Rightarrow> bytes \<Rightarrow> bytes \<Rightarrow> bool" where
  "no_entry p crc body r \<longleftrightarrow> length r < 4 \<or>
    (let tag = u32_from_be (take 4 r) XOR p in
      \<not> lfs_tag_isvalid tag \<or> length r < unat (lfs_tag_dsize tag)
      \<or> lfs_tag_type2 tag = LFS_TYPE_CCRC \<and> (8 \<le> length r \<longrightarrow> u32_from_le (take 4 (drop 4 r)) \<noteq> lfs_crc crc (body @ take 4 r)))"

definition torn :: "u32 \<Rightarrow> u32 \<Rightarrow> bytes \<Rightarrow> bool" where
  "torn p crc r \<longleftrightarrow> (\<exists>es r'. list_all wf_entry es \<and> r = entries_bytes p es @ r'
    \<and> no_entry (last_tag p es) crc (entries_bytes p es) r')"

subsection \<open>What the entries say\<close>

type_synonym summary = "u16 \<times> pair \<times> bool"

definition note_entry :: "log_entry \<Rightarrow> summary \<Rightarrow> summary" where
  "note_entry e = (\<lambda>(n, tl, sp).
    if lfs_tag_type1 (fst e) = LFS_TYPE_NAME then (if n \<le> lfs_tag_id (fst e) then lfs_tag_id (fst e) + 1 else n, tl, sp)
    else if lfs_tag_type1 (fst e) = LFS_TYPE_SPLICE then (n + word_of_int (lfs_tag_splice (fst e)), tl, sp)
    else if lfs_tag_type1 (fst e) = LFS_TYPE_TAIL then (n, pair_from_le (snd e), lfs_tag_chunk (fst e) AND 1 \<noteq> 0)
    else (n, tl, sp))"

definition log_summary :: "log_commit list \<Rightarrow> summary" where
  "log_summary cs = fold note_entry (concat (map fst cs)) (0, (LFS_BLOCK_NULL, LFS_BLOCK_NULL), False)"

text \<open>A block: the revision count, the complete commits, the rest.\<close>

primrec end_tag :: "u32 \<Rightarrow> log_commit list \<Rightarrow> u32" where
  "end_tag p [] = p"
| "end_tag p (c # cs) = end_tag (next_tag (fst (snd c))) cs"

definition block_log :: "bytes \<Rightarrow> u32 \<Rightarrow> log_commit list \<Rightarrow> bytes \<Rightarrow> bool" where
  "block_log bs rv cs r \<longleftrightarrow>
    (let crc = lfs_crc 0xffffffff (u32_to_le rv)
     in bs = u32_to_le rv @ commits_bytes 0xffffffff crc cs @ r \<and> list_all wf_commit cs
       \<and> torn (end_tag 0xffffffff cs) (if cs = [] then crc else 0xffffffff) r)"

lemma length_entry: "wf_entry e \<Longrightarrow> length (entry_bytes p (fst e) (snd e)) = unat (lfs_tag_dsize (fst e))"
  using unat_4_dsize [of "fst e"] by (simp add: entry_bytes_def wf_entry_def)

subsection \<open>Runs that only read\<close>

definition reads_to ::
  "('d lfs \<Rightarrow> bool) \<Rightarrow> ('d, 'a) fs \<Rightarrow> (nat \<Rightarrow> lfs_node option) \<Rightarrow> 'a outcome \<Rightarrow> (nat \<Rightarrow> lfs_node option) \<Rightarrow> bool" where
  "reads_to I c N r N' \<longleftrightarrow> (\<forall>s. I s \<longrightarrow> l_nodes s = N \<longrightarrow> (\<exists>t. c s = Some (r, t) \<and> I t \<and> l_nodes t = N'))"

lemma rt_bnd: "reads_to I c N (Val x) N' \<Longrightarrow> reads_to I (k x) N' r N'' \<Longrightarrow> reads_to I (bnd c k) N r N''"
  unfolding reads_to_def bnd_def by fastforce

lemma rt_ret: "reads_to I (ret x) N (Val x) N"
  by (simp add: reads_to_def ret_def)

lemma rt_gets: "(\<And>s. I s \<Longrightarrow> l_nodes s = N \<Longrightarrow> f s = x) \<Longrightarrow> reads_to I (gets f) N (Val x) N"
  by (simp add: reads_to_def gets_def)

lemma rt_attempt_Val: "reads_to I c N (Val x) N' \<Longrightarrow> reads_to I (attempt c) N (Val (Inr x)) N'"
  unfolding reads_to_def attempt_def by fastforce

lemma rt_attempt_Exc: "reads_to I c N (Exc e) N' \<Longrightarrow> reads_to I (attempt c) N (Val (Inl e)) N'"
  unfolding reads_to_def attempt_def by fastforce

lemma rt_or_corrupt:
  "reads_to I c N (Val x) N' \<Longrightarrow> reads_to I (k x) N' r N'' \<Longrightarrow> reads_to I (or_corrupt c b k) N r N''"
  unfolding or_corrupt_def by (rule rt_bnd [OF rt_attempt_Val]) simp_all

lemma rt_or_corrupt_break:
  "reads_to I c N (Exc Corrupt) N' \<Longrightarrow> reads_to I b N' r N'' \<Longrightarrow> reads_to I (or_corrupt c b k) N r N''"
  unfolding or_corrupt_def by (rule rt_bnd [OF rt_attempt_Exc]) auto

lemma rt_mloop_Inl:
  "reads_to I (body x) N (Val (Inl y)) N' \<Longrightarrow> reads_to I (mloop body y) N' r N'' \<Longrightarrow> reads_to I (mloop body x) N r N''"
  unfolding reads_to_def by (subst mloop_unfold) fastforce

lemma rt_mloop_Inr: "reads_to I (body x) N (Val (Inr z)) N' \<Longrightarrow> reads_to I (mloop body x) N (Val z) N'"
  unfolding reads_to_def by (subst mloop_unfold) fastforce

subsection \<open>One entry\<close>

definition take_note :: "log_entry \<Rightarrow> fetch_loop \<Rightarrow> fetch_loop" where
  "take_note e l =
    (if lfs_tag_type1 (fst e) = LFS_TYPE_NAME then fetch_note_name (fst e) l
     else if lfs_tag_type1 (fst e) = LFS_TYPE_SPLICE then fetch_note_splice (fst e) l
     else if lfs_tag_type1 (fst e) = LFS_TYPE_TAIL
     then l\<lparr>fl_tempsplit := (lfs_tag_chunk (fst e) AND 1 \<noteq> 0), fl_temptail := pair_from_le (snd e)\<rparr>
     else if lfs_tag_type3 (fst e) = LFS_TYPE_FCRC
     then l\<lparr>fl_fcrc := lfs_fcrc_fromle32 (snd e), fl_hasfcrc := True\<rparr>
     else l)"

lemma eight_bytes: "pair_from_le (take 8 bs) = pair_from_le bs" "lfs_fcrc_fromle32 (take 8 bs) = lfs_fcrc_fromle32 bs"
  by (simp_all add: pair_from_le_def lfs_fcrc_fromle32_def drop_take)

lemma valid_tag_and: "lfs_tag_isvalid tag \<Longrightarrow> tag AND 0x7fffffff = tag"
proof (rule bit_word_eqI)
  fix i assume v: "lfs_tag_isvalid tag" and i: "i < LENGTH(32)"
  have m: "(0x7fffffff :: u32) = mask 31" by (simp add: mask_eq_exp_minus_1)
  have "i < 31 \<or> i = 31" using i by auto
  then show "bit (tag AND 0x7fffffff) i = bit tag i"
    using v unfolding m by (auto simp: bit_simps lfs_tag_isvalid_bit)
qed

lemma never_matches: "lfs_tag_isvalid tag \<Longrightarrow> 0xffffffff AND tag \<noteq> 0xffffffff AND (0xffffffff :: u32)"
proof
  assume v: "lfs_tag_isvalid tag" and "0xffffffff AND tag = 0xffffffff AND (0xffffffff :: u32)"
  then have "bit (0xffffffff AND tag) 31 = bit (0xffffffff AND 0xffffffff :: u32) 31" by simp
  with v show False by (simp add: bit_simps lfs_tag_isvalid_bit)
qed

text \<open>The next tag, read where the log has got to.\<close>

definition at_tag :: "nat \<Rightarrow> fetch_loop \<Rightarrow> bool" where
  "at_tag q l \<longleftrightarrow> unat (fl_off l) + unat (lfs_tag_dsize (fl_ptag l)) = q"

definition load_tag :: "nat \<Rightarrow> u32 \<Rightarrow> fetch_loop \<Rightarrow> fetch_loop" where
  "load_tag q tag l = l\<lparr>fl_off := word_of_nat q, fl_crc := lfs_crc (fl_crc l) (u32_to_be (tag XOR fl_ptag l)), fl_ptag := tag\<rparr>"

text \<open>How far a scan has come: where the next tag is, what it is chained to, the checksum so far, and what the entries said.\<close>

definition log_at :: "nat \<Rightarrow> u32 \<Rightarrow> u32 \<Rightarrow> summary \<Rightarrow> fetch_loop \<Rightarrow> bool" where
  "log_at q p crc sm l \<longleftrightarrow> at_tag q l \<and> fl_ptag l = p \<and> fl_crc l = crc
    \<and> (fl_tempcount l, fl_temptail l, fl_tempsplit l) = sm \<and> fl_tempbesttag l = - 1 \<and> fl_besttag l = - 1"

lemma take_note_same [simp]:
  "fl_off (take_note e l) = fl_off l" "fl_ptag (take_note e l) = fl_ptag l" "fl_crc (take_note e l) = fl_crc l"
  "fl_besttag (take_note e l) = fl_besttag l"
  by (simp_all add: take_note_def fetch_note_name_def fetch_note_splice_def Let_def)

lemma take_note_best: "fl_tempbesttag l = - 1 \<Longrightarrow> fl_tempbesttag (take_note e l) = - 1"
  by (simp add: take_note_def fetch_note_name_def fetch_note_splice_def Let_def)

lemma take_note_summary:
  "(fl_tempcount (take_note e l), fl_temptail (take_note e l), fl_tempsplit (take_note e l))
    = note_entry e (fl_tempcount l, fl_temptail l, fl_tempsplit l)"
  by (simp add: take_note_def note_entry_def fetch_note_name_def fetch_note_splice_def Let_def)

lemma log_at_entry:
  assumes "log_at q p crc sm l" "q < 2 ^ 30"
  shows "log_at (q + unat (lfs_tag_dsize (fst e))) (fst e) crc' (note_entry e sm)
    (take_note e ((load_tag q (fst e) l)\<lparr>fl_crc := crc'\<rparr>))"
  using assms unfolding log_at_def
  by (simp add: at_tag_def load_tag_def take_note_best take_note_summary unat_of_nat)

text \<open>What a complete commit makes of the directory.\<close>

definition committed :: "nat \<Rightarrow> u32 \<Rightarrow> summary \<Rightarrow> lfs_mdir \<Rightarrow> lfs_mdir" where
  "committed q p = (\<lambda>(n, tl, sp) m. m\<lparr>md_off := word_of_nat q, md_etag := p, md_count := n, md_tail := tl, md_split := sp\<rparr>)"

lemma committed_committed [simp]: "committed q p sm (committed q' p' sm' m) = committed q p sm m"
  by (cases sm, cases sm') (simp add: committed_def)

lemma committed_pair [simp]: "md_pair (committed q p sm m) = md_pair m"
  by (cases sm) (simp add: committed_def)

definition log_mdir :: "u32 \<Rightarrow> log_commit list \<Rightarrow> lfs_mdir \<Rightarrow> lfs_mdir" where
  "log_mdir rv cs m = committed (4 + length (commits_bytes 0xffffffff (lfs_crc 0xffffffff (u32_to_le rv)) cs))
    (end_tag 0xffffffff cs) (log_summary cs) m"

text \<open>Which block of a pair a fetch takes: the one with the later revision that has a complete commit.\<close>

definition newer_log :: "pair \<Rightarrow> u32 \<times> log_commit list \<Rightarrow> u32 \<times> log_commit list \<Rightarrow> pair \<times> u32 \<times> log_commit list" where
  "newer_log pr x y = (if snd x \<noteq> [] then (pr, x) else (lfs_pair_swap pr, y))"

definition fetched_log :: "pair \<Rightarrow> u32 \<times> log_commit list \<Rightarrow> u32 \<times> log_commit list \<Rightarrow> pair \<times> u32 \<times> log_commit list" where
  "fetched_log pr x y =
    (if lfs_scmp (fst y) (fst x) > 0 then newer_log (lfs_pair_swap pr) y x else newer_log pr x y)"

text \<open>What a directory fetched from the log of a block says.\<close>

definition mdir_holds :: "pair \<Rightarrow> u32 \<Rightarrow> log_commit list \<Rightarrow> lfs_mdir \<Rightarrow> bool" where
  "mdir_holds p rv cs m \<longleftrightarrow> md_pair m = p \<and> md_rev m = rv
    \<and> unat (md_off m) = 4 + length (commits_bytes 0xffffffff (lfs_crc 0xffffffff (u32_to_le rv)) cs)
    \<and> md_etag m = end_tag 0xffffffff cs \<and> (md_count m, md_tail m, md_split m) = log_summary cs"

lemma block_log_start: "block_log bs rv cs r \<Longrightarrow> take 4 bs = u32_to_le rv"
  by (auto simp: block_log_def Let_def)

lemma block_log_length: "block_log bs rv cs r \<Longrightarrow> 4 + length (commits_bytes 0xffffffff (lfs_crc 0xffffffff (u32_to_le rv)) cs) \<le> length bs"
  by (auto simp: block_log_def Let_def)

lemma log_mdir_holds:
  assumes "md_pair m = p" "md_rev m = rv" "4 + length (commits_bytes 0xffffffff (lfs_crc 0xffffffff (u32_to_le rv)) cs) < 2 ^ 32"
  shows "mdir_holds p rv cs ((log_mdir rv cs m)\<lparr>md_erased := e\<rparr>)"
proof -
  have "unat (word_of_nat (4 + length (commits_bytes 0xffffffff (lfs_crc 0xffffffff (u32_to_le rv)) cs)) :: u32)
      = 4 + length (commits_bytes 0xffffffff (lfs_crc 0xffffffff (u32_to_le rv)) cs)"
    using assms(3) by (simp add: unat_of_nat del: of_nat_add)
  then show ?thesis
    using assms(1,2) by (cases "log_summary cs") (simp add: mdir_holds_def log_mdir_def committed_def del: of_nat_add)
qed

context block_device
begin

abbreviation rds where "rds cfg d a g \<equiv> \<lambda>s. rd cfg d a s \<and> l_gdisk s = g"

lemma rt_bd_read:
  assumes "off + length buf \<le> bsz" "unat block < bcount" "buf \<noteq> []" "0 < hint" "hint \<le> 2 ^ 31"
  shows "reads_to (rds cfg d a g) (lfs_bd_read None RCache hint block off buf) N (Val (take (length buf) (drop off (blk d block)))) N"
  unfolding reads_to_def
proof (intro allI impI)
  fix s assume s: "rds cfg d a g s" "l_nodes s = N"
  obtain t where "lfs_bd_read_buf None RCache hint block off buf s = Some (Val
      (if off + length buf \<le> bsz \<and> unat block < bcount then (Inr (), take (length buf) (drop off (blk d block)))
       else (Inl Corrupt, buf)), t)" "rd cfg d a t" "l_nodes t = l_nodes s" "l_gdisk t = l_gdisk s"
    by (rule bd_read_buf_outcome [of cfg d a s off buf hint block]) (use s assms in auto)
  then show "\<exists>t. lfs_bd_read None RCache hint block off buf s = Some (Val (take (length buf) (drop off (blk d block))), t)
      \<and> rds cfg d a g t \<and> l_nodes t = N"
    using s assms(1,2) by (auto simp: lfs_bd_read_def bnd_def ret_def)
qed

lemma rt_bd_read_beyond:
  assumes "\<not> off + length buf \<le> bsz"
  shows "reads_to (rds cfg d a g) (lfs_bd_read None RCache hint block off buf) N (Exc Corrupt) N"
  unfolding reads_to_def
proof (intro allI impI)
  fix s assume s: "rds cfg d a g s" "l_nodes s = N"
  obtain t where "lfs_bd_read_buf None RCache hint block off buf s = Some (Val
      (if off + length buf \<le> bsz \<and> unat block < bcount then (Inr (), take (length buf) (drop off (blk d block)))
       else (Inl Corrupt, buf)), t)" "rd cfg d a t" "l_nodes t = l_nodes s" "l_gdisk t = l_gdisk s"
    by (rule bd_read_buf_outcome [of cfg d a s off buf hint block]) (use s assms in auto)
  then show "\<exists>t. lfs_bd_read None RCache hint block off buf s = Some (Exc Corrupt, t) \<and> rds cfg d a g t \<and> l_nodes t = N"
    using s assms by (auto simp: lfs_bd_read_def bnd_def throw_def)
qed

lemma rt_bd_crc:
  assumes "off + sz \<le> bsz" "unat block < bcount" "sz \<le> unat hint" "bsz \<le> 2 ^ 31" "unat hint \<le> 2 ^ 31"
  shows "reads_to (rds cfg d a g) (lfs_bd_crc None RCache hint block off sz crc) N (Val (lfs_crc crc (take sz (drop off (blk d block))))) N"
  unfolding reads_to_def
proof (intro allI impI)
  fix s assume s: "rds cfg d a g s" "l_nodes s = N"
  have v: "view None s block = blk d block"
    using s by (simp add: view_of_def overlay_def pcached_def rd_state_def)
  obtain t where "lfs_bd_crc_buf None RCache hint block off sz crc s =
      Some (Val (Inr (), lfs_crc crc (take sz (drop off (view None s block)))), t)" "reloaded RCache s t"
    by (rule bd_crc_correct [OF rd_read_ready, of cfg d a s block sz hint off crc]) (use s assms in auto)
  then show "\<exists>t. lfs_bd_crc None RCache hint block off sz crc s = Some (Val (lfs_crc crc (take sz (drop off (blk d block)))), t)
      \<and> rds cfg d a g t \<and> l_nodes t = N"
    using s v rd_reloaded [of cfg d a s t] reloaded_nodes [of s t] by (auto simp: lfs_bd_crc_def bnd_def ret_def)
qed

lemma rt_cfg: "reads_to (rds cfg d a g) (k cfg) N r N' \<Longrightarrow> reads_to (rds cfg d a g) (bnd (gets l_cfg) k) N r N'"
  by (rule rt_bnd [OF rt_gets [where x = cfg]]) (auto simp: rd_state_def)

lemma rt_get_mdir: "N a = Some n \<Longrightarrow> reads_to (rds cfg d a g) (k (nd_m n)) N r N' \<Longrightarrow> reads_to (rds cfg d a g) (bnd (get_mdir a) k) N r N'"
  by (rule rt_bnd) (auto simp: reads_to_def get_mdir_run)

lemma rt_upd_mdir: "N a = Some n \<Longrightarrow> reads_to (rds cfg d a g) (upd_mdir a f) N (Val ()) (N(a \<mapsto> n\<lparr>nd_m := f (nd_m n)\<rparr>))"
  by (auto simp: reads_to_def upd_mdir_run rd_state_def attached_to_def)

lemma rt_seed: "reads_to (rds cfg d a g) (modify (\<lambda>s. s\<lparr>l_seed := f s\<rparr>)) N (Val ()) N"
  by (auto simp: reads_to_def modify_def rd_state_def attached_to_def)

lemma rt_fetch_tag:
  assumes cfg: "unat (cfg_block_size cfg) = bsz" "bsz < 2 ^ 30" and N: "N a = Some n" and b: "unat (fst (md_pair (nd_m n))) < bcount"
    and e: "wf_entry e" and off: "unat (fl_off l) + unat (lfs_tag_dsize (fst e)) \<le> bsz"
    and data: "take (length (snd e)) (drop (unat (fl_off l) + 4) (blk d (fst (md_pair (nd_m n))))) = snd e"
  shows "reads_to (rds cfg d a g) (fetch_tag a 0xffffffff 0xffffffff None (fst e) l) N
    (Val (Inl (take_note e (l\<lparr>fl_crc := lfs_crc (fl_crc l) (snd e)\<rparr>)))) N"
proof -
  let ?b = "fst (md_pair (nd_m n))"
  have o4: "unat (fl_off l + 4) = unat (fl_off l) + 4"
    using off unat_4_dsize(2) [of "fst e"] cfg by (simp add: unat_word_ariths)
  have sz: "unat (lfs_tag_dsize (fst e) - 4) = length (snd e)"
    using e unat_4_dsize(2) [of "fst e"] by (subst unat_sub) (auto simp: wf_entry_def word_le_nat_alt)
  have fits: "unat (fl_off l) + 4 + length (snd e) \<le> bsz"
    using off e unat_4_dsize(2) [of "fst e"] by (simp add: wf_entry_def)
  have valid: "lfs_tag_isvalid (fst e)" using e by (simp add: wf_entry_def)
  have crc: "reads_to (rds cfg d a g) (lfs_bd_crc None RCache (cfg_block_size cfg) ?b (unat (fl_off l + 4))
      (unat (lfs_tag_dsize (fst e) - 4)) (fl_crc l)) N (Val (lfs_crc (fl_crc l) (snd e))) N"
    using rt_bd_crc [of "unat (fl_off l + 4)" "length (snd e)" ?b "cfg_block_size cfg" cfg d a g "fl_crc l" N] fits cfg b data
    by (simp add: o4 sz)
  have read: "reads_to (rds cfg d a g) (lfs_bd_read None RCache (unat (cfg_block_size cfg)) ?b (unat (fl_off l + 4)) (replicate 8 0)) N
      (Val (take 8 (snd e))) N" if "8 \<le> length (snd e)"
  proof -
    have "take 8 (drop (unat (fl_off l) + 4) (blk d ?b)) = take 8 (snd e)"
      using that by (subst data [symmetric]) (simp add: min_def)
    then show ?thesis
      using rt_bd_read [of "unat (fl_off l + 4)" "replicate 8 0" ?b "unat (cfg_block_size cfg)" cfg d a g N] fits cfg b that
      by (simp add: o4)
  qed
  have ccc: "(0xffffffff AND fst e = 0xffffffff AND (0xffffffff :: u32)) = False"
    using never_matches [OF valid] by simp
  show ?thesis
    unfolding fetch_tag_def Let_def ccc if_False
  proof (rule rt_cfg, rule rt_get_mdir, rule N, rule rt_or_corrupt, rule crc)
    let ?l = "l\<lparr>fl_crc := lfs_crc (fl_crc l) (snd e)\<rparr>"
    let ?tail = "?l\<lparr>fl_tempsplit := (lfs_tag_chunk (fst e) AND 1 \<noteq> 0)\<rparr>"
    show "reads_to (rds cfg d a g)
        (if lfs_tag_type1 (fst e) = LFS_TYPE_NAME then ret (Inl (fetch_note_name (fst e) ?l))
         else if lfs_tag_type1 (fst e) = LFS_TYPE_SPLICE then ret (Inl (fetch_note_splice (fst e) ?l))
         else if lfs_tag_type1 (fst e) = LFS_TYPE_TAIL then
           or_corrupt (lfs_bd_read None RCache (unat (cfg_block_size cfg)) ?b (unat (fl_off l + 4)) (replicate 8 0))
             (ret (Inr ?tail)) (\<lambda>bs. ret (Inl (?tail\<lparr>fl_temptail := pair_from_le bs\<rparr>)))
         else if lfs_tag_type3 (fst e) = LFS_TYPE_FCRC then
           or_corrupt (lfs_bd_read None RCache (unat (cfg_block_size cfg)) ?b (unat (fl_off l + 4)) (replicate 8 0))
             (ret (Inr ?l)) (\<lambda>bs. ret (Inl (?l\<lparr>fl_fcrc := lfs_fcrc_fromle32 bs, fl_hasfcrc := True\<rparr>)))
         else ret (Inl ?l)) N (Val (Inl (take_note e ?l))) N"
    proof -
      have "8 \<le> length (snd e)" if "lfs_tag_type1 (fst e) = LFS_TYPE_TAIL \<or> lfs_tag_type3 (fst e) = LFS_TYPE_FCRC"
        using e that by (simp add: wf_entry_def)
      note read = read [OF this]
      show ?thesis
        unfolding take_note_def
        by (auto intro!: rt_ret rt_or_corrupt read simp: eight_bytes)
    qed
  qed
qed

lemma rt_fetch_body_gen:
  assumes cfg: "unat (cfg_block_size cfg) = bsz" "bsz < 2 ^ 30" and N: "N a = Some n" and b: "unat (fst (md_pair (nd_m n))) < bcount"
    and q: "at_tag q l" "q + 4 \<le> bsz" and tb: "take 4 (drop q (blk d (fst (md_pair (nd_m n))))) = tb"
    and l1: "l1 = l\<lparr>fl_off := word_of_nat q, fl_crc := lfs_crc (fl_crc l) tb\<rparr>" and tag: "u32_from_be tb XOR fl_ptag l = tag"
    and rest: "reads_to (rds cfg d a g) (if \<not> lfs_tag_isvalid tag then ret (Inr (l1\<lparr>fl_maybeerased := (lfs_tag_type2 (fl_ptag l) = LFS_TYPE_CCRC)\<rparr>))
      else if word_of_nat q + lfs_tag_dsize tag > cfg_block_size cfg then ret (Inr l1)
      else if lfs_tag_type2 tag = LFS_TYPE_CCRC then fetch_commit_crc a tag (l1\<lparr>fl_ptag := tag\<rparr>)
      else fetch_tag a fmask ftag cb tag (l1\<lparr>fl_ptag := tag\<rparr>)) N r N'"
  shows "reads_to (rds cfg d a g) (fetch_body a fmask ftag cb l) N r N'"
proof -
  let ?o = "fl_off l + lfs_tag_dsize (fl_ptag l)"
  have "q < 2 ^ 30" using q(2) cfg by linarith
  then have uo: "unat ?o = q" using q(1) by (simp add: at_tag_def unat_word_ariths)
  then have o: "?o = word_of_nat q" using \<open>q < 2 ^ 30\<close> by (simp add: word_unat_eq_iff unat_of_nat)
  have read: "reads_to (rds cfg d a g) (lfs_bd_read None RCache (unat (cfg_block_size cfg)) (fst (md_pair (nd_m n))) q (replicate 4 0)) N
      (Val tb) N"
    using rt_bd_read [of q "replicate 4 0" "fst (md_pair (nd_m n))" "unat (cfg_block_size cfg)" cfg d a g N] cfg b q(2) tb by simp
  have off: "unat (fl_off (l\<lparr>fl_off := ?o\<rparr>)) = q" using uo by simp
  show ?thesis unfolding fetch_body_def Let_def off
    by (rule rt_cfg, rule rt_get_mdir, rule N, rule rt_or_corrupt, rule read)
      (use rest tag in \<open>simp add: l1 o split: if_splits\<close>)
qed

text \<open>Where the block ends, so does the scan.\<close>

lemma rt_fetch_body_end:
  assumes cfg: "unat (cfg_block_size cfg) = bsz" "bsz < 2 ^ 30" and N: "N a = Some n"
    and q: "at_tag q l" "q \<le> bsz" "bsz < q + 4"
  shows "reads_to (rds cfg d a g) (fetch_body a fmask ftag cb l) N (Val (Inr (l\<lparr>fl_off := word_of_nat q\<rparr>))) N"
proof -
  let ?o = "fl_off l + lfs_tag_dsize (fl_ptag l)"
  have "q < 2 ^ 30" using q(2) cfg by linarith
  then have uo: "unat ?o = q" using q(1) by (simp add: at_tag_def unat_word_ariths)
  then have o: "?o = word_of_nat q" using \<open>q < 2 ^ 30\<close> by (simp add: word_unat_eq_iff unat_of_nat)
  have off: "unat (fl_off (l\<lparr>fl_off := ?o\<rparr>)) = q" using uo by simp
  show ?thesis unfolding fetch_body_def Let_def off
    by (rule rt_cfg, rule rt_get_mdir, rule N, rule rt_or_corrupt_break, rule rt_bd_read_beyond)
      (use q in \<open>simp_all add: o rt_ret\<close>)
qed

lemma fits_word:
  fixes q :: nat and tag :: u32
  assumes "unat bs = bsz" "bsz < 2 ^ 30" "q \<le> bsz"
  shows "bs < word_of_nat q + lfs_tag_dsize tag \<longleftrightarrow> bsz < q + unat (lfs_tag_dsize tag)" "unat (word_of_nat q :: u32) = q"
proof -
  show u: "unat (word_of_nat q :: u32) = q" using assms by (simp add: unat_of_nat)
  have "unat (word_of_nat q + lfs_tag_dsize tag) = q + unat (lfs_tag_dsize tag)"
    using assms lfs_tag_dsize_bounds [of tag] by (subst unat_word_ariths(1)) (simp only: u, simp)
  then show "bs < word_of_nat q + lfs_tag_dsize tag \<longleftrightarrow> bsz < q + unat (lfs_tag_dsize tag)"
    using assms by (simp add: word_less_nat_alt)
qed

lemma rt_fetch_body:
  assumes cfg: "unat (cfg_block_size cfg) = bsz" "bsz < 2 ^ 30" and N: "N a = Some n" and b: "unat (fst (md_pair (nd_m n))) < bcount"
    and q: "at_tag q l" "q + unat (lfs_tag_dsize tag) \<le> bsz" and valid: "lfs_tag_isvalid tag"
    and here: "take 4 (drop q (blk d (fst (md_pair (nd_m n))))) = u32_to_be (tag XOR fl_ptag l)"
    and rest: "reads_to (rds cfg d a g) (if lfs_tag_type2 tag = LFS_TYPE_CCRC then fetch_commit_crc a tag (load_tag q tag l)
        else fetch_tag a fmask ftag cb tag (load_tag q tag l)) N r N'"
  shows "reads_to (rds cfg d a g) (fetch_body a fmask ftag cb l) N r N'"
proof (rule rt_fetch_body_gen [where N = N and n = n and d = d and tag = tag, OF cfg N b q(1) _ here refl])
  show "q + 4 \<le> bsz" using q(2) unat_4_dsize(2) [of tag] by linarith
  show "u32_from_be (u32_to_be (tag XOR fl_ptag l)) XOR fl_ptag l = tag"
    by (simp add: byte_simps xor.assoc)
qed (use rest [unfolded load_tag_def] valid fits_word(1) [OF cfg, of q tag] q(2) in \<open>simp split: if_splits\<close>)

text \<open>An entry of the log.\<close>

lemma rt_entry:
  assumes cfg: "unat (cfg_block_size cfg) = bsz" "bsz < 2 ^ 30" and N: "N a = Some n" and b: "unat (fst (md_pair (nd_m n))) < bcount"
    and e: "wf_entry e" and q: "at_tag q l" and B: "length (blk d (fst (md_pair (nd_m n)))) = bsz"
    and here: "drop q (blk d (fst (md_pair (nd_m n)))) = entry_bytes (fl_ptag l) (fst e) (snd e) @ r" and "q \<le> bsz"
  shows "reads_to (rds cfg d a g) (fetch_body a 0xffffffff 0xffffffff None l) N
    (Val (Inl (take_note e ((load_tag q (fst e) l)\<lparr>fl_crc := lfs_crc (fl_crc l) (entry_bytes (fl_ptag l) (fst e) (snd e))\<rparr>)))) N"
proof -
  let ?B = "blk d (fst (md_pair (nd_m n)))"
  have valid: "lfs_tag_isvalid (fst e)" and nc: "lfs_tag_type2 (fst e) \<noteq> LFS_TYPE_CCRC" using e by (auto simp: wf_entry_def)
  have ve: "fst e AND 0x7fffffff = fst e" by (rule valid_tag_and [OF valid])
  have eb: "entry_bytes (fl_ptag l) (fst e) (snd e) = u32_to_be (fst e XOR fl_ptag l) @ snd e" by (simp add: entry_bytes_def ve)
  have len: "q + unat (lfs_tag_dsize (fst e)) \<le> bsz"
    using arg_cong [OF here, of length] B length_entry [OF e] \<open>q \<le> bsz\<close> by simp
  have "take 4 (drop q ?B) = u32_to_be (fst e XOR fl_ptag l)" by (simp add: here eb)
  moreover have data: "take (length (snd e)) (drop (q + 4) ?B) = snd e"
    using arg_cong [OF here, of "\<lambda>x. take (length (snd e)) (drop 4 x)"] by (simp add: eb add.commute)
  moreover have "unat (word_of_nat q :: u32) = q" using len cfg unat_4_dsize(2) [of "fst e"] by (simp add: unat_of_nat)
  ultimately show ?thesis
    using rt_fetch_tag [where cfg = cfg and N = N and a = a and n = n and e = e and l = "load_tag q (fst e) l" and d = d and g = g, OF cfg N b e] len nc
    by (intro rt_fetch_body [where cfg = cfg and N = N and a = a and n = n, OF cfg N b q len valid]) (simp_all add: load_tag_def eb lfs_crc_append)
qed

text \<open>The entries of a commit, one after the other.\<close>

lemma rt_entries:
  assumes cfg: "unat (cfg_block_size cfg) = bsz" "bsz < 2 ^ 30" and N: "N a = Some n" and b: "unat (fst (md_pair (nd_m n))) < bcount"
    and B: "length (blk d (fst (md_pair (nd_m n)))) = bsz"
    and es: "list_all wf_entry es" "log_at q p crc sm l" "q \<le> bsz" "drop q (blk d (fst (md_pair (nd_m n)))) = entries_bytes p es @ r"
  shows "\<exists>l'. log_at (q + length (entries_bytes p es)) (last_tag p es) (lfs_crc crc (entries_bytes p es)) (fold note_entry es sm) l'
    \<and> (\<forall>x N'. reads_to (rds cfg d a g) (mloop (fetch_body a 0xffffffff 0xffffffff None) l') N x N' \<longrightarrow>
        reads_to (rds cfg d a g) (mloop (fetch_body a 0xffffffff 0xffffffff None) l) N x N')"
  using es
proof (induction es arbitrary: q p crc sm l)
  case Nil
  then show ?case by (intro exI [of _ l]) simp
next
  case (Cons e es)
  let ?B = "blk d (fst (md_pair (nd_m n)))"
  let ?eb = "entry_bytes p (fst e) (snd e)"
  let ?l = "take_note e ((load_tag q (fst e) l)\<lparr>fl_crc := lfs_crc crc ?eb\<rparr>)"
  have e: "wf_entry e" using Cons.prems(1) by simp
  have le: "length ?eb = unat (lfs_tag_dsize (fst e))" by (rule length_entry [OF e])
  have here: "drop q ?B = ?eb @ (entries_bytes (fst e) es @ r)" using Cons.prems(4) by simp
  have at: "at_tag q l" "fl_ptag l = p" "fl_crc l = crc" using Cons.prems(2) by (auto simp: log_at_def)
  have len: "q + length ?eb \<le> bsz" using arg_cong [OF here, of length] B Cons.prems(3) by simp
  have there: "drop (q + length ?eb) ?B = entries_bytes (fst e) es @ r"
    using arg_cong [OF here, of "drop (length ?eb)"] by (simp add: add.commute)
  have la: "log_at (q + length ?eb) (fst e) (lfs_crc crc ?eb) (note_entry e sm) ?l"
    unfolding le by (rule log_at_entry [OF Cons.prems(2)]) (use Cons.prems(3) cfg(2) in linarith)
  have step: "reads_to (rds cfg d a g) (fetch_body a 0xffffffff 0xffffffff None l) N (Val (Inl ?l)) N"
    using rt_entry [where n = n and q = q and l = l and e = e and d = d and g = g and N = N, OF cfg N b e at(1) B] here Cons.prems(3) at by simp
  from Cons.IH [OF _ la len there] Cons.prems(1)
  obtain l' where l': "log_at (q + length ?eb + length (entries_bytes (fst e) es)) (last_tag (fst e) es)
      (lfs_crc (lfs_crc crc ?eb) (entries_bytes (fst e) es)) (fold note_entry es (note_entry e sm)) l'"
    "\<forall>x N'. reads_to (rds cfg d a g) (mloop (fetch_body a 0xffffffff 0xffffffff None) l') N x N' \<longrightarrow>
        reads_to (rds cfg d a g) (mloop (fetch_body a 0xffffffff 0xffffffff None) ?l) N x N'"
    by auto
  from l' show ?case
    by (intro exI [of _ l']) (auto simp: lfs_crc_append add.assoc intro: rt_mloop_Inl [where body = "fetch_body a 0xffffffff 0xffffffff None", OF step])
qed

text \<open>A commit: its entries, and the checksum that closes it.\<close>

lemma rt_commit_crc:
  assumes cfg: "unat (cfg_block_size cfg) = bsz" "bsz < 2 ^ 30" and N: "N a = Some n" and b: "unat (fst (md_pair (nd_m n))) < bcount"
    and q: "q + 8 \<le> bsz" "fl_off l = word_of_nat q" and crc: "take 4 (drop (q + 4) (blk d (fst (md_pair (nd_m n))))) = u32_to_le (fl_crc l)"
    and p: "p = fl_ptag l XOR push_bit 31 (ucast (lfs_tag_chunk tag) AND 1)"
  shows "reads_to (rds cfg d a g) (fetch_commit_crc a tag l) N
    (Val (Inl (l\<lparr>fl_ptag := p, fl_besttag := fl_tempbesttag l, fl_crc := 0xffffffff\<rparr>)))
    (N(a \<mapsto> n\<lparr>nd_m := committed (q + unat (lfs_tag_dsize tag)) p (fl_tempcount l, fl_temptail l, fl_tempsplit l) (nd_m n)\<rparr>))"
proof -
  have o4: "unat (fl_off l + 4) = q + 4"
    using q cfg by (simp add: unat_word_ariths unat_of_nat)
  have read: "reads_to (rds cfg d a g) (lfs_bd_read None RCache (unat (cfg_block_size cfg)) (fst (md_pair (nd_m n))) (unat (fl_off l + 4)) (replicate 4 0)) N
      (Val (u32_to_le (fl_crc l))) N"
    unfolding o4
    using rt_bd_read [of "q + 4" "replicate 4 0" "fst (md_pair (nd_m n))" "unat (cfg_block_size cfg)" cfg d a g N] cfg b q(1) crc by simp
  have up: "reads_to (rds cfg d a g) (upd_mdir a (\<lambda>d. d\<lparr>md_off := fl_off l + lfs_tag_dsize tag, md_etag := p, md_count := fl_tempcount l,
           md_tail := fl_temptail l, md_split := fl_tempsplit l\<rparr>)) N (Val ())
     (N(a \<mapsto> n\<lparr>nd_m := committed (q + unat (lfs_tag_dsize tag)) p (fl_tempcount l, fl_temptail l, fl_tempsplit l) (nd_m n)\<rparr>))"
    using rt_upd_mdir [where N = N and a = a and n = n, OF N] by (simp add: committed_def q)
  have eq: "(fl_crc l \<noteq> u32_from_le (u32_to_le (fl_crc l))) = False" by (simp add: byte_simps)
  show ?thesis unfolding fetch_commit_crc_def Let_def p [symmetric]
    by (rule rt_cfg, rule rt_get_mdir, rule N, rule rt_or_corrupt, rule read, unfold eq if_False, rule rt_bnd, rule rt_seed,
        rule rt_bnd, rule up, rule rt_ret)
qed

lemma rt_commit:
  assumes cfg: "unat (cfg_block_size cfg) = bsz" "bsz < 2 ^ 30" and N: "N a = Some n" and b: "unat (fst (md_pair (nd_m n))) < bcount"
    and B: "length (blk d (fst (md_pair (nd_m n)))) = bsz"
    and c: "wf_commit c" "log_at q p crc sm l" "q \<le> bsz" "drop q (blk d (fst (md_pair (nd_m n)))) = commit_bytes p crc c @ r"
  defines "q' \<equiv> q + length (commit_bytes p crc c)" and "p' \<equiv> next_tag (fst (snd c))" and "sm' \<equiv> fold note_entry (fst c) sm"
  shows "\<exists>l'. log_at q' p' 0xffffffff sm' l'
    \<and> (\<forall>x N'. reads_to (rds cfg d a g) (mloop (fetch_body a 0xffffffff 0xffffffff None) l') (N(a \<mapsto> n\<lparr>nd_m := committed q' p' sm' (nd_m n)\<rparr>)) x N' \<longrightarrow>
        reads_to (rds cfg d a g) (mloop (fetch_body a 0xffffffff 0xffffffff None) l) N x N')"
proof -
  let ?B = "blk d (fst (md_pair (nd_m n)))" and ?body = "fetch_body a 0xffffffff 0xffffffff None"
  obtain es ctag pad where [simp]: "c = (es, ctag, pad)" by (cases c)
  let ?es = "entries_bytes p es" and ?lt = "last_tag p es"
  let ?tb = "u32_to_be (ctag XOR ?lt)"
  have es: "list_all wf_entry es" and ct: "lfs_tag_isvalid ctag" "lfs_tag_type2 ctag = LFS_TYPE_CCRC"
    and sz: "8 \<le> unat (lfs_tag_dsize ctag)" "length pad = unat (lfs_tag_dsize ctag) - 8"
    using c(1) by (auto simp: wf_commit_def)
  have here: "drop q ?B = ?es @ (?tb @ u32_to_le (lfs_crc crc (?es @ ?tb)) @ pad @ r)"
    using c(4) by (simp add: commit_bytes_def Let_def)
  obtain l1 where l1: "log_at (q + length ?es) ?lt (lfs_crc crc ?es) (fold note_entry es sm) l1"
    "\<forall>x N'. reads_to (rds cfg d a g) (mloop ?body l1) N x N' \<longrightarrow> reads_to (rds cfg d a g) (mloop ?body l) N x N'"
    using rt_entries [where N = N and n = n and d = d and g = g, OF cfg N b B es c(2,3) here] by blast
  have l1s: "at_tag (q + length ?es) l1" "fl_ptag l1 = ?lt" "fl_crc l1 = lfs_crc crc ?es" using l1(1) by (auto simp: log_at_def)
  have clen: "length (commit_bytes p crc c) = length ?es + unat (lfs_tag_dsize ctag)"
    using sz by (simp add: commit_bytes_def Let_def)
  have q1: "q + length ?es + unat (lfs_tag_dsize ctag) \<le> bsz"
    using arg_cong [OF c(4), of length] B c(3) clen by simp
  have here1: "drop (q + length ?es) ?B = ?tb @ u32_to_le (lfs_crc crc (?es @ ?tb)) @ pad @ r"
    using arg_cong [OF here, of "drop (length ?es)"] by (simp add: add.commute)
  have here2: "drop (q + length ?es + 4) ?B = u32_to_le (lfs_crc crc (?es @ ?tb)) @ pad @ r"
    using arg_cong [OF here1, of "drop 4"] by (simp add: add.commute)
  let ?l2 = "load_tag (q + length ?es) ctag l1"
  let ?l3 = "?l2\<lparr>fl_ptag := p', fl_besttag := fl_tempbesttag ?l2, fl_crc := 0xffffffff\<rparr>"
  have sm: "(fl_tempcount ?l2, fl_temptail ?l2, fl_tempsplit ?l2) = sm'" "fl_tempbesttag ?l2 = - 1"
    using l1(1) by (auto simp: log_at_def load_tag_def sm'_def)
  have step: "reads_to (rds cfg d a g) (?body l1) N (Val (Inl ?l3)) (N(a \<mapsto> n\<lparr>nd_m := committed q' p' sm' (nd_m n)\<rparr>))"
  proof (rule rt_fetch_body [where N = N and n = n and d = d, OF cfg N b l1s(1) q1 ct(1)])
    show "take 4 (drop (q + length ?es) ?B) = u32_to_be (ctag XOR fl_ptag l1)" by (simp add: here1 l1s(2))
    have "reads_to (rds cfg d a g) (fetch_commit_crc a ctag ?l2) N (Val (Inl ?l3)) (N(a \<mapsto> n\<lparr>nd_m := committed q' p' sm' (nd_m n)\<rparr>))"
      unfolding sm(1) [symmetric] q'_def clen add.assoc [symmetric]
      by (rule rt_commit_crc [where N = N and n = n and d = d, OF cfg N b])
        (use q1 sz in \<open>simp_all add: load_tag_def here2 l1s lfs_crc_append p'_def next_tag_def\<close>)
    then show "reads_to (rds cfg d a g) (if lfs_tag_type2 ctag = LFS_TYPE_CCRC then fetch_commit_crc a ctag ?l2
        else fetch_tag a 0xffffffff 0xffffffff None ctag ?l2) N (Val (Inl ?l3)) (N(a \<mapsto> n\<lparr>nd_m := committed q' p' sm' (nd_m n)\<rparr>))"
      using ct(2) by simp
  qed
  have "unat (word_of_nat (q + length ?es) :: u32) = q + length ?es"
    using fits_word(2) [OF cfg, of "q + length ?es"] q1 by simp
  moreover have "lfs_tag_dsize p' = lfs_tag_dsize ctag"
    by (simp add: p'_def next_tag_def dsize_flip_valid del: push_bit_and)
  ultimately have "at_tag q' ?l3"
    unfolding at_tag_def q'_def clen by (simp add: load_tag_def)
  then have "log_at q' p' 0xffffffff sm' ?l3" using sm by (simp add: log_at_def)
  moreover have "reads_to (rds cfg d a g) (mloop ?body l) N x N'"
    if "reads_to (rds cfg d a g) (mloop ?body ?l3) (N(a \<mapsto> n\<lparr>nd_m := committed q' p' sm' (nd_m n)\<rparr>)) x N'" for x N'
    using l1(2) rt_mloop_Inl [where body = ?body, OF step that] by blast
  ultimately show ?thesis by blast
qed

text \<open>All complete commits of a block.\<close>

lemma rt_commits:
  assumes cfg: "unat (cfg_block_size cfg) = bsz" "bsz < 2 ^ 30" and b: "unat (fst (md_pair (nd_m n))) < bcount"
    and B: "length (blk d (fst (md_pair (nd_m n)))) = bsz"
    and c: "N a = Some n" "list_all wf_commit cs" "log_at q p crc sm l" "q \<le> bsz"
      "drop q (blk d (fst (md_pair (nd_m n)))) = commits_bytes p crc cs @ r"
  shows "\<exists>l'. log_at (q + length (commits_bytes p crc cs)) (end_tag p cs) (if cs = [] then crc else 0xffffffff)
        (fold note_entry (concat (map fst cs)) sm) l'
    \<and> (\<forall>x N'. reads_to (rds cfg d a g) (mloop (fetch_body a 0xffffffff 0xffffffff None) l')
          (if cs = [] then N else N(a \<mapsto> n\<lparr>nd_m := committed (q + length (commits_bytes p crc cs)) (end_tag p cs)
            (fold note_entry (concat (map fst cs)) sm) (nd_m n)\<rparr>)) x N' \<longrightarrow>
        reads_to (rds cfg d a g) (mloop (fetch_body a 0xffffffff 0xffffffff None) l) N x N')"
  using b B c
proof (induction cs arbitrary: q p crc sm l N n)
  case Nil
  then show ?case by (intro exI [of _ l]) simp
next
  case (Cons c cs)
  let ?body = "fetch_body a 0xffffffff 0xffffffff None"
  let ?q = "q + length (commit_bytes p crc c)" and ?p = "next_tag (fst (snd c))" and ?sm = "fold note_entry (fst c) sm"
  let ?n = "n\<lparr>nd_m := committed ?q ?p ?sm (nd_m n)\<rparr>"
  have here: "drop q (blk d (fst (md_pair (nd_m n)))) = commit_bytes p crc c @ (commits_bytes ?p 0xffffffff cs @ r)"
    using Cons.prems(7) by simp
  have wf: "wf_commit c" "list_all wf_commit cs" using Cons.prems(4) by auto
  obtain l1 where l1: "log_at ?q ?p 0xffffffff ?sm l1"
    "\<forall>x N'. reads_to (rds cfg d a g) (mloop ?body l1) (N(a \<mapsto> ?n)) x N' \<longrightarrow> reads_to (rds cfg d a g) (mloop ?body l) N x N'"
    using rt_commit [where N = N and n = n and d = d and g = g and a = a and c = c, OF cfg Cons.prems(3,1,2) wf(1) Cons.prems(5,6) here] by blast
  have q: "?q \<le> bsz" using arg_cong [OF here, of length] Cons.prems(2,6) by simp
  have there: "drop ?q (blk d (fst (md_pair (nd_m ?n)))) = commits_bytes ?p 0xffffffff cs @ r"
    using arg_cong [OF here, of "drop (length (commit_bytes p crc c))"] by (simp add: add.commute)
  have same: "unat (fst (md_pair (nd_m ?n))) < bcount" "length (blk d (fst (md_pair (nd_m ?n)))) = bsz"
    using Cons.prems(1,2) by simp_all
  from Cons.IH [where n = ?n and N = "N(a \<mapsto> ?n)" and q = ?q and p = ?p and crc = "0xffffffff" and sm = ?sm and l = l1,
      OF same fun_upd_same wf(2) l1(1) q there, unfolded if_cancel]
  obtain l2 where l2: "log_at (?q + length (commits_bytes ?p 0xffffffff cs)) (end_tag ?p cs) 0xffffffff
        (fold note_entry (concat (map fst cs)) ?sm) l2"
    "\<forall>x N'. reads_to (rds cfg d a g) (mloop ?body l2)
          (if cs = [] then N(a \<mapsto> ?n) else N(a \<mapsto> ?n, a \<mapsto> ?n\<lparr>nd_m := committed (?q + length (commits_bytes ?p 0xffffffff cs)) (end_tag ?p cs)
            (fold note_entry (concat (map fst cs)) ?sm) (nd_m ?n)\<rparr>)) x N' \<longrightarrow>
        reads_to (rds cfg d a g) (mloop ?body l1) (N(a \<mapsto> ?n)) x N'"
    by blast
  let ?N = "N(a \<mapsto> n\<lparr>nd_m := committed (q + length (commits_bytes p crc (c # cs))) (end_tag p (c # cs))
            (fold note_entry (concat (map fst (c # cs))) sm) (nd_m n)\<rparr>)"
  have N: "(if cs = [] then N(a \<mapsto> ?n) else N(a \<mapsto> ?n, a \<mapsto> ?n\<lparr>nd_m := committed (?q + length (commits_bytes ?p 0xffffffff cs)) (end_tag ?p cs)
            (fold note_entry (concat (map fst cs)) ?sm) (nd_m ?n)\<rparr>)) = ?N"
    by (simp add: add.assoc)
  have "\<forall>x N'. reads_to (rds cfg d a g) (mloop ?body l2) ?N x N' \<longrightarrow> reads_to (rds cfg d a g) (mloop ?body l) N x N'"
    using l1(2) l2(2) [unfolded N] by blast
  with l2(1) show ?case by (intro exI [of _ l2]) (simp add: add.assoc fun_upd_def)
qed

text \<open>Behind the last complete commit the scan ends.\<close>

lemma rt_no_entry:
  assumes cfg: "unat (cfg_block_size cfg) = bsz" "bsz < 2 ^ 30" and N: "N a = Some n" and b: "unat (fst (md_pair (nd_m n))) < bcount"
    and B: "length (blk d (fst (md_pair (nd_m n)))) = bsz"
    and l: "log_at q p (lfs_crc crc body) sm l" "q \<le> bsz" and r: "drop q (blk d (fst (md_pair (nd_m n)))) = r" "no_entry p crc body r"
  shows "\<exists>z. fl_besttag z = - 1 \<and> reads_to (rds cfg d a g) (fetch_body a 0xffffffff 0xffffffff None l) N (Val (Inr z)) N"
proof (cases "length r < 4")
  case True
  then have "bsz < q + 4" using arg_cong [OF r(1), of length] B l(2) by simp
  then show ?thesis
    using rt_fetch_body_end [where N = N and n = n and d = d and l = l, OF cfg N _ l(2)] l(1)
    by (intro exI [of _ "l\<lparr>fl_off := word_of_nat q\<rparr>"]) (simp add: log_at_def)
next
  case False
  let ?tb = "take 4 r"
  let ?tag = "u32_from_be ?tb XOR p"
  let ?l1 = "l\<lparr>fl_off := word_of_nat q, fl_crc := lfs_crc (fl_crc l) ?tb\<rparr>"
  have len: "length r = bsz - q" using arg_cong [OF r(1), of length] B by simp
  have at: "at_tag q l" "fl_ptag l = p" "fl_crc l = lfs_crc crc body" "fl_besttag l = - 1" using l(1) by (auto simp: log_at_def)
  have run: "reads_to (rds cfg d a g) (fetch_body a 0xffffffff 0xffffffff None l) N (Val (Inr z)) N"
    if "reads_to (rds cfg d a g) (if \<not> lfs_tag_isvalid ?tag then ret (Inr (?l1\<lparr>fl_maybeerased := (lfs_tag_type2 (fl_ptag l) = LFS_TYPE_CCRC)\<rparr>))
      else if word_of_nat q + lfs_tag_dsize ?tag > cfg_block_size cfg then ret (Inr ?l1)
      else if lfs_tag_type2 ?tag = LFS_TYPE_CCRC then fetch_commit_crc a ?tag (?l1\<lparr>fl_ptag := ?tag\<rparr>)
      else fetch_tag a 0xffffffff 0xffffffff None ?tag (?l1\<lparr>fl_ptag := ?tag\<rparr>)) N (Val (Inr z)) N" for z
    by (rule rt_fetch_body_gen [where N = N and n = n and d = d and tag = ?tag and tb = ?tb, OF cfg N b at(1) _ _ refl _ that])
      (use False len r at in auto)
  consider "\<not> lfs_tag_isvalid ?tag" | "lfs_tag_isvalid ?tag" "length r < unat (lfs_tag_dsize ?tag)"
    | "lfs_tag_isvalid ?tag" "unat (lfs_tag_dsize ?tag) \<le> length r" "lfs_tag_type2 ?tag = LFS_TYPE_CCRC"
      "8 \<le> length r \<longrightarrow> u32_from_le (take 4 (drop 4 r)) \<noteq> lfs_crc crc (body @ ?tb)"
    using r(2) False unfolding no_entry_def Let_def by linarith
  then show ?thesis
  proof cases
    case 1
    show ?thesis
      by (intro exI [of _ "?l1\<lparr>fl_maybeerased := (lfs_tag_type2 (fl_ptag l) = LFS_TYPE_CCRC)\<rparr>"] conjI run) (use 1 at in \<open>simp_all add: rt_ret\<close>)
  next
    case 2
    have "cfg_block_size cfg < word_of_nat q + lfs_tag_dsize ?tag"
      using fits_word(1) [OF cfg l(2), of ?tag] len 2(2) by linarith
    then show ?thesis
      using 2(1) at by (intro exI [of _ ?l1] conjI run) (simp_all only: not_True_eq_False if_False if_True rt_ret fetch_loop.simps, simp)
  next
    case 3
    let ?l2 = "?l1\<lparr>fl_ptag := ?tag\<rparr>"
    have o4: "unat (fl_off ?l2 + 4) = q + 4"
      using False len cfg by (simp add: unat_word_ariths unat_of_nat)
    have "reads_to (rds cfg d a g) (fetch_commit_crc a ?tag ?l2) N (Val (Inr ?l2)) N"
    proof (cases "8 \<le> length r")
      case True
      have read: "reads_to (rds cfg d a g) (lfs_bd_read None RCache (unat (cfg_block_size cfg)) (fst (md_pair (nd_m n))) (unat (fl_off ?l2 + 4)) (replicate 4 0)) N
          (Val (take 4 (drop 4 r))) N"
        unfolding o4
        using rt_bd_read [of "q + 4" "replicate 4 0" "fst (md_pair (nd_m n))" "unat (cfg_block_size cfg)" cfg d a g N] cfg b True len r(1) [symmetric]
        by (simp add: add.commute)
      have ne: "(fl_crc ?l2 \<noteq> u32_from_le (take 4 (drop 4 r))) = True"
        using 3(4) True at by (simp add: lfs_crc_append)
      show ?thesis unfolding fetch_commit_crc_def Let_def
        by (rule rt_cfg, rule rt_get_mdir, rule N, rule rt_or_corrupt, rule read, unfold ne if_True, rule rt_ret)
    next
      case False
      then have beyond: "\<not> unat (fl_off ?l2 + 4) + length (replicate 4 (0 :: u8)) \<le> bsz"
        unfolding o4 using len l(2) by simp
      show ?thesis unfolding fetch_commit_crc_def Let_def
        by (rule rt_cfg, rule rt_get_mdir, rule N, rule rt_or_corrupt_break, rule rt_bd_read_beyond, rule beyond, rule rt_ret)
    qed
    moreover have "\<not> cfg_block_size cfg < word_of_nat q + lfs_tag_dsize ?tag"
      using fits_word(1) [OF cfg l(2), of ?tag] len 3(2) l(2) by linarith
    ultimately show ?thesis
      using 3(1,3) at by (intro exI [of _ ?l2] conjI run) (simp_all only: simp_thms if_False if_True fetch_loop.simps, simp)
  qed
qed

lemma rt_torn:
  assumes cfg: "unat (cfg_block_size cfg) = bsz" "bsz < 2 ^ 30" and N: "N a = Some n" and b: "unat (fst (md_pair (nd_m n))) < bcount"
    and B: "length (blk d (fst (md_pair (nd_m n)))) = bsz"
    and l: "log_at q p crc sm l" "q \<le> bsz" and r: "drop q (blk d (fst (md_pair (nd_m n)))) = r" "torn p crc r"
  shows "\<exists>z. fl_besttag z = - 1 \<and> reads_to (rds cfg d a g) (mloop (fetch_body a 0xffffffff 0xffffffff None) l) N (Val z) N"
proof -
  let ?B = "blk d (fst (md_pair (nd_m n)))" and ?body = "fetch_body a 0xffffffff 0xffffffff None"
  obtain es r' where es: "list_all wf_entry es" "r = entries_bytes p es @ r'" "no_entry (last_tag p es) crc (entries_bytes p es) r'"
    using r(2) unfolding torn_def by blast
  have here: "drop q ?B = entries_bytes p es @ r'" using r(1) es(2) by simp
  obtain l1 where l1: "log_at (q + length (entries_bytes p es)) (last_tag p es) (lfs_crc crc (entries_bytes p es)) (fold note_entry es sm) l1"
    "\<forall>x N'. reads_to (rds cfg d a g) (mloop ?body l1) N x N' \<longrightarrow> reads_to (rds cfg d a g) (mloop ?body l) N x N'"
    using rt_entries [where N = N and n = n and d = d and g = g, OF cfg N b B es(1) l here] by blast
  have q1: "q + length (entries_bytes p es) \<le> bsz" using arg_cong [OF here, of length] B l(2) by simp
  have "drop (q + length (entries_bytes p es)) ?B = r'"
    using arg_cong [OF here, of "drop (length (entries_bytes p es))"] by (simp add: add.commute)
  from rt_no_entry [where N = N and n = n and d = d and g = g, OF cfg N b B l1(1) q1 this es(3)]
  obtain z where "fl_besttag z = - 1" "reads_to (rds cfg d a g) (?body l1) N (Val (Inr z)) N" by blast
  with l1(2) rt_mloop_Inr [where body = ?body] show ?thesis by blast
qed

subsection \<open>One block, and the pair\<close>

text \<open>The checksum of the erased part: whatever range an entry asks for, only a corruption can come of it.\<close>

lemma rt_bd_crc_buf:
  assumes "unat hint = bsz" "bsz \<le> 2 ^ 31" "unat block < bcount"
  shows "\<exists>e c. (case e of Inl x \<Rightarrow> x = Corrupt | Inr _ \<Rightarrow> True)
    \<and> reads_to (rds cfg d a g) (lfs_bd_crc_buf None RCache hint block off sz crc) N (Val (e, c)) N"
proof -
  have "\<exists>e c. (case e of Inl x \<Rightarrow> x = Corrupt | Inr _ \<Rightarrow> True)
      \<and> reads_to (rds cfg d a g) (mloop (lfs_bd_crc_body None RCache hint block off sz) (i, crc)) N (Val (e, c)) N" for i
  proof (induction "sz - i" arbitrary: i crc rule: less_induct)
    case less
    let ?body = "lfs_bd_crc_body None RCache hint block off sz"
    show ?case
    proof (cases "i < sz")
      case False
      then have "reads_to (rds cfg d a g) (?body (i, crc)) N (Val (Inr (Inr (), crc))) N"
        by (simp add: lfs_bd_crc_body_def rt_ret)
      then show ?thesis by (intro exI [of _ "Inr ()"] exI [of _ crc]) (simp add: rt_mloop_Inr)
    next
      case i: True
      let ?n = "min (sz - i) 8"
      let ?read = "lfs_bd_read None RCache (usize_sub (unat hint) i) block (off + i) (replicate ?n 0)"
      have body: "reads_to (rds cfg d a g) (?body (i, crc)) N r N"
        if "reads_to (rds cfg d a g) (bnd (attempt ?read) (\<lambda>r. case r of
          Inl e \<Rightarrow> ret (Inr (Inl e, crc)) | Inr dat \<Rightarrow> ret (Inl (i + ?n, lfs_crc crc dat)))) N r N" for r
        using that i unfolding lfs_bd_crc_body_def by (simp add: Let_def)
      show ?thesis
      proof (cases "off + i + ?n \<le> bsz")
        case False
        have "reads_to (rds cfg d a g) (?body (i, crc)) N (Val (Inr (Inl Corrupt, crc))) N"
          by (rule body, rule rt_bnd, rule rt_attempt_Exc, rule rt_bd_read_beyond) (use False in \<open>simp_all add: rt_ret\<close>)
        then show ?thesis by (intro exI [of _ "Inl Corrupt"] exI [of _ crc]) (simp add: rt_mloop_Inr)
      next
        case True
        let ?c = "lfs_crc crc (take ?n (drop (off + i) (blk d block)))"
        have "reads_to (rds cfg d a g) ?read N (Val (take ?n (drop (off + i) (blk d block)))) N"
          using rt_bd_read [of "off + i" "replicate ?n 0" block "usize_sub (unat hint) i" cfg d a g N] True i assms
          by (simp add: usize_sub_def)
        then have "reads_to (rds cfg d a g) (?body (i, crc)) N (Val (Inl (i + ?n, ?c))) N"
          by - (rule body, rule rt_bnd, rule rt_attempt_Val, assumption, unfold sum.case, rule rt_ret)
        from rt_mloop_Inl [where body = ?body, OF this] less [of "i + ?n" ?c] i show ?thesis by fastforce
      qed
    qed
  qed
  then show ?thesis unfolding lfs_bd_crc_buf_def .
qed

lemma fetch_besttag_none: "fetch_besttag gdisk pr (- 1) = - 1"
  by (simp add: fetch_besttag_def)

lemma besttag_none: "\<not> lfs_tag_isvalid (- 1)" "lfs_tag_id (- 1) = 0x3ff"
  by (simp_all add: lfs_tag_isvalid_def lfs_tag_id_def)

text \<open>Fetching one block, after its revision count has been read.\<close>

lemma rt_scan:
  assumes cfg: "unat (cfg_block_size cfg) = bsz" "bsz < 2 ^ 30" and N: "N a = Some n" and b: "unat (fst (md_pair (nd_m n))) < bcount"
    and B: "length (blk d (fst (md_pair (nd_m n)))) = bsz"
    and log: "block_log (blk d (fst (md_pair (nd_m n)))) rv cs r"
  shows "\<exists>z. fl_besttag z = - 1 \<and> reads_to (rds cfg d a g) (mloop (fetch_body a 0xffffffff 0xffffffff None) (fetch_start (- 1) rv)) N (Val z)
    (if cs = [] then N else N(a \<mapsto> n\<lparr>nd_m := log_mdir rv cs (nd_m n)\<rparr>))"
proof -
  let ?B = "blk d (fst (md_pair (nd_m n)))" and ?body = "fetch_body a 0xffffffff 0xffffffff None"
  let ?crc = "lfs_crc 0xffffffff (u32_to_le rv)" and ?sm = "(0, (LFS_BLOCK_NULL, LFS_BLOCK_NULL), False)"
  let ?q = "4 + length (commits_bytes 0xffffffff ?crc cs)"
  let ?crc' = "if cs = [] then ?crc else 0xffffffff"
  let ?N = "if cs = [] then N else N(a \<mapsto> n\<lparr>nd_m := log_mdir rv cs (nd_m n)\<rparr>)"
  have bs: "?B = u32_to_le rv @ commits_bytes 0xffffffff ?crc cs @ r" "list_all wf_commit cs" "torn (end_tag 0xffffffff cs) ?crc' r"
    using log by (auto simp: block_log_def Let_def)
  have "lfs_tag_dsize 0xffffffff = 4" by code_simp
  then have start: "log_at 4 0xffffffff ?crc ?sm (fetch_start (- 1) rv)"
    by (simp add: log_at_def at_tag_def fetch_start_def)
  have here: "drop 4 ?B = commits_bytes 0xffffffff ?crc cs @ r" by (simp add: bs(1))
  have q: "4 \<le> bsz" "?q \<le> bsz" using arg_cong [OF bs(1), of length] B by simp_all
  obtain l' where l': "log_at ?q (end_tag 0xffffffff cs) ?crc' (log_summary cs) l'"
    "\<forall>x N'. reads_to (rds cfg d a g) (mloop ?body l') ?N x N' \<longrightarrow> reads_to (rds cfg d a g) (mloop ?body (fetch_start (- 1) rv)) N x N'"
    using rt_commits [where N = N and n = n and d = d and g = g, OF cfg b B N bs(2) start q(1) here]
    unfolding log_summary_def log_mdir_def by blast
  obtain n' where n': "?N a = Some n'" "md_pair (nd_m n') = md_pair (nd_m n)"
    using N by (cases "cs = []") (auto simp: log_mdir_def)
  have there: "drop ?q ?B = r" by (simp add: bs(1))
  have "\<exists>z. fl_besttag z = - 1 \<and> reads_to (rds cfg d a g) (mloop ?body l') ?N (Val z) ?N"
    by (rule rt_torn [where n = n' and N = ?N and a = a and d = d, OF cfg n'(1) _ _ l'(1) q(2) _ bs(3)]) (use b B there n'(2) in simp_all)
  with l'(2) show ?thesis by blast
qed

lemma rt_fetch_block_none:
  assumes cfg: "unat (cfg_block_size cfg) = bsz" "bsz < 2 ^ 30" and N: "N a = Some n" and b: "unat (fst (md_pair (nd_m n))) < bcount"
    and B: "length (blk d (fst (md_pair (nd_m n)))) = bsz"
    and log: "block_log (blk d (fst (md_pair (nd_m n)))) rv [] r" and m: "md_rev (nd_m n) = rv" "md_off (nd_m n) = 0"
  shows "reads_to (rds cfg d a g) (fetch_block a 0xffffffff 0xffffffff None (- 1)) N (Val (None, - 1)) N"
proof -
  obtain z where z: "fl_besttag z = - 1" "reads_to (rds cfg d a g) (mloop (fetch_body a 0xffffffff 0xffffffff None) (fetch_start (- 1) rv)) N (Val z) N"
    using rt_scan [where N = N and n = n and d = d and g = g, OF cfg N b B log] by auto
  have off: "(md_off (nd_m n) = 0) = True" using m(2) by simp
  show ?thesis unfolding fetch_block_def Let_def
    by (rule rt_get_mdir, rule N, unfold m(1), rule rt_bnd, rule z(2), rule rt_get_mdir, rule N, unfold off if_True z(1), rule rt_ret)
qed

lemma rt_fetch_block:
  assumes cfg: "unat (cfg_block_size cfg) = bsz" "bsz < 2 ^ 30" and N: "N a = Some n" and b: "unat (fst (md_pair (nd_m n))) < bcount"
    and B: "length (blk d (fst (md_pair (nd_m n)))) = bsz"
    and log: "block_log (blk d (fst (md_pair (nd_m n)))) rv cs r" and m: "md_rev (nd_m n) = rv"
    and cs: "cs \<noteq> []" "fst (log_summary cs) \<le> 0x3ff"
  shows "\<exists>e. reads_to (rds cfg d a g) (fetch_block a 0xffffffff 0xffffffff None (- 1)) N (Val (Some (Inr 0, fst (log_summary cs)), - 1))
    (N(a \<mapsto> n\<lparr>nd_m := (log_mdir rv cs (nd_m n))\<lparr>md_erased := e\<rparr>\<rparr>))"
proof -
  let ?N = "N(a \<mapsto> n\<lparr>nd_m := log_mdir rv cs (nd_m n)\<rparr>)" and ?m = "log_mdir rv cs (nd_m n)"
  let ?q = "4 + length (commits_bytes 0xffffffff (lfs_crc 0xffffffff (u32_to_le rv)) cs)"
  obtain z where z: "fl_besttag z = - 1"
    "reads_to (rds cfg d a g) (mloop (fetch_body a 0xffffffff 0xffffffff None) (fetch_start (- 1) rv)) N (Val z) ?N"
    using rt_scan [where N = N and n = n and d = d and g = g, OF cfg N b B log] cs(1) by auto
  have "?q \<le> bsz"
    using log arg_cong [of "blk d (fst (md_pair (nd_m n)))" _ length] B by (auto simp: block_log_def Let_def)
  then have "unat (word_of_nat ?q :: u32) = ?q" by (rule fits_word(2) [OF cfg])
  then have "word_of_nat ?q \<noteq> (0 :: u32)" by (metis add_is_0 unat_0 zero_neq_numeral)
  then have "md_off ?m \<noteq> 0" by (simp only: log_mdir_def committed_def split: prod.splits) simp
  then have off: "(md_off ?m = 0) = False" by simp
  have nd: "nd_m (n\<lparr>nd_m := ?m\<rparr>) = ?m" by simp
  have count: "md_count ?m = fst (log_summary cs)" by (simp add: log_mdir_def committed_def split: prod.splits)
  define erased where "erased e = N(a \<mapsto> n\<lparr>nd_m := ?m\<lparr>md_erased := e\<rparr>\<rparr>)" for e
  have up: "reads_to (rds cfg d a g) (upd_mdir a (\<lambda>d. d\<lparr>md_erased := e\<rparr>)) (erased e') (Val ()) (erased e)" for e e'
    using rt_upd_mdir [where N = "erased e'" and a = a and n = "n\<lparr>nd_m := ?m\<lparr>md_erased := e'\<rparr>\<rparr>" and f = "\<lambda>d. d\<lparr>md_erased := e\<rparr>"]
    by (simp add: erased_def)
  have up0: "reads_to (rds cfg d a g) (upd_mdir a (\<lambda>d. d\<lparr>md_erased := False\<rparr>)) ?N (Val ()) (erased False)"
    using rt_upd_mdir [where N = ?N and a = a and n = "n\<lparr>nd_m := ?m\<rparr>" and f = "\<lambda>d. d\<lparr>md_erased := False\<rparr>"]
    by (simp add: erased_def)
  let ?check = "if fl_maybeerased z \<and> unat (cfg_prog_size cfg) dvd unat (md_off ?m) \<and> fl_hasfcrc z then
           bnd (lfs_bd_crc_buf None RCache (cfg_block_size cfg) (fst (md_pair ?m)) (unat (md_off ?m))
                 (unat (fcrc_size (fl_fcrc z))) 0xffffffff) (\<lambda>(err, fcrc).
           if (case err of Inl e \<Rightarrow> e \<noteq> Corrupt | Inr _ \<Rightarrow> False)
           then bnd (lift_res err) (\<lambda>_. ret ())
           else upd_mdir a (\<lambda>d. d\<lparr>md_erased := (fcrc = fcrc_crc (fl_fcrc z))\<rparr>))
         else ret ()"
  have pair: "md_pair ?m = md_pair (nd_m n)" by (simp add: log_mdir_def)
  have "\<exists>e. reads_to (rds cfg d a g) ?check (erased False) (Val ()) (erased e)"
  proof (cases "fl_maybeerased z \<and> unat (cfg_prog_size cfg) dvd unat (md_off ?m) \<and> fl_hasfcrc z")
    case False
    then show ?thesis by (intro exI [of _ False]) (simp only: if_False rt_ret)
  next
    case True
    obtain e c where ec: "case e of Inl x \<Rightarrow> x = Corrupt | Inr _ \<Rightarrow> True"
      "reads_to (rds cfg d a g) (lfs_bd_crc_buf None RCache (cfg_block_size cfg) (fst (md_pair ?m)) (unat (md_off ?m))
                 (unat (fcrc_size (fl_fcrc z))) 0xffffffff) (erased False) (Val (e, c)) (erased False)"
      using rt_bd_crc_buf [of "cfg_block_size cfg" "fst (md_pair ?m)"] cfg b unfolding pair by fastforce
    have no: "(case e of Inl e \<Rightarrow> e \<noteq> Corrupt | Inr _ \<Rightarrow> False) = False" using ec(1) by (simp split: sum.splits)
    show ?thesis
      by (intro exI [of _ "c = fcrc_crc (fl_fcrc z)"], simp only: True if_True simp_thms, rule rt_bnd, rule ec(2),
          unfold prod.case no if_False, rule up)
  qed
  then obtain e where e: "reads_to (rds cfg d a g) ?check (erased False) (Val ()) (erased e)" by blast
  have gd: "reads_to (rds cfg d a g) (gets l_gdisk) (erased e) (Val g) (erased e)" by (rule rt_gets) simp
  have small: "(lfs_tag_id (- 1) < md_count ?m) = False" "min (lfs_tag_id (- 1)) (md_count ?m) = fst (log_summary cs)"
    using cs(2) by (auto simp: besttag_none count min_def)
  have inv: "lfs_tag_isvalid (- 1) = False" using besttag_none by simp
  have "reads_to (rds cfg d a g) (fetch_block a 0xffffffff 0xffffffff None (- 1)) N (Val (Some (Inr 0, fst (log_summary cs)), - 1)) (erased e)"
    unfolding fetch_block_def Let_def
    by (rule rt_get_mdir, rule N, unfold m, rule rt_bnd, rule z(2), rule rt_get_mdir, rule fun_upd_same, unfold nd off if_False z(1), rule rt_cfg,
        rule rt_bnd, rule up0, rule rt_bnd, rule e, rule rt_bnd, rule gd, unfold fetch_besttag_none small inv if_False, rule rt_ret)
  then show ?thesis unfolding erased_def by blast
qed

text \<open>The revision counts of the two blocks.\<close>

lemma rt_fetch_revs:
  assumes "4 \<le> bsz" "unat (pair_nth pr i) < bcount" "take 4 (blk d (pair_nth pr i)) = u32_to_le rv"
  shows "reads_to (rds cfg d a g) (fetch_revs pr i (revs, r)) N
    (Val (pair_upd revs i rv, if lfs_scmp (pair_nth (pair_upd revs i rv) i) (pair_nth (pair_upd revs i rv) ((i + 1) mod 2)) > 0 then i else r)) N"
proof -
  have read: "reads_to (rds cfg d a g) (lfs_bd_read_buf None RCache 4 (pair_nth pr i) 0 (replicate 4 0)) N (Val (Inr (), u32_to_le rv)) N"
    unfolding reads_to_def
  proof (intro allI impI)
    fix s assume s: "rds cfg d a g s" "l_nodes s = N"
    obtain t where "lfs_bd_read_buf None RCache 4 (pair_nth pr i) 0 (replicate 4 0) s = Some (Val
        (if 0 + length (replicate 4 (0 :: u8)) \<le> bsz \<and> unat (pair_nth pr i) < bcount
         then (Inr (), take (length (replicate 4 (0 :: u8))) (drop 0 (blk d (pair_nth pr i))))
         else (Inl Corrupt, replicate 4 0)), t)" "rd cfg d a t" "l_nodes t = l_nodes s" "l_gdisk t = l_gdisk s"
      by (rule bd_read_buf_outcome [of cfg d a s 0 "replicate 4 0" 4 "pair_nth pr i"]) (use s in auto)
    then show "\<exists>t. lfs_bd_read_buf None RCache 4 (pair_nth pr i) 0 (replicate 4 0) s = Some (Val (Inr (), u32_to_le rv), t)
        \<and> rds cfg d a g t \<and> l_nodes t = N"
      using s assms by auto
  qed
  show ?thesis unfolding fetch_revs_def prod.case
    by (rule rt_bnd, rule read) (simp add: Let_def byte_simps rt_ret)
qed

text \<open>The two blocks, the one with the later revision first.\<close>

lemma rt_fetch_either:
  assumes cfg: "unat (cfg_block_size cfg) = bsz" "bsz < 2 ^ 30" and N: "N a = Some n"
    and pr: "md_pair (nd_m n) = pr" "md_rev (nd_m n) = fst x" "md_off (nd_m n) = 0"
    and b: "unat (fst pr) < bcount" "unat (snd pr) < bcount" and B: "length (blk d (fst pr)) = bsz" "length (blk d (snd pr)) = bsz"
    and log: "block_log (blk d (fst pr)) (fst x) (snd x) r0" "block_log (blk d (snd pr)) (fst y) (snd y) r1"
    and res: "newer_log pr x y = (p, rv, cs)" and small: "fst (log_summary cs) \<le> 0x3ff"
  shows "\<exists>n'. reads_to (rds cfg d a g) (bnd (fetch_block a 0xffffffff 0xffffffff None (- 1)) (\<lambda>(res, besttag).
    case res of
      Some x \<Rightarrow> ret x
    | None \<Rightarrow>
        bnd (upd_mdir a (\<lambda>d. d\<lparr>md_pair := lfs_pair_swap (md_pair d), md_rev := fst y\<rparr>)) (\<lambda>_.
        bnd (fetch_block a 0xffffffff 0xffffffff None besttag) (\<lambda>(res, besttag).
        case res of
          Some x \<Rightarrow> ret x
        | None \<Rightarrow>
            bnd (upd_mdir a (\<lambda>d. d\<lparr>md_pair := lfs_pair_swap (md_pair d), md_rev := fst y\<rparr>)) (\<lambda>_.
            throw Corrupt))))) N
      (if cs = [] then Exc Corrupt else Val (Inr 0, fst (log_summary cs))) (N(a \<mapsto> n'))
    \<and> (cs \<noteq> [] \<longrightarrow> (\<exists>m e. md_pair m = p \<and> md_rev m = rv \<and> nd_m n' = (log_mdir rv cs m)\<lparr>md_erased := e\<rparr>))"
    (is "\<exists>n'. reads_to ?I (bnd ?fetch ?k) N ?r (N(a \<mapsto> n')) \<and> (cs \<noteq> [] \<longrightarrow> ?ok n')")
proof (cases "snd x = []")
  case False
  then have p: "p = pr" "rv = fst x" "cs = snd x" using res by (auto simp: newer_log_def)
  obtain e where e: "reads_to ?I ?fetch N (Val (Some (Inr 0, fst (log_summary cs)), - 1))
      (N(a \<mapsto> n\<lparr>nd_m := (log_mdir rv cs (nd_m n))\<lparr>md_erased := e\<rparr>\<rparr>))"
    using rt_fetch_block [where N = N and a = a and n = n and d = d and g = g and rv = rv and cs = cs and r = r0, OF cfg N] pr b B log small False p by auto
  have c: "(if cs = [] then Exc Corrupt else Val (Inr 0, fst (log_summary cs))) = Val (Inr 0, fst (log_summary cs))"
    using False p by simp
  show ?thesis
    by (intro exI [of _ "n\<lparr>nd_m := (log_mdir rv cs (nd_m n))\<lparr>md_erased := e\<rparr>\<rparr>"] conjI, unfold c, rule rt_bnd, rule e,
        unfold prod.case option.case, rule rt_ret) (use pr p in auto)
next
  case True
  then have p: "p = lfs_pair_swap pr" "rv = fst y" "cs = snd y" using res by (auto simp: newer_log_def)
  let ?n = "n\<lparr>nd_m := (nd_m n)\<lparr>md_pair := lfs_pair_swap (md_pair (nd_m n)), md_rev := fst y\<rparr>\<rparr>"
  have first: "reads_to ?I ?fetch N (Val (None, - 1)) N"
    by (rule rt_fetch_block_none [where N = N and a = a and n = n and rv = "fst x" and r = r0, OF cfg N]) (use pr b B log True in auto)
  have up: "reads_to ?I (upd_mdir a (\<lambda>d. d\<lparr>md_pair := lfs_pair_swap (md_pair d), md_rev := fst y\<rparr>)) N (Val ()) (N(a \<mapsto> ?n))"
    by (rule rt_upd_mdir [where N = N and a = a and n = n, OF N])
  show ?thesis
  proof (cases "cs = []")
    case True
    let ?n2 = "?n\<lparr>nd_m := (nd_m ?n)\<lparr>md_pair := lfs_pair_swap (md_pair (nd_m ?n)), md_rev := fst y\<rparr>\<rparr>"
    have second: "reads_to ?I ?fetch (N(a \<mapsto> ?n)) (Val (None, - 1)) (N(a \<mapsto> ?n))"
      by (rule rt_fetch_block_none [where N = "N(a \<mapsto> ?n)" and a = a and n = ?n and rv = "fst y" and r = r1, OF cfg]) (use pr b B log True p in \<open>auto simp: lfs_pair_swap_def\<close>)
    have up2: "reads_to ?I (upd_mdir a (\<lambda>d. d\<lparr>md_pair := lfs_pair_swap (md_pair d), md_rev := fst y\<rparr>)) (N(a \<mapsto> ?n)) (Val ()) (N(a \<mapsto> ?n, a \<mapsto> ?n2))"
      by (rule rt_upd_mdir [where n = ?n]) simp
    have throws: "reads_to ?I (throw Corrupt) M (Exc Corrupt) M" for M
      by (simp add: reads_to_def throw_def)
    have "reads_to ?I (bnd ?fetch ?k) N (Exc Corrupt) (N(a \<mapsto> ?n, a \<mapsto> ?n2))"
      by (rule rt_bnd, rule first, unfold prod.case option.case, rule rt_bnd, rule up, rule rt_bnd, rule second,
          unfold prod.case option.case, rule rt_bnd, rule up2, rule throws)
    then show ?thesis using True by (intro exI [of _ ?n2]) (simp only: fun_upd_upd, simp)
  next
    case False
    obtain e where e: "reads_to ?I ?fetch (N(a \<mapsto> ?n)) (Val (Some (Inr 0, fst (log_summary cs)), - 1))
        (N(a \<mapsto> ?n, a \<mapsto> ?n\<lparr>nd_m := (log_mdir rv cs (nd_m ?n))\<lparr>md_erased := e\<rparr>\<rparr>))"
      using rt_fetch_block [where N = "N(a \<mapsto> ?n)" and a = a and n = ?n and d = d and g = g and rv = rv and cs = cs and r = r1, OF cfg]
        pr b B log small False p by (auto simp: lfs_pair_swap_def)
    have "reads_to ?I (bnd ?fetch ?k) N (Val (Inr 0, fst (log_summary cs))) (N(a \<mapsto> ?n, a \<mapsto> ?n\<lparr>nd_m := (log_mdir rv cs (nd_m ?n))\<lparr>md_erased := e\<rparr>\<rparr>))"
      by (rule rt_bnd, rule first, unfold prod.case option.case, rule rt_bnd, rule up, rule rt_bnd, rule e,
          unfold prod.case option.case, rule rt_ret)
    moreover have "\<exists>m e'. md_pair m = p \<and> md_rev m = rv \<and> (log_mdir rv cs (nd_m ?n))\<lparr>md_erased := e\<rparr> = (log_mdir rv cs m)\<lparr>md_erased := e'\<rparr>"
      by (intro exI [of _ "nd_m ?n"] exI [of _ e]) (simp add: pr p)
    ultimately show ?thesis using False
      by (intro exI [of _ "?n\<lparr>nd_m := (log_mdir rv cs (nd_m ?n))\<lparr>md_erased := e\<rparr>\<rparr>"]) (simp only: fun_upd_upd, simp)
  qed
qed

lemma rt_dir_fetch:
  assumes cfg: "unat (cfg_block_size cfg) = bsz" "bsz < 2 ^ 30" "4 \<le> bsz" and N: "N a = Some n"
    and b: "unat (fst pr) < bcount" "unat (snd pr) < bcount" and B: "length (blk d (fst pr)) = bsz" "length (blk d (snd pr)) = bsz"
    and log: "block_log (blk d (fst pr)) rv0 cs0 r0" "block_log (blk d (snd pr)) rv1 cs1 r1"
    and res: "fetched_log pr (rv0, cs0) (rv1, cs1) = (p, rv, cs)" and small: "fst (log_summary cs) \<le> 0x3ff"
  shows "\<exists>n'. reads_to (rds cfg d a g) (lfs_dir_fetch a pr) N (if cs = [] then Exc Corrupt else Val ()) (N(a \<mapsto> n'))
    \<and> (cs \<noteq> [] \<longrightarrow> (\<exists>m e. md_pair m = p \<and> md_rev m = rv \<and> nd_m n' = (log_mdir rv cs m)\<lparr>md_erased := e\<rparr>))"
proof -
  let ?I = "rds cfg d a g"
  define i :: nat where "i = (if lfs_scmp rv1 rv0 > 0 then 1 else 0)"
  define pr' where "pr' = (pair_nth pr (i mod 2), pair_nth pr ((i + 1) mod 2))"
  define x y where "x = (if i = 0 then (rv0, cs0) else (rv1, cs1))" and "y = (if i = 0 then (rv1, cs1) else (rv0, cs0))"
  define rx ry where "rx = (if i = 0 then r0 else r1)" and "ry = (if i = 0 then r1 else r0)"
  have i: "i = 0 \<or> i = 1" by (simp add: i_def)
  have newer: "newer_log pr' x y = (p, rv, cs)"
    using res by (auto simp: fetched_log_def i_def pr'_def x_def y_def pair_nth_def lfs_pair_swap_def split: if_splits)
  have revs: "pair_nth (rv0, rv1) (i mod 2) = fst x" "pair_nth (rv0, rv1) ((i + 1) mod 2) = fst y"
    using i by (auto simp: x_def y_def pair_nth_def)
  let ?n = "n\<lparr>nd_m := (nd_m n)\<lparr>md_pair := pr', md_rev := fst x, md_off := 0\<rparr>\<rparr>"
  have nd: "md_pair (nd_m ?n) = pr'" "md_rev (nd_m ?n) = fst x" "md_off (nd_m ?n) = 0" by simp_all
  have sides: "unat (fst pr') < bcount" "unat (snd pr') < bcount" "length (blk d (fst pr')) = bsz" "length (blk d (snd pr')) = bsz"
      "block_log (blk d (fst pr')) (fst x) (snd x) rx" "block_log (blk d (snd pr')) (fst y) (snd y) ry"
    using i b B log by (auto simp: pr'_def x_def y_def rx_def ry_def pair_nth_def)
  obtain n' where n': "reads_to ?I (bnd (fetch_block a 0xffffffff 0xffffffff None (- 1)) (\<lambda>(res, besttag).
    case res of
      Some x \<Rightarrow> ret x
    | None \<Rightarrow>
        bnd (upd_mdir a (\<lambda>d. d\<lparr>md_pair := lfs_pair_swap (md_pair d), md_rev := fst y\<rparr>)) (\<lambda>_.
        bnd (fetch_block a 0xffffffff 0xffffffff None besttag) (\<lambda>(res, besttag).
        case res of
          Some x \<Rightarrow> ret x
        | None \<Rightarrow>
            bnd (upd_mdir a (\<lambda>d. d\<lparr>md_pair := lfs_pair_swap (md_pair d), md_rev := fst y\<rparr>)) (\<lambda>_.
            throw Corrupt))))) (N(a \<mapsto> ?n))
      (if cs = [] then Exc Corrupt else Val (Inr 0, fst (log_summary cs))) (N(a \<mapsto> n'))"
    "cs \<noteq> [] \<longrightarrow> (\<exists>m e. md_pair m = p \<and> md_rev m = rv \<and> nd_m n' = (log_mdir rv cs m)\<lparr>md_erased := e\<rparr>)"
    using rt_fetch_either [where N = "N(a \<mapsto> ?n)" and a = a and n = ?n and pr = pr' and x = x and y = y and d = d and g = g and ?r0.0 = rx and ?r1.0 = ry, 
        OF cfg(1,2) fun_upd_same nd sides newer small] unfolding fun_upd_upd by blast
  have bc: "reads_to ?I (bnd (gets l_block_count) (\<lambda>bc. if bc \<noteq> 0 \<and> (fst pr \<ge> bc \<or> snd pr \<ge> bc) then throw Corrupt else c)) M r M'"
    if "reads_to ?I c M r M'" for c M r M'
    using that b unfolding reads_to_def bnd_gets by (auto simp: rd_state_def attached_to_def word_le_nat_alt)
  have rev0: "reads_to ?I (fetch_revs pr 0 ((0, 0), 0)) N (Val ((rv0, 0), 0)) N"
    using rt_fetch_revs [of pr 0 d rv0 cfg a g "(0, 0)" 0 N] cfg b block_log_start [OF log(1)] by (simp add: pair_nth_def pair_upd_def)
  have rev1: "reads_to ?I (fetch_revs pr 1 ((rv0, 0), 0)) N (Val ((rv0, rv1), i)) N"
    using rt_fetch_revs [of pr 1 d rv1 cfg a g "(rv0, 0)" 0 N] cfg b block_log_start [OF log(2)] by (simp add: pair_nth_def pair_upd_def i_def)
  have up: "reads_to ?I (upd_mdir a (\<lambda>d. d\<lparr>md_pair := pr', md_rev := fst x, md_off := 0\<rparr>)) N (Val ()) (N(a \<mapsto> ?n))"
    by (rule rt_upd_mdir [where N = N and a = a and n = n, OF N])
  have match: "reads_to ?I (lfs_dir_fetchmatch a pr 0xffffffff 0xffffffff None) N
      (if cs = [] then Exc Corrupt else Val (Inr 0, fst (log_summary cs))) (N(a \<mapsto> n'))"
    unfolding lfs_dir_fetchmatch_def
    by (rule bc, rule rt_bnd, rule rev0, rule rt_bnd, rule rev1, unfold prod.case pr'_def [symmetric] revs,
        rule rt_bnd, rule up, rule n'(1))
  have "reads_to ?I (lfs_dir_fetch a pr) N (if cs = [] then Exc Corrupt else Val ()) (N(a \<mapsto> n'))"
  proof (cases "cs = []")
    case True
    then show ?thesis using match unfolding lfs_dir_fetch_def reads_to_def bnd_def by fastforce
  next
    case False
    then have m: "reads_to ?I (lfs_dir_fetchmatch a pr 0xffffffff 0xffffffff None) N (Val (Inr 0, fst (log_summary cs))) (N(a \<mapsto> n'))"
      using match by simp
    have "reads_to ?I (lfs_dir_fetch a pr) N (Val ()) (N(a \<mapsto> n'))" unfolding lfs_dir_fetch_def
      by (rule rt_bnd, rule m, unfold prod.case lift_res_def sum.case, rule rt_bnd, rule rt_ret, rule rt_ret)
    with False show ?thesis by simp
  qed
  with n'(2) show ?thesis by blast
qed

end

subsection \<open>The property\<close>

lemma dir_fetch_log:
  assumes "block_device st dok blk bsz bcount" "rd_state st dok blk bsz bcount cfg d a s"
    and "unat (cfg_block_size cfg) = bsz" "4 \<le> bsz" "bsz < 2 ^ 30" "unat (fst pr) < bcount" "unat (snd pr) < bcount"
    and "block_log (blk d (fst pr)) rv0 cs0 r0" "block_log (blk d (snd pr)) rv1 cs1 r1"
    and "fetched_log pr (rv0, cs0) (rv1, cs1) = (p, rv, cs)" "fst (log_summary cs) \<le> 0x3ff"
  shows "\<exists>t n. lfs_dir_fetch a pr s = Some (if cs = [] then Exc Corrupt else Val (), t)
    \<and> rd_state st dok blk bsz bcount cfg d a t \<and> l_nodes t a = Some n \<and> (if cs = [] then True else mdir_holds p rv cs (nd_m n))"
proof -
  obtain n where n: "l_nodes s a = Some n" using assms(2) by (auto simp: rd_state_def)
  have dok: "dok d" using assms(2) by (auto simp: rd_state_def attached_to_def)
  note B = block_device.blk_length [OF assms(1) dok assms(6)] block_device.blk_length [OF assms(1) dok assms(7)]
  obtain n' where n': "reads_to (\<lambda>s'. rd_state st dok blk bsz bcount cfg d a s' \<and> l_gdisk s' = l_gdisk s) (lfs_dir_fetch a pr) (l_nodes s)
      (if cs = [] then Exc Corrupt else Val ()) ((l_nodes s)(a \<mapsto> n'))"
    "cs \<noteq> [] \<longrightarrow> (\<exists>m e. md_pair m = p \<and> md_rev m = rv \<and> nd_m n' = (log_mdir rv cs m)\<lparr>md_erased := e\<rparr>)"
    using block_device.rt_dir_fetch [where g = "l_gdisk s" and N = "l_nodes s" and a = a and blk = blk and d = d and pr = pr, OF assms(1,3,5,4) n assms(6,7) B assms(8-11)] by blast
  have "mdir_holds p rv cs (nd_m n')" if ne: "cs \<noteq> []"
  proof -
    obtain m e where m: "md_pair m = p" "md_rev m = rv" "nd_m n' = (log_mdir rv cs m)\<lparr>md_erased := e\<rparr>"
      using n'(2) ne by blast
    have "(rv, cs) = (rv0, cs0) \<or> (rv, cs) = (rv1, cs1)"
      using assms(10) by (auto simp: fetched_log_def newer_log_def split: if_splits)
    then have "4 + length (commits_bytes 0xffffffff (lfs_crc 0xffffffff (u32_to_le rv)) cs) \<le> bsz"
      using block_log_length [OF assms(8)] block_log_length [OF assms(9)] B by auto
    then show ?thesis unfolding m(3) using log_mdir_holds [OF m(1,2)] assms(5) by auto
  qed
  moreover obtain t where "lfs_dir_fetch a pr s = Some (if cs = [] then Exc Corrupt else Val (), t)"
    "rd_state st dok blk bsz bcount cfg d a t" "l_nodes t = (l_nodes s)(a \<mapsto> n')"
    using n'(1) assms(2) unfolding reads_to_def by blast
  ultimately show ?thesis by (intro exI [of _ t] exI [of _ n']) auto
qed

text \<open>C7 (refinement). A fetch finds the complete commits and nothing else.  On a pair of blocks that
  each hold a revision count, any number of complete commits, and behind them whatever an
  interrupted write has left, \<open>lfs_dir_fetch\<close> takes the block with the later revision (by the
  wrapping comparison) unless that block has no complete commit, and falls back to the other;
  it fills in the end of the last complete commit, the tag to chain the next one to, and the
  number of entries, the tail and the split flag that the entries of the complete commits add
  up to, and reports \<open>Corrupt\<close> where neither block has one.  So a commit that was cut
  off before its checksum was written is as if it had never been started.\<close>

theorem dir_fetch_finds_complete_commits:
  assumes "block_device st dok blk bsz bcount" "rd_state st dok blk bsz bcount cfg d a s"
    and "unat (cfg_block_size cfg) = bsz" "4 \<le> bsz" "bsz < 2 ^ 30" "unat (fst pr) < bcount" "unat (snd pr) < bcount"
    and "block_log (blk d (fst pr)) rv0 cs0 r0" "block_log (blk d (snd pr)) rv1 cs1 r1"
    and "fetched_log pr (rv0, cs0) (rv1, cs1) = (p, rv, cs)" "fst (log_summary cs) \<le> 0x3ff"
  shows "\<exists>t n. lfs_dir_fetch a pr s = Some (if cs = [] then Exc Corrupt else Val (), t)
    \<and> rd_state st dok blk bsz bcount cfg d a t \<and> l_nodes t a = Some n \<and> (if cs = [] then True else mdir_holds p rv cs (nd_m n))"
  by (rule dir_fetch_log [OF assms])

text \<open>
  Block 0 holds a commit that names a file and gives its contents; block 1, the later one, the
  same entries without their checksum.
\<close>

definition demo_entries :: "log_entry list" where
  "demo_entries = [(0x00100001, [97]), (0x20100002, [7, 9])]"

definition demo_commit :: log_commit where
  "demo_commit = (demo_entries, 0x500ffc04, [])"

definition demo_torn_dev :: ram_storage where
  "demo_torn_dev = \<lparr>ram_data =
     (u32_to_le 1 @ commits_bytes 0xffffffff (lfs_crc 0xffffffff (u32_to_le 1)) [demo_commit] @ replicate 105 0xff)
     @ (u32_to_le 2 @ entries_bytes 0xffffffff demo_entries @ replicate 113 0xff) @ replicate 256 0xff\<rparr>"

lemma demo_entries_wf: "list_all wf_entry demo_entries" "wf_commit demo_commit"
  by code_simp+


lemma demo_torn_lengths:
  "length (entries_bytes p demo_entries) = 11" "length (commits_bytes p crc [demo_commit]) = 19"
  by (simp_all add: demo_entries_def demo_commit_def entry_bytes_def commit_bytes_def Let_def)

lemma demo_torn_blocks:
  "ram_blk 128 demo_torn_dev 0 = u32_to_le 1 @ commits_bytes 0xffffffff (lfs_crc 0xffffffff (u32_to_le 1)) [demo_commit] @ replicate 105 0xff"
  "ram_blk 128 demo_torn_dev 1 = u32_to_le 2 @ entries_bytes 0xffffffff demo_entries @ replicate 113 0xff"
  by (simp_all add: ram_blk_def demo_torn_dev_def demo_torn_lengths del: commits_bytes.simps)

lemma demo_torn_wf: "ram_wf 128 4 demo_torn_dev"
  by (simp add: ram_wf_def demo_torn_dev_def demo_torn_lengths del: commits_bytes.simps)

lemma erased_torn: "\<not> bit p 31 \<Longrightarrow> 4 \<le> n \<Longrightarrow> no_entry p crc body (replicate n 0xff)"
proof -
  assume p: "\<not> bit p 31" and n: "4 \<le> n"
  have "u32_from_be (take 4 (replicate n 0xff)) = 0xffffffff" using n by (simp add: min_def) code_simp
  then show ?thesis using p n by (simp add: no_entry_def Let_def lfs_tag_isvalid_bit bit_simps)
qed

lemma demo_torn_logs:
  "block_log (ram_blk 128 demo_torn_dev 0) 1 [demo_commit] (replicate 105 0xff)"
  "block_log (ram_blk 128 demo_torn_dev 1) 2 [] (entries_bytes 0xffffffff demo_entries @ replicate 113 0xff)"
proof -
  have "end_tag 0xffffffff [demo_commit] = 0x500ffc04" by code_simp
  then have "torn (end_tag 0xffffffff [demo_commit]) 0xffffffff (replicate 105 0xff)"
    unfolding torn_def by (intro exI [of _ "[]"] exI [of _ "replicate 105 0xff"]) (simp add: erased_torn)
  then show "block_log (ram_blk 128 demo_torn_dev 0) 1 [demo_commit] (replicate 105 0xff)"
    unfolding block_log_def Let_def demo_torn_blocks using demo_entries_wf(2) by simp
  have "last_tag 0xffffffff demo_entries = 0x20100002" by code_simp
  then have "torn 0xffffffff crc (entries_bytes 0xffffffff demo_entries @ replicate 113 0xff)" for crc
    unfolding torn_def by (intro exI [of _ demo_entries] exI [of _ "replicate 113 0xff"]) (simp add: erased_torn demo_entries_wf)
  then show "block_log (ram_blk 128 demo_torn_dev 1) 2 [] (entries_bytes 0xffffffff demo_entries @ replicate 113 0xff)"
    unfolding block_log_def Let_def demo_torn_blocks by simp
qed

theorem dir_fetch_finds_complete_commits_witness:
  "\<exists>t n. lfs_dir_fetch 7 (0, 1) ((demo_state demo_torn_dev)\<lparr>l_nodes := [7 \<mapsto> node_default]\<rparr>) = Some (Val (), t)
    \<and> rd_state (ram_driver 128) (ram_wf 128 4) (ram_blk 128) 128 4 demo_config demo_torn_dev 7 t
    \<and> l_nodes t 7 = Some n \<and> mdir_holds (0, 1) 1 [demo_commit] (nd_m n)"
proof -
  have "fetched_log (0, 1) (1, [demo_commit]) (2, []) = ((0, 1), 1, [demo_commit])"
    by (simp add: fetched_log_def newer_log_def lfs_scmp_def lfs_pair_swap_def)
  moreover have "fst (log_summary [demo_commit]) \<le> 0x3ff" by code_simp
  ultimately show ?thesis
    using dir_fetch_finds_complete_commits [OF demo_device demo_rd_state [OF demo_torn_wf], of "(0, 1)" 1 "[demo_commit]" "replicate 105 0xff"
      2 "[]" "entries_bytes 0xffffffff demo_entries @ replicate 113 0xff" "(0, 1)" 1 "[demo_commit]"] demo_torn_logs
    by (simp add: demo_config_def)
qed

end
