(* ===== verification/WriteLog.thy ===== *)
theory WriteLog
  imports FetchLog
begin

text \<open>
  Writing to the log.  A commit appends its entries to what the block holds and closes them with
  a checksum that is read back; afterwards the device holds one commit more, in the format that
  a fetch reads, and nothing else has changed.
\<close>

subsection \<open>A block being written\<close>

text \<open>The block holds the bytes \<open>w\<close>, partly still in the program cache, and is erased behind them.\<close>

definition log_writer :: "'d storage \<Rightarrow> ('d \<Rightarrow> bool) \<Rightarrow> ('d \<Rightarrow> u32 \<Rightarrow> bytes) \<Rightarrow> nat \<Rightarrow> nat \<Rightarrow> 'd lfs_config \<Rightarrow>
    (nat \<Rightarrow> lfs_node option) \<Rightarrow> 'd \<Rightarrow> u32 \<Rightarrow> bytes \<Rightarrow> 'd lfs \<Rightarrow> bool" where
  "log_writer st dok blk bsz bcount cfg N d0 b w s \<longleftrightarrow>
     prog_ready_to st dok blk bsz bcount PCache b (length w) s \<and> length w \<le> bsz
     \<and> view_of blk (Some PCache) s b = w @ replicate (bsz - length w) 0xff
     \<and> l_cfg s = cfg \<and> l_nodes s = N
     \<and> cache_buffer (l_rcache s) \<noteq> cache_buffer (l_pcache s)
     \<and> cache_size (l_rcache s) \<le> length (l_bufs s (cache_buffer (l_rcache s)))
     \<and> unat (cfg_read_size cfg) \<le> length (l_bufs s (cache_buffer (l_rcache s)))
     \<and> length (l_bufs s (cache_buffer (l_rcache s))) < 2 ^ 31
     \<and> (\<forall>c. unat c < bcount \<longrightarrow> c \<noteq> b \<longrightarrow> blk (l_dev s) c = blk d0 c)"

text \<open>Between commits: nothing waits in the program cache.\<close>

definition log_ready :: "'d storage \<Rightarrow> ('d \<Rightarrow> bool) \<Rightarrow> ('d \<Rightarrow> u32 \<Rightarrow> bytes) \<Rightarrow> nat \<Rightarrow> nat \<Rightarrow> 'd lfs_config \<Rightarrow> 'd lfs \<Rightarrow> bool" where
  "log_ready st dok blk bsz bcount cfg s \<longleftrightarrow> 0 < bcount \<and> l_cfg s = cfg
     \<and> prog_geometry st dok bsz bcount (l_bufs s (cache_buffer (l_pcache s))) s
     \<and> cache_block (l_pcache s) = LFS_BLOCK_NULL
     \<and> l_bufs s (cache_buffer (l_pcache s)) = replicate (length (l_bufs s (cache_buffer (l_pcache s)))) 0xff
     \<and> cache_buffer (l_rcache s) \<noteq> cache_buffer (l_pcache s)
     \<and> coherent_to blk bsz bcount (cfg_read_size cfg) (l_dev s) (l_rcache s) (l_bufs s (cache_buffer (l_rcache s)))"

text \<open>The read cache holds nothing of that block.\<close>

definition rcache_elsewhere :: "('d \<Rightarrow> u32 \<Rightarrow> bytes) \<Rightarrow> nat \<Rightarrow> nat \<Rightarrow> u32 \<Rightarrow> 'd lfs \<Rightarrow> bool" where
  "rcache_elsewhere blk bsz bcount b s \<longleftrightarrow> cache_block (l_rcache s) \<noteq> b
     \<and> coherent_to blk bsz bcount (cfg_read_size (l_cfg s)) (l_dev s) (l_rcache s) (l_bufs s (cache_buffer (l_rcache s)))"

lemma splice_append: "splice (w @ replicate k x) (length w) bs = w @ bs @ replicate (k - length bs) x"
  by (simp add: splice_def)

text \<open>Reading another block does not bring a block into the read cache.\<close>

definition stays_off :: "u32 \<Rightarrow> 'd lfs \<Rightarrow> 'd lfs \<Rightarrow> bool" where
  "stays_off b s t \<longleftrightarrow> (cache_block (l_rcache s) \<noteq> b \<longrightarrow> cache_block (l_rcache t) \<noteq> b)"

interpretation so: frame_rel "stays_off b"
  by unfold_locales (auto simp: stays_off_def)

lemma so_basic:
  "keeps (stays_off b) (get_buf i)" "keeps (stays_off b) (put_buf i bs)" "keeps (stays_off b) (get_cache r)"
  "keeps (stays_off b) (aligndown_m x n)" "keeps (stays_off b) (alignup_m x n)" "keeps (stays_off b) (dev_read block off buf)"
  by (auto simp: keeps_def stays_off_def get_buf_def put_buf_def get_cache_def get_node_def aligndown_m_def dev_read_def
      alignup_m_def check_def run_simps bnd_def split: cache_ref.splits option.splits if_splits prod.splits)

lemma so_upd_cache: "(\<And>c. cache_block c \<noteq> b \<Longrightarrow> cache_block (f c) \<noteq> b) \<Longrightarrow> keeps (stays_off b) (upd_cache RCache f)"
  by (auto simp: keeps_def stays_off_def upd_cache_def run_simps)

lemma so_read: "block \<noteq> b \<Longrightarrow> b \<noteq> LFS_BLOCK_NULL \<Longrightarrow> keeps (stays_off b) (lfs_bd_read p RCache hint block off buf)"
  unfolding lfs_bd_read_def lfs_bd_read_buf_def lfs_bd_read_body_def bd_refill_def cache_copy_def probe_opt_def
  by (intro so.k_intros so_basic keeps_case_probe so_upd_cache) simp_all

lemma so_read_buf: "block \<noteq> b \<Longrightarrow> b \<noteq> LFS_BLOCK_NULL \<Longrightarrow> keeps (stays_off b) (lfs_bd_read_buf p RCache hint block off buf)"
  unfolding lfs_bd_read_buf_def lfs_bd_read_body_def bd_refill_def cache_copy_def probe_opt_def
  by (intro so.k_intros so_basic keeps_case_probe so_upd_cache) simp_all

lemma so_crc: "block \<noteq> b \<Longrightarrow> b \<noteq> LFS_BLOCK_NULL \<Longrightarrow> keeps (stays_off b) (lfs_bd_crc p RCache hint block off sz crc)"
  unfolding lfs_bd_crc_def lfs_bd_crc_buf_def lfs_bd_crc_body_def
  by (intro so.k_intros so_read)

subsection \<open>The tags that close a commit\<close>

abbreviation fcrc_tag :: u32 where "fcrc_tag \<equiv> lfs_mktag LFS_TYPE_FCRC 0x3ff 8"
abbreviation ccrc_tag :: "nat \<Rightarrow> u32" where "ccrc_tag \<equiv> lfs_mktag LFS_TYPE_CCRC 0x3ff"

lemma fcrc_tag_fields: "lfs_tag_isvalid fcrc_tag" "unat (lfs_tag_dsize fcrc_tag) = 12" "lfs_tag_type1 fcrc_tag = 0x500"
    "lfs_tag_type2 fcrc_tag \<noteq> LFS_TYPE_CCRC"
proof -
  have f: "lfs_tag_type3 fcrc_tag = LFS_TYPE_FCRC" "lfs_tag_size fcrc_tag = 8" "lfs_tag_isvalid fcrc_tag"
    using mktag_fields [of LFS_TYPE_FCRC "0x3ff" 8] by (simp_all add: LFS_TYPE_FCRC_def)
  then show "lfs_tag_isvalid fcrc_tag" "unat (lfs_tag_dsize fcrc_tag) = 12"
    by (simp_all add: unat_lfs_tag_dsize lfs_tag_isdelete_size)
  show "lfs_tag_type1 fcrc_tag = 0x500" "lfs_tag_type2 fcrc_tag \<noteq> LFS_TYPE_CCRC"
    unfolding tag_type_parts(1,2) f by (simp_all add: LFS_TYPE_FCRC_def LFS_TYPE_CCRC_def)
qed

lemma ccrc_tag_fields:
  assumes "n < 0x3ff"
  shows "lfs_tag_isvalid (ccrc_tag n)" "unat (lfs_tag_dsize (ccrc_tag n)) = 4 + n" "lfs_tag_type2 (ccrc_tag n) = LFS_TYPE_CCRC"
    "next_tag (ccrc_tag n) = ccrc_tag n"
proof -
  have f: "lfs_tag_type3 (ccrc_tag n) = LFS_TYPE_CCRC" "lfs_tag_size (ccrc_tag n) = word_of_nat n" "lfs_tag_isvalid (ccrc_tag n)"
    using mktag_fields [of LFS_TYPE_CCRC "0x3ff" n] assms by (simp_all add: LFS_TYPE_CCRC_def)
  have "unat (word_of_nat n :: u32) = n" using assms by (simp add: unat_of_nat)
  moreover from this have "word_of_nat n \<noteq> (0x3ff :: u32)" using assms by (auto simp: word_unat_eq_iff)
  ultimately show "lfs_tag_isvalid (ccrc_tag n)" "unat (lfs_tag_dsize (ccrc_tag n)) = 4 + n"
    by (simp_all add: unat_lfs_tag_dsize lfs_tag_isdelete_size f)
  show "lfs_tag_type2 (ccrc_tag n) = LFS_TYPE_CCRC" unfolding tag_type_parts(2) f by (simp add: LFS_TYPE_CCRC_def)
  have "lfs_tag_chunk (ccrc_tag n) = 0" unfolding tag_type_parts(3) f by (simp add: LFS_TYPE_CCRC_def)
  then show "next_tag (ccrc_tag n) = ccrc_tag n" by (simp add: next_tag_def)
qed

text \<open>The optional entry for the erased part.\<close>

definition closing :: "log_entry list \<Rightarrow> bool" where
  "closing fc \<longleftrightarrow> fc = [] \<or> (\<exists>data. fc = [(fcrc_tag, data)] \<and> length data = 8)"

definition with_entries :: "log_entry list \<Rightarrow> lfs_commit \<Rightarrow> lfs_commit" where
  "with_entries es cm = cm\<lparr>cm_crc := lfs_crc (cm_crc cm) (entries_bytes (cm_ptag cm) es),
     cm_off := cm_off cm + word_of_nat (length (entries_bytes (cm_ptag cm) es)), cm_ptag := last_tag (cm_ptag cm) es\<rparr>"

text \<open>The entries of a commit, in the order they are written.\<close>

primrec commit_entries :: "lfs_commit \<Rightarrow> log_entry list \<Rightarrow> ('d, lfs_commit) fs" where
  "commit_entries cm [] = ret cm"
| "commit_entries cm (e # es) = bnd (lfs_dir_commitattr cm (fst e) (Bytes (snd e))) (\<lambda>cm. commit_entries cm es)"

text \<open>A commit is about to begin behind the complete commits \<open>cs\<close>.\<close>

definition log_head :: "u32 \<Rightarrow> log_commit list \<Rightarrow> bytes" where
  "log_head rv cs = u32_to_le rv @ commits_bytes 0xffffffff (lfs_crc 0xffffffff (u32_to_le rv)) cs"

definition begins :: "u32 \<Rightarrow> log_commit list \<Rightarrow> lfs_commit \<Rightarrow> bool" where
  "begins rv cs cm \<longleftrightarrow> list_all wf_commit cs \<and> unat (cm_off cm) = length (log_head rv cs) \<and> cm_ptag cm = end_tag 0xffffffff cs
    \<and> unat (cm_begin cm) = (if cs = [] then 0 else length (log_head rv cs))
    \<and> cm_crc cm = (if cs = [] then lfs_crc 0xffffffff (u32_to_le rv) else 0xffffffff)"

lemma entries_append: "entries_bytes p (es @ fs) = entries_bytes p es @ entries_bytes (last_tag p es) fs"
  by (induction es arbitrary: p) simp_all

lemma last_tag_append: "last_tag p (es @ fs) = last_tag (last_tag p es) fs"
  by (induction es arbitrary: p) simp_all

lemma end_tag_append: "end_tag p (cs @ [c]) = next_tag (fst (snd c))"
  by (induction cs arbitrary: p) simp_all

lemma commits_append:
  "commits_bytes p crc (cs @ [c]) = commits_bytes p crc cs @ commit_bytes (end_tag p cs) (if cs = [] then crc else 0xffffffff) c"
  by (induction cs arbitrary: p crc) simp_all

lemma closing_summary: "closing fc \<Longrightarrow> fold note_entry fc sm = sm"
  by (cases sm) (auto simp: closing_def note_entry_def fcrc_tag_fields LFS_TYPE_NAME_def LFS_TYPE_SPLICE_def LFS_TYPE_TAIL_def)

lemma log_summary_closed: "closing fc \<Longrightarrow> log_summary (cs @ [(es @ fc, ctag, pad)]) = fold note_entry es (log_summary cs)"
  by (simp add: log_summary_def closing_summary)

lemma closing_wf: "closing fc \<Longrightarrow> list_all wf_entry fc"
  by (auto simp: closing_def wf_entry_def fcrc_tag_fields)

lemma erased_is_torn: "lfs_tag_isvalid p \<Longrightarrow> torn p crc (replicate n 0xff)"
proof -
  assume "lfs_tag_isvalid p"
  then have "no_entry p crc [] (replicate n 0xff)"
    using erased_torn [of p n crc "[]"] by (cases "4 \<le> n") (simp_all add: lfs_tag_isvalid_bit no_entry_def)
  then show ?thesis
    unfolding torn_def by (intro exI [of _ "[]"] exI [of _ "replicate n 0xff"]) simp
qed

context block_device
begin

abbreviation writer where "writer \<equiv> log_writer st dok blk bsz bcount"
abbreviation elsewhere where "elsewhere \<equiv> rcache_elsewhere blk bsz bcount"

abbreviation ready where "ready \<equiv> log_ready st dok blk bsz bcount"

lemma ready_rd: "ready cfg s \<Longrightarrow> l_dev s = d \<Longrightarrow> l_nodes s a \<noteq> None \<Longrightarrow> rd cfg d a s"
  by (auto simp: log_ready_def rd_state_def prog_geometry_def)

lemma ready_read: "ready cfg s \<Longrightarrow> unat b < bcount \<Longrightarrow> read_ready None RCache b s"
  by (auto simp: log_ready_def read_ready_to_def prog_geometry_def cache_of_PCache pcached_def pcache_in_def)

lemma ready_reloaded:
  assumes "ready cfg s" "reloaded RCache s t"
  shows "ready cfg t" "l_dev t = l_dev s" "l_nodes t = l_nodes s"
proof -
  obtain c' b' where t: "t = load RCache c' b' s" "cache_buffer c' = cache_buffer (l_rcache s)"
    "coherent (cfg_read_size (l_cfg s)) (l_dev s) c' b'"
    using assms(2) by (auto simp: reloaded_def cache_of_PCache)
  have pt: "l_rcache t = c'" "l_pcache t = l_pcache s" "l_bufs t = (l_bufs s)(cache_buffer c' := b')" "l_cfg t = l_cfg s"
    "l_nodes t = l_nodes s" "l_dev t = l_dev s" "l_block_count t = l_block_count s"
    by (simp_all add: t load_def set_cache_def)
  show "l_dev t = l_dev s" "l_nodes t = l_nodes s" by (simp_all add: pt)
  show "ready cfg t"
    using assms(1) t(2,3) by (auto simp: log_ready_def pt prog_geometry_def attached_to_def)
qed

lemma ready_view: "view None s b = blk (l_dev s) b"
  by (simp add: view_of_def overlay_def pcached_def)

lemma ready_crc:
  assumes "ready cfg s" "unat b < bcount" "off + n \<le> bsz" "n \<le> unat hint" "unat hint \<le> 2 ^ 31"
  shows "\<exists>t. lfs_bd_crc None RCache hint b off n c s = Some (Val (lfs_crc c (take n (drop off (blk (l_dev s) b)))), t)
    \<and> ready cfg t \<and> l_dev t = l_dev s \<and> l_nodes t = l_nodes s"
proof -
  obtain t where t: "lfs_bd_crc_buf None RCache hint b off n c s =
      Some (Val (Inr (), lfs_crc c (take n (drop off (blk (l_dev s) b)))), t)" "reloaded RCache s t"
    by (rule bd_crc_correct [OF ready_read [OF assms(1,2)] assms(4,5,3)]) (auto simp: ready_view)
  then show ?thesis
    using ready_reloaded [OF assms(1) t(2)] by (intro exI [of _ t]) (simp add: lfs_bd_crc_def bnd_def ret_def)
qed

text \<open>Erasing a block starts a new log.\<close>

lemma ready_writer:
  assumes r: "ready cfg s" and b: "unat b < bcount" and w: "blk (l_dev s) b = w @ replicate (bsz - length w) 0xff" "length w \<le> bsz"
      "unat (cfg_prog_size cfg) dvd length w" and d0: "\<forall>c. unat c < bcount \<longrightarrow> c \<noteq> b \<longrightarrow> blk (l_dev s) c = blk d0 c"
  shows "log_writer st dok blk bsz bcount cfg (l_nodes s) d0 b w s"
proof -
  have "erased (l_dev s) b (length w)" using w(1,2) by (auto simp: erased_from_def nth_append)
  then have "prog_ready PCache b (length w) s"
    using r b w(3) by (auto simp: log_ready_def prog_ready_to_def cache_of_PCache pcache_clean_def)
  moreover have "view (Some PCache) s b = blk (l_dev s) b"
    using view_empty [of PCache s "l_pcache s" b] r b by (simp add: log_ready_def cache_of_PCache prog_geometry_def)
  ultimately show ?thesis
    using r w d0 by (simp add: log_writer_def log_ready_def coherent_to_def)
qed

lemma ready_elsewhere: "ready cfg s \<Longrightarrow> cache_block (l_rcache s) \<noteq> b \<Longrightarrow> elsewhere b s"
  by (simp add: log_ready_def rcache_elsewhere_def)

lemma ready_erase:
  assumes r: "ready cfg s" and b: "unat b < bcount" and e: "cache_block (l_rcache s) \<noteq> b"
  shows "\<exists>d'. lfs_bd_erase b s = Some (Val (), s\<lparr>l_dev := d'\<rparr>)
    \<and> log_writer st dok blk bsz bcount cfg (l_nodes s) (l_dev s) b [] (s\<lparr>l_dev := d'\<rparr>) \<and> elsewhere b (s\<lparr>l_dev := d'\<rparr>)"
proof -
  have att: "attached s" and ok: "dok (l_dev s)" using r by (auto simp: log_ready_def prog_geometry_def attached_to_def)
  obtain d' where d': "st_erase st b (l_dev s) = (Inr (), d')" "dok d'"
    "\<And>c. unat c < bcount \<Longrightarrow> blk d' c = (if c = b then replicate bsz 0xff else blk (l_dev s) c)"
    using erase_law [OF ok b] by blast
  let ?t = "s\<lparr>l_dev := d'\<rparr>"
  have run: "lfs_bd_erase b s = Some (Val (), ?t)"
    using att b d'(1) by (simp add: lfs_bd_erase_def bnd_gets dev_erase_def attached_to_def word_less_nat_alt ret_def)
  have "coherent (cfg_read_size cfg) d' (l_rcache s) (l_bufs s (cache_buffer (l_rcache s)))"
    using r e d'(3) by (auto simp: log_ready_def coherent_to_def)
  then have rt: "ready cfg ?t"
    using r d'(2) by (auto simp: log_ready_def prog_geometry_def attached_to_def)
  have "log_writer st dok blk bsz bcount cfg (l_nodes ?t) (l_dev s) b [] ?t"
    by (rule ready_writer [OF rt b]) (use d'(3) b in auto)
  with run ready_elsewhere [OF rt, of b] e show ?thesis by (intro exI [of _ d']) simp
qed

text \<open>Only the block being written is in the program cache.\<close>

lemma prog_ready_other:
  assumes "prog_ready PCache b off s" "unat c < bcount" "c \<noteq> b"
  shows "view (Some PCache) s c = blk (l_dev s) c"
proof -
  have "c \<noteq> LFS_BLOCK_NULL" using assms unat_BLOCK_NULL by (auto simp: prog_ready_to_def prog_geometry_def)
  then show ?thesis
    using assms by (auto simp: prog_ready_to_def view_of_def overlay_def pcached_def split: if_splits)
qed

lemma prog_ready_erased:
  assumes "prog_ready PCache b off s"
  shows "erased (l_dev s) b off"
  using assms by (auto simp: prog_ready_to_def erased_from_def pcache_clean_def split: if_splits)

lemma writer_progged:
  assumes w: "writer cfg N d0 b w s" and t: "t = progged PCache pc pb d s" "cache_buffer pc = cache_buffer (l_pcache s)"
    and ready: "prog_ready PCache b (length w + length bs) t" and fits: "length w + length bs \<le> bsz"
    and v: "\<And>c. unat c < bcount \<Longrightarrow> view (Some PCache) t c =
      (if c = b then splice (view (Some PCache) s c) (length w) bs else view (Some PCache) s c)"
  shows "writer cfg N d0 b (w @ bs) t" "elsewhere b s \<Longrightarrow> elsewhere b t"
proof -
  have rs: "prog_ready PCache b (length w) s" using w by (simp add: log_writer_def)
  have b: "unat b < bcount" using rs by (simp add: prog_ready_to_def)
  have pt: "l_rcache t = l_rcache s" "l_pcache t = pc" "l_bufs t = (l_bufs s)(cache_buffer pc := pb)" "l_cfg t = l_cfg s" "l_nodes t = l_nodes s"
    by (simp_all add: t progged_def load_def set_cache_def)
  have keep: "blk (l_dev t) c = blk (l_dev s) c" if "unat c < bcount" "c \<noteq> b" for c
    using v [OF that(1)] that prog_ready_other [OF rs that] prog_ready_other [OF ready that] by simp
  have "view (Some PCache) t b = (w @ bs) @ replicate (bsz - length (w @ bs)) 0xff"
    using v [OF b] w by (simp add: log_writer_def splice_append)
  then show "writer cfg N d0 b (w @ bs) t"
    using w ready fits keep t(2) by (auto simp: log_writer_def pt)
  show "elsewhere b t" if "elsewhere b s"
    using that w keep [of "cache_block (l_rcache s)"] t(2) by (auto simp: rcache_elsewhere_def log_writer_def coherent_to_def pt)
qed

lemma writer_attr:
  assumes w: "writer cfg N d0 b w s" and cm: "cm_block cm = b" "unat (cm_off cm) = length w"
    and room: "length w + unat (lfs_tag_dsize tag) \<le> unat (cm_end cm)" "unat (cm_end cm) \<le> bsz"
    and tag: "lfs_tag_isvalid tag" "length data = unat (lfs_tag_dsize tag) - 4"
  shows "\<exists>t. lfs_dir_commitattr cm tag (Bytes data) s = Some (Val (cm\<lparr>cm_crc := lfs_crc (cm_crc cm) (entry_bytes (cm_ptag cm) tag data),
        cm_off := cm_off cm + lfs_tag_dsize tag, cm_ptag := tag\<rparr>), t)
      \<and> writer cfg N d0 b (w @ entry_bytes (cm_ptag cm) tag data) t \<and> (elsewhere b s \<longrightarrow> elsewhere b t)"
proof -
  have ready: "prog_ready PCache (cm_block cm) (unat (cm_off cm)) s" using w by (simp add: log_writer_def cm)
  have len: "length (entry_bytes (cm_ptag cm) tag data) = unat (lfs_tag_dsize tag)"
    using tag(2) unat_4_dsize(2) [of tag] by (simp add: entry_bytes_def)
  obtain pc pb d where run: "lfs_dir_commitattr cm tag (Bytes data) s = Some (Val (cm\<lparr>cm_crc := lfs_crc (cm_crc cm) (entry_bytes (cm_ptag cm) tag data),
        cm_off := cm_off cm + lfs_tag_dsize tag, cm_ptag := tag\<rparr>), progged PCache pc pb d s)"
    and post: "cache_buffer pc = cache_buffer (l_pcache s)" "dok d"
    "prog_ready PCache (cm_block cm) (unat (cm_off cm) + unat (lfs_tag_dsize tag)) (progged PCache pc pb d s)"
    "\<And>c. unat c < bcount \<Longrightarrow> view (Some PCache) (progged PCache pc pb d s) c =
      (if c = cm_block cm then splice (view (Some PCache) s c) (unat (cm_off cm)) (entry_bytes (cm_ptag cm) tag data)
       else view (Some PCache) s c)"
    by (rule commitattr_correct [OF ready _ room(2) tag]) (use room cm in auto)
  show ?thesis
    using run writer_progged [OF w refl post(1), of "entry_bytes (cm_ptag cm) tag data" pb d] post(3,4) room len cm by auto
qed

text \<open>Reading through the read cache leaves the writer as it is.\<close>

lemma writer_reloaded:
  assumes w: "writer cfg N d0 b w s" and t: "reloaded RCache s t"
  shows "writer cfg N d0 b w t"
proof -
  obtain c' b' where t': "t = load RCache c' b' s" "cache_buffer c' = cache_buffer (l_rcache s)"
    "coherent (cfg_read_size (l_cfg s)) (l_dev s) c' b'"
    using t by (auto simp: reloaded_def cache_of_PCache)
  have pt: "l_rcache t = c'" "l_pcache t = l_pcache s" "l_bufs t = (l_bufs s)(cache_buffer c' := b')" "l_cfg t = l_cfg s"
    "l_nodes t = l_nodes s" "l_dev t = l_dev s" "l_block_count t = l_block_count s"
    by (simp_all add: t' load_def set_cache_def)
  have pb: "l_bufs t (cache_buffer (l_pcache s)) = l_bufs s (cache_buffer (l_pcache s))"
    using w t'(2) by (simp add: pt log_writer_def)
  have v: "view (Some PCache) t b = view (Some PCache) s b"
    by (simp add: view_of_def pcached_def cache_of_PCache pt(2,6) pb)
  have r: "prog_ready PCache b (length w) s" using w by (simp add: log_writer_def)
  have "prog_ready PCache b (length w) t"
    using r by (simp add: prog_ready_to_def cache_of_PCache prog_geometry_def attached_to_def pt(2,4,6,7) pb)
  then show ?thesis
    using w t'(2,3) v by (auto simp: log_writer_def coherent_to_def pt)
qed

lemma writer_ready:
  assumes "writer cfg N d0 b w s" "elsewhere b s"
  shows "read_ready None RCache b s"
  using assms by (auto simp: log_writer_def rcache_elsewhere_def read_ready_to_def prog_ready_to_def prog_geometry_def cache_of_PCache
      pcached_def pcache_in_def)

lemma writer_facts:
  assumes "writer cfg N d0 b w s"
  shows "attached s" "unat b < bcount" "dok (l_dev s)" "bsz < 2 ^ 30" "unat (cfg_block_size cfg) = bsz"
    "0 < unat (cfg_prog_size cfg)" "unat (cfg_prog_size cfg) dvd bsz" "length w \<le> bsz" "l_cfg s = cfg"
  using assms by (auto simp: log_writer_def prog_ready_to_def prog_geometry_def attached_to_def)

text \<open>The entry that says what the erased part looks like.\<close>

lemma writer_fcrc:
  assumes w: "writer cfg N d0 b w s" and e: "elsewhere b s" and cm: "cm_block cm = b" "unat (cm_off cm) = length w"
    and room: "length w + 12 \<le> unat (cm_end cm)" "unat (cm_end cm) \<le> bsz"
    and noff: "length w \<le> noff" "noff + unat (cfg_prog_size cfg) \<le> bsz"
  shows "\<exists>data t. length data = 8 \<and> commit_fcrc noff cm s = Some (Val (0xff, cm\<lparr>cm_crc := lfs_crc (cm_crc cm) (entry_bytes (cm_ptag cm) fcrc_tag data),
        cm_off := cm_off cm + lfs_tag_dsize fcrc_tag, cm_ptag := fcrc_tag\<rparr>), t)
      \<and> writer cfg N d0 b (w @ entry_bytes (cm_ptag cm) fcrc_tag data) t"
proof -
  note f = writer_facts [OF w]
  let ?v = "blk (l_dev s) b" and ?ps = "cfg_prog_size cfg"
  have rr: "read_ready None RCache b s" by (rule writer_ready [OF w e])
  have vn: "view None s b = ?v" by (simp add: view_of_def overlay_def pcached_def)
  have len: "length ?v = bsz" by (rule blk_length [OF f(3,2)])
  have "erased (l_dev s) b (length w)" using prog_ready_erased w by (auto simp: log_writer_def)
  then have ff: "take (length [0xff :: u8]) (drop noff ?v) = [0xff]"
    using noff f(6) len by (simp add: erased_from_def take_Suc_conv_app_nth)
  obtain s1 where r1: "lfs_bd_read_buf None RCache (unat ?ps) b noff [0xff] s = Some (Val (Inr (), [0xff]), s1)" "reloaded RCache s s1"
  proof -
    obtain c where c: "cache_of RCache s = Some c" by (simp add: cache_of_PCache)
    show ?thesis
      by (rule bd_read_buf_correct [OF rr c, of "unat ?ps" noff "[0xff]"])
        (use that ff vn noff f c in \<open>auto simp: reloaded_def\<close>)
  qed
  have rr1: "read_ready None RCache b s1" and vn1: "view None s1 b = ?v" using reloaded_ready [OF rr r1(2)] vn by auto
  obtain s2 where r2: "lfs_bd_crc_buf None RCache ?ps b noff (unat ?ps) 0xffffffff s1 =
      Some (Val (Inr (), lfs_crc 0xffffffff (take (unat ?ps) (drop noff ?v))), s2)" "reloaded RCache s1 s2"
    by (rule bd_crc_correct [OF rr1, of "unat ?ps" ?ps noff]) (use noff f vn1 in auto)
  have w2: "writer cfg N d0 b w s2" by (rule writer_reloaded [OF writer_reloaded [OF w r1(2)] r2(2)])
  let ?data = "lfs_fcrc_tole32 \<lparr>fcrc_size = ?ps, fcrc_crc = lfs_crc 0xffffffff (take (unat ?ps) (drop noff ?v))\<rparr>"
  have ld: "length ?data = 8" by (simp add: lfs_fcrc_tole32_def)
  obtain t where at: "lfs_dir_commitattr cm fcrc_tag (Bytes ?data) s2 = Some (Val (cm\<lparr>cm_crc := lfs_crc (cm_crc cm) (entry_bytes (cm_ptag cm) fcrc_tag ?data),
        cm_off := cm_off cm + lfs_tag_dsize fcrc_tag, cm_ptag := fcrc_tag\<rparr>), t)"
      "writer cfg N d0 b (w @ entry_bytes (cm_ptag cm) fcrc_tag ?data) t"
    using writer_attr [OF w2 cm, of fcrc_tag ?data] room fcrc_tag_fields ld by auto
  have b1: "bnd (lfs_bd_read_buf None RCache (unat ?ps) b noff [0xff]) k s = k (Inr (), [0xff]) s1" for k :: "_ \<Rightarrow> ('d, 'x) fs"
    by (rule bnd_run_Val) (rule r1(1))
  have b2: "bnd (lfs_bd_crc_buf None RCache ?ps b noff (unat ?ps) 0xffffffff) k s1
      = k (Inr (), lfs_crc 0xffffffff (take (unat ?ps) (drop noff ?v))) s2" for k :: "_ \<Rightarrow> ('d, 'x) fs"
    by (rule bnd_run_Val) (rule r2(1))
  have b3: "bnd (lfs_dir_commitattr cm fcrc_tag (Bytes ?data)) k s2 = k (cm\<lparr>cm_crc := lfs_crc (cm_crc cm) (entry_bytes (cm_ptag cm) fcrc_tag ?data),
        cm_off := cm_off cm + lfs_tag_dsize fcrc_tag, cm_ptag := fcrc_tag\<rparr>) t" for k :: "_ \<Rightarrow> ('d, 'x) fs"
    by (rule bnd_run_Val) (rule at(1))
  have "commit_fcrc noff cm s = Some (Val (0xff, cm\<lparr>cm_crc := lfs_crc (cm_crc cm) (entry_bytes (cm_ptag cm) fcrc_tag ?data),
        cm_off := cm_off cm + lfs_tag_dsize fcrc_tag, cm_ptag := fcrc_tag\<rparr>), t)"
    by (simp only: commit_fcrc_def bnd_gets Let_def f(9) cm(1) b1 prod.case sum.case bnd_ret b2 b3) (simp add: ret_def)
  with at(2) ld show ?thesis by blast
qed

text \<open>Writing the caches out.\<close>

lemma writer_sync:
  assumes w: "writer cfg N d0 b w s"
  shows "\<exists>t. lfs_bd_sync PCache RCache False s = Some (Val (), t) \<and> ready cfg t \<and> l_nodes t = N
    \<and> cache_block (l_rcache t) = LFS_BLOCK_NULL \<and> blk (l_dev t) b = w @ replicate (bsz - length w) 0xff \<and> (\<forall>c. unat c < bcount \<longrightarrow> c \<noteq> b \<longrightarrow> blk (l_dev t) c = blk d0 c)"
proof -
  note f = writer_facts [OF w]
  have rs: "prog_ready PCache b (length w) s" using w by (simp add: log_writer_def)
  have few: "bcount < 2 ^ 32 - 2" "0 < bsz" using rs by (auto simp: prog_ready_to_def prog_geometry_def)
  let ?rc = "l_rcache s" and ?pc = "l_pcache s"
  obtain pc' pb' d where run: "lfs_bd_sync PCache RCache False s =
      Some (Val (), progged PCache pc' pb' d (set_cache RCache (?rc\<lparr>cache_block := LFS_BLOCK_NULL\<rparr>) s))"
    and post: "cache_buffer pc' = cache_buffer ?pc" "dok d" "\<And>c. unat c < bcount \<Longrightarrow> blk d c = view (Some PCache) s c"
      "cache_block pc' = LFS_BLOCK_NULL" "pb' = replicate (length (l_bufs s (cache_buffer ?pc))) 0xff"
    by (rule bd_sync_correct [of PCache s ?pc RCache ?rc "l_bufs s (cache_buffer ?pc)"])
      (use rs in \<open>auto simp: prog_ready_to_def cache_of_PCache\<close>)
  let ?t = "progged PCache pc' pb' d (set_cache RCache (?rc\<lparr>cache_block := LFS_BLOCK_NULL\<rparr>) s)"
  have pt: "l_rcache ?t = ?rc\<lparr>cache_block := LFS_BLOCK_NULL\<rparr>" "l_cfg ?t = cfg" "l_dev ?t = d" "l_nodes ?t = N"
    "l_block_count ?t = l_block_count s" "l_bufs ?t (cache_buffer ?rc) = l_bufs s (cache_buffer ?rc)"
    "l_pcache ?t = pc'" "l_bufs ?t (cache_buffer pc') = pb'"
    using w post(1) by (simp_all add: progged_def load_def set_cache_def log_writer_def)
  have att: "attached ?t"
    using f(1) post(2) unfolding attached_to_def pt f(9) [symmetric] by simp
  have "coherent (cfg_read_size cfg) d (?rc\<lparr>cache_block := LFS_BLOCK_NULL\<rparr>) (l_bufs s (cache_buffer ?rc))"
    using w few unat_BLOCK_NULL by (auto simp: coherent_to_def log_writer_def)
  moreover have "geometry pb' ?t"
    using rs att post(5) pt(2) f(9) by (auto simp: prog_ready_to_def prog_geometry_def cache_of_PCache)
  ultimately have "ready cfg ?t"
    using f(2) w post(1,4,5) unfolding log_ready_def pt(1-3,7) by (simp add: pt(6,8) log_writer_def)
  moreover have "blk d b = w @ replicate (bsz - length w) 0xff"
    using post(3) [OF f(2)] w by (simp add: log_writer_def)
  moreover have "blk d c = blk d0 c" if "unat c < bcount" "c \<noteq> b" for c
    using post(3) [OF that(1)] prog_ready_other [OF rs that] w that by (auto simp: log_writer_def)
  moreover have "cache_block (l_rcache ?t) = LFS_BLOCK_NULL" by (simp add: pt(1))
  ultimately show ?thesis using run pt(3,4) by metis
qed

text \<open>The entry that closes the commit, on its own.\<close>

lemma writer_prog:
  assumes w: "writer cfg N d0 b w s" and fits: "length w + length bs \<le> bsz"
  shows "\<exists>t. lfs_bd_prog PCache RCache False b (length w) bs s = Some (Val (), t) \<and> writer cfg N d0 b (w @ bs) t"
proof -
  have rs: "prog_ready PCache b (length w) s" using w by (simp add: log_writer_def)
  obtain pc pb d where run: "lfs_bd_prog PCache RCache False b (length w) bs s = Some (Val (), progged PCache pc pb d s)"
    and post: "cache_buffer pc = cache_buffer (l_pcache s)" "dok d"
      "prog_ready PCache b (length w + length bs) (progged PCache pc pb d s)"
      "\<And>c. unat c < bcount \<Longrightarrow> view (Some PCache) (progged PCache pc pb d s) c =
        (if c = b then splice (view (Some PCache) s b) (length w) bs else view (Some PCache) s c)"
    by (rule bd_prog_correct [OF rs cache_of_PCache(1) fits, of RCache]) blast
  show ?thesis using run writer_progged(1) [OF w refl post(1,3) fits] post(4) by auto
qed

text \<open>Where a commit ends: the next program boundary that leaves room for the closing entries.\<close>

lemma commit_end:
  assumes "unat off < 2 ^ 30" "unat bs < 2 ^ 30" "unat ps \<noteq> 0" "unat ps dvd unat bs" "unat off + 8 \<le> unat bs"
  defines "fin \<equiv> unat (lfs_alignup (min (off + 20) bs) ps)"
  shows "unat off + 8 \<le> fin" "fin \<le> unat bs" "fin < unat off + 20 + unat ps"
    "fin + unat ps \<le> unat bs \<Longrightarrow> unat off + 20 \<le> fin" "unat ps dvd fin"
proof -
  have u20: "unat (off + 20) = unat off + 20" using assms(1) by (simp add: unat_word_ariths)
  then have m: "unat (min (off + 20) bs) = min (unat off + 20) (unat bs)"
    by (simp add: min_def word_le_nat_alt)
  have ps: "ps \<noteq> 0" using assms(3) by auto
  have "0 < unat bs" using assms(5) by simp
  then have le: "unat ps \<le> unat bs" using assms(4) by (auto dest: dvd_imp_le)
  have fit: "unat (min (off + 20) bs) + unat ps \<le> 2 ^ 32" using le assms(2) by (simp add: m)
  note a = lfs_alignup_ge [OF ps fit, folded fin_def, unfolded m] lfs_alignup_lt [OF ps fit, folded fin_def, unfolded m]
    lfs_alignup_dvd [of ps "min (off + 20) bs", folded fin_def]
  show "unat off + 8 \<le> fin" "fin < unat off + 20 + unat ps" using a(1,2) assms(5) by auto
  show b: "fin \<le> unat bs" by (rule multiple_le [OF a(3) assms(4)]) (use a(2) in simp)
  show "unat ps dvd fin" by (rule a(3))
  show "unat off + 20 \<le> fin" if "fin + unat ps \<le> unat bs" using that a(1) assms(3) by (auto simp: min_def split: if_splits)
qed

lemma writer_optional_fcrc:
  assumes w: "writer cfg N d0 b w s" and e: "elsewhere b s" and cm: "cm_block cm = b" "unat (cm_off cm) = length w"
    and room: "unat (cm_end cm) + 8 = bsz" "length w + 8 \<le> fin" "fin \<le> bsz"
      "fin + unat (cfg_prog_size cfg) \<le> bsz \<Longrightarrow> length w + 20 \<le> fin"
  shows "\<exists>fc s1. closing fc \<and> (if fin \<le> usize_sub bsz (unat (cfg_prog_size cfg)) then commit_fcrc fin cm else ret (0xff, cm)) s
      = Some (Val (0xff, with_entries fc cm), s1)
    \<and> writer cfg N d0 b (w @ entries_bytes (cm_ptag cm) fc) s1 \<and> length w + length (entries_bytes (cm_ptag cm) fc) + 8 \<le> fin"
proof (cases "fin \<le> usize_sub bsz (unat (cfg_prog_size cfg))")
  case False
  then show ?thesis
    using w room by (intro exI [of _ "[]"] exI [of _ s]) (simp add: closing_def with_entries_def ret_def)
next
  case True
  note f = writer_facts [OF w]
  have "unat (cfg_prog_size cfg) \<le> bsz" using f room by (auto dest: dvd_imp_le)
  then have fits: "fin + unat (cfg_prog_size cfg) \<le> bsz" using True by (simp add: usize_sub_def)
  have "length w + 12 \<le> unat (cm_end cm)" "unat (cm_end cm) \<le> bsz" "length w \<le> fin"
    using room fits f(6) by auto
  from writer_fcrc [OF w e cm this fits] obtain data t where
    dt: "length data = 8" "commit_fcrc fin cm s = Some (Val (0xff, cm\<lparr>cm_crc := lfs_crc (cm_crc cm) (entry_bytes (cm_ptag cm) fcrc_tag data),
        cm_off := cm_off cm + lfs_tag_dsize fcrc_tag, cm_ptag := fcrc_tag\<rparr>), t)"
      "writer cfg N d0 b (w @ entry_bytes (cm_ptag cm) fcrc_tag data) t" by blast
  have "lfs_tag_dsize fcrc_tag = 12" using fcrc_tag_fields(2) by (simp add: word_unat_eq_iff)
  then show ?thesis
    using dt True room(4) [OF fits]
    by (intro exI [of _ "[(fcrc_tag, data)]"] exI [of _ t]) (simp add: closing_def with_entries_def entry_bytes_def)
qed

text \<open>The commit is closed, written out, and read back.\<close>

lemma writer_close:
  assumes w: "writer cfg N d0 b w s" and e: "elsewhere b s"
    and cm: "cm_block cm = b" "unat (cm_off cm) = length w" "unat (cm_begin cm) \<le> length w"
      "cm_crc cm = lfs_crc 0xffffffff (drop (unat (cm_begin cm)) w)"
    and room: "unat (cm_end cm) + 8 = bsz" "length w + 8 \<le> bsz" and small: "unat (cfg_prog_size cfg) \<le> 1000"
  shows "\<exists>fc n t cm'. closing fc \<and> 4 \<le> n \<and> n < 0x3ff \<and> lfs_dir_commitcrc cm s = Some (Val cm', t) \<and> ready cfg t \<and> l_nodes t = N
    \<and> (\<forall>c. unat c < bcount \<longrightarrow> c \<noteq> b \<longrightarrow> blk (l_dev t) c = blk d0 c)
    \<and> (\<forall>z. unat z < bcount \<longrightarrow> z \<noteq> b \<longrightarrow> cache_block (l_rcache t) \<noteq> z)
    \<and> cm_ptag cm' = ccrc_tag n \<and> unat (cfg_prog_size cfg) dvd unat (cm_off cm')
    \<and> (let body = entries_bytes (cm_ptag cm) fc @ u32_to_be (ccrc_tag n XOR last_tag (cm_ptag cm) fc);
           w' = w @ body @ u32_to_le (lfs_crc (cm_crc cm) body)
       in length w' + (n - 4) \<le> bsz \<and> unat (cm_off cm') = length w' + (n - 4) \<and> blk (l_dev t) b = w' @ replicate (bsz - length w') 0xff)"
proof -
  note f = writer_facts [OF w]
  let ?bs = "cfg_block_size cfg" and ?ps = "cfg_prog_size cfg"
  define fin where "fin = unat (lfs_alignup (min (cm_off cm + 20) ?bs) ?ps)"
  have fin: "length w + 8 \<le> fin" "fin \<le> bsz" "fin < length w + 20 + unat ?ps" "fin + unat ?ps \<le> bsz \<Longrightarrow> length w + 20 \<le> fin"
    "unat ?ps dvd fin"
    using commit_end [of "cm_off cm" ?bs ?ps, folded fin_def] f room cm by auto
  have ps: "?ps \<noteq> 0" using f(6) by auto
  obtain fc s1 where fc: "closing fc" and r1: "(if fin \<le> usize_sub bsz (unat ?ps) then commit_fcrc fin cm else ret (0xff, cm)) s
      = Some (Val (0xff, with_entries fc cm), s1)"
    and w1: "writer cfg N d0 b (w @ entries_bytes (cm_ptag cm) fc) s1" and l1: "length w + length (entries_bytes (cm_ptag cm) fc) + 8 \<le> fin"
    using writer_optional_fcrc [OF w e cm(1,2) room(1) fin(1,2,4)] by blast
  define E where "E = entries_bytes (cm_ptag cm) fc"
  define cm1 where "cm1 = with_entries fc cm"
  define n where "n = fin - (length w + length E + 4)"
  define tb where "tb = u32_to_be (ccrc_tag n XOR last_tag (cm_ptag cm) fc)"
  define crc where "crc = lfs_crc (cm_crc cm) (E @ tb)"
  have lE: "length w + length E + 8 \<le> fin" using l1 by (simp add: E_def)
  have o1: "unat (cm_off cm1) = length w + length E"
    using cm(2) lE fin(2) f(4) by (simp add: cm1_def with_entries_def E_def unat_word_ariths unat_of_nat)
  have n: "4 \<le> n" "n < 0x3ff" "usize_sub fin (unat (cm_off cm1) + 4) = n"
    using lE fin(3) small by (auto simp: n_def usize_sub_def o1)
  have noff: "(let off = unat (cm_off cm); noff = min (usize_sub fin (off + 4)) 0x3fe + (off + 4) in
      if noff < fin then min noff (usize_sub fin 20) else noff) = fin"
    using fin(1,3) small by (simp add: usize_sub_def cm(2) Let_def min_def)
  obtain s2 where r2: "lfs_bd_prog PCache RCache False b (length w + length E) (tb @ u32_to_le crc) s1 = Some (Val (), s2)"
    and w2: "writer cfg N d0 b ((w @ E) @ tb @ u32_to_le crc) s2"
    using writer_prog [OF w1 [folded E_def], of "tb @ u32_to_le crc"] lE fin(2) by (auto simp: tb_def)
  obtain s3 where r3: "lfs_bd_sync PCache RCache False s2 = Some (Val (), s3)" and d: "ready cfg s3" "l_nodes s3 = N" "cache_block (l_rcache s3) = LFS_BLOCK_NULL"
      "blk (l_dev s3) b = ((w @ E) @ tb @ u32_to_le crc) @ replicate (bsz - length ((w @ E) @ tb @ u32_to_le crc)) 0xff"
      "\<forall>c. unat c < bcount \<longrightarrow> c \<noteq> b \<longrightarrow> blk (l_dev s3) c = blk d0 c"
    using writer_sync [OF w2] by blast
  define cm2 where "cm2 = cm1\<lparr>cm_off := word_of_nat fin, cm_ptag := ccrc_tag n, cm_crc := 0xffffffff\<rparr>"
  have ufin: "unat (word_of_nat fin :: u32) = fin" using fin(2) f(4) by (simp add: unat_of_nat)
  have nt: "LFS_TYPE_CCRC + drop_bit 7 (ucast (NOT (0xff :: u8))) = LFS_TYPE_CCRC" "push_bit 24 (ucast (0x80 AND NOT (0xff :: u8))) = (0 :: u32)"
    by simp_all
  have c1: "cm_block cm1 = b" "cm_ptag cm1 = last_tag (cm_ptag cm) fc" "lfs_crc (cm_crc cm1) tb = crc" "cm_begin cm1 = cm_begin cm"
    by (simp_all add: cm1_def with_entries_def cm(1) crc_def E_def lfs_crc_append)
  have off: "(unat (cm_off cm) < fin) = True" using fin(1) cm(2) by simp
  have b1: "bnd (if fin \<le> usize_sub bsz (unat ?ps) then commit_fcrc fin cm else ret (0xff, cm)) k s = k (0xff, cm1) s1" for k :: "_ \<Rightarrow> ('d, 'x) fs"
    unfolding cm1_def by (rule bnd_run_Val) (rule r1)
  have b2: "bnd (lfs_bd_prog PCache RCache False b (length w + length E) (tb @ u32_to_le crc)) k s1 = k () s2" for k :: "_ \<Rightarrow> ('d, 'x) fs"
    by (rule bnd_run_Val) (rule r2)
  have b3: "bnd (lfs_bd_sync PCache RCache False) k s2 = k () s3" for k :: "_ \<Rightarrow> ('d, 'x) fs"
    by (rule bnd_run_Val) (rule r3)
  have body: "commitcrc_body fin (cm, 0, 0) s = Some (Val (Inl (cm2, cm_off cm1 + 4, crc)), s3)"
    by (simp only: commitcrc_body_def prod.case off if_True bnd_gets Let_def f(5,9) noff [unfolded Let_def] le_refl simp_thms b1 nt o1 n(3) [unfolded o1] c1
        tb_def [symmetric] b2 bnd_get_buf b3) (simp add: ret_def cm2_def)
  have stop: "commitcrc_body fin (cm2, cm_off cm1 + 4, crc) s3 = Some (Val (Inr (cm2, cm_off cm1 + 4, crc)), s3)"
    by (simp add: commitcrc_body_def cm2_def ufin ret_def)
  have loop: "mloop (commitcrc_body fin) (cm, 0, 0) s = Some (Val (cm2, cm_off cm1 + 4, crc), s3)"
    by (subst mloop_unfold, simp add: body, subst mloop_unfold, simp add: stop)
  have o4: "unat (cm_off cm1 + 4) = length w + length E + 4"
    using o1 lE fin(2) f(4) by (simp add: unat_word_ariths)
  have w': "((w @ E) @ tb @ u32_to_le crc) = w @ (E @ tb) @ u32_to_le crc" by simp
  have ob: "unat (cm_off cm1 + 4 - cm_begin cm) = length w + length E + 4 - unat (cm_begin cm)"
    using o4 cm(3) by (subst unat_sub) (simp_all add: word_le_nat_alt)
  have o8: "unat (8 + cm_off cm1) = length w + length E + 8"
    using o1 lE fin(2) f(4) by (simp add: unat_word_ariths)
  let ?sz = "length w + length E + 4 - unat (cm_begin cm)"
  have len: "length (blk (l_dev s3) b) = bsz" using d(4) lE fin(2) by (simp add: tb_def)
  have range: "take ?sz (drop (unat (cm_begin cm)) (blk (l_dev s3) b)) = drop (unat (cm_begin cm)) w @ E @ tb"
    using cm(3) unfolding d(4) by (simp add: tb_def)
  have crcv: "lfs_crc 0xffffffff (drop (unat (cm_begin cm)) w @ E @ tb) = crc"
    by (simp add: crc_def cm(4) lfs_crc_append)
  have tail: "take 4 (drop (length w + length E + 4) (blk (l_dev s3) b)) = u32_to_le crc"
    unfolding d(4) by (simp add: tb_def)
  have small': "unat (8 + cm_off cm1) \<le> 2 ^ 31" using lE fin(2) f(4) by (simp add: o8)
  obtain s4 where s4: "lfs_bd_crc None RCache (cm_off cm1 + 4 + 4) b (unat (cm_begin cm)) ?sz 0xffffffff s3 = Some (Val crc, s4)"
      "ready cfg s4" "l_dev s4 = l_dev s3" "l_nodes s4 = N"
  proof -
    have "unat (cm_begin cm) + ?sz \<le> bsz" "?sz \<le> unat (8 + cm_off cm1)" using cm(3) lE fin(2) o8 by simp_all
    with ready_crc [OF d(1) f(2), of "unat (cm_begin cm)" ?sz "cm_off cm1 + 4 + 4" "0xffffffff"] small' d(2) that
    show ?thesis by (auto simp: range crcv)
  qed
  obtain s5 where s5: "lfs_bd_crc None RCache 4 b (length w + length E + 4) 4 crc s4 = Some (Val 0, s5)"
      "ready cfg s5" "l_dev s5 = l_dev s3" "l_nodes s5 = N"
    using ready_crc [OF s4(2) f(2), of "length w + length E + 4" 4 4 crc] lE fin(2) s4(3,4)
    by (auto simp: tail lfs_crc_of_le [THEN iffD2])
  have others: "cache_block (l_rcache s5) \<noteq> z" if z: "unat z < bcount" "z \<noteq> b" for z
  proof -
    have nz: "z \<noteq> LFS_BLOCK_NULL" "b \<noteq> z" using z w unat_BLOCK_NULL by (auto simp: log_writer_def prog_ready_to_def prog_geometry_def)
    from keepsD [OF so_crc [OF nz(2,1)] s4(1)] keepsD [OF so_crc [OF nz(2,1)] s5(1)] d(3) nz(1)
    show ?thesis by (simp add: stays_off_def)
  qed
  have al: "bnd (alignup_m (min (cm_off cm + 20) ?bs) ?ps) k s = k (lfs_alignup (min (cm_off cm + 20) ?bs) ?ps) s" for k :: "_ \<Rightarrow> ('d, 'x) fs"
    by (simp add: alignup_m_run [OF ps] bnd_ret)
  have l: "bnd (mloop (commitcrc_body fin) (cm, 0, 0)) k s = k (cm2, cm_off cm1 + 4, crc) s3" for k :: "_ \<Rightarrow> ('d, 'x) fs"
    by (rule bnd_run_Val) (rule loop)
  have b4: "bnd (lfs_bd_crc None RCache (cm_off cm1 + 4 + 4) b (unat (cm_begin cm)) ?sz 0xffffffff) k s3 = k crc s4" for k :: "_ \<Rightarrow> ('d, 'x) fs"
    by (rule bnd_run_Val) (rule s4(1))
  have b5: "bnd (lfs_bd_crc None RCache 4 b (length w + length E + 4) 4 crc) k s4 = k 0 s5" for k :: "_ \<Rightarrow> ('d, 'x) fs"
    by (rule bnd_run_Val) (rule s5(1))
  have c2: "cm_block cm2 = b" "cm_begin cm2 = cm_begin cm" by (simp_all add: cm2_def c1)
  have run: "lfs_dir_commitcrc cm s = Some (Val cm2, s5)"
    by (simp only: lfs_dir_commitcrc_def bnd_gets f(9) al fin_def [symmetric] l prod.case c2 ob b4 simp_thms if_False o4 b5)
      (simp add: ret_def)
  have "closing fc \<and> 4 \<le> n \<and> n < 0x3ff \<and> lfs_dir_commitcrc cm s = Some (Val cm2, s5) \<and> ready cfg s5 \<and> l_nodes s5 = N
    \<and> (\<forall>c. unat c < bcount \<longrightarrow> c \<noteq> b \<longrightarrow> blk (l_dev s5) c = blk d0 c)
    \<and> (\<forall>z. unat z < bcount \<longrightarrow> z \<noteq> b \<longrightarrow> cache_block (l_rcache s5) \<noteq> z)
    \<and> cm_ptag cm2 = ccrc_tag n \<and> unat ?ps dvd unat (cm_off cm2)
    \<and> length (w @ (E @ tb) @ u32_to_le crc) + (n - 4) \<le> bsz
    \<and> unat (cm_off cm2) = length (w @ (E @ tb) @ u32_to_le crc) + (n - 4)
    \<and> blk (l_dev s5) b = (w @ (E @ tb) @ u32_to_le crc) @ replicate (bsz - length (w @ (E @ tb) @ u32_to_le crc)) 0xff"
    using fc n(1,2) run s5(2,4) d(4,5) others lE fin(2,5) by (simp add: w' n_def tb_def s5(3) cm2_def ufin)
  then show ?thesis unfolding Let_def crc_def tb_def E_def by blast
qed

text \<open>All entries of a commit.\<close>

lemma writer_entries:
  assumes "writer cfg N d0 b w s" "elsewhere b s" "list_all wf_entry es" "cm_block cm = b" "unat (cm_off cm) = length w"
    and "length w + length (entries_bytes (cm_ptag cm) es) \<le> unat (cm_end cm)" "unat (cm_end cm) \<le> bsz"
  shows "\<exists>t. commit_entries cm es s = Some (Val (with_entries es cm), t)
    \<and> writer cfg N d0 b (w @ entries_bytes (cm_ptag cm) es) t \<and> elsewhere b t"
  using assms
proof (induction es arbitrary: w s cm)
  case Nil
  then show ?case by (simp add: ret_def with_entries_def)
next
  case (Cons e es)
  let ?eb = "entry_bytes (cm_ptag cm) (fst e) (snd e)"
  let ?cm = "cm\<lparr>cm_crc := lfs_crc (cm_crc cm) ?eb, cm_off := cm_off cm + lfs_tag_dsize (fst e), cm_ptag := fst e\<rparr>"
  have e: "wf_entry e" "list_all wf_entry es" using Cons.prems(3) by auto
  have le: "length ?eb = unat (lfs_tag_dsize (fst e))" by (rule length_entry [OF e(1)])
  have room: "length w + unat (lfs_tag_dsize (fst e)) \<le> unat (cm_end cm)" using Cons.prems(6) le by simp
  obtain s1 where s1: "lfs_dir_commitattr cm (fst e) (Bytes (snd e)) s = Some (Val ?cm, s1)"
      "writer cfg N d0 b (w @ ?eb) s1" "elsewhere b s1"
    using writer_attr [OF Cons.prems(1,4,5) room Cons.prems(7)] e(1) Cons.prems(2) by (auto simp: wf_entry_def)
  have "bsz < 2 ^ 30" by (rule writer_facts(4) [OF Cons.prems(1)])
  then have off: "unat (cm_off ?cm) = length (w @ ?eb)"
    using Cons.prems(5,7) room le by (simp add: unat_word_ariths)
  obtain t where t: "commit_entries ?cm es s1 = Some (Val (with_entries es ?cm), t)"
      "writer cfg N d0 b ((w @ ?eb) @ entries_bytes (cm_ptag ?cm) es) t" "elsewhere b t"
    using Cons.IH [OF s1(2,3) e(2), of ?cm] Cons.prems(4,6,7) off le by auto
  have "word_of_nat (unat (lfs_tag_dsize (fst e))) = lfs_tag_dsize (fst e)" by simp
  then have eq: "with_entries es ?cm = with_entries (e # es) cm"
    by (simp add: with_entries_def lfs_crc_append le add.assoc)
  have b: "bnd (lfs_dir_commitattr cm (fst e) (Bytes (snd e))) k s = k ?cm s1" for k :: "_ \<Rightarrow> ('d, 'x) fs"
    by (rule bnd_run_Val) (rule s1(1))
  show ?case using t eq by (intro exI [of _ t]) (simp add: b)
qed

text \<open>Closing a commit whose entries are written: the device holds one complete commit more.\<close>

lemma writer_finish:
  assumes w: "writer cfg N d0 b (log_head rv cs @ entries_bytes (cm_ptag cm) es) s" and e: "elsewhere b s"
    and cm: "cm_block cm = b" "begins rv cs cm" and es: "list_all wf_entry es"
    and room: "unat (cm_end cm) + 8 = bsz" "length (log_head rv cs) + length (entries_bytes (cm_ptag cm) es) \<le> unat (cm_end cm)"
    and small: "unat (cfg_prog_size cfg) \<le> 1000"
  shows "\<exists>fc ctag pad k t cm'. closing fc \<and> lfs_dir_commitcrc (with_entries es cm) s = Some (Val cm', t)
    \<and> ready cfg t \<and> l_nodes t = N \<and> (\<forall>c. unat c < bcount \<longrightarrow> c \<noteq> b \<longrightarrow> blk (l_dev t) c = blk d0 c)
    \<and> block_log (blk (l_dev t) b) rv (cs @ [(es @ fc, ctag, pad)]) (replicate k 0xff)
    \<and> unat (cm_off cm') = length (log_head rv (cs @ [(es @ fc, ctag, pad)])) \<and> unat (cfg_prog_size cfg) dvd unat (cm_off cm')
    \<and> cm_ptag cm' = end_tag 0xffffffff (cs @ [(es @ fc, ctag, pad)]) \<and> lfs_tag_isvalid (next_tag ctag)
    \<and> (\<forall>z. unat z < bcount \<longrightarrow> z \<noteq> b \<longrightarrow> cache_block (l_rcache t) \<noteq> z)"
proof -
  let ?h = "log_head rv cs" and ?p = "cm_ptag cm"
  let ?E = "entries_bytes ?p es"
  have off: "unat (cm_off cm) = length ?h" using cm(2) by (simp add: begins_def)
  let ?cm = "with_entries es cm"
  have small': "bsz < 2 ^ 30" by (rule writer_facts(4) [OF w])
  have c: "cm_block ?cm = b" "unat (cm_off ?cm) = length (?h @ ?E)" "unat (cm_begin ?cm) \<le> length (?h @ ?E)"
      "cm_crc ?cm = lfs_crc 0xffffffff (drop (unat (cm_begin ?cm)) (?h @ ?E))" "unat (cm_end ?cm) + 8 = bsz"
    using cm room off small' by (auto simp: with_entries_def begins_def log_head_def lfs_crc_append unat_word_ariths unat_of_nat)
  have "length (?h @ ?E) + 8 \<le> bsz" using room by simp
  from writer_close [OF w e c this small] obtain fc n t cm' where
    fc: "closing fc" and n: "4 \<le> n" "n < 0x3ff" and run: "lfs_dir_commitcrc ?cm s = Some (Val cm', t)" "ready cfg t" "l_nodes t = N"
    and others: "\<forall>c. unat c < bcount \<longrightarrow> c \<noteq> b \<longrightarrow> blk (l_dev t) c = blk d0 c"
      "\<forall>z. unat z < bcount \<longrightarrow> z \<noteq> b \<longrightarrow> cache_block (l_rcache t) \<noteq> z"
    and cm': "cm_ptag cm' = ccrc_tag n" "unat (cfg_prog_size cfg) dvd unat (cm_off cm')"
    and disk: "(let body = entries_bytes (cm_ptag ?cm) fc @ u32_to_be (ccrc_tag n XOR last_tag (cm_ptag ?cm) fc);
           w' = (?h @ ?E) @ body @ u32_to_le (lfs_crc (cm_crc ?cm) body)
       in length w' + (n - 4) \<le> bsz \<and> unat (cm_off cm') = length w' + (n - 4) \<and> blk (l_dev t) b = w' @ replicate (bsz - length w') 0xff)" by blast
  let ?c = "(es @ fc, ccrc_tag n, replicate (n - 4) 0xff)"
  let ?crc = "if cs = [] then lfs_crc 0xffffffff (u32_to_le rv) else 0xffffffff"
  let ?C = "commit_bytes ?p ?crc ?c"
  let ?body = "entries_bytes (cm_ptag ?cm) fc @ u32_to_be (ccrc_tag n XOR last_tag (cm_ptag ?cm) fc)"
  let ?w = "(?h @ ?E) @ ?body @ u32_to_le (lfs_crc (cm_crc ?cm) ?body)"
  have C: "?h @ ?C = ?w @ replicate (n - 4) 0xff"
    using cm(2) by (simp add: commit_bytes_def Let_def with_entries_def entries_append last_tag_append lfs_crc_append begins_def)
  have p: "?p = end_tag 0xffffffff cs" using cm(2) by (simp add: begins_def)
  have "bsz - length ?w = (n - 4) + (bsz - length ?w - (n - 4))" using disk by (simp add: Let_def)
  then have "replicate (bsz - length ?w) (0xff :: u8) = replicate (n - 4) 0xff @ replicate (bsz - length ?w - (n - 4)) 0xff"
    by (metis replicate_add)
  then have bs: "blk (l_dev t) b = (?h @ ?C) @ replicate (bsz - length ?w - (n - 4)) 0xff"
    using disk unfolding C Let_def by simp
  have "wf_commit ?c"
    using es closing_wf [OF fc] ccrc_tag_fields [OF n(2)] n by (simp add: wf_commit_def)
  moreover have "torn (end_tag 0xffffffff (cs @ [?c])) 0xffffffff (replicate (bsz - length ?w - (n - 4)) 0xff)"
    by (rule erased_is_torn) (simp add: end_tag_append ccrc_tag_fields [OF n(2)])
  ultimately have "block_log (blk (l_dev t) b) rv (cs @ [?c]) (replicate (bsz - length ?w - (n - 4)) 0xff)"
    using bs cm(2) by (simp add: block_log_def Let_def commits_append log_head_def p begins_def)
  moreover have "log_head rv (cs @ [?c]) = ?h @ ?C" using cm(2) by (simp add: log_head_def commits_append p begins_def)
  then have "unat (cm_off cm') = length (log_head rv (cs @ [?c]))"
    using disk unfolding C Let_def by simp
  moreover have "cm_ptag cm' = end_tag 0xffffffff (cs @ [?c])"
    by (simp add: cm'(1) end_tag_append ccrc_tag_fields [OF n(2)])
  ultimately show ?thesis using fc run others cm'(2) ccrc_tag_fields(1,4) [OF n(2)] by metis
qed

text \<open>A whole commit.\<close>

lemma writer_commit:
  assumes w: "writer cfg N d0 b (log_head rv cs) s" and e: "elsewhere b s"
    and cm: "cm_block cm = b" "begins rv cs cm" and es: "list_all wf_entry es"
    and room: "unat (cm_end cm) + 8 = bsz" "length (log_head rv cs) + length (entries_bytes (cm_ptag cm) es) \<le> unat (cm_end cm)"
    and small: "unat (cfg_prog_size cfg) \<le> 1000"
  shows "\<exists>fc ctag pad k t cm'. closing fc \<and> bnd (commit_entries cm es) lfs_dir_commitcrc s = Some (Val cm', t)
    \<and> ready cfg t \<and> l_nodes t = N \<and> (\<forall>c. unat c < bcount \<longrightarrow> c \<noteq> b \<longrightarrow> blk (l_dev t) c = blk d0 c)
    \<and> block_log (blk (l_dev t) b) rv (cs @ [(es @ fc, ctag, pad)]) (replicate k 0xff)"
proof -
  have off: "unat (cm_off cm) = length (log_head rv cs)" using cm(2) by (simp add: begins_def)
  obtain s1 where s1: "commit_entries cm es s = Some (Val (with_entries es cm), s1)"
      "writer cfg N d0 b (log_head rv cs @ entries_bytes (cm_ptag cm) es) s1" "elsewhere b s1"
    using writer_entries [OF w e es cm(1) off room(2)] room(1) by auto
  have "bnd (commit_entries cm es) lfs_dir_commitcrc s = lfs_dir_commitcrc (with_entries es cm) s1"
    by (rule bnd_run_Val) (rule s1(1))
  with writer_finish [OF s1(2,3) cm es room small] show ?thesis by metis
qed

end

subsection \<open>The property\<close>

text \<open>C1 (roundtrip). What is committed is what a fetch finds.  Behind the complete commits of a
  block, on any device and wherever the bytes of an earlier commit or of the revision count still
  are in the program cache, writing any list of well-formed entries and the closing checksum
  succeeds while they fit, and a fetch of the pair afterwards returns, with the directory that
  has one commit more: the entries that were written, followed at most by the entry that
  describes the erased rest, their number, tail and split flag those of the entries before
  brought up to date, and the end and the tag to chain the next commit to in place.  The block
  is erased behind the log, the end of the commit leaves the eight bytes its callers leave, the
  other block of the pair is not newer, and the read cache holds nothing of the block written.\<close>

theorem committed_entries_are_fetched:
  assumes "block_device st dok blk bsz bcount"
    and "log_writer st dok blk bsz bcount cfg N (l_dev s) (cm_block cm) (log_head rv cs) s"
    and "rcache_elsewhere blk bsz bcount (cm_block cm) s" "N a \<noteq> None" "unat (cfg_prog_size cfg) \<le> 1000"
    and "begins rv cs cm" "list_all wf_entry es" "unat (cm_end cm) + 8 = bsz"
    and "length (log_head rv cs) + length (entries_bytes (cm_ptag cm) es) \<le> unat (cm_end cm)"
    and "unat b' < bcount" "b' \<noteq> cm_block cm" "block_log (blk (l_dev s) b') rv' cs' r'" "lfs_scmp rv' rv \<le> 0"
    and "fst (fold note_entry es (log_summary cs)) \<le> 0x3ff"
  shows "\<exists>t n fc ctag pad. bnd (commit_entries cm es) (\<lambda>cm'. bnd (lfs_dir_commitcrc cm') (\<lambda>_.
      lfs_dir_fetch a (cm_block cm, b'))) s = Some (Val (), t) \<and> l_nodes t a = Some n \<and> closing fc
    \<and> mdir_holds (cm_block cm, b') rv (cs @ [(es @ fc, ctag, pad)]) (nd_m n)
    \<and> (md_count (nd_m n), md_tail (nd_m n), md_split (nd_m n)) = fold note_entry es (log_summary cs)"
proof -
  note f = block_device.writer_facts [OF assms(1,2)]
  obtain fc ctag pad k t cm' where c: "closing fc" "bnd (commit_entries cm es) lfs_dir_commitcrc s = Some (Val cm', t)"
    "log_ready st dok blk bsz bcount cfg t" "\<forall>c. unat c < bcount \<longrightarrow> c \<noteq> cm_block cm \<longrightarrow> blk (l_dev t) c = blk (l_dev s) c"
    "block_log (blk (l_dev t) (cm_block cm)) rv (cs @ [(es @ fc, ctag, pad)]) (replicate k 0xff)" "l_nodes t = N"
    using block_device.writer_commit [OF assms(1-3) refl assms(6-9,5)] by blast
  have rd: "rd_state st dok blk bsz bcount cfg (l_dev t) a t"
    by (rule block_device.ready_rd [OF assms(1) c(3)]) (simp_all add: c(6) assms(4))
  let ?cs = "cs @ [(es @ fc, ctag, pad)]"
  have s: "log_summary ?cs = fold note_entry es (log_summary cs)" by (rule log_summary_closed [OF c(1)])
  have other: "block_log (blk (l_dev t) b') rv' cs' r'" using c(4) assms(10-12) by simp
  have fl: "fetched_log (cm_block cm, b') (rv, ?cs) (rv', cs') = ((cm_block cm, b'), rv, ?cs)"
    using assms(13) by (simp add: fetched_log_def newer_log_def)
  have "4 \<le> bsz" using assms(8) by simp
  obtain u n where u: "lfs_dir_fetch a (cm_block cm, b') t = Some (Val (), u)" "l_nodes u a = Some n"
      "mdir_holds (cm_block cm, b') rv ?cs (nd_m n)"
    using dir_fetch_log [OF assms(1) rd f(5) \<open>4 \<le> bsz\<close> f(4), of "(cm_block cm, b')" rv ?cs "replicate k 0xff" rv' cs' r'
        "(cm_block cm, b')" rv ?cs] f(2) assms(10,14) c(5) other fl s by auto
  have "bnd (commit_entries cm es) (\<lambda>cm'. bnd (lfs_dir_commitcrc cm') (\<lambda>_. lfs_dir_fetch a (cm_block cm, b'))) s = Some (Val (), u)"
    using c(2) u(1) by (auto simp: bnd_def split: option.splits outcome.splits prod.splits)
  moreover have "(md_count (nd_m n), md_tail (nd_m n), md_split (nd_m n)) = fold note_entry es (log_summary cs)"
    using u(3) s by (simp add: mdir_holds_def)
  ultimately show ?thesis using u c(1) by blast
qed

text \<open>A new pair: the revision count is in the program cache, block 3 is blank.\<close>

definition demo_writer :: "ram_storage lfs" where
  "demo_writer = demo_ram\<lparr>l_pcache := \<lparr>cache_block = 2, cache_off = 0, cache_size = 4, cache_buffer = 2\<rparr>,
     l_bufs := demo_bufs(2 := u32_to_le 1 @ replicate 60 0xff), l_nodes := [7 \<mapsto> node_default]\<rparr>"

definition demo_head :: lfs_commit where
  "demo_head = \<lparr>cm_block = 2, cm_off = 4, cm_ptag = 0xffffffff, cm_crc = lfs_crc 0xffffffff (u32_to_le 1), cm_begin = 0, cm_end = 120\<rparr>"

lemma demo_log_writer:
  "log_writer (ram_driver 128) (ram_wf 128 4) (ram_blk 128) 128 4 demo_config [7 \<mapsto> node_default] (l_dev demo_writer) 2 (log_head 1 []) demo_writer"
  "rcache_elsewhere (ram_blk 128) 128 4 2 demo_writer"
proof -
  have l: "log_head 1 [] = u32_to_le 1" "length (u32_to_le 1) = 4" by (simp_all add: log_head_def)
  have "prog_ready_to (ram_driver 128) (ram_wf 128 4) (ram_blk 128) 128 4 PCache 2 4 demo_writer"
    using demo_prog_ready [of 2 4]
    by (auto simp: demo_writer_def prog_ready_to_def cache_of_def prog_geometry_def attached_to_def pcache_clean_def erased_from_def
        demo_defs demo_blank LFS_BLOCK_NULL_def)
  moreover have "view_of (ram_blk 128) (Some PCache) demo_writer 2 = u32_to_le 1 @ replicate 124 0xff"
    by (simp add: demo_writer_def view_of_def overlay_def pcached_def cache_of_def demo_defs demo_blank splice_def)
  ultimately show "log_writer (ram_driver 128) (ram_wf 128 4) (ram_blk 128) 128 4 demo_config [7 \<mapsto> node_default] (l_dev demo_writer) 2 (log_head 1 []) demo_writer"
    unfolding log_writer_def l by (simp add: demo_writer_def demo_defs)
  show "rcache_elsewhere (ram_blk 128) 128 4 2 demo_writer"
    by (simp add: rcache_elsewhere_def coherent_to_def demo_writer_def demo_defs LFS_BLOCK_NULL_def)
qed

lemma blank_is_log: "block_log (replicate 128 0xff) 0xffffffff [] (replicate 124 0xff)"
proof -
  have "u32_to_le 0xffffffff = replicate 4 0xff" by code_simp
  then have "replicate 128 0xff = u32_to_le 0xffffffff @ replicate 124 0xff" by (simp add: replicate_add [symmetric])
  moreover have "u32_to_be 0xffffffff = replicate 4 0xff" by code_simp
  then have "replicate 124 0xff = entries_bytes 0xffffffff [(0, [])] @ replicate 120 0xff"
    by (simp add: entry_bytes_def replicate_add [symmetric])
  moreover have "wf_entry (0, [])" by code_simp
  moreover have "no_entry 0 crc body (replicate 120 0xff)" for crc body by (simp add: erased_torn)
  ultimately show ?thesis
    unfolding block_log_def torn_def Let_def
    by (intro conjI exI [of _ "[(0, [])]"] exI [of _ "replicate 120 0xff"]) simp_all
qed

theorem committed_entries_are_fetched_witness:
  "\<exists>t n fc ctag pad. bnd (commit_entries demo_head demo_entries) (\<lambda>cm'. bnd (lfs_dir_commitcrc cm') (\<lambda>_.
      lfs_dir_fetch 7 (cm_block demo_head, 3))) demo_writer = Some (Val (), t) \<and> l_nodes t 7 = Some n \<and> closing fc
    \<and> mdir_holds (cm_block demo_head, 3) 1 ([] @ [(demo_entries @ fc, ctag, pad)]) (nd_m n)
    \<and> (md_count (nd_m n), md_tail (nd_m n), md_split (nd_m n)) = fold note_entry demo_entries (log_summary [])"
proof (rule committed_entries_are_fetched [OF demo_device])
  show "log_writer (ram_driver 128) (ram_wf 128 4) (ram_blk 128) 128 4 demo_config [7 \<mapsto> node_default] (l_dev demo_writer)
      (cm_block demo_head) (log_head 1 []) demo_writer"
    "rcache_elsewhere (ram_blk 128) 128 4 (cm_block demo_head) demo_writer"
    using demo_log_writer by (simp_all add: demo_head_def)
  show "block_log (ram_blk 128 (l_dev demo_writer) 3) 0xffffffff [] (replicate 124 0xff)"
    using blank_is_log by (simp add: demo_writer_def demo_state_def demo_blank)
  show "list_all wf_entry demo_entries" by (rule demo_entries_wf)
  show "fst (fold note_entry demo_entries (log_summary [])) \<le> 0x3ff" by code_simp
  show "lfs_scmp 0xffffffff 1 \<le> 0" by code_simp
qed (simp_all add: demo_head_def begins_def log_head_def demo_torn_lengths demo_config_def)

end
