(* ===== verification/PowerLoss.thy ===== *)
theory PowerLoss
  imports WriteLog
begin

text \<open>
  A pair of blocks over time.  \<open>pair_history\<close> is every way a pair can come to its contents: commits
  that are completed, commits and compactions that are cut off at any point, and compactions
  that move the log to the other block under the next revision count.  Whatever has happened, a
  fetch finds the last commit that was completed.
\<close>

text \<open>
  \<open>pair_history x bx y by rv cs\<close>: the pair consists of the blocks \<open>x\<close> and \<open>y\<close> with the bytes
  \<open>bx\<close> and \<open>by\<close>; the first holds the newest complete commits \<open>cs\<close>, under the revision \<open>rv\<close>.
\<close>

inductive pair_history :: "u32 \<Rightarrow> bytes \<Rightarrow> u32 \<Rightarrow> bytes \<Rightarrow> u32 \<Rightarrow> log_commit list \<Rightarrow> bool" where
  created: "block_log bx rv [c] r \<Longrightarrow> block_log bb rv' [] r' \<Longrightarrow> x \<noteq> y \<Longrightarrow> pair_history x bx y bb rv [c]"
| committed: "pair_history x bx y bb rv cs \<Longrightarrow> block_log bx' rv (cs @ [c]) r \<Longrightarrow> pair_history x bx' y bb rv (cs @ [c])"
| commit_cut: "pair_history x bx y bb rv cs \<Longrightarrow> block_log bx' rv cs r \<Longrightarrow> pair_history x bx' y bb rv cs"
| compaction_cut: "pair_history x bx y bb rv cs \<Longrightarrow> block_log bb' rv' [] r \<Longrightarrow> pair_history x bx y bb' rv cs"
| compacted: "pair_history x bx y bb rv cs \<Longrightarrow> block_log bb' (rv + 1) [c] r \<Longrightarrow> pair_history y bb' x bx (rv + 1) [c]"

text \<open>The other block is without a complete commit, or one revision behind.\<close>

definition pair_holds :: "u32 \<Rightarrow> bytes \<Rightarrow> u32 \<Rightarrow> bytes \<Rightarrow> u32 \<Rightarrow> log_commit list \<Rightarrow> bool" where
  "pair_holds x bx y bb rv cs \<longleftrightarrow> x \<noteq> y \<and> cs \<noteq> [] \<and> (\<exists>r. block_log bx rv cs r)
    \<and> (\<exists>rv' cs' r'. block_log bb rv' cs' r' \<and> (cs' = [] \<or> rv = rv' + 1))"

lemma pair_history_holds: "pair_history x bx y bb rv cs \<Longrightarrow> pair_holds x bx y bb rv cs"
proof (induction rule: pair_history.induct)
  case (compacted x bx y bb rv cs bb' c r)
  then show ?case by (fastforce simp: pair_holds_def)
qed (fastforce simp: pair_holds_def)+

lemma scmp_next: "lfs_scmp (rv + 1) rv > 0" "\<not> lfs_scmp rv (rv + 1) > 0"
  by (simp_all add: lfs_scmp_def)

text \<open>So a fetch takes the newest block, in whichever order the pair is named.\<close>

lemma fetched_newest:
  assumes "cs \<noteq> []" "cs' = [] \<or> rv = rv' + 1"
  shows "fetched_log (x, y) (rv, cs) (rv', cs') = ((x, y), rv, cs)"
    "fetched_log (y, x) (rv', cs') (rv, cs) = ((x, y), rv, cs)"
  using assms scmp_next [of rv'] by (auto simp: fetched_log_def newer_log_def lfs_pair_swap_def)

text \<open>C2 (safety). Commits are atomic across power losses.  However a pair has come to its contents,
  by commits that were completed, by commits and compactions that were cut off anywhere before
  their checksum, and by compactions into the other block, fetching it, whichever of its blocks
  is named first, succeeds and finds exactly the commits up to the last one that was completed:
  none of the completed ones is lost and none of the others shows.\<close>

theorem power_loss_keeps_last_commit:
  assumes "block_device st dok blk bsz bcount" "rd_state st dok blk bsz bcount cfg d a s"
    and "unat (cfg_block_size cfg) = bsz" "4 \<le> bsz" "bsz < 2 ^ 30" "unat x < bcount" "unat y < bcount"
    and "pair_history x (blk d x) y (blk d y) rv cs" "fst (log_summary cs) \<le> 0x3ff" "pr \<in> {(x, y), (y, x)}"
  shows "\<exists>t n. lfs_dir_fetch a pr s = Some (Val (), t) \<and> rd_state st dok blk bsz bcount cfg d a t \<and> l_nodes t a = Some n
    \<and> mdir_holds (x, y) rv cs (nd_m n)"
proof -
  obtain r rv' cs' r' where b: "cs \<noteq> []" "block_log (blk d x) rv cs r" "block_log (blk d y) rv' cs' r'" "cs' = [] \<or> rv = rv' + 1"
    using pair_history_holds [OF assms(8)] by (auto simp: pair_holds_def)
  have fetch: "\<exists>t n. lfs_dir_fetch a pr s = Some (Val (), t) \<and> rd_state st dok blk bsz bcount cfg d a t \<and> l_nodes t a = Some n
      \<and> mdir_holds (x, y) rv cs (nd_m n)"
    if "block_log (blk d (fst pr)) rv0 cs0 r0" "block_log (blk d (snd pr)) rv1 cs1 r1"
      "fetched_log pr (rv0, cs0) (rv1, cs1) = ((x, y), rv, cs)" for rv0 cs0 r0 rv1 cs1 r1
    using dir_fetch_log [OF assms(1-5) _ _ that assms(9)] assms(6,7,10) b(1) by auto
  from assms(10) consider "pr = (x, y)" | "pr = (y, x)" by blast
  then show ?thesis
  proof cases
    case 1
    show ?thesis by (rule fetch [of rv cs r rv' cs' r']) (simp_all add: 1 b fetched_newest)
  next
    case 2
    show ?thesis by (rule fetch [of rv' cs' r' rv cs r]) (simp_all add: 2 b fetched_newest)
  qed
qed

text \<open>A new pair, of which a compaction into block 1 was cut off.\<close>

lemma demo_history: "pair_history 0 (ram_blk 128 demo_torn_dev 0) 1 (ram_blk 128 demo_torn_dev 1) 1 [demo_commit]"
  by (rule compaction_cut [OF created [OF demo_torn_logs(1) blank_is_log] demo_torn_logs(2)]) simp

theorem power_loss_keeps_last_commit_witness:
  "\<exists>t n. lfs_dir_fetch 7 (1, 0) ((demo_state demo_torn_dev)\<lparr>l_nodes := [7 \<mapsto> node_default]\<rparr>) = Some (Val (), t)
    \<and> rd_state (ram_driver 128) (ram_wf 128 4) (ram_blk 128) 128 4 demo_config demo_torn_dev 7 t
    \<and> l_nodes t 7 = Some n \<and> mdir_holds (0, 1) 1 [demo_commit] (nd_m n)"
proof (rule power_loss_keeps_last_commit [OF demo_device demo_rd_state [OF demo_torn_wf]])
  show "pair_history 0 (ram_blk 128 demo_torn_dev 0) 1 (ram_blk 128 demo_torn_dev 1) 1 [demo_commit]" by (rule demo_history)
  show "fst (log_summary [demo_commit]) \<le> 0x3ff" by code_simp
qed (simp_all add: demo_config_def)

text \<open>C3 (refinement). The code's commit is a step of that history.  On a pair with any history,
  where the bytes of the newest log are in place and the block is erased behind them, writing the
  entries and closing them takes the pair to a history with exactly one more completed commit,
  which holds the entries; no other block of the device changes.\<close>

theorem commit_extends_history:
  assumes "block_device st dok blk bsz bcount"
    and "log_writer st dok blk bsz bcount cfg N (l_dev s) (cm_block cm) (log_head rv cs) s"
    and "rcache_elsewhere blk bsz bcount (cm_block cm) s" "unat (cfg_prog_size cfg) \<le> 1000"
    and "begins rv cs cm" "list_all wf_entry es" "unat (cm_end cm) + 8 = bsz"
    and "length (log_head rv cs) + length (entries_bytes (cm_ptag cm) es) \<le> unat (cm_end cm)"
    and "unat y < bcount" "pair_history (cm_block cm) bx y (blk (l_dev s) y) rv cs"
  shows "\<exists>t cm' fc ctag pad. bnd (commit_entries cm es) lfs_dir_commitcrc s = Some (Val cm', t) \<and> closing fc
    \<and> pair_history (cm_block cm) (blk (l_dev t) (cm_block cm)) y (blk (l_dev t) y) rv (cs @ [(es @ fc, ctag, pad)])
    \<and> (\<forall>c. blk (l_dev t) c = blk (l_dev s) c \<or> c = cm_block cm \<or> bcount \<le> unat c)"
proof -
  obtain fc ctag pad k t cm' where c: "closing fc" "bnd (commit_entries cm es) lfs_dir_commitcrc s = Some (Val cm', t)"
    "\<forall>c. unat c < bcount \<longrightarrow> c \<noteq> cm_block cm \<longrightarrow> blk (l_dev t) c = blk (l_dev s) c"
    "block_log (blk (l_dev t) (cm_block cm)) rv (cs @ [(es @ fc, ctag, pad)]) (replicate k 0xff)"
    using block_device.writer_commit [OF assms(1-3) refl assms(5-8,4)] by blast
  have "y \<noteq> cm_block cm" using pair_history_holds [OF assms(10)] by (auto simp: pair_holds_def)
  then have y: "blk (l_dev t) y = blk (l_dev s) y" using c(3) assms(9) by blast
  have "pair_history (cm_block cm) (blk (l_dev t) (cm_block cm)) y (blk (l_dev t) y) rv (cs @ [(es @ fc, ctag, pad)])"
    unfolding y by (rule committed [OF assms(10) c(4)])
  with c(1-3) show ?thesis
    by (intro exI [of _ t] exI [of _ cm'] exI [of _ fc] exI [of _ ctag] exI [of _ pad]) (auto simp: not_le)
qed

text \<open>A second commit on a pair whose first is on the device.\<close>

definition demo_padded :: log_commit where
  "demo_padded = (demo_entries, 0x500ffc0d, replicate 9 0xff)"

definition demo_second_dev :: ram_storage where
  "demo_second_dev = \<lparr>ram_data = (log_head 1 [demo_padded] @ replicate 96 0xff) @ replicate 384 0xff\<rparr>"

definition demo_second :: "ram_storage lfs" where
  "demo_second = (demo_state demo_second_dev)\<lparr>l_nodes := [7 \<mapsto> node_default]\<rparr>"

definition demo_second_head :: lfs_commit where
  "demo_second_head = \<lparr>cm_block = 0, cm_off = 32, cm_ptag = 0x500ffc0d, cm_crc = 0xffffffff, cm_begin = 32, cm_end = 120\<rparr>"

lemma demo_padded_length: "length (log_head 1 [demo_padded]) = 32"
  by (simp add: log_head_def demo_padded_def commit_bytes_def Let_def demo_torn_lengths)

lemma demo_second_blocks:
  "ram_wf 128 4 demo_second_dev" "ram_blk 128 demo_second_dev 0 = log_head 1 [demo_padded] @ replicate 96 0xff"
  "ram_blk 128 demo_second_dev 1 = replicate 128 0xff"
  by (simp_all add: ram_wf_def ram_blk_def demo_second_dev_def demo_padded_length)

lemma demo_padded_facts: "wf_commit demo_padded" "end_tag 0xffffffff [demo_padded] = 0x500ffc0d"
  by code_simp+

lemma demo_second_history:
  "pair_history 0 (ram_blk 128 demo_second_dev 0) 1 (ram_blk 128 demo_second_dev 1) 1 [demo_padded]"
proof (rule created)
  show "block_log (ram_blk 128 demo_second_dev 0) 1 [demo_padded] (replicate 96 0xff)"
    unfolding demo_second_blocks block_log_def Let_def log_head_def demo_padded_facts
    using erased_is_torn [of "0x500ffc0d" "0xffffffff" 96] demo_padded_facts by (simp add: lfs_tag_isvalid_def)
  show "block_log (ram_blk 128 demo_second_dev 1) 0xffffffff [] (replicate 124 0xff)"
    unfolding demo_second_blocks by (rule blank_is_log)
qed simp

lemma demo_second_writer:
  "log_writer (ram_driver 128) (ram_wf 128 4) (ram_blk 128) 128 4 demo_config [7 \<mapsto> node_default] (l_dev demo_second) 0
    (log_head 1 [demo_padded]) demo_second"
  "rcache_elsewhere (ram_blk 128) 128 4 0 demo_second"
proof -
  have "prog_ready_to (ram_driver 128) (ram_wf 128 4) (ram_blk 128) 128 4 PCache 0 32 demo_second"
    using demo_second_blocks(1)
    by (auto simp: prog_ready_to_def prog_geometry_def attached_to_def pcache_clean_def cache_of_def erased_from_def
        demo_second_def demo_defs demo_second_blocks nth_append demo_padded_length)
  moreover have "view_of (ram_blk 128) (Some PCache) demo_second 0 = log_head 1 [demo_padded] @ replicate 96 0xff"
    by (simp add: view_of_def overlay_def pcached_def cache_of_def demo_second_def demo_defs demo_second_blocks LFS_BLOCK_NULL_def)
  ultimately show "log_writer (ram_driver 128) (ram_wf 128 4) (ram_blk 128) 128 4 demo_config [7 \<mapsto> node_default] (l_dev demo_second) 0
      (log_head 1 [demo_padded]) demo_second"
    unfolding log_writer_def demo_padded_length by (simp add: demo_second_def demo_defs)
  show "rcache_elsewhere (ram_blk 128) 128 4 0 demo_second"
    by (simp add: rcache_elsewhere_def coherent_to_def demo_second_def demo_defs LFS_BLOCK_NULL_def)
qed

theorem commit_extends_history_witness:
  "\<exists>t cm' fc ctag pad. bnd (commit_entries demo_second_head [(0x20100002, [8, 9])]) lfs_dir_commitcrc demo_second = Some (Val cm', t)
    \<and> closing fc \<and> pair_history (cm_block demo_second_head) (ram_blk 128 (l_dev t) (cm_block demo_second_head)) 1 (ram_blk 128 (l_dev t) 1) 1
      ([demo_padded] @ [([(0x20100002, [8, 9])] @ fc, ctag, pad)])
    \<and> (\<forall>c. ram_blk 128 (l_dev t) c = ram_blk 128 (l_dev demo_second) c \<or> c = cm_block demo_second_head \<or> 4 \<le> unat c)"
proof (rule commit_extends_history [OF demo_device])
  show "log_writer (ram_driver 128) (ram_wf 128 4) (ram_blk 128) 128 4 demo_config [7 \<mapsto> node_default] (l_dev demo_second)
      (cm_block demo_second_head) (log_head 1 [demo_padded]) demo_second"
    "rcache_elsewhere (ram_blk 128) 128 4 (cm_block demo_second_head) demo_second"
    using demo_second_writer by (simp_all add: demo_second_head_def)
  show "begins 1 [demo_padded] demo_second_head"
    unfolding begins_def demo_padded_length demo_padded_facts by (simp add: demo_second_head_def demo_padded_facts)
  show "pair_history (cm_block demo_second_head) (ram_blk 128 demo_second_dev 0) 1 (ram_blk 128 (l_dev demo_second) 1) 1 [demo_padded]"
    using demo_second_history by (simp add: demo_second_head_def demo_second_def demo_state_def)
  show "list_all wf_entry [(0x20100002, [8, 9])]" by code_simp
qed (simp_all add: demo_second_head_def demo_padded_length demo_config_def entry_bytes_def)

end
