(* ===== verification/FileRead.thy ===== *)
theory FileRead
  imports FileOps LogProps
begin

text \<open>
  Reading a file that is kept in a skip list of blocks: the bytes a read returns are the bytes
  the blocks hold behind their skip pointers, from the position of the handle on, whatever the
  handle's cache holds and wherever an earlier read has stopped.
\<close>

subsection \<open>The contents of a file\<close>

definition ctz_content :: "(u32 \<Rightarrow> bytes) \<Rightarrow> (nat \<Rightarrow> u32) \<Rightarrow> nat \<Rightarrow> bytes" where
  "ctz_content vw bl n = concat (map (\<lambda>i. drop (ptrs i) (vw (bl i))) [0..<Suc n])"

lemma length_blocks:
  "(\<And>i. i < m \<Longrightarrow> length (vw (bl i)) = bsz) \<Longrightarrow>
    length (concat (map (\<lambda>i. drop (ptrs i) (vw (bl i))) [0..<m])) = block_start bsz m"
  by (induction m) auto

lemma block_start_le: "i \<le> j \<Longrightarrow> block_start b i \<le> block_start b j"
  by (rule lift_Suc_mono_le [of "block_start b"]) simp_all

lemma ctz_content_block:
  assumes len: "\<And>i. i \<le> n \<Longrightarrow> length (vw (bl i)) = bsz" and i: "i \<le> n"
    and pos: "block_start bsz i \<le> pos" "off = pos - block_start bsz i + ptrs i" "off + k \<le> bsz"
  shows "take k (drop off (vw (bl i))) = take k (drop pos (ctz_content vw bl n))"
proof -
  let ?c = "\<lambda>i. drop (ptrs i) (vw (bl i))"
  have "[0..<Suc n] = [0..<i] @ i # [Suc i..<Suc n]"
    using i upt_add_eq_append [of 0 i "Suc n - i"] by (simp add: upt_conv_Cons del: upt_Suc)
  then have c: "ctz_content vw bl n = concat (map ?c [0..<i]) @ ?c i @ concat (map ?c [Suc i..<Suc n])"
    by (simp add: ctz_content_def del: upt_Suc)
  have "length (concat (map ?c [0..<i])) = block_start bsz i"
    by (rule length_blocks) (use len i in auto)
  then have "drop pos (ctz_content vw bl n) = drop off (vw (bl i)) @ drop (pos - block_start bsz i - length (?c i)) (concat (map ?c [Suc i..<Suc n]))"
    unfolding c using pos(1,2) by (simp add: add.commute)
  then show ?thesis using pos(3) len [OF i] by simp
qed

subsection \<open>Handles that read\<close>

definition file_at :: "nat \<Rightarrow> (nat \<Rightarrow> u32) \<Rightarrow> nat \<Rightarrow> lfs_node \<Rightarrow> bool" where
  "file_at bsz bl n file \<longleftrightarrow> \<not> flag_has (nd_flags file) F_INLINE \<and> \<not> flag_has (nd_flags file) F_WRITING
    \<and> flag_has (nd_flags file) O_READ \<and> ctz_head (nd_ctz file) = bl n
    \<and> block_start bsz n < unat (ctz_size (nd_ctz file)) \<and> unat (ctz_size (nd_ctz file)) \<le> block_start bsz (Suc n)
    \<and> (flag_has (nd_flags file) F_READING \<longrightarrow> (\<exists>i\<le>n. nd_block file = bl i \<and> block_start bsz i \<le> unat (nd_pos file)
        \<and> unat (nd_off file) = unat (nd_pos file) - block_start bsz i + ptrs i \<and> unat (nd_off file) \<le> bsz))"

definition reader ::
  "'d storage \<Rightarrow> ('d \<Rightarrow> bool) \<Rightarrow> ('d \<Rightarrow> u32 \<Rightarrow> bytes) \<Rightarrow> nat \<Rightarrow> nat \<Rightarrow> (nat \<Rightarrow> u32) \<Rightarrow> nat \<Rightarrow> nat \<Rightarrow> lfs_node \<Rightarrow> 'd lfs \<Rightarrow> bool" where
  "reader st dok blk bsz bcount bl n f file s \<longleftrightarrow> attached_to st dok bsz bcount s
    \<and> (\<forall>k\<le>n. unat (bl k) < bcount) \<and> ctz_file (blk (l_dev s)) bl n
    \<and> l_nodes s f = Some file \<and> file_at bsz bl n file
    \<and> coherent_to blk bsz bcount (cfg_read_size (l_cfg s)) (l_dev s) (nd_cache file) (l_bufs s (cache_buffer (nd_cache file)))"

text \<open>The block and offset of the handle are those of its position.\<close>

definition positioned :: "nat \<Rightarrow> (nat \<Rightarrow> u32) \<Rightarrow> nat \<Rightarrow> lfs_node \<Rightarrow> bool" where
  "positioned bsz bl n file \<longleftrightarrow> flag_has (nd_flags file) F_READING \<and> unat (nd_off file) < bsz
    \<and> (\<exists>i\<le>n. nd_block file = bl i \<and> block_start bsz i \<le> unat (nd_pos file)
        \<and> unat (nd_off file) = unat (nd_pos file) - block_start bsz i + ptrs i)"

lemma reading_flags:
  "flag_has (flag_set F_READING fl) F_INLINE = flag_has fl F_INLINE"
  "flag_has (flag_set F_READING fl) F_WRITING = flag_has fl F_WRITING"
  "flag_has (flag_set F_READING fl) O_READ = flag_has fl O_READ"
  by (rule flag_has_set_disj, simp add: F_READING_def F_INLINE_def F_WRITING_def O_READ_def)+

lemma load_file_nodes: "l_nodes s f = Some file \<Longrightarrow>
    l_nodes (load (FCache f) c b s) = (l_nodes s)(f \<mapsto> file\<lparr>nd_cache := c\<rparr>)"
  by (simp add: load_def set_cache_def)

lemma file_at_cache [simp]: "file_at bsz bl n (file\<lparr>nd_cache := c\<rparr>) = file_at bsz bl n file"
  by (simp add: file_at_def)

context block_device
begin

lemma reader_load:
  assumes "reader st dok blk bsz bcount bl n f file s" "cache_buffer c = cache_buffer (nd_cache file)"
    and "coherent (cfg_read_size (l_cfg s)) (l_dev s) c b"
  shows "reader st dok blk bsz bcount bl n f (file\<lparr>nd_cache := c\<rparr>) (load (FCache f) c b s)"
  using assms by (auto simp: reader_def load_file_nodes attached_to_def)

lemma reader_upd:
  assumes "reader st dok blk bsz bcount bl n f file s" "file_at bsz bl n file'" "nd_cache file' = nd_cache file"
  shows "reader st dok blk bsz bcount bl n f file' (s\<lparr>l_nodes := (l_nodes s)(f \<mapsto> file')\<rparr>)"
  using assms by (auto simp: reader_def attached_to_def)

lemma reader_ready:
  "reader st dok blk bsz bcount bl n f file s \<Longrightarrow> k \<le> n \<Longrightarrow> read_ready None (FCache f) (bl k) s"
  by (auto simp: reader_def read_ready_to_def cache_of_def pcached_def pcache_in_def)

lemma reader_view: "view None s b = blk (l_dev s) b"
  by (simp add: view_of_def overlay_def pcached_def)

lemma seek_run:
  assumes rd: "reader st dok blk bsz bcount bl n f file s" and n: "n < 2 ^ 26" and bs: "128 \<le> bsz"
    and pos: "unat (nd_pos file) < unat (ctz_size (nd_ctz file))"
  obtains file' t where "flushedread_seek f s = Some (Val (), t)" "reader st dok blk bsz bcount bl n f file' t"
    "positioned bsz bl n file'" "nd_pos file' = nd_pos file" "nd_ctz file' = nd_ctz file" "l_dev t = l_dev s" "l_cfg t = l_cfg s"
proof -
  have nd: "l_nodes s f = Some file" and at: "file_at bsz bl n file" using rd by (auto simp: reader_def)
  have lay: "ctz_file (view None s) bl n" using rd by (simp add: reader_def reader_view [abs_def])
  obtain i o' c' b' where run: "lfs_ctz_find None (FCache f) (bl n) (ctz_size (nd_ctz file)) (nd_pos file) s =
        Some (Val (bl i, o'), load (FCache f) c' b' s)"
      and i: "block_start bsz i \<le> unat (nd_pos file)" "unat (nd_pos file) < block_start bsz (Suc i)"
        "unat o' = unat (nd_pos file) - block_start bsz i + ptrs i" "unat o' < bsz"
      and c': "cache_buffer c' = cache_buffer (nd_cache file)" "coherent (cfg_read_size (l_cfg s)) (l_dev s) c' b'"
    by (rule ctz_find_correct [OF lay n bs reader_ready [OF rd], of "nd_cache file" "ctz_size (nd_ctz file)" "nd_pos file"])
      (use at pos nd in \<open>auto simp: file_at_def cache_of_def\<close>)
  have "i \<le> n"
  proof (rule ccontr)
    assume "\<not> i \<le> n"
    then have "block_start bsz (Suc n) \<le> block_start bsz i" by (intro block_start_le) simp
    with i(1) pos at show False by (simp add: file_at_def)
  qed
  define u where "u = load (FCache f) c' b' s"
  define file1 where "file1 = file\<lparr>nd_cache := c', nd_block := bl i, nd_off := o'\<rparr>"
  define file2 where "file2 = file1\<lparr>nd_flags := flag_set F_READING (nd_flags file)\<rparr>"
  have ru: "reader st dok blk bsz bcount bl n f (file\<lparr>nd_cache := c'\<rparr>) u"
    unfolding u_def by (rule reader_load [OF rd c'])
  have at2: "file_at bsz bl n file2"
    using at i \<open>i \<le> n\<close> by (auto simp: file_at_def file2_def file1_def reading_flags)
  have r2: "reader st dok blk bsz bcount bl n f file2 (u\<lparr>l_nodes := (l_nodes u)(f \<mapsto> file2)\<rparr>)"
    by (rule reader_upd [OF ru at2]) (simp add: file2_def file1_def)
  have un: "l_nodes u f = Some (file\<lparr>nd_cache := c'\<rparr>)" using ru by (simp add: reader_def)
  have "flushedread_seek f s = Some (Val (), u\<lparr>l_nodes := (l_nodes u)(f \<mapsto> file2)\<rparr>)"
    using at run
    by (simp add: flushedread_seek_def bnd_get_node [OF nd] bnd_assoc file_at_def bnd_def [of "lfs_ctz_find _ _ _ _ _"]
        u_def [symmetric] bnd_upd_node [OF un] insert_flag_def upd_node_run file2_def file1_def)
  moreover have "positioned bsz bl n file2"
    using i \<open>i \<le> n\<close> by (auto simp: positioned_def file2_def file1_def)
  ultimately show thesis
    using r2 by (intro that [of "u\<lparr>l_nodes := (l_nodes u)(f \<mapsto> file2)\<rparr>" file2])
      (simp_all add: file2_def file1_def u_def)
qed

text \<open>One block's worth of a read.\<close>

lemma read_positioned:
  assumes rd: "reader st dok blk bsz bcount bl n f file s" and at: "positioned bsz bl n file" and bs: "128 \<le> bsz"
    and data: "data \<noteq> []" "unat (nd_pos file) + length data \<le> unat (ctz_size (nd_ctz file))"
    and k: "k = min (length data) (unat (cfg_block_size (l_cfg s) - nd_off file))"
  obtains file' t where "bnd (lfs_bd_read None (FCache f) (unat (cfg_block_size (l_cfg s))) (nd_block file) (unat (nd_off file)) (take k data)) (\<lambda>bs.
      bnd (upd_node f (\<lambda>n. n\<lparr>nd_pos := nd_pos n + word_of_nat k, nd_off := nd_off n + word_of_nat k\<rparr>)) (\<lambda>_. ret (g bs))) s
      = Some (Val (g (take k (drop (unat (nd_pos file)) (ctz_content (blk (l_dev s)) bl n)))), t)"
    "reader st dok blk bsz bcount bl n f file' t" "0 < k" "k \<le> length data"
    "unat (nd_pos file') = unat (nd_pos file) + k" "nd_ctz file' = nd_ctz file" "l_dev t = l_dev s" "l_cfg t = l_cfg s"
proof -
  have nd: "l_nodes s f = Some file" and fa: "file_at bsz bl n file" and ub: "unat (cfg_block_size (l_cfg s)) = bsz"
    and bl: "\<And>i. i \<le> n \<Longrightarrow> unat (bl i) < bcount" and small: "bsz < 2 ^ 30" and dev: "dok (l_dev s)"
    using rd by (auto simp: reader_def attached_to_def)
  obtain i where i: "i \<le> n" "nd_block file = bl i" "block_start bsz i \<le> unat (nd_pos file)"
      "unat (nd_off file) = unat (nd_pos file) - block_start bsz i + ptrs i"
    and off: "unat (nd_off file) < bsz" and rf: "flag_has (nd_flags file) F_READING"
    using at by (auto simp: positioned_def)
  have rest: "unat (cfg_block_size (l_cfg s) - nd_off file) = bsz - unat (nd_off file)"
    using off ub by (subst unat_sub) (auto simp: word_le_nat_alt)
  have k0: "0 < k" "k \<le> length data" "unat (nd_off file) + k \<le> bsz" using k rest off data(1) by auto
  obtain c' b' where run: "lfs_bd_read None (FCache f) (unat (cfg_block_size (l_cfg s))) (nd_block file) (unat (nd_off file)) (take k data) s
        = Some (Val (take (length (take k data)) (drop (unat (nd_off file)) (view None s (nd_block file)))), load (FCache f) c' b' s)"
      and c': "cache_buffer c' = cache_buffer (nd_cache file)" "coherent (cfg_read_size (l_cfg s)) (l_dev s) c' b'"
    by (rule bd_read_correct [OF reader_ready [OF rd i(1)], of "nd_cache file" "unat (cfg_block_size (l_cfg s))" "unat (nd_off file)" "take k data"])
      (use nd ub bs small k0 i(2) in \<open>auto simp: cache_of_def\<close>)
  have bytes: "take (length (take k data)) (drop (unat (nd_off file)) (view None s (nd_block file)))
      = take k (drop (unat (nd_pos file)) (ctz_content (blk (l_dev s)) bl n))"
    unfolding reader_view i(2) using k0(2) ctz_content_block [of n "blk (l_dev s)" bl bsz i "unat (nd_pos file)", OF _ i(1,3,4) k0(3)]
      blk_length [OF dev bl] by (simp add: min_absorb2)
  define u where "u = load (FCache f) c' b' s"
  define file2 where "file2 = file\<lparr>nd_cache := c', nd_pos := nd_pos file + word_of_nat k, nd_off := nd_off file + word_of_nat k\<rparr>"
  have ru: "reader st dok blk bsz bcount bl n f (file\<lparr>nd_cache := c'\<rparr>) u"
    unfolding u_def by (rule reader_load [OF rd c'])
  have kw: "unat (word_of_nat k :: u32) = k" using k0 small by (simp add: unat_of_nat)
  have size32: "unat (ctz_size (nd_ctz file)) < 2 ^ 32" using unsigned_less [of "ctz_size (nd_ctz file)"] by simp
  have pos2: "unat (nd_pos file + word_of_nat k) = unat (nd_pos file) + k"
    using data(2) k0(2) size32 by (simp add: unat_word_ariths kw)
  have off2: "unat (nd_off file + word_of_nat k) = unat (nd_off file) + k"
    using k0 small by (simp add: unat_word_ariths kw)
  have "file_at bsz bl n file2"
    using fa i k0 by (auto simp: file_at_def file2_def pos2 off2)
  then have r2: "reader st dok blk bsz bcount bl n f file2 (u\<lparr>l_nodes := (l_nodes u)(f \<mapsto> file2)\<rparr>)"
    by (rule reader_upd [OF ru]) (simp add: file2_def)
  have un: "l_nodes u f = Some (file\<lparr>nd_cache := c'\<rparr>)" using ru by (simp add: reader_def)
  show thesis
  proof (rule that [OF _ r2 k0(1,2)])
    show "bnd (lfs_bd_read None (FCache f) (unat (cfg_block_size (l_cfg s))) (nd_block file) (unat (nd_off file)) (take k data)) (\<lambda>bs.
      bnd (upd_node f (\<lambda>n. n\<lparr>nd_pos := nd_pos n + word_of_nat k, nd_off := nd_off n + word_of_nat k\<rparr>)) (\<lambda>_. ret (g bs))) s
      = Some (Val (g (take k (drop (unat (nd_pos file)) (ctz_content (blk (l_dev s)) bl n)))), u\<lparr>l_nodes := (l_nodes u)(f \<mapsto> file2)\<rparr>)"
      using run [unfolded bytes]
      by (simp add: bnd_def [of "lfs_bd_read _ _ _ _ _ _"] u_def [symmetric] bnd_upd_node [OF un] run_simps file2_def)
  qed (simp_all add: file2_def pos2 u_def)
qed

lemma flushedread_body_run:
  assumes rd: "reader st dok blk bsz bcount bl n f file s" and n: "n < 2 ^ 26" and bs: "128 \<le> bsz"
    and data: "data \<noteq> []" "unat (nd_pos file) + length data \<le> unat (ctz_size (nd_ctz file))"
  obtains k file' t where "lfs_file_flushedread_body f (got, data) s
      = Some (Val (Inl (got @ take k (drop (unat (nd_pos file)) (ctz_content (blk (l_dev s)) bl n)), drop k data)), t)"
    "reader st dok blk bsz bcount bl n f file' t" "0 < k" "k \<le> length data"
    "unat (nd_pos file') = unat (nd_pos file) + k" "nd_ctz file' = nd_ctz file" "l_dev t = l_dev s" "l_cfg t = l_cfg s"
proof -
  have nd: "l_nodes s f = Some file" and fa: "file_at bsz bl n file" and ub: "unat (cfg_block_size (l_cfg s)) = bsz"
    using rd by (auto simp: reader_def attached_to_def)
  have lt: "unat (nd_pos file) < unat (ctz_size (nd_ctz file))" using data by (cases data) auto
  let ?again = "\<not> flag_has (nd_flags file) F_READING \<or> nd_off file = cfg_block_size (l_cfg s)"
  have "\<exists>file1 u. (if ?again then flushedread_seek f else ret ()) s = Some (Val (), u)
    \<and> reader st dok blk bsz bcount bl n f file1 u \<and> positioned bsz bl n file1 \<and> nd_pos file1 = nd_pos file
    \<and> nd_ctz file1 = nd_ctz file \<and> l_dev u = l_dev s \<and> l_cfg u = l_cfg s"
  proof (cases ?again)
    case True
    obtain file' t where "flushedread_seek f s = Some (Val (), t)" "reader st dok blk bsz bcount bl n f file' t"
      "positioned bsz bl n file'" "nd_pos file' = nd_pos file" "nd_ctz file' = nd_ctz file" "l_dev t = l_dev s" "l_cfg t = l_cfg s"
      by (rule seek_run [OF rd n bs lt])
    with True show ?thesis by auto
  next
    case False
    then have "positioned bsz bl n file"
      using fa ub by (auto simp: positioned_def file_at_def word_unat_eq_iff order_le_less)
    with False rd show ?thesis by (auto simp: run_simps)
  qed
  then obtain file1 u where seek: "(if ?again then flushedread_seek f else ret ()) s = Some (Val (), u)"
    "reader st dok blk bsz bcount bl n f file1 u" "positioned bsz bl n file1" "nd_pos file1 = nd_pos file"
    "nd_ctz file1 = nd_ctz file" "l_dev u = l_dev s" "l_cfg u = l_cfg s" by blast
  have n1: "l_nodes u f = Some file1" and in1: "\<not> flag_has (nd_flags file1) F_INLINE"
    using seek(2) by (auto simp: reader_def file_at_def)
  have sk: "bnd (if ?again then flushedread_seek f else ret ()) K s = K () u" for K :: "unit \<Rightarrow> ('d, (bytes \<times> bytes) + bytes) fs"
    by (rule bnd_run_Val) (rule seek(1))
  define k where "k = min (length data) (unat (cfg_block_size (l_cfg s) - nd_off file1))"
  obtain file2 t where r: "bnd (lfs_bd_read None (FCache f) (unat (cfg_block_size (l_cfg s))) (nd_block file1) (unat (nd_off file1)) (take k data)) (\<lambda>bs.
      bnd (upd_node f (\<lambda>n. n\<lparr>nd_pos := nd_pos n + word_of_nat k, nd_off := nd_off n + word_of_nat k\<rparr>)) (\<lambda>_. ret (Inl (got @ bs, drop k data) :: (bytes \<times> bytes) + bytes))) u
      = Some (Val (Inl (got @ take k (drop (unat (nd_pos file)) (ctz_content (blk (l_dev s)) bl n)), drop k data)), t)"
    "reader st dok blk bsz bcount bl n f file2 t" "0 < k" "k \<le> length data"
    "unat (nd_pos file2) = unat (nd_pos file) + k" "nd_ctz file2 = nd_ctz file" "l_dev t = l_dev s" "l_cfg t = l_cfg s"
    using read_positioned [OF seek(2,3) bs data(1), of k "\<lambda>bs. Inl (got @ bs, drop k data)"] data(2)
    unfolding seek(4-7) k_def by blast
  have "lfs_file_flushedread_body f (got, data) s
      = Some (Val (Inl (got @ take k (drop (unat (nd_pos file)) (ctz_content (blk (l_dev s)) bl n)), drop k data)), t)"
    by (simp only: lfs_file_flushedread_body_def prod.case data(1) in1 if_False bnd_gets bnd_get_node [OF nd] sk
        bnd_get_node [OF n1] Let_def k_def [symmetric]) (rule r(1))
  then show thesis using r(2-8) by (rule that)
qed

text \<open>The whole read.\<close>

lemma flushedread_run:
  assumes rd: "reader st dok blk bsz bcount bl n f file s" and n: "n < 2 ^ 26" and bs: "128 \<le> bsz"
    and k: "k = min (length buf) (unat (ctz_size (nd_ctz file)) - unat (nd_pos file))"
  shows "\<exists>file' t. lfs_file_flushedread f buf s
      = Some (Val (word_of_nat k, take k (drop (unat (nd_pos file)) (ctz_content (blk (l_dev s)) bl n)) @ drop k buf), t)
    \<and> reader st dok blk bsz bcount bl n f file' t \<and> unat (nd_pos file') = unat (nd_pos file) + k
    \<and> nd_ctz file' = nd_ctz file \<and> l_dev t = l_dev s"
proof (cases "buf = [] \<or> ctz_size (nd_ctz file) \<le> nd_pos file")
  case True
  have nd: "l_nodes s f = Some file" using rd by (simp add: reader_def)
  from True have "k = 0" by (auto simp: k word_le_nat_alt)
  with True rd nd show ?thesis
    by (auto simp: lfs_file_flushedread_def bnd_get_node [OF nd] run_simps)
next
  case False
  have nd: "l_nodes s f = Some file" using rd by (simp add: reader_def)
  let ?c = "ctz_content (blk (l_dev s)) bl n" and ?p = "unat (nd_pos file)"
  have sub: "unat (ctz_size (nd_ctz file) - nd_pos file) = unat (ctz_size (nd_ctz file)) - ?p"
    using False by (subst unat_sub) auto
  define I where "I = (\<lambda>(got, data) u. \<exists>file'. reader st dok blk bsz bcount bl n f file' u \<and> l_dev u = l_dev s \<and> l_cfg u = l_cfg s
      \<and> nd_ctz file' = nd_ctz file \<and> length (data :: bytes) \<le> k \<and> unat (nd_pos file') = ?p + (k - length data)
      \<and> got = take (k - length data) (drop ?p ?c))"
  define Q where "Q = (\<lambda>r t. \<exists>file'. r = Val (take k (drop ?p ?c)) \<and> reader st dok blk bsz bcount bl n f file' t
      \<and> unat (nd_pos file') = ?p + k \<and> nd_ctz file' = nd_ctz file \<and> l_dev t = l_dev s)"
  have "wp (mloop (lfs_file_flushedread_body f) ([], take k buf)) Q s"
  proof (rule wp_mloop [where I = I and \<mu> = "\<lambda>x t. length (snd x)"])
    show "I ([], take k buf) s" using rd by (auto simp: I_def k)
    fix x u assume "I x u"
    then obtain got data file1 where x: "x = (got, data)" and I: "reader st dok blk bsz bcount bl n f file1 u" "l_dev u = l_dev s"
      "l_cfg u = l_cfg s" "nd_ctz file1 = nd_ctz file" "length data \<le> k" "unat (nd_pos file1) = ?p + (k - length data)"
      "got = take (k - length data) (drop ?p ?c)"
      by (cases x) (auto simp: I_def)
    show "wp (lfs_file_flushedread_body f x) (\<lambda>r t. case r of
        Val (Inl y) \<Rightarrow> I y t \<and> length (snd y) < length (snd x)
      | Val (Inr z) \<Rightarrow> Q (Val z) t | Exc e \<Rightarrow> Q (Exc e) t | Panic \<Rightarrow> Q Panic t) u"
    proof (cases "data = []")
      case True
      then show ?thesis using I by (auto simp: x lfs_file_flushedread_body_def run_simps Q_def)
    next
      case False
      have fit: "unat (nd_pos file1) + length data \<le> unat (ctz_size (nd_ctz file1))"
        using I(4-6) k \<open>\<not> (buf = [] \<or> ctz_size (nd_ctz file) \<le> nd_pos file)\<close> by (auto simp: word_le_nat_alt)
      obtain j file2 t where r: "lfs_file_flushedread_body f (got, data) u
          = Some (Val (Inl (got @ take j (drop (unat (nd_pos file1)) ?c), drop j data)), t)"
        "reader st dok blk bsz bcount bl n f file2 t" "0 < j" "j \<le> length data"
        "unat (nd_pos file2) = unat (nd_pos file1) + j" "nd_ctz file2 = nd_ctz file1" "l_dev t = l_dev s" "l_cfg t = l_cfg u"
        by (rule flushedread_body_run [OF I(1) n bs False fit, unfolded I(2)])
      have g: "k - length (drop j data) = (k - length data) + j" using I(5) r(4) by simp
      have "got @ take j (drop (unat (nd_pos file1)) ?c) = take (k - length (drop j data)) (drop ?p ?c)"
        unfolding g take_add I(6) using I(7) by (simp add: add.commute)
      then have "I (got @ take j (drop (unat (nd_pos file1)) ?c), drop j data) t"
        using r I g by (auto simp: I_def)
      then show ?thesis using r(1,3,4) False by (auto simp: wp_def x)
    qed
  qed
  then obtain file2 t where r: "mloop (lfs_file_flushedread_body f) ([], take k buf) s = Some (Val (take k (drop ?p ?c)), t)"
    "reader st dok blk bsz bcount bl n f file2 t" "unat (nd_pos file2) = ?p + k" "nd_ctz file2 = nd_ctz file" "l_dev t = l_dev s"
    by (auto simp: Q_def elim: wpE)
  have "lfs_file_flushedread f buf s = Some (Val (word_of_nat k, take k (drop ?p ?c) @ drop k buf), t)"
    using False r(1) by (simp add: lfs_file_flushedread_def bnd_get_node [OF nd] linorder_not_le [symmetric] Let_def sub k [symmetric]
        bnd_def [of "mloop _ _"] run_simps)
  then show ?thesis using r(2-5) by blast
qed

lemma read_run:
  assumes "reader st dok blk bsz bcount bl n f file s" "n < 2 ^ 26" "128 \<le> bsz"
    and "k = min (length buf) (unat (ctz_size (nd_ctz file)) - unat (nd_pos file))"
  shows "\<exists>file' t. lfs_file_read_raw f buf s
      = Some (Val (word_of_nat k, take k (drop (unat (nd_pos file)) (ctz_content (blk (l_dev s)) bl n)) @ drop k buf), t)
    \<and> reader st dok blk bsz bcount bl n f file' t \<and> unat (nd_pos file') = unat (nd_pos file) + k
    \<and> nd_ctz file' = nd_ctz file \<and> l_dev t = l_dev s"
proof -
  have nd: "l_nodes s f = Some file" and at: "file_at bsz bl n file" using assms(1) by (auto simp: reader_def)
  have "lfs_file_read_raw f buf s = lfs_file_flushedread f buf s"
    using at by (simp add: lfs_file_read_raw_def bnd_get_node [OF nd] file_at_def run_simps)
  with flushedread_run [OF assms] show ?thesis by simp
qed

end

subsection \<open>Seeking\<close>

lemma no_reading_flags:
  "flag_has (flag_clear F_READING fl) F_INLINE = flag_has fl F_INLINE"
  "flag_has (flag_clear F_READING fl) F_WRITING = flag_has fl F_WRITING"
  "flag_has (flag_clear F_READING fl) O_READ = flag_has fl O_READ"
  "\<not> flag_has (flag_clear F_READING fl) F_READING"
  by (rule flag_has_clear_disj, simp add: F_READING_def F_INLINE_def F_WRITING_def O_READ_def)+
    (rule flag_has_clear, simp add: F_READING_def)

context block_device
begin

lemma flush_reader:
  assumes rd: "reader st dok blk bsz bcount bl n f file s" and bc: "bcount \<le> unat LFS_BLOCK_NULL"
  shows "\<exists>file' t. lfs_file_flush f s = Some (Val (), t) \<and> reader st dok blk bsz bcount bl n f file' t
    \<and> \<not> flag_has (nd_flags file') F_READING \<and> nd_pos file' = nd_pos file \<and> nd_ctz file' = nd_ctz file
    \<and> l_dev t = l_dev s \<and> l_cfg t = l_cfg s"
proof -
  have nd: "l_nodes s f = Some file" and at: "file_at bsz bl n file" using rd by (auto simp: reader_def)
  show ?thesis
  proof (cases "flag_has (nd_flags file) F_READING")
    case False
    then show ?thesis using rd at nd
      by (auto simp: lfs_file_flush_def bnd_get_node [OF nd] run_simps file_at_def Let_def)
  next
    case True
    define c where "c = (nd_cache file)\<lparr>cache_block := LFS_BLOCK_NULL\<rparr>"
    define u where "u = load (FCache f) c (l_bufs s (cache_buffer (nd_cache file))) s"
    have coh: "coherent (cfg_read_size (l_cfg s)) (l_dev s) c (l_bufs s (cache_buffer (nd_cache file)))"
      using rd bc by (auto simp: reader_def coherent_to_def c_def)
    have ru: "reader st dok blk bsz bcount bl n f (file\<lparr>nd_cache := c\<rparr>) u"
      unfolding u_def by (rule reader_load [OF rd _ coh]) (simp add: c_def)
    have un: "l_nodes u f = Some (file\<lparr>nd_cache := c\<rparr>)" using ru by (simp add: reader_def)
    have drop: "lfs_cache_drop (FCache f) s = Some (Val (), u)"
      using nd by (simp add: lfs_cache_drop_def upd_cache_run cache_of_def u_def load_def c_def)
    define file2 where "file2 = file\<lparr>nd_cache := c, nd_flags := flag_clear F_READING (nd_flags file)\<rparr>"
    have "file_at bsz bl n file2" using at by (auto simp: file_at_def file2_def no_reading_flags)
    then have r2: "reader st dok blk bsz bcount bl n f file2 (u\<lparr>l_nodes := (l_nodes u)(f \<mapsto> file2)\<rparr>)"
      by (rule reader_upd [OF ru]) (simp add: file2_def)
    have "lfs_file_flush f s = Some (Val (), u\<lparr>l_nodes := (l_nodes u)(f \<mapsto> file2)\<rparr>)"
      using at True
      by (simp add: lfs_file_flush_def bnd_get_node [OF nd] bnd_assoc file_at_def bnd_def [of "lfs_cache_drop _"] drop
          remove_flag_def bnd_upd_node [OF un] bnd_get_node run_simps no_reading_flags file2_def Let_def)
    then show ?thesis using r2
      by (intro exI [of _ file2] exI [of _ "u\<lparr>l_nodes := (l_nodes u)(f \<mapsto> file2)\<rparr>"])
        (simp add: file2_def u_def no_reading_flags)
  qed
qed

text \<open>A seek inside the cached part of the block stays in the block.\<close>

lemma seek_cached_run:
  assumes rd: "reader st dok blk bsz bcount bl n f file s" and bs: "128 \<le> bsz" and n: "n < 2 ^ 26"
  obtains c where "seek_cached f npos s = Some (Val c, s)"
    "\<forall>noff. c = Some noff \<longrightarrow> file_at bsz bl n (file\<lparr>nd_pos := npos, nd_off := noff\<rparr>)"
proof -
  have nd: "l_nodes s f = Some file" and at: "file_at bsz bl n file" and ub: "unat (cfg_block_size (l_cfg s)) = bsz"
    using rd by (auto simp: reader_def attached_to_def)
  obtain oi oo where oi: "lfs_ctz_index (nd_pos file) s = Some (Val (oi, oo), s)"
    "block_start bsz (unat oi) \<le> unat (nd_pos file)" "unat (nd_pos file) < block_start bsz (Suc (unat oi))" "unat oi < 2 ^ 26"
    using ctz_index_correct [of s "nd_pos file"] bs unfolding ub by metis
  obtain ni no where ni: "lfs_ctz_index npos s = Some (Val (ni, no), s)"
    "block_start bsz (unat ni) \<le> unat npos" "unat npos < block_start bsz (Suc (unat ni))" "unat ni < 2 ^ 26"
    "unat no = unat npos - block_start bsz (unat ni) + ptrs (unat ni)" "unat no < bsz"
    using ctz_index_correct [of s npos] bs unfolding ub by metis
  show thesis
  proof (cases "flag_has (nd_flags file) F_READING \<and> nd_off file \<noteq> cfg_block_size (l_cfg s)")
    case False
    then show thesis
      by (intro that [of None]) (auto simp: seek_cached_def bnd_get_node [OF nd] run_simps)
  next
    case True
    then obtain i where i: "i \<le> n" "nd_block file = bl i" "block_start bsz i \<le> unat (nd_pos file)"
        "unat (nd_off file) = unat (nd_pos file) - block_start bsz i + ptrs i" and ob: "unat (nd_off file) \<le> bsz"
      using at by (auto simp: file_at_def)
    have "unat (nd_off file) < bsz" using True ob ub by (simp add: word_unat_eq_iff)
    with i have "unat (nd_pos file) < block_start bsz (Suc i)" by auto
    with i n have io: "i = unat oi"
      by (intro block_index_unique [OF bs _ _ i(3) _ oi(2,3)]) (use oi(4) in auto)
    let ?c = "if oi = ni \<and> unat no \<ge> cache_off (nd_cache file) \<and> unat no < cache_off (nd_cache file) + cache_size (nd_cache file)
      then Some no else None"
    show thesis
    proof (rule that [of ?c])
      show "seek_cached f npos s = Some (Val ?c, s)"
        using True by (simp add: seek_cached_def bnd_get_node [OF nd] bnd_gets bnd_def [of "lfs_ctz_index _"] oi(1) ni(1) Let_def ret_def)
      show "\<forall>noff. ?c = Some noff \<longrightarrow> file_at bsz bl n (file\<lparr>nd_pos := npos, nd_off := noff\<rparr>)"
        using at i io ni by (auto simp: file_at_def)
    qed
  qed
qed

lemma seek_raw_run:
  assumes rd: "reader st dok blk bsz bcount bl n f file s" and n: "n < 2 ^ 26" and bs: "128 \<le> bsz"
    and bc: "bcount \<le> unat LFS_BLOCK_NULL" and max: "seek_target file off whence \<le> l_file_max s"
  shows "\<exists>file' t. lfs_file_seek_raw f off whence s = Some (Val (seek_target file off whence), t)
    \<and> reader st dok blk bsz bcount bl n f file' t \<and> nd_pos file' = seek_target file off whence
    \<and> nd_ctz file' = nd_ctz file \<and> l_dev t = l_dev s"
proof -
  have nd: "l_nodes s f = Some file" using rd by (simp add: reader_def)
  define npos where "npos = seek_target file off whence"
  have fits: "(npos > l_file_max s) = False" using max by (simp add: npos_def not_less)
  have start: "lfs_file_seek_raw f off whence s = (if nd_pos file = npos then ret npos else
      bnd (seek_cached f npos) (\<lambda>c. case c of
        Some noff \<Rightarrow> bnd (upd_node f (\<lambda>n. n\<lparr>nd_pos := npos, nd_off := noff\<rparr>)) (\<lambda>_. ret npos)
      | None \<Rightarrow> bnd (lfs_file_flush f) (\<lambda>_. bnd (upd_node f (\<lambda>n. n\<lparr>nd_pos := npos\<rparr>)) (\<lambda>_. ret npos)))) s"
    by (simp only: lfs_file_seek_raw_def bnd_get_node [OF nd] bnd_gets Let_def npos_def [symmetric] fits if_False)
  obtain c where c: "seek_cached f npos s = Some (Val c, s)"
    "\<forall>noff. c = Some noff \<longrightarrow> file_at bsz bl n (file\<lparr>nd_pos := npos, nd_off := noff\<rparr>)"
    by (rule seek_cached_run [OF rd bs n, where npos = npos])
  show ?thesis
  proof (cases "nd_pos file = npos")
    case True
    then show ?thesis using rd start by (auto simp: run_simps npos_def)
  next
    case False
    show ?thesis
    proof (cases c)
      case (Some noff)
      have "reader st dok blk bsz bcount bl n f (file\<lparr>nd_pos := npos, nd_off := noff\<rparr>)
          (s\<lparr>l_nodes := (l_nodes s)(f \<mapsto> file\<lparr>nd_pos := npos, nd_off := noff\<rparr>)\<rparr>)"
        by (rule reader_upd [OF rd c(2) [rule_format, OF Some]]) simp
      moreover have "lfs_file_seek_raw f off whence s = Some (Val npos, s\<lparr>l_nodes := (l_nodes s)(f \<mapsto> file\<lparr>nd_pos := npos, nd_off := noff\<rparr>)\<rparr>)"
        unfolding start using False Some c(1) by (simp add: bnd_def [of "seek_cached _ _"] bnd_upd_node [OF nd] ret_def)
      ultimately show ?thesis unfolding npos_def [symmetric]
        by (intro exI [of _ "file\<lparr>nd_pos := npos, nd_off := noff\<rparr>"]
            exI [of _ "s\<lparr>l_nodes := (l_nodes s)(f \<mapsto> file\<lparr>nd_pos := npos, nd_off := noff\<rparr>)\<rparr>"]) simp
    next
      case None
      obtain file1 u where u: "lfs_file_flush f s = Some (Val (), u)" "reader st dok blk bsz bcount bl n f file1 u"
        "\<not> flag_has (nd_flags file1) F_READING" "nd_ctz file1 = nd_ctz file" "l_dev u = l_dev s"
        using flush_reader [OF rd bc] by blast
      have un: "l_nodes u f = Some file1" using u(2) by (simp add: reader_def)
      have "file_at bsz bl n (file1\<lparr>nd_pos := npos\<rparr>)" using u(2,3) by (auto simp: reader_def file_at_def)
      then have "reader st dok blk bsz bcount bl n f (file1\<lparr>nd_pos := npos\<rparr>) (u\<lparr>l_nodes := (l_nodes u)(f \<mapsto> file1\<lparr>nd_pos := npos\<rparr>)\<rparr>)"
        by (rule reader_upd [OF u(2)]) simp
      moreover have "lfs_file_seek_raw f off whence s = Some (Val npos, u\<lparr>l_nodes := (l_nodes u)(f \<mapsto> file1\<lparr>nd_pos := npos\<rparr>)\<rparr>)"
        unfolding start using False None c(1) u(1)
        by (simp add: bnd_def [of "seek_cached _ _"] bnd_def [of "lfs_file_flush _"] bnd_upd_node [OF un] ret_def)
      ultimately show ?thesis using u(4,5) unfolding npos_def [symmetric]
        by (intro exI [of _ "file1\<lparr>nd_pos := npos\<rparr>"]
            exI [of _ "u\<lparr>l_nodes := (l_nodes u)(f \<mapsto> file1\<lparr>nd_pos := npos\<rparr>)\<rparr>"]) simp
    qed
  qed
qed

end

subsection \<open>Properties\<close>

text \<open>C12 (refinement). Reading an outlined file returns its contents.  On any driver that keeps the laws of a
  block device, with a handle that is not writing, on a file whose blocks \<open>bl 0\<close> to \<open>bl n\<close> carry the skip
  pointers they should: a read returns, the buffer then begins with the bytes of the file from
  the position of the handle on, as many as fit or are left, the rest of the buffer is
  unchanged, and the handle, moved on by as many bytes, is ready for the next read.\<close>

theorem file_read_returns_content:
  assumes "block_device st dok blk bsz bcount" "reader st dok blk bsz bcount bl n f file s" "n < 2 ^ 26" "128 \<le> bsz"
    and "k = min (length buf) (unat (ctz_size (nd_ctz file)) - unat (nd_pos file))"
  shows "\<exists>file' t. lfs_file_read_raw f buf s
      = Some (Val (word_of_nat k, take k (drop (unat (nd_pos file)) (ctz_content (blk (l_dev s)) bl n)) @ drop k buf), t)
    \<and> reader st dok blk bsz bcount bl n f file' t \<and> unat (nd_pos file') = unat (nd_pos file) + k
    \<and> nd_ctz file' = nd_ctz file \<and> l_dev t = l_dev s"
  by (rule block_device.read_run [OF assms])

definition demo_text_dev :: ram_storage where
  "demo_text_dev = \<lparr>ram_data = (u32_to_le 1 @ replicate 124 0x62) @ replicate 128 0x61 @ replicate 256 0\<rparr>"

definition demo_handle :: lfs_node where
  "demo_handle = node_default\<lparr>nd_ctz := \<lparr>ctz_head = 0, ctz_size = 150\<rparr>, nd_flags := O_READ, nd_pos := 126,
     nd_cache := \<lparr>cache_block = LFS_BLOCK_NULL, cache_off = 0, cache_size = 0, cache_buffer = 2\<rparr>\<rparr>"

definition demo_open :: "ram_storage lfs" where
  "demo_open = (demo_state demo_text_dev)\<lparr>l_nodes := [7 \<mapsto> demo_handle]\<rparr>"

definition demo_blocks :: "nat \<Rightarrow> u32" where
  "demo_blocks k = (if k = 0 then 1 else 0)"

lemma demo_reader:
  "reader (ram_driver 128) (ram_wf 128 4) (ram_blk 128) 128 4 demo_blocks 1 7 demo_handle demo_open"
proof -
  have "attached_to (ram_driver 128) (ram_wf 128 4) 128 4 demo_open"
    by (simp add: attached_to_def demo_open_def demo_defs ram_wf_def demo_text_dev_def)
  moreover have "ctz_file (ram_blk 128 demo_text_dev) demo_blocks 1"
    by (auto simp: ctz_file_def demo_blocks_def ram_blk_def demo_text_dev_def tz_odd le_Suc_eq)
  moreover have "file_at 128 demo_blocks 1 demo_handle"
    by (simp add: file_at_def demo_handle_def node_default_def demo_blocks_def ptrs_def tz_odd
        flag_has_def O_READ_def F_INLINE_def F_WRITING_def F_READING_def)
  ultimately show ?thesis
    by (auto simp: reader_def demo_open_def demo_defs demo_blocks_def coherent_to_def demo_handle_def LFS_BLOCK_NULL_def
        unsigned_minus_1_eq_mask mask_eq_exp_minus_1)
qed

theorem file_read_returns_content_witness:
  "\<exists>file' t. lfs_file_read_raw 7 (replicate 4 0) demo_open = Some (Val (4, [0x61, 0x61, 0x62, 0x62]), t)
    \<and> reader (ram_driver 128) (ram_wf 128 4) (ram_blk 128) 128 4 demo_blocks 1 7 file' t \<and> unat (nd_pos file') = 130"
proof -
  have c: "take 4 (drop 126 (ctz_content (ram_blk 128 demo_text_dev) demo_blocks 1)) = [0x61, 0x61, 0x62, 0x62]"
    by (simp add: ctz_content_def demo_blocks_def ram_blk_def demo_text_dev_def ptrs_def tz_odd) (simp add: numeral_2_eq_2)
  have "l_dev demo_open = demo_text_dev" "unat (nd_pos demo_handle) = 126" "unat (ctz_size (nd_ctz demo_handle)) = 150"
    by (simp_all add: demo_open_def demo_state_def demo_handle_def)
  then show ?thesis
    using file_read_returns_content [OF demo_device demo_reader, of 4 "replicate 4 0"] c by simp blast
qed

text \<open>C13 (invariant). Seeking keeps a reading handle in step with its file.  A target beyond the largest
  file position is refused and nothing changes; otherwise the seek returns the target, the handle is there, and
  is again one from which a read returns the contents: also when the seek stays inside the
  cached part of a block and flushes nothing.\<close>

theorem file_seek_keeps_reader:
  assumes "block_device st dok blk bsz bcount" "reader st dok blk bsz bcount bl n f file s" "n < 2 ^ 26" "128 \<le> bsz"
    and "bcount \<le> unat LFS_BLOCK_NULL"
  shows "if seek_target file off whence > l_file_max s
    then lfs_file_seek_raw f off whence s = Some (Exc Invalid, s)
    else \<exists>file' t. lfs_file_seek_raw f off whence s = Some (Val (seek_target file off whence), t)
      \<and> reader st dok blk bsz bcount bl n f file' t \<and> nd_pos file' = seek_target file off whence
      \<and> nd_ctz file' = nd_ctz file \<and> l_dev t = l_dev s"
proof -
  have "l_nodes s f = Some file" using assms(2) by (simp add: reader_def)
  then show ?thesis
    using block_device.seek_raw_run [OF assms(1-5), of off whence]
    by (auto simp: lfs_file_seek_raw_def bnd_get_node bnd_gets throw_def)
qed

theorem file_seek_keeps_reader_witness:
  "(\<exists>file' t. lfs_file_seek_raw 7 (- 10) LFS_SEEK_END demo_open = Some (Val 140, t)
    \<and> reader (ram_driver 128) (ram_wf 128 4) (ram_blk 128) 128 4 demo_blocks 1 7 file' t \<and> nd_pos file' = 140)
   \<and> lfs_file_seek_raw 7 (- 10) LFS_SEEK_SET demo_open = Some (Exc Invalid, demo_open)"
proof -
  note seek = file_seek_keeps_reader [OF demo_device demo_reader, simplified]
  have t: "seek_target demo_handle (- 10) LFS_SEEK_END = 140" "seek_target demo_handle (- 10) LFS_SEEK_SET = - 10"
    by (simp_all add: seek_target_def demo_handle_def node_default_def lfs_file_size_raw_def flag_has_def
        LFS_SEEK_SET_def LFS_SEEK_CUR_def LFS_SEEK_END_def O_READ_def F_WRITING_def)
  have m: "l_file_max demo_open = 2147483647" "4 \<le> unat LFS_BLOCK_NULL"
    by (simp_all add: demo_open_def demo_state_def LFS_BLOCK_NULL_def unsigned_minus_1_eq_mask mask_eq_exp_minus_1)
  show ?thesis using seek [of "- 10" LFS_SEEK_END] seek [of "- 10" LFS_SEEK_SET] m by (auto simp: t)
qed

end
