(* ===== verification/InlineFile.thy ===== *)
theory InlineFile
  imports FileRead
begin

text \<open>
  Small files.  A handle on a file that is kept in its directory entry holds the whole file in its
  cache; reading, writing, seeking and the filling of gaps with zeros are shown to be the
  operations of an array of bytes with a position.
\<close>

subsection \<open>The handle\<close>

lemma set_flags:
  "g \<in> {F_READING, F_WRITING, F_DIRTY, F_ERRED} \<Longrightarrow> f \<in> {O_READ, O_WRITE, O_APPEND, F_INLINE} \<Longrightarrow>
    flag_has (flag_set g fl) f = flag_has fl f \<and> flag_has (flag_clear g fl) f = flag_has fl f"
  by (auto simp: F_READING_def F_WRITING_def F_DIRTY_def F_ERRED_def O_READ_def O_WRITE_def O_APPEND_def F_INLINE_def
      intro!: flag_has_set_disj flag_has_clear_disj)

lemma state_flags:
  "flag_has (flag_set F_WRITING fl) F_READING = flag_has fl F_READING"
  "flag_has (flag_set F_READING fl) F_WRITING = flag_has fl F_WRITING"
  "flag_has (flag_clear F_READING fl) F_WRITING = flag_has fl F_WRITING"
  "flag_has (flag_clear F_WRITING fl) F_READING = flag_has fl F_READING"
  "flag_has (flag_set F_DIRTY fl) F_READING = flag_has fl F_READING"
  "flag_has (flag_set F_DIRTY fl) F_WRITING = flag_has fl F_WRITING"
  "flag_has (flag_clear F_ERRED fl) F_READING = flag_has fl F_READING"
  "flag_has (flag_clear F_ERRED fl) F_WRITING = flag_has fl F_WRITING"
  "\<not> flag_has (flag_clear F_READING fl) F_READING"
  "\<not> flag_has (flag_clear F_WRITING fl) F_WRITING"
  by (auto simp: F_READING_def F_WRITING_def F_DIRTY_def F_ERRED_def flag_has_set_disj flag_has_clear_disj flag_has_clear)

lemmas inline_flags = set_flags state_flags

definition small :: "'d lfs \<Rightarrow> lfs_node \<Rightarrow> bytes \<Rightarrow> bool" where
  "small s file b \<longleftrightarrow> l_bufs s (cache_buffer (nd_cache file)) = b
    \<and> flag_has (nd_flags file) F_INLINE \<and> flag_has (nd_flags file) O_READ \<and> flag_has (nd_flags file) O_WRITE
    \<and> cache_block (nd_cache file) = LFS_BLOCK_INLINE \<and> cache_off (nd_cache file) = 0 \<and> cache_size (nd_cache file) = length b
    \<and> unat (l_inline_max s) \<le> length b \<and> length b \<le> unat (cfg_block_size (l_cfg s)) \<and> 128 \<le> unat (cfg_block_size (l_cfg s))
    \<and> unat (lfs_file_size_raw file) \<le> unat (l_inline_max s)
    \<and> (flag_has (nd_flags file) F_READING \<longrightarrow> \<not> flag_has (nd_flags file) F_WRITING \<and> nd_off file = nd_pos file
        \<and> unat (nd_pos file) \<le> unat (cfg_block_size (l_cfg s)))
    \<and> (flag_has (nd_flags file) F_WRITING \<longrightarrow> nd_block file = LFS_BLOCK_INLINE \<and> nd_off file = nd_pos file)"

text \<open>What the operations on a small file do not touch.\<close>

definition same_limits :: "'d lfs \<Rightarrow> 'd lfs \<Rightarrow> bool" where
  "same_limits s t \<longleftrightarrow> l_cfg t = l_cfg s \<and> l_inline_max t = l_inline_max s \<and> l_file_max t = l_file_max s \<and> l_dev t = l_dev s"

lemma same_limits_refl [simp]: "same_limits s s"
  by (simp add: same_limits_def)

lemma same_limits_trans: "same_limits s t \<Longrightarrow> same_limits t u \<Longrightarrow> same_limits s u"
  by (simp add: same_limits_def)

subsection \<open>Writing\<close>

lemma inline_prog:
  assumes nd: "l_nodes s f = Some file" and sm: "small s file b" and blk: "nd_block file = LFS_BLOCK_INLINE"
    and fit: "unat (nd_off file) + length data \<le> length b" and data: "data \<noteq> []"
  shows "flushedwrite_prog f data s = Some (Val (), s\<lparr>l_bufs := (l_bufs s)(cache_buffer (nd_cache file) := splice b (unat (nd_off file)) data)\<rparr>)"
proof -
  let ?t = "s\<lparr>l_bufs := (l_bufs s)(cache_buffer (nd_cache file) := splice b (unat (nd_off file)) data)\<rparr>"
  have c: "cache_of (FCache f) s = Some (nd_cache file)" using nd by (simp add: cache_of_def)
  have c': "cache_of (FCache f) ?t = Some (nd_cache file)" using c by simp
  have sz: "(nd_cache file)\<lparr>cache_size := length b\<rparr> = nd_cache file" using sm by (simp add: small_def)
  have same: "set_cache (FCache f) ((nd_cache file)\<lparr>cache_size := length b\<rparr>) ?t = ?t"
    unfolding sz by (rule set_cache_same [OF c'])
  have m: "max (length b) (unat (nd_off file) + length data) = length b" using fit by simp
  have lt: "unat (nd_off file) < length b" using fit data by (cases data) auto
  have fl: "lfs_bd_flush (FCache f) RCache True ?t = Some (Val (), ?t)"
    using sm by (simp add: lfs_bd_flush_def bnd_gets bnd_get_cache [OF c'] small_def ret_def)
  have "lfs_bd_prog_body (FCache f) RCache True LFS_BLOCK_INLINE (unat (nd_off file), data) s
      = Some (Val (Inl (unat (nd_off file) + length data, [])), ?t)"
    using sm fit data lt
    by (simp add: lfs_bd_prog_body_def bnd_gets bnd_get_cache [OF c] bnd_get_buf small_def Let_def bnd_put_buf
        bnd_upd_cache [OF c'] same m bnd_def [of "lfs_bd_flush _ _ _"] fl ret_def)
  then have "lfs_bd_prog (FCache f) RCache True LFS_BLOCK_INLINE (unat (nd_off file)) data s = Some (Val (), ?t)"
    using sm fit data
    by (simp add: lfs_bd_prog_def bnd_gets small_def mloop_unfold [of _ "(unat (nd_off file), data)"])
      (simp add: mloop_unfold lfs_bd_prog_body_def ret_def)
  then show ?thesis
    unfolding flushedwrite_prog_def
    by (subst mloop_unfold) (simp add: bnd_get_node [OF nd] blk bnd_def [of "attempt _"] attempt_run_Val ret_def)
qed

text \<open>The handle that writes at its position.\<close>

definition writing_at :: "lfs_node \<Rightarrow> lfs_node \<Rightarrow> bool" where
  "writing_at file file' \<longleftrightarrow> flag_has (nd_flags file') F_WRITING \<and> \<not> flag_has (nd_flags file') F_READING
    \<and> nd_ctz file' = nd_ctz file \<and> flag_has (nd_flags file') O_APPEND = flag_has (nd_flags file) O_APPEND"

lemma size_writing: "flag_has (nd_flags file) F_WRITING \<Longrightarrow> unat (lfs_file_size_raw file) = max (unat (nd_pos file)) (unat (ctz_size (nd_ctz file)))"
  by (simp add: lfs_file_size_raw_def max_def word_le_nat_alt)

lemma inline_size_le: "small s file b \<Longrightarrow> unat (ctz_size (nd_ctz file)) \<le> unat (l_inline_max s)"
  by (auto simp: small_def lfs_file_size_raw_def max_def word_le_nat_alt split: if_splits)

lemma inline_write_start:
  assumes nd: "l_nodes s f = Some file" and sm: "small s file b" and nr: "\<not> flag_has (nd_flags file) F_READING"
    and fit: "unat (nd_pos file) \<le> unat (l_inline_max s)"
  shows "\<exists>file' t. (if \<not> flag_has (nd_flags file) F_WRITING \<or> nd_off file = bs then flushedwrite_block f else ret ()) s = Some (Val (), t)
    \<and> l_nodes t f = Some file' \<and> small t file' b \<and> writing_at file file' \<and> nd_pos file' = nd_pos file \<and> same_limits s t"
proof (cases "\<not> flag_has (nd_flags file) F_WRITING \<or> nd_off file = bs")
  case False
  then show ?thesis using nd sm nr by (auto simp: run_simps writing_at_def)
next
  case True
  let ?file = "file\<lparr>nd_block := LFS_BLOCK_INLINE, nd_off := nd_pos file, nd_flags := flag_set F_WRITING (nd_flags file)\<rparr>"
  let ?t = "s\<lparr>l_nodes := (l_nodes s)(f \<mapsto> ?file)\<rparr>"
  have "flushedwrite_block f s = Some (Val (), ?t)"
    using sm by (simp add: flushedwrite_block_def bnd_get_node [OF nd] small_def bnd_upd_node [OF nd] insert_flag_def upd_node_run)
  moreover have "small ?t ?file b"
    using sm nr fit inline_size_le [OF sm]
    by (auto simp: small_def inline_flags size_writing)
  moreover have "writing_at file ?file" using nr by (simp add: writing_at_def inline_flags)
  ultimately show ?thesis using True by (intro exI [of _ ?file] exI [of _ ?t]) (simp add: same_limits_def)
qed

lemma inline_write_body:
  assumes nd: "l_nodes s f = Some file" and sm: "small s file b" and nr: "\<not> flag_has (nd_flags file) F_READING"
    and data: "data \<noteq> []" and fit: "unat (nd_pos file) + length data \<le> unat (l_inline_max s)"
  shows "\<exists>file' t. lfs_file_flushedwrite_body f data s = Some (Val (Inl []), t) \<and> l_nodes t f = Some file'
    \<and> small t file' (splice b (unat (nd_pos file)) data) \<and> writing_at file file'
    \<and> unat (nd_pos file') = unat (nd_pos file) + length data \<and> same_limits s t"
proof -
  let ?bs = "cfg_block_size (l_cfg s)"
  obtain file1 u where u: "(if \<not> flag_has (nd_flags file) F_WRITING \<or> nd_off file = ?bs then flushedwrite_block f else ret ()) s = Some (Val (), u)"
    "l_nodes u f = Some file1" "small u file1 b" "writing_at file file1" "nd_pos file1 = nd_pos file" "same_limits s u"
    using inline_write_start [OF nd sm nr, of ?bs] fit by auto
  have first: "bnd (if \<not> flag_has (nd_flags file) F_WRITING \<or> nd_off file = ?bs then flushedwrite_block f else ret ()) k s = k () u"
    for k :: "unit \<Rightarrow> ('a, bytes + unit) fs" by (rule bnd_run_Val) (rule u(1))
  have at: "nd_block file1 = LFS_BLOCK_INLINE" "nd_off file1 = nd_pos file" "flag_has (nd_flags file1) F_WRITING"
    "\<not> flag_has (nd_flags file1) F_READING"
    using u(3-5) by (auto simp: small_def writing_at_def)
  have room: "unat (nd_pos file) + length data \<le> length b" "length b \<le> unat ?bs" using fit sm by (auto simp: small_def)
  have sub: "unat (?bs - nd_off file1) = unat ?bs - unat (nd_pos file)"
    using room by (subst unat_sub) (auto simp: word_le_nat_alt at)
  then have diff: "min (length data) (unat (?bs - nd_off file1)) = length data" using room by simp
  let ?b = "splice b (unat (nd_pos file)) data"
  let ?v = "u\<lparr>l_bufs := (l_bufs u)(cache_buffer (nd_cache file1) := ?b)\<rparr>"
  have prog: "flushedwrite_prog f data u = Some (Val (), ?v)"
    using inline_prog [OF u(2,3) at(1) _ data] room at(2) by simp
  define n where "n = (word_of_nat (length data) :: u32)"
  have bl: "unat ?bs < 2 ^ 32" using unsigned_less [of ?bs] by simp
  have un: "unat n = length data" using room bl by (simp add: n_def unat_of_nat)
  let ?file = "file1\<lparr>nd_pos := nd_pos file1 + n, nd_off := nd_off file1 + n\<rparr>"
  define w where "w = ?v\<lparr>l_nodes := (l_nodes ?v)(f \<mapsto> ?file), l_lookahead := (l_lookahead ?v)\<lparr>la_ckpoint := l_block_count ?v\<rparr>\<rparr>"
  have pos: "unat (nd_pos file + n) = unat (nd_pos file) + length data"
    using room bl by (simp add: unat_word_ariths un)
  have run: "lfs_file_flushedwrite_body f data s = Some (Val (Inl []), w)"
    by (simp only: lfs_file_flushedwrite_body_def data if_False bnd_gets bnd_get_node [OF nd] first bnd_get_node [OF u(2)]
        Let_def diff)
      (simp add: bnd_def [of "flushedwrite_prog _ _"] prog bnd_upd_node u(2) n_def [symmetric] lfs_alloc_ckpoint_def run_simps w_def)
  have "small w ?file ?b"
    using u(3,5,6) at room pos fit inline_size_le [OF u(3)]
    by (auto simp: small_def w_def size_writing same_limits_def)
  moreover have "writing_at file ?file" using u(4) by (simp add: writing_at_def)
  moreover have "same_limits s w" using u(6) by (simp add: same_limits_def w_def)
  ultimately show ?thesis
    using run pos u(5) by (intro exI [of _ ?file] exI [of _ w]) (simp add: w_def)
qed

lemma inline_flushedwrite:
  assumes nd: "l_nodes s f = Some file" and sm: "small s file b" and nr: "\<not> flag_has (nd_flags file) F_READING"
    and data: "data \<noteq> []" and fit: "unat (nd_pos file) + length data \<le> unat (l_inline_max s)"
  shows "\<exists>file' t. lfs_file_flushedwrite f data s = Some (Val (word_of_nat (length data)), t) \<and> l_nodes t f = Some file'
    \<and> small t file' (splice b (unat (nd_pos file)) data) \<and> writing_at file file'
    \<and> unat (nd_pos file') = unat (nd_pos file) + length data \<and> same_limits s t"
proof -
  obtain file1 u where u: "lfs_file_flushedwrite_body f data s = Some (Val (Inl []), u)" "l_nodes u f = Some file1"
    "small u file1 (splice b (unat (nd_pos file)) data)" "writing_at file file1"
    "unat (nd_pos file1) = unat (nd_pos file) + length data" "same_limits s u"
    using inline_write_body [OF assms] by blast
  have "unat (l_inline_max s) < 2 ^ 32" using unsigned_less [of "l_inline_max s"] by simp
  then have pos: "unat (nd_pos file + word_of_nat (length data)) = unat (nd_pos file) + length data"
    using fit by (simp add: unat_word_ariths unat_of_nat)
  have small: "\<not> max (nd_pos file + word_of_nat (length data)) (ctz_size (nd_ctz file)) > l_inline_max s"
    using fit pos inline_size_le [OF sm] by (auto simp: word_less_nat_alt max_def)
  have "mloop (lfs_file_flushedwrite_body f) data s = Some (Val (), u)"
    using u(1) by (simp add: mloop_unfold [of _ data]) (simp add: mloop_unfold lfs_file_flushedwrite_body_def ret_def)
  then have "lfs_file_flushedwrite f data s = Some (Val (word_of_nat (length data)), u)"
    using data small by (simp add: lfs_file_flushedwrite_def bnd_get_node [OF nd] bnd_gets bnd_def [of "mloop _ _"] run_simps)
  with u show ?thesis by blast
qed

lemma writing_at_trans: "writing_at a b \<Longrightarrow> writing_at b c \<Longrightarrow> writing_at a c"
  by (simp add: writing_at_def)

lemma write_zeros_done:
  assumes "l_nodes s f = Some file" "\<not> nd_pos file < p"
  shows "write_zeros f p s = Some (Val (), s)"
  using assms by (simp add: write_zeros_def mloop_unfold bnd_get_node ret_def)

lemma write_zeros_step:
  assumes "l_nodes s f = Some file" "nd_pos file < p" "lfs_file_flushedwrite f [0] s = Some (Val x, t)"
  shows "write_zeros f p s = write_zeros f p t"
  using assms by (simp add: write_zeros_def mloop_unfold [of _ "()" s] bnd_get_node bnd_def [of "lfs_file_flushedwrite _ _"] ret_def)

text \<open>The gap is filled byte by byte; in the end the handle is at the position asked for.\<close>

lemma inline_zeros:
  assumes "l_nodes s f = Some h" "small s h b" "\<not> flag_has (nd_flags h) F_READING"
    and "unat (nd_pos h) + Suc k = unat p" "unat p \<le> unat (l_inline_max s)"
  shows "\<exists>h' t. write_zeros f p s = Some (Val (), t) \<and> l_nodes t f = Some h'
    \<and> small t h' (splice b (unat (nd_pos h)) (replicate (Suc k) 0)) \<and> writing_at h h'
    \<and> nd_pos h' = p \<and> same_limits s t"
  using assms
proof (induction k arbitrary: s h b)
  case (0 s h b)
  obtain file1 u where u: "lfs_file_flushedwrite f [0] s = Some (Val (word_of_nat (length [0 :: u8])), u)" "l_nodes u f = Some file1"
    "small u file1 (splice b (unat (nd_pos h)) [0])" "writing_at h file1"
    "unat (nd_pos file1) = unat (nd_pos h) + length [0 :: u8]" "same_limits s u"
    using inline_flushedwrite [OF 0(1-3), of "[0]"] 0(4,5) by auto
  have p: "nd_pos file1 = p" using u(5) 0(4) by (simp add: word_unat_eq_iff)
  have "nd_pos h < p" using 0(4) by (simp add: word_less_nat_alt)
  then have "write_zeros f p s = Some (Val (), u)"
    using write_zeros_step [OF 0(1) _ u(1)] write_zeros_done [OF u(2)] p by simp
  with u p show ?case by auto
next
  case (Suc k s h b)
  obtain file1 u where u: "lfs_file_flushedwrite f [0] s = Some (Val (word_of_nat (length [0 :: u8])), u)" "l_nodes u f = Some file1"
    "small u file1 (splice b (unat (nd_pos h)) [0])" "writing_at h file1"
    "unat (nd_pos file1) = unat (nd_pos h) + length [0 :: u8]" "same_limits s u"
    using inline_flushedwrite [OF Suc.prems(1-3), of "[0]"] Suc.prems(4,5) by auto
  obtain file2 t where t: "write_zeros f p u = Some (Val (), t)" "l_nodes t f = Some file2"
    "small t file2 (splice (splice b (unat (nd_pos h)) [0]) (unat (nd_pos file1)) (replicate (Suc k) 0))" "writing_at file1 file2"
    "nd_pos file2 = p" "same_limits u t"
    using Suc.IH [OF u(2,3)] u(4-6) Suc.prems(4,5) by (auto simp: writing_at_def same_limits_def)
  have "nd_pos h < p" using Suc.prems(4) by (simp add: word_less_nat_alt)
  then have "write_zeros f p s = Some (Val (), t)"
    using write_zeros_step [OF Suc.prems(1) _ u(1)] t(1) by simp
  moreover have "splice (splice b (unat (nd_pos h)) [0]) (unat (nd_pos file1)) (replicate (Suc k) 0)
      = splice b (unat (nd_pos h)) (replicate (Suc (Suc k)) 0)"
    using splice_splice [of "unat (nd_pos h)" "[0]" b "replicate (Suc k) 0"] u(5) Suc.prems(2,4,5) by (simp add: small_def)
  ultimately show ?case
    using t(2,3,5) writing_at_trans [OF u(4) t(4)] same_limits_trans [OF u(6) t(6)]
    by (intro exI [of _ file2] exI [of _ t]) simp
qed

subsection \<open>An array of bytes with a position\<close>

definition spec_fill :: "bytes \<Rightarrow> nat \<Rightarrow> bytes" where
  "spec_fill c p = c @ replicate (p - length c) 0"

definition spec_write :: "bytes \<Rightarrow> nat \<Rightarrow> bytes \<Rightarrow> bytes" where
  "spec_write c p data = take p (spec_fill c p) @ data @ drop (p + length data) (spec_fill c p)"

lemma content_write:
  assumes "p \<le> n" "n \<le> length b" "p + length data \<le> length b"
  shows "take (max (p + length data) n) (splice b p data) = spec_write (take n b) p data"
  using assms by (auto simp: spec_write_def spec_fill_def splice_def min_def max_def drop_take)

lemma content_gap:
  assumes "n < p" "p + length data \<le> length b"
  shows "take (p + length data) (splice (splice b n (replicate (p - n) 0)) p data) = spec_write (take n b) p data"
  using assms by (simp add: spec_write_def spec_fill_def splice_def)

text \<open>A small file as such an array, with the mode of its handle.\<close>

definition inline_rep :: "nat \<Rightarrow> 'd lfs \<Rightarrow> bool \<Rightarrow> bytes \<Rightarrow> nat \<Rightarrow> bool" where
  "inline_rep f s app c p \<longleftrightarrow> (\<exists>h b. l_nodes s f = Some h \<and> small s h b \<and> c = take (unat (lfs_file_size_raw h)) b
    \<and> p = unat (nd_pos h) \<and> app = flag_has (nd_flags h) O_APPEND
    \<and> (flag_has (nd_flags h) F_WRITING \<and> app \<longrightarrow> ctz_size (nd_ctz h) \<le> nd_pos h))"

lemma small_size_le: "small s h b \<Longrightarrow> unat (lfs_file_size_raw h) \<le> length b"
  by (simp add: small_def)

subsection \<open>Flushing\<close>

text \<open>Flushing a small file settles its size and ends what the handle was doing; nothing is written.\<close>

lemma inline_flush:
  assumes nd: "l_nodes s f = Some h" and sm: "small s h b"
  shows "\<exists>h' t. lfs_file_flush f s = Some (Val (), t) \<and> l_nodes t f = Some h' \<and> small t h' b
    \<and> nd_pos h' = nd_pos h \<and> ctz_size (nd_ctz h') = lfs_file_size_raw h \<and> lfs_file_size_raw h' = lfs_file_size_raw h
    \<and> flag_has (nd_flags h') O_APPEND = flag_has (nd_flags h) O_APPEND
    \<and> \<not> flag_has (nd_flags h') F_READING \<and> \<not> flag_has (nd_flags h') F_WRITING \<and> same_limits s t"
proof -
  consider "flag_has (nd_flags h) F_READING" "\<not> flag_has (nd_flags h) F_WRITING"
    | "flag_has (nd_flags h) F_WRITING" "\<not> flag_has (nd_flags h) F_READING"
    | "\<not> flag_has (nd_flags h) F_READING" "\<not> flag_has (nd_flags h) F_WRITING"
    using sm by (auto simp: small_def)
  then show ?thesis
  proof cases
    case 1
    let ?h = "h\<lparr>nd_flags := flag_clear F_READING (nd_flags h)\<rparr>"
    let ?t = "s\<lparr>l_nodes := (l_nodes s)(f \<mapsto> ?h)\<rparr>"
    have "lfs_file_flush f s = Some (Val (), ?t)"
      using 1 sm by (simp add: lfs_file_flush_def bnd_get_node [OF nd] small_def bnd_assoc run_simps remove_flag_def
          bnd_upd_node [OF nd] bnd_get_node inline_flags)
    with 1 sm show ?thesis
      by (intro exI [of _ ?h] exI [of _ ?t]) (simp add: small_def lfs_file_size_raw_def inline_flags same_limits_def)
  next
    case 2
    let ?h = "h\<lparr>nd_ctz := \<lparr>ctz_head = nd_block h, ctz_size = lfs_file_size_raw h\<rparr>,
        nd_flags := flag_set F_DIRTY (flag_clear F_WRITING (nd_flags h))\<rparr>"
    let ?t = "s\<lparr>l_nodes := (l_nodes s)(f \<mapsto> ?h)\<rparr>"
    have "lfs_file_flush f s = Some (Val (), ?t)"
      using 2 sm by (simp add: lfs_file_flush_def bnd_get_node [OF nd] small_def bnd_assoc run_simps Let_def
          bnd_upd_node [OF nd] upd_node_run lfs_file_size_raw_def)
    with 2 sm show ?thesis
      by (intro exI [of _ ?h] exI [of _ ?t]) (simp add: small_def lfs_file_size_raw_def inline_flags same_limits_def)
  next
    case 3
    then have "lfs_file_flush f s = Some (Val (), s)"
      using sm by (simp add: lfs_file_flush_def bnd_get_node [OF nd] run_simps)
    with 3 sm nd show ?thesis by (auto simp: lfs_file_size_raw_def)
  qed
qed

subsection \<open>The operations\<close>

text \<open>A small file whose handle is not reading.\<close>

definition inline_idle :: "nat \<Rightarrow> 'd lfs \<Rightarrow> lfs_node \<Rightarrow> bytes \<Rightarrow> bool" where
  "inline_idle f s h b \<longleftrightarrow> l_nodes s f = Some h \<and> small s h b \<and> \<not> flag_has (nd_flags h) F_READING
    \<and> (flag_has (nd_flags h) F_WRITING \<and> flag_has (nd_flags h) O_APPEND \<longrightarrow> ctz_size (nd_ctz h) \<le> nd_pos h)"

definition write_gap :: "nat \<Rightarrow> lfs_node \<Rightarrow> ('d, unit) fs" where
  "write_gap f h = (if \<not> flag_has (nd_flags h) F_WRITING \<and> nd_pos h > ctz_size (nd_ctz h) then
      bnd (upd_node f (\<lambda>n. n\<lparr>nd_pos := ctz_size (nd_ctz n)\<rparr>)) (\<lambda>_. write_zeros f (nd_pos h))
    else ret ())"

lemma inline_gap:
  assumes idle: "inline_idle f s h b" and fit: "unat (nd_pos h) + length data \<le> unat (l_inline_max s)"
  shows "\<exists>h1 u b1. write_gap f h s = Some (Val (), u) \<and> inline_idle f u h1 b1 \<and> length b1 = length b
      \<and> nd_pos h1 = nd_pos h \<and> nd_ctz h1 = nd_ctz h \<and> flag_has (nd_flags h1) O_APPEND = flag_has (nd_flags h) O_APPEND \<and> same_limits s u
      \<and> unat (nd_pos h) \<le> unat (lfs_file_size_raw h1)
      \<and> spec_write (take (unat (lfs_file_size_raw h1)) b1) (unat (nd_pos h)) data
        = spec_write (take (unat (lfs_file_size_raw h)) b) (unat (nd_pos h)) data"
proof (cases "\<not> flag_has (nd_flags h) F_WRITING \<and> nd_pos h > ctz_size (nd_ctz h)")
  case False
  then have "unat (nd_pos h) \<le> unat (lfs_file_size_raw h)"
    by (auto simp: lfs_file_size_raw_def max_def word_le_nat_alt not_less split: if_splits)
  then show ?thesis using False idle by (auto simp: write_gap_def run_simps)
next
  case True
  let ?p = "unat (nd_pos h)" and ?z = "ctz_size (nd_ctz h)" and ?n = "unat (lfs_file_size_raw h)"
  have nd: "l_nodes s f = Some h" and sm: "small s h b" and nr: "\<not> flag_has (nd_flags h) F_READING"
    using idle by (auto simp: inline_idle_def)
  have n: "?n = unat ?z" using True by (simp add: lfs_file_size_raw_def)
  have room: "?p + length data \<le> length b" using fit sm by (auto simp: small_def)
  let ?h = "h\<lparr>nd_pos := ?z\<rparr>"
  let ?s = "s\<lparr>l_nodes := (l_nodes s)(f \<mapsto> ?h)\<rparr>" and ?b = "splice b (unat ?z) (replicate (?p - unat ?z) 0)"
  have sm1: "small ?s ?h b" using sm nr True by (auto simp: small_def lfs_file_size_raw_def)
  have lt: "unat ?z < ?p" using True by (simp add: word_less_nat_alt)
  obtain h1 u where u: "write_zeros f (nd_pos h) ?s = Some (Val (), u)" "l_nodes u f = Some h1"
    "small u h1 ?b" "writing_at ?h h1" "nd_pos h1 = nd_pos h" "same_limits ?s u"
    using inline_zeros [of ?s f ?h b "?p - unat ?z - 1" "nd_pos h"] sm1 nr lt fit by (auto simp: Suc_diff_Suc)
  have size1: "unat (lfs_file_size_raw h1) = ?p"
    using u(4,5) lt by (simp add: writing_at_def size_writing)
  have "spec_write (take ?p ?b) ?p data = spec_write (take ?n b) ?p data"
    using lt room n by (simp add: spec_write_def spec_fill_def splice_def)
  moreover have "write_gap f h s = Some (Val (), u)"
    using True u(1) by (simp add: write_gap_def bnd_upd_node [OF nd])
  ultimately show ?thesis
    using u lt room size1
    by (intro exI [of _ h1] exI [of _ u] exI [of _ ?b])
      (simp add: inline_idle_def writing_at_def same_limits_def word_le_nat_alt)
qed

lemma inline_data:
  assumes idle: "inline_idle f s h b" and fit: "unat (nd_pos h) + length data \<le> unat (l_inline_max s)"
    and size: "unat (nd_pos h) \<le> unat (lfs_file_size_raw h)"
    and app: "flag_has (nd_flags h) O_APPEND \<longrightarrow> ctz_size (nd_ctz h) \<le> nd_pos h"
  shows "\<exists>t. lfs_file_flushedwrite f data s = Some (Val (word_of_nat (length data)), t) \<and> same_limits s t
    \<and> inline_rep f t (flag_has (nd_flags h) O_APPEND) (spec_write (take (unat (lfs_file_size_raw h)) b) (unat (nd_pos h)) data)
        (unat (nd_pos h) + length data)"
proof (cases "data = []")
  case True
  have "spec_write (take n b) p [] = take n b" if "p \<le> n" "n \<le> length b" for n p :: nat
    using that append_take_drop_id [of p "take n b"] by (simp add: spec_write_def spec_fill_def)
  then show ?thesis
    using True idle size by (auto simp: lfs_file_flushedwrite_def ret_def inline_rep_def inline_idle_def small_size_le)
next
  case False
  let ?p = "unat (nd_pos h)" and ?n = "unat (lfs_file_size_raw h)"
  have nd: "l_nodes s f = Some h" and sm: "small s h b" and nr: "\<not> flag_has (nd_flags h) F_READING"
    using idle by (auto simp: inline_idle_def)
  obtain h2 v where v: "lfs_file_flushedwrite f data s = Some (Val (word_of_nat (length data)), v)" "l_nodes v f = Some h2"
    "small v h2 (splice b ?p data)" "writing_at h h2" "unat (nd_pos h2) = ?p + length data" "same_limits s v"
    using inline_flushedwrite [OF nd sm nr False fit] by blast
  have "unat (lfs_file_size_raw h2) = max (?p + length data) (unat (ctz_size (nd_ctz h)))"
    using v(4,5) by (simp add: writing_at_def size_writing)
  also have "\<dots> = max (?p + length data) ?n"
    using size by (auto simp: lfs_file_size_raw_def max_def word_le_nat_alt)
  finally have size2: "unat (lfs_file_size_raw h2) = max (?p + length data) ?n" .
  have "take (unat (lfs_file_size_raw h2)) (splice b ?p data) = spec_write (take ?n b) ?p data"
    unfolding size2 by (rule content_write [OF size small_size_le [OF sm]]) (use fit sm in \<open>simp add: small_def\<close>)
  moreover have "flag_has (nd_flags h) O_APPEND \<longrightarrow> ctz_size (nd_ctz h2) \<le> nd_pos h2"
    using v(4,5) app by (auto simp: writing_at_def word_le_nat_alt)
  ultimately show ?thesis
    using v by (intro exI [of _ v]) (auto simp: inline_rep_def writing_at_def)
qed

text \<open>Before a write: what was read is dropped, and a handle that appends goes to the end.\<close>

definition append_pos :: "bool \<Rightarrow> bytes \<Rightarrow> nat \<Rightarrow> nat" where
  "append_pos app c p = (if app \<and> p < length c then length c else p)"

lemma inline_rep_idle:
  assumes "inline_rep f s app c p"
  obtains h where "l_nodes s f = Some h" "flag_has (nd_flags h) O_WRITE" "flag_has (nd_flags h) O_READ"
    "\<exists>h1 u b1. (if flag_has (nd_flags h) F_READING then lfs_file_flush f else ret ()) s = Some (Val (), u)
      \<and> inline_idle f u h1 b1 \<and> same_limits s u
      \<and> c = take (unat (lfs_file_size_raw h1)) b1 \<and> p = unat (nd_pos h1) \<and> app = flag_has (nd_flags h1) O_APPEND"
proof -
  obtain h b where h: "l_nodes s f = Some h" "small s h b" "c = take (unat (lfs_file_size_raw h)) b" "p = unat (nd_pos h)"
    "app = flag_has (nd_flags h) O_APPEND" "flag_has (nd_flags h) F_WRITING \<and> app \<longrightarrow> ctz_size (nd_ctz h) \<le> nd_pos h"
    using assms by (auto simp: inline_rep_def)
  have "\<exists>h1 u b1. (if flag_has (nd_flags h) F_READING then lfs_file_flush f else ret ()) s = Some (Val (), u)
      \<and> inline_idle f u h1 b1 \<and> same_limits s u
      \<and> c = take (unat (lfs_file_size_raw h1)) b1 \<and> p = unat (nd_pos h1) \<and> app = flag_has (nd_flags h1) O_APPEND"
    using inline_flush [OF h(1,2)] h by (auto simp: inline_idle_def run_simps)
  with h(1,2) show thesis by (intro that [of h]) (auto simp: small_def)
qed

lemma inline_write_raw:
  assumes rep: "inline_rep f s app c p"
    and fit: "append_pos app c p + length data \<le> unat (l_inline_max s)" "append_pos app c p + length data \<le> unat (l_file_max s)"
  shows "\<exists>t. lfs_file_write_raw f data s = Some (Val (word_of_nat (length data)), t) \<and> same_limits s t
    \<and> inline_rep f t app (spec_write c (append_pos app c p) data) (append_pos app c p + length data)"
proof -
  obtain h h1 u b1 where h: "l_nodes s f = Some h" "flag_has (nd_flags h) O_WRITE"
    and run: "(if flag_has (nd_flags h) F_READING then lfs_file_flush f else ret ()) s = Some (Val (), u)"
    and idle: "inline_idle f u h1 b1" and lim: "same_limits s u"
    and c: "c = take (unat (lfs_file_size_raw h1)) b1" "p = unat (nd_pos h1)" "app = flag_has (nd_flags h1) O_APPEND"
    by (rule inline_rep_idle [OF rep]) blast
  let ?g = "\<lambda>n. if flag_has (nd_flags n) O_APPEND \<and> nd_pos n < ctz_size (nd_ctz n) then n\<lparr>nd_pos := ctz_size (nd_ctz n)\<rparr> else n"
  define h2 where "h2 = ?g h1"
  define v where "v = u\<lparr>l_nodes := (l_nodes u)(f \<mapsto> h2)\<rparr>"
  have n1: "l_nodes u f = Some h1" and sm: "small u h1 b1" using idle by (auto simp: inline_idle_def)
  have same: "h2 = h1" if "\<not> flag_has (nd_flags h1) O_APPEND \<or> flag_has (nd_flags h1) F_WRITING"
    using that idle by (auto simp: h2_def inline_idle_def)
  have size2: "lfs_file_size_raw h2 = lfs_file_size_raw h1"
    using same by (auto simp: h2_def lfs_file_size_raw_def)
  have idle2: "inline_idle f v h2 b1"
    using idle same by (auto simp: inline_idle_def small_def v_def h2_def lfs_file_size_raw_def)
  have len: "length c = unat (lfs_file_size_raw h1)" using c(1) small_size_le [OF sm] by simp
  have pos2: "unat (nd_pos h2) = append_pos app c p"
    using idle len unfolding append_pos_def c(2,3) h2_def
    by (auto simp: inline_idle_def lfs_file_size_raw_def word_less_nat_alt word_le_nat_alt max_def split: if_splits)
  have app2: "flag_has (nd_flags h2) O_APPEND = app" "app \<longrightarrow> ctz_size (nd_ctz h2) \<le> nd_pos h2"
    using c(3) by (auto simp: h2_def)
  have lim2: "same_limits s v" using lim by (simp add: same_limits_def v_def)
  obtain h3 w b3 where w: "write_gap f h2 v = Some (Val (), w)" "inline_idle f w h3 b3" "nd_pos h3 = nd_pos h2"
    "nd_ctz h3 = nd_ctz h2" "flag_has (nd_flags h3) O_APPEND = app" "same_limits v w" "unat (nd_pos h2) \<le> unat (lfs_file_size_raw h3)"
    "spec_write (take (unat (lfs_file_size_raw h3)) b3) (unat (nd_pos h2)) data = spec_write c (unat (nd_pos h2)) data"
    using inline_gap [OF idle2, of data] fit lim2 pos2 size2 app2 c(1) by (auto simp: same_limits_def)
  obtain x where x: "lfs_file_flushedwrite f data w = Some (Val (word_of_nat (length data)), x)" "same_limits w x"
    "inline_rep f x app (spec_write c (append_pos app c p) data) (append_pos app c p + length data)"
    using inline_data [OF w(2), of data] w(3-8) fit(1) lim2 pos2 app2 by (auto simp: same_limits_def)
  obtain h4 b4 where h4: "l_nodes x f = Some h4" "small x h4 b4" "spec_write c (append_pos app c p) data = take (unat (lfs_file_size_raw h4)) b4"
    "append_pos app c p + length data = unat (nd_pos h4)" "app = flag_has (nd_flags h4) O_APPEND"
    "flag_has (nd_flags h4) F_WRITING \<and> app \<longrightarrow> ctz_size (nd_ctz h4) \<le> nd_pos h4"
    using x(3) by (auto simp: inline_rep_def)
  let ?h = "h4\<lparr>nd_flags := flag_clear F_ERRED (nd_flags h4)\<rparr>"
  let ?t = "x\<lparr>l_nodes := (l_nodes x)(f \<mapsto> ?h)\<rparr>"
  have flush: "bnd (if flag_has (nd_flags h) F_READING then lfs_file_flush f else ret ()) k s = k () u"
    for k :: "unit \<Rightarrow> ('a, u32) fs" by (rule bnd_run_Val) (rule run)
  have gap: "bnd (write_gap f h2) k v = k () w" for k :: "unit \<Rightarrow> ('a, u32) fs" by (rule bnd_run_Val) (rule w(1))
  have v: "l_nodes v f = Some h2" "l_file_max v = l_file_max s" using lim by (simp_all add: v_def same_limits_def)
  have small: "\<not> nd_pos h2 + word_of_nat (length data) > l_file_max s"
  proof -
    have "unat (l_file_max s) < 2 ^ 32" using unsigned_less [of "l_file_max s"] by simp
    then show ?thesis using fit(2) pos2 by (simp add: word_less_nat_alt unat_word_ariths unat_of_nat)
  qed
  have "lfs_file_write_raw f data s = Some (Val (word_of_nat (length data)), ?t)"
    unfolding lfs_file_write_raw_def
    by (simp only: bnd_get_node [OF h(1)] h(2) check_True bnd_ret flush bnd_upd_node [OF n1] h2_def [symmetric] v_def [symmetric]
        bnd_get_node [OF v(1)] bnd_gets v(2) small if_False write_gap_def [symmetric] gap)
      (simp add: bnd_def [of "lfs_file_flushedwrite _ _"] x(1) remove_flag_def bnd_upd_node [OF h4(1)] ret_def)
  moreover have "inline_rep f ?t app (spec_write c (append_pos app c p) data) (append_pos app c p + length data)"
    unfolding inline_rep_def
    using h4 by (intro exI [of _ ?h] exI [of _ b4]) (auto simp: small_def lfs_file_size_raw_def inline_flags)
  moreover have "same_limits s ?t" using lim2 w(6) x(2) by (simp add: same_limits_def)
  ultimately show ?thesis by blast
qed

subsection \<open>Reading\<close>

lemma inline_getread:
  assumes nd: "l_nodes s f = Some h" and sm: "small s h b" and data: "data \<noteq> []" "off + length data \<le> length b"
  shows "lfs_dir_getread m None (FCache f) hint gmask gtag off data s = Some (Val (take (length data) (drop off b)), s)"
proof -
  have c: "cache_of (FCache f) s = Some (nd_cache h)" using nd by (simp add: cache_of_def)
  have lt: "off < length b" using data by (cases data) auto
  have "lfs_dir_getread_body m None (FCache f) hint gmask gtag (off, [], data) s
      = Some (Val (Inl (off + length data, take (length data) (drop off b), [])), s)"
    using sm data lt
    by (simp add: lfs_dir_getread_body_def bnd_gets probe_opt_def bnd_get_cache [OF c] bnd_get_buf small_def Let_def ret_def)
  then show ?thesis
    using sm data
    by (simp add: lfs_dir_getread_def bnd_gets small_def mloop_unfold [of _ "(off, [], data)"])
      (simp add: mloop_unfold lfs_dir_getread_body_def ret_def)
qed

text \<open>A read of bytes that are there takes one turn of the loop.\<close>

lemma inline_read_body:
  assumes nd: "l_nodes s f = Some h" and sm: "small s h b" and nw: "\<not> flag_has (nd_flags h) F_WRITING"
    and data: "data \<noteq> []" "unat (nd_pos h) + length data \<le> unat (ctz_size (nd_ctz h))"
  shows "\<exists>h' t. lfs_file_flushedread_body f ([], data) s = Some (Val (Inl (take (length data) (drop (unat (nd_pos h)) b), [])), t)
    \<and> l_nodes t f = Some h' \<and> small t h' b \<and> \<not> flag_has (nd_flags h') F_WRITING \<and> nd_ctz h' = nd_ctz h
    \<and> flag_has (nd_flags h') O_APPEND = flag_has (nd_flags h) O_APPEND
    \<and> unat (nd_pos h') = unat (nd_pos h) + length data \<and> same_limits s t"
proof -
  let ?bs = "cfg_block_size (l_cfg s)" and ?p = "unat (nd_pos h)"
  have room: "?p + length data \<le> length b" "length b \<le> unat ?bs" "unat (ctz_size (nd_ctz h)) \<le> unat (l_inline_max s)"
    using data inline_size_le [OF sm] sm by (auto simp: small_def)
  have "\<exists>h1 u. (if \<not> flag_has (nd_flags h) F_READING \<or> nd_off h = ?bs then flushedread_seek f else ret ()) s = Some (Val (), u)
    \<and> l_nodes u f = Some h1 \<and> small u h1 b \<and> flag_has (nd_flags h1) F_READING \<and> nd_off h1 = nd_pos h \<and> nd_pos h1 = nd_pos h
    \<and> nd_ctz h1 = nd_ctz h \<and> flag_has (nd_flags h1) O_APPEND = flag_has (nd_flags h) O_APPEND
    \<and> nd_cache h1 = nd_cache h \<and> same_limits s u"
  proof (cases "\<not> flag_has (nd_flags h) F_READING \<or> nd_off h = ?bs")
    case False
    then show ?thesis using nd sm by (auto simp: run_simps small_def)
  next
    case True
    let ?h = "h\<lparr>nd_block := LFS_BLOCK_INLINE, nd_off := nd_pos h, nd_flags := flag_set F_READING (nd_flags h)\<rparr>"
    let ?t = "s\<lparr>l_nodes := (l_nodes s)(f \<mapsto> ?h)\<rparr>"
    have "flushedread_seek f s = Some (Val (), ?t)"
      using sm by (simp add: flushedread_seek_def bnd_get_node [OF nd] small_def bnd_upd_node [OF nd] insert_flag_def upd_node_run)
    with True sm nw room show ?thesis
      by (intro exI [of _ ?h] exI [of _ ?t]) (auto simp: small_def lfs_file_size_raw_def inline_flags same_limits_def)
  qed
  then obtain h1 u where u: "(if \<not> flag_has (nd_flags h) F_READING \<or> nd_off h = ?bs then flushedread_seek f else ret ()) s = Some (Val (), u)"
    "l_nodes u f = Some h1" "small u h1 b" "flag_has (nd_flags h1) F_READING" "nd_off h1 = nd_pos h" "nd_pos h1 = nd_pos h"
    "nd_ctz h1 = nd_ctz h" "flag_has (nd_flags h1) O_APPEND = flag_has (nd_flags h) O_APPEND" "same_limits s u" by blast
  have first: "bnd (if \<not> flag_has (nd_flags h) F_READING \<or> nd_off h = ?bs then flushedread_seek f else ret ()) k s = k () u"
    for k :: "unit \<Rightarrow> ('a, (bytes \<times> bytes) + bytes) fs" by (rule bnd_run_Val) (rule u(1))
  have inl: "flag_has (nd_flags h1) F_INLINE" "\<not> flag_has (nd_flags h1) F_WRITING" using u(3,4) by (auto simp: small_def)
  have "unat (?bs - nd_off h1) = unat ?bs - ?p"
    using room by (subst unat_sub) (auto simp: word_le_nat_alt u(5))
  then have diff: "min (length data) (unat (?bs - nd_off h1)) = length data" using room by simp
  have rd: "lfs_dir_getread (nd_m h1) None (FCache f) ?bs (lfs_mktag 0xfff 0x1ff 0)
      (lfs_mktag LFS_TYPE_INLINESTRUCT (ucast (nd_id h1)) 0) (unat (nd_off h1)) data u = Some (Val (take (length data) (drop ?p b)), u)"
    using inline_getread [OF u(2,3) data(1)] room(1) u(5) by simp
  define n where "n = (word_of_nat (length data) :: u32)"
  have bl: "unat ?bs < 2 ^ 32" using unsigned_less [of ?bs] by simp
  have un: "unat n = length data" using room bl by (simp add: n_def unat_of_nat)
  have pos: "unat (nd_pos h + n) = ?p + length data" using room bl by (simp add: unat_word_ariths un)
  let ?h = "h1\<lparr>nd_pos := nd_pos h1 + n, nd_off := nd_off h1 + n\<rparr>"
  let ?t = "u\<lparr>l_nodes := (l_nodes u)(f \<mapsto> ?h)\<rparr>"
  have "lfs_file_flushedread_body f ([], data) s = Some (Val (Inl (take (length data) (drop ?p b), [])), ?t)"
    by (simp only: lfs_file_flushedread_body_def prod.case data(1) if_False bnd_gets bnd_get_node [OF nd] first
        bnd_get_node [OF u(2)] Let_def inl if_True diff)
      (simp add: bnd_def [of "lfs_dir_getread _ _ _ _ _ _ _ _"] rd n_def [symmetric] bnd_upd_node [OF u(2)] ret_def)
  moreover have "small ?t ?h b" using u(3,5,6,9) inl(2) pos room by (auto simp: small_def lfs_file_size_raw_def same_limits_def)
  ultimately show ?thesis
    using u inl pos by (intro exI [of _ ?h] exI [of _ ?t]) (simp add: same_limits_def)
qed

lemma inline_read_raw:
  assumes rep: "inline_rep f s app c p" and k: "k = min (length buf) (length c - p)"
  shows "\<exists>t. lfs_file_read_raw f buf s = Some (Val (word_of_nat k, take k (drop p c) @ drop k buf), t) \<and> same_limits s t
    \<and> inline_rep f t app c (p + k)"
proof -
  obtain h b where h: "l_nodes s f = Some h" "small s h b" and c: "c = take (unat (lfs_file_size_raw h)) b" "p = unat (nd_pos h)"
    "app = flag_has (nd_flags h) O_APPEND" using rep by (auto simp: inline_rep_def)
  have "\<exists>h1 u. (if flag_has (nd_flags h) F_WRITING then lfs_file_flush f else ret ()) s = Some (Val (), u) \<and> l_nodes u f = Some h1
      \<and> small u h1 b \<and> \<not> flag_has (nd_flags h1) F_WRITING \<and> nd_pos h1 = nd_pos h \<and> ctz_size (nd_ctz h1) = lfs_file_size_raw h
      \<and> flag_has (nd_flags h1) O_APPEND = app \<and> same_limits s u"
    using inline_flush [OF h] h c(3) by (cases "flag_has (nd_flags h) F_WRITING") (auto simp: run_simps lfs_file_size_raw_def)
  then obtain h1 u where run: "(if flag_has (nd_flags h) F_WRITING then lfs_file_flush f else ret ()) s = Some (Val (), u)"
    and u: "l_nodes u f = Some h1" "small u h1 b" "\<not> flag_has (nd_flags h1) F_WRITING" "nd_pos h1 = nd_pos h"
      "ctz_size (nd_ctz h1) = lfs_file_size_raw h" "flag_has (nd_flags h1) O_APPEND = app" "same_limits s u" by blast
  have flush: "bnd (if flag_has (nd_flags h) F_WRITING then lfs_file_flush f else ret ()) g s = g () u"
    for g :: "unit \<Rightarrow> ('a, u32 \<times> bytes) fs" by (rule bnd_run_Val) (rule run)
  have start: "lfs_file_read_raw f buf s = lfs_file_flushedread f buf u"
    unfolding lfs_file_read_raw_def using h(2)
    by (simp only: bnd_get_node [OF h(1)] small_def check_True bnd_ret flush)
  have len: "length c = unat (lfs_file_size_raw h)" using c(1) small_size_le [OF h(2)] by simp
  have rep_u: "inline_rep f u app c p"
    unfolding inline_rep_def using u c by (intro exI [of _ h1] exI [of _ b]) (simp add: lfs_file_size_raw_def)
  show ?thesis
  proof (cases "k = 0")
    case True
    then have "buf = [] \<or> ctz_size (nd_ctz h1) \<le> nd_pos h1"
      using k len c(2) u(4,5) by (auto simp: word_le_nat_alt min_def split: if_splits)
    then have "lfs_file_flushedread f buf u = Some (Val (0, buf), u)"
      by (auto simp: lfs_file_flushedread_def bnd_get_node [OF u(1)] ret_def)
    then show ?thesis using True start rep_u u(7) by auto
  next
    case False
    have lt: "\<not> ctz_size (nd_ctz h1) \<le> nd_pos h1" "buf \<noteq> []"
      using False k len c(2) u(4,5) by (auto simp: word_le_nat_alt)
    have sub: "unat (ctz_size (nd_ctz h1) - nd_pos h1) = length c - p"
      using lt(1) len c(2) u(4,5) by (subst unat_sub) auto
    have ne: "take k buf \<noteq> []" using False lt(2) by simp
    have fits: "unat (nd_pos h1) + length (take k buf) \<le> unat (ctz_size (nd_ctz h1))"
      using k lt(1) len c(2) u(4,5) by (auto simp: word_le_nat_alt)
    obtain h2 t where t: "lfs_file_flushedread_body f ([], take k buf) u = Some (Val (Inl (take (length (take k buf)) (drop (unat (nd_pos h1)) b), [])), t)"
      "l_nodes t f = Some h2" "small t h2 b" "\<not> flag_has (nd_flags h2) F_WRITING" "nd_ctz h2 = nd_ctz h1"
      "flag_has (nd_flags h2) O_APPEND = flag_has (nd_flags h1) O_APPEND"
      "unat (nd_pos h2) = unat (nd_pos h1) + length (take k buf)" "same_limits u t"
      using inline_read_body [OF u(1-3) ne fits] by blast
    have kl: "length (take k buf) = k" using k by simp
    have bytes: "take k (drop p b) = take k (drop p c)"
      using k len by (simp add: c(1) drop_take min_def)
    have "mloop (lfs_file_flushedread_body f) ([], take k buf) u = Some (Val (take k (drop p c)), t)"
      using t(1) unfolding kl u(4) c(2) [symmetric] bytes
      by (simp add: mloop_unfold [of _ "([], take k buf)"]) (simp add: mloop_unfold lfs_file_flushedread_body_def ret_def)
    then have "lfs_file_flushedread f buf u = Some (Val (word_of_nat k, take k (drop p c) @ drop k buf), t)"
      using lt by (simp add: lfs_file_flushedread_def bnd_get_node [OF u(1)] Let_def sub k [symmetric] bnd_def [of "mloop _ _"] ret_def)
    moreover have "inline_rep f t app c (p + k)"
      unfolding inline_rep_def using t u c kl by (intro exI [of _ h2] exI [of _ b]) (simp add: lfs_file_size_raw_def)
    ultimately show ?thesis using start same_limits_trans [OF u(7) t(8)] by auto
  qed
qed

subsection \<open>Seeking\<close>

definition spec_target :: "bytes \<Rightarrow> nat \<Rightarrow> u32 \<Rightarrow> int \<Rightarrow> u32" where
  "spec_target c p off whence =
    (if whence = LFS_SEEK_SET then off
     else if whence = LFS_SEEK_CUR then word_of_nat p + off
     else if whence = LFS_SEEK_END then word_of_nat (length c) + off
     else word_of_nat p)"

lemma ctz_index_first:
  assumes "128 \<le> unat (cfg_block_size (l_cfg s))" "lfs_ctz_index off s = Some (Val (i, o'), t)"
  shows "i = 0 \<longleftrightarrow> unat off < unat (cfg_block_size (l_cfg s))" "i = 0 \<Longrightarrow> o' = off"
proof -
  let ?B = "unat (cfg_block_size (l_cfg s))"
  obtain j oj where j: "lfs_ctz_index off s = Some (Val (j, oj), s)" "block_start ?B (unat j) \<le> unat off"
    "unat off < block_start ?B (Suc (unat j))" "unat oj = unat off - block_start ?B (unat j) + ptrs (unat j)"
    using ctz_index_correct [OF assms(1), of off] by metis
  then have e: "j = i" "oj = o'" using assms(2) by auto
  have "?B \<le> unat off" if "i \<noteq> 0"
  proof -
    have "block_start ?B 1 \<le> block_start ?B (unat j)"
      by (rule block_start_le) (use that e in \<open>simp add: unat_gt_0 Suc_le_eq\<close>)
    with j(2) show ?thesis by (simp add: ptrs_def)
  qed
  moreover have "unat off < ?B" if "i = 0" using j(3) e that by (simp add: ptrs_def)
  ultimately show "i = 0 \<longleftrightarrow> unat off < ?B" by fastforce
  show "o' = off" if "i = 0" using j(4) e that by (simp add: ptrs_def word_unat_eq_iff)
qed

lemma inline_seek_cached:
  assumes nd: "l_nodes s f = Some h" and sm: "small s h b"
  obtains c where "seek_cached f npos s = Some (Val c, s)"
    "\<forall>noff. c = Some noff \<longrightarrow> noff = npos \<and> unat npos \<le> unat (cfg_block_size (l_cfg s)) \<and> flag_has (nd_flags h) F_READING"
proof -
  have bs: "128 \<le> unat (cfg_block_size (l_cfg s))" using sm by (simp add: small_def)
  obtain oi oo where oi: "lfs_ctz_index (nd_pos h) s = Some (Val (oi, oo), s)" using ctz_index_correct [OF bs, of "nd_pos h"] by metis
  obtain ni no where ni: "lfs_ctz_index npos s = Some (Val (ni, no), s)" using ctz_index_correct [OF bs, of npos] by metis
  show thesis
  proof (cases "flag_has (nd_flags h) F_READING \<and> nd_off h \<noteq> cfg_block_size (l_cfg s)")
    case False
    then show thesis by (intro that [of None]) (auto simp: seek_cached_def bnd_get_node [OF nd] run_simps)
  next
    case True
    then have "unat (nd_pos h) < unat (cfg_block_size (l_cfg s))"
      using sm by (auto simp: small_def word_unat_eq_iff order_le_less)
    then have "oi = 0" using ctz_index_first [OF bs oi] by simp
    then show thesis
      using True ctz_index_first [OF bs ni] sm
      by (intro that [of "if oi = ni \<and> unat no \<ge> cache_off (nd_cache h) \<and> unat no < cache_off (nd_cache h) + cache_size (nd_cache h)
          then Some no else None"])
        (auto simp: seek_cached_def bnd_get_node [OF nd] bnd_gets bnd_def [of "lfs_ctz_index _"] oi ni Let_def ret_def small_def)
  qed
qed

lemma inline_seek_raw:
  assumes rep: "inline_rep f s app c p" and max: "spec_target c p off whence \<le> l_file_max s"
  shows "\<exists>t. lfs_file_seek_raw f off whence s = Some (Val (spec_target c p off whence), t) \<and> same_limits s t
    \<and> inline_rep f t app c (unat (spec_target c p off whence))"
proof -
  obtain h b where h: "l_nodes s f = Some h" "small s h b" and c: "c = take (unat (lfs_file_size_raw h)) b" "p = unat (nd_pos h)"
    "app = flag_has (nd_flags h) O_APPEND" using rep by (auto simp: inline_rep_def)
  have len: "length c = unat (lfs_file_size_raw h)" using c(1) small_size_le [OF h(2)] by simp
  define npos where "npos = spec_target c p off whence"
  have tgt: "seek_target h off whence = npos" by (simp add: seek_target_def npos_def spec_target_def len c(2))
  have fits: "(npos > l_file_max s) = False" using max by (simp add: npos_def not_less)
  have start: "lfs_file_seek_raw f off whence s = (if nd_pos h = npos then ret npos else
      bnd (seek_cached f npos) (\<lambda>c. case c of
        Some noff \<Rightarrow> bnd (upd_node f (\<lambda>n. n\<lparr>nd_pos := npos, nd_off := noff\<rparr>)) (\<lambda>_. ret npos)
      | None \<Rightarrow> bnd (lfs_file_flush f) (\<lambda>_. bnd (upd_node f (\<lambda>n. n\<lparr>nd_pos := npos\<rparr>)) (\<lambda>_. ret npos)))) s"
    by (simp only: lfs_file_seek_raw_def bnd_get_node [OF h(1)] bnd_gets Let_def tgt fits if_False)
  obtain x where x: "seek_cached f npos s = Some (Val x, s)"
    "\<forall>noff. x = Some noff \<longrightarrow> noff = npos \<and> unat npos \<le> unat (cfg_block_size (l_cfg s)) \<and> flag_has (nd_flags h) F_READING"
    by (rule inline_seek_cached [OF h, where npos = npos])
  have rest: "bnd (seek_cached f npos) k s = k x s" for k :: "u32 option \<Rightarrow> ('a, u32) fs" by (rule bnd_run_Val) (rule x(1))
  consider (stay) "nd_pos h = npos" | (cached) "nd_pos h \<noteq> npos" "x = Some npos" "unat npos \<le> unat (cfg_block_size (l_cfg s))"
      "flag_has (nd_flags h) F_READING" | (flush) "nd_pos h \<noteq> npos" "x = None"
    using x(2) by (cases x) auto
  then show ?thesis
  proof cases
    case stay
    have "inline_rep f s app c (unat npos)" using rep c(2) stay by simp
    moreover have "lfs_file_seek_raw f off whence s = Some (Val npos, s)" using start stay by (simp add: ret_def)
    ultimately show ?thesis unfolding npos_def [symmetric] by (intro exI [of _ s]) simp
  next
    case cached
    let ?h = "h\<lparr>nd_pos := npos, nd_off := npos\<rparr>"
    let ?t = "s\<lparr>l_nodes := (l_nodes s)(f \<mapsto> ?h)\<rparr>"
    have "lfs_file_seek_raw f off whence s = Some (Val npos, ?t)"
      unfolding start using cached by (simp add: rest bnd_upd_node [OF h(1)] ret_def)
    moreover have "inline_rep f ?t app c (unat npos)"
      unfolding inline_rep_def using cached h c by (intro exI [of _ ?h] exI [of _ b]) (auto simp: small_def lfs_file_size_raw_def)
    ultimately show ?thesis unfolding npos_def [symmetric] by (intro exI [of _ ?t]) (simp add: same_limits_def)
  next
    case flush
    obtain h1 u where u: "lfs_file_flush f s = Some (Val (), u)" "l_nodes u f = Some h1" "small u h1 b"
      "lfs_file_size_raw h1 = lfs_file_size_raw h" "flag_has (nd_flags h1) O_APPEND = app"
      "\<not> flag_has (nd_flags h1) F_READING" "\<not> flag_has (nd_flags h1) F_WRITING" "same_limits s u"
      using inline_flush [OF h] c(3) by blast
    let ?h = "h1\<lparr>nd_pos := npos\<rparr>"
    let ?t = "u\<lparr>l_nodes := (l_nodes u)(f \<mapsto> ?h)\<rparr>"
    have "lfs_file_seek_raw f off whence s = Some (Val npos, ?t)"
      unfolding start using flush by (simp add: rest bnd_def [of "lfs_file_flush _"] u(1) bnd_upd_node [OF u(2)] ret_def)
    moreover have "inline_rep f ?t app c (unat npos)"
      unfolding inline_rep_def using u c by (intro exI [of _ ?h] exI [of _ b]) (auto simp: small_def lfs_file_size_raw_def)
    ultimately show ?thesis using u(8) unfolding npos_def [symmetric] by (intro exI [of _ ?t]) (simp add: same_limits_def)
  qed
qed

subsection \<open>Sequences of operations\<close>

datatype file_op = FWrite bytes | FRead bytes | FSeek u32 int

fun run_op :: "nat \<Rightarrow> file_op \<Rightarrow> ('d, u32 \<times> bytes) fs" where
  "run_op f (FWrite data) = bnd (lfs_file_write_raw f data) (\<lambda>n. ret (n, []))"
| "run_op f (FRead buf) = lfs_file_read_raw f buf"
| "run_op f (FSeek off whence) = bnd (lfs_file_seek_raw f off whence) (\<lambda>n. ret (n, []))"

primrec run_ops :: "nat \<Rightarrow> file_op list \<Rightarrow> ('d, (u32 \<times> bytes) list) fs" where
  "run_ops f [] = ret []"
| "run_ops f (op # ops) = bnd (run_op f op) (\<lambda>r. bnd (run_ops f ops) (\<lambda>rs. ret (r # rs)))"

text \<open>The same on an array of bytes: the result, the array and the position.\<close>

fun spec_op :: "bool \<Rightarrow> file_op \<Rightarrow> bytes \<Rightarrow> nat \<Rightarrow> (u32 \<times> bytes) \<times> bytes \<times> nat" where
  "spec_op app (FWrite data) c p =
    ((word_of_nat (length data), []), spec_write c (append_pos app c p) data, append_pos app c p + length data)"
| "spec_op app (FRead buf) c p =
    (let k = min (length buf) (length c - p) in ((word_of_nat k, take k (drop p c) @ drop k buf), c, p + k))"
| "spec_op app (FSeek off whence) c p =
    ((spec_target c p off whence, []), c, unat (spec_target c p off whence))"

primrec spec_ops :: "bool \<Rightarrow> file_op list \<Rightarrow> bytes \<Rightarrow> nat \<Rightarrow> (u32 \<times> bytes) list \<times> bytes \<times> nat" where
  "spec_ops app [] c p = ([], c, p)"
| "spec_ops app (op # ops) c p =
    (case spec_op app op c p of (r, c, p) \<Rightarrow> case spec_ops app ops c p of (rs, c, p) \<Rightarrow> (r # rs, c, p))"

text \<open>The operations stay within the file: inline when they write, below the largest position.\<close>

fun op_fits :: "u32 \<Rightarrow> u32 \<Rightarrow> bool \<Rightarrow> file_op \<Rightarrow> bytes \<Rightarrow> nat \<Rightarrow> bool" where
  "op_fits imax fmax app (FWrite data) c p \<longleftrightarrow>
    append_pos app c p + length data \<le> unat imax \<and> append_pos app c p + length data \<le> unat fmax"
| "op_fits imax fmax app (FRead buf) c p \<longleftrightarrow> True"
| "op_fits imax fmax app (FSeek off whence) c p \<longleftrightarrow> spec_target c p off whence \<le> fmax"

primrec ops_fit :: "u32 \<Rightarrow> u32 \<Rightarrow> bool \<Rightarrow> file_op list \<Rightarrow> bytes \<Rightarrow> nat \<Rightarrow> bool" where
  "ops_fit imax fmax app [] c p \<longleftrightarrow> True"
| "ops_fit imax fmax app (op # ops) c p \<longleftrightarrow> op_fits imax fmax app op c p
    \<and> (case spec_op app op c p of (r, c, p) \<Rightarrow> ops_fit imax fmax app ops c p)"

lemma run_op_spec:
  assumes "inline_rep f s app c p" "op_fits (l_inline_max s) (l_file_max s) app op c p" "spec_op app op c p = (r, c', p')"
  shows "\<exists>t. run_op f op s = Some (Val r, t) \<and> same_limits s t \<and> inline_rep f t app c' p'"
proof (cases op)
  case (FWrite data)
  then show ?thesis using inline_write_raw [OF assms(1), of data] assms(2,3)
    by (auto simp: bnd_def [of "lfs_file_write_raw _ _"] ret_def)
next
  case (FRead buf)
  then show ?thesis using inline_read_raw [OF assms(1) refl, of buf] assms(3) by (auto simp: Let_def)
next
  case (FSeek off whence)
  then show ?thesis using inline_seek_raw [OF assms(1), of off whence] assms(2,3)
    by (auto simp: bnd_def [of "lfs_file_seek_raw _ _ _"] ret_def)
qed

lemma run_ops_spec:
  assumes "inline_rep f s app c p" "ops_fit (l_inline_max s) (l_file_max s) app ops c p" "spec_ops app ops c p = (rs, c', p')"
  shows "\<exists>t. run_ops f ops s = Some (Val rs, t) \<and> same_limits s t \<and> inline_rep f t app c' p'"
  using assms
proof (induction ops arbitrary: s c p rs)
  case Nil
  then show ?case by (auto simp: ret_def)
next
  case (Cons op ops s c p rs)
  obtain r c1 p1 where op: "spec_op app op c p = (r, c1, p1)" by (cases "spec_op app op c p") auto
  obtain qs where qs: "spec_ops app ops c1 p1 = (qs, c', p')" "rs = r # qs"
    using Cons.prems(3) op by (auto split: prod.splits)
  obtain t where t: "run_op f op s = Some (Val r, t)" "same_limits s t" "inline_rep f t app c1 p1"
    using run_op_spec [OF Cons.prems(1) _ op] Cons.prems(2) by auto
  have "ops_fit (l_inline_max t) (l_file_max t) app ops c1 p1" using Cons.prems(2) op t(2) by (simp add: same_limits_def)
  then obtain u where u: "run_ops f ops t = Some (Val qs, u)" "same_limits t u" "inline_rep f u app c' p'"
    using Cons.IH [OF t(3) _ qs(1)] by blast
  have "run_ops f (op # ops) s = Some (Val rs, u)"
    by (simp add: bnd_def t(1) u(1) qs(2) ret_def)
  with u same_limits_trans [OF t(2) u(2)] show ?case by blast
qed

subsection \<open>Properties\<close>

text \<open>C14 (refinement). A small file is an array of bytes.  As long as writes stay within the inline limit and positions
  within the file limit, every sequence of writes, reads and seeks on a handle of an inline
  file returns what the same operations return on an array of bytes with a position: a
  write puts its bytes at the position (at the end, when the handle appends), a gap before it
  reads as zeros, a read delivers what is there and leaves the rest of the buffer alone, a seek
  counts from the start, the position or the end.  The device is not touched.\<close>

theorem small_file_is_array:
  assumes "inline_rep f s app c p" "ops_fit (l_inline_max s) (l_file_max s) app ops c p"
  shows "case spec_ops app ops c p of (rs, c', p') \<Rightarrow>
    \<exists>t. run_ops f ops s = Some (Val rs, t) \<and> inline_rep f t app c' p' \<and> l_dev t = l_dev s"
proof -
  obtain rs c' p' where "spec_ops app ops c p = (rs, c', p')" by (cases "spec_ops app ops c p") auto
  with run_ops_spec [OF assms this] show ?thesis by (auto simp: same_limits_def)
qed

definition demo_inline :: "ram_storage lfs" where
  "demo_inline = (demo_state (ram_new 128 4))\<lparr>l_nodes := [7 \<mapsto> node_default\<lparr>nd_flags := O_READ OR O_WRITE OR F_INLINE,
     nd_cache := \<lparr>cache_block = LFS_BLOCK_INLINE, cache_off = 0, cache_size = 64, cache_buffer = 2\<rparr>\<rparr>]\<rparr>"

lemma demo_inline_rep: "inline_rep 7 demo_inline False [] 0"
  by (simp add: inline_rep_def demo_inline_def demo_defs small_def node_default_def lfs_file_size_raw_def flag_has_def
      O_READ_def O_WRITE_def O_APPEND_def F_INLINE_def F_WRITING_def F_READING_def)

theorem small_file_is_array_witness:
  "\<exists>t. run_ops 7 [FWrite [0x68, 0x69], FSeek 2 LFS_SEEK_CUR, FWrite [0x21], FSeek (- 4) LFS_SEEK_END, FRead (replicate 5 0xee)] demo_inline
      = Some (Val [(2, []), (4, []), (1, []), (1, []), (4, [0x69, 0, 0, 0x21, 0xee])], t)
    \<and> inline_rep 7 t False [0x68, 0x69, 0, 0, 0x21] 5"
proof -
  let ?ops = "[FWrite [0x68, 0x69], FSeek 2 LFS_SEEK_CUR, FWrite [0x21], FSeek (- 4) LFS_SEEK_END, FRead (replicate 5 0xee)]"
  have s: "spec_ops False ?ops [] 0
      = ([(2, []), (4, []), (1, []), (1, []), (4, [0x69, 0, 0, 0x21, 0xee])], [0x68, 0x69, 0, 0, 0x21], 5)"
    by code_simp
  have "ops_fit 16 2147483647 False ?ops [] 0"
    by (simp add: spec_write_def spec_fill_def append_pos_def spec_target_def LFS_SEEK_SET_def LFS_SEEK_CUR_def LFS_SEEK_END_def Let_def)
  then have "ops_fit (l_inline_max demo_inline) (l_file_max demo_inline) False ?ops [] 0"
    by (simp only: demo_inline_def demo_state_def lfs.simps)
  from small_file_is_array [OF demo_inline_rep this] show ?thesis unfolding s by auto
qed

end
