(* ===== verification/Api.thy ===== *)
theory Api
  imports Mount
begin

text \<open>
  The public functions of the core crate, \<open>littlefs-rust-core/src/lib.rs\<close>: each passes its
  arguments to the operation of the same name and adds nothing but trace output.  The public
  traversal leaves orphans out.
\<close>

definition lfs_format :: "'d lfs_config \<Rightarrow> ('d, unit) fs" where "lfs_format config = lfs_format_raw config"
definition lfs_mount :: "'d lfs_config \<Rightarrow> ('d, unit) fs" where "lfs_mount config = lfs_mount_raw config"
definition lfs_unmount :: "('d, unit) fs" where "lfs_unmount = lfs_unmount_raw"
definition lfs_remove :: "bytes \<Rightarrow> ('d, unit) fs" where "lfs_remove path = lfs_remove_raw path"

definition lfs_rename :: "bytes \<Rightarrow> bytes \<Rightarrow> ('d, unit) fs" where
  "lfs_rename oldpath newpath = lfs_rename_raw oldpath newpath"

definition lfs_stat :: "bytes \<Rightarrow> lfs_info \<Rightarrow> ('d, lfs_info) fs" where
  "lfs_stat path info = lfs_stat_raw path info"

definition lfs_getattr :: "bytes \<Rightarrow> u8 \<Rightarrow> bytes \<Rightarrow> ('d, u32 \<times> bytes) fs" where
  "lfs_getattr path type buffer = lfs_getattr_raw path type buffer"

definition lfs_setattr :: "bytes \<Rightarrow> u8 \<Rightarrow> bytes \<Rightarrow> ('d, unit) fs" where
  "lfs_setattr path type buffer = lfs_setattr_raw path type buffer"

definition lfs_removeattr :: "bytes \<Rightarrow> u8 \<Rightarrow> ('d, unit) fs" where
  "lfs_removeattr path type = lfs_removeattr_raw path type"

definition lfs_file_open :: "nat \<Rightarrow> bytes \<Rightarrow> u32 \<Rightarrow> ('d, unit) fs" where
  "lfs_file_open f path flags = lfs_file_open_raw f path flags"

definition lfs_file_opencfg :: "nat \<Rightarrow> bytes \<Rightarrow> u32 \<Rightarrow> lfs_file_config \<Rightarrow> ('d, unit) fs" where
  "lfs_file_opencfg f path flags config = lfs_file_opencfg_raw f path flags config"

definition lfs_file_close :: "nat \<Rightarrow> ('d, unit) fs" where "lfs_file_close f = lfs_file_close_raw f"
definition lfs_file_sync :: "nat \<Rightarrow> ('d, unit) fs" where "lfs_file_sync f = lfs_file_sync_raw f"

definition lfs_file_read :: "nat \<Rightarrow> bytes \<Rightarrow> ('d, u32 \<times> bytes) fs" where
  "lfs_file_read f buffer = lfs_file_read_raw f buffer"

definition lfs_file_write :: "nat \<Rightarrow> bytes \<Rightarrow> ('d, u32) fs" where
  "lfs_file_write f buffer = lfs_file_write_raw f buffer"

definition lfs_file_seek :: "nat \<Rightarrow> u32 \<Rightarrow> int \<Rightarrow> ('d, u32) fs" where
  "lfs_file_seek f off whence = lfs_file_seek_raw f off whence"

definition lfs_file_truncate :: "nat \<Rightarrow> u32 \<Rightarrow> ('d, unit) fs" where
  "lfs_file_truncate f sz = lfs_file_truncate_raw f sz"

definition lfs_file_tell :: "lfs_node \<Rightarrow> u32" where "lfs_file_tell n = lfs_file_tell_raw n"
definition lfs_file_rewind :: "nat \<Rightarrow> ('d, unit) fs" where "lfs_file_rewind f = lfs_file_rewind_raw f"
definition lfs_file_size :: "lfs_node \<Rightarrow> u32" where "lfs_file_size n = lfs_file_size_raw n"
definition lfs_mkdir :: "bytes \<Rightarrow> ('d, unit) fs" where "lfs_mkdir path = lfs_mkdir_raw path"

definition lfs_dir_open :: "nat \<Rightarrow> bytes \<Rightarrow> ('d, unit) fs" where
  "lfs_dir_open dir path = lfs_dir_open_raw dir path"

definition lfs_dir_close :: "nat \<Rightarrow> ('d, unit) fs" where "lfs_dir_close dir = lfs_dir_close_raw dir"

definition lfs_dir_read :: "nat \<Rightarrow> ('d, lfs_info option) fs" where
  "lfs_dir_read dir = lfs_dir_read_raw dir"

definition lfs_dir_seek :: "nat \<Rightarrow> u32 \<Rightarrow> ('d, unit) fs" where
  "lfs_dir_seek dir off = lfs_dir_seek_raw dir off"

definition lfs_dir_tell :: "nat \<Rightarrow> ('d, u32) fs" where "lfs_dir_tell dir = lfs_dir_tell_raw dir"
definition lfs_dir_rewind :: "nat \<Rightarrow> ('d, unit) fs" where "lfs_dir_rewind dir = lfs_dir_rewind_raw dir"
definition lfs_fs_stat :: "('d, lfs_fsinfo) fs" where "lfs_fs_stat = lfs_fs_stat_raw"
definition lfs_fs_size :: "('d, u32) fs" where "lfs_fs_size = lfs_fs_size_raw"

definition lfs_fs_traverse :: "(u32 \<Rightarrow> 'c \<Rightarrow> ('d, 'c) fs) \<Rightarrow> 'c \<Rightarrow> ('d, 'c) fs" where
  "lfs_fs_traverse cb c = lfs_fs_traverse_raw cb c False"

definition lfs_fs_mkconsistent :: "('d, unit) fs" where "lfs_fs_mkconsistent = lfs_fs_mkconsistent_raw"
definition lfs_fs_gc :: "('d, unit) fs" where "lfs_fs_gc = lfs_fs_gc_raw"

definition lfs_fs_hasorphans :: "'d lfs \<Rightarrow> bool" where
  "lfs_fs_hasorphans lfs = lfs_gstate_hasorphans (l_gstate lfs)"

definition lfs_fs_grow :: "u32 \<Rightarrow> ('d, unit) fs" where
  "lfs_fs_grow block_count = lfs_fs_grow_raw block_count"

end
