(* ===== verification/Wrapper.thy ===== *)
theory Wrapper
  imports Api Ram
begin

text \<open>
  The safe crate \<open>littlefs-rust\<close>: \<open>config.rs\<close>, \<open>storage.rs\<close>, \<open>metadata.rs\<close>,
  \<open>filesystem.rs\<close>, \<open>file.rs\<close> and \<open>dir.rs\<close>.  A \<open>Filesystem\<close> is the record \<open>fs_inner\<close>; a
  \<open>File\<close> or \<open>ReadDir\<close> is the address of the node its box holds, allocated when it is opened
  and freed when it is dropped.  Every borrow of the \<open>RefCell\<close> ends before the next one
  begins, so a borrow never fails.  A panic does not unwind.
\<close>

subsection \<open>Configuration and storage\<close>

record config =
  c_block_size :: u32
  c_block_count :: u32
  c_read_size :: u32
  c_prog_size :: u32
  c_block_cycles :: u32
  c_cache_size :: u32
  c_lookahead_size :: u32
  c_name_max :: u32
  c_file_max :: u32
  c_attr_max :: u32

definition config_new :: "u32 \<Rightarrow> u32 \<Rightarrow> config" where
  "config_new block_size block_count =
    \<lparr>c_block_size = block_size, c_block_count = block_count, c_read_size = 16, c_prog_size = 16,
     c_block_cycles = - 1, c_cache_size = 0, c_lookahead_size = 0, c_name_max = 255,
     c_file_max = 2147483647, c_attr_max = 1022\<rparr>"

definition resolve_cache_size :: "config \<Rightarrow> u32" where
  "resolve_cache_size c = (if c_cache_size c > 0 then c_cache_size c else c_block_size c)"

definition resolve_lookahead_size :: "config \<Rightarrow> u32" where
  "resolve_lookahead_size c = (if c_lookahead_size c > 0 then c_lookahead_size c else c_block_size c)"

text \<open>An implementation of the trait \<open>Storage\<close> of this crate: its constants and its methods.
  The newtype \<open>SS\<close> passes the methods on to the trait of the core crate.\<close>

record 'd storage_impl =
  S_READ_SIZE :: nat
  S_WRITE_SIZE :: nat
  S_BLOCK_SIZE :: nat
  S_BLOCK_COUNT :: nat
  S_BLOCK_CYCLES :: int
  S_ops :: "'d storage"

definition ram_impl :: "u32 \<Rightarrow> u32 \<Rightarrow> ram_storage storage_impl" where
  "ram_impl BLOCK_SIZE BLOCK_COUNT =
    \<lparr>S_READ_SIZE = 1, S_WRITE_SIZE = 1, S_BLOCK_SIZE = unat BLOCK_SIZE, S_BLOCK_COUNT = unat BLOCK_COUNT,
     S_BLOCK_CYCLES = - 1, S_ops = ram_driver BLOCK_SIZE\<rparr>"

datatype file_type = File | Dir

record metadata =
  m_file_type :: file_type
  m_size :: u32
  m_name :: bytes

record dir_entry =
  e_name :: bytes
  e_file_type :: file_type
  e_size :: u32

datatype seek_from = Start u32 | Current u32 | End u32

subsection \<open>Building the state\<close>

record 'd fs_inner =
  in_lfs :: "'d lfs"
  in_config :: "'d lfs_config"
  in_mounted :: bool

text \<open>\<open>Lfs::default()\<close>, with the memory it will work on: the three buffers and the storage.\<close>

definition lfs_default :: "'d lfs_config \<Rightarrow> (nat \<Rightarrow> bytes) \<Rightarrow> 'd \<Rightarrow> 'd lfs" where
  "lfs_default dangling bufs storage = \<lparr>
     l_rcache = cache_default, l_pcache = cache_default,
     l_root = (0, 0), l_mlist = None, l_seed = 0,
     l_gstate = gstate_zero, l_gdisk = gstate_zero, l_gdelta = gstate_zero,
     l_lookahead = \<lparr>la_start = 0, la_size = 0, la_next = 0, la_ckpoint = 0, la_buffer = 0\<rparr>,
     l_cfg = dangling, l_block_count = 0, l_name_max = 0, l_file_max = 0,
     l_attr_max = 0, l_inline_max = 0, l_bufs = bufs, l_next_buf = 4,
     l_nodes = (\<lambda>_. None), l_next_node = 1, l_dev = storage\<rparr>"

definition inner_bufs :: "config \<Rightarrow> nat \<Rightarrow> bytes" where
  "inner_bufs c = (\<lambda>_. [])
     (1 := replicate (unat (resolve_cache_size c)) 0,
      2 := replicate (unat (resolve_cache_size c)) 0,
      3 := replicate (unat (resolve_lookahead_size c)) 0)"

text \<open>A mounted file system takes its geometry from the storage type, a formatted one from the
  configuration.  The pointers of \<open>wire_context\<close> are set from the start.\<close>

definition mount_config :: "'d storage_impl \<Rightarrow> config \<Rightarrow> 'd lfs_config" where
  "mount_config S c =
    \<lparr>cfg_context = S_ops S, cfg_read_size = word_of_nat (S_READ_SIZE S), cfg_prog_size = word_of_nat (S_WRITE_SIZE S),
     cfg_block_size = word_of_nat (S_BLOCK_SIZE S), cfg_block_count = c_block_count c,
     cfg_block_cycles = word_of_int (S_BLOCK_CYCLES S), cfg_cache_size = resolve_cache_size c,
     cfg_compact_thresh = - 1, cfg_read_buffer = 1, cfg_prog_buffer = 2, cfg_lookahead_buffer = 3,
     cfg_name_max = c_name_max c, cfg_file_max = c_file_max c, cfg_attr_max = c_attr_max c,
     cfg_metadata_max = 0, cfg_inline_max = 0\<rparr>"

definition build_inner :: "'d storage_impl \<Rightarrow> 'd \<Rightarrow> config \<Rightarrow> 'd fs_inner" where
  "build_inner S storage c =
    \<lparr>in_lfs = lfs_default (mount_config S c) (inner_bufs c) storage, in_config = mount_config S c,
     in_mounted = False\<rparr>"

definition format_config :: "'d storage_impl \<Rightarrow> config \<Rightarrow> 'd lfs_config" where
  "format_config S c =
    \<lparr>cfg_context = S_ops S, cfg_read_size = c_read_size c, cfg_prog_size = c_prog_size c,
     cfg_block_size = c_block_size c, cfg_block_count = c_block_count c,
     cfg_block_cycles = c_block_cycles c, cfg_cache_size = resolve_cache_size c,
     cfg_compact_thresh = - 1, cfg_read_buffer = 1, cfg_prog_buffer = 2, cfg_lookahead_buffer = 3,
     cfg_name_max = c_name_max c, cfg_file_max = c_file_max c, cfg_attr_max = c_attr_max c,
     cfg_metadata_max = 0, cfg_inline_max = 0\<rparr>"

definition build_inner_borrowed :: "'d storage_impl \<Rightarrow> 'd \<Rightarrow> config \<Rightarrow> 'd fs_inner" where
  "build_inner_borrowed S storage c =
    \<lparr>in_lfs = lfs_default (format_config S c) (inner_bufs c) storage, in_config = format_config S c,
     in_mounted = False\<rparr>"

subsection \<open>Formatting, mounting, unmounting\<close>

type_synonym ('d, 'a) wfs = "('d fs_inner, 'a) m"

text \<open>A core call on the borrowed state.\<close>

definition core :: "('d, 'a) fs \<Rightarrow> ('d, 'a) wfs" where
  "core c s = (case c (in_lfs s) of
      None \<Rightarrow> None
    | Some (r, t) \<Rightarrow> Some (r, s\<lparr>in_lfs := t\<rparr>))"

definition fs_format :: "'d storage_impl \<Rightarrow> config \<Rightarrow> ('d, unit) m" where
  "fs_format S c storage =
    (let inner = build_inner_borrowed S storage c in
     case core (lfs_format (in_config inner)) inner of
       None \<Rightarrow> None
     | Some (r, t) \<Rightarrow> Some (r, l_dev (in_lfs t)))"

definition fs_mount :: "'d storage_impl \<Rightarrow> 'd \<Rightarrow> config \<Rightarrow> ((error \<times> 'd) + 'd fs_inner) outcome option" where
  "fs_mount S storage c =
    (let inner = build_inner S storage c in
     case core (lfs_mount (in_config inner)) inner of
       None \<Rightarrow> None
     | Some (Val _, t) \<Rightarrow> Some (Val (Inr (t\<lparr>in_mounted := True\<rparr>)))
     | Some (Exc err, t) \<Rightarrow> Some (Val (Inl (err, l_dev (in_lfs t))))
     | Some (Panic, t) \<Rightarrow> Some Panic)"

definition unmount_inner :: "('d, unit) wfs" where
  "unmount_inner =
    bnd (gets in_mounted) (\<lambda>mounted.
    if mounted then bnd (modify (\<lambda>s. s\<lparr>in_mounted := False\<rparr>)) (\<lambda>_. core lfs_unmount)
    else ret ())"

definition fs_unmount :: "'d fs_inner \<Rightarrow> (error + 'd) outcome option" where
  "fs_unmount s = (case unmount_inner s of
      None \<Rightarrow> None
    | Some (Val _, t) \<Rightarrow> Some (Val (Inr (l_dev (in_lfs t))))
    | Some (Exc e, t) \<Rightarrow> Some (Val (Inl e))
    | Some (Panic, t) \<Rightarrow> Some Panic)"

definition fs_drop :: "('d, unit) wfs" where
  "fs_drop =
    bnd (gets in_mounted) (\<lambda>mounted.
    if mounted then bnd (attempt (core lfs_unmount)) (\<lambda>_. modify (\<lambda>s. s\<lparr>in_mounted := False\<rparr>))
    else ret ())"

definition fs_cache_size :: "('d, u32) wfs" where
  "fs_cache_size = gets (\<lambda>s. cfg_cache_size (in_config s))"

subsection \<open>Boxes\<close>

definition new_node :: "lfs_node \<Rightarrow> ('d, nat) wfs" where
  "new_node n = core
    (bnd (gets l_next_node) (\<lambda>a.
     bnd (modify (\<lambda>s. s\<lparr>l_next_node := Suc a, l_nodes := (l_nodes s)(a \<mapsto> n)\<rparr>)) (\<lambda>_.
     ret a)))"

definition free_node :: "nat \<Rightarrow> ('d, unit) wfs" where
  "free_node a = core (modify (\<lambda>s. s\<lparr>l_nodes := (l_nodes s)(a := None)\<rparr>))"

subsection \<open>Files\<close>

definition file_allocation :: "u32 \<Rightarrow> ('d, nat \<times> lfs_file_config) wfs" where
  "file_allocation cache_sz =
    bnd (core (lfs_malloc (unat cache_sz))) (\<lambda>b.
    bnd (new_node node_default) (\<lambda>a.
    ret (a, \<lparr>fc_buffer = (if cache_sz = 0 then None else Some b), fc_attrs = []\<rparr>)))"

definition file_open :: "bytes \<Rightarrow> u32 \<Rightarrow> ('d, nat) wfs" where
  "file_open path flags =
    bnd fs_cache_size (\<lambda>csz.
    bnd (file_allocation csz) (\<lambda>(f, cfg).
    bnd (attempt (core (lfs_file_opencfg f path flags cfg))) (\<lambda>r.
    case r of
      Inl e \<Rightarrow> bnd (free_node f) (\<lambda>_. throw e)
    | Inr _ \<Rightarrow> ret f)))"

definition file_read :: "nat \<Rightarrow> bytes \<Rightarrow> ('d, u32 \<times> bytes) wfs" where
  "file_read f buf = core (lfs_file_read f buf)"

definition file_write :: "nat \<Rightarrow> bytes \<Rightarrow> ('d, u32) wfs" where
  "file_write f data = core (lfs_file_write f data)"

definition file_seek :: "nat \<Rightarrow> seek_from \<Rightarrow> ('d, u32) wfs" where
  "file_seek f p =
    (let (off, whence) = (case p of Start n \<Rightarrow> (n, LFS_SEEK_SET) | Current n \<Rightarrow> (n, LFS_SEEK_CUR) | End n \<Rightarrow> (n, LFS_SEEK_END))
     in core (lfs_file_seek f off whence))"

definition file_tell :: "nat \<Rightarrow> ('d, u32) wfs" where
  "file_tell f = core (bnd (get_node f) (\<lambda>n. ret (lfs_file_tell n)))"

definition file_size :: "nat \<Rightarrow> ('d, u32) wfs" where
  "file_size f = core (bnd (get_node f) (\<lambda>n. ret (lfs_file_size n)))"

definition file_sync :: "nat \<Rightarrow> ('d, unit) wfs" where
  "file_sync f = core (lfs_file_sync f)"

definition file_truncate :: "nat \<Rightarrow> u32 \<Rightarrow> ('d, unit) wfs" where
  "file_truncate f sz = core (lfs_file_truncate f sz)"

text \<open>\<open>close\<close> reports the error, dropping the handle ignores it; both free the box.\<close>

definition file_close :: "nat \<Rightarrow> ('d, unit) wfs" where
  "file_close f =
    bnd (attempt (core (lfs_file_close f))) (\<lambda>r.
    bnd (free_node f) (\<lambda>_. lift_res r))"

definition file_drop :: "nat \<Rightarrow> ('d, unit) wfs" where
  "file_drop f =
    bnd (attempt (core (lfs_file_close f))) (\<lambda>_. free_node f)"

text \<open>The rest of a block in which a handle is a local variable.\<close>

definition with_drop :: "(nat \<Rightarrow> ('d, unit) wfs) \<Rightarrow> nat \<Rightarrow> ('d, 'a) wfs \<Rightarrow> ('d, 'a) wfs" where
  "with_drop drop_handle h c =
    bnd (attempt c) (\<lambda>r. bnd (drop_handle h) (\<lambda>_. lift_res r))"

definition read_to_vec :: "bytes \<Rightarrow> ('d, bytes) wfs" where
  "read_to_vec path =
    bnd (file_open path O_READ) (\<lambda>f.
    with_drop file_drop f
     (bnd (file_size f) (\<lambda>sz.
      let buf = replicate (unat sz) 0 in
      if sz > 0 then
        bnd (file_read f buf) (\<lambda>(n, buf). ret (take (unat n) buf))
      else ret buf)))"

definition write_all :: "nat \<Rightarrow> bytes \<Rightarrow> nat \<Rightarrow> ('d, unit) wfs" where
  "write_all f data = mloop (\<lambda>offset.
    if offset < length data then
      bnd (file_write f (drop offset data)) (\<lambda>n. ret (Inl (offset + unat n)))
    else ret (Inr ()))"

definition write_file :: "bytes \<Rightarrow> bytes \<Rightarrow> ('d, unit) wfs" where
  "write_file path data =
    bnd (file_open path (O_WRITE OR O_CREATE OR O_TRUNC)) (\<lambda>f.
    with_drop file_drop f (write_all f data 0))"

subsection \<open>Directories and names\<close>

text \<open>\<open>core::str::from_utf8\<close>: the well-formed byte sequences of the Unicode standard.\<close>

definition utf8_cont :: "u8 \<Rightarrow> bool" where
  "utf8_cont b \<longleftrightarrow> 0x80 \<le> b \<and> b \<le> 0xbf"

fun utf8_valid :: "bytes \<Rightarrow> bool" where
  "utf8_valid [] = True"
| "utf8_valid (a # bs) =
    (if a < 0x80 then utf8_valid bs
     else if 0xc2 \<le> a \<and> a \<le> 0xdf then
       (case bs of b # bs' \<Rightarrow> utf8_cont b \<and> utf8_valid bs' | _ \<Rightarrow> False)
     else if 0xe0 \<le> a \<and> a \<le> 0xef then
       (case bs of b # c # bs' \<Rightarrow> utf8_cont b \<and> utf8_cont c \<and> (a = 0xe0 \<longrightarrow> 0xa0 \<le> b)
          \<and> (a = 0xed \<longrightarrow> b \<le> 0x9f) \<and> utf8_valid bs' | _ \<Rightarrow> False)
     else if 0xf0 \<le> a \<and> a \<le> 0xf4 then
       (case bs of b # c # d # bs' \<Rightarrow> utf8_cont b \<and> utf8_cont c \<and> utf8_cont d \<and> (a = 0xf0 \<longrightarrow> 0x90 \<le> b)
          \<and> (a = 0xf4 \<longrightarrow> b \<le> 0x8f) \<and> utf8_valid bs' | _ \<Rightarrow> False)
     else False)"

definition dir_entry_from_info :: "lfs_info \<Rightarrow> dir_entry" where
  "dir_entry_from_info info =
    (let name = takeWhile (\<lambda>b. b \<noteq> 0) (info_name info)
     in \<lparr>e_name = (if utf8_valid name then name else []),
         e_file_type = (if info_type info = TYPE_DIR then Dir else File), e_size = info_size info\<rparr>)"

definition read_dir :: "bytes \<Rightarrow> ('d, nat) wfs" where
  "read_dir path =
    bnd (new_node node_default) (\<lambda>d.
    bnd (attempt (core (lfs_dir_open d path))) (\<lambda>r.
    case r of
      Inl e \<Rightarrow> bnd (free_node d) (\<lambda>_. throw e)
    | Inr _ \<Rightarrow> ret d))"

definition dir_close :: "nat \<Rightarrow> ('d, unit) wfs" where
  "dir_close d =
    bnd (attempt (core (lfs_dir_close d))) (\<lambda>r. bnd (free_node d) (\<lambda>_. lift_res r))"

definition dir_drop :: "nat \<Rightarrow> ('d, unit) wfs" where
  "dir_drop d = bnd (attempt (core (lfs_dir_close d))) (\<lambda>_. free_node d)"

definition DOT :: u8 where "DOT = 46"

definition dir_next :: "nat \<Rightarrow> ('d, (error + dir_entry) option) wfs" where
  "dir_next d = mloop (\<lambda>_.
    bnd (attempt (core (lfs_dir_read d))) (\<lambda>rc.
    case rc of
      Inr None \<Rightarrow> ret (Inr None)
    | Inl e \<Rightarrow> ret (Inr (Some (Inl e)))
    | Inr (Some info) \<Rightarrow>
        let entry = dir_entry_from_info info in
        if e_name entry = [DOT] \<or> e_name entry = [DOT, DOT] then ret (Inl ())
        else ret (Inr (Some (Inr entry))))) ()"

text \<open>\<open>collect\<close> into a \<open>Result\<close> stops at the first error.\<close>

definition list_dir :: "bytes \<Rightarrow> ('d, dir_entry list) wfs" where
  "list_dir path =
    bnd (read_dir path) (\<lambda>d.
    with_drop dir_drop d
     (mloop (\<lambda>es.
        bnd (dir_next d) (\<lambda>r. case r of
          None \<Rightarrow> ret (Inr es)
        | Some (Inl e) \<Rightarrow> throw e
        | Some (Inr entry) \<Rightarrow> ret (Inl (es @ [entry])))) []))"

definition fs_mkdir :: "bytes \<Rightarrow> ('d, unit) wfs" where "fs_mkdir path = core (lfs_mkdir path)"
definition fs_remove :: "bytes \<Rightarrow> ('d, unit) wfs" where "fs_remove path = core (lfs_remove path)"
definition fs_rename :: "bytes \<Rightarrow> bytes \<Rightarrow> ('d, unit) wfs" where "fs_rename a b = core (lfs_rename a b)"

definition fs_stat :: "bytes \<Rightarrow> ('d, metadata) wfs" where
  "fs_stat path =
    bnd (core (lfs_stat path lfs_info_default)) (\<lambda>info.
    let entry = dir_entry_from_info info in
    ret \<lparr>m_file_type = e_file_type entry, m_size = e_size entry, m_name = e_name entry\<rparr>)"

definition exists :: "bytes \<Rightarrow> ('d, bool) wfs" where
  "exists path = bnd (attempt (fs_stat path)) (\<lambda>r. ret (case r of Inl _ \<Rightarrow> False | Inr _ \<Rightarrow> True))"

definition fs_size :: "('d, u32) wfs" where "fs_size = core lfs_fs_size"
definition gc :: "('d, unit) wfs" where "gc = core lfs_fs_gc"

end
