(* ===== verification/Shared.thy ===== *)
theory Shared
  imports Wrapper
begin

text \<open>
  \<open>littlefs-rust-compat/src/storage.rs\<close>: the memory that the comparison tests share between two
  implementations, as a storage driver, the environment built around it and the generator of
  test data.  It is the second provider of \<open>block_device\<close>: it answers every run of calls like the
  RAM driver, from which its laws follow.
\<close>

subsection \<open>The memory and its driver\<close>

record test_geometry =
  g_block_size :: u32
  g_block_count :: u32
  g_read_size :: u32
  g_prog_size :: u32
  g_cache_size :: u32
  g_lookahead_size :: u32

definition test_geometry_default :: test_geometry where
  "test_geometry_default = \<lparr>g_block_size = 512, g_block_count = 128, g_read_size = 16, g_prog_size = 16,
     g_cache_size = 512, g_lookahead_size = 512\<rparr>"

record shared_storage =
  sh_data :: bytes
  sh_geo :: test_geometry

definition shared_new :: "test_geometry \<Rightarrow> shared_storage" where
  "shared_new geo = \<lparr>sh_data = replicate (unat (g_block_size geo) * unat (g_block_count geo)) 0, sh_geo = geo\<rparr>"

definition shared_with_defaults :: shared_storage where
  "shared_with_defaults = shared_new test_geometry_default"

definition shared_read :: "u32 \<Rightarrow> u32 \<Rightarrow> bytes \<Rightarrow> shared_storage \<Rightarrow> (error + unit) \<times> bytes \<times> shared_storage" where
  "shared_read block off buffer d =
    (let start = unat block * unat (g_block_size (sh_geo d)) + unat off; fin = start + length buffer
     in if fin > length (sh_data d) then (Inl Invalid, buffer, d)
        else (Inr (), take (length buffer) (drop start (sh_data d)), d))"

definition shared_write :: "u32 \<Rightarrow> u32 \<Rightarrow> bytes \<Rightarrow> shared_storage \<Rightarrow> (error + unit) \<times> shared_storage" where
  "shared_write block off data d =
    (let start = unat block * unat (g_block_size (sh_geo d)) + unat off; fin = start + length data
     in if fin > length (sh_data d) then (Inl Invalid, d)
        else (Inr (), d\<lparr>sh_data := splice (sh_data d) start data\<rparr>))"

definition shared_erase :: "u32 \<Rightarrow> shared_storage \<Rightarrow> (error + unit) \<times> shared_storage" where
  "shared_erase block d =
    (let start = unat block * unat (g_block_size (sh_geo d)); fin = start + unat (g_block_size (sh_geo d))
     in if fin > length (sh_data d) then (Inl Invalid, d)
        else (Inr (), d\<lparr>sh_data := splice (sh_data d) start (replicate (unat (g_block_size (sh_geo d))) 0xff)\<rparr>))"

definition shared_driver :: "shared_storage storage" where
  "shared_driver = \<lparr>st_read = shared_read, st_write = shared_write, st_erase = shared_erase,
     st_sync = (\<lambda>d. (Inr (), d))\<rparr>"

subsection \<open>Runs of calls\<close>

datatype driver_call = Read u32 u32 bytes | Write u32 u32 bytes | Erase u32 | Sync

text \<open>The result of a call, with the buffer of a read as it is afterwards.\<close>

fun driver_step :: "'d storage \<Rightarrow> driver_call \<Rightarrow> 'd \<Rightarrow> ((error + unit) \<times> bytes) \<times> 'd" where
  "driver_step st (Read block off buf) d = (case st_read st block off buf d of (r, buf, d) \<Rightarrow> ((r, buf), d))"
| "driver_step st (Write block off bs) d = (case st_write st block off bs d of (r, d) \<Rightarrow> ((r, []), d))"
| "driver_step st (Erase block) d = (case st_erase st block d of (r, d) \<Rightarrow> ((r, []), d))"
| "driver_step st Sync d = (case st_sync st d of (r, d) \<Rightarrow> ((r, []), d))"

fun driver_run :: "'d storage \<Rightarrow> driver_call list \<Rightarrow> 'd \<Rightarrow> ((error + unit) \<times> bytes) list \<times> 'd" where
  "driver_run st [] d = ([], d)"
| "driver_run st (c # cs) d = (case driver_step st c d of (r, d) \<Rightarrow> (case driver_run st cs d of (rs, d) \<Rightarrow> (r # rs, d)))"

text \<open>The shared memory seen as the RAM driver's; the two name their one error differently.\<close>

definition ram_of :: "shared_storage \<Rightarrow> ram_storage" where
  "ram_of d = \<lparr>ram_data = sh_data d\<rparr>"

definition io_as_invalid :: "error + unit \<Rightarrow> error + unit" where
  "io_as_invalid r = (case r of Inl e \<Rightarrow> Inl (if e = Io then Invalid else e) | Inr u \<Rightarrow> Inr u)"

named_theorems driver_simps \<open>the operations of both drivers\<close>
lemmas [driver_simps] = shared_driver_def shared_read_def shared_write_def shared_erase_def ram_driver_def
  ram_read_def ram_write_def ram_erase_def ram_sync_def ram_offset_def ram_of_def io_as_invalid_def Let_def

lemma driver_step_ram:
  assumes "driver_step shared_driver c d = ((r, buf), d')"
    and "driver_step (ram_driver (g_block_size (sh_geo d))) c (ram_of d) = ((r', buf'), e')"
  shows "r = io_as_invalid r' \<and> buf = buf' \<and> ram_of d' = e' \<and> sh_geo d' = sh_geo d"
  using assms by (cases c) (auto simp: driver_simps split: if_splits)

lemma driver_run_ram:
  "driver_run shared_driver cs d = (rs, d') \<Longrightarrow>
   driver_run (ram_driver (g_block_size (sh_geo d))) cs (ram_of d) = (rs', e') \<Longrightarrow>
   rs = map (apfst io_as_invalid) rs' \<and> ram_of d' = e' \<and> sh_geo d' = sh_geo d"
proof (induction cs arbitrary: d rs rs')
  case (Cons c cs)
  obtain r buf d1 where a: "driver_step shared_driver c d = ((r, buf), d1)" by (metis prod.exhaust)
  obtain r' buf' e1 where b: "driver_step (ram_driver (g_block_size (sh_geo d))) c (ram_of d) = ((r', buf'), e1)"
    by (metis prod.exhaust)
  note step = driver_step_ram [OF a b]
  from Cons.prems a b step show ?case by (auto split: prod.splits dest!: Cons.IH)
qed auto

text \<open>C30 (equivalence). The driver of the comparison tests and the RAM driver are the same driver:
  whatever run of reads, writes, erases and syncs is put to both on the same memory, with arguments
  in range or not, they give the same answers, read the same bytes and leave the same memory, and
  differ only in the name of the error for a range outside the memory.\<close>

theorem shared_driver_is_ram_driver:
  "case driver_run (ram_driver (g_block_size (sh_geo d))) cs (ram_of d) of (rs', e) \<Rightarrow>
     \<exists>d'. driver_run shared_driver cs d = (map (apfst io_as_invalid) rs', d') \<and> ram_of d' = e"
proof (cases "driver_run (ram_driver (g_block_size (sh_geo d))) cs (ram_of d)")
  case (Pair rs' e)
  obtain rs d' where "driver_run shared_driver cs d = (rs, d')" by (metis prod.exhaust)
  with driver_run_ram [OF this Pair] Pair show ?thesis by auto
qed

subsection \<open>The laws of a block device\<close>

definition shared_wf :: "test_geometry \<Rightarrow> shared_storage \<Rightarrow> bool" where
  "shared_wf geo d \<longleftrightarrow> sh_geo d = geo \<and> ram_wf (g_block_size geo) (g_block_count geo) (ram_of d)"

definition shared_blk :: "test_geometry \<Rightarrow> shared_storage \<Rightarrow> u32 \<Rightarrow> bytes" where
  "shared_blk geo d b = ram_blk (g_block_size geo) (ram_of d) b"

lemma shared_new_wf: "shared_wf geo (shared_new geo)"
  by (simp add: shared_wf_def shared_new_def ram_wf_def ram_of_def)

text \<open>One call in range, through the equivalence with the RAM driver.\<close>

lemma shared_read_ram:
  "st_read shared_driver b off buf d =
    (case st_read (ram_driver (g_block_size (sh_geo d))) b off buf (ram_of d) of (r, buf, _) \<Rightarrow> (io_as_invalid r, buf, d))"
  by (simp add: driver_simps)

lemma shared_write_ram:
  "st_write shared_driver b off bs d =
    (case st_write (ram_driver (g_block_size (sh_geo d))) b off bs (ram_of d) of (r, e) \<Rightarrow> (io_as_invalid r, d\<lparr>sh_data := ram_data e\<rparr>))"
  by (simp add: driver_simps)

lemma shared_erase_ram:
  "st_erase shared_driver b d =
    (case st_erase (ram_driver (g_block_size (sh_geo d))) b (ram_of d) of (r, e) \<Rightarrow> (io_as_invalid r, d\<lparr>sh_data := ram_data e\<rparr>))"
  by (simp add: driver_simps)

lemma ram_of_back: "ram_of (d\<lparr>sh_data := ram_data e\<rparr>) = e"
  by (simp add: ram_of_def)

lemma shared_blk_back: "shared_blk geo (d\<lparr>sh_data := ram_data e\<rparr>) = ram_blk (g_block_size geo) e"
  by (simp add: shared_blk_def ram_of_back fun_eq_iff)

lemma shared_wf_back:
  "shared_wf geo d \<Longrightarrow> ram_wf (g_block_size geo) (g_block_count geo) e \<Longrightarrow> shared_wf geo (d\<lparr>sh_data := ram_data e\<rparr>)"
  by (simp add: shared_wf_def ram_of_back)

interpretation shared: block_device shared_driver "shared_wf geo" "shared_blk geo" "unat (g_block_size geo)" "unat (g_block_count geo)"
  for geo :: test_geometry
proof
  fix d :: shared_storage and b :: u32
  assume w: "shared_wf geo d" and b: "unat b < unat (g_block_count geo)"
  then have g: "sh_geo d = geo" and rw: "ram_wf (g_block_size geo) (g_block_count geo) (ram_of d)"
    by (simp_all add: shared_wf_def)
  show "length (shared_blk geo d b) = unat (g_block_size geo)"
    unfolding shared_blk_def by (rule ram.blk_length [OF rw b])
  show "st_read shared_driver b off buf d = (Inr (), take (length buf) (drop (unat off) (shared_blk geo d b)), d)"
    if "unat off + length buf \<le> unat (g_block_size geo)" for off buf
    unfolding shared_read_ram g ram.read_law [OF rw b that] by (simp add: io_as_invalid_def shared_blk_def)
  show "\<exists>d'. st_write shared_driver b off xs d = (Inr (), d') \<and> shared_wf geo d' \<and>
      (\<forall>c. unat c < unat (g_block_count geo) \<longrightarrow>
        shared_blk geo d' c = (if c = b then splice (shared_blk geo d b) (unat off) xs else shared_blk geo d c))"
    if "unat off + length xs \<le> unat (g_block_size geo)" "\<forall>i < length xs. shared_blk geo d b ! (unat off + i) = 0xff" for off xs
    using ram.write_law [OF rw b that(1)] that(2) shared_wf_back [OF w]
    unfolding shared_write_ram g by (fastforce simp: io_as_invalid_def shared_blk_back shared_blk_def [of geo d])
  show "\<exists>d'. st_erase shared_driver b d = (Inr (), d') \<and> shared_wf geo d' \<and>
      (\<forall>c. unat c < unat (g_block_count geo) \<longrightarrow>
        shared_blk geo d' c = (if c = b then replicate (unat (g_block_size geo)) 0xff else shared_blk geo d c))"
    using ram.erase_law [OF rw b] shared_wf_back [OF w]
    unfolding shared_erase_ram g by (fastforce simp: io_as_invalid_def shared_blk_back shared_blk_def [of geo d])
qed (auto simp: shared_driver_def)

subsection \<open>The environment\<close>

text \<open>\<open>RustEnv\<close>: the configuration, and the three buffers at the addresses it points to.\<close>

definition rust_config :: "shared_storage \<Rightarrow> shared_storage lfs_config" where
  "rust_config d =
    (let geo = sh_geo d in
     \<lparr>cfg_context = shared_driver, cfg_read_size = g_read_size geo, cfg_prog_size = g_prog_size geo,
      cfg_block_size = g_block_size geo, cfg_block_count = g_block_count geo, cfg_block_cycles = - 1,
      cfg_cache_size = g_cache_size geo, cfg_compact_thresh = - 1, cfg_read_buffer = 1, cfg_prog_buffer = 2,
      cfg_lookahead_buffer = 3, cfg_name_max = 255, cfg_file_max = 2147483647, cfg_attr_max = 1022,
      cfg_metadata_max = 0, cfg_inline_max = 0\<rparr>)"

definition rust_bufs :: "shared_storage \<Rightarrow> nat \<Rightarrow> bytes" where
  "rust_bufs d = (\<lambda>_. [])
     (1 := replicate (unat (g_cache_size (sh_geo d))) 0,
      2 := replicate (unat (g_cache_size (sh_geo d))) 0,
      3 := replicate (unat (g_lookahead_size (sh_geo d))) 0)"

subsection \<open>Test data\<close>

text \<open>One step of the generator: the number returned is also the new state.\<close>

definition test_prng :: "u32 \<Rightarrow> u32" where
  "test_prng s =
    (let x = s;
         x = x XOR push_bit 13 x;
         x = x XOR drop_bit 17 x;
         x = x XOR push_bit 5 x
     in x)"

fun prng_verify :: "bytes \<Rightarrow> u32 \<Rightarrow> ('s, unit) m" where
  "prng_verify [] prng = ret ()"
| "prng_verify (actual # buf) prng =
    (let prng = test_prng prng; expected = ucast (prng AND 0xff)
     in bnd (check (actual = expected)) (\<lambda>_. prng_verify buf prng))"

definition check_err :: "int \<Rightarrow> int + unit" where
  "check_err err = (if err \<noteq> 0 then Inl err else Inr ())"

text \<open>The generator is linear and loses nothing: distinct states stay distinct, and a run that
  starts with a seed other than zero never comes to zero, where it would stay.\<close>

lemma test_prng_xor: "test_prng (a XOR b) = test_prng a XOR test_prng b"
  by (simp add: test_prng_def Let_def push_bit_xor drop_bit_xor ac_simps xor.assoc)

lemma shift_fix:
  fixes x :: u32
  shows "push_bit 13 x = x \<Longrightarrow> x = 0" "drop_bit 17 x = x \<Longrightarrow> x = 0" "push_bit 5 x = x \<Longrightarrow> x = 0"
proof -
  assume a: "push_bit 13 x = x"
  have "x = push_bit 13 (push_bit 13 (push_bit 13 x))" by (simp only: a)
  then have "x = push_bit 39 x" by (simp add: push_bit_push_bit del: push_bit_numeral_minus_1)
  also have "\<dots> = 0" by (rule bit_word_eqI) (simp add: bit_push_bit_iff)
  finally show "x = 0" .
next
  assume a: "drop_bit 17 x = x"
  have "x = drop_bit 17 (drop_bit 17 x)" by (simp only: a)
  then have "x = drop_bit 34 x" by simp
  also have "\<dots> = 0" by (rule bit_word_eqI) (simp add: bit_drop_bit_eq not_less)
  finally show "x = 0" .
next
  assume a: "push_bit 5 x = x"
  have "x = push_bit 5 (push_bit 5 (push_bit 5 (push_bit 5 (push_bit 5 (push_bit 5 (push_bit 5 x))))))" by (simp only: a)
  then have "x = push_bit 35 x" by simp
  also have "\<dots> = 0" by (rule bit_word_eqI) (simp add: bit_push_bit_iff)
  finally show "x = 0" .
qed

lemma xor_zero: "a XOR b = 0 \<longleftrightarrow> a = b" for a b :: u32
  by (metis xor.assoc xor.left_neutral xor_self_eq xor.right_neutral)

lemma test_prng_0: "test_prng x = 0 \<longleftrightarrow> x = 0"
proof
  assume "test_prng x = 0"
  then show "x = 0"
    using shift_fix by (metis (no_types, lifting) test_prng_def xor_zero)
qed (simp add: test_prng_def)

lemma test_prng_inject: "test_prng a = test_prng b \<longleftrightarrow> a = b"
  using test_prng_xor [of a b] test_prng_0 [of "a XOR b"] by (simp add: xor_zero)

end
