(* ===== verification/Compat.thy ===== *)
theory Compat
  imports Shared
begin

text \<open>
  \<open>littlefs-rust-compat/src/rust_impl.rs\<close>: the scenarios of the comparison tests on the side of this
  implementation, each a run of the public interface on the shared memory from a fresh state.  The
  errors of the calls are passed on, the assertions of the source are panics.
\<close>

subsection \<open>Names and data\<close>

text \<open>\<open>{i}\<close> in a format string, and the string literals.\<close>

fun decimal :: "nat \<Rightarrow> bytes" where
  "decimal n = (if n < 10 then [word_of_nat (48 + n)] else decimal (n div 10) @ [word_of_nat (48 + n mod 10)])"

declare decimal.simps [simp del]

definition str_dir :: bytes where "str_dir = [0x64, 0x69, 0x72]"
definition str_file :: bytes where "str_file = [0x66, 0x69, 0x6c, 0x65]"

definition dir_name :: "nat \<Rightarrow> bytes" where "dir_name i = str_dir @ decimal i"
definition file_name :: "nat \<Rightarrow> bytes" where "file_name i = str_file @ decimal i"

definition path_join :: "bytes \<Rightarrow> bytes \<Rightarrow> bytes" where
  "path_join dir name = dir @ [SLASH] @ name"

text \<open>Filling the first bytes of a buffer from the generator.\<close>

fun prng_fill :: "nat \<Rightarrow> u32 \<Rightarrow> bytes \<times> u32" where
  "prng_fill 0 prng = ([], prng)"
| "prng_fill (Suc n) prng =
    (let prng = test_prng prng; (bs, after) = prng_fill n prng in (ucast (prng AND 0xff) # bs, after))"

text \<open>The directories and files a scenario makes have different names.\<close>

lemma digit_inject: "m < 10 \<Longrightarrow> n < 10 \<Longrightarrow> (word_of_nat (48 + m) :: u8) = word_of_nat (48 + n) \<Longrightarrow> m = n"
  by (drule arg_cong [where f = unat]) (simp add: unat_of_nat del: of_nat_add)

lemma decimal_not_Nil: "decimal n \<noteq> []"
  by (subst decimal.simps) simp

lemma decimal_inject: "decimal m = decimal n \<Longrightarrow> m = n"
proof (induction m arbitrary: n rule: less_induct)
  case (less m)
  show ?case
  proof (cases "m < 10 \<or> n < 10")
    case True
    then show ?thesis using less.prems decimal_not_Nil decimal_not_Nil [symmetric]
      by (subst (asm) decimal.simps, subst (asm) (2) decimal.simps) (auto split: if_splits intro: digit_inject)
  next
    case False
    then have "decimal (m div 10) = decimal (n div 10)" "m mod 10 = n mod 10"
      using less.prems by (subst (asm) decimal.simps, subst (asm) (2) decimal.simps, simp add: digit_inject)+
    then have "m div 10 = n div 10" "m mod 10 = n mod 10" using less.IH [of "m div 10"] False by auto
    then show ?thesis by (metis div_mult_mod_eq)
  qed
qed

lemma names_distinct: "dir_name i = dir_name j \<longleftrightarrow> i = j" "file_name i = file_name j \<longleftrightarrow> i = j"
  by (auto simp: dir_name_def file_name_def dest: decimal_inject)

text \<open>Data written in chunks is one stream, whatever the sizes, and it is what the check accepts.\<close>

lemma prng_fill_add:
  "prng_fill (m + n) s = (fst (prng_fill m s) @ fst (prng_fill n (snd (prng_fill m s))), snd (prng_fill n (snd (prng_fill m s))))"
  by (induction m arbitrary: s) (simp_all add: Let_def split_beta)

lemma prng_fill_length [simp]: "length (fst (prng_fill n s)) = n"
  by (induction n arbitrary: s) (simp_all add: Let_def split_beta)

lemma prng_verify_exact: "prng_verify buf s = check (buf = fst (prng_fill (length buf) s))"
proof (induction buf arbitrary: s)
  case (Cons a buf)
  have "bnd (check P) (\<lambda>_. check Q) = check (P \<and> Q)" for P Q by (simp add: check_def)
  then show ?case by (simp add: Let_def split_beta Cons)
qed simp

subsection \<open>Steps on a mounted file system\<close>

definition mkdir_mounted :: "bytes \<Rightarrow> ('d, unit) fs" where
  "mkdir_mounted path = lfs_mkdir path"

definition new_file_flags :: u32 where
  "new_file_flags = 2 OR 0x100 OR 0x200"

definition create_empty_file_mounted :: "bytes \<Rightarrow> ('d, unit) fs" where
  "create_empty_file_mounted path = with_node node_default (\<lambda>f.
    bnd (lfs_file_open f path new_file_flags) (\<lambda>_. lfs_file_close f))"

definition write_file_mounted :: "bytes \<Rightarrow> bytes \<Rightarrow> ('d, unit) fs" where
  "write_file_mounted path content = with_node node_default (\<lambda>f.
    bnd (lfs_file_open f path new_file_flags) (\<lambda>_.
    bnd (attempt (lfs_file_write f content)) (\<lambda>r.
    bnd (lfs_file_close f) (\<lambda>_.
    bnd (lift_res r) (\<lambda>n. check (unat n = length content))))))"

text \<open>A failed write is unwrapped, so it is a panic; with \<open>chunk = 0\<close> the loop makes no progress.\<close>

definition write_prng_body :: "nat \<Rightarrow> u32 \<Rightarrow> u32 \<Rightarrow> u32 \<times> u32 \<Rightarrow> ('d, (u32 \<times> u32) + unit) fs" where
  "write_prng_body f sz chunk = (\<lambda>(i, prng).
    if i < sz then
      let c = min chunk (sz - i);
          (buf, prng) = prng_fill (unat c) prng in
      bnd (attempt (lfs_file_write f buf)) (\<lambda>r. case r of
        Inl _ \<Rightarrow> panic
      | Inr n \<Rightarrow> bnd (check (n = c)) (\<lambda>_. ret (Inl (i + c, prng))))
    else ret (Inr ()))"

definition write_prng_file_mounted :: "bytes \<Rightarrow> u32 \<Rightarrow> u32 \<Rightarrow> u32 \<Rightarrow> ('d, unit) fs" where
  "write_prng_file_mounted path sz chunk seed = with_node node_default (\<lambda>f.
    bnd (lfs_file_open f path new_file_flags) (\<lambda>_.
    bnd (mloop (write_prng_body f sz chunk) (0, seed)) (\<lambda>_.
    lfs_file_close f)))"

text \<open>The chunk is reused: what a short read leaves in it stays for the next.\<close>

definition read_file_body :: "nat \<Rightarrow> bytes \<times> bytes \<Rightarrow> ('d, (bytes \<times> bytes) + bytes) fs" where
  "read_file_body f = (\<lambda>(buf, chunk).
    bnd (attempt (lfs_file_read f chunk)) (\<lambda>r. case r of
      Inl e \<Rightarrow> bnd (attempt (lfs_file_close f)) (\<lambda>_. throw e)
    | Inr (n, chunk) \<Rightarrow>
        if n = 0 then ret (Inr buf)
        else bnd (check (unat n \<le> length chunk)) (\<lambda>_. ret (Inl (buf @ take (unat n) chunk, chunk)))))"

definition read_file_mounted :: "bytes \<Rightarrow> ('d, bytes) fs" where
  "read_file_mounted path = with_node node_default (\<lambda>f.
    bnd (lfs_file_open f path O_READ) (\<lambda>_.
    bnd (mloop (read_file_body f) ([], replicate 256 0)) (\<lambda>buf.
    bnd (lfs_file_close f) (\<lambda>_.
    ret buf))))"

definition entry_name :: "lfs_info \<Rightarrow> bytes" where
  "entry_name info =
    (let name = takeWhile (\<lambda>b. b \<noteq> 0) (info_name info) in if utf8_valid name then name else [])"

definition dir_names_body :: "nat \<Rightarrow> bytes list \<Rightarrow> ('d, bytes list + bytes list) fs" where
  "dir_names_body dir names =
    bnd (attempt (lfs_dir_read dir)) (\<lambda>res. case res of
      Inr None \<Rightarrow> ret (Inr names)
    | Inl e \<Rightarrow> bnd (attempt (lfs_dir_close dir)) (\<lambda>_. throw e)
    | Inr (Some info) \<Rightarrow>
        let name = entry_name info in
        ret (Inl (if name \<noteq> [DOT] \<and> name \<noteq> [DOT, DOT] then names @ [name] else names)))"

definition dir_names_mounted :: "bytes \<Rightarrow> ('d, bytes list) fs" where
  "dir_names_mounted path = with_node node_default (\<lambda>dir.
    bnd (lfs_dir_open dir path) (\<lambda>_.
    bnd (mloop (dir_names_body dir) []) (\<lambda>names.
    bnd (attempt (lfs_dir_close dir)) (\<lambda>_.
    ret names))))"

subsection \<open>Scenarios\<close>

text \<open>Each scenario builds its environment and a default state over the shared memory.\<close>

type_synonym 'a scenario = "(shared_storage, 'a) m"

definition with_env :: "(shared_storage lfs_config \<Rightarrow> (shared_storage, 'a) fs) \<Rightarrow> 'a scenario" where
  "with_env c d =
    (case c (rust_config d) (lfs_default (rust_config d) (rust_bufs d) d) of
       None \<Rightarrow> None
     | Some (r, t) \<Rightarrow> Some (r, l_dev t))"

definition formatted :: "(shared_storage, 'a) fs \<Rightarrow> 'a scenario" where
  "formatted c = with_env (\<lambda>cfg.
    bnd (lfs_format cfg) (\<lambda>_. bnd (lfs_mount cfg) (\<lambda>_. bnd c (\<lambda>x. bnd lfs_unmount (\<lambda>_. ret x)))))"

definition mounted :: "(shared_storage, 'a) fs \<Rightarrow> 'a scenario" where
  "mounted c = with_env (\<lambda>cfg.
    bnd (lfs_mount cfg) (\<lambda>_. bnd c (\<lambda>x. bnd lfs_unmount (\<lambda>_. ret x))))"

definition format :: "unit scenario" where
  "format = formatted (ret ())"

definition mount_dir_names :: "bytes \<Rightarrow> bytes list scenario" where
  "mount_dir_names path = mounted (dir_names_mounted path)"

definition mount_read_file :: "bytes \<Rightarrow> bytes scenario" where
  "mount_read_file path = mounted (read_file_mounted path)"

definition format_mkdir_unmount :: "bytes \<Rightarrow> unit scenario" where
  "format_mkdir_unmount dir = formatted (mkdir_mounted dir)"

definition format_mkdir_file_unmount :: "bytes \<Rightarrow> bytes \<Rightarrow> unit scenario" where
  "format_mkdir_file_unmount dir name =
    formatted (bnd (mkdir_mounted dir) (\<lambda>_. create_empty_file_mounted name))"

definition format_file_mkdir_unmount :: "bytes \<Rightarrow> bytes \<Rightarrow> unit scenario" where
  "format_file_mkdir_unmount name dir =
    formatted (bnd (create_empty_file_mounted name) (\<lambda>_. mkdir_mounted dir))"

definition format_create_three_unmount :: "unit scenario" where
  "format_create_three_unmount = formatted
    (mfold (\<lambda>name _. create_empty_file_mounted name)
      [[0x61, 0x61, 0x61], [0x7a, 0x7a, 0x7a], [0x6d, 0x6d, 0x6d]] ())"

definition format_create_rename_unmount :: "bytes \<Rightarrow> bytes \<Rightarrow> unit scenario" where
  "format_create_rename_unmount old_name new_name =
    formatted (bnd (create_empty_file_mounted old_name) (\<lambda>_. lfs_rename old_name new_name))"

definition format_create_remove_unmount :: "bytes \<Rightarrow> unit scenario" where
  "format_create_remove_unmount path =
    formatted (bnd (create_empty_file_mounted path) (\<lambda>_. lfs_remove path))"

definition format_create_write_unmount :: "bytes \<Rightarrow> bytes \<Rightarrow> unit scenario" where
  "format_create_write_unmount path content = formatted (write_file_mounted path content)"

definition format_nested_dir_file_unmount :: "bytes \<Rightarrow> bytes \<Rightarrow> bytes \<Rightarrow> unit scenario" where
  "format_nested_dir_file_unmount parent child name = formatted
    (bnd (mkdir_mounted parent) (\<lambda>_.
     let child_path = path_join parent child in
     bnd (mkdir_mounted child_path) (\<lambda>_.
     create_empty_file_mounted (path_join child_path name))))"

definition format_mkdir_file_rmdir_unmount :: "bytes \<Rightarrow> bytes \<Rightarrow> unit scenario" where
  "format_mkdir_file_rmdir_unmount dir name = formatted
    (bnd (mkdir_mounted dir) (\<lambda>_.
     let file_path = path_join dir name in
     bnd (create_empty_file_mounted file_path) (\<lambda>_.
     bnd (lfs_remove file_path) (\<lambda>_.
     lfs_remove dir))))"

text \<open>The result of \<open>mkdir\<close> is only looked at after the file system is unmounted.\<close>

definition mount_mkdir_expect_exist :: "bytes \<Rightarrow> unit scenario" where
  "mount_mkdir_expect_exist path = bnd (mounted (attempt (lfs_mkdir path))) (\<lambda>res. case res of
      Inl e \<Rightarrow> if e = Exists then ret () else throw e
    | Inr _ \<Rightarrow> throw Invalid)"

definition format_only :: "unit scenario" where
  "format_only = with_env lfs_format"

definition format_create_n_dirs :: "nat \<Rightarrow> unit scenario" where
  "format_create_n_dirs count = formatted (mfold (\<lambda>i _. mkdir_mounted (dir_name i)) [0..<count] ())"

definition seed_of :: "nat \<Rightarrow> u32" where
  "seed_of i = word_of_nat (i + 1)"

definition create_file_prng :: "u32 \<Rightarrow> u32 \<Rightarrow> nat \<Rightarrow> ('d, unit) fs" where
  "create_file_prng sz chunk i = write_prng_file_mounted (file_name i) sz chunk (seed_of i)"

definition format_create_n_files_prng :: "nat \<Rightarrow> u32 \<Rightarrow> u32 \<Rightarrow> unit scenario" where
  "format_create_n_files_prng count sz chunk =
    formatted (mfold (\<lambda>i _. create_file_prng sz chunk i) [0..<count] ())"

definition create_dir_file_prng :: "u32 \<Rightarrow> u32 \<Rightarrow> nat \<Rightarrow> ('d, unit) fs" where
  "create_dir_file_prng sz chunk i =
    (let dir = dir_name i in
     bnd (mkdir_mounted dir) (\<lambda>_.
     write_prng_file_mounted (path_join dir str_file) sz chunk (seed_of i)))"

definition format_create_n_dirs_with_files_prng :: "nat \<Rightarrow> u32 \<Rightarrow> u32 \<Rightarrow> unit scenario" where
  "format_create_n_dirs_with_files_prng count sz chunk =
    formatted (mfold (\<lambda>i _. create_dir_file_prng sz chunk i) [0..<count] ())"

text \<open>\<open>dir_names_mounted(lfs, "/")\<close> with the assertion on the number of names.\<close>

definition root_names :: "nat \<Rightarrow> ('d, bytes list) fs" where
  "root_names count =
    bnd (dir_names_mounted [SLASH]) (\<lambda>root. bnd (check (length root = count)) (\<lambda>_. ret root))"

definition verify_empty_dir :: "bytes list \<Rightarrow> nat \<Rightarrow> ('d, unit) fs" where
  "verify_empty_dir root i =
    (let name = dir_name i in
     bnd (check (name \<in> set root)) (\<lambda>_.
     bnd (dir_names_mounted name) (\<lambda>contents.
     check (contents = []))))"

definition mount_verify_n_empty_dirs :: "nat \<Rightarrow> unit scenario" where
  "mount_verify_n_empty_dirs count = mounted
    (bnd (root_names count) (\<lambda>root. mfold (\<lambda>i _. verify_empty_dir root i) [0..<count] ()))"

definition verify_file_prng :: "bytes \<Rightarrow> u32 \<Rightarrow> nat \<Rightarrow> ('d, unit) fs" where
  "verify_file_prng path sz i =
    bnd (read_file_mounted path) (\<lambda>data.
    bnd (check (length data = unat sz)) (\<lambda>_.
    prng_verify data (seed_of i)))"

definition mount_verify_n_files_prng :: "nat \<Rightarrow> u32 \<Rightarrow> u32 \<Rightarrow> unit scenario" where
  "mount_verify_n_files_prng count sz chunk = mounted
    (bnd (root_names count) (\<lambda>_. mfold (\<lambda>i _. verify_file_prng (file_name i) sz i) [0..<count] ()))"

definition verify_dir_file_prng :: "u32 \<Rightarrow> nat \<Rightarrow> ('d, unit) fs" where
  "verify_dir_file_prng sz i =
    (let dir = dir_name i in
     bnd (dir_names_mounted dir) (\<lambda>contents.
     bnd (check (length contents = 1)) (\<lambda>_.
     verify_file_prng (path_join dir str_file) sz i)))"

definition mount_verify_n_dirs_with_files_prng :: "nat \<Rightarrow> u32 \<Rightarrow> u32 \<Rightarrow> unit scenario" where
  "mount_verify_n_dirs_with_files_prng count sz chunk = mounted
    (bnd (root_names count) (\<lambda>_. mfold (\<lambda>i _. verify_dir_file_prng sz i) [0..<count] ()))"

definition mount_create_dirs_and_list :: "nat \<Rightarrow> nat \<Rightarrow> nat \<Rightarrow> bytes list scenario" where
  "mount_create_dirs_and_list start count expected = mounted
    (bnd (mfold (\<lambda>i _. mkdir_mounted (dir_name i)) [start..<start + count] ()) (\<lambda>_. root_names expected))"

definition mount_create_files_prng_and_verify_all ::
  "nat \<Rightarrow> nat \<Rightarrow> nat \<Rightarrow> u32 \<Rightarrow> u32 \<Rightarrow> unit scenario" where
  "mount_create_files_prng_and_verify_all start count n_total sz chunk = mounted
    (bnd (mfold (\<lambda>i _. create_file_prng sz chunk i) [start..<start + count] ()) (\<lambda>_.
     bnd (root_names n_total) (\<lambda>_.
     mfold (\<lambda>i _. verify_file_prng (file_name i) sz i) [0..<n_total] ())))"

definition mount_create_dirs_files_prng_and_verify_all ::
  "nat \<Rightarrow> nat \<Rightarrow> nat \<Rightarrow> u32 \<Rightarrow> u32 \<Rightarrow> unit scenario" where
  "mount_create_dirs_files_prng_and_verify_all start count n_total sz chunk = mounted
    (bnd (mfold (\<lambda>i _. create_dir_file_prng sz chunk i) [start..<start + count] ()) (\<lambda>_.
     bnd (root_names n_total) (\<lambda>_.
     mfold (\<lambda>i _. verify_file_prng (path_join (dir_name i) str_file) sz i) [0..<n_total] ())))"

end
