(* ===== verification/ReadOnly.thy ===== *)
theory ReadOnly
  imports Compat Frames
begin

text \<open>
  Reading never writes.  While no open handle has data to write, which is so as long as files are
  only opened for reading, every operation of the read path keeps it so and only reads the device:
  mounting, opening, reading, seeking and closing files and directories, in the core, in the safe
  crate and in the scenarios of the comparison tests.
\<close>

subsection \<open>Handles with nothing to write\<close>

definition clean :: "lfs_node \<Rightarrow> bool" where
  "clean n \<longleftrightarrow> \<not> flag_has (nd_flags n) F_WRITING \<and> \<not> flag_has (nd_flags n) F_DIRTY"

definition quiet_state :: "'d storage \<Rightarrow> 'd lfs \<Rightarrow> bool" where
  "quiet_state st s \<longleftrightarrow> (\<forall>a n. l_nodes s a = Some n \<longrightarrow> clean n) \<and> cfg_context (l_cfg s) = st"

definition quiet :: "'d storage \<Rightarrow> 'd lfs \<Rightarrow> 'd lfs \<Rightarrow> bool" where
  "quiet st s t \<longleftrightarrow> (quiet_state st s \<longrightarrow> quiet_state st t \<and> dev_reads st (l_dev s) (l_dev t))"

lemma quietI: "(quiet_state st s \<Longrightarrow> quiet_state st t \<and> dev_reads st (l_dev s) (l_dev t)) \<Longrightarrow> quiet st s t"
  by (simp add: quiet_def)

lemma clean_m [simp]: "clean (n\<lparr>nd_m := m\<rparr>) = clean n" "clean (n\<lparr>nd_cache := c\<rparr>) = clean n"
  "clean (n\<lparr>nd_next := x\<rparr>) = clean n" "clean (n\<lparr>nd_id := i\<rparr>) = clean n"
  by (simp_all add: clean_def)

lemma clean_default: "clean node_default"
  by (simp add: clean_def node_default_def flag_has_def F_WRITING_def F_DIRTY_def)

lemma quiet_upd: "quiet_state st s \<Longrightarrow> clean n \<Longrightarrow> quiet_state st (s\<lparr>l_nodes := (l_nodes s)(a \<mapsto> n)\<rparr>)"
  by (simp add: quiet_state_def)

lemma quiet_scope:
  assumes n: "clean n" and q: "quiet st (s\<lparr>l_nodes := (l_nodes s)(l_next_node s \<mapsto> n), l_next_node := Suc (l_next_node s)\<rparr>) u"
  shows "quiet st s (u\<lparr>l_nodes := (l_nodes u)(l_next_node s := None), l_next_node := l_next_node s\<rparr>)"
proof (rule quietI)
  assume "quiet_state st s"
  then have "quiet_state st (s\<lparr>l_nodes := (l_nodes s)(l_next_node s \<mapsto> n), l_next_node := Suc (l_next_node s)\<rparr>)"
    using n by (simp add: quiet_state_def)
  then have "quiet_state st u \<and> dev_reads st (l_dev s) (l_dev u)" using q by (simp add: quiet_def)
  then show "quiet_state st (u\<lparr>l_nodes := (l_nodes u)(l_next_node s := None), l_next_node := l_next_node s\<rparr>)
      \<and> dev_reads st (l_dev s) (l_dev (u\<lparr>l_nodes := (l_nodes u)(l_next_node s := None), l_next_node := l_next_node s\<rparr>))"
    by (simp add: quiet_state_def)
qed

lemma q_upd_node_gen:
  assumes "\<And>n. clean n \<Longrightarrow> clean (f n)"
  shows "keeps (quiet st) (upd_node a f)"
proof (rule keepsI)
  fix s t :: "'a lfs" and r
  assume run: "upd_node a f s = Some (r, t)"
  show "quiet st s t"
  proof (rule quietI)
    assume q: "quiet_state st s"
    show "quiet_state st t \<and> dev_reads st (l_dev s) (l_dev t)"
    proof (cases "l_nodes s a")
      case None
      with run q show ?thesis by (simp add: upd_node_def get_node_def bnd_assoc run_simps dev_reads.none)
    next
      case (Some n)
      then have "clean (f n)" using q by (auto simp: quiet_state_def intro: assms)
      with run Some q show ?thesis
        by (auto simp: upd_node_def get_node_def bnd_assoc run_simps dev_reads.none intro: quiet_upd)
    qed
  qed
qed

interpretation qt: lookup_rel "quiet st" for st :: "'d storage"
proof
  fix st :: "'d storage"
  show "quiet st s s" for s by (simp add: quiet_def dev_reads.none)
  show "quiet st s t \<Longrightarrow> quiet st t u \<Longrightarrow> quiet st s u" for s t u
    by (auto simp: quiet_def intro: dev_reads_trans)
  show "keeps (quiet st) (upd_mdir a f)" for a f
    unfolding upd_mdir_def by (rule q_upd_node_gen) simp
  show "keeps (quiet st) (upd_cache r g)" if "r \<noteq> PCache" for r g
  proof (cases r)
    case RCache
    then show ?thesis by (simp add: upd_cache_def keeps_def quiet_def quiet_state_def run_simps dev_reads.none)
  next
    case (FCache x)
    show ?thesis unfolding upd_cache_def FCache cache_ref.case by (rule q_upd_node_gen) simp
  qed (use that in simp)
  show "keeps (quiet st) (dev_read block off buf)" for block off buf
    by (rule keepsI) (auto simp: dev_read_def quiet_def quiet_state_def split: prod.splits
        intro: dev_reads.more [OF dev_reads.none])
  show "quiet st (s\<lparr>l_nodes := (l_nodes s)(l_next_node s \<mapsto> node_default\<lparr>nd_m := m\<rparr>), l_next_node := Suc (l_next_node s)\<rparr>) u \<Longrightarrow>
      quiet st s (u\<lparr>l_nodes := (l_nodes u)(l_next_node s := None), l_next_node := l_next_node s\<rparr>)" for s m u
    by (rule quiet_scope) (simp_all add: clean_default)
qed (auto simp: keeps_def quiet_def quiet_state_def put_buf_def run_simps dev_reads.none)

named_theorems quiet_intros \<open>operations of the read path\<close>

lemma q_upd_node [quiet_intros]: "(\<And>n. clean n \<Longrightarrow> clean (f n)) \<Longrightarrow> keeps (quiet st) (upd_node a f)"
  by (rule q_upd_node_gen)

text \<open>The handle an operation looks at has nothing to write.\<close>

lemma q_get_node [quiet_intros]:
  assumes "\<And>n. clean n \<Longrightarrow> keeps (quiet st) (k n)"
  shows "keeps (quiet st) (bnd (get_node a) k)"
proof (rule keepsI)
  fix s r t
  assume run: "bnd (get_node a) k s = Some (r, t)"
  show "quiet st s t"
  proof (rule quietI)
    assume q: "quiet_state st s"
    show "quiet_state st t \<and> dev_reads st (l_dev s) (l_dev t)"
    proof (cases "l_nodes s a")
      case None
      with run q show ?thesis by (simp add: get_node_def run_simps bnd_assoc dev_reads.none)
    next
      case (Some n)
      then have "clean n" using q by (simp add: quiet_state_def)
      moreover have "k n s = Some (r, t)" using run Some by (simp add: get_node_def run_simps bnd_assoc)
      ultimately show ?thesis using q keepsD [OF assms] unfolding quiet_def by blast
    qed
  qed
qed

lemma q_with_node [quiet_intros]:
  assumes "clean n" "\<And>a. keeps (quiet st) (c a)"
  shows "keeps (quiet st) (with_node n c)"
proof (rule keepsI)
  fix s r t
  assume "with_node n c s = Some (r, t)"
  then obtain u where u: "c (l_next_node s) (s\<lparr>l_nodes := (l_nodes s)(l_next_node s \<mapsto> n), l_next_node := Suc (l_next_node s)\<rparr>) = Some (r, u)"
    and t: "t = u\<lparr>l_nodes := (l_nodes u)(l_next_node s := None), l_next_node := l_next_node s\<rparr>"
    by (auto simp: with_node_def Let_def split: option.splits)
  show "quiet st s t" unfolding t by (rule quiet_scope [OF assms(1)]) (rule keepsD [OF assms(2) u])
qed

lemma q_modify:
  assumes "\<And>s. l_nodes (f s) = l_nodes s \<and> l_cfg (f s) = l_cfg s \<and> l_dev (f s) = l_dev s"
  shows "keeps (quiet st) (modify f)"
  using assms by (auto simp: keeps_def run_simps quiet_def quiet_state_def dev_reads.none)

subsection \<open>The open list, directories and files\<close>

lemma clean_upd [simp]:
  "clean (n\<lparr>nd_block := b\<rparr>) = clean n" "clean (n\<lparr>nd_off := x\<rparr>) = clean n" "clean (n\<lparr>nd_pos := x\<rparr>) = clean n"
  "clean (n\<lparr>nd_ctz := z\<rparr>) = clean n" "clean (n\<lparr>nd_head := p\<rparr>) = clean n" "clean (n\<lparr>nd_dpos := x\<rparr>) = clean n"
  "clean (n\<lparr>nd_type := y\<rparr>) = clean n" "clean (n\<lparr>nd_cfg := k\<rparr>) = clean n"
  by (simp_all add: clean_def)

lemma q_read_link [quiet_intros]: "keeps (quiet st) (read_link p)"
  unfolding read_link_def by (intro qt.k_intros look_intros)

lemma q_write_link [quiet_intros]: "keeps (quiet st) (write_link p x)"
  unfolding write_link_def by (intro keeps_intros q_upd_node q_modify) simp_all

lemma q_mlist_remove [quiet_intros]: "keeps (quiet st) (lfs_mlist_remove a)"
  unfolding lfs_mlist_remove_def by (intro qt.k_intros quiet_intros)

lemma q_mlist_append [quiet_intros]: "keeps (quiet st) (lfs_mlist_append a)"
  unfolding lfs_mlist_append_def by (intro qt.k_intros quiet_intros q_modify) simp_all

lemma q_cache_zero [quiet_intros]: "r \<noteq> PCache \<Longrightarrow> keeps (quiet st) (lfs_cache_zero r)"
  unfolding lfs_cache_zero_def by (intro qt.k_intros look_intros)

lemma q_cache_drop [quiet_intros]: "r \<noteq> PCache \<Longrightarrow> keeps (quiet st) (lfs_cache_drop r)"
  unfolding lfs_cache_drop_def by (intro qt.k_intros look_intros)

lemma q_dir_open [quiet_intros]: "keeps (quiet st) (lfs_dir_open dir path)"
  unfolding lfs_dir_open_def lfs_dir_open_raw_def
  by (intro qt.k_intros quiet_intros look_intros) simp

lemma q_dir_close [quiet_intros]: "keeps (quiet st) (lfs_dir_close dir)"
  unfolding lfs_dir_close_def lfs_dir_close_raw_def by (intro quiet_intros)

lemma q_dir_next_pair [quiet_intros]: "keeps (quiet st) (dir_next_pair dir)"
  unfolding dir_next_pair_def by (intro qt.k_intros quiet_intros look_intros) simp

lemma q_dir_read [quiet_intros]: "keeps (quiet st) (lfs_dir_read dir)"
  unfolding lfs_dir_read_def lfs_dir_read_raw_def lfs_dir_read_body_def Let_def
  by (intro qt.k_intros quiet_intros look_intros) simp_all

text \<open>Flags that are set or cleared beside the two that mean data to write.\<close>

lemma clean_flags:
  assumes "F_WRITING AND g = 0" "F_DIRTY AND g = 0"
  shows "clean (n\<lparr>nd_flags := flag_set g (nd_flags n)\<rparr>) = clean n" "clean (n\<lparr>nd_flags := flag_clear g (nd_flags n)\<rparr>) = clean n"
  by (simp_all add: clean_def flag_has_set_disj flag_has_clear_disj assms)

lemma other_flags:
  "F_WRITING AND F_READING = 0" "F_DIRTY AND F_READING = 0" "F_WRITING AND F_INLINE = 0" "F_DIRTY AND F_INLINE = 0"
  "F_WRITING AND F_ERRED = 0" "F_DIRTY AND F_ERRED = 0"
  by (simp_all add: F_WRITING_def F_READING_def F_DIRTY_def F_INLINE_def F_ERRED_def)

lemma q_flags [quiet_intros]:
  "keeps (quiet st) (insert_flag f F_READING)" "keeps (quiet st) (remove_flag f F_READING)"
  "keeps (quiet st) (insert_flag f F_ERRED)"
  unfolding insert_flag_def remove_flag_def
  by (rule q_upd_node, simp add: clean_flags other_flags)+

lemma q_or_erred [quiet_intros]: "keeps (quiet st) c \<Longrightarrow> keeps (quiet st) (or_erred f c)"
  unfolding or_erred_def by (intro qt.k_intros quiet_intros)

text \<open>Flushing and synchronising a handle with nothing to write.\<close>

lemma q_file_flush [quiet_intros]: "keeps (quiet st) (lfs_file_flush f)"
  unfolding lfs_file_flush_def
  by (rule q_get_node, rule qt.k_bnd, intro keeps_if qt.k_bnd qt.k_ret q_cache_drop q_flags, simp,
      rule q_get_node, simp add: clean_def qt.k_ret)

lemma q_file_sync [quiet_intros]: "keeps (quiet st) (lfs_file_sync_raw f)"
  unfolding lfs_file_sync_raw_def
  by (rule q_get_node, rule keeps_if, rule qt.k_ret, rule qt.k_bnd, intro q_or_erred q_file_flush,
      rule q_get_node, simp add: clean_def qt.k_ret)

lemma q_file_close [quiet_intros]: "keeps (quiet st) (lfs_file_close_raw f)" "keeps (quiet st) (lfs_file_close f)"
  unfolding lfs_file_close_def lfs_file_close_raw_def by (intro quiet_intros qt.k_intros look_intros)+

lemma q_close_fail [quiet_intros]: "keeps (quiet st) (close_fail f e)"
  unfolding close_fail_def by (intro quiet_intros qt.k_intros)

text \<open>Opening a file for reading.\<close>

lemma read_flags:
  "\<not> flag_has O_READ O_WRITE" "\<not> flag_has O_READ O_CREATE" "\<not> flag_has O_READ O_EXCL" "\<not> flag_has O_READ O_TRUNC"
  "\<not> flag_has O_READ F_WRITING" "\<not> flag_has O_READ F_DIRTY"
  by (simp_all add: flag_has_def O_READ_def O_WRITE_def O_CREATE_def O_EXCL_def O_TRUNC_def F_WRITING_def F_DIRTY_def)

lemma q_open_create [quiet_intros]: "keeps (quiet st) (open_create f O_READ path)"
  unfolding open_create_def by (simp only: read_flags not_False_eq_True if_True) (intro quiet_intros)

lemma q_open_existing [quiet_intros]: "keeps (quiet st) (open_existing f O_READ tag)"
  unfolding open_existing_def by (simp only: read_flags if_False) (intro quiet_intros qt.k_intros look_intros, simp)

lemma q_malloc [quiet_intros]: "keeps (quiet st) (lfs_malloc n)"
  unfolding lfs_malloc_def by (intro qt.k_intros look_intros q_modify) simp

lemma q_open_buffer [quiet_intros]: "keeps (quiet st) (open_buffer f)"
  unfolding open_buffer_def by (intro quiet_intros qt.k_intros) simp_all

lemma q_open_inline [quiet_intros]: "keeps (quiet st) (open_inline f sz)"
  unfolding open_inline_def by (intro quiet_intros qt.k_intros look_intros)
    (simp_all add: clean_def flag_has_set_disj other_flags)

lemma q_file_opencfg:
  assumes "fc_attrs cfg = []"
  shows "keeps (quiet st) (lfs_file_opencfg_raw f path O_READ cfg)"
  unfolding lfs_file_opencfg_raw_def assms list.size(3) upt_0 mfold.simps
  by (simp only: read_flags if_False upt_rec [of 0 0] mfold.simps less_irrefl)
    (intro quiet_intros qt.k_intros look_intros, simp_all add: clean_def read_flags)

lemma q_file_open [quiet_intros]: "keeps (quiet st) (lfs_file_open f path O_READ)"
  unfolding lfs_file_open_def lfs_file_open_raw_def by (rule q_file_opencfg) (simp add: LFS_FILE_DEFAULTS_def)

text \<open>Reading and seeking.\<close>

lemma q_flushedread_seek [quiet_intros]: "keeps (quiet st) (flushedread_seek f)"
  unfolding flushedread_seek_def by (intro quiet_intros qt.k_intros look_intros) simp_all

lemma q_flushedread [quiet_intros]: "keeps (quiet st) (lfs_file_flushedread f buf)"
  unfolding lfs_file_flushedread_def lfs_file_flushedread_body_def Let_def
  by (intro quiet_intros qt.k_intros look_intros) simp_all

lemma q_file_read [quiet_intros]: "keeps (quiet st) (lfs_file_read f buf)"
  unfolding lfs_file_read_def lfs_file_read_raw_def by (intro quiet_intros qt.k_intros)

lemma q_seek_cached [quiet_intros]: "keeps (quiet st) (seek_cached f npos)"
  unfolding seek_cached_def Let_def by (intro quiet_intros qt.k_intros look_intros)

lemma q_file_seek [quiet_intros]: "keeps (quiet st) (lfs_file_seek f off whence)"
  unfolding lfs_file_seek_def lfs_file_seek_raw_def Let_def
  by (intro quiet_intros qt.k_intros look_intros) simp_all

subsection \<open>Mounting and unmounting\<close>

text \<open>Setting the state up keeps the driver when the configuration names the same one.\<close>

lemma q_pcache_zero [quiet_intros]: "keeps (quiet st) (lfs_cache_zero PCache)"
  unfolding lfs_cache_zero_def upd_cache_def cache_ref.case
  by (intro qt.k_intros look_intros q_modify) simp

lemma q_init: "cfg_context cfg = st \<Longrightarrow> keeps (quiet st) (lfs_init cfg)"
  unfolding lfs_init_def
  by (intro qt.k_intros look_intros q_cache_zero q_pcache_zero)
    (simp_all add: keeps_def quiet_def quiet_state_def run_simps dev_reads.none)

lemma q_set_gtag [quiet_intros]: "keeps (quiet st) (set_gtag g)"
  unfolding set_gtag_def by (intro q_modify) simp

lemma q_mount_limit: "(\<And>m. keeps (quiet st) (upd m)) \<Longrightarrow> keeps (quiet st) (mount_limit sb_max cur upd)"
  unfolding mount_limit_def by (intro qt.k_intros)

lemma q_mount_superblock [quiet_intros]: "keeps (quiet st) (mount_superblock cfg sb)"
  unfolding mount_superblock_def lfs_fs_prepsuperblock_def Let_def
  by (intro qt.k_intros quiet_intros q_mount_limit q_modify) simp_all

lemma q_mount_pair [quiet_intros]: "keeps (quiet st) (mount_pair cfg dir tail)"
  unfolding mount_pair_def superblock_get_def
  by (intro qt.k_intros quiet_intros look_intros qt.dir_fetchmatch q_modify) (auto intro: qt.find_match)

lemma q_mount_scan [quiet_intros]: "keeps (quiet st) (mount_scan cfg)"
  unfolding mount_scan_def by (intro qt.k_intros quiet_intros look_intros)

lemma q_mount: "cfg_context cfg = st \<Longrightarrow> keeps (quiet st) (lfs_mount cfg)"
  unfolding lfs_mount_def lfs_mount_raw_def or_deinit_def lfs_deinit_def lfs_alloc_drop_def lfs_alloc_ckpoint_def
  by (intro qt.k_intros quiet_intros q_init q_modify) simp_all

lemma q_unmount [quiet_intros]: "keeps (quiet st) lfs_unmount"
  unfolding lfs_unmount_def lfs_unmount_raw_def lfs_deinit_def by (intro qt.k_intros)

subsection \<open>The scenarios\<close>

lemma q_read_file_mounted: "keeps (quiet st) (read_file_mounted path)"
  unfolding read_file_mounted_def read_file_body_def
  by (intro qt.k_intros quiet_intros clean_default)

lemma q_dir_names_mounted: "keeps (quiet st) (dir_names_mounted path)"
  unfolding dir_names_mounted_def dir_names_body_def
  by (intro qt.k_intros quiet_intros clean_default)

text \<open>A scenario on the shared memory whose steps are on the read path leaves it as it is.\<close>

lemma mounted_reads:
  assumes "\<And>st. keeps (quiet st) c" "mounted c d = Some (r, d')"
  shows "d' = d"
proof -
  let ?cfg = "rust_config d" and ?s = "lfs_default (rust_config d) (rust_bufs d) d"
  obtain t where run: "bnd (lfs_mount ?cfg) (\<lambda>_. bnd c (\<lambda>x. bnd lfs_unmount (\<lambda>_. ret x))) ?s = Some (r, t)" and d': "d' = l_dev t"
    using assms(2) by (auto simp: mounted_def with_env_def split: option.splits)
  have "keeps (quiet shared_driver) (bnd (lfs_mount ?cfg) (\<lambda>_. bnd c (\<lambda>x. bnd lfs_unmount (\<lambda>_. ret x))))"
    by (intro qt.k_intros quiet_intros q_mount assms(1)) (simp add: rust_config_def Let_def)
  from keepsD [OF this run] have "quiet shared_driver ?s t" .
  moreover have "quiet_state shared_driver ?s" by (simp add: quiet_state_def lfs_default_def rust_config_def Let_def)
  ultimately have "dev_reads shared_driver d d'" by (simp add: quiet_def d' lfs_default_def)
  then show ?thesis by (rule dev_reads_pure [rotated]) (simp add: driver_simps)
qed

subsection \<open>The safe crate\<close>

definition wquiet :: "'d storage \<Rightarrow> 'd fs_inner \<Rightarrow> 'd fs_inner \<Rightarrow> bool" where
  "wquiet st s t \<longleftrightarrow> quiet st (in_lfs s) (in_lfs t)"

interpretation wqt: frame_rel "wquiet st" for st :: "'d storage"
  by unfold_locales (auto simp: wquiet_def intro: qt.R_refl qt.R_trans)

lemma wq_core: "keeps (quiet st) c \<Longrightarrow> keeps (wquiet st) (core c)"
  by (rule keepsI) (auto simp: core_def wquiet_def split: option.splits dest: keepsD)

lemma wq_new_node: "keeps (wquiet st) (new_node node_default)"
  unfolding new_node_def
  by (intro wq_core qt.k_intros) (auto simp: keeps_def quiet_def quiet_state_def run_simps dev_reads.none clean_default)

lemma wq_free_node: "keeps (wquiet st) (free_node a)"
  unfolding free_node_def
  by (intro wq_core) (auto simp: keeps_def quiet_def quiet_state_def run_simps dev_reads.none split: if_splits)

lemma wq_with_drop:
  "keeps (wquiet st) c \<Longrightarrow> keeps (wquiet st) (drop_handle h) \<Longrightarrow> keeps (wquiet st) (with_drop drop_handle h c)"
  unfolding with_drop_def by (intro wqt.k_intros)

lemma wq_file_open: "keeps (wquiet st) (file_open path O_READ)"
  unfolding file_open_def file_allocation_def fs_cache_size_def lfs_file_opencfg_def bnd_assoc bnd_ret prod.case
  by (intro wqt.k_intros wq_core wq_new_node wq_free_node quiet_intros q_file_opencfg) simp

lemma wq_read_to_vec: "keeps (wquiet st) (read_to_vec path)"
  unfolding read_to_vec_def file_drop_def file_size_def file_read_def Let_def
  by (intro wqt.k_intros wq_file_open wq_with_drop wq_core wq_free_node quiet_intros qt.k_intros)

lemma wq_list_dir: "keeps (wquiet st) (list_dir path)"
  unfolding list_dir_def read_dir_def dir_drop_def dir_next_def Let_def
  by (intro wqt.k_intros wq_with_drop wq_core wq_new_node wq_free_node quiet_intros)

text \<open>C29 (safety). Reading never writes.  Mounting whatever a memory holds, listing a directory or
  reading a file to its end, and unmounting leaves every byte of the memory as it was, however the
  run ends: with the names or the data, with an error at any step, or with a panic.  In the same way
  \<open>read_to_vec\<close> and \<open>list_dir\<close> of the safe crate only read the device, for any driver, as long as
  no handle that is open elsewhere has data to write, and leave no handle behind that has.\<close>

theorem reading_never_writes:
  "(case mount_read_file path d of None \<Rightarrow> True | Some (_, d') \<Rightarrow> d' = d)
    \<and> (case mount_dir_names path d of None \<Rightarrow> True | Some (_, d') \<Rightarrow> d' = d)
    \<and> keeps (wquiet st) (read_to_vec path) \<and> keeps (wquiet st) (list_dir path)"
  unfolding mount_read_file_def mount_dir_names_def
  by (auto split: option.split dest: mounted_reads [OF q_read_file_mounted] mounted_reads [OF q_dir_names_mounted]
      intro: wq_read_to_vec wq_list_dir)

end
