(* ===== verification/FormatTest.thy ===== *)
theory FormatTest
  imports Mount
begin

text \<open>
  The helpers \<open>test_*\<close> of \<open>fs/format.rs\<close> and the callback of \<open>dir/traverse.rs\<close> that belongs to
  them: traversals of the attributes of a new superblock that record what the callback is given,
  and a superblock written without a traversal.
\<close>

subsection \<open>Recording a traversal\<close>

record traverse_test_out =
  to_call_count :: u32
  to_tags :: "u16 list"
  to_first_bytes :: bytes

definition traverse_test_out_default :: traverse_test_out where
  "traverse_test_out_default = \<lparr>to_call_count = 0, to_tags = replicate 8 0, to_first_bytes = replicate 8 0\<rparr>"

definition lfs_dir_traverse_test_cb :: "u32 \<Rightarrow> attr_buf \<Rightarrow> traverse_test_out \<Rightarrow> ('d, int \<times> traverse_test_out) fs" where
  "lfs_dir_traverse_test_cb tag buffer out =
    (if unat (to_call_count out) \<ge> 8 then ret (0, out)
     else
     let i = unat (to_call_count out) in
     (case attr_bytes buffer of
        None \<Rightarrow> panic
      | Some bs \<Rightarrow>
          ret (0, out\<lparr>to_tags := (to_tags out)[i := lfs_tag_type3 tag],
                      to_first_bytes := (to_first_bytes out)[i := (if bs = [] then 0 else bs ! 0)],
                      to_call_count := to_call_count out + 1\<rparr>)))"

text \<open>All three helpers start like \<open>lfs_format_\<close>, up to the allocation of the root.\<close>

definition test_root :: "lfs_mdir" where
  "test_root = mdir_zero\<lparr>md_off := 4, md_etag := 0xffffffff\<rparr>"

definition test_traverse :: "'d lfs_config \<Rightarrow> u32 \<Rightarrow> u32 \<Rightarrow> u16 \<Rightarrow> u16 \<Rightarrow> traverse_test_out \<Rightarrow> ('d, traverse_test_out) fs" where
  "test_traverse cfg tmask ttag begn en out =
    bnd (or_deinit (lfs_init cfg)) (\<lambda>_.
    bnd (format_lookahead cfg) (\<lambda>_.
    with_mdir test_root (\<lambda>root.
    bnd (or_deinit (lfs_dir_alloc root)) (\<lambda>_.
    bnd (format_superblock cfg) (\<lambda>sb.
    bnd (get_mdir root) (\<lambda>d.
    bnd (or_deinit (lfs_dir_traverse d 0 0xffffffff (superblock_attrs sb) tmask ttag begn en 0
           lfs_dir_traverse_test_cb out)) (\<lambda>(_, out).
    bnd lfs_deinit (\<lambda>_.
    ret out))))))))"

definition test_traverse_format_attrs :: "'d lfs_config \<Rightarrow> traverse_test_out \<Rightarrow> ('d, traverse_test_out) fs" where
  "test_traverse_format_attrs cfg out = test_traverse cfg 0 0 0 0 out"

definition test_traverse_filter_gets_superblock_after_push ::
  "'d lfs_config \<Rightarrow> traverse_test_out \<Rightarrow> ('d, traverse_test_out) fs" where
  "test_traverse_filter_gets_superblock_after_push cfg out =
    test_traverse cfg (lfs_mktag 0x400 0x3ff 0) (lfs_mktag LFS_TYPE_NAME 0 0) 0 1 out"

subsection \<open>A superblock without a traversal\<close>

text \<open>The source chains the first tag to the revision count here, not to \<open>0xffffffff\<close>.\<close>

definition minimal_commit :: "'d lfs_config \<Rightarrow> u32 \<Rightarrow> ('d, unit) fs" where
  "minimal_commit cfg block =
    bnd (or_deinit (lfs_bd_erase block)) (\<lambda>_.
    let commit = \<lparr>cm_block = block, cm_off = 0, cm_ptag = 0xffffffff, cm_crc = 0xffffffff, cm_begin = 0,
                  cm_end = cfg_block_size cfg - 8\<rparr>;
        rev = 1 in
    bnd (or_deinit (lfs_dir_commitprog commit (u32_to_le rev))) (\<lambda>commit.
    let commit = commit\<lparr>cm_ptag := rev AND 0x7fffffff\<rparr> in
    bnd (or_deinit (lfs_dir_commitattr commit (lfs_mktag LFS_TYPE_CREATE 0 0) (Bytes []))) (\<lambda>commit.
    bnd (or_deinit (lfs_dir_commitattr commit (lfs_mktag LFS_TYPE_SUPERBLOCK 0 8) (Bytes lfs_magic))) (\<lambda>commit.
    bnd (or_deinit (lfs_dir_commitcrc commit)) (\<lambda>_.
    or_deinit (lfs_bd_sync PCache RCache False))))))"

definition test_format_minimal_superblock :: "'d lfs_config \<Rightarrow> ('d, unit) fs" where
  "test_format_minimal_superblock cfg =
    bnd (or_deinit (lfs_init cfg)) (\<lambda>_.
    bnd (check (cfg_block_count cfg \<noteq> 0)) (\<lambda>_.
    bnd (format_lookahead cfg) (\<lambda>_.
    with_mdir mdir_zero (\<lambda>root.
    bnd (or_deinit (lfs_dir_alloc root)) (\<lambda>_.
    bnd (get_mdir root) (\<lambda>d.
    bnd (minimal_commit cfg (snd (md_pair d))) (\<lambda>_.
    lfs_deinit)))))))"

end
