(* ===== verification/Traversal.thy ===== *)
theory Traversal
  imports PowerLoss
begin

text \<open>
  What a traversal of a log comes to.  \<open>lfs_dir_traverse\<close> hands the entries of a log, and the
  attributes about to be written, to its callback, leaving out those that a later entry replaces; the
  source does this with an explicit stack and a filter that looks ahead.  Here it is \<open>kept\<close>, a
  function on the list of entries, and the stack is shown to compute it.
\<close>

subsection \<open>A log from the front\<close>

text \<open>The entries between the positions \<open>q\<close> and \<open>en\<close>, the first chained to the tag \<open>p\<close>.\<close>

fun log_walk :: "bytes \<Rightarrow> nat \<Rightarrow> u32 \<Rightarrow> log_entry list \<Rightarrow> nat \<Rightarrow> bool" where
  "log_walk bs q p [] en \<longleftrightarrow> en \<le> q"
| "log_walk bs q p ((tag, data) # es) en \<longleftrightarrow> lfs_tag_isvalid tag \<and> q + unat (lfs_tag_dsize tag) \<le> en
     \<and> length data = unat (lfs_tag_dsize tag) - 4 \<and> take (length data) (drop (q + 4) bs) = data
     \<and> (u32_from_be (take 4 (drop q bs)) XOR p) AND 0x7fffffff = tag
     \<and> log_walk bs (q + unat (lfs_tag_dsize tag)) tag es en"

text \<open>What a traversal makes of an entry: the tag with its top bit set, and where its data is.\<close>

type_synonym item = "u32 \<times> attr_buf"

fun disk_items :: "u32 \<Rightarrow> nat \<Rightarrow> log_entry list \<Rightarrow> item list" where
  "disk_items b q [] = []"
| "disk_items b q ((tag, data) # es) =
    (tag OR 0x80000000, DiskBuf \<lparr>do_block = b, do_off = word_of_nat (q + 4)\<rparr>)
      # disk_items b (q + unat (lfs_tag_dsize tag)) es"

definition attr_items :: "lfs_mattr list \<Rightarrow> item list" where
  "attr_items = map (\<lambda>a. (ma_tag a, ma_buf a))"

subsection \<open>What a traversal keeps\<close>

text \<open>What is left of a tag when the later ones have been looked at.\<close>

fun survive :: "u32 \<Rightarrow> u32 list \<Rightarrow> u32" where
  "survive ft [] = ft"
| "survive ft (tag # ts) =
    (if lfs_tag_type3 tag = LFS_FROM_NOOP then survive ft ts
     else case lfs_dir_traverse_filter ft tag of (r, ft) \<Rightarrow> if r \<noteq> 0 then ft else survive ft ts)"

definition trav_match :: "u32 \<Rightarrow> u32 \<Rightarrow> u32 \<Rightarrow> bool" where
  "trav_match tmask ttag tag \<longleftrightarrow>
    lfs_mktag 0x7ff 0 0 AND tmask AND tag = lfs_mktag 0x7ff 0 0 AND tmask AND ttag"

definition trav_final :: "u32 \<Rightarrow> u32 \<Rightarrow> u32 list \<Rightarrow> u32" where
  "trav_final tmask tag later = (if lfs_tag_id tmask \<noteq> 0 then survive tag later else tag)"

definition trav_out :: "u32 \<Rightarrow> u16 \<Rightarrow> u16 \<Rightarrow> u32 \<Rightarrow> bool" where
  "trav_out tmask begn en tag \<longleftrightarrow> (lfs_tag_id tmask \<noteq> 0 \<and> \<not> (lfs_tag_id tag \<ge> begn \<and> lfs_tag_id tag < en))
     \<or> lfs_tag_type3 tag = LFS_FROM_NOOP"

fun kept :: "u32 \<Rightarrow> u32 \<Rightarrow> u16 \<Rightarrow> u16 \<Rightarrow> u16 \<Rightarrow> (u32 \<times> 'b) list \<Rightarrow> (u32 \<times> 'b) list" where
  "kept tmask ttag begn en diff [] = []"
| "kept tmask ttag begn en diff ((tag, buf) # its) =
    (let rest = kept tmask ttag begn en diff its; ft = trav_final tmask tag (map fst its)
     in if trav_match tmask ttag tag \<and> \<not> trav_out tmask begn en ft
        then (ft + lfs_mktag 0 (scast diff) 0, buf) # rest else rest)"

definition is_disk :: "attr_buf \<Rightarrow> bool" where
  "is_disk buf = (case buf of DiskBuf d \<Rightarrow> True | _ \<Rightarrow> False)"

lemma is_disk_iff: "is_disk buf \<longleftrightarrow> (\<exists>d. buf = DiskBuf d)"
  by (cases buf) (simp_all add: is_disk_def)

text \<open>Without instructions to copy from elsewhere; attributes carry their own data.\<close>

definition plain_tag :: "u32 \<Rightarrow> bool" where
  "plain_tag tag \<longleftrightarrow> lfs_tag_type3 tag \<noteq> LFS_FROM_MOVE \<and> lfs_tag_type3 tag \<noteq> LFS_FROM_USERATTRS"

fun plain_items :: "u32 \<Rightarrow> item list \<Rightarrow> bool" where
  "plain_items tmask [] \<longleftrightarrow> True"
| "plain_items tmask ((tag, buf) # its) \<longleftrightarrow> plain_tag tag \<and> plain_tag (trav_final tmask tag (map fst its))
     \<and> (is_disk buf \<or> lfs_tag_isvalid (trav_final tmask tag (map fst its))) \<and> plain_items tmask its"

subsection \<open>The position of a traversal\<close>

definition trav_at :: "bytes \<Rightarrow> u32 \<Rightarrow> lfs_mattr list \<Rightarrow> trav \<Rightarrow> item list \<Rightarrow> bool" where
  "trav_at bs b attrs t its \<longleftrightarrow> (\<exists>es. fst (md_pair (tv_dir t)) = b \<and> \<not> tv_empty t
     \<and> log_walk bs (unat (tv_off t) + unat (lfs_tag_dsize (tv_ptag t))) (tv_ptag t) es (unat (md_off (tv_dir t)))
     \<and> unat (md_off (tv_dir t)) \<le> length bs \<and> length bs < 2 ^ 30 \<and> unat (tv_off t) \<le> unat (md_off (tv_dir t))
     \<and> list_all (\<lambda>a. \<not> is_disk (ma_buf a)) attrs
     \<and> its = disk_items b (unat (tv_off t) + unat (lfs_tag_dsize (tv_ptag t))) es @ attr_items (drop (tv_attr_i t) attrs))"

text \<open>The buffer an item is dispatched with.\<close>

definition trav_data :: "trav_buf \<Rightarrow> trav \<Rightarrow> attr_buf" where
  "trav_data buffer t = (case buffer of AttrBuffer b \<Rightarrow> b | DiskVar \<Rightarrow> DiskBuf (tv_disk t))"

definition src_reads :: "('d lfs \<Rightarrow> bool) \<Rightarrow> u32 \<Rightarrow> bytes \<Rightarrow> bool" where
  "src_reads P b bs \<longleftrightarrow> (\<forall>s off n. P s \<longrightarrow> 0 < n \<longrightarrow> off + n \<le> length bs \<longrightarrow>
     (\<exists>u. lfs_bd_read None RCache n b off (replicate n 0) s = Some (Val (take n (drop off bs)), u) \<and> P u))"

definition same_mode :: "trav \<Rightarrow> trav \<Rightarrow> bool" where
  "same_mode t u \<longleftrightarrow> tv_tmask u = tv_tmask t \<and> tv_ttag u = tv_ttag t \<and> tv_begin u = tv_begin t \<and> tv_end u = tv_end t
     \<and> tv_diff u = tv_diff t \<and> tv_cb u = tv_cb t"

lemma top_bits: "(0x7fffffff :: u32) = mask 31" "(0x80000000 :: u32) = push_bit 31 1"
  by (simp_all add: mask_eq_exp_minus_1)

lemma bit_top: "bit (0x80000000 :: u32) n \<longleftrightarrow> n = 31"
  unfolding top_bits(2) bit_push_bit_iff bit_1_iff by auto

lemma bit_low: "bit (0x7fffffff :: u32) n \<longleftrightarrow> n < 31"
  unfolding top_bits(1) bit_mask_iff by auto

lemma bit_32_cases: "n < LENGTH(32) \<Longrightarrow> n = 31 \<or> n < 31"
  by auto

lemma valid_dsize: "lfs_tag_dsize (tag OR 0x80000000) = lfs_tag_dsize tag"
proof -
  have "lfs_tag_size (tag OR 0x80000000) = lfs_tag_size tag"
    by (rule bit_word_eqI) (auto simp: tag_bits bit_or_iff bit_top simp del: bit_numeral_word_iff)
  then show ?thesis
    by (simp add: word_unat_eq_iff unat_lfs_tag_dsize lfs_tag_isdelete_size)
qed

lemma walk_step_tag:
  assumes "(raw XOR p) AND 0x7fffffff = tag"
  shows "(raw XOR p) OR 0x80000000 = tag OR (0x80000000 :: u32)"
  unfolding assms [symmetric]
  by (rule bit_word_eqI, drule bit_32_cases) (auto simp: bit_or_iff bit_and_iff bit_low bit_top simp del: bit_numeral_word_iff)

lemma walk_top_bit: "log_walk bs q (p OR 0x80000000) es en = log_walk bs q p es en"
proof (cases es)
  case (Cons e es')
  have "(x XOR (p OR 0x80000000)) AND 0x7fffffff = (x XOR p) AND 0x7fffffff" for x :: u32
    by (rule bit_word_eqI, drule bit_32_cases) (auto simp: bit_or_iff bit_and_iff bit_xor_iff bit_low bit_top simp del: bit_numeral_word_iff)
  with Cons show ?thesis by (cases e) simp
qed simp

subsection \<open>The entries of a block\<close>

text \<open>The closing entries of the commits included.\<close>

primrec flat_log :: "u32 \<Rightarrow> u32 \<Rightarrow> log_commit list \<Rightarrow> log_entry list" where
  "flat_log p crc [] = []"
| "flat_log p crc (c # cs) = (case c of (es, ctag, pad) \<Rightarrow>
    es @ (ctag, u32_to_le (lfs_crc crc (entries_bytes p es @ u32_to_be (ctag XOR last_tag p es))) @ pad)
      # flat_log (next_tag ctag) 0xffffffff cs)"

definition log_entries :: "u32 \<Rightarrow> log_commit list \<Rightarrow> log_entry list" where
  "log_entries rv cs = flat_log 0xffffffff (lfs_crc 0xffffffff (u32_to_le rv)) cs"

definition sized :: "log_entry \<Rightarrow> bool" where
  "sized e \<longleftrightarrow> lfs_tag_isvalid (fst e) \<and> length (snd e) = unat (lfs_tag_dsize (fst e)) - 4"

lemma wf_sized: "wf_entry e \<Longrightarrow> sized e"
  by (simp add: wf_entry_def sized_def)

lemma log_walk_Cons:
  assumes e: "sized (tag, data)" and q: "length w = q"
    and rest: "log_walk (w @ entry_bytes p tag data @ r) (q + unat (lfs_tag_dsize tag)) tag es en"
      "q + unat (lfs_tag_dsize tag) \<le> en"
  shows "log_walk (w @ entry_bytes p tag data @ r) q p ((tag, data) # es) en"
proof -
  have v: "lfs_tag_isvalid tag" "length data = unat (lfs_tag_dsize tag) - 4" using e by (simp_all add: sized_def)
  then show ?thesis
    using rest q valid_tag_and [OF v(1)] by (simp add: entry_bytes_def u32_from_to_be xor.assoc)
qed

lemma sized_length: "sized e \<Longrightarrow> length (entry_bytes p (fst e) (snd e)) = unat (lfs_tag_dsize (fst e))"
  using unat_4_dsize(2) [of "fst e"] by (simp add: sized_def entry_bytes_def)

lemma log_walk_le: "log_walk bs q p es en \<Longrightarrow> es = [] \<or> q \<le> en"
  by (cases es) auto

lemma log_walk_entries:
  assumes "list_all sized es" "length w = q"
    and "log_walk (w @ entries_bytes p es @ r) (q + length (entries_bytes p es)) (last_tag p es) fs en"
    and "q + length (entries_bytes p es) \<le> en"
  shows "log_walk (w @ entries_bytes p es @ r) q p (es @ fs) en"
  using assms
proof (induction es arbitrary: w q p)
  case (Cons e es)
  obtain tag data where e: "e = (tag, data)" by (cases e)
  have s: "sized (tag, data)" using Cons.prems(1) by (simp add: e)
  note l = sized_length [OF s, of p, unfolded fst_conv snd_conv]
  have IH: "log_walk ((w @ entry_bytes p tag data) @ entries_bytes tag es @ r) (q + unat (lfs_tag_dsize tag)) tag (es @ fs) en"
    by (rule Cons.IH) (use Cons.prems l in \<open>simp_all add: e add.assoc\<close>)
  show ?case
    unfolding e append_Cons entries_bytes.simps fst_conv snd_conv append_assoc
    by (rule log_walk_Cons [OF s Cons.prems(2)]) (use IH Cons.prems(4) l in \<open>simp_all add: e\<close>)
qed simp

lemma log_walk_low: "p AND 0x7fffffff = p' AND 0x7fffffff \<Longrightarrow> log_walk bs q p es en = log_walk bs q p' es en"
proof (cases es)
  case (Cons e es')
  assume m: "p AND 0x7fffffff = p' AND 0x7fffffff"
  have "(x XOR p) AND 0x7fffffff = (x AND 0x7fffffff) XOR (p AND 0x7fffffff)" for x p :: u32
    by (rule bit_word_eqI) (auto simp: bit_and_iff bit_xor_iff simp del: bit_numeral_word_iff)
  then show ?thesis using Cons m by (cases e) simp
qed simp

lemma next_tag_low: "next_tag ctag AND 0x7fffffff = ctag AND 0x7fffffff"
  by (rule bit_word_eqI) (auto simp: next_tag_def bit_and_iff bit_xor_iff bit_push_bit_iff bit_low simp del: bit_numeral_word_iff)

lemma commit_is_entries:
  assumes "lfs_tag_isvalid ctag"
  shows "commit_bytes p crc (es, ctag, pad) = entries_bytes p (es @ [(ctag, u32_to_le (lfs_crc crc (entries_bytes p es @ u32_to_be (ctag XOR last_tag p es))) @ pad)])"
  by (simp add: commit_bytes_def Let_def entries_append entry_bytes_def valid_tag_and [OF assms])

lemma log_walk_commits:
  "list_all wf_commit cs \<Longrightarrow> length w = q \<Longrightarrow>
    log_walk (w @ commits_bytes p crc cs @ r) q p (flat_log p crc cs) (q + length (commits_bytes p crc cs))"
proof (induction cs arbitrary: w q p crc)
  case (Cons c cs)
  obtain es ctag pad where c: "c = (es, ctag, pad)" by (cases c)
  have wf: "list_all wf_entry es" "lfs_tag_isvalid ctag" "8 \<le> unat (lfs_tag_dsize ctag)" "length pad = unat (lfs_tag_dsize ctag) - 8"
    using Cons.prems(1) by (simp_all add: c wf_commit_def)
  define last where "last = (ctag, u32_to_le (lfs_crc crc (entries_bytes p es @ u32_to_be (ctag XOR last_tag p es))) @ pad)"
  have C: "commit_bytes p crc c = entries_bytes p (es @ [last])" unfolding c last_def by (rule commit_is_entries [OF wf(2)])
  have sized: "list_all sized (es @ [last])"
    using wf wf_sized by (auto simp: last_def sized_def list_all_iff)
  have IH: "log_walk ((w @ commit_bytes p crc c) @ commits_bytes (next_tag ctag) 0xffffffff cs @ r) (q + length (commit_bytes p crc c))
      (next_tag ctag) (flat_log (next_tag ctag) 0xffffffff cs)
      ((q + length (commit_bytes p crc c)) + length (commits_bytes (next_tag ctag) 0xffffffff cs))"
    by (rule Cons.IH) (use Cons.prems in simp_all)
  have "log_walk (w @ entries_bytes p (es @ [last]) @ commits_bytes (next_tag ctag) 0xffffffff cs @ r) q p
      ((es @ [last]) @ flat_log (next_tag ctag) 0xffffffff cs) (q + length (commits_bytes p crc (c # cs)))"
    by (rule log_walk_entries [OF sized Cons.prems(2)])
      (use IH in \<open>simp_all add: c C [unfolded c] last_tag_append log_walk_low [OF next_tag_low] last_def add.assoc\<close>)
  moreover have "(es @ [last]) @ flat_log (next_tag ctag) 0xffffffff cs = flat_log p crc (c # cs)" by (simp add: c last_def)
  ultimately show ?case by (simp add: C) (simp add: c)
qed simp

text \<open>What a fetched directory holds is what a traversal of it walks over.\<close>

lemma block_log_walk:
  assumes "block_log bs rv cs r"
  shows "log_walk bs 4 0xffffffff (log_entries rv cs) (length (log_head rv cs))" "length (log_head rv cs) \<le> length bs"
proof -
  have b: "bs = u32_to_le rv @ commits_bytes 0xffffffff (lfs_crc 0xffffffff (u32_to_le rv)) cs @ r" "list_all wf_commit cs"
    using assms by (simp_all add: block_log_def Let_def)
  have l: "length (log_head rv cs) = 4 + length (commits_bytes 0xffffffff (lfs_crc 0xffffffff (u32_to_le rv)) cs)"
    by (simp add: log_head_def)
  show "log_walk bs 4 0xffffffff (log_entries rv cs) (length (log_head rv cs))"
    unfolding log_entries_def l b(1) by (rule log_walk_commits [OF b(2)]) simp
  show "length (log_head rv cs) \<le> length bs" unfolding l b(1) by simp
qed

lemma disk_items_Nil: "disk_items b q es = [] \<longleftrightarrow> es = []"
  by (cases es) auto

lemma disk_items_disk: "it \<in> set (disk_items b q es) \<Longrightarrow> \<exists>d. snd it = DiskBuf d"
  by (induction b q es rule: disk_items.induct) auto

text \<open>The next item.\<close>

lemma get_next_item:
  assumes at: "trav_at bs b attrs t (it # its)" and P: "P s" and rd: "src_reads P b bs"
  obtains buffer u s' where "trav_get_next attrs stack t s = Some (Val (Some (fst it, buffer, u)), s')" "P s'"
    "trav_at bs b attrs u its" "trav_data buffer u = snd it" "same_mode t u"
    "buffer = DiskVar \<or> \<not> is_disk (snd it)"
proof -
  obtain es where es: "fst (md_pair (tv_dir t)) = b" "\<not> tv_empty t"
    "log_walk bs (unat (tv_off t) + unat (lfs_tag_dsize (tv_ptag t))) (tv_ptag t) es (unat (md_off (tv_dir t)))"
    "unat (md_off (tv_dir t)) \<le> length bs" "length bs < 2 ^ 30" "unat (tv_off t) \<le> unat (md_off (tv_dir t))"
    "list_all (\<lambda>a. \<not> is_disk (ma_buf a)) attrs"
    "it # its = disk_items b (unat (tv_off t) + unat (lfs_tag_dsize (tv_ptag t))) es @ attr_items (drop (tv_attr_i t) attrs)"
    using at by (auto simp: trav_at_def)
  define q where "q = unat (tv_off t) + unat (lfs_tag_dsize (tv_ptag t))"
  have ds: "unat (lfs_tag_dsize tag) < 2 ^ 11" "4 \<le> unat (lfs_tag_dsize tag)" for tag using unat_4_dsize by auto
  have q: "unat (tv_off t + lfs_tag_dsize (tv_ptag t)) = q"
    using es(4-6) ds(1) [of "tv_ptag t"] by (simp add: q_def unat_word_ariths)
  show ?thesis
  proof (cases es)
    case Nil
    then have at_end: "unat (md_off (tv_dir t)) \<le> q" using es(3) by (simp add: q_def)
    obtain a as where a: "drop (tv_attr_i t) attrs = a # as" "it = (ma_tag a, ma_buf a)" "its = attr_items as"
      using es(8) Nil by (cases "drop (tv_attr_i t) attrs") (auto simp: attr_items_def)
    then have i: "tv_attr_i t < length attrs" "attrs ! tv_attr_i t = a" "drop (Suc (tv_attr_i t)) attrs = as"
      by (metis drop_all list.distinct(1) not_less, metis nth_via_drop, metis drop_Suc tl_drop list.sel(3))
    have na: "\<not> is_disk (ma_buf a)" using es(7) i(1,2) by (auto simp: list_all_length)
    have "trav_get_next attrs stack t s = Some (Val (Some (fst it, AttrBuffer (ma_buf a), t\<lparr>tv_attr_i := tv_attr_i t + 1\<rparr>)), s)"
      using at_end q i(1,2) es(2) a(2) by (simp add: trav_get_next_def word_less_nat_alt ret_def Let_def)
    moreover have "trav_at bs b attrs (t\<lparr>tv_attr_i := tv_attr_i t + 1\<rparr>) its"
      unfolding trav_at_def using es Nil a(3) i(3) by (intro exI [of _ "[]"]) simp
    ultimately show ?thesis using that P a(2) na by (simp add: trav_data_def same_mode_def)
  next
    case (Cons e es')
    obtain tag data where e: "e = (tag, data)" by (cases e)
    have w: "q + unat (lfs_tag_dsize tag) \<le> unat (md_off (tv_dir t))"
      "(u32_from_be (take 4 (drop q bs)) XOR tv_ptag t) AND 0x7fffffff = tag"
      "log_walk bs (q + unat (lfs_tag_dsize tag)) tag es' (unat (md_off (tv_dir t)))"
      using es(3) by (simp_all add: Cons e q_def)
    let ?T = "tag OR 0x80000000"
    let ?u = "t\<lparr>tv_off := tv_off t + lfs_tag_dsize (tv_ptag t), tv_ptag := ?T,
         tv_disk := \<lparr>do_block = b, do_off = tv_off t + lfs_tag_dsize (tv_ptag t) + 4\<rparr>\<rparr>"
    have it: "it = (?T, DiskBuf \<lparr>do_block = b, do_off = word_of_nat (q + 4)\<rparr>)"
      "its = disk_items b (q + unat (lfs_tag_dsize tag)) es' @ attr_items (drop (tv_attr_i t) attrs)"
      using es(8) by (simp_all add: Cons e q_def)
    have "q + 4 \<le> length bs" using w(1) ds(2) [of tag] es(4) by linarith
    then obtain s' where r: "lfs_bd_read None RCache 4 b q (replicate 4 0) s = Some (Val (take 4 (drop q bs)), s')" "P s'"
      using rd P unfolding src_reads_def by (metis zero_less_numeral)
    have br: "bnd (lfs_bd_read None RCache 4 b q (replicate 4 0)) k s = k (take 4 (drop q bs)) s'" for k :: "_ \<Rightarrow> ('a, 'x) fs"
      by (rule bnd_run_Val) (rule r(1))
    have lt: "tv_off t + lfs_tag_dsize (tv_ptag t) < md_off (tv_dir t)"
      using w(1) ds(2) [of tag] q by (simp add: word_less_nat_alt)
    have "trav_get_next attrs stack t s = Some (Val (Some (?T, DiskVar, ?u)), s')"
      using lt by (simp add: trav_get_next_def Let_def q es(1) br walk_step_tag [OF w(2)]) (simp add: ret_def)
    moreover have "trav_at bs b attrs ?u its"
      unfolding trav_at_def using es(1,2,4,5,7) w it(2) lt
      by (intro exI [of _ es']) (simp add: q valid_dsize walk_top_bit word_less_nat_alt)
    moreover have "word_of_nat (q + 4) = tv_off t + lfs_tag_dsize (tv_ptag t) + 4" by (simp add: q [symmetric])
    ultimately show ?thesis using that r(2) it(1) by (simp add: trav_data_def same_mode_def)
  qed
qed

lemma get_next_end:
  assumes "trav_at bs b attrs t []"
  shows "trav_get_next attrs stack t s = Some (Val None, s)"
proof -
  obtain es where es: "log_walk bs (unat (tv_off t) + unat (lfs_tag_dsize (tv_ptag t))) (tv_ptag t) es (unat (md_off (tv_dir t)))"
    "unat (md_off (tv_dir t)) \<le> length bs" "length bs < 2 ^ 30" "unat (tv_off t) \<le> unat (md_off (tv_dir t))" "\<not> tv_empty t"
    "es = []" "drop (tv_attr_i t) attrs = []"
    using assms by (auto simp: trav_at_def attr_items_def disk_items_Nil)
  have "unat (md_off (tv_dir t)) \<le> unat (tv_off t + lfs_tag_dsize (tv_ptag t))"
    using es(1-4,6) unat_4_dsize(3) [of "tv_ptag t"] by (simp add: unat_word_ariths)
  with es(5,7) show ?thesis by (simp add: trav_get_next_def word_less_nat_alt ret_def not_less)
qed

subsection \<open>Running a traversal\<close>

lemma mloop_go: "body x s = Some (Val (Inl y), t) \<Longrightarrow> mloop body x s = mloop body y t"
  by (subst mloop_unfold) simp

lemma mloop_stop: "body x s = Some (Val (Inr z), t) \<Longrightarrow> mloop body x s = Some (Val z, t)"
  by (subst mloop_unfold) simp

lemma no_shift: "tag + lfs_mktag 0 (scast (0 :: u16)) 0 = tag"
  by (simp add: lfs_mktag_def)

lemma no_shift': "tag + lfs_mktag 0 0 0 = tag"
  by (simp add: lfs_mktag_def)

text \<open>The look-ahead on behalf of the tag on the stack.\<close>

definition filtering :: "trav \<Rightarrow> bool" where
  "filtering t \<longleftrightarrow> tv_tmask t = 0 \<and> tv_ttag t = 0 \<and> tv_diff t = 0 \<and> tv_cb t = TraverseFilter 0"

lemma tag_id_0: "lfs_tag_id 0 = 0"
  by (rule bit_word_eqI) (simp add: tag_bits)

lemma filter_next:
  fixes s :: "'d lfs"
  assumes "trav_at bs b attrs t (it # its)" "P s" "src_reads P b bs" "filtering t"
  obtains buffer u s' where "trav_body attrs outer (GetNextTag, [fr], t, res, c) s = Some (Val (Inl (ProcessTag (fst it) buffer None, [fr], u, res, c)), s')"
    "P s'" "trav_at bs b attrs u its" "filtering u" "trav_data buffer u = snd it"
proof -
  obtain buffer u s' where n: "trav_get_next attrs [fr] t s = Some (Val (Some (fst it, buffer, u)), s')" "P s'"
    "trav_at bs b attrs u its" "trav_data buffer u = snd it" "same_mode t u"
    by (rule get_next_item [OF assms(1-3)])
  have f: "filtering u" using assms(4) n(5) by (simp add: filtering_def same_mode_def)
  have step: "bnd (trav_get_next attrs [fr] t) k s = k (Some (fst it, buffer, u)) s'" for k :: "_ \<Rightarrow> ('d, 'x) fs"
    by (rule bnd_run_Val) (rule n(1))
  have "trav_body attrs outer (GetNextTag, [fr], t, res, c) s = Some (Val (Inl (ProcessTag (fst it) buffer None, [fr], u, res, c)), s')"
    using f by (simp add: trav_body_def trav_next_phase_def filtering_def tag_id_0 Let_def step) (simp add: ret_def)
  with that n(2-4) f show ?thesis by blast
qed

lemma filter_process:
  assumes "filtering t" "plain_tag tag"
  shows "trav_body attrs outer (ProcessTag tag buffer None, [fr], t, res, c) s = Some (Val (Inl
     (if lfs_tag_type3 tag = LFS_FROM_NOOP then (GetNextTag, [fr], t, res, c)
      else case lfs_dir_traverse_filter (fr_tag fr) tag of (r, ft) \<Rightarrow>
        if r = 0 then (GetNextTag, [fr\<lparr>fr_tag := ft\<rparr>], t, r, c) else (PopAndProcess, [fr\<lparr>fr_tag := ft\<rparr>], t, r, c))), s)"
  using assms
  by (auto simp: trav_body_def trav_process_def filtering_def plain_tag_def tag_id_0 Let_def dispatch_tag_def no_shift no_shift' trav_after_def
      ret_def bnd_def split: prod.splits)

lemma filter_run:
  fixes s :: "'d lfs"
  assumes "trav_at bs b attrs t its" "P s" "src_reads P b bs" "filtering t" "list_all (\<lambda>it. plain_tag (fst it)) its"
  shows "\<exists>t' res' s'. P s' \<and> mloop (trav_body attrs outer) (GetNextTag, [fr], t, res, c) s
    = mloop (trav_body attrs outer) (PopAndProcess, [fr\<lparr>fr_tag := survive (fr_tag fr) (map fst its)\<rparr>], t', res', c) s'"
  using assms
proof (induction its arbitrary: t s fr res)
  case Nil
  have step: "bnd (trav_get_next attrs [fr] t) k s = k None s" for k :: "_ \<Rightarrow> ('d, 'x) fs"
    by (rule bnd_run_Val) (rule get_next_end [OF Nil.prems(1)])
  have "trav_body attrs outer (GetNextTag, [fr], t, res, c) s = Some (Val (Inl (PopAndProcess, [fr], t, 0, c)), s)"
    by (simp add: trav_body_def trav_next_phase_def step) (simp add: ret_def)
  from mloop_go [where body="trav_body attrs outer", OF this] Nil.prems(2) show ?case by auto
next
  case (Cons it its)
  obtain buffer u s1 where n: "trav_body attrs outer (GetNextTag, [fr], t, res, c) s = Some (Val (Inl (ProcessTag (fst it) buffer None, [fr], u, res, c)), s1)"
    "P s1" "trav_at bs b attrs u its" "filtering u"
    by (rule filter_next [OF Cons.prems(1-4)])
  note go = mloop_go [where body="trav_body attrs outer", OF n(1)]
  have plain: "plain_tag (fst it)" "list_all (\<lambda>it. plain_tag (fst it)) its" using Cons.prems(5) by simp_all
  note step = mloop_go [where body="trav_body attrs outer", OF filter_process [OF n(4) plain(1)]]
  note IH = Cons.IH [OF n(3,2) Cons.prems(3) n(4) plain(2)]
  show ?case
  proof (cases "lfs_tag_type3 (fst it) = LFS_FROM_NOOP")
    case True
    with IH [of fr res] go step show ?thesis by simp
  next
    case False
    obtain r ft where f: "lfs_dir_traverse_filter (fr_tag fr) (fst it) = (r, ft)" by (metis prod.exhaust)
    show ?thesis
    proof (cases "r = 0")
      case True
      with IH [of "fr\<lparr>fr_tag := ft\<rparr>" 0] go step False f show ?thesis by simp
    next
      case r: False
      with go step False f n(2) show ?thesis by auto
    qed
  qed
qed

text \<open>The whole traversal: the callback gets what is kept, one after the other.\<close>

definition cb_runs ::
  "(item list \<Rightarrow> 'd lfs \<Rightarrow> bool) \<Rightarrow> (u32 \<Rightarrow> attr_buf \<Rightarrow> 'c \<Rightarrow> ('d, int \<times> 'c) fs) \<Rightarrow> (item list \<Rightarrow> 'c) \<Rightarrow> item list \<Rightarrow> bool" where
  "cb_runs P outer F its \<longleftrightarrow> (\<forall>dn it rest s. its = dn @ it # rest \<longrightarrow> P dn s \<longrightarrow>
     (\<exists>t. outer (fst it) (snd it) (F dn) s = Some (Val (0, F (dn @ [it])), t) \<and> P (dn @ [it]) t))"

lemma plain_items_tags: "plain_items tmask its \<Longrightarrow> list_all (\<lambda>it. plain_tag (fst it)) its"
  by (induction tmask its rule: plain_items.induct) auto

text \<open>An item that has come through the filter is handed to the callback, or dropped.\<close>

lemma outer_process:
  fixes s :: "'d lfs"
  assumes cb: "tv_cb t = Outer" and plain: "plain_tag tag"
    and data: "(case ov of Some d \<Rightarrow> DiskBuf d | None \<Rightarrow> trav_data buffer t) = buf"
    and run: "\<not> trav_out (tv_tmask t) (tv_begin t) (tv_end t) tag \<Longrightarrow>
      outer (tag + lfs_mktag 0 (scast (tv_diff t)) 0) buf c s = Some (Val (0, c'), s')"
  shows "\<exists>res'. trav_body attrs outer (ProcessTag tag buffer ov, [], t, res, c) s =
    (if trav_out (tv_tmask t) (tv_begin t) (tv_end t) tag then Some (Val (Inl (GetNextTag, [], t, res, c)), s)
     else Some (Val (Inl (GetNextTag, [], t, 0, c')), s'))"
proof (cases "trav_out (tv_tmask t) (tv_begin t) (tv_end t) tag")
  case True
  then show ?thesis by (auto simp: trav_body_def trav_process_def trav_out_def Let_def ret_def)
next
  case False
  then have o: "\<not> (lfs_tag_id (tv_tmask t) \<noteq> 0 \<and> \<not> (lfs_tag_id tag \<ge> tv_begin t \<and> lfs_tag_id tag < tv_end t))"
      "lfs_tag_type3 tag \<noteq> LFS_FROM_NOOP" by (auto simp: trav_out_def)
  have p: "lfs_tag_type3 tag \<noteq> LFS_FROM_MOVE" "lfs_tag_type3 tag \<noteq> LFS_FROM_USERATTRS" using plain by (auto simp: plain_tag_def)
  have d: "(case ov of Some d \<Rightarrow> DiskBuf d | None \<Rightarrow> case buffer of AttrBuffer b \<Rightarrow> b | DiskVar \<Rightarrow> DiskBuf (tv_disk t)) = buf"
    using data by (simp add: trav_data_def cong: option.case_cong)
  have step: "bnd (outer (tag + lfs_mktag 0 (scast (tv_diff t)) 0) buf c) k s = k (0, c') s'" for k :: "_ \<Rightarrow> ('d, 'x) fs"
    by (rule bnd_run_Val) (rule run [OF False])
  show ?thesis
    using False o(2) p cb unfolding trav_body_def trav_process_def prod.case phase.case if_not_P [OF o(1)] Let_def
    by (simp add: dispatch_tag_def Let_def d bnd_assoc trav_after_def step) (simp add: ret_def)
qed


lemma pop_process:
  "trav_body attrs outer (PopAndProcess, [\<lparr>fr_trav = u, fr_tag = tag, fr_buffer = buffer\<rparr>], t, res, c) s =
    Some (Val (Inl (ProcessTag tag buffer (if \<not> lfs_tag_isvalid tag then Some (tv_disk u) else None), [], u, res, c)), s)"
  by (simp add: trav_body_def trav_pop_def ret_def Let_def)

text \<open>From one item to the next: the callback has run on it, or it was left out.\<close>

lemma outer_item:
  fixes s :: "'d lfs"
  assumes at: "trav_at bs b attrs t (it # its)" and P: "P s" and rd: "src_reads P b bs" and cb: "tv_cb t = Outer"
    and plain: "plain_items (tv_tmask t) (it # its)"
  defines "ft \<equiv> trav_final (tv_tmask t) (fst it) (map fst its)"
  assumes run: "\<And>s. P s \<Longrightarrow> trav_match (tv_tmask t) (tv_ttag t) (fst it) \<Longrightarrow> \<not> trav_out (tv_tmask t) (tv_begin t) (tv_end t) ft \<Longrightarrow>
      \<exists>u. outer (ft + lfs_mktag 0 (scast (tv_diff t)) 0) (snd it) c s = Some (Val (0, c'), u) \<and> Q u"
  obtains u res' s' where "trav_at bs b attrs u its" "same_mode t u"
    "mloop (trav_body attrs outer) (GetNextTag, [], t, res, c) s = mloop (trav_body attrs outer)
       (GetNextTag, [], u, res', if trav_match (tv_tmask t) (tv_ttag t) (fst it) \<and> \<not> trav_out (tv_tmask t) (tv_begin t) (tv_end t) ft then c' else c) s'"
    "if trav_match (tv_tmask t) (tv_ttag t) (fst it) \<and> \<not> trav_out (tv_tmask t) (tv_begin t) (tv_end t) ft then Q s' else P s'"
proof -
  obtain buffer u s1 where n: "trav_get_next attrs [] t s = Some (Val (Some (fst it, buffer, u)), s1)" "P s1"
    "trav_at bs b attrs u its" "trav_data buffer u = snd it" "same_mode t u" "buffer = DiskVar \<or> \<not> is_disk (snd it)"
    by (rule get_next_item [OF at P rd])
  have step: "bnd (trav_get_next attrs [] t) k s = k (Some (fst it, buffer, u)) s1" for k :: "_ \<Rightarrow> ('d, 'x) fs"
    by (rule bnd_run_Val) (rule n(1))
  have mode: "tv_tmask u = tv_tmask t" "tv_ttag u = tv_ttag t" "tv_begin u = tv_begin t" "tv_end u = tv_end t"
    "tv_diff u = tv_diff t" "tv_cb u = Outer"
    using n(5) cb by (auto simp: same_mode_def)
  have pft: "plain_tag ft" "is_disk (snd it) \<or> lfs_tag_isvalid ft"
    using plain by (cases it; simp add: ft_def)+
  have tags: "list_all (\<lambda>it. plain_tag (fst it)) its" using plain_items_tags [OF plain] by simp
  have go: "mloop (trav_body attrs outer) (GetNextTag, [], t, res, c) s = mloop (trav_body attrs outer) (GetNextTag, [], u, res, c) s1"
    if "\<not> trav_match (tv_tmask t) (tv_ttag t) (fst it)"
    using that by (intro mloop_go) (simp add: trav_body_def trav_next_phase_def step Let_def mode trav_match_def, simp add: ret_def)
  have reach: "\<exists>ov res' s2. P s2 \<and> (case ov of Some d \<Rightarrow> DiskBuf d | None \<Rightarrow> trav_data buffer u) = snd it \<and>
     mloop (trav_body attrs outer) (GetNextTag, [], t, res, c) s = mloop (trav_body attrs outer) (ProcessTag ft buffer ov, [], u, res', c) s2"
    if m: "trav_match (tv_tmask t) (tv_ttag t) (fst it)"
  proof (cases "lfs_tag_id (tv_tmask t) = 0")
    case True
    then have "trav_body attrs outer (GetNextTag, [], t, res, c) s = Some (Val (Inl (ProcessTag ft buffer None, [], u, res, c)), s1)"
      using m by (simp add: trav_body_def trav_next_phase_def step Let_def mode trav_match_def ft_def trav_final_def) (simp add: ret_def)
    from mloop_go [where body="trav_body attrs outer", OF this] n(2,4) show ?thesis
      by (intro exI [of _ None] exI [of _ res] exI [of _ s1]) simp
  next
    case False
    let ?fr = "\<lparr>fr_trav = u, fr_tag = fst it, fr_buffer = buffer\<rparr>"
    let ?u = "u\<lparr>tv_tmask := 0, tv_ttag := 0, tv_begin := 0, tv_end := 0, tv_diff := 0, tv_cb := TraverseFilter 0\<rparr>"
    have "trav_body attrs outer (GetNextTag, [], t, res, c) s = Some (Val (Inl (GetNextTag, [?fr], ?u, res, c)), s1)"
      using False m by (simp add: trav_body_def trav_next_phase_def step Let_def mode trav_match_def push_frame_def LFS_DIR_TRAVERSE_DEPTH_def)
        (simp add: ret_def)
    note go = mloop_go [where body="trav_body attrs outer", OF this]
    have "trav_at bs b attrs ?u its" using n(3) by (simp add: trav_at_def)
    then obtain t' res' s2 where f: "P s2" "mloop (trav_body attrs outer) (GetNextTag, [?fr], ?u, res, c) s1
      = mloop (trav_body attrs outer) (PopAndProcess, [?fr\<lparr>fr_tag := survive (fr_tag ?fr) (map fst its)\<rparr>], t', res', c) s2"
      using filter_run [where P=P, OF _ n(2) rd _ tags, of attrs ?u outer ?fr res c] by (auto simp: filtering_def)
    have fr: "?fr\<lparr>fr_tag := survive (fr_tag ?fr) (map fst its)\<rparr> = \<lparr>fr_trav = u, fr_tag = ft, fr_buffer = buffer\<rparr>"
      using False by (simp add: ft_def trav_final_def)
    note pop = mloop_go [where body="trav_body attrs outer", OF pop_process]
    have "lfs_tag_isvalid ft \<or> DiskBuf (tv_disk u) = snd it"
      using pft(2) n(4,6) by (auto simp: trav_data_def is_disk_iff)
    then show ?thesis using go f n(4)
      unfolding fr pop
      by (intro exI [of _ "if \<not> lfs_tag_isvalid ft then Some (tv_disk u) else None"] exI [of _ res'] exI [of _ s2]) auto
  qed
  show ?thesis
  proof (cases "trav_match (tv_tmask t) (tv_ttag t) (fst it)")
    case False
    with go n(2,3,5) show ?thesis by (intro that [of u res s1]) auto
  next
    case m: True
    obtain ov res2 s2 where r: "P s2" "(case ov of Some d \<Rightarrow> DiskBuf d | None \<Rightarrow> trav_data buffer u) = snd it"
      "mloop (trav_body attrs outer) (GetNextTag, [], t, res, c) s = mloop (trav_body attrs outer) (ProcessTag ft buffer ov, [], u, res2, c) s2"
      using reach [OF m] by blast
    show ?thesis
    proof (cases "trav_out (tv_tmask t) (tv_begin t) (tv_end t) ft")
      case True
      then have "trav_body attrs outer (ProcessTag ft buffer ov, [], u, res2, c) s2 = Some (Val (Inl (GetNextTag, [], u, res2, c)), s2)"
        using mode by (auto simp: trav_body_def trav_process_def trav_out_def Let_def ret_def)
      from mloop_go [where body="trav_body attrs outer", OF this] r True n(3,5) show ?thesis
        by (intro that [of u res2 s2]) auto
    next
      case False
      obtain s3 where o3: "outer (ft + lfs_mktag 0 (scast (tv_diff t)) 0) (snd it) c s2 = Some (Val (0, c'), s3)" "Q s3"
        using run [OF r(1) m False] by blast
      have "trav_body attrs outer (ProcessTag ft buffer ov, [], u, res2, c) s2 = Some (Val (Inl (GetNextTag, [], u, 0, c')), s3)"
        using outer_process [OF mode(6) pft(1) r(2), of outer c s2 c' s3 attrs res2] o3(1) False mode by simp
      from mloop_go [where body="trav_body attrs outer", OF this] r False m n(3,5) o3(2) show ?thesis
        by (intro that [of u 0 s3]) auto
    qed
  qed
qed

lemma traverse_run:
  fixes s :: "'d lfs"
  assumes "trav_at bs b attrs t its" "P dn s" "\<And>dn. src_reads (P dn) b bs" "tv_cb t = Outer" "plain_items (tv_tmask t) its"
    and "cb_runs P outer F (dn @ kept (tv_tmask t) (tv_ttag t) (tv_begin t) (tv_end t) (tv_diff t) its)"
  shows "\<exists>u. mloop (trav_body attrs outer) (GetNextTag, [], t, res, F dn) s
      = Some (Val (0, F (dn @ kept (tv_tmask t) (tv_ttag t) (tv_begin t) (tv_end t) (tv_diff t) its)), u)
    \<and> P (dn @ kept (tv_tmask t) (tv_ttag t) (tv_begin t) (tv_end t) (tv_diff t) its) u"
  using assms
proof (induction its arbitrary: t s res dn)
  case Nil
  have step: "bnd (trav_get_next attrs [] t) k s = k None s" for k :: "_ \<Rightarrow> ('d, 'x) fs"
    by (rule bnd_run_Val) (rule get_next_end [OF Nil.prems(1)])
  have "trav_body attrs outer (GetNextTag, [], t, res, F dn) s = Some (Val (Inr (0, F dn)), s)"
    by (simp add: trav_body_def trav_next_phase_def step) (simp add: ret_def)
  from mloop_stop [where body="trav_body attrs outer", OF this] Nil.prems(2) show ?case by simp
next
  case (Cons it its)
  let ?k = "kept (tv_tmask t) (tv_ttag t) (tv_begin t) (tv_end t) (tv_diff t)"
  let ?ft = "trav_final (tv_tmask t) (fst it) (map fst its)"
  let ?it = "(?ft + lfs_mktag 0 (scast (tv_diff t)) 0, snd it)"
  let ?keep = "trav_match (tv_tmask t) (tv_ttag t) (fst it) \<and> \<not> trav_out (tv_tmask t) (tv_begin t) (tv_end t) ?ft"
  let ?dn = "if ?keep then dn @ [?it] else dn"
  have k: "?k (it # its) = (if ?keep then ?it # ?k its else ?k its)" by (cases it) (simp add: Let_def)
  have run: "\<exists>u. outer (?ft + lfs_mktag 0 (scast (tv_diff t)) 0) (snd it) (F dn) s = Some (Val (0, F (dn @ [?it])), u) \<and> P (dn @ [?it]) u"
    if "P dn s" "trav_match (tv_tmask t) (tv_ttag t) (fst it)" "\<not> trav_out (tv_tmask t) (tv_begin t) (tv_end t) ?ft" for s
    using Cons.prems(6) that unfolding cb_runs_def k by simp
  obtain u res' s' where u: "trav_at bs b attrs u its" "same_mode t u"
    "mloop (trav_body attrs outer) (GetNextTag, [], t, res, F dn) s = mloop (trav_body attrs outer)
       (GetNextTag, [], u, res', if ?keep then F (dn @ [?it]) else F dn) s'"
    "if ?keep then P (dn @ [?it]) s' else P dn s'"
    by (rule outer_item [where P="P dn" and Q="P (dn @ [?it])" and outer=outer and c="F dn" and c'="F (dn @ [?it])" and res=res,
        OF Cons.prems(1-5) run])
  have mode: "tv_tmask u = tv_tmask t" "tv_ttag u = tv_ttag t" "tv_begin u = tv_begin t" "tv_end u = tv_end t"
    "tv_diff u = tv_diff t" "tv_cb u = Outer"
    using u(2) Cons.prems(4) by (auto simp: same_mode_def)
  have P: "P ?dn s'" using u(4) by simp
  have dn: "?dn @ ?k its = dn @ ?k (it # its)" unfolding k by simp
  have plain: "plain_items (tv_tmask u) its" using Cons.prems(5) mode by (cases it) simp
  from Cons.IH [OF u(1) P Cons.prems(3) mode(6) plain, unfolded mode dn, OF Cons.prems(6), of res'] u(3)
  show ?case by (simp add: if_distrib [of F])
qed


text \<open>The start of a traversal, at the front of the log or behind it.\<close>

definition trav_items :: "lfs_mdir \<Rightarrow> u32 \<Rightarrow> u32 \<Rightarrow> log_entry list \<Rightarrow> lfs_mattr list \<Rightarrow> item list" where
  "trav_items dir off ptag es attrs = disk_items (fst (md_pair dir)) (unat off + unat (lfs_tag_dsize ptag)) es @ attr_items attrs"

definition trav_source :: "bytes \<Rightarrow> lfs_mdir \<Rightarrow> u32 \<Rightarrow> u32 \<Rightarrow> log_entry list \<Rightarrow> lfs_mattr list \<Rightarrow> bool" where
  "trav_source bs dir off ptag es attrs \<longleftrightarrow> log_walk bs (unat off + unat (lfs_tag_dsize ptag)) ptag es (unat (md_off dir))
     \<and> unat off \<le> unat (md_off dir) \<and> unat (md_off dir) \<le> length bs \<and> length bs < 2 ^ 30
     \<and> list_all (\<lambda>a. \<not> is_disk (ma_buf a)) attrs"

lemma traverse_kept:
  fixes s :: "'d lfs"
  assumes src: "trav_source bs dir off ptag es attrs" and P: "P [] s" "\<And>dn. src_reads (P dn) (fst (md_pair dir)) bs"
    and plain: "plain_items tmask (trav_items dir off ptag es attrs)"
    and its: "its = kept tmask ttag begn en diff (trav_items dir off ptag es attrs)" and cb: "cb_runs P outer F its"
  shows "\<exists>u. lfs_dir_traverse dir off ptag attrs tmask ttag begn en diff outer (F []) s = Some (Val (0, F its), u) \<and> P its u"
proof -
  let ?t = "\<lparr>tv_dir = dir, tv_off = off, tv_ptag = ptag, tv_attr_i = 0, tv_empty = False, tv_tmask = tmask, tv_ttag = ttag,
     tv_begin = begn, tv_end = en, tv_diff = diff, tv_cb = Outer, tv_disk = \<lparr>do_block = 0, do_off = 0\<rparr>\<rparr>"
  have at: "trav_at bs (fst (md_pair dir)) attrs ?t (trav_items dir off ptag es attrs)"
    unfolding trav_at_def using src by (intro exI [of _ es]) (simp add: trav_source_def trav_items_def)
  from traverse_run [where P=P, OF at P, of outer F 0] plain cb show ?thesis
    by (simp add: lfs_dir_traverse_def its)
qed

context block_device
begin

lemma rd_src_reads: "rd cfg d a s \<Longrightarrow> unat b < bcount \<Longrightarrow> src_reads (rd cfg d a) b (blk d b)"
  unfolding src_reads_def
proof (intro allI impI)
  fix u :: "'d lfs" and off n
  assume b: "unat b < bcount" and u: "rd cfg d a u" and n: "0 < n" "off + n \<le> length (blk d b)"
  have len: "length (blk d b) = bsz" and small: "bsz < 2 ^ 30" and v: "view None u b = blk d b"
    using blk_length [OF _ b, of d] u by (auto simp: rd_state_def attached_to_def view_of_def overlay_def pcached_def)
  show "\<exists>t. lfs_bd_read None RCache n b off (replicate n 0) u = Some (Val (take n (drop off (blk d b))), t) \<and> rd cfg d a t"
    by (rule bd_read_reloaded [OF rd_read_ready [OF u b], of n off "replicate n 0"]) (use n len small v rd_reloaded [OF u] in auto)
qed

end

lemma pure_cb_runs:
  "cb_runs (\<lambda>_. I) (\<lambda>tag buf c. ret (0, f tag buf c)) (\<lambda>dn. fold (\<lambda>it. f (fst it) (snd it)) dn c) its"
  by (simp add: cb_runs_def ret_def)

subsection \<open>The property\<close>

text \<open>C6 (equivalence). The traversal of a log is a filter on the list of its entries.  On any device, over a log
  that holds the entries \<open>es\<close> and the attributes that are to be written behind it, each carrying its own
  data, the traversal with
  its stack of frames and three phases returns, and has called its callback exactly on the entries
  that the reference \<open>kept\<close> keeps, in order and with their ids moved by \<open>diff\<close>: those that match the
  mask, that no later entry replaces or deletes, with ids shifted by later insertions and deletions,
  in the range asked for.  Not covered are the two attributes that stand for others: \<open>FROM_MOVE\<close>, which
  copies an entry of another pair (the nested traversal of a rename, which alone stacks a second frame), and \<open>FROM_USERATTRS\<close>, the user attributes a file is synchronised with; \<open>plain_items\<close> excludes both.\<close>

theorem traverse_is_filter:
  assumes "block_device st dok blk bsz bcount" and "rd_state st dok blk bsz bcount cfg d a s" "unat (fst (md_pair dir)) < bcount"
    and "trav_source (blk d (fst (md_pair dir))) dir off ptag es attrs" "plain_items tmask (trav_items dir off ptag es attrs)"
  shows "\<exists>t. lfs_dir_traverse dir off ptag attrs tmask ttag begn en diff (\<lambda>tag buf c. ret (0, f tag buf c)) c s
      = Some (Val (0, fold (\<lambda>it. f (fst it) (snd it)) (kept tmask ttag begn en diff (trav_items dir off ptag es attrs)) c), t)
    \<and> rd_state st dok blk bsz bcount cfg d a t"
  using traverse_kept [where P = "\<lambda>_. rd_state st dok blk bsz bcount cfg d a", OF assms(4,2)
      block_device.rd_src_reads [OF assms(1-3)] assms(5) refl pure_cb_runs [of _ f c]]
  by simp

text \<open>
  A log with a file, over which its contents are replaced and a second file is put before it: the
  traversal that a compaction makes keeps the new file, the old name under the new id, and the new contents.
\<close>

definition demo_trav_dir :: lfs_mdir where
  "demo_trav_dir = mdir_zero\<lparr>md_pair := (0, 1), md_off := 15\<rparr>"

definition demo_trav_attrs :: "lfs_mattr list" where
  "demo_trav_attrs = [\<lparr>ma_tag = lfs_mktag LFS_TYPE_INLINESTRUCT 0 1, ma_buf = Bytes [5]\<rparr>,
     \<lparr>ma_tag = lfs_mktag LFS_TYPE_CREATE 0 0, ma_buf = Bytes []\<rparr>, \<lparr>ma_tag = lfs_mktag 0x001 0 1, ma_buf = Bytes [98]\<rparr>]"

lemma demo_trav_source: "trav_source (ram_blk 128 demo_torn_dev 0) demo_trav_dir 0 0xffffffff demo_entries demo_trav_attrs"
proof -
  have sized: "list_all sized demo_entries" by code_simp
  have fin: "log_walk (u32_to_le 1 @ entries_bytes 0xffffffff demo_entries @ r) 15 (last_tag 0xffffffff demo_entries) [] 15" for r
    by simp
  have "log_walk (u32_to_le 1 @ entries_bytes 0xffffffff demo_entries @ r) 4 0xffffffff (demo_entries @ []) 15" for r
    by (rule log_walk_entries [OF sized]) (simp_all add: demo_torn_lengths fin)
  moreover have "unat (lfs_tag_dsize 0xffffffff) = 4" by code_simp
  moreover have "list_all (\<lambda>a. \<not> is_disk (ma_buf a)) demo_trav_attrs" by code_simp
  ultimately show ?thesis
    unfolding trav_source_def demo_torn_blocks
    by (simp add: demo_trav_dir_def demo_commit_def commit_bytes_def Let_def demo_torn_lengths)
qed

lemma demo_trav_plain: "plain_items (lfs_mktag 0x400 0x3ff 0) (trav_items demo_trav_dir 0 0xffffffff demo_entries demo_trav_attrs)"
  by code_simp

lemma demo_trav_kept:
  "kept (lfs_mktag 0x400 0x3ff 0) (lfs_mktag LFS_TYPE_NAME 0 0) 0 2 0 (trav_items demo_trav_dir 0 0xffffffff demo_entries demo_trav_attrs)
   = [(0x80100401, DiskBuf \<lparr>do_block = 0, do_off = 8\<rparr>), (0x20100401, Bytes [5]), (0x00100001, Bytes [98])]"
  by code_simp

theorem traverse_is_filter_witness:
  "\<exists>t. lfs_dir_traverse demo_trav_dir 0 0xffffffff demo_trav_attrs (lfs_mktag 0x400 0x3ff 0) (lfs_mktag LFS_TYPE_NAME 0 0) 0 2 0
       (\<lambda>tag buf c. ret (0, c @ [(tag, buf)])) [] ((demo_state demo_torn_dev)\<lparr>l_nodes := [7 \<mapsto> node_default]\<rparr>)
     = Some (Val (0, [(0x80100401, DiskBuf \<lparr>do_block = 0, do_off = 8\<rparr>), (0x20100401, Bytes [5]), (0x00100001, Bytes [98])]), t)
    \<and> rd_state (ram_driver 128) (ram_wf 128 4) (ram_blk 128) 128 4 demo_config demo_torn_dev 7 t"
proof -
  have p: "fst (md_pair demo_trav_dir) = 0" by (simp add: demo_trav_dir_def)
  from traverse_is_filter [OF demo_device demo_rd_state [OF demo_torn_wf], of demo_trav_dir 0 "0xffffffff" demo_entries demo_trav_attrs,
      unfolded p, OF _ demo_trav_source demo_trav_plain, of "lfs_mktag LFS_TYPE_NAME 0 0" 0 2 0 "\<lambda>tag buf c. c @ [(tag, buf)]" "[]"]
  show ?thesis unfolding demo_trav_kept by simp
qed

end
