(* ===== verification/WriteItems.thy ===== *)
theory WriteItems
  imports Traversal
begin

text \<open>
  Writing what a traversal keeps.  The callback \<open>lfs_dir_commit_commit\<close> appends the entries it is
  given to the log being written, those that are elsewhere on the device byte by byte; and lookups in a
  fetched directory, before and meanwhile, find what its log holds.
\<close>

subsection \<open>What writing leaves alone\<close>

definition meta_frame :: "'d lfs \<Rightarrow> 'd lfs \<Rightarrow> bool" where
  "meta_frame s t \<longleftrightarrow> l_nodes t = l_nodes s \<and> l_next_node t = l_next_node s \<and> l_mlist t = l_mlist s \<and> l_root t = l_root s
    \<and> l_gstate t = l_gstate s \<and> l_gdisk t = l_gdisk s \<and> l_gdelta t = l_gdelta s \<and> l_lookahead t = l_lookahead s
    \<and> l_cfg t = l_cfg s \<and> l_block_count t = l_block_count s \<and> l_seed t = l_seed s"

interpretation mf: frame_rel meta_frame
  by unfold_locales (auto simp: meta_frame_def)

named_theorems meta_intros \<open>operations that keep \<open>meta_frame\<close>\<close>

lemma mf_basic [meta_intros]:
  "keeps meta_frame (get_buf b)" "keeps meta_frame (put_buf b bs)" "keeps meta_frame (get_cache r)"
  "keeps meta_frame (upd_cache RCache f)" "keeps meta_frame (upd_cache PCache f)" "keeps meta_frame (aligndown_m x n)"
  "keeps meta_frame (alignup_m x n)"
  by (auto simp: keeps_def meta_frame_def get_buf_def put_buf_def get_cache_def upd_cache_def get_node_def aligndown_m_def
      alignup_m_def check_def run_simps bnd_def split: cache_ref.splits option.splits if_splits)

lemma mf_dev [meta_intros]:
  "keeps meta_frame (dev_read block off buf)" "keeps meta_frame (dev_write block off buf)"
  "keeps meta_frame (dev_erase block)" "keeps meta_frame dev_sync"
  by (rule keepsI; auto simp: dev_read_def dev_write_def dev_erase_def dev_sync_def lift_res_def meta_frame_def ret_def throw_def
      split: prod.splits sum.splits)+

lemma mf_reads [meta_intros]:
  "keeps meta_frame (lfs_bd_read_buf p RCache hint block off buf)"
  "keeps meta_frame (lfs_bd_read p RCache hint block off buf)"
  "keeps meta_frame (lfs_bd_crc_buf p RCache hint' block off sz crc)"
  "keeps meta_frame (lfs_bd_crc p RCache hint' block off sz crc)"
  "keeps meta_frame (lfs_bd_cmp p RCache hint block off bs)"
  unfolding lfs_bd_crc_def lfs_bd_crc_buf_def lfs_bd_crc_body_def lfs_bd_cmp_def lfs_bd_cmp_body_def lfs_bd_read_def
    lfs_bd_read_buf_def lfs_bd_read_body_def bd_refill_def cache_copy_def probe_opt_def
  by (intro mf.k_intros meta_intros keeps_case_probe keeps_case_ordering)+

lemma mf_progs [meta_intros]:
  "keeps meta_frame (lfs_bd_flush PCache RCache v)" "keeps meta_frame (lfs_bd_sync PCache RCache v)"
  "keeps meta_frame (lfs_bd_prog PCache RCache v block off bs)" "keeps meta_frame (lfs_bd_erase block)"
  unfolding lfs_bd_prog_def lfs_bd_prog_body_def lfs_bd_sync_def lfs_bd_flush_def lfs_bd_erase_def lfs_cache_drop_def lfs_cache_zero_def
  by (intro mf.k_intros meta_intros)+

lemma keeps_case_attr_buf [keeps_intros]:
  "(\<And>x. keeps R (a x)) \<Longrightarrow> (\<And>x. keeps R (b x)) \<Longrightarrow> (\<And>x. keeps R (c x)) \<Longrightarrow> (\<And>x. keeps R (d x)) \<Longrightarrow>
    keeps R (case z of Bytes x \<Rightarrow> a x | DiskBuf x \<Rightarrow> b x | MdirBuf x \<Rightarrow> c x | AttrsBuf x \<Rightarrow> d x)"
  by (cases z) simp_all

lemma mf_commit [meta_intros]:
  "keeps meta_frame (lfs_dir_commitprog cm bs)" "keeps meta_frame (lfs_dir_commitattr cm tag buf)"
  "keeps meta_frame (lfs_dir_commitcrc cm)"
  unfolding lfs_dir_commitcrc_def commitcrc_body_def commit_fcrc_def lfs_dir_commitattr_def commit_copy_body_def lfs_dir_commitprog_def
  by (intro mf.k_intros meta_intros)+

subsection \<open>What lookups find in a fetched directory\<close>

text \<open>The log from the end is the log from the front, backwards.\<close>

lemma log_rep_walk:
  "log_walk bs q p es en \<Longrightarrow> q \<le> en \<Longrightarrow> log_rep bs q (p AND 0x7fffffff) ds \<Longrightarrow>
    log_rep bs en (last_tag (p AND 0x7fffffff) es) (rev es @ ds)"
proof (induction bs q p es en arbitrary: ds rule: log_walk.induct)
  case (2 bs q p tag data es en)
  let ?n = "unat (lfs_tag_dsize tag)"
  let ?raw = "u32_from_be (take 4 (drop q bs))"
  have w: "lfs_tag_isvalid tag" "q + ?n \<le> en" "length data = ?n - 4" "take (length data) (drop (q + 4) bs) = data"
    "(?raw XOR p) AND 0x7fffffff = tag" "log_walk bs (q + ?n) tag es en" using 2(2) by auto
  have ds: "4 \<le> ?n" by (rule unat_4_dsize)
  have "(?raw XOR tag) AND 0x7fffffff = p AND 0x7fffffff"
    unfolding w(5) [symmetric] by (rule bit_word_eqI) (auto simp: bit_and_iff bit_xor_iff simp del: bit_numeral_word_iff)
  then have "log_rep bs (q + ?n) tag ((tag, data) # ds)"
    using w ds 2(4) log_rep_end [OF 2(4)] by simp
  with 2(1) [OF w(6,2)] valid_tag_and [OF w(1)] show ?case by (simp del: log_rep.simps)
qed simp

lemma last_tag_flat:
  "list_all wf_commit cs \<Longrightarrow> cs \<noteq> [] \<Longrightarrow> last_tag q (flat_log p crc cs) = end_tag p cs AND 0x7fffffff"
proof (induction cs arbitrary: q p crc)
  case (Cons c cs)
  obtain es ctag pad where c: "c = (es, ctag, pad)" by (cases c)
  have "lfs_tag_isvalid ctag" using Cons.prems(1) by (simp add: c wf_commit_def)
  then show ?case
    using Cons by (cases "cs = []") (simp_all add: c last_tag_append next_tag_low valid_tag_and)
qed simp

text \<open>A directory with the log \<open>les\<close>, or one that has just been allocated.\<close>

definition dir_log :: "bytes \<Rightarrow> lfs_mdir \<Rightarrow> log_entry list \<Rightarrow> bool" where
  "dir_log bs dir les \<longleftrightarrow> log_rep bs (unat (md_off dir)) (md_etag dir) les \<or> md_off dir = 4 \<and> les = []"

lemma fetched_dir_log:
  assumes "block_log bs rv cs r" "mdir_holds p rv cs m" "lfs_tag_isvalid (md_etag m)" "cs \<noteq> []"
  shows "dir_log bs m (rev (log_entries rv cs))"
proof -
  note w = block_log_walk [OF assms(1)]
  have wf: "list_all wf_commit cs" using assms(1) by (simp add: block_log_def Let_def)
  have m: "unat (md_off m) = length (log_head rv cs)" "md_etag m = end_tag 0xffffffff cs"
    using assms(2) by (simp_all add: mdir_holds_def log_head_def)
  have "log_rep bs 4 (0xffffffff AND 0x7fffffff) []" by simp
  moreover have "4 \<le> length (log_head rv cs)" by (simp add: log_head_def)
  ultimately have "log_rep bs (length (log_head rv cs)) (last_tag (0xffffffff AND 0x7fffffff) (log_entries rv cs)) (rev (log_entries rv cs) @ [])"
    by (intro log_rep_walk [OF w(1)])
  moreover have "last_tag (0xffffffff AND 0x7fffffff) (log_entries rv cs) = md_etag m"
    unfolding log_entries_def last_tag_flat [OF wf assms(4)] m(2) [symmetric] by (rule valid_tag_and [OF assms(3)])
  ultimately show ?thesis by (simp add: dir_log_def m(1))
qed

text \<open>The global state with the part that is stored in the log.\<close>

definition with_stored :: "log_entry list \<Rightarrow> lfs_gstate \<Rightarrow> lfs_gstate" where
  "with_stored les g = (case log_find (lfs_mktag 0x7ff 0 0) (lfs_mktag LFS_TYPE_MOVESTATE 0 12) 0 les of
      Inl _ \<Rightarrow> g
    | Inr (_, data) \<Rightarrow> lfs_gstate_xor g (lfs_gstate_fromle32 (filled (replicate 12 0) data)))"

subsection \<open>Writing entries from elsewhere on the device\<close>

text \<open>The entry an item is written as, when the block it comes from holds the bytes \<open>bs\<close>.\<close>

definition item_entry :: "bytes \<Rightarrow> item \<Rightarrow> log_entry" where
  "item_entry bs it = (fst it AND 0x7fffffff,
    take (unat (lfs_tag_dsize (fst it)) - 4) (case snd it of Bytes dat \<Rightarrow> dat | DiskBuf d \<Rightarrow> drop (unat (do_off d)) bs | _ \<Rightarrow> []))"

definition item_ok :: "u32 \<Rightarrow> nat \<Rightarrow> item \<Rightarrow> bool" where
  "item_ok x len it \<longleftrightarrow> (case snd it of
      Bytes dat \<Rightarrow> lfs_tag_isvalid (fst it) \<and> unat (lfs_tag_dsize (fst it)) \<le> length dat + 4
    | DiskBuf d \<Rightarrow> \<not> lfs_tag_isvalid (fst it) \<and> do_block d = x \<and> unat (do_off d) + unat (lfs_tag_dsize (fst it)) \<le> len + 4
    | _ \<Rightarrow> False)"

lemma low_dsize: "lfs_tag_dsize (tag AND 0x7fffffff) = lfs_tag_dsize tag"
proof -
  have "lfs_tag_size (tag AND 0x7fffffff) = lfs_tag_size tag"
    by (rule bit_word_eqI) (auto simp: tag_bits bit_and_iff bit_low simp del: bit_numeral_word_iff)
  then show ?thesis by (simp add: word_unat_eq_iff unat_lfs_tag_dsize lfs_tag_isdelete_size)
qed

lemma low_valid: "lfs_tag_isvalid (tag AND 0x7fffffff)"
  by (simp add: lfs_tag_isvalid_bit bit_and_iff bit_low del: bit_numeral_word_iff)

lemma item_sized: "item_ok x (length bs) it \<Longrightarrow> sized (item_entry bs it)"
  using unat_4_dsize(2) [of "fst it"]
  by (auto simp: item_ok_def item_entry_def sized_def low_valid low_dsize split: attr_buf.splits)

lemma with_entries_append: "with_entries (es @ fs) cm = with_entries fs (with_entries es cm)"
  by (simp add: with_entries_def entries_append last_tag_append lfs_crc_append add.assoc)

lemma with_entries_fields [simp]:
  "cm_block (with_entries es cm) = cm_block cm" "cm_end (with_entries es cm) = cm_end cm"
  "cm_begin (with_entries es cm) = cm_begin cm" "cm_ptag (with_entries es cm) = last_tag (cm_ptag cm) es"
  by (simp_all add: with_entries_def)

lemma low_low: "tag AND 0x7fffffff AND 0x7fffffff = (tag AND 0x7fffffff :: u32)"
  by (simp add: and.assoc)

lemma low_bits_shift: "lfs_tag_size (t + lfs_mktag 0 x 0) = lfs_tag_size t"
proof -
  have m: "lfs_mktag 0 x 0 = push_bit 10 x" by (simp add: lfs_mktag_def)
  have sz: "unat (lfs_tag_size w) = unat w mod 1024" for w
    by (simp only: lfs_tag_size_take unsigned_take_bit_eq) (simp add: take_bit_eq_mod)
  have d: "(1024 :: nat) dvd 2 ^ 32" by (rule dvdI [of _ _ "2 ^ 22"]) simp
  have "unat (push_bit 10 x) = (unat x * 1024) mod 2 ^ 32" by (simp add: push_bit_eq_mult unat_word_ariths)
  then have "unat (push_bit 10 x) mod 1024 = 0" by (simp add: mod_mod_cancel [OF d, simplified])
  moreover have "unat (t + push_bit 10 x) mod 1024 = (unat t + unat (push_bit 10 x)) mod 1024"
    by (simp add: unat_word_ariths mod_mod_cancel [OF d, simplified])
  ultimately have "unat (t + push_bit 10 x) mod 1024 = unat t mod 1024" by (metis add.right_neutral mod_add_right_eq)
  then show ?thesis unfolding m by (intro word_unat_eq_iff [THEN iffD2]) (simp only: sz)
qed

lemma dsize_shift: "lfs_tag_dsize (t + lfs_mktag 0 x 0) = lfs_tag_dsize t"
  by (intro word_unat_eq_iff [THEN iffD2]) (simp only: unat_lfs_tag_dsize lfs_tag_isdelete_size low_bits_shift)

lemma survive_dsize: "lfs_tag_type3 (survive ft ts) = LFS_FROM_NOOP \<or> lfs_tag_dsize (survive ft ts) = lfs_tag_dsize ft"
proof (induction ft ts rule: survive.induct)
  case (2 ft tag ts)
  have n: "lfs_tag_type3 (lfs_mktag LFS_FROM_NOOP 0 0) = LFS_FROM_NOOP" by code_simp
  obtain r ft' where f: "lfs_dir_traverse_filter ft tag = (r, ft')" by (metis prod.exhaust)
  then have "r \<noteq> 0 \<and> ft' = lfs_mktag LFS_FROM_NOOP 0 0 \<or> r = 0 \<and> lfs_tag_dsize ft' = lfs_tag_dsize ft"
    by (auto simp: lfs_dir_traverse_filter_def Let_def dsize_shift split: if_splits)
  with 2 f n show ?case by (cases "r = 0") auto
qed simp


text \<open>The same selection on the entries themselves.\<close>

definition same_data :: "bytes \<Rightarrow> item \<Rightarrow> log_entry \<Rightarrow> bool" where
  "same_data bs it e \<longleftrightarrow> fst it = fst e \<and> item_entry bs it = (fst e AND 0x7fffffff, snd e)"

lemma kept_same_data:
  "list_all2 (same_data bs) its es \<Longrightarrow> list_all2 (same_data bs) (kept tmask ttag begn en diff its) (kept tmask ttag begn en diff es)"
proof (induction its es rule: list_all2_induct)
  case (Cons it its e es)
  obtain tag buf data where e: "it = (tag, buf)" "e = (tag, data)"
    using Cons.hyps(1) by (cases it; cases e) (auto simp: same_data_def)
  have tags: "map fst its = map fst es"
    using Cons.hyps(2) by (induction rule: list_all2_induct) (auto simp: same_data_def)
  let ?ft = "trav_final tmask tag (map fst es)"
  have "same_data bs (?ft + lfs_mktag 0 x 0, buf) (?ft + lfs_mktag 0 x 0, data)" if "\<not> trav_out tmask begn en ?ft" for x
  proof -
    have "lfs_tag_dsize ?ft = lfs_tag_dsize tag"
      using that survive_dsize [of tag "map fst es"] by (auto simp: trav_final_def trav_out_def)
    then show ?thesis using Cons.hyps(1) by (auto simp: same_data_def item_entry_def e dsize_shift)
  qed
  with Cons.IH show ?case by (simp add: e tags Let_def)
qed simp

definition traversed :: "log_entry list \<Rightarrow> lfs_mattr list \<Rightarrow> log_entry list" where
  "traversed les attrs = map (\<lambda>(tag, data). (tag OR 0x80000000, data)) les
     @ map (\<lambda>a. (ma_tag a, case ma_buf a of Bytes data \<Rightarrow> take (unat (lfs_tag_dsize (ma_tag a)) - 4) data | _ \<Rightarrow> [])) attrs"

definition surviving :: "log_entry list \<Rightarrow> lfs_mattr list \<Rightarrow> u16 \<Rightarrow> u16 \<Rightarrow> log_entry list" where
  "surviving les attrs begn en = map (\<lambda>(tag, data). (tag AND 0x7fffffff, data))
     (kept (lfs_mktag 0x400 0x3ff 0) (lfs_mktag LFS_TYPE_NAME 0 0) begn en (- begn) (traversed les attrs))"

lemma walk_same_data:
  "log_walk bs q p les en \<Longrightarrow> en < 2 ^ 32 \<Longrightarrow>
    list_all2 (same_data bs) (disk_items b q les) (map (\<lambda>(tag, data). (tag OR 0x80000000, data)) les)"
proof (induction bs q p les en rule: log_walk.induct)
  case (2 bs q p tag data es en)
  have w: "lfs_tag_isvalid tag" "q + unat (lfs_tag_dsize tag) \<le> en" "length data = unat (lfs_tag_dsize tag) - 4"
      "take (length data) (drop (q + 4) bs) = data" "log_walk bs (q + unat (lfs_tag_dsize tag)) tag es en"
    using 2(2) by auto
  have "4 \<le> unat (lfs_tag_dsize tag)" by (rule unat_4_dsize)
  then have "unat (word_of_nat (q + 4) :: u32) = q + 4" using w(2) 2(3) by (simp add: unat_of_nat del: of_nat_add)
  moreover have "(tag OR 0x80000000) AND 0x7fffffff = tag AND 0x7fffffff"
    by (rule bit_word_eqI, drule bit_32_cases) (auto simp: bit_or_iff bit_and_iff bit_low bit_top simp del: bit_numeral_word_iff)
  ultimately have "same_data bs (tag OR 0x80000000, DiskBuf \<lparr>do_block = b, do_off = word_of_nat (q + 4)\<rparr>) (tag OR 0x80000000, data)"
    using w(3,4) by (simp add: same_data_def item_entry_def valid_dsize del: of_nat_add)
  with 2(1) [OF w(5) 2(3)] show ?case by simp
qed simp

context block_device
begin

text \<open>Another block is read while a log is written.\<close>

lemma writer_read:
  assumes w: "writer cfg N d0 b w s" "elsewhere b s" and x: "unat x < bcount" "x \<noteq> b" and n: "0 < hint" "hint \<le> 2 ^ 31" "off + length buf \<le> bsz"
  shows "\<exists>t. lfs_bd_read None RCache hint x off buf s = Some (Val (take (length buf) (drop off (blk d0 x))), t)
    \<and> writer cfg N d0 b w t \<and> elsewhere b t"
proof -
  have rr: "read_ready None RCache x s"
    using w x(1) by (auto simp: log_writer_def rcache_elsewhere_def read_ready_to_def prog_ready_to_def prog_geometry_def cache_of_PCache
      pcached_def pcache_in_def)
  have v: "view None s x = blk d0 x" using w(1) x by (simp add: ready_view log_writer_def)
  obtain t where t: "lfs_bd_read None RCache hint x off buf s = Some (Val (take (length buf) (drop off (blk d0 x))), t)" "reloaded RCache s t"
    by (rule bd_read_reloaded [OF rr n]) (use v in auto)
  have b: "b \<noteq> LFS_BLOCK_NULL"
    using w(1) unat_BLOCK_NULL by (auto simp: log_writer_def prog_ready_to_def prog_geometry_def)
  have "cache_block (l_rcache t) \<noteq> b"
    using keepsD [OF so_read [OF x(2) b] t(1)] w(2) by (simp add: stays_off_def rcache_elsewhere_def)
  then have "elsewhere b t"
    using t(2) by (auto simp: rcache_elsewhere_def reloaded_def cache_of_PCache load_def set_cache_def)
  with t(1) writer_reloaded [OF w(1) t(2)] show ?thesis by blast
qed

lemma writer_commitprog:
  assumes w: "writer cfg N d0 b w s" and cm: "cm_block cm = b" "unat (cm_off cm) = length w" and room: "length w + length bs \<le> bsz"
  shows "\<exists>t. lfs_dir_commitprog cm bs s = Some (Val (cm\<lparr>cm_crc := lfs_crc (cm_crc cm) bs, cm_off := cm_off cm + word_of_nat (length bs)\<rparr>), t)
    \<and> writer cfg N d0 b (w @ bs) t \<and> (elsewhere b s \<longrightarrow> elsewhere b t)"
proof -
  have ready: "prog_ready PCache (cm_block cm) (unat (cm_off cm)) s" using w by (simp add: log_writer_def cm)
  have fits: "unat (cm_off cm) + length bs \<le> bsz" using room cm by simp
  obtain pc pb d where run: "lfs_dir_commitprog cm bs s = Some (Val (cm\<lparr>cm_crc := lfs_crc (cm_crc cm) bs,
        cm_off := cm_off cm + word_of_nat (length bs)\<rparr>), progged PCache pc pb d s)"
    and post: "cache_buffer pc = cache_buffer (l_pcache s)" "dok d"
    "prog_ready PCache (cm_block cm) (unat (cm_off cm + word_of_nat (length bs))) (progged PCache pc pb d s)"
    "unat (cm_off cm + word_of_nat (length bs)) = unat (cm_off cm) + length bs"
    "\<And>c. unat c < bcount \<Longrightarrow> view (Some PCache) (progged PCache pc pb d s) c =
      (if c = cm_block cm then splice (view (Some PCache) s c) (unat (cm_off cm)) bs else view (Some PCache) s c)"
    by (rule commitprog_correct [OF ready fits]) blast
  show ?thesis
    using run writer_progged [OF w refl post(1), of bs pb d] post(3-5) room cm by auto
qed

text \<open>The copying loop.\<close>

lemma writer_copy:
  assumes "writer cfg N d0 b w s" "elsewhere b s" "cm_block cm = b" "unat (cm_off cm) = length w"
    and "unat x < bcount" "x \<noteq> b" "unat off + n \<le> bsz" "length w + n \<le> bsz + i" "i \<le> n"
  shows "\<exists>t. mloop (commit_copy_body \<lparr>do_block = x, do_off = off\<rparr> (word_of_nat n)) (word_of_nat i, cm) s
      = Some (Val (cm\<lparr>cm_crc := lfs_crc (cm_crc cm) (take (n - i) (drop (unat off + i) (blk d0 x))),
          cm_off := cm_off cm + word_of_nat (n - i)\<rparr>), t)
    \<and> writer cfg N d0 b (w @ take (n - i) (drop (unat off + i) (blk d0 x))) t \<and> elsewhere b t"
  using assms
proof (induction "n - i" arbitrary: w s cm i)
  case 0
  then have "n = i" by simp
  then have "commit_copy_body \<lparr>do_block = x, do_off = off\<rparr> (word_of_nat n) (word_of_nat i, cm) s = Some (Val (Inr cm), s)"
    by (simp add: commit_copy_body_def ret_def)
  from mloop_stop [where body="commit_copy_body \<lparr>do_block = x, do_off = off\<rparr> (word_of_nat n)", OF this] "0.prems" \<open>n = i\<close>
  show ?case by simp
next
  case (Suc k)
  let ?D = "drop (unat off + i) (blk d0 x)"
  have small: "bsz < 2 ^ 30" by (rule writer_facts(4) [OF Suc.prems(1)])
  have in_n: "i < n" using Suc.hyps(2) by simp
  have un: "unat (word_of_nat n :: u32) = n" "unat (word_of_nat i :: u32) = i"
    using Suc.prems(7) small in_n by (simp_all add: unat_of_nat)
  have uoff: "unat (off + word_of_nat i) = unat off + i" "unat (word_of_nat n - word_of_nat i :: u32) = n - i"
    using un Suc.prems(7) small in_n by (simp_all add: unat_word_ariths unat_sub word_le_nat_alt)
  have "length (blk (l_dev s) x) = bsz" by (rule blk_length [OF writer_facts(3) [OF Suc.prems(1)] Suc.prems(5)])
  moreover have "blk (l_dev s) x = blk d0 x" using Suc.prems(1,5,6) by (simp add: log_writer_def)
  ultimately have len: "length (blk d0 x) = bsz" by simp
  then have one: "take 1 ?D = [blk d0 x ! (unat off + i)]" "?D = blk d0 x ! (unat off + i) # drop (unat off + Suc i) (blk d0 x)"
    using Suc.prems(7) in_n by (simp_all add: Cons_nth_drop_Suc [symmetric])
  obtain s1 where s1: "lfs_bd_read None RCache (n - i) x (unat off + i) (replicate 1 0) s = Some (Val [blk d0 x ! (unat off + i)], s1)"
      "writer cfg N d0 b w s1" "elsewhere b s1"
  proof -
    have "0 < n - i" "n - i \<le> 2 ^ 31" "unat off + i + length (replicate 1 (0 :: u8)) \<le> bsz" using Suc.prems(7) in_n small by simp_all
    from writer_read [OF Suc.prems(1,2,5,6) this] one(1) that show ?thesis by auto
  qed
  define cm1 where "cm1 = cm\<lparr>cm_crc := lfs_crc (cm_crc cm) [blk d0 x ! (unat off + i)], cm_off := cm_off cm + 1\<rparr>"
  obtain s2 where s2: "lfs_dir_commitprog cm [blk d0 x ! (unat off + i)] s1 = Some (Val cm1, s2)"
      "writer cfg N d0 b (w @ [blk d0 x ! (unat off + i)]) s2" "elsewhere b s2"
    using writer_commitprog [OF s1(2) Suc.prems(3,4), of "[blk d0 x ! (unat off + i)]"] s1(3) Suc.prems(8) in_n by (auto simp: cm1_def)
  have b1: "bnd (lfs_bd_read None RCache (n - i) x (unat off + i) (replicate 1 0)) k s = k [blk d0 x ! (unat off + i)] s1" for k :: "_ \<Rightarrow> ('d, 'x) fs"
    by (rule bnd_run_Val) (rule s1(1))
  have b2: "bnd (lfs_dir_commitprog cm [blk d0 x ! (unat off + i)]) k s1 = k cm1 s2" for k :: "_ \<Rightarrow> ('d, 'x) fs"
    by (rule bnd_run_Val) (rule s2(1))
  have lt: "((word_of_nat i :: u32) < word_of_nat n) = True" using un in_n by (simp add: word_less_nat_alt)
  have "commit_copy_body \<lparr>do_block = x, do_off = off\<rparr> (word_of_nat n) (word_of_nat i, cm) s = Some (Val (Inl (word_of_nat (Suc i), cm1)), s2)"
    by (simp only: commit_copy_body_def prod.case lt if_True lfs_diskoff.simps uoff b1 b2) (simp add: ret_def add.commute)
  note go = mloop_go [where body="commit_copy_body \<lparr>do_block = x, do_off = off\<rparr> (word_of_nat n)", OF this]
  have off1: "unat (cm_off cm1) = length (w @ [blk d0 x ! (unat off + i)])"
    using Suc.prems(4,8) in_n small by (simp add: cm1_def unat_word_ariths)
  have k: "k = n - Suc i" and cb: "cm_block cm1 = b" using Suc.hyps(2) Suc.prems(3) by (simp_all add: cm1_def)
  have room: "length (w @ [blk d0 x ! (unat off + i)]) + n \<le> bsz + Suc i" "Suc i \<le> n" using Suc.prems(8) in_n by simp_all
  obtain t where t: "mloop (commit_copy_body \<lparr>do_block = x, do_off = off\<rparr> (word_of_nat n)) (word_of_nat (Suc i), cm1) s2
      = Some (Val (cm1\<lparr>cm_crc := lfs_crc (cm_crc cm1) (take (n - Suc i) (drop (unat off + Suc i) (blk d0 x))),
          cm_off := cm_off cm1 + word_of_nat (n - Suc i)\<rparr>), t)"
      "writer cfg N d0 b ((w @ [blk d0 x ! (unat off + i)]) @ take (n - Suc i) (drop (unat off + Suc i) (blk d0 x))) t" "elsewhere b t"
    using Suc.hyps(1) [OF k s2(2,3) cb off1 Suc.prems(5-7) room(1,2)] by blast
  have eq: "take (n - i) ?D = blk d0 x ! (unat off + i) # take (n - Suc i) (drop (unat off + Suc i) (blk d0 x))"
    unfolding one(2) using in_n by (simp add: Suc_diff_Suc [symmetric])
  have "1 + word_of_nat (n - Suc i) = (word_of_nat (n - i) :: u32)"
    using in_n by (simp add: Suc_diff_Suc [symmetric])
  then show ?case
    using t unfolding go eq by (intro exI [of _ t]) (simp add: cm1_def lfs_crc_append [symmetric] add.assoc)
qed

lemma writer_attr_disk:
  assumes w: "writer cfg N d0 b w s" "elsewhere b s" and cm: "cm_block cm = b" "unat (cm_off cm) = length w"
    and room: "length w + unat (lfs_tag_dsize tag) \<le> unat (cm_end cm)" "unat (cm_end cm) \<le> bsz"
    and src: "unat x < bcount" "x \<noteq> b" "unat off + unat (lfs_tag_dsize tag) \<le> bsz + 4" and tag: "\<not> lfs_tag_isvalid tag"
  defines "e \<equiv> item_entry (blk d0 x) (tag, DiskBuf \<lparr>do_block = x, do_off = off\<rparr>)"
  shows "\<exists>t. lfs_dir_commitattr cm tag (DiskBuf \<lparr>do_block = x, do_off = off\<rparr>) s = Some (Val (with_entries [e] cm), t)
      \<and> writer cfg N d0 b (w @ entries_bytes (cm_ptag cm) [e]) t \<and> elsewhere b t"
proof -
  note f = writer_facts [OF w(1)]
  let ?n = "unat (lfs_tag_dsize tag) - 4" and ?h = "u32_to_be ((tag AND 0x7fffffff) XOR cm_ptag cm)"
  let ?D = "take ?n (drop (unat off) (blk d0 x))"
  have ds: "4 \<le> unat (lfs_tag_dsize tag)" "unat (lfs_tag_dsize tag) < 2 ^ 11" by (rule unat_4_dsize)+
  have n4: "lfs_tag_dsize tag - 4 = word_of_nat ?n" using ds by (simp add: word_unat_eq_iff unat_sub word_le_nat_alt unat_of_nat)
  have le: "\<not> cm_off cm + lfs_tag_dsize tag > cm_end cm"
    using room cm(2) f(4) by (simp add: word_less_nat_alt unat_word_ariths)
  define cm1 where "cm1 = cm\<lparr>cm_crc := lfs_crc (cm_crc cm) ?h, cm_off := cm_off cm + word_of_nat (length ?h)\<rparr>"
  have h4: "length w + length ?h \<le> bsz" using room ds by simp
  obtain s1 where s1: "lfs_dir_commitprog cm ?h s = Some (Val cm1, s1)" "writer cfg N d0 b (w @ ?h) s1" "elsewhere b s1"
    using writer_commitprog [OF w(1) cm h4] w(2) unfolding cm1_def by blast
  have "blk (l_dev s) x = blk d0 x" using w(1) src by (simp add: log_writer_def)
  then have len: "length (blk d0 x) = bsz" using blk_length [OF f(3) src(1)] by simp
  have lD: "length ?D = ?n" using src(3) len ds by simp
  have c1: "cm_block cm1 = b" "unat (cm_off cm1) = length (w @ ?h)"
    using cm h4 f(4) by (simp_all add: cm1_def unat_word_ariths)
  have room1: "unat off + ?n \<le> bsz" "length (w @ ?h) + ?n \<le> bsz + 0" "0 \<le> ?n" using src(3) room ds by simp_all
  obtain t where t: "mloop (commit_copy_body \<lparr>do_block = x, do_off = off\<rparr> (word_of_nat ?n)) (0, cm1) s1
      = Some (Val (cm1\<lparr>cm_crc := lfs_crc (cm_crc cm1) ?D, cm_off := cm_off cm1 + word_of_nat ?n\<rparr>), t)"
      "writer cfg N d0 b ((w @ ?h) @ ?D) t" "elsewhere b t"
    using writer_copy [OF s1(2,3) c1 src(1,2) room1] by auto
  have b1: "bnd (lfs_dir_commitprog cm ?h) k s = k cm1 s1" for k :: "_ \<Rightarrow> ('d, 'x) fs"
    by (rule bnd_run_Val) (rule s1(1))
  have b2: "bnd (mloop (commit_copy_body \<lparr>do_block = x, do_off = off\<rparr> (word_of_nat ?n)) (0, cm1)) k s1
      = k (cm1\<lparr>cm_crc := lfs_crc (cm_crc cm1) ?D, cm_off := cm_off cm1 + word_of_nat ?n\<rparr>) t" for k :: "_ \<Rightarrow> ('d, 'x) fs"
    by (rule bnd_run_Val) (rule t(1))
  have e: "e = (tag AND 0x7fffffff, ?D)" by (simp add: e_def item_entry_def)
  have eb: "entries_bytes (cm_ptag cm) [e] = ?h @ ?D" by (simp add: e entry_bytes_def low_low)
  have off: "cm_off cm + 4 + word_of_nat ?n = cm_off cm + word_of_nat (4 + ?n)" by simp
  have "lfs_dir_commitattr cm tag (DiskBuf \<lparr>do_block = x, do_off = off\<rparr>) s
      = Some (Val (cm1\<lparr>cm_crc := lfs_crc (cm_crc cm1) ?D, cm_off := cm_off cm1 + word_of_nat ?n, cm_ptag := tag AND 0x7fffffff\<rparr>), t)"
    using le tag by (simp add: lfs_dir_commitattr_def Let_def b1 attr_disk_def n4 b2 del: of_nat_diff) (simp add: ret_def)
  moreover have "cm1\<lparr>cm_crc := lfs_crc (cm_crc cm1) ?D, cm_off := cm_off cm1 + word_of_nat ?n, cm_ptag := tag AND 0x7fffffff\<rparr> = with_entries [e] cm"
  proof -
    have "with_entries [e] cm = cm\<lparr>cm_crc := lfs_crc (cm_crc cm) (?h @ ?D), cm_off := cm_off cm + word_of_nat (length (?h @ ?D)),
        cm_ptag := tag AND 0x7fffffff\<rparr>" unfolding with_entries_def eb by (simp add: e)
    then show ?thesis using lD by (simp add: cm1_def lfs_crc_append off del: of_nat_add)
  qed
  ultimately show ?thesis using t(2,3) by (intro exI [of _ t]) (simp add: eb del: entries_bytes.simps)
qed

lemma writer_item:
  assumes w: "writer cfg N d0 b w s" "elsewhere b s" and cm: "cm_block cm = b" "unat (cm_off cm) = length w"
    and room: "length w + unat (lfs_tag_dsize (fst it)) \<le> unat (cm_end cm)" "unat (cm_end cm) \<le> bsz"
    and src: "unat x < bcount" "x \<noteq> b" and ok: "item_ok x bsz it"
  defines "e \<equiv> item_entry (blk d0 x) it"
  shows "\<exists>t. lfs_dir_commitattr cm (fst it) (snd it) s = Some (Val (with_entries [e] cm), t)
      \<and> writer cfg N d0 b (w @ entries_bytes (cm_ptag cm) [e]) t \<and> elsewhere b t"
proof (cases "snd it")
  case (Bytes dat)
  let ?tag = "fst it" and ?n = "unat (lfs_tag_dsize (fst it)) - 4"
  have v: "lfs_tag_isvalid ?tag" "?n \<le> length dat" using ok Bytes by (auto simp: item_ok_def le_diff_conv)
  have e: "e = (?tag, take ?n dat)" by (simp add: e_def item_entry_def Bytes valid_tag_and [OF v(1)])
  have ds: "4 \<le> unat (lfs_tag_dsize ?tag)" by (rule unat_4_dsize)
  have n4: "unat (lfs_tag_dsize ?tag - 4) = ?n" using ds by (simp add: unat_sub word_le_nat_alt)
  have l: "length (take ?n dat) = unat (lfs_tag_dsize ?tag) - 4" using v(2) by simp
  have same: "lfs_dir_commitattr cm ?tag (Bytes dat) = lfs_dir_commitattr cm ?tag (Bytes (take ?n dat))"
    using v by (simp add: lfs_dir_commitattr_def attr_bytes_def n4 Let_def)
  have le: "length (entries_bytes (cm_ptag cm) [e]) = unat (lfs_tag_dsize ?tag)"
    using l ds by (simp add: e entry_bytes_def)
  have "cm\<lparr>cm_crc := lfs_crc (cm_crc cm) (entry_bytes (cm_ptag cm) ?tag (take ?n dat)),
        cm_off := cm_off cm + lfs_tag_dsize ?tag, cm_ptag := ?tag\<rparr> = with_entries [e] cm"
    using le by (simp add: with_entries_def e)
  with writer_attr [OF w(1) cm room v(1) l] w(2) show ?thesis
    unfolding Bytes same by (auto simp: e)
next
  case (DiskBuf d)
  with ok have d: "d = \<lparr>do_block = x, do_off = do_off d\<rparr>" "unat (do_off d) + unat (lfs_tag_dsize (fst it)) \<le> bsz + 4"
    "\<not> lfs_tag_isvalid (fst it)" by (auto simp: item_ok_def)
  have "it = (fst it, DiskBuf \<lparr>do_block = x, do_off = do_off d\<rparr>)" using d(1) DiskBuf by (metis prod.collapse)
  then show ?thesis using writer_attr_disk [OF w cm room src d(2,3)] unfolding e_def by (metis snd_conv)
qed (use ok in \<open>simp_all add: item_ok_def\<close>)

text \<open>A traversal that writes what it keeps.\<close>

definition written :: "'d lfs_config \<Rightarrow> (nat \<Rightarrow> lfs_node option) \<Rightarrow> 'd \<Rightarrow> u32 \<Rightarrow> bytes \<Rightarrow> 'd lfs \<Rightarrow> 'd lfs \<Rightarrow> bool" where
  "written cfg N d0 b w s0 s \<longleftrightarrow> writer cfg N d0 b w s \<and> elsewhere b s \<and> meta_frame s0 s"

lemma written_item:
  assumes w: "written cfg N d0 b (w @ entries_bytes (cm_ptag cm) es) s0 s"
    and cm: "cm_block cm = b" "unat (cm_off cm) = length w" and e: "e = item_entry (blk d0 x) it"
    and room: "length w + length (entries_bytes (cm_ptag cm) (es @ [e])) \<le> unat (cm_end cm)" "unat (cm_end cm) \<le> bsz"
    and src: "unat x < bcount" "x \<noteq> b" and ok: "item_ok x bsz it"
  shows "\<exists>t. lfs_dir_commitattr (with_entries es cm) (fst it) (snd it) s = Some (Val (with_entries (es @ [e]) cm), t)
      \<and> written cfg N d0 b (w @ entries_bytes (cm_ptag cm) (es @ [e])) s0 t"
proof -
  have ww: "writer cfg N d0 b (w @ entries_bytes (cm_ptag cm) es) s" "elsewhere b s" "meta_frame s0 s"
    using w by (simp_all add: written_def)
  note f = writer_facts [OF ww(1)]
  have "blk (l_dev s) x = blk d0 x" using ww(1) src by (simp add: log_writer_def)
  then have "length (blk d0 x) = bsz" using blk_length [OF f(3) src(1)] by simp
  then have "sized e" unfolding e by (intro item_sized) (use ok in simp)
  from sized_length [OF this] have le: "length (entries_bytes p [e]) = unat (lfs_tag_dsize (fst it))" for p
    by (simp add: e item_entry_def low_dsize)
  have room': "length (w @ entries_bytes (cm_ptag cm) es) + unat (lfs_tag_dsize (fst it)) \<le> unat (cm_end (with_entries es cm))"
    "unat (cm_end (with_entries es cm)) \<le> bsz"
    using room le by (simp_all add: entries_append)
  have off: "unat (cm_off (with_entries es cm)) = length (w @ entries_bytes (cm_ptag cm) es)"
    using cm(2) f(4,8) by (simp add: with_entries_def unat_word_ariths unat_of_nat)
  have cb: "cm_block (with_entries es cm) = b" using cm(1) by simp
  obtain t where t: "lfs_dir_commitattr (with_entries es cm) (fst it) (snd it) s = Some (Val (with_entries [e] (with_entries es cm)), t)"
     "writer cfg N d0 b ((w @ entries_bytes (cm_ptag cm) es) @ entries_bytes (cm_ptag (with_entries es cm)) [e]) t" "elsewhere b t"
    using writer_item [OF ww(1,2) cb off room' src ok] unfolding e by blast
  have "meta_frame s0 t" by (rule mf.R_trans [OF ww(3) keepsD [OF mf_commit(2) t(1)]])
  with t show ?thesis
    by (intro exI [of _ t]) (simp add: written_def with_entries_append [symmetric] entries_append del: entries_bytes.simps)
qed

lemma written_reads:
  assumes x: "unat x < bcount" "x \<noteq> b"
  shows "src_reads (written cfg N d0 b w s0) x (blk d0 x)"
  unfolding src_reads_def
proof (intro allI impI)
  fix s :: "'d lfs" and off n
  assume s: "written cfg N d0 b w s0 s" and n: "0 < n" "off + n \<le> length (blk d0 x)"
  have ww: "writer cfg N d0 b w s" "elsewhere b s" "meta_frame s0 s" using s by (simp_all add: written_def)
  note f = writer_facts [OF ww(1)]
  have "blk (l_dev s) x = blk d0 x" using ww(1) x by (simp add: log_writer_def)
  then have len: "length (blk d0 x) = bsz" using blk_length [OF f(3) x(1)] by simp
  have m: "n \<le> 2 ^ 31" "off + length (replicate n (0 :: u8)) \<le> bsz" using n len f(4) by simp_all
  obtain t where t: "lfs_bd_read None RCache n x off (replicate n 0) s = Some (Val (take n (drop off (blk d0 x))), t)"
      "writer cfg N d0 b w t" "elsewhere b t"
    using writer_read [OF ww(1,2) x n(1) m] by auto
  have "meta_frame s0 t" by (rule mf.R_trans [OF ww(3) keepsD [OF mf_reads(2) t(1)]])
  with t show "\<exists>u. lfs_bd_read None RCache n x off (replicate n 0) s = Some (Val (take n (drop off (blk d0 x))), u)
      \<and> written cfg N d0 b w s0 u" by (auto simp: written_def)
qed

lemma traverse_writes:
  assumes w: "written cfg N d0 b w s0 s" and cm: "cm_block cm = b" "unat (cm_off cm) = length w"
    and x: "fst (md_pair dir) = x" "unat x < bcount" "x \<noteq> b"
    and src: "trav_source (blk d0 x) dir off ptag les attrs" "plain_items tmask (trav_items dir off ptag les attrs)"
    and its: "its = kept tmask ttag begn en diff (trav_items dir off ptag les attrs)" "list_all (item_ok x bsz) its"
    and es: "es = map (item_entry (blk d0 x)) its"
    and room: "length w + length (entries_bytes (cm_ptag cm) es) \<le> unat (cm_end cm)" "unat (cm_end cm) \<le> bsz"
  shows "\<exists>t. lfs_dir_traverse dir off ptag attrs tmask ttag begn en diff lfs_dir_commit_commit cm s = Some (Val (0, with_entries es cm), t)
      \<and> written cfg N d0 b (w @ entries_bytes (cm_ptag cm) es) s0 t"
proof -
  let ?e = "map (item_entry (blk d0 x))"
  let ?P = "\<lambda>dn. written cfg N d0 b (w @ entries_bytes (cm_ptag cm) (?e dn)) s0"
  have "cb_runs ?P lfs_dir_commit_commit (\<lambda>dn. with_entries (?e dn) cm) its"
    unfolding cb_runs_def
  proof (intro allI impI)
    fix dn it rest and u :: "'d lfs"
    assume d: "its = dn @ it # rest" and u: "?P dn u"
    have ok: "item_ok x bsz it" using its(2) d by simp
    have "length (entries_bytes (cm_ptag cm) (?e dn @ [item_entry (blk d0 x) it])) \<le> length (entries_bytes (cm_ptag cm) es)"
      using entries_append [of "cm_ptag cm" "?e dn @ [item_entry (blk d0 x) it]" "?e rest"] by (simp add: es d)
    then have "length w + length (entries_bytes (cm_ptag cm) (?e dn @ [item_entry (blk d0 x) it])) \<le> unat (cm_end cm)"
      using room(1) by simp
    from written_item [OF u cm refl this room(2) x(2,3) ok]
    show "\<exists>t. lfs_dir_commit_commit (fst it) (snd it) (with_entries (?e dn) cm) u = Some (Val (0, with_entries (?e (dn @ [it])) cm), t)
        \<and> ?P (dn @ [it]) t"
      by (auto simp: lfs_dir_commit_commit_def bnd_def ret_def)
  qed
  from traverse_kept [where P = ?P, OF src(1) _ _ src(2) its(1) this] w show ?thesis
    using written_reads [OF x(2,3)] x(1) by (simp add: es with_entries_def [of "[]"])
qed

text \<open>Looking a tag up meanwhile.\<close>

lemma so_dir_get: "fst (md_pair dir) \<noteq> b \<Longrightarrow> b \<noteq> LFS_BLOCK_NULL \<Longrightarrow> keeps (stays_off b) (lfs_dir_get_buf dir gmask gtag buf)"
  unfolding lfs_dir_get_buf_def lfs_dir_getslice_buf_def lfs_dir_getslice_body_def
  by (intro so.k_intros so_read so_read_buf) simp_all

lemma mf_dir_get: "keeps meta_frame (lfs_dir_get_buf dir gmask gtag buf)"
  unfolding lfs_dir_get_buf_def lfs_dir_getslice_buf_def lfs_dir_getslice_body_def by (intro mf.k_intros meta_intros)

lemma written_get:
  assumes s: "written cfg N d0 b w s0 s" and x: "unat (fst (md_pair dir)) < bcount" "fst (md_pair dir) \<noteq> b"
    and rep: "dir_log (blk d0 (fst (md_pair dir))) dir les" "unat (md_off dir) \<le> bsz"
    and n: "n = unat (lfs_tag_size gtag)" "n \<le> length buf" and gmask: "lfs_tag_id gmask = 0"
  defines "r \<equiv> slice_result (take n buf) (log_find gmask gtag 0 les)"
  shows "\<exists>t. lfs_dir_get_buf dir gmask gtag buf s = Some (Val (fst r, snd r @ drop n buf), t) \<and> written cfg N d0 b w s0 t"
proof -
  have ww: "writer cfg N d0 b w s" "elsewhere b s" "meta_frame s0 s" using s by (simp_all add: written_def)
  have v: "view None s (fst (md_pair dir)) = blk d0 (fst (md_pair dir))" using ww(1) x by (simp add: ready_view log_writer_def)
  have rr: "read_ready None RCache (fst (md_pair dir)) s"
    using ww(1,2) x(1) by (auto simp: log_writer_def rcache_elsewhere_def read_ready_to_def prog_ready_to_def prog_geometry_def
      cache_of_PCache pcached_def pcache_in_def)
  have b: "b \<noteq> LFS_BLOCK_NULL"
    using ww(1) unat_BLOCK_NULL by (auto simp: log_writer_def prog_ready_to_def prog_geometry_def)
  have m0: "move_shift g pr gmask gtag = 0" "\<not> moved_away g pr gmask gtag" for g pr using gmask by (simp_all add: move_shift_def moved_away_def)
  obtain t where t: "lfs_dir_get_buf dir gmask gtag buf s = Some (Val (fst r, snd r @ drop n buf), t)" "reloaded RCache s t"
  proof (cases "log_rep (blk d0 (fst (md_pair dir))) (unat (md_off dir)) (md_etag dir) les")
    case True
    then show ?thesis
      using dir_get_correct [of s dir les n gtag buf r gmask] that rep(2) rr n v m0 by (auto simp: r_def)
  next
    case False
    then have d: "md_off dir = 4" "les = []" using rep(1) by (auto simp: dir_log_def)
    have "\<not> 4 + lfs_tag_dsize (md_etag dir) \<le> 4" using unat_4_dsize [of "md_etag dir"] by (auto simp: word_le_nat_alt)
    then have "mloop (lfs_dir_getslice_body dir gmask gtag 0 (take n buf)) (4, md_etag dir, 0) s = Some (Val r, s)"
      by (intro mloop_stop) (simp add: lfs_dir_getslice_body_def ret_def r_def d slice_result_def)
    then have "lfs_dir_getslice_buf dir gmask gtag 0 (take n buf) s = Some (Val r, s)"
      using gmask by (simp add: lfs_dir_getslice_buf_def bnd_gets Let_def d)
    then show ?thesis
      using n(2) reloaded_refl [OF rr] by (intro that [of s]) (simp_all add: lfs_dir_get_buf_def Let_def n(1) [symmetric] bnd_def ret_def split: prod.splits)
  qed
  have "cache_block (l_rcache t) \<noteq> b"
    using keepsD [OF so_dir_get [OF x(2) b] t(1)] ww(2) by (simp add: stays_off_def rcache_elsewhere_def)
  then have "elsewhere b t"
    using t(2) by (auto simp: rcache_elsewhere_def reloaded_def cache_of_PCache load_def set_cache_def)
  moreover have "meta_frame s0 t" by (rule mf.R_trans [OF ww(3) keepsD [OF mf_dir_get t(1)]])
  ultimately show ?thesis using t(1) writer_reloaded [OF ww(1) t(2)] by (auto simp: written_def)
qed

lemma log_find_error: "log_find gmask gtag gdiff es = Inl e \<Longrightarrow> e = NoEntry"
  by (induction gmask gtag gdiff es rule: log_find.induct) (auto simp: Let_def split: if_splits)

lemma written_getgstate:
  assumes s: "written cfg N d0 b w s0 s" and x: "unat (fst (md_pair dir)) < bcount" "fst (md_pair dir) \<noteq> b"
    and rep: "dir_log (blk d0 (fst (md_pair dir))) dir les" "unat (md_off dir) \<le> bsz"
  shows "\<exists>t. lfs_dir_getgstate dir g s = Some (Val (with_stored les g), t) \<and> written cfg N d0 b w s0 t"
proof -
  have tag: "unat (lfs_tag_size (lfs_mktag LFS_TYPE_MOVESTATE 0 12)) = 12" "lfs_tag_id (lfs_mktag 0x7ff 0 0) = 0"
    by (code_simp, code_simp)
  let ?r = "log_find (lfs_mktag 0x7ff 0 0) (lfs_mktag LFS_TYPE_MOVESTATE 0 12) 0 les"
  obtain t where t: "lfs_dir_get_buf dir (lfs_mktag 0x7ff 0 0) (lfs_mktag LFS_TYPE_MOVESTATE 0 12) (replicate 12 0) s
      = Some (Val (slice_result (replicate 12 0) ?r), t)" "written cfg N d0 b w s0 t"
    using written_get [OF s x rep, of 12 "lfs_mktag LFS_TYPE_MOVESTATE 0 12" "replicate 12 0" "lfs_mktag 0x7ff 0 0"] tag by auto
  have "lfs_dir_getgstate dir g s = Some (Val (with_stored les g), t)"
  proof (cases ?r)
    case (Inl e)
    then have "?r = Inl NoEntry" using log_find_error by blast
    then show ?thesis
      using t(1) by (simp add: lfs_dir_getgstate_def lfs_dir_get_def bnd_def attempt_def with_stored_def slice_result_def ret_def throw_def)
  next
    case (Inr e)
    then show ?thesis
      using t(1) by (cases e) (simp add: lfs_dir_getgstate_def lfs_dir_get_def bnd_def attempt_def with_stored_def slice_result_def ret_def)
  qed
  with t(2) show ?thesis by blast
qed

end

end
