(* ===== verification/Compaction.thy ===== *)
theory Compaction
  imports WriteItems
begin

text \<open>
  Compaction.  The entries of a log that are still needed are written to the other block of the pair
  under the next revision count, closed by a checksum: one commit that holds what \<open>kept\<close> keeps, a
  step of the history of the pair.
\<close>

subsection \<open>Compacting a pair\<close>

context block_device
begin

text \<open>An entry that is written when there is something to say.\<close>

lemma written_optional:
  assumes w: "written cfg N d0 b (w @ entries_bytes (cm_ptag cm) es) s0 s"
    and cm: "cm_block cm = b" "unat (cm_off cm) = length w" and e: "sized e"
    and room: "length w + length (entries_bytes (cm_ptag cm) (es @ (if p then [e] else []))) \<le> unat (cm_end cm)" "unat (cm_end cm) \<le> bsz"
    and src: "unat x < bcount" "x \<noteq> b"
  shows "\<exists>t. (if p then lfs_dir_commitattr (with_entries es cm) (fst e) (Bytes (snd e)) else ret (with_entries es cm)) s
        = Some (Val (with_entries (es @ (if p then [e] else [])) cm), t)
      \<and> written cfg N d0 b (w @ entries_bytes (cm_ptag cm) (es @ (if p then [e] else []))) s0 t"
proof (cases p)
  case True
  have "e = item_entry (blk d0 x) (fst e, Bytes (snd e))" "item_ok x bsz (fst e, Bytes (snd e))"
    using e by (auto simp: item_entry_def item_ok_def sized_def valid_tag_and prod_eq_iff)
  from written_item [OF w cm this(1) _ room(2) src this(2)] room(1) True show ?thesis by simp
next
  case False
  with w show ?thesis by (simp add: ret_def)
qed

end

lemma compact_step_Val: "c s = Some (Val x, t) \<Longrightarrow> compact_step dir tired c k s = k x t"
  by (simp add: compact_step_def attempt_def bnd_def)

definition tail_entry :: "lfs_mdir \<Rightarrow> log_entry" where
  "tail_entry d = (ma_tag (tail_attr (md_split d) (md_tail d)), pair_to_le (md_tail d))"

definition state_entry :: "lfs_gstate \<Rightarrow> log_entry" where
  "state_entry g = (movestate_tag, lfs_gstate_tole32 g)"

lemma tail_fields:
  "lfs_tag_isvalid (lfs_mktag (LFS_TYPE_TAIL + bool_u16 sp) 0x3ff 8)"
  "unat (lfs_tag_dsize (lfs_mktag (LFS_TYPE_TAIL + bool_u16 sp) 0x3ff 8)) = 12"
  "lfs_tag_type2 (lfs_mktag (LFS_TYPE_TAIL + bool_u16 sp) 0x3ff 8) \<noteq> LFS_TYPE_CCRC"
proof -
  let ?t = "lfs_mktag (LFS_TYPE_TAIL + bool_u16 sp) 0x3ff 8"
  have "?t = lfs_mktag 0x600 0x3ff 8 \<or> ?t = lfs_mktag 0x601 0x3ff 8" by (cases sp) (simp_all add: bool_u16_def LFS_TYPE_TAIL_def)
  moreover have "lfs_tag_isvalid (lfs_mktag 0x600 0x3ff 8)" "lfs_tag_isvalid (lfs_mktag 0x601 0x3ff 8)"
    "unat (lfs_tag_dsize (lfs_mktag 0x600 0x3ff 8)) = 12" "unat (lfs_tag_dsize (lfs_mktag 0x601 0x3ff 8)) = 12"
    "lfs_tag_type2 (lfs_mktag 0x600 0x3ff 8) \<noteq> LFS_TYPE_CCRC" "lfs_tag_type2 (lfs_mktag 0x601 0x3ff 8) \<noteq> LFS_TYPE_CCRC"
    by (code_simp, code_simp, code_simp, code_simp, code_simp, code_simp)
  ultimately show "lfs_tag_isvalid ?t" "unat (lfs_tag_dsize ?t) = 12" "lfs_tag_type2 ?t \<noteq> LFS_TYPE_CCRC" by metis+
qed

lemma wf_tail_entry: "wf_entry (tail_entry d)"
proof -
  have "length (pair_to_le (md_tail d)) = 8" by (simp add: pair_to_le_def split: prod.splits)
  then show ?thesis
    unfolding wf_entry_def tail_entry_def tail_attr_def fst_conv snd_conv lfs_mattr.simps tail_fields(2) using tail_fields by simp
qed

lemma movestate_fields:
  "lfs_tag_isvalid movestate_tag" "unat (lfs_tag_dsize movestate_tag) = 16" "lfs_tag_type2 movestate_tag \<noteq> LFS_TYPE_CCRC"
  "lfs_tag_type1 movestate_tag \<noteq> LFS_TYPE_TAIL" "lfs_tag_type3 movestate_tag \<noteq> LFS_TYPE_FCRC"
  by (code_simp, code_simp, code_simp, code_simp, code_simp)

lemma wf_state_entry: "wf_entry (state_entry g)"
proof -
  have "length (lfs_gstate_tole32 g) = 12" by (simp add: lfs_gstate_tole32_def)
  then show ?thesis unfolding state_entry_def wf_entry_def fst_conv snd_conv movestate_fields(2) using movestate_fields by simp
qed

text \<open>What the global state has changed by, with what the pair itself has stored of it.\<close>

definition state_delta :: "'d lfs \<Rightarrow> log_entry list \<Rightarrow> lfs_gstate" where
  "state_delta s les = (let delta = lfs_gstate_xor (lfs_gstate_xor (lfs_gstate_xor gstate_zero (l_gdisk s)) (l_gstate s)) (l_gdelta s)
     in with_stored les (delta\<lparr>gs_tag := gs_tag delta AND NOT (lfs_mktag 0 0 0x3ff)\<rparr>))"

text \<open>The entries a compaction writes.\<close>

definition compacted_items :: "lfs_mdir \<Rightarrow> log_entry list \<Rightarrow> lfs_mattr list \<Rightarrow> u16 \<Rightarrow> u16 \<Rightarrow> item list" where
  "compacted_items src les attrs begn en =
    kept (lfs_mktag 0x400 0x3ff 0) (lfs_mktag LFS_TYPE_NAME 0 0) begn en (- begn) (trav_items src 0 0xffffffff les attrs)"

definition compacted_entries :: "bytes \<Rightarrow> lfs_mdir \<Rightarrow> log_entry list \<Rightarrow> lfs_mattr list \<Rightarrow> u16 \<Rightarrow> u16 \<Rightarrow> lfs_mdir \<Rightarrow> lfs_gstate \<Rightarrow> log_entry list" where
  "compacted_entries bs src les attrs begn en d delta = map (item_entry bs) (compacted_items src les attrs begn en)
     @ (if \<not> lfs_pair_isnull (md_tail d) then [tail_entry d] else []) @ (if \<not> lfs_gstate_iszero delta then [state_entry delta] else [])"

text \<open>Whether a compaction stays in the pair.\<close>

definition stays_put :: "'d lfs_config \<Rightarrow> lfs_mdir \<Rightarrow> bool" where
  "stays_put cfg d \<longleftrightarrow> \<not> (sint (cfg_block_cycles cfg) > 0 \<and> unat ((cfg_block_cycles cfg + 1) OR 1) dvd unat (md_rev d + 1))
     \<or> \<not> lfs_pair_cmp (md_pair d) (0, 1)"

lemma compacted_surviving:
  assumes "trav_source bs d 0 0xffffffff les attrs"
  shows "map (item_entry bs) (compacted_items d les attrs begn en) = surviving les attrs begn en"
proof -
  have f: "unat (lfs_tag_dsize 0xffffffff) = 4" by code_simp
  have "list_all2 (same_data bs) (attr_items attrs)
      (map (\<lambda>a. (ma_tag a, case ma_buf a of Bytes data \<Rightarrow> take (unat (lfs_tag_dsize (ma_tag a)) - 4) data | _ \<Rightarrow> [])) attrs)"
    if "list_all (\<lambda>a. \<not> is_disk (ma_buf a)) attrs"
    using that by (induction attrs) (auto simp: attr_items_def same_data_def item_entry_def is_disk_def split: attr_buf.splits)
  then have "list_all2 (same_data bs) (trav_items d 0 0xffffffff les attrs) (traversed les attrs)"
    using assms walk_same_data [of bs 4 "0xffffffff" les "unat (md_off d)" "fst (md_pair d)"]
    unfolding traversed_def trav_items_def trav_source_def by (auto simp: f intro!: list_all2_appendI)
  from kept_same_data [OF this] have "list_all2 (same_data bs) (compacted_items d les attrs begn en)
      (kept (lfs_mktag 0x400 0x3ff 0) (lfs_mktag LFS_TYPE_NAME 0 0) begn en (- begn) (traversed les attrs))"
    by (simp add: compacted_items_def)
  then show ?thesis
    unfolding surviving_def by (induction rule: list_all2_induct) (auto simp: same_data_def)
qed

text \<open>What a compaction needs of the log and the attributes.\<close>

definition compactable :: "bytes \<Rightarrow> nat \<Rightarrow> lfs_mdir \<Rightarrow> log_entry list \<Rightarrow> lfs_mattr list \<Rightarrow> u16 \<Rightarrow> u16 \<Rightarrow> bool" where
  "compactable bs bsz d les attrs begn en \<longleftrightarrow> trav_source bs d 0 0xffffffff les attrs
     \<and> plain_items (lfs_mktag 0x400 0x3ff 0) (trav_items d 0 0xffffffff les attrs)
     \<and> list_all (item_ok (fst (md_pair d)) bsz) (compacted_items d les attrs begn en)
     \<and> list_all wf_entry (map (item_entry bs) (compacted_items d les attrs begn en))"

context block_device
begin

lemma wf_entry_sized: "wf_entry e \<Longrightarrow> sized e"
  by (simp add: wf_entry_def sized_def)

lemma compact_body_run:
  assumes r: "ready cfg s" and dir: "l_nodes s dir = Some nd" "l_nodes s source = Some ns"
    and y: "snd (md_pair (nd_m nd)) = y" "unat y < bcount" "cache_block (l_rcache s) \<noteq> y"
    and x: "fst (md_pair (nd_m nd)) = x" "unat x < bcount" "x \<noteq> y"
    and z: "fst (md_pair (nd_m ns)) = z" "unat z < bcount" "z \<noteq> y"
    and log: "dir_log (blk (l_dev s) x) (nd_m nd) dles" "unat (md_off (nd_m nd)) \<le> bsz"
    and src: "trav_source (blk (l_dev s) z) (nd_m ns) 0 0xffffffff les attrs"
      "plain_items (lfs_mktag 0x400 0x3ff 0) (trav_items (nd_m ns) 0 0xffffffff les attrs)"
    and items: "list_all (item_ok z bsz) (compacted_items (nd_m ns) les attrs begn en)"
      "list_all wf_entry (map (item_entry (blk (l_dev s) z)) (compacted_items (nd_m ns) les attrs begn en))"
    and es: "es = compacted_entries (blk (l_dev s) z) (nd_m ns) les attrs begn en (nd_m nd) (state_delta s dles)"
    and room: "metadata_limit cfg = cfg_block_size cfg" "length (entries_bytes 0xffffffff es) + 12 \<le> bsz"
    and small: "unat (cfg_prog_size cfg) \<le> 1000"
  shows "\<exists>t fc ctag pad k off. lfs_dir_compact_body dir attrs source begn en (False, tired) s = Some (Val (Inr False), t)
    \<and> closing fc \<and> block_log (blk (l_dev t) y) (md_rev (nd_m nd)) [(es @ fc, ctag, pad)] (replicate k 0xff)
    \<and> (\<forall>c. unat c < bcount \<longrightarrow> c \<noteq> y \<longrightarrow> blk (l_dev t) c = blk (l_dev s) c) \<and> ready cfg t
    \<and> l_nodes t = (l_nodes s)(dir \<mapsto> nd\<lparr>nd_m := (nd_m nd)\<lparr>md_pair := lfs_pair_swap (md_pair (nd_m nd)), md_count := en - begn,
         md_off := off, md_etag := end_tag 0xffffffff [(es @ fc, ctag, pad)]\<rparr>\<rparr>)
    \<and> unat off = length (log_head (md_rev (nd_m nd)) [(es @ fc, ctag, pad)]) \<and> lfs_tag_isvalid (next_tag ctag)
    \<and> l_gstate t = l_gstate s \<and> l_gdisk t = l_gstate s \<and> l_gdelta t = gstate_zero \<and> l_mlist t = l_mlist s
    \<and> l_root t = l_root s \<and> l_next_node t = l_next_node s
    \<and> (\<forall>z. unat z < bcount \<longrightarrow> z \<noteq> y \<longrightarrow> cache_block (l_rcache t) \<noteq> z)"
proof -
  define d where "d = nd_m nd"
  define N where "N = l_nodes s"
  define d0 where "d0 = l_dev s"
  define rv where "rv = md_rev d"
  let ?W = "\<lambda>w t. written cfg N d0 y w s t"
  obtain e1 where e1: "lfs_bd_erase y s = Some (Val (), s\<lparr>l_dev := e1\<rparr>)" "writer cfg N d0 y [] (s\<lparr>l_dev := e1\<rparr>)" "elsewhere y (s\<lparr>l_dev := e1\<rparr>)"
    using ready_erase [OF r y(2,3)] unfolding N_def d0_def by blast
  note f = writer_facts [OF e1(2)]
  define cm0 where "cm0 = \<lparr>cm_block = y, cm_off = 0, cm_ptag = 0xffffffff, cm_crc = 0xffffffff, cm_begin = 0, cm_end = metadata_limit cfg - 8\<rparr>"
  define cm where "cm = cm0\<lparr>cm_crc := lfs_crc (cm_crc cm0) (u32_to_le rv), cm_off := cm_off cm0 + word_of_nat (length (u32_to_le rv))\<rparr>"
  have ce: "unat (cm_end cm) + 8 = bsz"
    using room f(5) by (simp add: cm_def cm0_def unat_sub word_le_nat_alt)
  have cmf: "cm_block cm = y" "cm_ptag cm = 0xffffffff" "unat (cm_off cm) = length (u32_to_le rv)"
    by (simp_all add: cm_def cm0_def)
  have b: "begins rv [] cm" by (simp add: begins_def log_head_def cm_def cm0_def)
  obtain s2 where s2: "lfs_dir_commitprog cm0 (u32_to_le rv) (s\<lparr>l_dev := e1\<rparr>) = Some (Val cm, s2)" "?W (u32_to_le rv @ entries_bytes (cm_ptag cm) []) s2"
  proof -
    have c0: "cm_block cm0 = y" "unat (cm_off cm0) = length []" "length [] + length (u32_to_le rv) \<le> bsz"
      using room(2) by (simp_all add: cm0_def)
    obtain t where t: "lfs_dir_commitprog cm0 (u32_to_le rv) (s\<lparr>l_dev := e1\<rparr>) = Some (Val cm, t)"
        "writer cfg N d0 y (u32_to_le rv) t" "elsewhere y t"
      using writer_commitprog [OF e1(2) c0] e1(3) unfolding cm_def by auto
    have "meta_frame s (s\<lparr>l_dev := e1\<rparr>)" by (simp add: meta_frame_def)
    from mf.R_trans [OF this keepsD [OF mf_commit(1) t(1)]] t that show ?thesis by (simp add: written_def)
  qed
  define its where "its = compacted_items (nd_m ns) les attrs begn en"
  define es1 where "es1 = map (item_entry (blk d0 z)) its"
  define tl where "tl = (if \<not> lfs_pair_isnull (md_tail d) then [tail_entry d] else [])"
  define delta where "delta = state_delta s dles"
  define stt where "stt = (if \<not> lfs_gstate_iszero delta then [state_entry delta] else [])"
  have E: "es = (es1 @ tl) @ stt" by (simp add: es compacted_entries_def es1_def its_def d_def d0_def tl_def stt_def delta_def)
  have wf1: "list_all wf_entry es1" using items(2) by (simp add: es1_def its_def d0_def)
  have wft: "list_all wf_entry tl" "list_all wf_entry stt" by (simp_all add: tl_def stt_def wf_tail_entry wf_state_entry)
  have room': "length (u32_to_le rv) + length (entries_bytes (cm_ptag cm) es) \<le> unat (cm_end cm)" "unat (cm_end cm) \<le> bsz"
    using room(2) ce cmf(2) by simp_all
  have pre: "length (u32_to_le rv) + length (entries_bytes (cm_ptag cm) fs) \<le> unat (cm_end cm)" if "fs @ gs = es" for fs gs
    using room'(1) entries_append [of "cm_ptag cm" fs gs] that by simp
  have w2: "?W (u32_to_le rv) s2" using s2(2) by simp
  obtain s3 where s3: "lfs_dir_traverse (nd_m ns) 0 0xffffffff attrs (lfs_mktag 0x400 0x3ff 0) (lfs_mktag LFS_TYPE_NAME 0 0) begn en (- begn)
      lfs_dir_commit_commit cm s2 = Some (Val (0, with_entries es1 cm), s3)" "?W (u32_to_le rv @ entries_bytes (cm_ptag cm) es1) s3"
    using traverse_writes [OF w2 cmf(1,3) z src(1) [folded d0_def] src(2) _ items(1) [folded its_def] es1_def, of "lfs_mktag LFS_TYPE_NAME 0 0" begn en "- begn"]
      pre [of es1 "tl @ stt"] room'(2) E
    by (auto simp: its_def compacted_items_def)
  obtain s4 where s4: "(if \<not> lfs_pair_isnull (md_tail d) then lfs_dir_commitattr (with_entries es1 cm) (fst (tail_entry d)) (Bytes (snd (tail_entry d)))
      else ret (with_entries es1 cm)) s3 = Some (Val (with_entries (es1 @ tl) cm), s4)" "?W (u32_to_le rv @ entries_bytes (cm_ptag cm) (es1 @ tl)) s4"
    using written_optional [OF s3(2) cmf(1,3) wf_entry_sized [OF wf_tail_entry], of "\<not> lfs_pair_isnull (md_tail d)" d z] pre [of "es1 @ tl" stt] room'(2) E z
    unfolding tl_def by blast
  obtain s5 where s5: "lfs_dir_getgstate d (let delta = lfs_gstate_xor (lfs_gstate_xor (lfs_gstate_xor gstate_zero (l_gdisk s)) (l_gstate s)) (l_gdelta s)
      in delta\<lparr>gs_tag := gs_tag delta AND NOT (lfs_mktag 0 0 0x3ff)\<rparr>) s4 = Some (Val delta, s5)"
      "?W (u32_to_le rv @ entries_bytes (cm_ptag cm) (es1 @ tl)) s5"
    using written_getgstate [OF s4(2), of d dles] x log by (auto simp: d_def d0_def delta_def state_delta_def Let_def)
  obtain s6 where s6: "(if \<not> lfs_gstate_iszero delta then lfs_dir_commitattr (with_entries (es1 @ tl) cm) (fst (state_entry delta)) (Bytes (snd (state_entry delta)))
      else ret (with_entries (es1 @ tl) cm)) s5 = Some (Val (with_entries es cm), s6)" "?W (u32_to_le rv @ entries_bytes (cm_ptag cm) es) s6"
    using written_optional [OF s5(2) cmf(1,3) wf_entry_sized [OF wf_state_entry], of "\<not> lfs_gstate_iszero delta" delta z] pre [of es "[]"] room'(2) E z
    unfolding stt_def by auto
  have wf: "list_all wf_entry es" using wf1 wft by (simp add: E)
  have w6: "writer cfg N d0 y (log_head rv [] @ entries_bytes (cm_ptag cm) es) s6" "elsewhere y s6" "meta_frame s s6"
    using s6(2) by (simp_all add: written_def log_head_def)
  have roomf: "length (log_head rv []) + length (entries_bytes (cm_ptag cm) es) \<le> unat (cm_end cm)"
    using room'(1) by (simp add: log_head_def)
  obtain fc ctag pad k t cm' where fin: "closing fc" "lfs_dir_commitcrc (with_entries es cm) s6 = Some (Val cm', t)" "ready cfg t" "l_nodes t = N"
    "\<forall>c. unat c < bcount \<longrightarrow> c \<noteq> y \<longrightarrow> blk (l_dev t) c = blk d0 c"
    "block_log (blk (l_dev t) y) rv ([] @ [(es @ fc, ctag, pad)]) (replicate k 0xff)"
    "unat (cm_off cm') = length (log_head rv ([] @ [(es @ fc, ctag, pad)]))" "unat (cfg_prog_size cfg) dvd unat (cm_off cm')"
    "cm_ptag cm' = end_tag 0xffffffff ([] @ [(es @ fc, ctag, pad)])" "lfs_tag_isvalid (next_tag ctag)"
    "\<forall>z. unat z < bcount \<longrightarrow> z \<noteq> y \<longrightarrow> cache_block (l_rcache t) \<noteq> z"
    using writer_finish [OF w6(1,2) cmf(1) b wf ce roomf small] by blast
  have mt: "meta_frame s t" by (rule mf.R_trans [OF w6(3) keepsD [OF mf_commit(3) fin(2)]])
  define nd' where "nd' = nd\<lparr>nd_m := d\<lparr>md_pair := lfs_pair_swap (md_pair d), md_count := en - begn, md_off := cm_off cm', md_etag := cm_ptag cm'\<rparr>\<rparr>"
  define t' where "t' = t\<lparr>l_nodes := N(dir \<mapsto> nd'), l_gdelta := gstate_zero, l_gdisk := l_gstate t\<rparr>"
  have N: "N dir = Some nd" "N source = Some ns" using dir by (simp_all add: N_def)
  have nodes: "l_nodes u = N" if "?W w u" for w u using that by (simp add: written_def log_writer_def)
  have bg: "bnd (get_mdir dir) kk u = kk d u" "bnd (get_mdir source) kk u = kk (nd_m ns) u" if "l_nodes u = N" for u :: "'d lfs" and kk :: "_ \<Rightarrow> ('d, 'x) fs"
    using N that by (simp_all add: d_def bnd_run_Val [OF get_mdir_run])
  note g0 = bg [of s, folded N_def, OF refl] and g2 = bg [OF nodes [OF s2(2)]] and g3 = bg [OF nodes [OF s3(2)]] and g4 = bg [OF nodes [OF s4(2)]]
  have u: "bnd (upd_mdir dir f) kk t = kk () (t\<lparr>l_nodes := N(dir \<mapsto> nd\<lparr>nd_m := f (nd_m nd)\<rparr>)\<rparr>)" for f :: "lfs_mdir \<Rightarrow> lfs_mdir" and kk :: "_ \<Rightarrow> ('d, 'x) fs"
    using N fin(4) by (intro bnd_run_Val) (simp add: upd_mdir_run)
  let ?delta0 = "let delta = lfs_gstate_xor (lfs_gstate_xor (lfs_gstate_xor gstate_zero (l_gdisk s)) (l_gstate s)) (l_gdelta s)
      in delta\<lparr>gs_tag := gs_tag delta AND NOT (lfs_mktag 0 0 0x3ff)\<rparr>"
  have k1: "compact_step dir tired (lfs_bd_erase y) kk s = kk () (s\<lparr>l_dev := e1\<rparr>)" for kk
    by (rule compact_step_Val) (rule e1(1))
  have k2: "compact_step dir tired (lfs_dir_commitprog cm0 (u32_to_le rv)) kk (s\<lparr>l_dev := e1\<rparr>) = kk cm s2" for kk
    by (rule compact_step_Val) (rule s2(1))
  have c3: "compact_step dir tired (bnd (get_mdir source) (\<lambda>src. lfs_dir_traverse src 0 0xffffffff attrs (lfs_mktag 0x400 0x3ff 0)
      (lfs_mktag LFS_TYPE_NAME 0 0) begn en (- begn) lfs_dir_commit_commit cm)) kk s2 = kk (0, with_entries es1 cm) s3" for kk
    by (rule compact_step_Val) (simp only: g2 s3(1))
  have c4: "compact_step dir tired (bnd (get_mdir dir) (\<lambda>d. if \<not> lfs_pair_isnull (md_tail d)
       then lfs_dir_commitattr (with_entries es1 cm) (ma_tag (tail_attr (md_split d) (md_tail d))) (ma_buf (tail_attr (md_split d) (md_tail d)))
       else ret (with_entries es1 cm))) kk s3 = kk (with_entries (es1 @ tl) cm) s4" for kk
    by (rule compact_step_Val) (use s4(1) in \<open>simp only: g3 tail_entry_def fst_conv snd_conv tail_attr_def lfs_mattr.simps\<close>)
  have "meta_frame s s4" using s4(2) by (simp add: written_def)
  then have c5: "bnd (compact_delta False) kk s4 = kk ?delta0 s4" for kk :: "_ \<Rightarrow> ('d, 'x) fs"
    by (simp add: compact_delta_def bnd_assoc bnd_gets Let_def meta_frame_def)
  have c6: "bnd (lfs_dir_getgstate d ?delta0) kk s4 = kk delta s5" for kk :: "_ \<Rightarrow> ('d, 'x) fs"
    by (rule bnd_run_Val) (rule s5(1))
  have c7: "compact_step dir tired (if \<not> lfs_gstate_iszero delta then lfs_dir_commitattr (with_entries (es1 @ tl) cm) movestate_tag (Bytes (lfs_gstate_tole32 delta))
      else ret (with_entries (es1 @ tl) cm)) kk s5 = kk (with_entries es cm) s6" for kk
    by (rule compact_step_Val) (use s6(1) in \<open>simp only: state_entry_def fst_conv snd_conv\<close>)
  have c8: "compact_step dir tired (lfs_dir_commitcrc (with_entries es cm)) kk s6 = kk cm' t" for kk
    by (rule compact_step_Val) (rule fin(2))
  have cfg: "l_cfg s = cfg" using r by (simp add: log_ready_def)
  have "lfs_dir_compact_body dir attrs source begn en (False, tired) s = Some (Val (Inr False), t')"
    by (simp only: lfs_dir_compact_body_def prod.case bnd_gets cfg g0 y(1) [folded d_def] Let_def [of "\<lparr>cm_block = _, cm_off = _, cm_ptag = _, cm_crc = _, cm_begin = _, cm_end = _\<rparr>"]
        cm0_def [symmetric] rv_def [symmetric] k1 k2 c3 c4 c5 g4 c6 c7 c8 fin(8) check_True bnd_ret u)
      (simp add: gdelta_clear_def bnd_modify ret_def t'_def nd'_def d_def)
  moreover have "ready cfg t'" using fin(3) by (auto simp: log_ready_def t'_def prog_geometry_def attached_to_def)
  moreover have "l_gstate t' = l_gstate s" "l_gdisk t' = l_gstate s" "l_gdelta t' = gstate_zero" "l_mlist t' = l_mlist s"
    "l_root t' = l_root s" "l_next_node t' = l_next_node s" "l_dev t' = l_dev t" "l_nodes t' = N(dir \<mapsto> nd')" "l_rcache t' = l_rcache t"
    using mt by (simp_all add: t'_def meta_frame_def)
  ultimately show ?thesis
    using fin(1,5-7,9-11) unfolding nd'_def d_def d0_def N_def rv_def append_Nil
    by (intro exI [of _ t'] exI [of _ fc] exI [of _ ctag] exI [of _ pad] exI [of _ k] exI [of _ "cm_off cm'"]) (simp only: simp_thms)
qed

lemma compact_run:
  assumes r: "ready cfg s" and dir: "l_nodes s dir = Some nd" and put: "stays_put cfg (nd_m nd)"
  shows "lfs_dir_compact dir attrs source begn en s =
    (let n = nd\<lparr>nd_m := (nd_m nd)\<lparr>md_rev := md_rev (nd_m nd) + 1\<rparr>\<rparr>;
         tired = (sint (cfg_block_cycles cfg) > 0 \<and> unat ((cfg_block_cycles cfg + 1) OR 1) dvd unat (md_rev (nd_m nd) + 1))
     in bnd (mloop (lfs_dir_compact_body dir attrs source begn en) (False, tired)) (\<lambda>relocated. ret (if relocated then LFS_OK_RELOCATED else 0))
       (s\<lparr>l_nodes := (l_nodes s)(dir \<mapsto> n)\<rparr>))"
proof -
  have cfg: "l_cfg s = cfg" using r by (simp add: log_ready_def)
  have g: "bnd (get_mdir dir) k s = k (nd_m nd) s" for k :: "_ \<Rightarrow> ('d, 'x) fs"
    by (rule bnd_run_Val) (rule get_mdir_run [of s dir nd, OF dir])
  have u: "bnd (upd_mdir dir f) k s = k () (s\<lparr>l_nodes := (l_nodes s)(dir \<mapsto> nd\<lparr>nd_m := f (nd_m nd)\<rparr>)\<rparr>)" for f :: "lfs_mdir \<Rightarrow> lfs_mdir" and k :: "_ \<Rightarrow> ('d, 'x) fs"
    by (rule bnd_run_Val) (rule upd_mdir_run [of s dir nd, OF dir])
  show ?thesis
    using put by (auto simp: lfs_dir_compact_def lfs_dir_needsrelocation_def bnd_assoc bnd_gets g u cfg stays_put_def Let_def)
qed

text \<open>A whole compaction of a pair into its other block.\<close>

lemma compact_writes:
  assumes r: "ready cfg s" and dir: "l_nodes s dir = Some nd" "md_pair (nd_m nd) = (x, y)"
    and xy: "unat x < bcount" "unat y < bcount" "x \<noteq> y" "cache_block (l_rcache s) \<noteq> y"
    and log: "dir_log (blk (l_dev s) x) (nd_m nd) dles" "unat (md_off (nd_m nd)) \<le> bsz"
    and can: "compactable (blk (l_dev s) x) bsz (nd_m nd) les attrs begn en" "stays_put cfg (nd_m nd)"
    and es: "es = compacted_entries (blk (l_dev s) x) (nd_m nd) les attrs begn en (nd_m nd) (state_delta s dles)"
    and room: "metadata_limit cfg = cfg_block_size cfg" "length (entries_bytes 0xffffffff es) + 12 \<le> bsz"
    and small: "unat (cfg_prog_size cfg) \<le> 1000"
  shows "\<exists>t fc ctag pad k off. lfs_dir_compact dir attrs dir begn en s = Some (Val 0, t)
    \<and> closing fc \<and> block_log (blk (l_dev t) y) (md_rev (nd_m nd) + 1) [(es @ fc, ctag, pad)] (replicate k 0xff)
    \<and> (\<forall>c. unat c < bcount \<longrightarrow> c \<noteq> y \<longrightarrow> blk (l_dev t) c = blk (l_dev s) c) \<and> ready cfg t
    \<and> l_nodes t = (l_nodes s)(dir \<mapsto> nd\<lparr>nd_m := (nd_m nd)\<lparr>md_rev := md_rev (nd_m nd) + 1, md_pair := (y, x), md_count := en - begn,
         md_off := off, md_etag := end_tag 0xffffffff [(es @ fc, ctag, pad)]\<rparr>\<rparr>)
    \<and> unat off = length (log_head (md_rev (nd_m nd) + 1) [(es @ fc, ctag, pad)]) \<and> lfs_tag_isvalid (next_tag ctag)
    \<and> l_gstate t = l_gstate s \<and> l_gdisk t = l_gstate s \<and> l_gdelta t = gstate_zero \<and> l_mlist t = l_mlist s
    \<and> l_root t = l_root s \<and> l_next_node t = l_next_node s
    \<and> (\<forall>z. unat z < bcount \<longrightarrow> z \<noteq> y \<longrightarrow> cache_block (l_rcache t) \<noteq> z)"
proof -
  define n where "n = nd\<lparr>nd_m := (nd_m nd)\<lparr>md_rev := md_rev (nd_m nd) + 1\<rparr>\<rparr>"
  define u where "u = s\<lparr>l_nodes := (l_nodes s)(dir \<mapsto> n)\<rparr>"
  define tired where "tired \<longleftrightarrow> sint (cfg_block_cycles cfg) > 0 \<and> unat ((cfg_block_cycles cfg + 1) OR 1) dvd unat (md_rev (nd_m nd) + 1)"
  have rd: "ready cfg u" using r by (auto simp: u_def log_ready_def prog_geometry_def attached_to_def)
  have items: "trav_items (nd_m n) q p les attrs = trav_items (nd_m nd) q p les attrs" for q p by (simp add: n_def trav_items_def)
  have nn: "trav_source (blk (l_dev s) x) (nd_m n) 0 0xffffffff les attrs"
      "plain_items (lfs_mktag 0x400 0x3ff 0) (trav_items (nd_m n) 0 0xffffffff les attrs)"
      "list_all (item_ok x bsz) (compacted_items (nd_m n) les attrs begn en)"
      "list_all wf_entry (map (item_entry (blk (l_dev s) x)) (compacted_items (nd_m n) les attrs begn en))"
    using can(1) dir(2) by (simp_all add: compactable_def trav_source_def items compacted_items_def) (simp_all add: n_def)
  have "tail_entry (nd_m n) = tail_entry (nd_m nd)" by (simp add: n_def tail_entry_def)
  then have es': "es = compacted_entries (blk (l_dev u) x) (nd_m n) les attrs begn en (nd_m n) (state_delta u dles)"
    unfolding es by (simp add: compacted_entries_def compacted_items_def items state_delta_def u_def) (simp add: n_def)
  have run: "lfs_dir_compact dir attrs dir begn en s =
      bnd (mloop (lfs_dir_compact_body dir attrs dir begn en) (False, tired)) (\<lambda>relocated. ret (if relocated then LFS_OK_RELOCATED else 0)) u"
    unfolding compact_run [OF r dir(1) can(2)] Let_def tired_def u_def n_def ..
  have nu: "l_nodes u dir = Some n" by (simp add: u_def)
  have p: "md_pair (nd_m n) = (x, y)" using dir(2) by (simp add: n_def)
  then have pp: "fst (md_pair (nd_m n)) = x" "snd (md_pair (nd_m n)) = y" by simp_all
  have pu: "l_dev u = l_dev s" "cache_block (l_rcache u) \<noteq> y" "dir_log (blk (l_dev u) x) (nd_m n) dles" "unat (md_off (nd_m n)) \<le> bsz"
    using log xy(4) by (simp_all add: u_def n_def dir_log_def)
  note nn' = nn [folded pu(1)]
  obtain t fc ctag pad k off where t: "lfs_dir_compact_body dir attrs dir begn en (False, tired) u = Some (Val (Inr False), t)"
      "closing fc" "block_log (blk (l_dev t) y) (md_rev (nd_m n)) [(es @ fc, ctag, pad)] (replicate k 0xff)"
      "\<forall>c. unat c < bcount \<longrightarrow> c \<noteq> y \<longrightarrow> blk (l_dev t) c = blk (l_dev u) c" "ready cfg t"
      "l_nodes t = (l_nodes u)(dir \<mapsto> n\<lparr>nd_m := (nd_m n)\<lparr>md_pair := lfs_pair_swap (md_pair (nd_m n)), md_count := en - begn,
         md_off := off, md_etag := end_tag 0xffffffff [(es @ fc, ctag, pad)]\<rparr>\<rparr>)"
      "unat off = length (log_head (md_rev (nd_m n)) [(es @ fc, ctag, pad)])" "lfs_tag_isvalid (next_tag ctag)"
      "l_gstate t = l_gstate u" "l_gdisk t = l_gstate u" "l_gdelta t = gstate_zero" "l_mlist t = l_mlist u" "l_root t = l_root u"
      "l_next_node t = l_next_node u" "\<forall>z. unat z < bcount \<longrightarrow> z \<noteq> y \<longrightarrow> cache_block (l_rcache t) \<noteq> z"
    using compact_body_run [OF rd nu nu pp(2) xy(2) pu(2) pp(1) xy(1,3) pp(1) xy(1,3) pu(3,4) nn' es' room small] by blast
  have "lfs_dir_compact dir attrs dir begn en s = Some (Val 0, t)"
    unfolding run using mloop_stop [where body = "lfs_dir_compact_body dir attrs dir begn en", OF t(1)] by (simp add: bnd_def ret_def)
  moreover have "l_nodes t = (l_nodes s)(dir \<mapsto> nd\<lparr>nd_m := (nd_m nd)\<lparr>md_rev := md_rev (nd_m nd) + 1, md_pair := (y, x), md_count := en - begn,
         md_off := off, md_etag := end_tag 0xffffffff [(es @ fc, ctag, pad)]\<rparr>\<rparr>)"
    using t(6) by (simp add: u_def p lfs_pair_swap_def) (simp add: n_def)
  ultimately show ?thesis
    using t(2-5,7-15)
    by (intro exI [of _ t] exI [of _ fc] exI [of _ ctag] exI [of _ pad] exI [of _ k] exI [of _ off]) (simp add: n_def u_def)
qed

end

subsection \<open>The property\<close>

text \<open>C4 (refinement). Compacting a pair in place is the step \<open>compacted\<close> of its history.  On any device, for a
  pair with any history whose newest log is the one the directory handle has fetched, compacting it
  together with attributes that carry their own data succeeds while the result fits, and the other block
  of the pair then holds one complete commit under the next revision: the entries that survive, the tail,
  and the part of the global state the pair is responsible for, followed at most by the entry that describes
  the erased rest.  The handle is moved to that block, the block with the old log and all others are as
  they were, and the global state counts as stored.

  The limits.  The attributes are none of \<open>FROM_MOVE\<close> (a rename copies an entry of another pair with it)
  and \<open>FROM_USERATTRS\<close> (a file is synchronised with it), the entries that survive are as long as their tags
  say (\<open>compactable\<close>), and the range of ids kept starts at the first.  The pair is not due to be moved by wear levelling (\<open>stays_put\<close>):
  a worn pair is written to a fresh block instead, and the compaction reports \<open>LFS_OK_RELOCATED\<close>, which is not
  covered, nor is a block that fails.  Nothing is pending in the program cache, which has a buffer of its own
  (\<open>log_ready\<close>), the read cache does not hold the block that is overwritten, the metadata may fill a block, and a program unit has at most 1000 bytes, so that one closing entry is enough.\<close>

theorem compaction_extends_history:
  assumes "block_device st dok blk bsz bcount" "log_ready st dok blk bsz bcount cfg s"
    and "l_nodes s dir = Some nd" "mdir_holds (x, y) rv cs (nd_m nd)" "lfs_tag_isvalid (md_etag (nd_m nd))"
    and "pair_history x (blk (l_dev s) x) y (blk (l_dev s) y) rv cs"
    and "unat x < bcount" "unat y < bcount" "cache_block (l_rcache s) \<noteq> y"
    and "compactable (blk (l_dev s) x) bsz (nd_m nd) (log_entries rv cs) attrs 0 en" "stays_put cfg (nd_m nd)"
    and "es = surviving (log_entries rv cs) attrs 0 en @ (if \<not> lfs_pair_isnull (md_tail (nd_m nd)) then [tail_entry (nd_m nd)] else [])
      @ (if \<not> lfs_gstate_iszero (state_delta s (rev (log_entries rv cs))) then [state_entry (state_delta s (rev (log_entries rv cs)))] else [])"
    and "metadata_limit cfg = cfg_block_size cfg" "length (entries_bytes 0xffffffff es) + 12 \<le> bsz" "unat (cfg_prog_size cfg) \<le> 1000"
  shows "\<exists>t nd' fc ctag pad. lfs_dir_compact dir attrs dir 0 en s = Some (Val 0, t) \<and> closing fc
    \<and> pair_history y (blk (l_dev t) y) x (blk (l_dev t) x) (rv + 1) [(es @ fc, ctag, pad)]
    \<and> l_nodes t = (l_nodes s)(dir \<mapsto> nd\<lparr>nd_m := nd'\<rparr>) \<and> md_pair nd' = (y, x) \<and> md_rev nd' = rv + 1 \<and> md_count nd' = en
    \<and> md_tail nd' = md_tail (nd_m nd) \<and> unat (md_off nd') = length (log_head (rv + 1) [(es @ fc, ctag, pad)])
    \<and> lfs_tag_isvalid (md_etag nd')
    \<and> (\<forall>c. blk (l_dev t) c = blk (l_dev s) c \<or> c = y \<or> bcount \<le> unat c)
    \<and> l_gdisk t = l_gstate s \<and> l_gdelta t = gstate_zero \<and> log_ready st dok blk bsz bcount cfg t"
proof -
  let ?d = "nd_m nd" and ?les = "log_entries rv cs"
  obtain r where h: "x \<noteq> y" "cs \<noteq> []" "block_log (blk (l_dev s) x) rv cs r" using pair_history_holds [OF assms(6)] by (auto simp: pair_holds_def)
  have m: "md_pair ?d = (x, y)" "md_rev ?d = rv" using assms(4) by (simp_all add: mdir_holds_def)
  have log: "dir_log (blk (l_dev s) x) ?d (rev ?les)" by (rule fetched_dir_log [OF h(3) assms(4,5) h(2)])
  have src: "trav_source (blk (l_dev s) x) ?d 0 0xffffffff ?les attrs" using assms(10) by (simp add: compactable_def)
  have "dok (l_dev s)" using assms(2) by (simp add: log_ready_def prog_geometry_def attached_to_def)
  then have len: "length (blk (l_dev s) x) = bsz" using block_device.blk_length [OF assms(1) _ assms(7)] by simp
  then have off: "unat (md_off ?d) \<le> bsz" using src by (simp add: trav_source_def)
  have es: "es = compacted_entries (blk (l_dev s) x) ?d ?les attrs 0 en ?d (state_delta s (rev ?les))"
    unfolding compacted_entries_def compacted_surviving [OF src] by (rule assms(12))
  obtain t fc ctag pad k off where t: "lfs_dir_compact dir attrs dir 0 en s = Some (Val 0, t)" "closing fc"
      "block_log (blk (l_dev t) y) (md_rev ?d + 1) [(es @ fc, ctag, pad)] (replicate k 0xff)"
      "\<forall>c. unat c < bcount \<longrightarrow> c \<noteq> y \<longrightarrow> blk (l_dev t) c = blk (l_dev s) c" "log_ready st dok blk bsz bcount cfg t"
      "l_nodes t = (l_nodes s)(dir \<mapsto> nd\<lparr>nd_m := ?d\<lparr>md_rev := md_rev ?d + 1, md_pair := (y, x), md_count := en - 0,
         md_off := off, md_etag := end_tag 0xffffffff [(es @ fc, ctag, pad)]\<rparr>\<rparr>)"
      "unat off = length (log_head (md_rev ?d + 1) [(es @ fc, ctag, pad)])" "lfs_tag_isvalid (next_tag ctag)" "l_gdisk t = l_gstate s" "l_gdelta t = gstate_zero"
    using block_device.compact_writes [OF assms(1-3) m(1) assms(7,8) h(1) assms(9) log off assms(10,11) es assms(13-15)] by blast
  have "pair_history y (blk (l_dev t) y) x (blk (l_dev t) x) (rv + 1) [(es @ fc, ctag, pad)]"
    using compacted [OF assms(6) t(3) [unfolded m(2)]] t(4) assms(7) h(1) by simp
  with t m show ?thesis
    by (intro exI [of _ t] exI [of _ "?d\<lparr>md_rev := md_rev ?d + 1, md_pair := (y, x), md_count := en - 0,
         md_off := off, md_etag := end_tag 0xffffffff [(es @ fc, ctag, pad)]\<rparr>"] exI [of _ fc] exI [of _ ctag] exI [of _ pad])
      (auto simp: not_le)
qed

text \<open>The pair of the demo with its log fetched, compacted with a second file.\<close>

definition demo_fetched :: lfs_mdir where
  "demo_fetched = \<lparr>md_pair = (0, 1), md_rev = 1, md_off = 23, md_etag = 0x500ffc04, md_count = 1, md_erased = False, md_split = False,
     md_tail = (LFS_BLOCK_NULL, LFS_BLOCK_NULL)\<rparr>"

definition demo_pair :: "ram_storage lfs" where
  "demo_pair = (demo_state demo_torn_dev)\<lparr>l_nodes := [7 \<mapsto> node_default\<lparr>nd_m := demo_fetched\<rparr>]\<rparr>"

definition demo_kept :: "log_entry list" where
  "demo_kept = [(0x00100401, [97]), (0x20100401, [5]), (0x00100001, [98])]"

lemma demo_pair_log:
  obtains data where "log_entries 1 [demo_commit] = demo_entries @ [(0x500ffc04, data)]"
  by (simp add: log_entries_def demo_commit_def)

lemma demo_pair_ready: "log_ready (ram_driver 128) (ram_wf 128 4) (ram_blk 128) 128 4 demo_config demo_pair"
  using demo_torn_wf
  by (auto simp: log_ready_def prog_geometry_def attached_to_def coherent_to_def demo_pair_def demo_defs LFS_BLOCK_NULL_def)

lemma demo_pair_holds: "mdir_holds (0, 1) 1 [demo_commit] demo_fetched"
proof -
  have "log_summary [demo_commit] = (1, (LFS_BLOCK_NULL, LFS_BLOCK_NULL), False)" "end_tag 0xffffffff [demo_commit] = 0x500ffc04"
    by (code_simp, code_simp)
  then show ?thesis by (simp add: mdir_holds_def demo_fetched_def demo_torn_lengths del: commits_bytes.simps)
qed

lemma demo_trav_items:
  "trav_items demo_fetched 0 0xffffffff (demo_entries @ [(0x500ffc04, data)]) demo_trav_attrs
    = trav_items demo_fetched 0 0xffffffff (demo_entries @ [(0x500ffc04, [])]) demo_trav_attrs"
  by (simp add: trav_items_def demo_entries_def)

lemma demo_surviving: "surviving (log_entries 1 [demo_commit]) demo_trav_attrs 0 2 = demo_kept"
proof -
  obtain data where l: "log_entries 1 [demo_commit] = demo_entries @ [(0x500ffc04, data)]" by (rule demo_pair_log)
  show ?thesis unfolding l by code_simp
qed

lemma demo_compactable: "compactable (ram_blk 128 demo_torn_dev 0) 128 demo_fetched (log_entries 1 [demo_commit]) demo_trav_attrs 0 2"
proof -
  obtain data where l: "log_entries 1 [demo_commit] = demo_entries @ [(0x500ffc04, data)]" by (rule demo_pair_log)
  have "log_walk (ram_blk 128 demo_torn_dev 0) 4 0xffffffff (log_entries 1 [demo_commit]) 23"
    using block_log_walk(1) [OF demo_torn_logs(1)] by (simp add: log_head_def demo_torn_lengths del: commits_bytes.simps)
  moreover have "unat (lfs_tag_dsize 0xffffffff) = 4" "list_all (\<lambda>a. \<not> is_disk (ma_buf a)) demo_trav_attrs" by (code_simp, code_simp)
  moreover have "length (ram_blk 128 demo_torn_dev 0) = 128" unfolding demo_torn_blocks by (simp add: demo_torn_lengths del: commits_bytes.simps)
  ultimately have src: "trav_source (ram_blk 128 demo_torn_dev 0) demo_fetched 0 0xffffffff (log_entries 1 [demo_commit]) demo_trav_attrs"
    by (simp add: trav_source_def demo_fetched_def)
  have "plain_items (lfs_mktag 0x400 0x3ff 0) (trav_items demo_fetched 0 0xffffffff (log_entries 1 [demo_commit]) demo_trav_attrs)"
    unfolding l demo_trav_items [of data] by code_simp
  moreover have "list_all (item_ok (fst (md_pair demo_fetched)) 128) (compacted_items demo_fetched (log_entries 1 [demo_commit]) demo_trav_attrs 0 2)"
    unfolding compacted_items_def l demo_trav_items [of data] by code_simp
  moreover have "list_all wf_entry (surviving (log_entries 1 [demo_commit]) demo_trav_attrs 0 2)"
    unfolding demo_surviving by code_simp
  ultimately show ?thesis using src unfolding compactable_def compacted_surviving [OF src] by blast
qed


theorem compaction_extends_history_witness:
  "\<exists>t nd' fc ctag pad. lfs_dir_compact 7 demo_trav_attrs 7 0 2 demo_pair = Some (Val 0, t) \<and> closing fc
    \<and> pair_history 1 (ram_blk 128 (l_dev t) 1) 0 (ram_blk 128 (l_dev t) 0) (1 + 1) [(demo_kept @ fc, ctag, pad)]
    \<and> l_nodes t = (l_nodes demo_pair)(7 \<mapsto> (node_default\<lparr>nd_m := demo_fetched\<rparr>)\<lparr>nd_m := nd'\<rparr>) \<and> md_pair nd' = (1, 0) \<and> md_rev nd' = 1 + 1 \<and> md_count nd' = 2
    \<and> md_tail nd' = md_tail (nd_m (node_default\<lparr>nd_m := demo_fetched\<rparr>)) \<and> unat (md_off nd') = length (log_head (1 + 1) [(demo_kept @ fc, ctag, pad)])
    \<and> lfs_tag_isvalid (md_etag nd') \<and> (\<forall>c. ram_blk 128 (l_dev t) c = ram_blk 128 (l_dev demo_pair) c \<or> c = 1 \<or> 4 \<le> unat c)
    \<and> l_gdisk t = l_gstate demo_pair \<and> l_gdelta t = gstate_zero
    \<and> log_ready (ram_driver 128) (ram_wf 128 4) (ram_blk 128) 128 4 demo_config t"
proof (rule compaction_extends_history [OF demo_device demo_pair_ready])
  have dev: "l_dev demo_pair = demo_torn_dev" by (simp add: demo_pair_def demo_state_def)
  show "l_nodes demo_pair 7 = Some (node_default\<lparr>nd_m := demo_fetched\<rparr>)" by (simp add: demo_pair_def)
  show "mdir_holds (0, 1) 1 [demo_commit] (nd_m (node_default\<lparr>nd_m := demo_fetched\<rparr>))" using demo_pair_holds by simp
  show "lfs_tag_isvalid (md_etag (nd_m (node_default\<lparr>nd_m := demo_fetched\<rparr>)))" by code_simp
  show "pair_history 0 (ram_blk 128 (l_dev demo_pair) 0) 1 (ram_blk 128 (l_dev demo_pair) 1) 1 [demo_commit]"
    unfolding dev by (rule demo_history)
  show "cache_block (l_rcache demo_pair) \<noteq> 1" by (simp add: demo_pair_def demo_state_def LFS_BLOCK_NULL_def)
  show "compactable (ram_blk 128 (l_dev demo_pair) 0) 128 (nd_m (node_default\<lparr>nd_m := demo_fetched\<rparr>)) (log_entries 1 [demo_commit]) demo_trav_attrs 0 2"
    unfolding dev using demo_compactable by simp
  show "stays_put demo_config (nd_m (node_default\<lparr>nd_m := demo_fetched\<rparr>))" by code_simp
  have "\<not> \<not> lfs_pair_isnull (md_tail (nd_m (node_default\<lparr>nd_m := demo_fetched\<rparr>)))" by code_simp
  moreover obtain data where "log_entries 1 [demo_commit] = demo_entries @ [(0x500ffc04, data)]" by (rule demo_pair_log)
  then have "\<not> \<not> lfs_gstate_iszero (state_delta demo_pair (rev (log_entries 1 [demo_commit])))"
    by (simp add: state_delta_def demo_pair_def demo_state_def) code_simp
  ultimately show "demo_kept = surviving (log_entries 1 [demo_commit]) demo_trav_attrs 0 2
      @ (if \<not> lfs_pair_isnull (md_tail (nd_m (node_default\<lparr>nd_m := demo_fetched\<rparr>))) then [tail_entry (nd_m (node_default\<lparr>nd_m := demo_fetched\<rparr>))] else [])
      @ (if \<not> lfs_gstate_iszero (state_delta demo_pair (rev (log_entries 1 [demo_commit])))
         then [state_entry (state_delta demo_pair (rev (log_entries 1 [demo_commit])))] else [])"
    by (simp add: demo_surviving)
qed (simp_all add: metadata_limit_def demo_config_def demo_kept_def entry_bytes_def)

end
