(* ===== verification/CommitCompact.thy ===== *)
theory CommitCompact
  imports Compaction MountProps
begin

text \<open>
  Commits that compact.  A directory whose block is not erased behind its log is committed to by
  compacting it, through all the layers of \<open>lfs_dir_commit\<close>; and blocks are taken from a window that
  is all free.
\<close>

subsection \<open>The allocator of a device about to be formatted\<close>

definition blank_window :: "'d lfs \<Rightarrow> bool" where
  "blank_window s \<longleftrightarrow> (\<exists>n. l_bufs s (la_buffer (l_lookahead s)) = replicate n 0 \<and> unat (la_size (l_lookahead s)) \<le> 8 * n)
     \<and> l_block_count s \<noteq> 0"

lemma blank_probe:
  fixes s :: "'d lfs"
  assumes "blank_window s" "la_next (l_lookahead s) < la_size (l_lookahead s)"
  shows "bnd la_probe k s = k True s"
proof -
  obtain n where n: "l_bufs s (la_buffer (l_lookahead s)) = replicate n 0" "unat (la_size (l_lookahead s)) \<le> 8 * n"
    using assms(1) by (auto simp: blank_window_def)
  have "unat (la_next (l_lookahead s) div 8) < n"
    using assms(2) n(2) by (simp add: unat_div word_less_nat_alt)
  then show ?thesis
    using n by (simp add: la_probe_def bnd_gets bnd_assoc get_buf_def la_isfree_def)
qed

lemma blank_alloc:
  fixes s :: "'d lfs"
  assumes "blank_window s" "la_next (l_lookahead s) < la_size (l_lookahead s)"
  shows "lfs_alloc s = Some (Val ((la_start (l_lookahead s) + la_next (l_lookahead s)) mod l_block_count s),
    s\<lparr>l_lookahead := (l_lookahead s)\<lparr>la_next := la_next (l_lookahead s) + 1, la_ckpoint := la_ckpoint (l_lookahead s) - 1\<rparr>\<rparr>)"
proof -
  let ?la = "l_lookahead s"
  let ?t = "s\<lparr>l_lookahead := ?la\<lparr>la_next := la_next ?la + 1, la_ckpoint := la_ckpoint ?la - 1\<rparr>\<rparr>"
  have bt: "blank_window ?t" using assms(1) by (simp add: blank_window_def)
  have probe: "bnd la_probe k ?t = k True ?t" if "\<not> la_next ?la + 1 \<ge> la_size ?la" for k :: "_ \<Rightarrow> ('d, 'x) fs"
    by (rule blank_probe [OF bt]) (use that in \<open>simp add: not_le\<close>)
  have skip: "alloc_skip s = Some (Val (), ?t)"
    unfolding alloc_skip_def la_advance_def
    by (intro mloop_stop) (auto simp: bnd_modify bnd_gets ret_def probe)
  have bs: "bnd alloc_skip k s = k () ?t" for k :: "_ \<Rightarrow> ('d, 'x) fs" by (rule bnd_run_Val) (rule skip)
  have "alloc_window s = Some (Val (Some ((la_start ?la + la_next ?la) mod l_block_count s)), ?t)"
    unfolding alloc_window_def using assms
    by (intro mloop_stop) (simp add: bnd_gets blank_probe [OF assms] bs ret_def blank_window_def)
  then have bw: "bnd alloc_window k s = k (Some ((la_start ?la + la_next ?la) mod l_block_count s)) ?t" for k :: "_ \<Rightarrow> ('d, 'x) fs"
    by (rule bnd_run_Val)
  show ?thesis unfolding lfs_alloc_def by (rule mloop_stop) (simp add: bw ret_def)
qed

subsection \<open>Local structures\<close>

lemma with_mdir_run:
  assumes "l_next_node s = b" "u = s\<lparr>l_nodes := (l_nodes s)(b \<mapsto> node_default\<lparr>nd_m := m\<rparr>), l_next_node := Suc b\<rparr>"
    and "c b u = Some (r, t)" "v = t\<lparr>l_nodes := (l_nodes t)(b := None), l_next_node := b\<rparr>"
  shows "with_mdir m c s = Some (r, v)"
  using assms by (simp add: with_mdir_def with_node_def Let_def)

lemma mlist_each_empty: "l_mlist s = None \<Longrightarrow> bnd (mlist_each body) k s = k () s"
  unfolding mlist_each_def by (subst bnd_run_Val [of _ s "()" s]) (simp_all add: bnd_gets mloop_unfold ret_def)

subsection \<open>A commit that compacts\<close>

text \<open>The number of entries a commit leaves, of attributes that create but do not delete or link.\<close>

definition only_creates :: "lfs_mattr \<Rightarrow> bool" where
  "only_creates a \<longleftrightarrow> lfs_tag_type3 (ma_tag a) \<noteq> LFS_TYPE_DELETE \<and> lfs_tag_type1 (ma_tag a) \<noteq> LFS_TYPE_TAIL"

definition count_creates :: "lfs_mattr list \<Rightarrow> u16 \<Rightarrow> u16" where
  "count_creates = fold (\<lambda>a n. if lfs_tag_type3 (ma_tag a) = LFS_TYPE_CREATE then n + 1 else n)"

lemma note_creates:
  fixes s :: "'d lfs"
  assumes "list_all only_creates attrs" "l_nodes s a = Some nd"
  shows "mfold (commit_note_attr a) attrs b s = Some (Val b, s\<lparr>l_nodes := (l_nodes s)(a \<mapsto>
      nd\<lparr>nd_m := (nd_m nd)\<lparr>md_count := count_creates attrs (md_count (nd_m nd))\<rparr>\<rparr>)\<rparr>)"
  using assms
proof (induction attrs arbitrary: s nd)
  case Nil
  then have "(l_nodes s)(a \<mapsto> nd) = l_nodes s" by auto
  then show ?case by (simp add: count_creates_def ret_def)
next
  case (Cons x attrs)
  let ?n = "if lfs_tag_type3 (ma_tag x) = LFS_TYPE_CREATE then md_count (nd_m nd) + 1 else md_count (nd_m nd)"
  let ?nd = "nd\<lparr>nd_m := (nd_m nd)\<lparr>md_count := ?n\<rparr>\<rparr>"
  let ?s = "s\<lparr>l_nodes := (l_nodes s)(a \<mapsto> ?nd)\<rparr>"
  have same: "(l_nodes s)(a \<mapsto> nd) = l_nodes s" using Cons.prems(2) by auto
  have x: "commit_note_attr a x b s = Some (Val b, ?s)"
    using Cons.prems by (auto simp: commit_note_attr_def only_creates_def bnd_run_Val [OF upd_mdir_run] ret_def same)
  have b: "bnd (commit_note_attr a x b) k s = k b ?s" for k :: "_ \<Rightarrow> ('d, 'x) fs" by (rule bnd_run_Val) (rule x)
  have "mfold (commit_note_attr a) (x # attrs) b s = mfold (commit_note_attr a) attrs b ?s" by (simp only: mfold.simps b)
  also have "\<dots> = Some (Val b, ?s\<lparr>l_nodes := (l_nodes ?s)(a \<mapsto> ?nd\<lparr>nd_m := (nd_m ?nd)\<lparr>md_count := count_creates attrs (md_count (nd_m ?nd))\<rparr>\<rparr>)\<rparr>)"
    by (rule Cons.IH) (use Cons.prems in simp_all)
  finally have run: "mfold (commit_note_attr a) (x # attrs) b s = \<dots>" .
  have "?s\<lparr>l_nodes := (l_nodes ?s)(a \<mapsto> n)\<rparr> = s\<lparr>l_nodes := (l_nodes s)(a \<mapsto> n)\<rparr>" for n by simp
  moreover have "count_creates (x # attrs) (md_count (nd_m nd)) = count_creates attrs (md_count (nd_m ?nd))" by (simp add: count_creates_def)
  moreover have "?nd\<lparr>nd_m := (nd_m ?nd)\<lparr>md_count := c\<rparr>\<rparr> = nd\<lparr>nd_m := (nd_m nd)\<lparr>md_count := c\<rparr>\<rparr>" for c by simp
  ultimately show ?case unfolding run by (simp only:)
qed

text \<open>A revision count at which the pair is not due to be moved.\<close>

definition untired :: "'d lfs_config \<Rightarrow> u32 \<Rightarrow> bool" where
  "untired cfg rv \<longleftrightarrow> \<not> (sint (cfg_block_cycles cfg) > 0 \<and> unat ((cfg_block_cycles cfg + 1) OR 1) dvd unat (rv + 1))"

lemma untired_stays: "untired cfg (md_rev d) \<Longrightarrow> stays_put cfg d"
  by (simp add: untired_def stays_put_def)

lemma splitting_small:
  fixes s :: "'d lfs"
  assumes "l_nodes s dir = Some nd" "untired (l_cfg s) (md_rev (nd_m nd))" "en \<le> 1"
  shows "lfs_dir_splittingcompact dir attrs src 0 en s = lfs_dir_compact dir attrs src 0 en s"
proof -
  have g: "bnd (get_mdir dir) k s = k (nd_m nd) s" for k :: "_ \<Rightarrow> ('d, 'x) fs"
    by (rule bnd_run_Val) (rule get_mdir_run [OF assms(1)])
  have no: "(1 < en) = False" using assms(3) by simp
  have ss: "split_search attrs src en 0 s = Some (Val 0, s)"
    unfolding split_search_def by (intro mloop_stop) (simp add: ret_def no)
  have bs: "bnd (split_search attrs src en 0) k s = k 0 s" for k :: "_ \<Rightarrow> ('d, 'x) fs"
    by (rule bnd_run_Val) (rule ss)
  have ml: "mloop (splitting_body dir attrs src 0) (0, en) s = Some (Val en, s)"
    by (rule mloop_stop) (simp add: splitting_body_def bs ret_def)
  have bl: "bnd (mloop (splitting_body dir attrs src 0) (0, en)) k s = k en s" for k :: "_ \<Rightarrow> ('d, 'x) fs"
    by (rule bnd_run_Val) (rule ml)
  have ex: "expand_superblock dir attrs src 0 en s = Some (Val en, s)"
    using assms(2) by (auto simp: expand_superblock_def g lfs_dir_needsrelocation_def bnd_assoc bnd_gets untired_def ret_def)
  have be: "bnd (expand_superblock dir attrs src 0 en) k s = k en s" for k :: "_ \<Rightarrow> ('d, 'x) fs"
    by (rule bnd_run_Val) (rule ex)
  show ?thesis by (simp only: lfs_dir_splittingcompact_def bl be)
qed

lemma cache_drop_dropped: "cache_block (l_pcache s) = LFS_BLOCK_NULL \<Longrightarrow> lfs_cache_drop PCache s = Some (Val (), s)"
  by (simp add: lfs_cache_drop_def upd_cache_def run_simps)

text \<open>A commit on a directory whose block is not erased behind its log: a compaction, and nothing else.\<close>

lemma commit_compacts:
  fixes s :: "'d lfs"
  assumes dir: "l_nodes s a = Some nd" "\<not> md_erased (nd_m nd)" "a < l_next_node s" "l_mlist s = None"
    and pc: "cache_block (l_pcache s) = LFS_BLOCK_NULL"
    and attrs: "list_all only_creates attrs" "count_creates attrs (md_count (nd_m nd)) = en" "en \<le> 1"
    and rv: "untired (l_cfg s) (md_rev (nd_m nd))"
    and p: "p = l_next_node s" and d: "d = (nd_m nd)\<lparr>md_count := en\<rparr>"
    and u: "u = s\<lparr>l_nodes := (l_nodes s)(p \<mapsto> node_default\<lparr>nd_m := d\<rparr>, Suc p \<mapsto> node_default\<lparr>nd_m := mdir_zero\<rparr>), l_next_node := Suc (Suc p)\<rparr>"
    and run: "lfs_dir_compact p attrs p 0 en u = Some (Val 0, t)"
    and t: "l_nodes t = (l_nodes u)(p \<mapsto> nd')" "l_mlist t = None" "l_next_node t = l_next_node u"
  shows "lfs_dir_commit a attrs s = Some (Val (), t\<lparr>l_nodes := ((l_nodes s)(a \<mapsto> nd\<lparr>nd_m := nd_m nd'\<rparr>))(p := None, Suc p := None), l_next_node := p\<rparr>)"
proof -
  let ?s2 = "s\<lparr>l_nodes := (l_nodes s)(p \<mapsto> node_default\<lparr>nd_m := nd_m nd\<rparr>, Suc p \<mapsto> node_default\<lparr>nd_m := mdir_zero\<rparr>), l_next_node := Suc (Suc p)\<rparr>"
  have ne: "a \<noteq> p" "a \<noteq> Suc p" using dir(3) p by auto
  have nodes: "l_nodes ?s2 p = Some (node_default\<lparr>nd_m := nd_m nd\<rparr>)" "l_nodes ?s2 a = Some nd" using ne dir(1) by simp_all
  have noted: "mfold (commit_note_attr p) attrs False ?s2 = Some (Val False, u)"
    using note_creates [OF attrs(1) nodes(1), of False] attrs(2) by (simp add: u d fun_upd_twist)
  have n1: "bnd (mfold (commit_note_attr p) attrs False) k ?s2 = k False u" for k :: "_ \<Rightarrow> ('d, 'x) fs"
    by (rule bnd_run_Val) (rule noted)
  have un: "l_nodes u p = Some (node_default\<lparr>nd_m := d\<rparr>)" "l_nodes u a = Some nd" "l_mlist u = None" "l_cfg u = l_cfg s" "l_pcache u = l_pcache s"
    using ne dir by (simp_all add: u)
  have gu: "bnd (get_mdir p) k u = k d u" for k :: "_ \<Rightarrow> ('d, 'x) fs"
    by (rule bnd_run_Val) (simp add: get_mdir_run [OF un(1)])
  have drop: "bnd (lfs_cache_drop PCache) k u = k () u" for k :: "_ \<Rightarrow> ('d, 'x) fs"
    by (rule bnd_run_Val) (rule cache_drop_dropped, simp add: un(5) pc)
  have sm: "lfs_dir_splittingcompact p attrs p 0 en u = Some (Val 0, t)"
    using splitting_small [OF un(1), of en attrs p] rv attrs(3) run by (simp add: un(4) d)
  have bs: "bnd (lfs_dir_splittingcompact p attrs p 0 en) k u = k 0 t" for k :: "_ \<Rightarrow> ('d, 'x) fs"
    by (rule bnd_run_Val) (rule sm)
  have ta: "l_nodes t a = Some nd" "l_nodes t p = Some nd'" using t(1) un(2) ne by simp_all
  have gt: "bnd (get_mdir a) k t = k (nd_m nd) t" for k :: "_ \<Rightarrow> ('d, 'x) fs"
    by (rule bnd_run_Val) (rule get_mdir_run [OF ta(1)])
  have reloc: "lfs_dir_relocatingcommit p (PairOf a) attrs (Some (Suc p)) ?s2 = Some (Val 0, t)"
    using dir(2)
    by (simp add: lfs_dir_relocatingcommit_def n1 commit_drops_def bnd_assoc gu drop d bs [unfolded d] relocatingcommit_fixmlist_def
        read_pair_def gt mlist_each_empty [OF t(2)] ret_def)
  have br: "bnd (lfs_dir_relocatingcommit p (PairOf a) attrs (Some (Suc p))) k ?s2 = k 0 t" for k :: "_ \<Rightarrow> ('d, 'x) fs"
    by (rule bnd_run_Val) (rule reloc)
  have gp: "bnd (get_mdir p) k t = k (nd_m nd') t" for k :: "_ \<Rightarrow> ('d, 'x) fs"
    by (rule bnd_run_Val) (rule get_mdir_run [OF ta(2)])
  let ?v = "t\<lparr>l_nodes := (l_nodes t)(a \<mapsto> nd\<lparr>nd_m := nd_m nd'\<rparr>)\<rparr>"
  have copy: "copy_mdir a p t = Some (Val (), ?v)"
    unfolding copy_mdir_def gp by (rule upd_mdir_run [OF ta(1)])
  have bc: "bnd (copy_mdir a p) k t = k () ?v" for k :: "_ \<Rightarrow> ('d, 'x) fs"
    by (rule bnd_run_Val) (rule copy)
  have ml: "mloop (orphaning_body p (Suc p)) (0, md_pair (nd_m nd), False) ?v = Some (Val False, ?v)"
    by (rule mloop_stop) (simp add: orphaning_body_def LFS_OK_RELOCATED_def ret_def)
  have bm: "bnd (mloop (orphaning_body p (Suc p)) (0, md_pair (nd_m nd), False)) k ?v = k False ?v" for k :: "_ \<Rightarrow> ('d, 'x) fs"
    by (rule bnd_run_Val) (rule ml)
  let ?body = "\<lambda>ldir pdir. bnd (lfs_dir_relocatingcommit ldir (PairOf a) attrs (Some pdir)) (\<lambda>state.
    bnd (get_mdir a) (\<lambda>d.
    bnd (if \<not> lfs_pair_cmp (md_pair d) (md_pair (nd_m nd)) then copy_mdir a ldir else ret ()) (\<lambda>_.
    bnd (if state = LFS_OK_DROPPED then orphaning_drop a ldir pdir else ret state) (\<lambda>state.
    bnd (mloop (orphaning_body ldir pdir) (state, md_pair (nd_m nd), False)) (\<lambda>orphans.
    ret (if orphans then LFS_OK_ORPHANED else 0))))))"
  have same: "lfs_pair_cmp q q = False" for q by (simp add: lfs_pair_cmp_def)
  have zero: "((0 :: nat) = LFS_OK_DROPPED) = False" "((0 :: nat) = LFS_OK_ORPHANED) = False" by (simp_all add: LFS_OK_DROPPED_def LFS_OK_ORPHANED_def)
  have body: "?body p (Suc p) ?s2 = Some (Val 0, ?v)"
    by (simp only: br gt same not_False_eq_True if_True bc zero if_False bnd_ret bm) (simp add: ret_def)
  let ?s1 = "s\<lparr>l_nodes := (l_nodes s)(p \<mapsto> node_default\<lparr>nd_m := nd_m nd\<rparr>), l_next_node := Suc p\<rparr>"
  let ?v1 = "?v\<lparr>l_nodes := (l_nodes ?v)(Suc p := None), l_next_node := Suc p\<rparr>"
  have i1: "with_mdir mdir_zero (?body p) ?s1 = Some (Val 0, ?v1)"
    by (rule with_mdir_run [where u = ?s2 and t = ?v and b = "Suc p"]) (rule body | simp)+
  have i2: "with_mdir (nd_m nd) (\<lambda>ldir. with_mdir mdir_zero (?body ldir)) s
      = Some (Val 0, ?v1\<lparr>l_nodes := (l_nodes ?v1)(p := None), l_next_node := p\<rparr>)"
    by (rule with_mdir_run [where u = ?s1 and t = ?v1 and b = p]) (rule i1 | simp add: p)+
  have gs: "bnd (get_mdir a) k s = k (nd_m nd) s" for k :: "_ \<Rightarrow> ('d, 'x) fs"
    by (rule bnd_run_Val) (rule get_mdir_run [OF dir(1)])
  have "lfs_dir_orphaningcommit a attrs s = Some (Val 0, ?v1\<lparr>l_nodes := (l_nodes ?v1)(p := None), l_next_node := p\<rparr>)"
    unfolding lfs_dir_orphaningcommit_def mlist_each_empty [OF dir(4)] gs Let_def using i2 by simp
  moreover have "?v1\<lparr>l_nodes := (l_nodes ?v1)(p := None), l_next_node := p\<rparr>
      = t\<lparr>l_nodes := ((l_nodes s)(a \<mapsto> nd\<lparr>nd_m := nd_m nd'\<rparr>))(p := None, Suc p := None), l_next_node := p\<rparr>"
    using ne by (simp add: t(1) u) (simp add: fun_upd_def fun_eq_iff)
  ultimately show ?thesis by (simp add: lfs_dir_commit_def bnd_run_Val zero ret_def)
qed

context block_device
begin

lemma ready_same:
  assumes "ready cfg s" "l_cfg t = l_cfg s" "l_dev t = l_dev s" "l_rcache t = l_rcache s" "l_pcache t = l_pcache s"
    and "l_bufs t = l_bufs s" "l_block_count t = l_block_count s"
  shows "ready cfg t"
  using assms by (auto simp: log_ready_def prog_geometry_def attached_to_def)

lemma commit_writes:
  assumes r: "ready cfg s" and dir: "l_nodes s a = Some nd" "md_pair (nd_m nd) = (x, y)" "\<not> md_erased (nd_m nd)" "a < l_next_node s" "l_mlist s = None"
    and xy: "unat x < bcount" "unat y < bcount" "x \<noteq> y" "cache_block (l_rcache s) \<noteq> y"
    and attrs: "list_all only_creates attrs" "count_creates attrs (md_count (nd_m nd)) = en" "en \<le> 1" "untired cfg (md_rev (nd_m nd))"
    and d: "d = (nd_m nd)\<lparr>md_count := en\<rparr>"
    and log: "dir_log (blk (l_dev s) x) d dles" "unat (md_off d) \<le> bsz"
    and can: "compactable (blk (l_dev s) x) bsz d les attrs 0 en"
    and es: "es = compacted_entries (blk (l_dev s) x) d les attrs 0 en d (state_delta s dles)"
    and room: "metadata_limit cfg = cfg_block_size cfg" "length (entries_bytes 0xffffffff es) + 12 \<le> bsz"
    and small: "unat (cfg_prog_size cfg) \<le> 1000"
  shows "\<exists>t fc ctag pad k off. lfs_dir_commit a attrs s = Some (Val (), t)
    \<and> closing fc \<and> block_log (blk (l_dev t) y) (md_rev (nd_m nd) + 1) [(es @ fc, ctag, pad)] (replicate k 0xff)
    \<and> (\<forall>c. unat c < bcount \<longrightarrow> c \<noteq> y \<longrightarrow> blk (l_dev t) c = blk (l_dev s) c) \<and> ready cfg t
    \<and> l_nodes t a = Some (nd\<lparr>nd_m := (nd_m nd)\<lparr>md_rev := md_rev (nd_m nd) + 1, md_pair := (y, x), md_count := en,
         md_off := off, md_etag := end_tag 0xffffffff [(es @ fc, ctag, pad)]\<rparr>\<rparr>)
    \<and> unat off = length (log_head (md_rev (nd_m nd) + 1) [(es @ fc, ctag, pad)]) \<and> lfs_tag_isvalid (next_tag ctag)
    \<and> l_gstate t = l_gstate s \<and> l_gdisk t = l_gstate s \<and> l_gdelta t = gstate_zero \<and> l_mlist t = None
    \<and> l_next_node t = l_next_node s \<and> (\<forall>z. unat z < bcount \<longrightarrow> z \<noteq> y \<longrightarrow> cache_block (l_rcache t) \<noteq> z)"
proof -
  define p where "p = l_next_node s"
  define u where "u = s\<lparr>l_nodes := (l_nodes s)(p \<mapsto> node_default\<lparr>nd_m := d\<rparr>, Suc p \<mapsto> node_default\<lparr>nd_m := mdir_zero\<rparr>), l_next_node := Suc (Suc p)\<rparr>"
  have ru: "ready cfg u" by (rule ready_same [OF r]) (simp_all add: u_def)
  have nu: "l_nodes u p = Some (node_default\<lparr>nd_m := d\<rparr>)" by (simp add: u_def)
  have m: "nd_m (node_default\<lparr>nd_m := d\<rparr>) = d" by simp
  have du: "l_dev u = l_dev s" "cache_block (l_rcache u) \<noteq> y" using xy(4) by (simp_all add: u_def)
  have pair: "md_pair d = (x, y)" using dir(2) by (simp add: d)
  have rv: "untired cfg (md_rev d)" using attrs(4) by (simp add: d)
  have es': "es = compacted_entries (blk (l_dev u) x) d les attrs 0 en d (state_delta u dles)"
    unfolding es du by (simp add: state_delta_def u_def)
  obtain t fc ctag pad k off where t: "lfs_dir_compact p attrs p 0 en u = Some (Val 0, t)" "closing fc"
      "block_log (blk (l_dev t) y) (md_rev d + 1) [(es @ fc, ctag, pad)] (replicate k 0xff)"
      "\<forall>c. unat c < bcount \<longrightarrow> c \<noteq> y \<longrightarrow> blk (l_dev t) c = blk (l_dev u) c" "ready cfg t"
      "l_nodes t = (l_nodes u)(p \<mapsto> node_default\<lparr>nd_m := d\<lparr>md_rev := md_rev d + 1, md_pair := (y, x), md_count := en - 0,
         md_off := off, md_etag := end_tag 0xffffffff [(es @ fc, ctag, pad)]\<rparr>\<rparr>)"
      "unat off = length (log_head (md_rev d + 1) [(es @ fc, ctag, pad)])" "lfs_tag_isvalid (next_tag ctag)"
      "l_gstate t = l_gstate u" "l_gdisk t = l_gstate u" "l_gdelta t = gstate_zero" "l_mlist t = l_mlist u"
      "l_next_node t = l_next_node u" "\<forall>z. unat z < bcount \<longrightarrow> z \<noteq> y \<longrightarrow> cache_block (l_rcache t) \<noteq> z"
    using compact_writes [OF ru nu, unfolded m, OF pair xy(1-3) du(2) log [folded du(1)] can [folded du(1)] untired_stays [OF rv] es' room small] by auto
  let ?nd' = "node_default\<lparr>nd_m := d\<lparr>md_rev := md_rev d + 1, md_pair := (y, x), md_count := en - 0,
         md_off := off, md_etag := end_tag 0xffffffff [(es @ fc, ctag, pad)]\<rparr>\<rparr>"
  let ?t = "t\<lparr>l_nodes := ((l_nodes s)(a \<mapsto> nd\<lparr>nd_m := nd_m ?nd'\<rparr>))(p := None, Suc p := None), l_next_node := p\<rparr>"
  have pc: "cache_block (l_pcache s) = LFS_BLOCK_NULL" "l_cfg s = cfg" using r by (simp_all add: log_ready_def)
  have "lfs_dir_commit a attrs s = Some (Val (), ?t)"
    by (rule commit_compacts [OF dir(1,3,4,5) pc(1) attrs(1-3) _ p_def d u_def t(1,6)]) (use attrs(4) pc(2) t(12,13) dir(5) in \<open>simp_all add: u_def\<close>)
  moreover have "ready cfg ?t" by (rule ready_same [OF t(5)]) simp_all
  moreover have "l_nodes ?t a = Some (nd\<lparr>nd_m := (nd_m nd)\<lparr>md_rev := md_rev (nd_m nd) + 1, md_pair := (y, x), md_count := en,
         md_off := off, md_etag := end_tag 0xffffffff [(es @ fc, ctag, pad)]\<rparr>\<rparr>)"
    using dir(4) by (simp add: d p_def)
  moreover have "md_rev d = md_rev (nd_m nd)" by (simp add: d)
  ultimately show ?thesis
    using t(2-4,7-14) dir(5)
    by (intro exI [of _ ?t] exI [of _ fc] exI [of _ ctag] exI [of _ pad] exI [of _ k] exI [of _ off]) (simp add: u_def p_def)
qed

end

end
