(* ===== verification/Formatting.thy ===== *)
theory Formatting
  imports CommitCompact MountProps
begin

text \<open>
  Formatting.  Whatever a device holds, \<open>lfs_format_raw\<close> takes its first two blocks for the superblock
  pair and compacts the superblock into each of them in turn, so that the pair holds it twice.
\<close>

subsection \<open>Compacting the superblock\<close>

text \<open>A tag of a checksum entry, which a traversal steps over.\<close>

definition crc_entry :: "log_entry \<Rightarrow> bool" where
  "crc_entry e \<longleftrightarrow> lfs_tag_type1 (fst e) = 0x500"

lemma crc_bits:
  assumes "lfs_tag_type1 tag = 0x500"
  shows "bit tag 28" "bit tag 30" "\<not> bit tag 29"
proof -
  have "bit (lfs_tag_type1 tag) 8" "bit (lfs_tag_type1 tag) 10" "\<not> bit (lfs_tag_type1 tag) 9"
    unfolding assms by simp_all
  then show "bit tag 28" "bit tag 30" "\<not> bit tag 29" by (simp_all add: tag_bits)
qed

lemma mask_bits:
  "bit (lfs_mktag 0x7ff 0x3ff 0) n \<longleftrightarrow> 10 \<le> n \<and> n < 31" "bit (lfs_mktag 0x400 0x3ff 0) n \<longleftrightarrow> 10 \<le> n \<and> n < 20 \<or> n = 30"
  "bit (lfs_mktag 0x100 0 0) n \<longleftrightarrow> n = 28" "\<not> bit (lfs_mktag LFS_TYPE_DELETE 0 0 OR (lfs_mktag 0 0x3ff 0 AND ft)) 28"
proof -
  have c: "lfs_mktag 0x7ff 0x3ff 0 = push_bit 10 (mask 21)" "lfs_mktag 0x400 0x3ff 0 = push_bit 10 (mask 10) OR push_bit 30 1"
    "lfs_mktag 0x100 0 0 = push_bit 28 1" "lfs_mktag LFS_TYPE_DELETE 0 0 = 0x4ff00000" "lfs_mktag 0 0x3ff 0 = push_bit 10 (mask 10)"
    by (simp_all add: lfs_mktag_def mask_eq_exp_minus_1 LFS_TYPE_DELETE_def)
  show "bit (lfs_mktag 0x7ff 0x3ff 0) n \<longleftrightarrow> 10 \<le> n \<and> n < 31"
    unfolding c(1) by (auto simp: bit_simps dest: bit_imp_le_length)
  show "bit (lfs_mktag 0x400 0x3ff 0) n \<longleftrightarrow> 10 \<le> n \<and> n < 20 \<or> n = 30"
    unfolding c(2) bit_or_iff bit_push_bit_iff bit_mask_iff bit_1_iff by auto
  show "bit (lfs_mktag 0x100 0 0) n \<longleftrightarrow> n = 28" unfolding c(3) bit_push_bit_iff bit_1_iff by auto
  have "\<not> bit (0x4ff00000 :: u32) 28" by simp
  moreover have "\<not> bit (push_bit 10 (mask 10) :: u32) 28" by (simp add: bit_simps)
  ultimately show "\<not> bit (lfs_mktag LFS_TYPE_DELETE 0 0 OR (lfs_mktag 0 0x3ff 0 AND ft)) 28"
    unfolding c by (simp only: bit_or_iff bit_and_iff simp_thms)
qed

lemma crc_no_filter:
  assumes "lfs_tag_type1 tag = 0x500" "\<not> bit ft 30" "\<not> lfs_tag_isdelete ft"
  shows "lfs_dir_traverse_filter ft tag = (0, ft)"
proof -
  note b = crc_bits [OF assms(1)]
  let ?m = "lfs_mktag 0x7ff 0x3ff 0"
  have "bit (tag AND lfs_mktag 0x100 0 0) 28" using b(1) by (simp add: bit_and_iff mask_bits)
  then have t: "tag AND lfs_mktag 0x100 0 0 \<noteq> 0" by auto
  have "bit (?m AND tag) 30 \<noteq> bit (?m AND ft) 30" using b(2) assms(2) by (simp add: bit_and_iff mask_bits)
  then have n1: "?m AND tag \<noteq> ?m AND ft" by auto
  have "bit (?m AND tag) 28 \<noteq> bit (lfs_mktag LFS_TYPE_DELETE 0 0 OR (lfs_mktag 0 0x3ff 0 AND ft)) 28"
    using b(1) mask_bits(4) [of ft] by (simp add: bit_and_iff mask_bits del: bit_or_iff)
  then have n2: "?m AND tag \<noteq> lfs_mktag LFS_TYPE_DELETE 0 0 OR (lfs_mktag 0 0x3ff 0 AND ft)" by metis
  have "lfs_tag_type1 tag \<noteq> LFS_TYPE_SPLICE" by (simp add: assms(1) LFS_TYPE_SPLICE_def)
  with t n1 n2 assms(3) show ?thesis by (simp add: lfs_dir_traverse_filter_def Let_def)
qed

lemma survive_crc: "list_all (\<lambda>t. lfs_tag_type1 t = 0x500) ts \<Longrightarrow> \<not> bit ft 30 \<Longrightarrow> \<not> lfs_tag_isdelete ft \<Longrightarrow> survive ft ts = ft"
proof (induction ts)
  case (Cons t ts)
  then have "lfs_tag_type3 t \<noteq> LFS_FROM_NOOP" using tag_type_parts(1) [of t] by (auto simp: LFS_FROM_NOOP_def)
  with Cons show ?case by (simp add: crc_no_filter)
qed simp

text \<open>Checksum entries at the end are not kept, and change nothing of what is.\<close>

lemma kept_crc:
  assumes "list_all (\<lambda>t. lfs_tag_type1 t = 0x500) (map fst its)"
  shows "kept (lfs_mktag 0x400 0x3ff 0) (lfs_mktag LFS_TYPE_NAME 0 0) begn en diff its = []"
  using assms
proof (induction its)
  case (Cons it its)
  let ?m = "lfs_mktag 0x7ff 0 0" and ?t = "lfs_mktag 0x400 0x3ff 0"
  have "?m = push_bit 20 (mask 11)" by (simp add: lfs_mktag_def mask_eq_exp_minus_1)
  then have m: "bit ?m 30" by (simp add: bit_simps)
  have "\<not> bit (lfs_mktag LFS_TYPE_NAME 0 0) 30" by (simp add: lfs_mktag_def LFS_TYPE_NAME_def)
  then have "bit (?m AND ?t AND fst it) 30 \<noteq> bit (?m AND ?t AND lfs_mktag LFS_TYPE_NAME 0 0) 30"
    using Cons.prems m crc_bits [of "fst it"] by (simp add: bit_and_iff mask_bits)
  then have "\<not> trav_match ?t (lfs_mktag LFS_TYPE_NAME 0 0) (fst it)" unfolding trav_match_def by metis
  with Cons show ?case by (cases it) (simp add: Let_def)
qed simp

subsection \<open>The superblock\<close>

definition formatted_superblock :: "'d lfs_config \<Rightarrow> lfs_superblock" where
  "formatted_superblock cfg = \<lparr>sb_version = LFS_DISK_VERSION, sb_block_size = cfg_block_size cfg,
     sb_block_count = cfg_block_count cfg, sb_name_max = or_default (cfg_name_max cfg) LFS_NAME_MAX,
     sb_file_max = or_default (cfg_file_max cfg) LFS_FILE_MAX, sb_attr_max = or_default (cfg_attr_max cfg) LFS_ATTR_MAX\<rparr>"

definition superblock_entries :: "lfs_superblock \<Rightarrow> log_entry list" where
  "superblock_entries sb = [(lfs_mktag LFS_TYPE_SUPERBLOCK 0 8, lfs_magic), (lfs_mktag LFS_TYPE_INLINESTRUCT 0 24, lfs_superblock_tole32 sb)]"

lemma superblock_tags:
  "lfs_mktag LFS_TYPE_SUPERBLOCK 0 8 = 0x0ff00008" "lfs_mktag LFS_TYPE_INLINESTRUCT 0 24 = 0x20100018"
  "lfs_mktag LFS_TYPE_CREATE 0 0 = 0x40100000"
  by (simp_all add: lfs_mktag_def LFS_TYPE_SUPERBLOCK_def LFS_TYPE_INLINESTRUCT_def LFS_TYPE_CREATE_def)

lemma superblock_facts:
  "unat (lfs_tag_dsize 0x0ff00008) = 12" "unat (lfs_tag_dsize 0x20100018) = 28" "lfs_tag_isvalid 0x0ff00008" "lfs_tag_isvalid 0x20100018"
  "wf_entry (0x0ff00008, lfs_magic)" "length lfs_magic = 8"
  by (code_simp, code_simp, code_simp, code_simp, code_simp, code_simp)

lemma length_superblock: "length (lfs_superblock_tole32 sb) = 24"
  by (simp add: lfs_superblock_tole32_def)

lemma superblock_wf: "list_all wf_entry (superblock_entries sb)"
proof -
  have "lfs_tag_type2 0x20100018 \<noteq> LFS_TYPE_CCRC" by code_simp
  then have "wf_entry (0x20100018, lfs_superblock_tole32 sb)"
    unfolding wf_entry_def fst_conv snd_conv superblock_facts by (simp add: superblock_facts length_superblock)
  then show ?thesis by (simp add: superblock_entries_def superblock_tags superblock_facts)
qed

text \<open>What is written first: the superblock, from the attributes.\<close>

lemma superblock_kept_first:
  "kept (lfs_mktag 0x400 0x3ff 0) (lfs_mktag LFS_TYPE_NAME 0 0) 0 1 0 [(0x40100000, a), (0x0ff00008, b), (0x20100018, c)]
    = [(0x0ff00008, b), (0x20100018, c)]"
proof -
  let ?t = "lfs_mktag 0x400 0x3ff 0" and ?n = "lfs_mktag LFS_TYPE_NAME 0 0"
  have f: "trav_final ?t 0x0ff00008 [0x20100018] = 0x0ff00008" "trav_final ?t 0x20100018 [] = 0x20100018"
    by (code_simp, code_simp)
  have m: "\<not> trav_match ?t ?n 0x40100000" "trav_match ?t ?n 0x0ff00008" "trav_match ?t ?n 0x20100018"
    "\<not> trav_out ?t 0 1 0x0ff00008" "\<not> trav_out ?t 0 1 0x20100018"
    by (code_simp, code_simp, code_simp, code_simp, code_simp)
  show ?thesis using m f by (simp add: Let_def no_shift no_shift')
qed

text \<open>What is written then: the superblock, copied from the log.\<close>

lemma superblock_kept_again:
  assumes "list_all (\<lambda>t. lfs_tag_type1 t = 0x500) (map fst its)"
  shows "kept (lfs_mktag 0x400 0x3ff 0) (lfs_mktag LFS_TYPE_NAME 0 0) 0 1 0 ((0x8ff00008, b) # (0xa0100018, c) # its)
    = [(0x8ff00008, b), (0xa0100018, c)]"
proof -
  have f: "lfs_dir_traverse_filter 0x8ff00008 0xa0100018 = (0, 0x8ff00008)" "lfs_tag_type3 0xa0100018 \<noteq> LFS_FROM_NOOP"
    "\<not> lfs_tag_isdelete 0x8ff00008" "\<not> lfs_tag_isdelete 0xa0100018" by (code_simp, code_simp, code_simp, code_simp)
  have b: "\<not> bit (0x8ff00008 :: u32) 30" "\<not> bit (0xa0100018 :: u32) 30" by simp_all
  have s: "survive 0x8ff00008 (0xa0100018 # map fst its) = 0x8ff00008" "survive 0xa0100018 (map fst its) = 0xa0100018"
    using survive_crc [OF assms b(1) f(3)] survive_crc [OF assms b(2) f(4)] f(1,2) by simp_all
  have id: "lfs_tag_id (lfs_mktag 0x400 0x3ff 0) \<noteq> 0" by code_simp
  have m: "trav_match (lfs_mktag 0x400 0x3ff 0) (lfs_mktag LFS_TYPE_NAME 0 0) 0x8ff00008"
    "trav_match (lfs_mktag 0x400 0x3ff 0) (lfs_mktag LFS_TYPE_NAME 0 0) 0xa0100018"
    "\<not> trav_out (lfs_mktag 0x400 0x3ff 0) 0 1 0x8ff00008" "\<not> trav_out (lfs_mktag 0x400 0x3ff 0) 0 1 0xa0100018"
    by (code_simp, code_simp, code_simp, code_simp)
  show ?thesis
    using id m s by (simp add: Let_def trav_final_def kept_crc [OF assms] no_shift no_shift' del: survive.simps)
qed

lemma plain_crc:
  assumes "list_all (\<lambda>t. lfs_tag_type1 t = 0x500) (map fst its)" "list_all (is_disk \<circ> snd) its"
  shows "plain_items tmask its"
proof -
  have noop: "plain_tag (lfs_mktag LFS_FROM_NOOP 0 0)" by code_simp
  have plain: "plain_tag t" if "lfs_tag_type1 t = 0x500" for t
    using that tag_type_parts(1) [of t] by (auto simp: plain_tag_def LFS_FROM_MOVE_def LFS_FROM_USERATTRS_def)
  have sv: "survive ft ts = ft \<or> survive ft ts = lfs_mktag LFS_FROM_NOOP 0 0"
    if "list_all (\<lambda>t. lfs_tag_type1 t = 0x500) ts" for ft ts
    using that
  proof (induction ts)
    case (Cons t ts)
    then have "lfs_tag_type1 t \<noteq> LFS_TYPE_SPLICE" by (simp add: LFS_TYPE_SPLICE_def)
    then have "lfs_dir_traverse_filter ft t = (1, lfs_mktag LFS_FROM_NOOP 0 0) \<or> lfs_dir_traverse_filter ft t = (0, ft)"
      by (auto simp: lfs_dir_traverse_filter_def Let_def)
    with Cons show ?case by auto
  qed simp
  show ?thesis using assms
  proof (induction its)
    case (Cons it its)
    obtain tag buf where it: "it = (tag, buf)" by (cases it)
    have ts: "list_all (\<lambda>t. lfs_tag_type1 t = 0x500) (map fst its)" using Cons.prems(1) by simp
    have "plain_tag tag" by (rule plain) (use Cons.prems(1) it in simp)
    moreover have "plain_tag (trav_final tmask tag (map fst its))"
      using sv [OF ts, of tag] \<open>plain_tag tag\<close> noop by (auto simp: trav_final_def)
    ultimately show ?case using Cons it by simp
  qed simp
qed

lemma type1_top: "lfs_tag_type1 (t OR 0x80000000) = lfs_tag_type1 t"
  by (rule bit_word_eqI) (auto simp: tag_bits bit_or_iff bit_top simp del: bit_numeral_word_iff)

lemma disk_items_crc:
  assumes "list_all crc_entry es"
  shows "list_all (\<lambda>t. lfs_tag_type1 t = 0x500) (map fst (disk_items b q es)) \<and> list_all (is_disk \<circ> snd) (disk_items b q es)"
  using assms
proof (induction b q es rule: disk_items.induct)
  case (2 b q tag data es)
  have "is_disk (DiskBuf x)" for x by (simp add: is_disk_def)
  with 2 show ?case by (simp add: crc_entry_def type1_top)
qed simp

lemma first_compactable:
  assumes "md_off d = 4" "4 \<le> length bs" "length bs < 2 ^ 30"
  shows "compactable bs bsz d [] (superblock_attrs sb) 0 1"
    "map (item_entry bs) (compacted_items d [] (superblock_attrs sb) 0 1) = superblock_entries sb"
proof -
  have four: "unat (lfs_tag_dsize 0xffffffff) = 4" by code_simp
  have src: "trav_source bs d 0 0xffffffff [] (superblock_attrs sb)"
    using assms four by (simp add: trav_source_def superblock_attrs_def is_disk_def)
  have items: "trav_items d 0 0xffffffff [] (superblock_attrs sb)
      = [(0x40100000, Bytes []), (0x0ff00008, Bytes lfs_magic), (0x20100018, Bytes (lfs_superblock_tole32 sb))]"
    by (simp add: trav_items_def attr_items_def superblock_attrs_def superblock_tags)
  have kept: "compacted_items d [] (superblock_attrs sb) 0 1 = [(0x0ff00008, Bytes lfs_magic), (0x20100018, Bytes (lfs_superblock_tole32 sb))]"
    unfolding compacted_items_def items by (simp only: minus_zero superblock_kept_first)
  let ?t = "lfs_mktag 0x400 0x3ff 0"
  have "plain_tag 0x40100000" "plain_tag (trav_final ?t 0x40100000 [0x0ff00008, 0x20100018])" "lfs_tag_isvalid (trav_final ?t 0x40100000 [0x0ff00008, 0x20100018])"
    "plain_tag 0x0ff00008" "plain_tag (trav_final ?t 0x0ff00008 [0x20100018])" "lfs_tag_isvalid (trav_final ?t 0x0ff00008 [0x20100018])"
    "plain_tag 0x20100018" "plain_tag (trav_final ?t 0x20100018 [])" "lfs_tag_isvalid (trav_final ?t 0x20100018 [])"
    by (code_simp, code_simp, code_simp, code_simp, code_simp, code_simp, code_simp, code_simp, code_simp)
  then have plain: "plain_items ?t (trav_items d 0 0xffffffff [] (superblock_attrs sb))" unfolding items by simp
  have "(0x0ff00008 :: u32) AND 0x7fffffff = 0x0ff00008" "(0x20100018 :: u32) AND 0x7fffffff = 0x20100018" by simp_all
  then show e: "map (item_entry bs) (compacted_items d [] (superblock_attrs sb) 0 1) = superblock_entries sb"
    unfolding kept by (simp add: item_entry_def superblock_facts superblock_entries_def superblock_tags length_superblock)
  have "list_all (item_ok (fst (md_pair d)) bsz) (compacted_items d [] (superblock_attrs sb) 0 1)"
    unfolding kept by (simp add: item_ok_def superblock_facts length_superblock)
  with src plain superblock_wf e show "compactable bs bsz d [] (superblock_attrs sb) 0 1"
    by (simp add: compactable_def)
qed

lemma closing_crc: "closing fc \<Longrightarrow> list_all crc_entry fc"
  by (auto simp: closing_def crc_entry_def fcrc_tag_fields)

lemma ccrc_type1: "lfs_tag_type2 t = LFS_TYPE_CCRC \<Longrightarrow> lfs_tag_type1 t = 0x500"
proof -
  assume a: "lfs_tag_type2 t = LFS_TYPE_CCRC"
  have "lfs_tag_type1 t = lfs_tag_type2 t AND 0x700"
    unfolding tag_type_parts by (simp add: and.assoc)
  then show ?thesis by (simp add: a LFS_TYPE_CCRC_def)
qed

lemma again_compactable:
  assumes log: "block_log bs rv [(superblock_entries sb @ fc, ctag, pad)] r" and fc: "closing fc" and len: "length bs = bsz" "bsz < 2 ^ 30"
    and d: "unat (md_off d) = length (log_head rv [(superblock_entries sb @ fc, ctag, pad)])"
  defines "les \<equiv> log_entries rv [(superblock_entries sb @ fc, ctag, pad)]"
  shows "compactable bs bsz d les [] 0 1" "map (item_entry bs) (compacted_items d les [] 0 1) = superblock_entries sb"
proof -
  have four: "unat (lfs_tag_dsize 0xffffffff) = 4" by code_simp
  note w = block_log_walk [OF log, folded les_def]
  have src: "trav_source bs d 0 0xffffffff les []"
    using w len d four by (simp add: trav_source_def)
  have wf: "lfs_tag_type2 ctag = LFS_TYPE_CCRC" "lfs_tag_isvalid ctag" using log by (simp_all add: block_log_def Let_def wf_commit_def)
  obtain data where les: "les = (0x0ff00008, lfs_magic) # (0x20100018, lfs_superblock_tole32 sb) # (fc @ [(ctag, data)])"
    by (simp add: les_def log_entries_def superblock_entries_def superblock_tags)
  have crc: "list_all crc_entry (fc @ [(ctag, data)])" using closing_crc [OF fc] ccrc_type1 [OF wf(1)] by (simp add: crc_entry_def)
  define x where "x = fst (md_pair d)"
  define rest where "rest = disk_items x 44 (fc @ [(ctag, data)])"
  have rest: "list_all (\<lambda>t. lfs_tag_type1 t = 0x500) (map fst rest)" "list_all (is_disk \<circ> snd) rest"
    using disk_items_crc [OF crc, of x 44] by (simp_all add: rest_def)
  have top: "(0x0ff00008 :: u32) OR 0x80000000 = 0x8ff00008" "(0x20100018 :: u32) OR 0x80000000 = 0xa0100018" by simp_all
  have items: "trav_items d 0 0xffffffff les [] = (0x8ff00008, DiskBuf \<lparr>do_block = x, do_off = 8\<rparr>)
      # (0xa0100018, DiskBuf \<lparr>do_block = x, do_off = 20\<rparr>) # rest"
    by (simp add: trav_items_def attr_items_def les rest_def x_def four superblock_facts)
  have kept: "compacted_items d les [] 0 1 = [(0x8ff00008, DiskBuf \<lparr>do_block = x, do_off = 8\<rparr>), (0xa0100018, DiskBuf \<lparr>do_block = x, do_off = 20\<rparr>)]"
    unfolding compacted_items_def items by (simp only: minus_zero superblock_kept_again [OF rest(1)])
  have f: "\<not> lfs_tag_isdelete 0x8ff00008" "\<not> lfs_tag_isdelete 0xa0100018" "plain_tag 0x8ff00008" "plain_tag 0xa0100018"
    "lfs_dir_traverse_filter 0x8ff00008 0xa0100018 = (0, 0x8ff00008)" "lfs_tag_type3 0xa0100018 \<noteq> LFS_FROM_NOOP"
    "unat (lfs_tag_dsize 0x8ff00008) = 12" "unat (lfs_tag_dsize 0xa0100018) = 28" "\<not> lfs_tag_isvalid 0x8ff00008" "\<not> lfs_tag_isvalid 0xa0100018"
    by (code_simp, code_simp, code_simp, code_simp, code_simp, code_simp, code_simp, code_simp, code_simp, code_simp)
  have b: "\<not> bit (0x8ff00008 :: u32) 30" "\<not> bit (0xa0100018 :: u32) 30" by simp_all
  have s: "survive 0x8ff00008 (0xa0100018 # map fst rest) = 0x8ff00008" "survive 0xa0100018 (map fst rest) = 0xa0100018"
    using survive_crc [OF rest(1) b(1) f(1)] survive_crc [OF rest(1) b(2) f(2)] f(5,6) by simp_all
  have plain: "plain_items (lfs_mktag 0x400 0x3ff 0) (trav_items d 0 0xffffffff les [])"
    unfolding items using s f(3,4) plain_crc [OF rest] by (simp add: trav_final_def is_disk_def del: survive.simps)
  have "4 + 12 + 28 \<le> bsz"
    using w len by (simp add: les superblock_facts)
  then have ok: "list_all (item_ok (fst (md_pair d)) bsz) (compacted_items d les [] 0 1)"
    unfolding kept by (simp add: item_ok_def f x_def)
  have low: "(0x8ff00008 :: u32) AND 0x7fffffff = 0x0ff00008" "(0xa0100018 :: u32) AND 0x7fffffff = 0x20100018" by simp_all
  have ts: "list_all (\<lambda>t. lfs_tag_type1 t = 0x500) (map fst (map (\<lambda>(tag, data). (tag OR 0x80000000, data)) (fc @ [(ctag, data)])))"
    using crc by (auto simp: list_all_iff crc_entry_def type1_top)
  show e: "map (item_entry bs) (compacted_items d les [] 0 1) = superblock_entries sb"
    unfolding compacted_surviving [OF src] surviving_def traversed_def
    using superblock_kept_again [OF ts] by (simp add: les top low superblock_entries_def superblock_tags)
  from src plain ok superblock_wf e show "compactable bs bsz d les [] 0 1"
    by (simp add: compactable_def)
qed

text \<open>No part of the global state is stored with the superblock.\<close>

lemma no_movestate:
  "list_all (\<lambda>e. lfs_tag_type3 (fst e) \<noteq> LFS_TYPE_MOVESTATE) es \<Longrightarrow>
    log_find (lfs_mktag 0x7ff 0 0) (lfs_mktag LFS_TYPE_MOVESTATE 0 12) 0 es = Inl NoEntry"
proof (induction es)
  case (Cons e es)
  obtain tag data where e: "e = (tag, data)" by (cases e)
  have m: "lfs_mktag 0x7ff 0 0 = 0x7ff00000" by (simp add: lfs_mktag_def)
  have t: "lfs_tag_type3 (lfs_mktag LFS_TYPE_MOVESTATE 0 12) = LFS_TYPE_MOVESTATE" by code_simp
  have "lfs_mktag 0x7ff 0 0 AND tag \<noteq> lfs_mktag 0x7ff 0 0 AND lfs_mktag LFS_TYPE_MOVESTATE 0 12"
  proof
    assume "lfs_mktag 0x7ff 0 0 AND tag = lfs_mktag 0x7ff 0 0 AND lfs_mktag LFS_TYPE_MOVESTATE 0 12"
    then have "tag AND 0x7ff00000 = lfs_mktag LFS_TYPE_MOVESTATE 0 12 AND 0x7ff00000" unfolding m by (simp only: and.commute)
    then have "lfs_tag_type3 tag = lfs_tag_type3 (lfs_mktag LFS_TYPE_MOVESTATE 0 12)" by (simp only: lfs_tag_type3_def)
    then show False using Cons.prems t by (simp add: e)
  qed
  moreover have "\<not> splices_here (lfs_mktag 0x7ff 0 0) (lfs_mktag LFS_TYPE_MOVESTATE 0 12) 0 tag"
    unfolding m by (simp add: splices_here_def lfs_tag_id_def)
  ultimately show ?case using Cons by (simp add: e Let_def)
qed simp

lemma zero_delta:
  assumes "l_gstate s = gstate_zero" "l_gdisk s = gstate_zero" "l_gdelta s = gstate_zero"
    and "list_all (\<lambda>e. lfs_tag_type3 (fst e) \<noteq> LFS_TYPE_MOVESTATE) les"
  shows "lfs_gstate_iszero (state_delta s les)"
  using no_movestate [OF assms(4)] unfolding state_delta_def with_stored_def assms(1-3)
  by (simp add: Let_def) code_simp

lemma superblock_no_movestate:
  assumes "closing fc" "lfs_tag_type2 ctag = LFS_TYPE_CCRC"
  shows "list_all (\<lambda>e. lfs_tag_type3 (fst e) \<noteq> LFS_TYPE_MOVESTATE) (rev (log_entries rv [(superblock_entries sb @ fc, ctag, pad)]))"
proof -
  have crc: "lfs_tag_type3 (fst e) \<noteq> LFS_TYPE_MOVESTATE" if "crc_entry e" for e
    using that tag_type_parts(1) [of "fst e"] by (auto simp: crc_entry_def LFS_TYPE_MOVESTATE_def)
  have sb: "lfs_tag_type3 0x0ff00008 \<noteq> LFS_TYPE_MOVESTATE" "lfs_tag_type3 0x20100018 \<noteq> LFS_TYPE_MOVESTATE" by (code_simp, code_simp)
  have "crc_entry (ctag, x)" for x using ccrc_type1 [OF assms(2)] by (simp add: crc_entry_def)
  then show ?thesis
    using closing_crc [OF assms(1)] crc sb
    by (auto simp: log_entries_def superblock_entries_def superblock_tags list_all_iff)
qed

subsection \<open>The first steps\<close>

text \<open>A configuration that can be formatted with: buffers of their own, and sizes the compaction can work with.\<close>

definition formattable :: "'d lfs_config \<Rightarrow> 'd lfs \<Rightarrow> bool" where
  "formattable cfg s \<longleftrightarrow> config_ok cfg s \<and> distinct [cfg_read_buffer cfg, cfg_prog_buffer cfg, cfg_lookahead_buffer cfg]
     \<and> unat (cfg_prog_size cfg) dvd length (l_bufs s (cfg_prog_buffer cfg)) \<and> length (l_bufs s (cfg_prog_buffer cfg)) < 2 ^ 31
     \<and> 8 * length (l_bufs s (cfg_lookahead_buffer cfg)) < 2 ^ 32
     \<and> metadata_limit cfg = cfg_block_size cfg \<and> unat (cfg_prog_size cfg) \<le> 1000"

definition format_started :: "'d lfs_config \<Rightarrow> 'd lfs \<Rightarrow> 'd lfs \<Rightarrow> bool" where
  "format_started cfg s t \<longleftrightarrow> blank_window t \<and> la_start (l_lookahead t) = 0 \<and> la_next (l_lookahead t) = 0 \<and> 2 \<le> la_size (l_lookahead t)
     \<and> l_dev t = l_dev s \<and> l_cfg t = cfg \<and> l_mlist t = None \<and> l_nodes t = l_nodes s \<and> l_next_node t = l_next_node s
     \<and> l_gstate t = gstate_zero \<and> l_gdisk t = gstate_zero \<and> l_gdelta t = gstate_zero
     \<and> cache_block (l_rcache t) = LFS_BLOCK_NULL \<and> l_block_count t = cfg_block_count cfg
     \<and> l_name_max t = or_default (cfg_name_max cfg) LFS_NAME_MAX \<and> l_file_max t = or_default (cfg_file_max cfg) LFS_FILE_MAX
     \<and> l_attr_max t = or_default (cfg_attr_max cfg) LFS_ATTR_MAX"

definition inited :: "'d lfs_config \<Rightarrow> 'd lfs \<Rightarrow> 'd lfs" where
  "inited cfg s = s\<lparr>l_cfg := cfg, l_block_count := cfg_block_count cfg,
     l_rcache := (l_rcache s)\<lparr>cache_block := LFS_BLOCK_NULL, cache_buffer := cfg_read_buffer cfg\<rparr>,
     l_pcache := (l_pcache s)\<lparr>cache_block := LFS_BLOCK_NULL, cache_buffer := cfg_prog_buffer cfg\<rparr>,
     l_bufs := (l_bufs s)(cfg_read_buffer cfg := replicate (length (l_bufs s (cfg_read_buffer cfg))) 0xff,
       cfg_prog_buffer cfg := replicate (length (l_bufs s (cfg_prog_buffer cfg))) 0xff),
     l_lookahead := (l_lookahead s)\<lparr>la_buffer := cfg_lookahead_buffer cfg\<rparr>,
     l_name_max := or_default (cfg_name_max cfg) LFS_NAME_MAX, l_file_max := or_default (cfg_file_max cfg) LFS_FILE_MAX,
     l_attr_max := or_default (cfg_attr_max cfg) LFS_ATTR_MAX, l_inline_max := init_inline_max cfg,
     l_root := (LFS_BLOCK_NULL, LFS_BLOCK_NULL), l_mlist := None, l_seed := 0,
     l_gstate := gstate_zero, l_gdisk := gstate_zero, l_gdelta := gstate_zero\<rparr>"

lemma init_formattable: "formattable cfg s \<Longrightarrow> lfs_init cfg s = Some (Val (), inited cfg s)"
  by (auto simp: formattable_def config_ok_def lfs_init_def lfs_cache_zero_def get_buf_def put_buf_def get_cache_def upd_cache_def
      run_simps bnd_assoc inited_def)

definition looked_ahead :: "'d lfs_config \<Rightarrow> 'd lfs \<Rightarrow> 'd lfs" where
  "looked_ahead cfg s = (inited cfg s)\<lparr>
     l_bufs := (l_bufs (inited cfg s))(cfg_lookahead_buffer cfg := replicate (length (l_bufs s (cfg_lookahead_buffer cfg))) 0),
     l_lookahead := \<lparr>la_start = 0, la_size = min (8 * word_of_nat (length (l_bufs s (cfg_lookahead_buffer cfg)))) (cfg_block_count cfg),
       la_next = 0, la_ckpoint = cfg_block_count cfg, la_buffer = cfg_lookahead_buffer cfg\<rparr>\<rparr>"

lemma lookahead_formattable: "formattable cfg s \<Longrightarrow> format_lookahead cfg (inited cfg s) = Some (Val (), looked_ahead cfg s)"
  by (auto simp: formattable_def format_lookahead_def get_buf_def put_buf_def run_simps looked_ahead_def lfs_alloc_ckpoint_def inited_def)

lemma looked_started:
  assumes f: "formattable cfg s" and bc: "2 \<le> unat (cfg_block_count cfg)"
  shows "format_started cfg s (looked_ahead cfg s)"
proof -
  let ?n = "length (l_bufs s (cfg_lookahead_buffer cfg))"
  have n: "0 < ?n" "8 * ?n < 2 ^ 32" using f by (auto simp: formattable_def config_ok_def)
  then have u: "unat (8 * word_of_nat ?n :: u32) = 8 * ?n" by (simp add: unat_word_ariths unat_of_nat)
  have "unat (min (8 * word_of_nat ?n) (cfg_block_count cfg)) = min (8 * ?n) (unat (cfg_block_count cfg))"
    by (simp add: min_def word_le_nat_alt u)
  then have "2 \<le> min (8 * word_of_nat ?n) (cfg_block_count cfg)" "unat (min (8 * word_of_nat ?n) (cfg_block_count cfg)) \<le> 8 * ?n"
    using n(1) bc by (simp_all add: word_le_nat_alt Suc_le_eq)
  moreover have "cfg_block_count cfg \<noteq> 0" using bc by auto
  ultimately show ?thesis
    by (auto simp: format_started_def blank_window_def looked_ahead_def inited_def)
qed

definition start_revision :: "'d lfs_config \<Rightarrow> bytes \<Rightarrow> u32" where
  "start_revision cfg bs = (let rv = u32_from_le (take 4 bs)
     in if sint (cfg_block_cycles cfg) > 0 then lfs_alignup rv ((cfg_block_cycles cfg + 1) OR 1) else rv)"

definition fresh_pair :: "u32 \<Rightarrow> lfs_mdir" where
  "fresh_pair rv = \<lparr>md_pair = (1, 0), md_rev = rv, md_off = 4, md_etag = 0xffffffff, md_count = 0, md_erased = False, md_split = False,
     md_tail = (LFS_BLOCK_NULL, LFS_BLOCK_NULL)\<rparr>"

context block_device
begin

lemma looked_ready:
  assumes f: "formattable cfg s" and "cfg_context cfg = st" "dok (l_dev s)" "unat (cfg_block_size cfg) = bsz" "bsz < 2 ^ 30"
    and "unat (cfg_block_count cfg) = bcount" "2 \<le> bcount" "bcount < 2 ^ 32 - 2"
  shows "ready cfg (looked_ahead cfg s)"
proof -
  have ok: "config_ok cfg s" using f by (simp add: formattable_def)
  note sizes = config_sizes [OF ok assms(4)]
  have nb: "\<not> unat LFS_BLOCK_NULL < bcount" using assms(8) by (simp add: unat_BLOCK_NULL)
  have ps: "cfg_prog_size cfg \<noteq> 0" "unat (cfg_prog_size cfg) dvd bsz" "cfg_cache_size cfg \<noteq> 0"
      "word_of_nat (length (l_bufs s (cfg_prog_buffer cfg))) \<ge> cfg_cache_size cfg"
    using ok assms(4) by (auto simp: config_ok_def init_sizes_ok_def intro: dvd_trans)
  then have "l_bufs s (cfg_prog_buffer cfg) \<noteq> []" by auto
  then show ?thesis
    using assms sizes nb ps
    by (auto simp: log_ready_def prog_geometry_def attached_to_def coherent_to_def looked_ahead_def inited_def formattable_def config_ok_def unat_gt_0)
qed

lemma reloaded_meta: "reloaded RCache s t \<Longrightarrow> meta_frame s t"
  by (auto simp: reloaded_def load_def set_cache_def meta_frame_def cache_of_PCache)

lemma reloaded_limits:
  "reloaded RCache s t \<Longrightarrow> l_name_max t = l_name_max s \<and> l_file_max t = l_file_max s \<and> l_attr_max t = l_attr_max s"
  by (auto simp: reloaded_def load_def set_cache_def cache_of_PCache)

text \<open>The first pair of blocks, with the revision count the second of them begins with.\<close>

lemma dir_alloc_run:
  fixes s :: "'d lfs"
  assumes r: "ready cfg s" and w: "blank_window s" "la_start (l_lookahead s) = 0" "la_next (l_lookahead s) = 0" "2 \<le> la_size (l_lookahead s)"
    and bc: "2 \<le> bcount" "4 \<le> bsz" and a: "l_nodes s a = Some nd" and rc: "cache_block (l_rcache s) = LFS_BLOCK_NULL"
  shows "\<exists>t. lfs_dir_alloc a s = Some (Val (), t) \<and> ready cfg t \<and> l_dev t = l_dev s \<and> cache_block (l_rcache t) \<noteq> 0
    \<and> l_nodes t = (l_nodes s)(a \<mapsto> nd\<lparr>nd_m := fresh_pair (start_revision cfg (blk (l_dev s) 1))\<rparr>)
    \<and> l_next_node t = l_next_node s \<and> l_mlist t = l_mlist s \<and> l_gstate t = l_gstate s \<and> l_gdisk t = l_gdisk s \<and> l_gdelta t = l_gdelta s
    \<and> l_block_count t = l_block_count s \<and> l_name_max t = l_name_max s \<and> l_file_max t = l_file_max s \<and> l_attr_max t = l_attr_max s"
proof -
  have bcn: "2 \<le> l_block_count s" "l_block_count s \<noteq> 0" using r bc by (auto simp: log_ready_def prog_geometry_def attached_to_def word_le_nat_alt)
  let ?la = "l_lookahead s"
  let ?s1 = "s\<lparr>l_lookahead := ?la\<lparr>la_next := la_next ?la + 1, la_ckpoint := la_ckpoint ?la - 1\<rparr>\<rparr>"
  have "0 < la_size ?la" "1 < la_size ?la" using w(4) by (auto simp: word_le_nat_alt word_less_nat_alt)
  moreover have "(0 :: u32) mod l_block_count s = 0" "(1 :: u32) mod l_block_count s = 1"
    using bcn by (simp_all add: word_unat_eq_iff unat_mod word_le_nat_alt)
  ultimately have a1: "lfs_alloc s = Some (Val 0, ?s1)"
    using blank_alloc [OF w(1)] w(2,3) by simp
  have w1: "blank_window ?s1" using w(1) by (simp add: blank_window_def)
  define n1 where "n1 = nd\<lparr>nd_m := (nd_m nd)\<lparr>md_pair := (fst (md_pair (nd_m nd)), 0)\<rparr>\<rparr>"
  define s2 where "s2 = ?s1\<lparr>l_nodes := (l_nodes s)(a \<mapsto> n1)\<rparr>"
  have w2: "blank_window s2" using w(1) by (simp add: blank_window_def s2_def)
  define s3 where "s3 = s2\<lparr>l_lookahead := (l_lookahead s2)\<lparr>la_next := la_next (l_lookahead s2) + 1, la_ckpoint := la_ckpoint (l_lookahead s2) - 1\<rparr>\<rparr>"
  have a2: "lfs_alloc s2 = Some (Val 1, s3)"
    using blank_alloc [OF w2] w(2,3) \<open>1 < la_size ?la\<close> \<open>(1 :: u32) mod l_block_count s = 1\<close> by (simp add: s2_def s3_def)
  define n2 where "n2 = n1\<lparr>nd_m := (nd_m n1)\<lparr>md_pair := (1, snd (md_pair (nd_m n1))), md_rev := 0\<rparr>\<rparr>"
  define s4 where "s4 = s3\<lparr>l_nodes := (l_nodes s)(a \<mapsto> n2)\<rparr>"
  have r4: "ready cfg s4" by (rule ready_same [OF r]) (simp_all add: s4_def s3_def s2_def)
  have m4: "l_dev s4 = l_dev s" "l_rcache s4 = l_rcache s" by (simp_all add: s4_def s3_def s2_def)
  have one: "unat (1 :: u32) < bcount" using bc by simp
  have len: "length (blk (l_dev s) 1) = bsz"
    using r one by (auto simp: log_ready_def prog_geometry_def attached_to_def blk_length)
  obtain s5 where s5: "lfs_bd_read_buf None RCache 4 1 0 (replicate 4 0) s4 = Some (Val (Inr (), take 4 (blk (l_dev s) 1)), s5)" "reloaded RCache s4 s5"
  proof -
    have c: "cache_of RCache s4 = Some (l_rcache s4)" by (simp add: cache_of_PCache)
    show ?thesis
      by (rule bd_read_buf_correct [OF ready_read [OF r4 one] c, of 4 0 "replicate 4 0"])
        (use that bc(2) c m4 in \<open>auto simp: reloaded_def ready_view\<close>)
  qed
  note r5 = ready_reloaded [OF r4 s5(2)] and f5 = reloaded_meta [OF s5(2)]
  have rc5: "cache_block (l_rcache s5) \<noteq> 0"
    using keepsD [OF so_read_buf s5(1), of 0] rc by (simp add: stays_off_def m4 LFS_BLOCK_NULL_def)
  let ?raw = "u32_from_le (take 4 (blk (l_dev s) 1))" and ?rv = "start_revision cfg (blk (l_dev s) 1)"
  define n3 where "n3 = n2\<lparr>nd_m := (nd_m n2)\<lparr>md_rev := ?raw\<rparr>\<rparr>"
  define n4 where "n4 = nd\<lparr>nd_m := fresh_pair ?rv\<rparr>"
  have cfg: "l_cfg s5 = cfg" using r5(1) by (simp add: log_ready_def)
  have n5: "l_nodes s5 = (l_nodes s)(a \<mapsto> n2)" using r5(3) by (simp add: s4_def)
  have upd: "bnd (upd_mdir a f) k u = k () v"
    if "l_nodes u a = Some n" "v = u\<lparr>l_nodes := (l_nodes u)(a \<mapsto> n\<lparr>nd_m := f (nd_m n)\<rparr>)\<rparr>"
    for f n and u v :: "'d lfs" and k :: "_ \<Rightarrow> ('d, 'x) fs"
    unfolding that(2) by (rule bnd_run_Val) (rule upd_mdir_run [OF that(1)])
  define t where "t = s5\<lparr>l_nodes := (l_nodes s)(a \<mapsto> n4)\<rparr>"
  have nz: "(cfg_block_cycles cfg + 1) OR 1 \<noteq> 0"
  proof -
    have "bit ((cfg_block_cycles cfg + 1) OR 1) 0" by (simp add: bit_or_iff)
    then show ?thesis by auto
  qed
  define s6 where "s6 = s5\<lparr>l_nodes := (l_nodes s)(a \<mapsto> n3)\<rparr>"
  define n3' where "n3' = n2\<lparr>nd_m := (nd_m n2)\<lparr>md_rev := ?rv\<rparr>\<rparr>"
  define s7 where "s7 = s5\<lparr>l_nodes := (l_nodes s)(a \<mapsto> n3')\<rparr>"
  have k1: "bnd lfs_alloc k s = k 0 ?s1" for k :: "_ \<Rightarrow> ('d, 'x) fs" by (rule bnd_run_Val) (rule a1)
  have k2: "bnd (upd_mdir a (\<lambda>d. d\<lparr>md_pair := (fst (md_pair d), 0)\<rparr>)) k ?s1 = k () s2" for k :: "_ \<Rightarrow> ('d, 'x) fs"
    by (rule upd) (use a in \<open>simp_all add: s2_def n1_def\<close>)
  have k3: "bnd lfs_alloc k s2 = k 1 s3" for k :: "_ \<Rightarrow> ('d, 'x) fs" by (rule bnd_run_Val) (rule a2)
  have k4: "bnd (upd_mdir a (\<lambda>d. d\<lparr>md_pair := (1, snd (md_pair d)), md_rev := 0\<rparr>)) k s3 = k () s4" for k :: "_ \<Rightarrow> ('d, 'x) fs"
    by (rule upd [of s3 n1]) (simp_all add: s4_def s3_def s2_def n2_def)
  have k5: "bnd (lfs_bd_read_buf None RCache 4 1 0 (replicate 4 0)) k s4 = k (Inr (), take 4 (blk (l_dev s) 1)) s5" for k :: "_ \<Rightarrow> ('d, 'x) fs"
    by (rule bnd_run_Val) (rule s5(1))
  have k6: "bnd (upd_mdir a (\<lambda>d. d\<lparr>md_rev := ?raw\<rparr>)) k s5 = k () s6" for k :: "_ \<Rightarrow> ('d, 'x) fs"
    by (rule upd [of s5 n2]) (simp_all add: s6_def n5 n3_def)
  have s6_cfg: "l_cfg s6 = cfg" by (simp add: s6_def cfg)
  have k7: "bnd (if sint (cfg_block_cycles cfg) > 0 then
           bnd (alignup_m ?raw ((cfg_block_cycles cfg + 1) OR 1)) (\<lambda>rev. upd_mdir a (\<lambda>d. d\<lparr>md_rev := rev\<rparr>))
         else ret ()) k s6 = k () s7" for k :: "_ \<Rightarrow> ('d, 'x) fs"
  proof (cases "sint (cfg_block_cycles cfg) > 0")
    case True
    then show ?thesis
      by (simp only: if_True alignup_m_run [OF nz] bnd_ret) (rule upd [of s6 n3], simp_all add: s6_def s7_def n3_def n3'_def start_revision_def)
  next
    case False
    then show ?thesis by (simp add: s6_def s7_def n3_def n3'_def start_revision_def)
  qed
  have k8: "upd_mdir a (\<lambda>d. d\<lparr>md_off := 4, md_etag := 0xffffffff, md_count := 0,
      md_tail := (LFS_BLOCK_NULL, LFS_BLOCK_NULL), md_erased := False, md_split := False\<rparr>) s7 = Some (Val (), t)"
  proof -
    have "(nd_m n3')\<lparr>md_off := 4, md_etag := 0xffffffff, md_count := 0, md_tail := (LFS_BLOCK_NULL, LFS_BLOCK_NULL),
        md_erased := False, md_split := False\<rparr> = fresh_pair ?rv"
      by (cases "nd_m nd") (simp add: n3'_def n2_def n1_def fresh_pair_def)
    then have n4: "n3'\<lparr>nd_m := (nd_m n3')\<lparr>md_off := 4, md_etag := 0xffffffff, md_count := 0, md_tail := (LFS_BLOCK_NULL, LFS_BLOCK_NULL),
        md_erased := False, md_split := False\<rparr>\<rparr> = n4"
      by (simp add: n4_def) (simp add: n3'_def n2_def n1_def)
    show ?thesis
      by (subst upd_mdir_run [of s7 a n3'], simp add: s7_def) (simp only: n4, simp add: s7_def t_def)
  qed
  have "lfs_dir_alloc a s = Some (Val (), t)"
    by (simp only: lfs_dir_alloc_def k1 k2 k3 k4 k5 prod.case k6 sum.case bnd_ret bnd_gets cfg s6_cfg k7 k8)
  moreover have "ready cfg t" by (rule ready_same [OF r5(1)]) (simp_all add: t_def)
  moreover have "l_dev t = l_dev s" using r5(2) by (simp add: t_def m4)
  ultimately show ?thesis
    using rc5 f5 reloaded_limits [OF s5(2)] by (intro exI [of _ t]) (simp add: t_def n4_def meta_frame_def s4_def s3_def s2_def)
qed

lemma superblock_size: "length (entries_bytes p (superblock_entries sb)) = 40"
  by (simp add: superblock_entries_def superblock_tags entry_bytes_def superblock_facts length_superblock)

lemma superblock_summary: "closing fc \<Longrightarrow> log_summary [(superblock_entries sb @ fc, ctag, pad)] = (1, (LFS_BLOCK_NULL, LFS_BLOCK_NULL), False)"
proof -
  assume fc: "closing fc"
  have f: "lfs_tag_type1 0x0ff00008 = LFS_TYPE_NAME" "lfs_tag_id 0x0ff00008 = 0" "lfs_tag_type1 0x20100018 \<noteq> LFS_TYPE_NAME"
    "lfs_tag_type1 0x20100018 \<noteq> LFS_TYPE_SPLICE" "lfs_tag_type1 0x20100018 \<noteq> LFS_TYPE_TAIL"
    by (code_simp, code_simp, code_simp, code_simp, code_simp)
  have "log_summary ([] @ [(superblock_entries sb @ fc, ctag, pad)]) = fold note_entry (superblock_entries sb) (log_summary [])"
    by (rule log_summary_closed [OF fc])
  then show ?thesis by (simp add: superblock_entries_def superblock_tags note_entry_def f log_summary_def)
qed

lemma superblock_creates:
  "list_all only_creates (superblock_attrs sb)" "count_creates (superblock_attrs sb) 0 = 1"
proof -
  have f: "lfs_tag_type3 0x40100000 = LFS_TYPE_CREATE" "lfs_tag_type3 0x0ff00008 \<noteq> LFS_TYPE_CREATE" "lfs_tag_type3 0x20100018 \<noteq> LFS_TYPE_CREATE"
    "LFS_TYPE_CREATE \<noteq> LFS_TYPE_DELETE" "lfs_tag_type3 0x0ff00008 \<noteq> LFS_TYPE_DELETE" "lfs_tag_type3 0x20100018 \<noteq> LFS_TYPE_DELETE"
    "lfs_tag_type1 0x40100000 \<noteq> LFS_TYPE_TAIL" "lfs_tag_type1 0x0ff00008 \<noteq> LFS_TYPE_TAIL" "lfs_tag_type1 0x20100018 \<noteq> LFS_TYPE_TAIL"
    by (code_simp, code_simp, code_simp, code_simp, code_simp, code_simp, code_simp, code_simp, code_simp)
  show "list_all only_creates (superblock_attrs sb)" "count_creates (superblock_attrs sb) 0 = 1"
    by (simp_all add: superblock_attrs_def superblock_tags only_creates_def count_creates_def f)
qed

text \<open>One of the two commits, into the other block of the pair.\<close>

lemma superblock_committed:
  assumes r: "ready cfg s" and dir: "l_nodes s a = Some nd" "md_pair (nd_m nd) = (x, y)" "\<not> md_erased (nd_m nd)" "a < l_next_node s" "l_mlist s = None"
    and tl: "md_tail (nd_m nd) = (LFS_BLOCK_NULL, LFS_BLOCK_NULL)" "\<not> md_split (nd_m nd)"
    and xy: "unat x < bcount" "unat y < bcount" "x \<noteq> y" "cache_block (l_rcache s) \<noteq> y" and sz: "64 \<le> bsz"
    and attrs: "list_all only_creates attrs" "count_creates attrs (md_count (nd_m nd)) = 1" "untired cfg (md_rev (nd_m nd))"
    and g: "l_gstate s = gstate_zero" "l_gdisk s = gstate_zero" "l_gdelta s = gstate_zero"
    and log: "dir_log (blk (l_dev s) x) (nd_m nd) dles" "unat (md_off (nd_m nd)) \<le> bsz"
      "list_all (\<lambda>e. lfs_tag_type3 (fst e) \<noteq> LFS_TYPE_MOVESTATE) dles"
    and can: "\<And>d. md_off d = md_off (nd_m nd) \<Longrightarrow> compactable (blk (l_dev s) x) bsz d les attrs 0 1"
      "\<And>d. md_off d = md_off (nd_m nd) \<Longrightarrow> map (item_entry (blk (l_dev s) x)) (compacted_items d les attrs 0 1) = superblock_entries sb"
    and cfg: "metadata_limit cfg = cfg_block_size cfg" "unat (cfg_prog_size cfg) \<le> 1000"
  shows "\<exists>t fc ctag pad k nd'. lfs_dir_commit a attrs s = Some (Val (), t) \<and> closing fc
    \<and> block_log (blk (l_dev t) y) (md_rev (nd_m nd) + 1) [(superblock_entries sb @ fc, ctag, pad)] (replicate k 0xff)
    \<and> (\<forall>c. unat c < bcount \<longrightarrow> c \<noteq> y \<longrightarrow> blk (l_dev t) c = blk (l_dev s) c) \<and> ready cfg t
    \<and> l_nodes t a = Some nd' \<and> mdir_holds (y, x) (md_rev (nd_m nd) + 1) [(superblock_entries sb @ fc, ctag, pad)] (nd_m nd') \<and> lfs_tag_isvalid (next_tag ctag)
    \<and> l_gstate t = gstate_zero \<and> l_gdisk t = gstate_zero \<and> l_gdelta t = gstate_zero \<and> l_mlist t = None
    \<and> l_next_node t = l_next_node s \<and> (\<forall>z. unat z < bcount \<longrightarrow> z \<noteq> y \<longrightarrow> cache_block (l_rcache t) \<noteq> z)"
proof -
  define d where "d = (nd_m nd)\<lparr>md_count := 1\<rparr>"
  have d: "md_off d = md_off (nd_m nd)" "md_tail d = (LFS_BLOCK_NULL, LFS_BLOCK_NULL)" using tl by (simp_all add: d_def)
  have null: "lfs_pair_isnull (LFS_BLOCK_NULL, LFS_BLOCK_NULL)" by code_simp
  have z: "lfs_gstate_iszero (state_delta s dles)" by (rule zero_delta [OF g log(3)])
  have es: "superblock_entries sb = compacted_entries (blk (l_dev s) x) d les attrs 0 1 d (state_delta s dles)"
    using can(2) [OF d(1)] z null by (simp add: compacted_entries_def d(2))
  have lg: "dir_log (blk (l_dev s) x) d dles" "unat (md_off d) \<le> bsz" using log(1,2) by (simp_all add: d_def dir_log_def)
  have room: "length (entries_bytes 0xffffffff (superblock_entries sb)) + 12 \<le> bsz" using sz by (simp add: superblock_size)
  obtain t fc ctag pad k off where t: "lfs_dir_commit a attrs s = Some (Val (), t)" "closing fc"
      "block_log (blk (l_dev t) y) (md_rev (nd_m nd) + 1) [(superblock_entries sb @ fc, ctag, pad)] (replicate k 0xff)"
      "\<forall>c. unat c < bcount \<longrightarrow> c \<noteq> y \<longrightarrow> blk (l_dev t) c = blk (l_dev s) c" "ready cfg t"
      "l_nodes t a = Some (nd\<lparr>nd_m := (nd_m nd)\<lparr>md_rev := md_rev (nd_m nd) + 1, md_pair := (y, x), md_count := 1,
         md_off := off, md_etag := end_tag 0xffffffff [(superblock_entries sb @ fc, ctag, pad)]\<rparr>\<rparr>)"
      "unat off = length (log_head (md_rev (nd_m nd) + 1) [(superblock_entries sb @ fc, ctag, pad)])" "lfs_tag_isvalid (next_tag ctag)"
      "l_gstate t = l_gstate s" "l_gdisk t = l_gstate s" "l_gdelta t = gstate_zero" "l_mlist t = None"
      "l_next_node t = l_next_node s" "\<forall>z. unat z < bcount \<longrightarrow> z \<noteq> y \<longrightarrow> cache_block (l_rcache t) \<noteq> z"
    using commit_writes [OF r dir xy attrs(1,2) order_refl attrs(3) d_def lg can(1) [OF d(1)] es cfg(1) room cfg(2)] by blast
  have "mdir_holds (y, x) (md_rev (nd_m nd) + 1) [(superblock_entries sb @ fc, ctag, pad)]
      ((nd_m nd)\<lparr>md_rev := md_rev (nd_m nd) + 1, md_pair := (y, x), md_count := 1,
         md_off := off, md_etag := end_tag 0xffffffff [(superblock_entries sb @ fc, ctag, pad)]\<rparr>)"
    unfolding mdir_holds_def superblock_summary [OF t(2)] using t(7) tl by (simp add: log_head_def)
  then show ?thesis
    using t g(1)
    by (intro exI [of _ t] exI [of _ fc] exI [of _ ctag] exI [of _ pad] exI [of _ k])
      (simp only: simp_thms option.inject ex_simps, simp del: end_tag.simps)
qed

text \<open>The first, into block 0, from the attributes; the second, into block 1, from what is then in block 0.\<close>

lemma superblock_first:
  assumes r: "ready cfg s" and dir: "l_nodes s a = Some nd" "nd_m nd = fresh_pair rv" "a < l_next_node s" "l_mlist s = None"
    and bc: "2 \<le> bcount" "64 \<le> bsz" "cache_block (l_rcache s) \<noteq> 0" and rv: "untired cfg rv"
    and g: "l_gstate s = gstate_zero" "l_gdisk s = gstate_zero" "l_gdelta s = gstate_zero"
    and cfg: "metadata_limit cfg = cfg_block_size cfg" "unat (cfg_prog_size cfg) \<le> 1000"
  shows "\<exists>t fc ctag pad k nd'. lfs_dir_commit a (superblock_attrs sb) s = Some (Val (), t) \<and> closing fc
    \<and> block_log (blk (l_dev t) 0) (rv + 1) [(superblock_entries sb @ fc, ctag, pad)] (replicate k 0xff)
    \<and> (\<forall>c. unat c < bcount \<longrightarrow> c \<noteq> 0 \<longrightarrow> blk (l_dev t) c = blk (l_dev s) c) \<and> ready cfg t
    \<and> l_nodes t a = Some nd' \<and> mdir_holds (0, 1) (rv + 1) [(superblock_entries sb @ fc, ctag, pad)] (nd_m nd') \<and> lfs_tag_isvalid (next_tag ctag)
    \<and> l_gstate t = gstate_zero \<and> l_gdisk t = gstate_zero \<and> l_gdelta t = gstate_zero \<and> l_mlist t = None
    \<and> l_next_node t = l_next_node s \<and> (\<forall>z. unat z < bcount \<longrightarrow> z \<noteq> 0 \<longrightarrow> cache_block (l_rcache t) \<noteq> z)"
proof -
  have f: "md_pair (nd_m nd) = (1, 0)" "\<not> md_erased (nd_m nd)" "md_tail (nd_m nd) = (LFS_BLOCK_NULL, LFS_BLOCK_NULL)" "\<not> md_split (nd_m nd)"
    "md_count (nd_m nd) = 0" "md_rev (nd_m nd) = rv" "md_off (nd_m nd) = 4"
    unfolding dir(2) by (simp_all add: fresh_pair_def)
  have b: "unat (1 :: u32) < bcount" "unat (0 :: u32) < bcount" "(1 :: u32) \<noteq> 0" using bc(1) by simp_all
  have len: "length (blk (l_dev s) 1) = bsz" "bsz < 2 ^ 30"
    using r b by (auto simp: log_ready_def prog_geometry_def attached_to_def blk_length)
  have log: "dir_log (blk (l_dev s) 1) (nd_m nd) []" "unat (md_off (nd_m nd)) \<le> bsz" using f bc(2) by (simp_all add: dir_log_def)
  have can: "compactable (blk (l_dev s) 1) bsz d [] (superblock_attrs sb) 0 1"
      "map (item_entry (blk (l_dev s) 1)) (compacted_items d [] (superblock_attrs sb) 0 1) = superblock_entries sb"
    if "md_off d = md_off (nd_m nd)" for d
    by (rule first_compactable; use that f len bc(2) in simp)+
  have c: "count_creates (superblock_attrs sb) (md_count (nd_m nd)) = 1" "untired cfg (md_rev (nd_m nd))"
    using superblock_creates(2) rv f by simp_all
  show ?thesis
    using superblock_committed [OF r dir(1) f(1,2) dir(3,4) f(3,4) b bc(3,2) superblock_creates(1) c g log _ can cfg] f(6) by simp
qed

lemma superblock_again:
  assumes r: "ready cfg s" and dir: "l_nodes s a = Some nd" "\<not> md_erased (nd_m nd)" "a < l_next_node s" "l_mlist s = None"
    and fc: "closing fc" "lfs_tag_isvalid (next_tag ctag)" and holds: "mdir_holds (0, 1) rv [(superblock_entries sb @ fc, ctag, pad)] (nd_m nd)"
    and blog: "block_log (blk (l_dev s) 0) rv [(superblock_entries sb @ fc, ctag, pad)] q"
    and bc: "2 \<le> bcount" "64 \<le> bsz" "cache_block (l_rcache s) \<noteq> 1" and rv: "untired cfg rv"
    and g: "l_gstate s = gstate_zero" "l_gdisk s = gstate_zero" "l_gdelta s = gstate_zero"
    and cfg: "metadata_limit cfg = cfg_block_size cfg" "unat (cfg_prog_size cfg) \<le> 1000"
  shows "\<exists>t fc ctag pad k nd'. lfs_dir_commit a [] s = Some (Val (), t) \<and> closing fc
    \<and> block_log (blk (l_dev t) 1) (rv + 1) [(superblock_entries sb @ fc, ctag, pad)] (replicate k 0xff)
    \<and> (\<forall>c. unat c < bcount \<longrightarrow> c \<noteq> 1 \<longrightarrow> blk (l_dev t) c = blk (l_dev s) c) \<and> ready cfg t
    \<and> l_nodes t a = Some nd' \<and> mdir_holds (1, 0) (rv + 1) [(superblock_entries sb @ fc, ctag, pad)] (nd_m nd') \<and> lfs_tag_isvalid (next_tag ctag)
    \<and> l_gstate t = gstate_zero \<and> l_gdisk t = gstate_zero \<and> l_gdelta t = gstate_zero \<and> l_mlist t = None
    \<and> l_next_node t = l_next_node s \<and> (\<forall>z. unat z < bcount \<longrightarrow> z \<noteq> 1 \<longrightarrow> cache_block (l_rcache t) \<noteq> z)"
proof -
  let ?cs = "[(superblock_entries sb @ fc, ctag, pad)]"
  have f: "md_pair (nd_m nd) = (0, 1)" "md_rev (nd_m nd) = rv" "unat (md_off (nd_m nd)) = length (log_head rv ?cs)"
    "md_tail (nd_m nd) = (LFS_BLOCK_NULL, LFS_BLOCK_NULL)" "\<not> md_split (nd_m nd)" "md_count (nd_m nd) = 1" "md_etag (nd_m nd) = end_tag 0xffffffff ?cs"
    using holds unfolding mdir_holds_def superblock_summary [OF fc(1)] by (simp_all add: log_head_def del: end_tag.simps)
  have b: "unat (0 :: u32) < bcount" "unat (1 :: u32) < bcount" "(0 :: u32) \<noteq> 1" using bc(1) by simp_all
  have len: "length (blk (l_dev s) 0) = bsz" "bsz < 2 ^ 30"
    using r b by (auto simp: log_ready_def prog_geometry_def attached_to_def blk_length)
  have wf: "lfs_tag_type2 ctag = LFS_TYPE_CCRC" "unat (lfs_tag_dsize ctag) \<ge> 8" using blog by (simp_all add: block_log_def Let_def wf_commit_def)
  have valid: "lfs_tag_isvalid (md_etag (nd_m nd))" using fc(2) f(7) by simp
  have log: "dir_log (blk (l_dev s) 0) (nd_m nd) (rev (log_entries rv ?cs))" "unat (md_off (nd_m nd)) \<le> bsz"
    using fetched_dir_log [OF blog holds valid] block_log_walk(2) [OF blog] len f(3) by simp_all
  have can: "compactable (blk (l_dev s) 0) bsz d (log_entries rv ?cs) [] 0 1"
      "map (item_entry (blk (l_dev s) 0)) (compacted_items d (log_entries rv ?cs) [] 0 1) = superblock_entries sb"
    if "md_off d = md_off (nd_m nd)" for d
    by (rule again_compactable [OF blog fc(1) len]; use that f(3) in simp)+
  have c: "list_all only_creates []" "count_creates [] (md_count (nd_m nd)) = 1" "untired cfg (md_rev (nd_m nd))"
    using rv f by (simp_all add: count_creates_def)
  show ?thesis
    using superblock_committed [OF r dir(1) f(1) dir(2-4) f(4,5) b bc(3,2) c g log superblock_no_movestate [OF fc(1) wf(1)] can cfg] f(2) by simp
qed

lemma or_deinit_Val: "c s = Some (Val x, t) \<Longrightarrow> or_deinit c s = Some (Val x, t)"
  unfolding or_deinit_def by (subst bnd_run_Val [OF attempt_run_Val], assumption) (simp add: ret_def)

text \<open>After both, a fetch of the pair finds the second.\<close>

lemma format_commits:
  fixes s :: "'d lfs"
  assumes r: "ready cfg s" and dir: "l_nodes s a = Some nd" "nd_m nd = fresh_pair rv" "a < l_next_node s" "l_mlist s = None"
    and bc: "2 \<le> bcount" "64 \<le> bsz" "cache_block (l_rcache s) \<noteq> 0" and rv: "untired cfg rv" "untired cfg (rv + 1)"
    and g: "l_gstate s = gstate_zero" "l_gdisk s = gstate_zero" "l_gdelta s = gstate_zero"
    and cfg: "metadata_limit cfg = cfg_block_size cfg" "unat (cfg_prog_size cfg) \<le> 1000"
  shows "\<exists>t fc ctag pad q fc' ctag' pad' q'. bnd (or_deinit (lfs_dir_commit a (superblock_attrs sb))) (\<lambda>_.
      bnd (upd_mdir a (\<lambda>d. d\<lparr>md_erased := False\<rparr>)) (\<lambda>_. bnd (or_deinit (lfs_dir_commit a [])) (\<lambda>_.
      bnd (or_deinit (lfs_dir_fetch a (0, 1))) (\<lambda>_. lfs_deinit)))) s = Some (Val (), t)
    \<and> closing fc \<and> block_log (blk (l_dev t) 1) (rv + 2) [(superblock_entries sb @ fc, ctag, pad)] q
    \<and> closing fc' \<and> block_log (blk (l_dev t) 0) (rv + 1) [(superblock_entries sb @ fc', ctag', pad')] q'
    \<and> (\<forall>c. unat c < bcount \<longrightarrow> c \<noteq> 0 \<longrightarrow> c \<noteq> 1 \<longrightarrow> blk (l_dev t) c = blk (l_dev s) c) \<and> dok (l_dev t)"
proof -
  obtain t1 fc1 ctag1 pad1 k1 nd1 where t1: "lfs_dir_commit a (superblock_attrs sb) s = Some (Val (), t1)" "closing fc1"
      "block_log (blk (l_dev t1) 0) (rv + 1) [(superblock_entries sb @ fc1, ctag1, pad1)] (replicate k1 0xff)"
      "\<forall>c. unat c < bcount \<longrightarrow> c \<noteq> 0 \<longrightarrow> blk (l_dev t1) c = blk (l_dev s) c" "ready cfg t1" "l_nodes t1 a = Some nd1"
      "mdir_holds (0, 1) (rv + 1) [(superblock_entries sb @ fc1, ctag1, pad1)] (nd_m nd1)" "lfs_tag_isvalid (next_tag ctag1)"
      "l_gstate t1 = gstate_zero" "l_gdisk t1 = gstate_zero" "l_gdelta t1 = gstate_zero" "l_mlist t1 = None"
      "l_next_node t1 = l_next_node s" "\<forall>z. unat z < bcount \<longrightarrow> z \<noteq> 0 \<longrightarrow> cache_block (l_rcache t1) \<noteq> z"
    using superblock_first [OF r dir bc rv(1) g cfg] by blast
  define nd2 where "nd2 = nd1\<lparr>nd_m := (nd_m nd1)\<lparr>md_erased := False\<rparr>\<rparr>"
  define t2 where "t2 = t1\<lparr>l_nodes := (l_nodes t1)(a \<mapsto> nd2)\<rparr>"
  have b: "unat (0 :: u32) < bcount" "unat (1 :: u32) < bcount" using bc(1) by simp_all
  have p2: "ready cfg t2" by (rule ready_same [OF t1(5)]) (simp_all add: t2_def)
  have q2: "l_nodes t2 a = Some nd2" "\<not> md_erased (nd_m nd2)" "a < l_next_node t2" "l_mlist t2 = None" "l_dev t2 = l_dev t1"
    "cache_block (l_rcache t2) \<noteq> 1" "l_gstate t2 = gstate_zero" "l_gdisk t2 = gstate_zero" "l_gdelta t2 = gstate_zero"
    using t1 dir(3) b(2) by (simp_all add: t2_def nd2_def)
  have h2: "mdir_holds (0, 1) (rv + 1) [(superblock_entries sb @ fc1, ctag1, pad1)] (nd_m nd2)"
    using t1(7) by (simp add: mdir_holds_def nd2_def)
  obtain t3 fc2 ctag2 pad2 k2 nd3 where t3: "lfs_dir_commit a [] t2 = Some (Val (), t3)" "closing fc2"
      "block_log (blk (l_dev t3) 1) (rv + 1 + 1) [(superblock_entries sb @ fc2, ctag2, pad2)] (replicate k2 0xff)"
      "\<forall>c. unat c < bcount \<longrightarrow> c \<noteq> 1 \<longrightarrow> blk (l_dev t3) c = blk (l_dev t2) c" "ready cfg t3" "l_nodes t3 a = Some nd3"
    using superblock_again [OF p2 q2(1-4) t1(2,8) h2 t1(3) [folded q2(5)] bc(1,2) q2(6) rv(2) q2(7-9) cfg] by blast
  have log0: "block_log (blk (l_dev t3) 0) (rv + 1) [(superblock_entries sb @ fc1, ctag1, pad1)] (replicate k1 0xff)"
    using t3(4) b(1) t1(3) q2(5) by simp
  have rd: "rd cfg (l_dev t3) a t3" by (rule ready_rd [OF t3(5) refl]) (simp add: t3(6))
  have sz: "unat (cfg_block_size cfg) = bsz" "bsz < 2 ^ 30" "4 \<le> bsz"
    using r bc(2) by (auto simp: log_ready_def prog_geometry_def attached_to_def)
  have fl: "fetched_log (0, 1) (rv + 1, [(superblock_entries sb @ fc1, ctag1, pad1)]) (rv + 1 + 1, [(superblock_entries sb @ fc2, ctag2, pad2)])
      = ((1, 0), rv + 1 + 1, [(superblock_entries sb @ fc2, ctag2, pad2)])"
    by (rule fetched_newest(2)) simp_all
  obtain u where u: "lfs_dir_fetch a (0, 1) t3 = Some (Val (), u)" "rd cfg (l_dev t3) a u"
    using dir_fetch_log [OF block_device_axioms rd sz(1,3,2) _ _ _ _ fl, of "replicate k1 0xff" "replicate k2 0xff"] b log0 t3(3)
    by (auto simp: superblock_summary [OF t3(2)])
  have c1: "bnd (or_deinit (lfs_dir_commit a (superblock_attrs sb))) k s = k () t1" for k :: "_ \<Rightarrow> ('d, 'x) fs"
    by (rule bnd_run_Val) (rule or_deinit_Val, rule t1(1))
  have c2: "bnd (upd_mdir a (\<lambda>d. d\<lparr>md_erased := False\<rparr>)) k t1 = k () t2" for k :: "_ \<Rightarrow> ('d, 'x) fs"
    by (rule bnd_run_Val) (simp add: upd_mdir_run [OF t1(6)] t2_def nd2_def)
  have c3: "bnd (or_deinit (lfs_dir_commit a [])) k t2 = k () t3" for k :: "_ \<Rightarrow> ('d, 'x) fs"
    by (rule bnd_run_Val) (rule or_deinit_Val, rule t3(1))
  have c4: "bnd (or_deinit (lfs_dir_fetch a (0, 1))) k t3 = k () u" for k :: "_ \<Rightarrow> ('d, 'x) fs"
    by (rule bnd_run_Val) (rule or_deinit_Val, rule u(1))
  have run: "bnd (or_deinit (lfs_dir_commit a (superblock_attrs sb))) (\<lambda>_. bnd (upd_mdir a (\<lambda>d. d\<lparr>md_erased := False\<rparr>)) (\<lambda>_.
      bnd (or_deinit (lfs_dir_commit a [])) (\<lambda>_. bnd (or_deinit (lfs_dir_fetch a (0, 1))) (\<lambda>_. lfs_deinit)))) s = Some (Val (), u)"
    by (simp only: c1 c2 c3 c4) (simp add: lfs_deinit_def ret_def)
  have du: "l_dev u = l_dev t3" "dok (l_dev u)" using u(2) by (auto simp: rd_state_def attached_to_def)
  have "rv + 1 + 1 = rv + 2" by simp
  then have log1: "block_log (blk (l_dev u) 1) (rv + 2) [(superblock_entries sb @ fc2, ctag2, pad2)] (replicate k2 0xff)"
    unfolding du(1) using t3(3) by metis
  have others: "\<forall>c. unat c < bcount \<longrightarrow> c \<noteq> 0 \<longrightarrow> c \<noteq> 1 \<longrightarrow> blk (l_dev u) c = blk (l_dev s) c"
    unfolding du(1) using t1(4) t3(4) q2(5) by metis
  show ?thesis using run t1(2) t3(2) log1 log0 [folded du(1)] others du(2) by blast
qed

end

text \<open>The revision count starts at a multiple of the period after which a pair moves.\<close>

lemma odd_period:
  fixes c :: u32
  assumes "sint c > 0"
  shows "unat ((c + 1) OR 1) \<ge> 3"
proof -
  have "\<not> bit c 31" using assms by (simp add: bit_last_iff [of c, simplified])
  then have "unat c < 2 ^ 31" by (intro bits_above_0_less) (auto simp: less_Suc_eq_le numeral_eq_Suc dest: le_antisym)
  moreover have "c \<noteq> 0" using assms by auto
  then have "0 < unat c" by (simp add: unat_gt_0)
  ultimately have "unat (c + 1) \<ge> 2" by (simp add: unat_word_ariths)
  moreover have "unat ((c + 1) OR 1) = unat (c + 1) OR 1" unfolding unsigned_or_eq by simp
  moreover have "n OR 1 \<ge> 3" if "2 \<le> n" for n :: nat
    using that unfolding or_one_eq by (cases "n = 2") auto
  ultimately show ?thesis by simp
qed

lemma start_untired:
  assumes "sint (cfg_block_cycles cfg) \<le> 0 \<or> unat (start_revision cfg bs) + 2 < 2 ^ 32"
  shows "untired cfg (start_revision cfg bs)" "untired cfg (start_revision cfg bs + 1)"
proof -
  let ?rv = "start_revision cfg bs" and ?m = "(cfg_block_cycles cfg + 1) OR 1"
  have "\<not> unat ?m dvd unat (?rv + 1) \<and> \<not> unat ?m dvd unat (?rv + 1 + 1)" if c: "sint (cfg_block_cycles cfg) > 0"
  proof -
    have less: "unat ?rv + 2 < 2 ^ 32" using assms c by auto
    then have u: "unat (?rv + 1) = unat ?rv + 1" "unat (?rv + 1 + 1) = unat ?rv + 2"
      by (simp_all add: unat_word_ariths)
    have dvd: "unat ?m dvd unat ?rv" using c by (simp add: start_revision_def Let_def lfs_alignup_dvd)
    have "unat ?m \<ge> 3" by (rule odd_period [OF c])
    then have "\<not> unat ?m dvd 1" "\<not> unat ?m dvd 2" by (auto dest: dvd_imp_le)
    then show ?thesis using dvd by (simp only: u dvd_add_right_iff) simp
  qed
  then show "untired cfg ?rv" "untired cfg (?rv + 1)" by (auto simp: untired_def)
qed

context block_device
begin

lemma format_runs:
  fixes s :: "'d lfs"
  assumes f: "formattable cfg s" and "cfg_context cfg = st" "dok (l_dev s)" "unat (cfg_block_size cfg) = bsz" "bsz < 2 ^ 30"
    and bc: "unat (cfg_block_count cfg) = bcount" "2 \<le> bcount" "bcount < 2 ^ 32 - 2"
    and rv: "rv = start_revision cfg (blk (l_dev s) 1)" "sint (cfg_block_cycles cfg) \<le> 0 \<or> unat rv + 2 < 2 ^ 32"
  shows "\<exists>t fc ctag pad q fc' ctag' pad' q'. lfs_format_raw cfg s = Some (Val (), t) \<and> closing fc
    \<and> block_log (blk (l_dev t) 1) (rv + 2) [(superblock_entries (formatted_superblock cfg) @ fc, ctag, pad)] q
    \<and> closing fc' \<and> block_log (blk (l_dev t) 0) (rv + 1) [(superblock_entries (formatted_superblock cfg) @ fc', ctag', pad')] q'
    \<and> (\<forall>c. unat c < bcount \<longrightarrow> c \<noteq> 0 \<longrightarrow> c \<noteq> 1 \<longrightarrow> blk (l_dev t) c = blk (l_dev s) c) \<and> dok (l_dev t)"
proof -
  define s2 where "s2 = looked_ahead cfg s"
  define p where "p = l_next_node s"
  define s3 where "s3 = s2\<lparr>l_nodes := (l_nodes s2)(p \<mapsto> node_default\<lparr>nd_m := mdir_zero\<rparr>), l_next_node := Suc p\<rparr>"
  have st: "format_started cfg s s2" unfolding s2_def by (rule looked_started [OF f]) (use bc in simp)
  have r2: "ready cfg s2" unfolding s2_def by (rule looked_ready [OF assms(1-8)])
  have r3: "ready cfg s3" by (rule ready_same [OF r2]) (simp_all add: s3_def)
  have w3: "blank_window s3" "la_start (l_lookahead s3) = 0" "la_next (l_lookahead s3) = 0" "2 \<le> la_size (l_lookahead s3)"
    "l_nodes s3 p = Some (node_default\<lparr>nd_m := mdir_zero\<rparr>)" "cache_block (l_rcache s3) = LFS_BLOCK_NULL"
    using st by (auto simp: format_started_def blank_window_def s3_def)
  have m3: "l_dev s3 = l_dev s" "l_next_node s3 = Suc p" "l_mlist s3 = None" "l_gstate s3 = gstate_zero" "l_gdisk s3 = gstate_zero"
      "l_gdelta s3 = gstate_zero" "l_block_count s3 = cfg_block_count cfg" "l_name_max s3 = or_default (cfg_name_max cfg) LFS_NAME_MAX"
      "l_file_max s3 = or_default (cfg_file_max cfg) LFS_FILE_MAX" "l_attr_max s3 = or_default (cfg_attr_max cfg) LFS_ATTR_MAX"
    using st by (simp_all add: format_started_def s3_def)
  have sz: "128 \<le> bsz" using f assms(4) by (auto simp: formattable_def config_ok_def init_sizes_ok_def word_le_nat_alt)
  obtain s4 where s4: "lfs_dir_alloc p s3 = Some (Val (), s4)" "ready cfg s4" "l_dev s4 = l_dev s3" "cache_block (l_rcache s4) \<noteq> 0"
      "l_nodes s4 = (l_nodes s3)(p \<mapsto> node_default\<lparr>nd_m := fresh_pair (start_revision cfg (blk (l_dev s3) 1))\<rparr>)"
      "l_next_node s4 = l_next_node s3" "l_mlist s4 = l_mlist s3" "l_gstate s4 = l_gstate s3" "l_gdisk s4 = l_gdisk s3" "l_gdelta s4 = l_gdelta s3"
      "l_block_count s4 = l_block_count s3" "l_name_max s4 = l_name_max s3" "l_file_max s4 = l_file_max s3" "l_attr_max s4 = l_attr_max s3"
    using dir_alloc_run [OF r3 w3(1-4) bc(2) _ w3(5,6)] sz by auto
  let ?sb = "formatted_superblock cfg"
  have rt: "untired cfg rv" "untired cfg (rv + 1)" using start_untired [of cfg "blk (l_dev s) 1"] rv by simp_all
  have n4: "l_nodes s4 p = Some (node_default\<lparr>nd_m := fresh_pair rv\<rparr>)" "p < l_next_node s4" "l_mlist s4 = None"
    "l_gstate s4 = gstate_zero" "l_gdisk s4 = gstate_zero" "l_gdelta s4 = gstate_zero"
    using s4 m3 rv(1) by simp_all
  have lim: "metadata_limit cfg = cfg_block_size cfg" "unat (cfg_prog_size cfg) \<le> 1000" using f by (simp_all add: formattable_def)
  obtain t fc ctag pad q fc' ctag' pad' q' where t: "bnd (or_deinit (lfs_dir_commit p (superblock_attrs ?sb))) (\<lambda>_.
      bnd (upd_mdir p (\<lambda>d. d\<lparr>md_erased := False\<rparr>)) (\<lambda>_. bnd (or_deinit (lfs_dir_commit p [])) (\<lambda>_.
      bnd (or_deinit (lfs_dir_fetch p (0, 1))) (\<lambda>_. lfs_deinit)))) s4 = Some (Val (), t)"
    "closing fc" "block_log (blk (l_dev t) 1) (rv + 2) [(superblock_entries ?sb @ fc, ctag, pad)] q"
    "closing fc'" "block_log (blk (l_dev t) 0) (rv + 1) [(superblock_entries ?sb @ fc', ctag', pad')] q'"
    "\<forall>c. unat c < bcount \<longrightarrow> c \<noteq> 0 \<longrightarrow> c \<noteq> 1 \<longrightarrow> blk (l_dev t) c = blk (l_dev s4) c" "dok (l_dev t)"
    using format_commits [OF s4(2) n4(1) _ n4(2,3) bc(2) _ s4(4) rt n4(4-6) lim, of ?sb] sz by auto
  have k1: "bnd (or_deinit (lfs_init cfg)) k s = k () (inited cfg s)" for k :: "_ \<Rightarrow> ('d, 'x) fs"
    by (rule bnd_run_Val) (rule or_deinit_Val, rule init_formattable [OF f])
  have k2: "bnd (format_lookahead cfg) k (inited cfg s) = k () s2" for k :: "_ \<Rightarrow> ('d, 'x) fs"
    unfolding s2_def by (rule bnd_run_Val) (rule lookahead_formattable [OF f])
  have k3: "bnd (or_deinit (lfs_dir_alloc p)) k s3 = k () s4" for k :: "_ \<Rightarrow> ('d, 'x) fs"
    by (rule bnd_run_Val) (rule or_deinit_Val, rule s4(1))
  have "format_superblock cfg s4 = Some (Val ?sb, s4)"
    using s4(11-14) m3 by (simp add: format_superblock_def formatted_superblock_def gets_def)
  then have k4: "bnd (format_superblock cfg) k s4 = k ?sb s4" for k :: "_ \<Rightarrow> ('d, 'x) fs" by (rule bnd_run_Val)
  have k5: "bnd (check (cfg_block_count cfg \<noteq> 0)) k u = k () u" for k :: "_ \<Rightarrow> ('d, 'x) fs" and u
    by (rule bnd_run_Val) (use bc in \<open>auto simp: check_def ret_def\<close>)
  have root: "with_mdir mdir_zero (\<lambda>root. bnd (or_deinit (lfs_dir_alloc root)) (\<lambda>_. bnd (format_superblock cfg) (\<lambda>sb.
      bnd (or_deinit (lfs_dir_commit root (superblock_attrs sb))) (\<lambda>_. bnd (upd_mdir root (\<lambda>d. d\<lparr>md_erased := False\<rparr>)) (\<lambda>_.
      bnd (or_deinit (lfs_dir_commit root [])) (\<lambda>_. bnd (or_deinit (lfs_dir_fetch root (0, 1))) (\<lambda>_. lfs_deinit))))))) s2
    = Some (Val (), t\<lparr>l_nodes := (l_nodes t)(p := None), l_next_node := p\<rparr>)"
  proof (rule with_mdir_run [where b = p and u = s3 and t = t])
    show "l_next_node s2 = p" using st by (simp add: format_started_def p_def)
    show "bnd (or_deinit (lfs_dir_alloc p)) (\<lambda>_. bnd (format_superblock cfg) (\<lambda>sb.
      bnd (or_deinit (lfs_dir_commit p (superblock_attrs sb))) (\<lambda>_. bnd (upd_mdir p (\<lambda>d. d\<lparr>md_erased := False\<rparr>)) (\<lambda>_.
      bnd (or_deinit (lfs_dir_commit p [])) (\<lambda>_. bnd (or_deinit (lfs_dir_fetch p (0, 1))) (\<lambda>_. lfs_deinit)))))) s3 = Some (Val (), t)"
      unfolding k3 k4 by (rule t(1))
  qed (rule s3_def, rule refl)
  then have "lfs_format_raw cfg s = Some (Val (), t\<lparr>l_nodes := (l_nodes t)(p := None), l_next_node := p\<rparr>)"
    by (simp only: lfs_format_raw_def k1 k5 k2)
  moreover define v where "v = t\<lparr>l_nodes := (l_nodes t)(p := None), l_next_node := p\<rparr>"
  moreover have "l_dev v = l_dev t" "l_dev s4 = l_dev s" using s4(3) m3(1) by (simp_all add: v_def)
  ultimately show ?thesis using t(2-7) by metis
qed

end

subsection \<open>The property\<close>

text \<open>C5 (functional). Formatting writes the superblock, twice.  On any device, whatever bytes it holds,
  \<open>lfs_format_raw\<close> with a configuration that passes the assertions of \<open>lfs_init\<close> and names the number of
  blocks of the device, at least two, succeeds, and the pair of the
  blocks 0 and 1 then has a history that ends with one commit, of the superblock and nothing else: the magic
  string, and the version, the geometry and the limits of the configuration, which are the defaults where it
  says zero.  The newest copy is in block 1, and block 0 holds the same entries one revision before, so that
  no older superblock is left to mount; the revisions follow on what block 1 held, rounded up to the
  period of wear levelling.  All other blocks are as they were.

  The limits.  The three buffers differ and are shorter than \<open>2 ^ 29\<close> (lookahead) and \<open>2 ^ 31\<close> bytes (program),
  the program buffer is a multiple of the program unit (all in \<open>formattable\<close>), the metadata may fill a block, a program unit has at most 1000 bytes, and the revision
  count is not about to wrap when wear levelling is on.\<close>

theorem format_writes_superblock:
  assumes "block_device st dok blk bsz bcount" "formattable cfg s" "cfg_context cfg = st" "dok (l_dev s)"
    and "unat (cfg_block_size cfg) = bsz" "bsz < 2 ^ 30" "unat (cfg_block_count cfg) = bcount" "2 \<le> bcount" "bcount < 2 ^ 32 - 2"
    and "rv = start_revision cfg (blk (l_dev s) 1)" "sint (cfg_block_cycles cfg) \<le> 0 \<or> unat rv + 2 < 2 ^ 32"
  shows "\<exists>t fc ctag pad fc' ctag' pad' q. lfs_format_raw cfg s = Some (Val (), t) \<and> closing fc \<and> closing fc'
    \<and> pair_history 1 (blk (l_dev t) 1) 0 (blk (l_dev t) 0) (rv + 2) [(superblock_entries (formatted_superblock cfg) @ fc, ctag, pad)]
    \<and> block_log (blk (l_dev t) 0) (rv + 1) [(superblock_entries (formatted_superblock cfg) @ fc', ctag', pad')] q
    \<and> (\<forall>c. blk (l_dev t) c = blk (l_dev s) c \<or> c = 0 \<or> c = 1 \<or> bcount \<le> unat c) \<and> dok (l_dev t)"
proof -
  obtain t fc ctag pad q fc' ctag' pad' q' where t: "lfs_format_raw cfg s = Some (Val (), t)" "closing fc"
    "block_log (blk (l_dev t) 1) (rv + 2) [(superblock_entries (formatted_superblock cfg) @ fc, ctag, pad)] q"
    "closing fc'" "block_log (blk (l_dev t) 0) (rv + 1) [(superblock_entries (formatted_superblock cfg) @ fc', ctag', pad')] q'"
    "\<forall>c. unat c < bcount \<longrightarrow> c \<noteq> 0 \<longrightarrow> c \<noteq> 1 \<longrightarrow> blk (l_dev t) c = blk (l_dev s) c" "dok (l_dev t)"
    using block_device.format_runs [OF assms] by blast
  have two: "rv + 1 + 1 = rv + 2" by simp
  have "pair_history 1 (blk (l_dev t) 1) 0 (blk (l_dev t) 0) (rv + 2) [(superblock_entries (formatted_superblock cfg) @ fc, ctag, pad)]"
    using compacted [OF created [OF t(5) blank_is_log], of 0 1, unfolded two, OF _ t(3)] by simp
  moreover have "\<forall>c. blk (l_dev t) c = blk (l_dev s) c \<or> c = 0 \<or> c = 1 \<or> bcount \<le> unat c" using t(6) by (auto simp: not_le)
  ultimately show ?thesis using t(1,2,4,5,7) by blast
qed

lemma demo_formattable: "formattable demo_config (demo_state d)"
  by (simp add: formattable_def demo_config_ok) (simp add: demo_defs metadata_limit_def)

theorem format_writes_superblock_witness:
  "\<exists>t fc ctag pad fc' ctag' pad' q. lfs_format_raw demo_config (demo_state demo_torn_dev) = Some (Val (), t) \<and> closing fc \<and> closing fc'
    \<and> pair_history 1 (ram_blk 128 (l_dev t) 1) 0 (ram_blk 128 (l_dev t) 0) 503
      [(superblock_entries (formatted_superblock demo_config) @ fc, ctag, pad)]
    \<and> block_log (ram_blk 128 (l_dev t) 0) 502 [(superblock_entries (formatted_superblock demo_config) @ fc', ctag', pad')] q
    \<and> (\<forall>c. ram_blk 128 (l_dev t) c = ram_blk 128 demo_torn_dev c \<or> c = 0 \<or> c = 1 \<or> 4 \<le> unat c) \<and> ram_wf 128 4 (l_dev t)"
proof -
  have rv: "start_revision demo_config (ram_blk 128 demo_torn_dev 1) = 501"
  proof -
    have "take 4 (ram_blk 128 demo_torn_dev 1) = u32_to_le 2" unfolding demo_torn_blocks by simp
    moreover have "u32_from_le (u32_to_le 2) = 2" "lfs_alignup 2 ((500 + 1) OR 1) = 501" "sint (500 :: u32) > 0"
      by (code_simp, code_simp, code_simp)
    ultimately show ?thesis by (simp add: start_revision_def demo_config_def)
  qed
  have sel: "l_dev (demo_state demo_torn_dev) = demo_torn_dev" "cfg_context demo_config = ram_driver 128"
    "unat (cfg_block_size demo_config) = 128" "unat (cfg_block_count demo_config) = 4"
    by (simp_all add: demo_defs)
  show ?thesis
    using format_writes_superblock [OF demo_device demo_formattable, of demo_torn_dev 501] demo_torn_wf by (simp add: rv sel)
qed

end
