(* ===== verification/Spec2Isabelle.thy ===== *)
theory Spec2Isabelle
  imports AllocProps GstateProps HandleProps MountProps PowerLoss InlineFile ReadOnly FormatTest Formatting
begin

text \<open>
  A verification library for littlefs-rust: the core crate \<open>littlefs-rust-core\<close>, a port of the
  LittleFS flash file system, the crate \<open>littlefs-rust\<close>, a safe interface to it with a driver
  that keeps the disk in memory, and the crate \<open>littlefs-rust-compat\<close>, scenarios that run the
  core on a memory it shares with the C library.

  The program.  The file system keeps its metadata in pairs of blocks, each a log of tagged
  entries closed by checksums; the newest valid log of the pair counts.  Directories are lists
  of such pairs, all pairs are threaded on one list.  Small files are inline in the log, others
  are skip lists of blocks.  Blocks are allocated from a window of the disk that is filled by a
  traversal of everything in use.  All accesses go through a read cache and a program cache.
  The driver behind the trait \<open>Storage\<close> is a parameter.

  The monad (Prelude).  A computation takes the state \<open>lfs\<close> to nothing (it does not return) or
  to an outcome, a value, an error or a panic, and a state.  The loops of the source are
  \<open>mloop\<close>, which is defined for every body and is \<open>None\<close> where the loop does not end; no fuel
  is used.  \<open>wp_mloop\<close> proves that a loop ends, \<open>mloop_diverges\<close> that it does not.

  The model: theories and sources (paths under \<open>littlefs-rust-core/src\<close> unless said otherwise).
    Types: \<open>types.rs\<close>, \<open>lfs_type.rs\<close>, \<open>error.rs\<close>, \<open>lfs_config.rs\<close>, \<open>lfs_alloc_module.rs\<close> and the
    structures of all modules.  Memory is a map from buffer numbers to bytes and one from node
    addresses to handles, so that shared and dangling pointers are visible.
    Util, Crc, Tag, Gstate: \<open>util.rs\<close>, \<open>crc.rs\<close>, \<open>tag.rs\<close>, \<open>lfs_gstate.rs\<close>.
    Bd: \<open>bd/bd.rs\<close>, \<open>bd/lfs_cache.rs\<close>.  Ram: \<open>littlefs-rust/src/ram.rs\<close>.
    Mlist: \<open>dir/lfs_mlist.rs\<close>.  Ctz, CtzExtend: \<open>file/ctz.rs\<close>, \<open>file/lfs_ctz.rs\<close>.
    Dirget, Traverse: \<open>dir/traverse.rs\<close>.  Fetch: \<open>dir/fetch.rs\<close>.  Find: \<open>dir/find.rs\<close>.
    FsTraverse: \<open>fs/traverse.rs\<close>, \<open>fs/stat.rs\<close>, \<open>lfs_superblock.rs\<close>, the cycle detector of
    \<open>fs/mount.rs\<close>.  Alloc: \<open>block_alloc/alloc.rs\<close>.  Parent: \<open>fs/parent.rs\<close>
    and the part of \<open>fs/superblock.rs\<close> that prepares the global state.
    Commit1, Commit2, Commit3: \<open>dir/commit.rs\<close>, the log writer, the compaction and splitting of
    a pair, and the commit that also repairs what a relocation has moved, with the repair after a
    power loss of \<open>fs/superblock.rs\<close>, \<open>fs/consistent.rs\<close> and \<open>fs/grow.rs\<close>.
    FileIo, FileOps: \<open>file/ops.rs\<close>.  Names: \<open>dir/open.rs\<close>, \<open>fs/mkdir.rs\<close>, \<open>fs/remove.rs\<close>,
    \<open>fs/rename.rs\<close>, \<open>fs/attr.rs\<close>.
    Mount: \<open>fs/init.rs\<close>, \<open>fs/format.rs\<close>, \<open>fs/mount.rs\<close>.  Api: the public functions of \<open>lib.rs\<close>.
    Wrapper: \<open>filesystem.rs\<close>, \<open>file.rs\<close>, \<open>dir.rs\<close>, \<open>config.rs\<close>, \<open>metadata.rs\<close> of \<open>littlefs-rust/src\<close>,
    with the destructors that run when a handle is dropped.
    Shared: the shared memory of \<open>littlefs-rust-compat/src/storage.rs\<close> with its callbacks, the
    configuration and the test data.  Compat: the scenarios of \<open>littlefs-rust-compat/src/rust_impl.rs\<close>.
    FormatTest: the helpers of the tests in \<open>fs/format.rs\<close> and the callback \<open>Test\<close> of
    \<open>dir/traverse.rs\<close>.

  The interface.  Device holds the locale \<open>block_device\<close>, the laws of a storage driver: reads
  return the bytes of the block, writes to erased bytes and erases change one block only.  Ram
  interprets it with the driver of the source, Shared with the shared memory, whose runs are
  shown to be those of the first driver.  What is proved about the caches (Device, BdOps),
  the log (Log), lookups (Robust, Steady), fetching (FetchLog), committing (WriteLog), traversing and
  compacting (Traversal, WriteItems, Compaction, CommitCompact), formatting (Formatting) and files
  (Ctz, FileRead, InlineFile) is proved in it once, and the properties have it as a hypothesis on any driver.
  The locale \<open>frame_rel\<close> (Prelude) stands for what an operation leaves alone; Frames and Steady
  interpret it.  Its extension \<open>lookup_rel\<close> (Frames) asks in addition that the read cache may
  change, and follows every operation that only looks things up; Frames interprets it with the
  state outside the cache, ReadOnly with a device that is not written.

  The proofs.
    The words and tables: alignment, bit counting and logarithms (Util), the checksum as the
    bitwise division and its detection of bursts (Crc), tags and their fields (Tag), the packed
    global state as a record of three facts, and what overflows between them (GstateProps).
    The storage layer: a cached read is a read of the device overlaid with what is still to be
    written (Device, Demo), and programming, comparing, checksumming and synchronising are
    operations on that view (BdOps, LogProps).
    The log: an entry that is appended is the one a lookup finds (Log, LogProps), and fetching a
    pair finds the complete commits of the newer block and no part of a torn one (FetchLog), a
    refinement of \<open>block_log\<close>, the format of a block as a list of commits; a commit that is written
    and closed by its checksum is the next one in that list (WriteLog), and after any history of
    completed and interrupted commits and compactions a fetch finds the last completed commit
    (PowerLoss, an inductive relation with its invariant).
    Compaction: the traversal of a log, with its stack and the phases of its nested filters, is a
    filter on the list of entries (Traversal); what it hands on is written in order, from memory or
    copied from the old block (WriteItems); so compacting a pair leaves in its other block one commit
    of the entries that survive, which is a step of its history (Compaction).  A commit to
    a directory whose block is not erased behind its log is such a compaction, through all layers of
    the commit (CommitCompact), and formatting is two of them, which write the superblock into both
    blocks of the first pair (Formatting).
    Corrupt disks: whatever the blocks hold, fetching and lookups return without a panic (Robust),
    what they return depends on the disk and not on the caches (Steady), the walk over the list
    of all pairs is stopped when it turns into a circle (Tortoise), and so mounting a device
    of a given number of blocks always returns (MountProps).
    Reading (ReadOnly): every operation that only reads, up to reading a file or a directory and
    closing a file that was not written, leaves the disk as it is.
    The open list (Mlist) and the handles on it across commits (HandleProps).
    Allocation: no block is handed out twice between two checkpoints (AllocProps).
    Files: the skip list finds the block of a position (Ctz), reading a file of any size returns
    its contents and seeking keeps that (FileRead), and the operations on an inline file are
    those of an array of bytes (InlineFile).
  Each property has an instance on a disk of four blocks of 128 bytes (Demo).

  Bounds and limits.  A block is smaller than \<open>2 ^ 30\<close> bytes, as everywhere in the source where offsets are
  signed; mounting is shown to return for at most \<open>2 ^ 14\<close> blocks, so that the counters of the cycle
  detector cannot wrap, and for a configuration that gives the number of blocks: with the count left to
  the superblock (zero) mounting is modelled, but it panics when no superblock is met; a commit is
  followed up to its checksum for a program size of at most
  1000 bytes, where one closing entry is enough; a file has fewer than \<open>2 ^ 26\<close> blocks in the theorems on skip lists.
  The theorems on traversing and compacting are about attributes that carry their own data: \<open>FROM_MOVE\<close>,
  which a rename uses, and \<open>FROM_USERATTRS\<close>, which synchronising a file uses, are modelled (Traverse) but
  the theorems do not cover them.  Compaction is followed in place, for a pair that is not due to be moved
  by wear levelling, a read cache that does not hold the block to be overwritten and a metadata limit of
  one block, and formatting with the same limits; relocation, \<open>LFS_OK_RELOCATED\<close> and splitting are modelled (Commit2, Commit3) without a theorem
  on their result.

  Assumptions of the model.  Debug assertions are on and integer overflow checks off, so \<open>u32\<close>
  arithmetic wraps; \<open>usize\<close> has 64 bits; the host is little-endian.  Out-of-range slices, a zero
  divisor and a dangling pointer are panics.  Allocating memory always succeeds.

  Not modelled.  \<open>macros.rs\<close> and \<open>borrow_unchecked.rs\<close> (logging and lifetime casts, without
  behaviour), the crate roots of \<open>littlefs-rust\<close> and \<open>littlefs-rust-compat\<close> (re-exports), the borrow
  flags of \<open>RefCell\<close> and the unwinding of panics; of \<open>littlefs-rust-compat\<close> the file \<open>c_impl.rs\<close> and
  the callbacks and configuration for the C library in \<open>storage.rs\<close>, which are a foreign
  function interface to a library that is not in the repository; the test macro, which
  rewrites the tokens of a program; the tests and the examples.
\<close>

end
